(* ===== verification/Gitman_Prelude.thy ===== *)
theory Gitman_Prelude
  imports Main "HOL-Library.Sublist" "HOL-Library.List_Lexorder" "HOL-Library.Char_ord"
begin

text \<open>
  The part of Go's language and standard library that the modelled packages use, on the
  representation every theory shares: a Go \<open>string\<close> or \<open>[]byte\<close> is a list of bytes
  (\<^typ>\<open>char\<close> is a byte), \<open>len\<close> is \<^const>\<open>length\<close> and \<open><\<close> on strings is the byte-wise
  lexicographic order of \<open>HOL-Library.List_Lexorder\<close>. The theory holds the functions of
  packages \<open>strings\<close>, \<open>unicode\<close> and \<open>unicode/utf8\<close> that the source calls, the algebra of
  those functions, generic facts on lists, and the collections the components add to.
\<close>

named_theorems go_simps \<open>equations of the string library that unfold on demand\<close>
named_theorems row_simps \<open>what a row update leaves alone\<close>
named_theorems inv_intros \<open>operations that preserve a component's invariant\<close>

type_synonym ('e, 'a) result = "'e + 'a"
type_synonym byte_string = string
type_synonym timestamp = int

abbreviation ok :: "'a \<Rightarrow> ('e, 'a) result" where
  "ok \<equiv> Inr"

section \<open>Characters\<close>

abbreviation code :: "char \<Rightarrow> nat" where
  "code c \<equiv> of_char c"

definition is_digit :: "char \<Rightarrow> bool" where
  "is_digit c \<longleftrightarrow> 48 \<le> code c \<and> code c \<le> 57"

definition is_upper :: "char \<Rightarrow> bool" where
  "is_upper c \<longleftrightarrow> 65 \<le> code c \<and> code c \<le> 90"

definition is_lower :: "char \<Rightarrow> bool" where
  "is_lower c \<longleftrightarrow> 97 \<le> code c \<and> code c \<le> 122"

definition is_alnum :: "char \<Rightarrow> bool" where
  "is_alnum c \<longleftrightarrow> is_digit c \<or> is_upper c \<or> is_lower c"

definition to_lower_char :: "char \<Rightarrow> char" where
  "to_lower_char c = (if is_upper c then char_of (code c + 32) else c)"

text \<open>
  \<open>strings.ToLower\<close> on the ASCII range, byte by byte. The source only inspects the result
  through tests that no non-ASCII input passes, or calls it after a character check.
\<close>

definition to_lower :: "string \<Rightarrow> string" where
  "to_lower = map to_lower_char"

lemma code_less_256 [simp]: "code c < 256"
  using nat_of_char_less_256 [of c] by simp

lemma length_to_lower [simp]: "length (to_lower s) = length s"
  by (simp add: to_lower_def)

lemma code_inject: "c = d \<longleftrightarrow> code c = code d"
  using char_of_char [of c] by (metis char_of_char)

lemma code_to_lower_char:
  "code (to_lower_char c) = (if is_upper c then code c + 32 else code c)"
  by (simp add: to_lower_char_def is_upper_def)

lemma to_lower_char_idem [simp]: "to_lower_char (to_lower_char c) = to_lower_char c"
  by (auto simp: to_lower_char_def is_upper_def)

lemma to_lower_idem [simp]: "to_lower (to_lower s) = to_lower s"
  by (simp add: to_lower_def)

lemma to_lower_fixed: "list_all (\<lambda>c. \<not> is_upper c) s \<Longrightarrow> to_lower s = s"
  by (induction s) (auto simp: to_lower_def to_lower_char_def)

section \<open>Package strings\<close>

text \<open>\<open>strings.Index\<close>: the least offset at which \<open>sub\<close> occurs, \<^const>\<open>None\<close> for -1.\<close>

fun index_of :: "string \<Rightarrow> string \<Rightarrow> nat option" where
  "index_of [] sub = (if sub = [] then Some 0 else None)"
| "index_of (c # s) sub =
     (if prefix sub (c # s) then Some 0 else map_option Suc (index_of s sub))"

definition contains :: "string \<Rightarrow> string \<Rightarrow> bool" where
  "contains s sub \<longleftrightarrow> index_of s sub \<noteq> None"

text \<open>\<open>strings.Split\<close> and \<open>strings.LastIndex\<close> with a one-byte separator.\<close>

fun split_on :: "char \<Rightarrow> string \<Rightarrow> string list" where
  "split_on c [] = [[]]"
| "split_on c (x # xs) =
     (if x = c then [] # split_on c xs
      else (case split_on c xs of [] \<Rightarrow> [[x]] | p # ps \<Rightarrow> (x # p) # ps))"

fun last_index :: "char \<Rightarrow> string \<Rightarrow> int" where
  "last_index c [] = -1"
| "last_index c (x # xs) =
     (let i = last_index c xs in if 0 \<le> i then i + 1 else if x = c then 0 else -1)"

fun join_with :: "string \<Rightarrow> string list \<Rightarrow> string" where
  "join_with sep [] = []"
| "join_with sep [p] = p"
| "join_with sep (p # q # ps) = p @ sep @ join_with sep (q # ps)"

definition trim_left :: "(char \<Rightarrow> bool) \<Rightarrow> string \<Rightarrow> string" where
  "trim_left P s = dropWhile P s"

definition trim_right :: "(char \<Rightarrow> bool) \<Rightarrow> string \<Rightarrow> string" where
  "trim_right P s = rev (dropWhile P (rev s))"

definition trim :: "(char \<Rightarrow> bool) \<Rightarrow> string \<Rightarrow> string" where
  "trim P s = trim_right P (trim_left P s)"

definition trim_prefix :: "string \<Rightarrow> string \<Rightarrow> string" where
  "trim_prefix s p = (if prefix p s then drop (length p) s else s)"

lemma index_of_Some:
  "index_of s sub = Some k \<Longrightarrow> k \<le> length s \<and> prefix sub (drop k s)"
  by (induction s sub arbitrary: k rule: index_of.induct) (auto split: if_splits)

lemma index_of_least:
  "index_of s sub = Some k \<Longrightarrow> j \<le> length s \<Longrightarrow> prefix sub (drop j s) \<Longrightarrow> k \<le> j"
proof (induction s sub arbitrary: k j rule: index_of.induct)
  case (2 c s sub)
  then show ?case by (cases j) (auto split: if_splits)
qed (auto split: if_splits)

lemma index_of_None: "index_of s sub = None \<longleftrightarrow> (\<forall>j \<le> length s. \<not> prefix sub (drop j s))"
proof (induction s sub rule: index_of.induct)
  case (2 c s sub)
  have "(\<forall>j \<le> length (c # s). \<not> prefix sub (drop j (c # s))) \<longleftrightarrow>
        \<not> prefix sub (c # s) \<and> (\<forall>j \<le> length s. \<not> prefix sub (drop j s))"
    by (metis Suc_le_mono drop0 drop_Suc_Cons le0 length_Cons not0_implies_Suc)
  with 2 show ?case by auto
qed auto

lemma contains_iff: "contains s sub \<longleftrightarrow> (\<exists>u v. s = u @ sub @ v)"
proof
  assume "contains s sub"
  then obtain k where "index_of s sub = Some k" by (auto simp: contains_def)
  then have "prefix sub (drop k s)" by (simp add: index_of_Some)
  then obtain v where "drop k s = sub @ v" by (auto simp: prefix_def)
  then have "s = take k s @ sub @ v" by (metis append_take_drop_id)
  then show "\<exists>u v. s = u @ sub @ v" by blast
next
  assume "\<exists>u v. s = u @ sub @ v"
  then obtain u v where s: "s = u @ sub @ v" by blast
  then have "length u \<le> length s" and "prefix sub (drop (length u) s)" by auto
  then show "contains s sub" unfolding contains_def using index_of_None by blast
qed

lemma contains_char [simp]: "contains s [c] \<longleftrightarrow> c \<in> set s"
  by (auto simp: contains_iff in_set_conv_decomp)

lemma split_on_not_Nil [simp]: "split_on c s \<noteq> []"
  by (induction s) (auto split: list.splits)

lemma split_on_no_sep: "c \<notin> set s \<Longrightarrow> split_on c s = [s]"
  by (induction s) auto

lemma split_on_parts: "p \<in> set (split_on c s) \<Longrightarrow> c \<notin> set p"
  by (induction s arbitrary: p) (fastforce split: list.splits if_splits)+

lemma split_on_append_sep:
  "c \<notin> set p \<Longrightarrow> split_on c (p @ c # s) = p # split_on c s"
  by (induction p) auto

lemma join_split: "join_with [c] (split_on c s) = s"
proof (induction s)
  case (Cons x s)
  obtain p ps where ps: "split_on c s = p # ps" by (cases "split_on c s") auto
  with Cons show ?case by (cases ps) auto
qed simp

lemma last_index_absent: "last_index c s = -1 \<longleftrightarrow> c \<notin> set s"
proof -
  have ge: "-1 \<le> last_index c s" for s by (induction s) (auto simp: Let_def)
  show ?thesis
  proof (induction s)
    case (Cons x s)
    then show ?case using ge [of s] by (auto simp: Let_def)
  qed simp
qed

lemma last_index_bounds: "-1 \<le> last_index c s \<and> last_index c s < int (length s)"
  by (induction s) (auto simp: Let_def)

lemma last_index_append:
  "last_index c (u @ v) = (if c \<in> set v then int (length u) + last_index c v else last_index c u)"
proof -
  have v: "last_index c v = -1 \<longleftrightarrow> c \<notin> set v" "-1 \<le> last_index c v"
    using last_index_absent [of c v] last_index_bounds [of c v] by auto
  then show ?thesis by (induction u) (auto simp: Let_def)
qed

section \<open>Package strconv\<close>

text \<open>\<open>strconv.FormatInt(n, 10)\<close>.\<close>

fun format_nat :: "nat \<Rightarrow> string" where
  "format_nat n =
     (if n < 10 then [char_of (48 + n)] else format_nat (n div 10) @ [char_of (48 + n mod 10)])"

declare format_nat.simps [simp del]

definition format_int :: "int \<Rightarrow> string" where
  "format_int n = (if n < 0 then CHR ''-'' # format_nat (nat (- n)) else format_nat (nat n))"

section \<open>Package unicode/utf8\<close>

text \<open>
  \<open>utf8.DecodeRune\<close>: the rune a non-empty byte string starts with and its width. A byte
  sequence that is not the shortest encoding of a Unicode scalar value decodes to
  \<open>RuneError\<close> (U+FFFD) with width 1, as Go's table of first bytes has it.
\<close>

definition cont :: "nat \<Rightarrow> nat \<Rightarrow> nat \<Rightarrow> bool" where
  "cont lo hi b \<longleftrightarrow> lo \<le> b \<and> b \<le> hi"

definition rune_error :: nat where
  "rune_error = 65533"

definition rune2 :: "nat \<Rightarrow> nat \<Rightarrow> bool" where
  "rune2 b0 b1 \<longleftrightarrow> cont 194 223 b0 \<and> cont 128 191 b1"

definition rune3 :: "nat \<Rightarrow> nat \<Rightarrow> nat \<Rightarrow> bool" where
  "rune3 b0 b1 b2 \<longleftrightarrow>
     cont 224 239 b0 \<and> cont (if b0 = 224 then 160 else 128) (if b0 = 237 then 159 else 191) b1 \<and>
     cont 128 191 b2"

definition rune4 :: "nat \<Rightarrow> nat \<Rightarrow> nat \<Rightarrow> nat \<Rightarrow> bool" where
  "rune4 b0 b1 b2 b3 \<longleftrightarrow>
     cont 240 244 b0 \<and> cont (if b0 = 240 then 144 else 128) (if b0 = 244 then 143 else 191) b1 \<and>
     cont 128 191 b2 \<and> cont 128 191 b3"

fun decode_multi :: "nat list \<Rightarrow> nat \<times> nat" where
  "decode_multi (b0 # b1 # bs) =
     (if rune2 b0 b1 then ((b0 - 192) * 64 + (b1 - 128), 2)
      else (case bs of
        [] \<Rightarrow> (rune_error, 1)
      | b2 # bs \<Rightarrow>
          if rune3 b0 b1 b2 then ((b0 - 224) * 4096 + (b1 - 128) * 64 + (b2 - 128), 3)
          else (case bs of
            [] \<Rightarrow> (rune_error, 1)
          | b3 # _ \<Rightarrow>
              if rune4 b0 b1 b2 b3
              then ((b0 - 240) * 262144 + (b1 - 128) * 4096 + (b2 - 128) * 64 + (b3 - 128), 4)
              else (rune_error, 1))))"
| "decode_multi bs = (rune_error, 1)"

fun decode_rune :: "string \<Rightarrow> nat \<times> nat" where
  "decode_rune [] = (rune_error, 0)"
| "decode_rune (a # s) =
     (if code a < 128 then (code a, 1) else decode_multi (map code (a # take 3 s)))"

lemma decode_multi_width:
  "bs \<noteq> [] \<Longrightarrow> 1 \<le> snd (decode_multi bs) \<and> snd (decode_multi bs) \<le> length bs"
  by (cases bs rule: decode_multi.cases) (simp_all split: list.split)

lemma decode_rune_width:
  assumes "s \<noteq> []"
  shows "1 \<le> snd (decode_rune s) \<and> snd (decode_rune s) \<le> length s"
proof (cases s)
  case (Cons a t)
  have "length (map code (a # take 3 t)) \<le> length s" using Cons by simp
  with Cons decode_multi_width [of "map code (a # take 3 t)"] show ?thesis
    by (auto simp del: decode_multi.simps list.map)
qed (use assms in simp)

text \<open>\<open>[]rune(s)\<close>, \<open>utf8.RuneCountInString\<close> and \<open>utf8.ValidString\<close>.\<close>

function runes_widths :: "string \<Rightarrow> (nat \<times> nat) list" where
  "runes_widths s =
     (if s = [] then [] else decode_rune s # runes_widths (drop (snd (decode_rune s)) s))"
  by pat_completeness auto
termination
proof (relation "measure length", goal_cases)
  case (2 s)
  then show ?case using decode_rune_width [of s] by (cases s) (auto simp del: decode_rune.simps)
qed simp

declare runes_widths.simps [simp del]

definition runes :: "string \<Rightarrow> nat list" where
  "runes s = map fst (runes_widths s)"

definition rune_count :: "string \<Rightarrow> nat" where
  "rune_count s = length (runes s)"

definition valid_utf8 :: "string \<Rightarrow> bool" where
  "valid_utf8 s \<longleftrightarrow> list_all (\<lambda>(r, w). \<not> (r = rune_error \<and> w = 1)) (runes_widths s)"

definition is_control :: "nat \<Rightarrow> bool" where
  "is_control r \<longleftrightarrow> r < 32 \<or> (127 \<le> r \<and> r < 160)"

text \<open>\<open>strings.IndexFunc(s, unicode.IsControl) >= 0\<close>.\<close>

definition has_control :: "string \<Rightarrow> bool" where
  "has_control s \<longleftrightarrow> list_ex is_control (runes s)"

text \<open>\<open>utf8.EncodeRune\<close>, and \<open>string(runes)\<close> for a rune slice.\<close>

definition encode_rune :: "nat \<Rightarrow> string" where
  "encode_rune r =
     map char_of
      (if r < 128 then [r]
       else if r < 2048 then [192 + r div 64, 128 + r mod 64]
       else if r < 65536 then [224 + r div 4096, 128 + r div 64 mod 64, 128 + r mod 64]
       else [240 + r div 262144, 128 + r div 4096 mod 64, 128 + r div 64 mod 64, 128 + r mod 64])"

lemma rune_count_le_length: "rune_count s \<le> length s"
proof (induction s rule: runes_widths.induct)
  case (1 s)
  show ?case
  proof (cases "s = []")
    case False
    then have "rune_count s = Suc (rune_count (drop (snd (decode_rune s)) s))"
      by (simp add: rune_count_def runes_def runes_widths.simps [of s])
    moreover have "rune_count (drop (snd (decode_rune s)) s) \<le> length s - snd (decode_rune s)"
      using 1 False by simp
    ultimately show ?thesis using decode_rune_width [OF False] by linarith
  qed (simp add: rune_count_def runes_def runes_widths.simps)
qed

lemma rune_count_Nil [simp]: "rune_count [] = 0"
  by (simp add: rune_count_def runes_def runes_widths.simps)

lemma rune_count_pos: "s \<noteq> [] \<Longrightarrow> 0 < rune_count s"
  by (simp add: rune_count_def runes_def runes_widths.simps [of s])

lemma runes_widths_ascii:
  "list_all (\<lambda>c. code c < 128) s \<Longrightarrow> runes_widths s = map (\<lambda>c. (code c, 1)) s"
proof (induction s)
  case (Cons a s)
  then show ?case by (simp add: runes_widths.simps [of "a # s"])
qed (simp add: runes_widths.simps)

lemma runes_ascii: "list_all (\<lambda>c. code c < 128) s \<Longrightarrow> runes s = map of_char s"
  by (simp add: runes_def runes_widths_ascii)

lemma rune_count_ascii: "list_all (\<lambda>c. code c < 128) s \<Longrightarrow> rune_count s = length s"
  by (simp add: rune_count_def runes_ascii)

text \<open>
  \<open>strings.TrimSpace\<close> removes runes for which \<open>unicode.IsSpace\<close> holds. Both ends look for
  a complete encoding of such a rune, so the function is determined by the finite table of
  encodings of the White\_Space code points.
\<close>

definition space_encodings :: "string list" where
  "space_encodings =
     [[CHR 0x09], [CHR 0x0A], [CHR 0x0B], [CHR 0x0C], [CHR 0x0D], [CHR 0x20],
      [CHR 0xC2, CHR 0x85], [CHR 0xC2, CHR 0xA0], [CHR 0xE1, CHR 0x9A, CHR 0x80],
      [CHR 0xE2, CHR 0x80, CHR 0x80], [CHR 0xE2, CHR 0x80, CHR 0x81],
      [CHR 0xE2, CHR 0x80, CHR 0x82], [CHR 0xE2, CHR 0x80, CHR 0x83],
      [CHR 0xE2, CHR 0x80, CHR 0x84], [CHR 0xE2, CHR 0x80, CHR 0x85],
      [CHR 0xE2, CHR 0x80, CHR 0x86], [CHR 0xE2, CHR 0x80, CHR 0x87],
      [CHR 0xE2, CHR 0x80, CHR 0x88], [CHR 0xE2, CHR 0x80, CHR 0x89],
      [CHR 0xE2, CHR 0x80, CHR 0x8A], [CHR 0xE2, CHR 0x80, CHR 0xA8],
      [CHR 0xE2, CHR 0x80, CHR 0xA9], [CHR 0xE2, CHR 0x80, CHR 0xAF],
      [CHR 0xE2, CHR 0x81, CHR 0x9F], [CHR 0xE3, CHR 0x80, CHR 0x80]]"

definition leading_space :: "string \<Rightarrow> nat" where
  "leading_space s = (case find (\<lambda>e. prefix e s) space_encodings of None \<Rightarrow> 0 | Some e \<Rightarrow> length e)"

definition trailing_space :: "string \<Rightarrow> nat" where
  "trailing_space s = (case find (\<lambda>e. suffix e s) space_encodings of None \<Rightarrow> 0 | Some e \<Rightarrow> length e)"

lemma space_encodings_pos: "e \<in> set space_encodings \<Longrightarrow> e \<noteq> []"
  by (auto simp: space_encodings_def)

lemma leading_space_cases:
  "leading_space s = 0 \<and> (\<forall>e \<in> set space_encodings. \<not> prefix e s) \<or>
   (\<exists>e \<in> set space_encodings. prefix e s \<and> leading_space s = length e)"
  by (auto simp: leading_space_def find_None_iff find_Some_iff split: option.splits)

lemma trailing_space_cases:
  "trailing_space s = 0 \<and> (\<forall>e \<in> set space_encodings. \<not> suffix e s) \<or>
   (\<exists>e \<in> set space_encodings. suffix e s \<and> trailing_space s = length e)"
  by (auto simp: trailing_space_def find_None_iff find_Some_iff split: option.splits)

function trim_space_left :: "string \<Rightarrow> string" where
  "trim_space_left s =
     (if leading_space s = 0 then s else trim_space_left (drop (leading_space s) s))"
  by pat_completeness auto
termination
proof (relation "measure length", goal_cases)
  case (2 s)
  then have "s \<noteq> []" using leading_space_cases [of s] space_encodings_pos by auto
  with 2 show ?case by simp
qed simp

declare trim_space_left.simps [simp del]

text \<open>The right end looks for the same encodings backwards.\<close>

function trim_space_right :: "string \<Rightarrow> string" where
  "trim_space_right s =
     (if trailing_space s = 0 then s else trim_space_right (take (length s - trailing_space s) s))"
  by pat_completeness auto
termination
proof (relation "measure length", goal_cases)
  case (2 s)
  then have "s \<noteq> []" using trailing_space_cases [of s] space_encodings_pos by auto
  with 2 show ?case by simp
qed simp

declare trim_space_right.simps [simp del]

definition trim_space :: "string \<Rightarrow> string" where
  "trim_space s = trim_space_right (trim_space_left s)"

lemma trim_space_left_suffix: "suffix (trim_space_left s) s"
proof (induction s rule: trim_space_left.induct)
  case (1 s)
  show ?case
  proof (cases "leading_space s = 0")
    case False
    with 1 have "suffix (trim_space_left (drop (leading_space s) s)) s"
      using suffix_drop suffix_order.order_trans by blast
    with False show ?thesis by (simp add: trim_space_left.simps [of s])
  qed (simp add: trim_space_left.simps [of s])
qed

lemma trim_space_right_prefix: "prefix (trim_space_right s) s"
proof (induction s rule: trim_space_right.induct)
  case (1 s)
  show ?case
  proof (cases "trailing_space s = 0")
    case False
    with 1 have "prefix (trim_space_right (take (length s - trailing_space s) s)) s"
      using take_is_prefix prefix_order.order_trans by blast
    with False show ?thesis by (simp add: trim_space_right.simps [of s])
  qed (simp add: trim_space_right.simps [of s])
qed

lemma trim_space_right_done: "trailing_space (trim_space_right s) = 0"
proof (induction s rule: trim_space_right.induct)
  case (1 s)
  then show ?case by (cases "trailing_space s = 0") (simp_all add: trim_space_right.simps [of s])
qed

lemma trim_space_infix: "\<exists>u v. s = u @ trim_space s @ v"
  using trim_space_left_suffix [of s] trim_space_right_prefix [of "trim_space_left s"]
  by (auto simp: trim_space_def suffix_def prefix_def) metis

lemma length_trim_space: "length (trim_space s) \<le> length s"
  using trim_space_infix [of s] by (metis length_append le_add1 le_add2 order_trans)

section \<open>Lists and association lists\<close>

text \<open>
  A Go map is an association list whose keys are distinct (its iteration order is
  unspecified, so a result that must not depend on it is stated for every permutation);
  \<^const>\<open>map_of\<close> looks a key up. \<open>sorted_keys\<close> is \<open>sortedKeys\<close> of \<open>ci/pipeline.go\<close>.
\<close>

definition sorted_keys :: "(string \<times> 'v) list \<Rightarrow> string list" where
  "sorted_keys m = sort (map fst m)"

lemma set_sorted_keys [simp]: "set (sorted_keys m) = fst ` set m"
  by (simp add: sorted_keys_def)

lemma distinct_sorted_keys [simp]: "distinct (sorted_keys m) = distinct (map fst m)"
  by (simp add: sorted_keys_def)

lemma length_sorted_keys [simp]: "length (sorted_keys m) = length m"
  by (simp add: sorted_keys_def)

lemma sorted_map_const: "(\<And>x. x \<in> set xs \<Longrightarrow> f x = c) \<Longrightarrow> sorted (map f xs)"
  by (induction xs) auto

definition update_where :: "('a \<Rightarrow> bool) \<Rightarrow> ('a \<Rightarrow> 'a) \<Rightarrow> 'a list \<Rightarrow> 'a list" where
  "update_where P f xs = map (\<lambda>x. if P x then f x else x) xs"

lemma update_where_Nil [simp]: "update_where P f [] = []"
  by (simp add: update_where_def)

lemma length_update_where [simp]: "length (update_where P f xs) = length xs"
  by (simp add: update_where_def)

lemma set_update_where:
  "set (update_where P f xs) = f ` {x \<in> set xs. P x} \<union> {x \<in> set xs. \<not> P x}"
  by (auto simp: update_where_def)

lemma in_update_where:
  "y \<in> set (update_where P f xs) \<longleftrightarrow>
     (\<exists>x \<in> set xs. P x \<and> y = f x) \<or> (y \<in> set xs \<and> \<not> P y)"
  by (auto simp: update_where_def)

lemma map_update_where [row_simps]:
  "(\<And>x. g (f x) = g x) \<Longrightarrow> map g (update_where P f xs) = map g xs"
  by (induction xs) (auto simp: update_where_def)

lemma update_where_none: "(\<And>x. x \<in> set xs \<Longrightarrow> \<not> P x) \<Longrightarrow> update_where P f xs = xs"
  by (induction xs) (auto simp: update_where_def)

lemma bex_update_where:
  "(\<exists>y\<in>set (update_where P f xs). Q y) \<longleftrightarrow> (\<exists>x\<in>set xs. Q (if P x then f x else x))"
  by (auto simp: update_where_def)

lemma ball_update_where:
  "(\<forall>y\<in>set (update_where P f xs). Q y) \<longleftrightarrow> (\<forall>x\<in>set xs. Q (if P x then f x else x))"
  by (auto simp: update_where_def)

lemma map_update_where_on:
  "(\<And>x. x \<in> set xs \<Longrightarrow> P x \<Longrightarrow> g (f x) = g x) \<Longrightarrow> map g (update_where P f xs) = map g xs"
  by (induction xs) (auto simp: update_where_def)

lemmas where_simps = bex_update_where ball_update_where

lemma update_where_cases:
  assumes "y \<in> set (update_where P f xs)"
  obtains x where "x \<in> set xs" "P x" "y = f x" | "y \<in> set xs" "\<not> P y"
  using assms unfolding in_update_where by blast

lemma find_SomeD: "find P xs = Some x \<Longrightarrow> x \<in> set xs \<and> P x"
  by (induction xs) (auto split: if_splits)

end
