(* ===== verification/Apperr.thy ===== *)
theory Apperr
  imports Gitman_Prelude
begin

text \<open>
  Package \<open>internal/apperr\<close>: errors classified by the response they deserve. A message is a
  value of the component's own message type \<open>'m\<close> (one constructor per message of the source)
  instead of its English text. A Go error is either an \<open>*appError\<close>, made by \<open>New\<close> or
  \<open>Wrap\<close>, or a foreign error, which may wrap another (\<open>fmt.Errorf\<close> with \<open>%w\<close>).
\<close>

datatype kind =
  KindInternal | KindInvalid | KindForbidden | KindNotFound
| KindConflict | KindTooLarge | KindTooMany | KindUnavailable

datatype 'm go_error =
  AppError kind 'm "'m go_error option"
| Foreign "'m go_error option"

datatype 'm public_text = Shown 'm | GenericText

definition New :: "kind \<Rightarrow> 'm \<Rightarrow> 'm go_error" where
  "New k m = AppError k m None"

definition Wrap :: "kind \<Rightarrow> 'm \<Rightarrow> 'm go_error \<Rightarrow> 'm go_error" where
  "Wrap k m e = AppError k m (Some e)"

text \<open>\<open>errors.As\<close> walks the chain of wrapped errors from the outside to the first \<open>*appError\<close>.\<close>

fun as_app_error :: "'m go_error \<Rightarrow> (kind \<times> 'm) option" where
  "as_app_error (AppError k m _) = Some (k, m)"
| "as_app_error (Foreign None) = None"
| "as_app_error (Foreign (Some e)) = as_app_error e"

definition KindOf :: "'m go_error \<Rightarrow> kind" where
  "KindOf e = (case as_app_error e of Some (k, _) \<Rightarrow> k | None \<Rightarrow> KindInternal)"

definition PublicMessage :: "'m go_error \<Rightarrow> 'm public_text" where
  "PublicMessage e = (case as_app_error e of Some (_, m) \<Rightarrow> Shown m | None \<Rightarrow> GenericText)"

abbreviation invalid :: "'m \<Rightarrow> ('m go_error, 'a) result" where
  "invalid m \<equiv> Inl (New KindInvalid m)"

abbreviation forbidden :: "'m \<Rightarrow> ('m go_error, 'a) result" where
  "forbidden m \<equiv> Inl (New KindForbidden m)"

abbreviation not_found :: "'m \<Rightarrow> ('m go_error, 'a) result" where
  "not_found m \<equiv> Inl (New KindNotFound m)"

abbreviation conflict :: "'m \<Rightarrow> ('m go_error, 'a) result" where
  "conflict m \<equiv> Inl (New KindConflict m)"

abbreviation failure :: "('m go_error, 'a) result" where
  "failure \<equiv> Inl (Foreign None)"

text \<open>The \<open>if err != nil { return err }\<close> of the source, over any error type.\<close>

fun bind_result :: "('e, 'a) result \<Rightarrow> ('a \<Rightarrow> ('e, 'b) result) \<Rightarrow> ('e, 'b) result" where
  "bind_result (Inl e) f = Inl e"
| "bind_result (Inr a) f = f a"

definition map_error :: "('e \<Rightarrow> 'f) \<Rightarrow> ('e, 'a) result \<Rightarrow> ('f, 'a) result" where
  "map_error f r = (case r of Inl e \<Rightarrow> Inl (f e) | Inr a \<Rightarrow> Inr a)"

definition is_ok :: "('e, 'a) result \<Rightarrow> bool" where
  "is_ok r \<longleftrightarrow> (case r of Inl _ \<Rightarrow> False | Inr _ \<Rightarrow> True)"

lemma is_ok_simps [simp]: "\<not> is_ok (Inl e)" "is_ok (Inr a)"
  by (simp_all add: is_ok_def)

lemma map_error_simps [simp]: "map_error f (Inl e) = Inl (f e)" "map_error f (Inr a) = Inr a"
  by (simp_all add: map_error_def)

lemma is_ok_map_error [simp]: "is_ok (map_error f r) = is_ok r"
  by (cases r) simp_all

lemma map_error_Inr [simp]: "map_error f r = Inr a \<longleftrightarrow> r = Inr a"
  by (cases r) simp_all

lemma bind_result_Inr:
  "bind_result r f = Inr b \<longleftrightarrow> (\<exists>a. r = Inr a \<and> f a = Inr b)"
  by (cases r) simp_all

lemma bind_result_Inl:
  "bind_result r f = Inl e \<longleftrightarrow> r = Inl e \<or> (\<exists>a. r = Inr a \<and> f a = Inl e)"
  by (cases r) simp_all

lemma is_ok_bind: "is_ok (bind_result r f) \<longleftrightarrow> (\<exists>a. r = Inr a \<and> is_ok (f a))"
  by (cases r) simp_all

lemma is_ok_if [simp]: "is_ok (if b then Inl e else r) \<longleftrightarrow> \<not> b \<and> is_ok r"
  by simp

lemma is_ok_unit: "is_ok (r :: ('e, unit) result) \<longleftrightarrow> r = Inr ()"
  by (cases r) simp_all

text \<open>The kind a handler answers with is the one attached outermost.\<close>

lemma KindOf_New [simp]: "KindOf (New k m) = k"
  by (simp add: KindOf_def New_def)

lemma KindOf_Wrap [simp]: "KindOf (Wrap k m e) = k"
  by (simp add: KindOf_def Wrap_def)

lemma KindOf_Foreign [simp]:
  "KindOf (Foreign None) = KindInternal" "KindOf (Foreign (Some e)) = KindOf e"
  by (simp_all add: KindOf_def)

lemma New_eq_iff [simp]: "New k m = New k' m' \<longleftrightarrow> k = k' \<and> m = m'"
  by (simp add: New_def)

lemma New_not_Foreign [simp]: "New k m \<noteq> Foreign e"
  by (simp add: New_def)

text \<open>
  Running a check over a slice and stopping at the first error, as the source's
  \<open>for ... { if err := f(x); err != nil { return err } }\<close> loops do.
\<close>

fun first_error :: "('a \<Rightarrow> ('e, unit) result) \<Rightarrow> 'a list \<Rightarrow> ('e, unit) result" where
  "first_error f [] = Inr ()"
| "first_error f (x # xs) = (case f x of Inl e \<Rightarrow> Inl e | Inr _ \<Rightarrow> first_error f xs)"

lemma first_error_ok: "first_error f xs = Inr () \<longleftrightarrow> (\<forall>x \<in> set xs. f x = Inr ())"
  by (induction xs) (auto split: sum.splits)

end
