(* ===== verification/Names.thy ===== *)
theory Names
  imports Apperr
begin

text \<open>
  Package \<open>internal/names\<close>: the naming rules for repositories and people, with the
  reserved words that keep both clear of Gitman's own routes.
\<close>

datatype name_error =
  NameLength | NameAt | NameChars | NameReserved string

definition reserved :: "string list" where
  "reserved =
     [''me'', ''gitman-run'', ''repos'', ''people'', ''login'', ''logout'', ''static'', ''api'',
      ''settings'', ''runs'', ''events'', ''jump'', ''changelog'', ''operations'', ''workers'',
      ''sessions'', ''hook'', ''hooks'', ''health'', ''healthz'', ''readyz'', ''assets'',
      ''admin'', ''favicon.ico'', ''robots.txt'']"

definition reservedRepositories :: "string list" where
  "reservedRepositories = [''images'']"

definition name_char :: "char \<Rightarrow> bool" where
  "name_char c \<longleftrightarrow> is_alnum c \<or> c = CHR ''_'' \<or> c = CHR ''-''"

definition nameCharsPattern :: "string \<Rightarrow> bool" where
  "nameCharsPattern s \<longleftrightarrow>
     (case s of
        [] \<Rightarrow> False
      | [c] \<Rightarrow> is_alnum c
      | c # rest \<Rightarrow> is_alnum c \<and> list_all name_char (butlast rest) \<and> is_alnum (last rest))"

definition ValidateRepository :: "string \<Rightarrow> (name_error go_error, unit) result" where
  "ValidateRepository name =
     (if rune_count name < 1 \<or> rune_count name > 100 then invalid NameLength
      else if contains name ''@'' then invalid NameAt
      else if \<not> nameCharsPattern name then invalid NameChars
      else if to_lower name \<in> set reserved \<or> to_lower name \<in> set reservedRepositories
        then invalid (NameReserved name)
      else ok ())"

definition ValidateUsername :: "string \<Rightarrow> (name_error go_error, unit) result" where
  "ValidateUsername name =
     (if rune_count name < 3 \<or> rune_count name > 32 then invalid NameLength
      else if \<not> nameCharsPattern name then invalid NameChars
      else if to_lower name \<in> set reserved then invalid (NameReserved name)
      else ok ())"

lemma is_alnum_name_char [simp]: "is_alnum c \<Longrightarrow> name_char c"
  by (simp add: name_char_def)

lemma name_char_ascii: "name_char c \<Longrightarrow> code c < 128"
  by (auto simp: name_char_def is_alnum_def is_digit_def is_upper_def is_lower_def)

lemma nameCharsPattern_iff:
  "nameCharsPattern s \<longleftrightarrow>
     s \<noteq> [] \<and> is_alnum (hd s) \<and> is_alnum (last s) \<and> list_all name_char s"
proof (cases s)
  case s: (Cons c rest)
  then show ?thesis
  proof (cases rest)
    case Cons: (Cons d tl)
    have "list_all name_char (butlast rest @ [last rest]) = list_all name_char rest"
      using Cons by (metis append_butlast_last_id list.distinct(1))
    then have "list_all name_char rest \<longleftrightarrow> list_all name_char (butlast rest) \<and> name_char (last rest)"
      by simp
    with Cons s show ?thesis
      by (auto simp: nameCharsPattern_def last_ConsR [of "d # tl" c]
          simp del: butlast.simps last.simps)
  qed (use s in \<open>auto simp: nameCharsPattern_def\<close>)
qed (simp add: nameCharsPattern_def)

lemma nameCharsPattern_length: "nameCharsPattern s \<Longrightarrow> rune_count s = length s"
  by (rule rune_count_ascii) (auto simp: nameCharsPattern_iff list_all_iff dest: name_char_ascii)

text \<open>The two validators differ only in their limits and reserved words.\<close>

lemma ValidateRepository_iff:
  "ValidateRepository s = ok () \<longleftrightarrow>
     1 \<le> length s \<and> length s \<le> 100 \<and> nameCharsPattern s \<and>
     to_lower s \<notin> set (reserved @ reservedRepositories)"
proof -
  have "nameCharsPattern s \<Longrightarrow> CHR ''@'' \<notin> set s"
    by (auto simp: nameCharsPattern_iff list_all_iff name_char_def is_alnum_def is_digit_def
        is_upper_def is_lower_def)
  then show ?thesis
    by (auto simp: ValidateRepository_def nameCharsPattern_length Suc_le_eq)
qed

lemma ValidateUsername_iff:
  "ValidateUsername s = ok () \<longleftrightarrow>
     3 \<le> length s \<and> length s \<le> 32 \<and> nameCharsPattern s \<and> to_lower s \<notin> set reserved"
  by (auto simp: ValidateUsername_def nameCharsPattern_length)

lemma is_alnum_lower [simp]: "is_alnum (to_lower_char c) = is_alnum c"
  by (simp only: is_alnum_def is_digit_def is_upper_def is_lower_def code_to_lower_char) auto

lemma name_char_code:
  "name_char c \<longleftrightarrow> is_alnum c \<or> code c = 95 \<or> code c = 45"
  unfolding name_char_def code_inject [of c] by simp

lemma name_char_lower [simp]: "name_char (to_lower_char c) = name_char c"
  unfolding name_char_code is_alnum_lower by (auto simp: code_to_lower_char is_upper_def is_alnum_def is_lower_def)

lemma nameCharsPattern_lower: "nameCharsPattern (to_lower s) = nameCharsPattern s"
  by (simp add: nameCharsPattern_iff to_lower_def list.map_sel last_map list_all_iff
      cong: conj_cong)

end
