(* ===== verification/Precedence.thy ===== *)
theory Precedence
  imports Gitman_Prelude "HOL-Library.Multiset"
begin

text \<open>
  The interface of an ordering that picks one candidate out of several: whatever pattern
  precedence (\<open>git.MoreSpecific\<close>), version order (\<open>git.VersionLess\<close>) and image order promise
  their callers, and what callers may conclude from the promise alone. A selection loop
  that keeps the best candidate so far finds the one best candidate, and neither it nor a
  sort depends on the order in which the candidates arrive.
\<close>

locale strict_precedence =
  fixes before :: "'a \<Rightarrow> 'a \<Rightarrow> bool"
  assumes irrefl: "\<not> before x x"
    and trans: "before x y \<Longrightarrow> before y z \<Longrightarrow> before x z"
    and total: "x \<noteq> y \<Longrightarrow> before x y \<or> before y x"
begin

lemma asym: "before x y \<Longrightarrow> \<not> before y x"
  using irrefl trans by blast

lemma not_before: "\<not> before x y \<longleftrightarrow> x = y \<or> before y x"
  using irrefl asym total by blast

lemma not_before_trans: "\<not> before y x \<Longrightarrow> \<not> before z y \<Longrightarrow> \<not> before z x"
  using not_before trans by metis

lemma best_unique:
  assumes "x \<in> S" "y \<in> S" "\<And>z. z \<in> S \<Longrightarrow> \<not> before z x" "\<And>z. z \<in> S \<Longrightarrow> \<not> before z y"
  shows "x = y"
  using assms total by blast

lemma fold_best:
  "(let b = fold (\<lambda>x b. if before x b then x else b) xs b0
    in b \<in> insert b0 (set xs) \<and> (\<forall>z \<in> insert b0 (set xs). \<not> before z b))"
proof (induction xs arbitrary: b0)
  case Nil
  then show ?case by (simp add: irrefl)
next
  case (Cons x xs)
  let ?b1 = "if before x b0 then x else b0"
  let ?b = "fold (\<lambda>x b. if before x b then x else b) xs ?b1"
  from Cons [of ?b1] have b: "?b \<in> insert ?b1 (set xs)"
    and le: "\<forall>z \<in> insert ?b1 (set xs). \<not> before z ?b" by (simp_all add: Let_def)
  have "\<not> before x ?b1" "\<not> before b0 ?b1" using irrefl asym by auto
  with le have "\<not> before x ?b" "\<not> before b0 ?b" using not_before_trans by blast+
  with b le show ?case by (auto simp: Let_def split: if_splits)
qed

lemma sorted_unique:
  "sorted_wrt before xs \<Longrightarrow> sorted_wrt before ys \<Longrightarrow> set xs = set ys \<Longrightarrow> xs = ys"
proof (induction xs arbitrary: ys)
  case (Cons x xs)
  then obtain y ys' where ys: "ys = y # ys'" by (cases ys) auto
  from Cons.prems ys have "x = y"
    by (metis asym list.set_intros(1) set_ConsD sorted_wrt.simps(2))
  moreover have "x \<notin> set xs" "y \<notin> set ys'" using Cons.prems ys irrefl by auto
  ultimately have "set xs = set ys'" using Cons.prems(3) ys by auto
  with Cons ys \<open>x = y\<close> show ?case by simp
qed simp

end

text \<open>An injective key with values in a linear order gives such a precedence.\<close>

lemma strict_precedence_key:
  fixes key :: "'a \<Rightarrow> 'k :: linorder"
  assumes "inj key"
  shows "strict_precedence (\<lambda>a b. key a < key b)"
  by unfold_locales (use assms in \<open>auto dest: injD simp: neq_iff [symmetric]\<close>)

end
