(* ===== verification/Git_Refs.thy ===== *)
theory Git_Refs
  imports Apperr Precedence "HOL-Library.Product_Lexorder"
begin

text \<open>
  Package \<open>internal/git\<close>, file \<open>refs.go\<close>: ref names and ref patterns, which of several
  patterns matches a name most specifically, and the version order of names.
\<close>

section \<open>Ref names\<close>

text \<open>
  \<open>Kind\<close> is a string type in the source, with two values in use; any other string is
  \<open>KindUnknown\<close>.
\<close>

datatype Kind = KindBranch | KindTag | KindUnknown string

definition valid_kind :: "Kind \<Rightarrow> bool" where
  "valid_kind k \<longleftrightarrow> k = KindBranch \<or> k = KindTag"

definition Other :: "Kind \<Rightarrow> Kind" where
  "Other k = (if k = KindTag then KindBranch else KindTag)"

datatype ref_error =
  RefEmpty | RefSpecialChars | RefDotDot | RefAtBrace | RefAt | RefSlash | RefEndsDot
| RefEndsLock | RefEmptyComponent | RefComponentLock | RefComponentDot
| PatternEmpty | PatternInvalid "ref_error public_text"

text \<open>The character set of the regular expression \<open>controlOrSpecial\<close>, by byte.\<close>

definition special_codes :: "nat list" where
  "special_codes =
     [127, 126, 94, 58, 63, 42, 91, 92, 36, 96, 40, 41, 123, 125, 60, 62, 59, 124, 38, 39, 34]"

definition special_char :: "char \<Rightarrow> bool" where
  "special_char c \<longleftrightarrow> code c \<le> 32 \<or> code c \<in> set special_codes"

definition controlOrSpecial :: "string \<Rightarrow> bool" where
  "controlOrSpecial s \<longleftrightarrow> list_ex special_char s"

definition at_brace :: string where
  "at_brace = [CHR 0x40, CHR 0x7B]"

definition check_component :: "string \<Rightarrow> (ref_error go_error, unit) result" where
  "check_component component =
     (if component = [] then invalid RefEmptyComponent
      else if suffix ''.lock'' component then invalid RefComponentLock
      else if prefix ''.'' component then invalid RefComponentDot
      else ok ())"

definition ValidateName :: "string \<Rightarrow> (ref_error go_error, unit) result" where
  "ValidateName name =
     (if name = [] then invalid RefEmpty
      else if controlOrSpecial name then invalid RefSpecialChars
      else if contains name ''..'' then invalid RefDotDot
      else if contains name at_brace then invalid RefAtBrace
      else if name = ''@'' then invalid RefAt
      else if prefix ''/'' name \<or> suffix ''/'' name \<or> contains name ''//'' then invalid RefSlash
      else if suffix ''.'' name then invalid RefEndsDot
      else if suffix ''.lock'' name then invalid RefEndsLock
      else first_error check_component (split_on (CHR ''/'') name))"

definition ValidatePattern :: "string \<Rightarrow> (ref_error go_error, unit) result" where
  "ValidatePattern pattern =
     (if pattern = [] then invalid PatternEmpty
      else
        let probe = map (\<lambda>c. if c = CHR ''*'' then CHR ''x'' else c) pattern in
        case ValidateName probe of
          Inl err \<Rightarrow> invalid (PatternInvalid (PublicMessage err))
        | Inr _ \<Rightarrow> ok ())"

definition is_hex_lower :: "char \<Rightarrow> bool" where
  "is_hex_lower c \<longleftrightarrow> is_digit c \<or> (97 \<le> code c \<and> code c \<le> 102)"

definition LooksLikeCommitHash :: "string \<Rightarrow> bool" where
  "LooksLikeCommitHash name =
     (let s = to_lower name in 7 \<le> length s \<and> length s \<le> 64 \<and> list_all is_hex_lower s)"

definition FullName :: "Kind \<Rightarrow> string \<Rightarrow> string" where
  "FullName kind name = (if kind = KindTag then ''refs/tags/'' @ name else ''refs/heads/'' @ name)"

text \<open>The result \<open>ok == false\<close> is \<^const>\<open>None\<close>.\<close>

definition SplitFullName :: "string \<Rightarrow> (Kind \<times> string) option" where
  "SplitFullName full =
     (if prefix ''refs/heads/'' full \<and> length full > length ''refs/heads/''
        then Some (KindBranch, trim_prefix full ''refs/heads/'')
      else if prefix ''refs/tags/'' full \<and> length full > length ''refs/tags/''
        then Some (KindTag, trim_prefix full ''refs/tags/'')
      else None)"

section \<open>Patterns\<close>

abbreviation star :: char where
  "star \<equiv> CHR ''*''"

text \<open>
  The loop over the middle parts: each takes the leftmost occurrence of the part in what is
  left of the name. \<open>match_middle\<close> reports whether every part was found.
\<close>

fun match_middle :: "string list \<Rightarrow> string \<Rightarrow> bool" where
  "match_middle [] name = True"
| "match_middle (part # parts) name =
     (case index_of name part of
        None \<Rightarrow> False
      | Some idx \<Rightarrow> match_middle parts (drop (idx + length part) name))"

definition MatchPattern :: "string \<Rightarrow> string \<Rightarrow> bool" where
  "MatchPattern pattern name =
     (if star \<notin> set pattern then pattern = name
      else
        let parts = split_on star pattern in
        if \<not> prefix (hd parts) name then False
        else
          let name1 = drop (length (hd parts)) name; final = last parts in
          if \<not> suffix final name1 then False
          else
            let name2 = take (length name1 - length final) name1
            in match_middle (butlast (tl parts)) name2)"

definition Specificity :: "string \<Rightarrow> nat" where
  "Specificity pattern = length pattern - count_list pattern star"

definition MoreSpecific :: "string \<Rightarrow> string \<Rightarrow> bool" where
  "MoreSpecific a b =
     (let sa = Specificity a; sb = Specificity b in
      if sa \<noteq> sb then sa > sb
      else if length a \<noteq> length b then length a < length b
      else a < b)"

text \<open>
  \<open>SelectPattern\<close> walks the patterns with the index of the best one so far; an exact match
  ends the loop at once. \<^const>\<open>None\<close> is the source's -1.
\<close>

fun select_loop :: "string list \<Rightarrow> string \<Rightarrow> nat option \<Rightarrow> nat \<Rightarrow> string list \<Rightarrow> nat option" where
  "select_loop patterns name best i [] = best"
| "select_loop patterns name best i (pattern # rest) =
     (if \<not> MatchPattern pattern name then select_loop patterns name best (Suc i) rest
      else if star \<notin> set pattern then Some i
      else
        select_loop patterns name
          (case best of
             None \<Rightarrow> Some i
           | Some b \<Rightarrow> if MoreSpecific pattern (patterns ! b) then Some i else Some b)
          (Suc i) rest)"

definition SelectPattern :: "string list \<Rightarrow> string \<Rightarrow> nat option" where
  "SelectPattern patterns name = select_loop patterns name None 0 patterns"

section \<open>Version order\<close>

definition leadingDigits :: "string \<Rightarrow> string" where
  "leadingDigits s = takeWhile is_digit s"

definition cmpInt :: "nat \<Rightarrow> nat \<Rightarrow> int" where
  "cmpInt a b = (if a < b then -1 else if a > b then 1 else 0)"

definition compare_strings :: "string \<Rightarrow> string \<Rightarrow> int" where
  "compare_strings a b = (if a = b then 0 else if a < b then -1 else 1)"

function versionCompare :: "string \<Rightarrow> string \<Rightarrow> int" where
  "versionCompare a b =
     (if a = [] \<or> b = [] then cmpInt (length a) (length b)
      else
        let da = leadingDigits a; db = leadingDigits b in
        if da \<noteq> [] \<and> db \<noteq> [] then
          let na = dropWhile (\<lambda>c. c = CHR ''0'') da; nb = dropWhile (\<lambda>c. c = CHR ''0'') db in
          if length na \<noteq> length nb then cmpInt (length na) (length nb)
          else if na \<noteq> nb then compare_strings na nb
          else versionCompare (drop (length da) a) (drop (length db) b)
        else if hd a \<noteq> hd b then cmpInt (code (hd a)) (code (hd b))
        else versionCompare (tl a) (tl b))"
  by pat_completeness auto
termination
  by (relation "measure (\<lambda>(a, b). length a + length b)") (auto simp: Let_def intro!: add_less_le_mono diff_less)

declare versionCompare.simps [simp del]

definition VersionLess :: "string \<Rightarrow> string \<Rightarrow> bool" where
  "VersionLess a b =
     (let c = versionCompare a b in if c \<noteq> 0 then c < 0 else a < b)"

section \<open>Names: what a valid name guarantees\<close>

lemma FullName_simps [simp]:
  "FullName KindBranch n = ''refs/heads/'' @ n" "FullName KindTag n = ''refs/tags/'' @ n"
  by (simp_all add: FullName_def)

lemma FullName_inject:
  "valid_kind k \<Longrightarrow> valid_kind k' \<Longrightarrow> FullName k n = FullName k' n' \<longleftrightarrow> k = k' \<and> n = n'"
  by (auto simp: valid_kind_def)

lemma SplitFullName_iff:
  "SplitFullName full = Some (k, n) \<longleftrightarrow> valid_kind k \<and> n \<noteq> [] \<and> full = FullName k n"
  by (cases k) (auto simp: SplitFullName_def trim_prefix_def prefix_def valid_kind_def)

lemma valid_kind_simps [simp]:
  "valid_kind KindBranch" "valid_kind KindTag" "\<not> valid_kind (KindUnknown s)"
  by (simp_all add: valid_kind_def)

lemma not_special_char:
  "\<not> controlOrSpecial s \<longleftrightarrow> (\<forall>c \<in> set s. \<not> special_char c)"
  by (simp add: controlOrSpecial_def list_ex_iff)

lemma check_component_ok:
  "check_component p = ok () \<longleftrightarrow> p \<noteq> [] \<and> \<not> suffix ''.lock'' p \<and> \<not> prefix ''.'' p"
  by (auto simp: check_component_def)

lemma ValidateName_ok:
  "ValidateName n = ok () \<longleftrightarrow>
     n \<noteq> [] \<and> \<not> controlOrSpecial n \<and> \<not> contains n ''..'' \<and> \<not> contains n at_brace \<and> n \<noteq> ''@'' \<and>
     \<not> prefix ''/'' n \<and> \<not> suffix ''/'' n \<and> \<not> contains n ''//'' \<and>
     \<not> suffix ''.'' n \<and> \<not> suffix ''.lock'' n \<and>
     (\<forall>p \<in> set (split_on (CHR ''/'') n). check_component p = ok ())"
  by (simp add: ValidateName_def first_error_ok)

lemma ValidatePattern_ok:
  "ValidatePattern p = ok () \<longleftrightarrow>
     ValidateName (map (\<lambda>c. if c = star then CHR ''x'' else c) p) = ok ()"
  by (cases "p = []"; cases "ValidateName (map (\<lambda>c. if c = star then CHR ''x'' else c) p)")
    (auto simp: ValidatePattern_def ValidateName_def Let_def)

lemma ValidatePattern_exact:
  "star \<notin> set p \<Longrightarrow> ValidatePattern p = ok () \<longleftrightarrow> ValidateName p = ok ()"
proof -
  assume "star \<notin> set p"
  then have "map (\<lambda>c. if c = star then CHR ''x'' else c) p = p"
    by (intro map_idI) auto
  then show ?thesis by (simp add: ValidatePattern_ok)
qed

lemma ValidateName_no_star: "ValidateName n = ok () \<Longrightarrow> star \<notin> set n"
  by (auto simp: ValidateName_ok not_special_char special_char_def special_codes_def)

section \<open>Patterns: the matcher against its specification\<close>

text \<open>The specification: \<open>*\<close> stands for any string, every other character for itself.\<close>

fun glob :: "string \<Rightarrow> string \<Rightarrow> bool" where
  "glob [] n = (n = [])"
| "glob (p # ps) [] = (p = star \<and> glob ps [])"
| "glob (p # ps) (c # n) =
     (if p = star then glob ps (c # n) \<or> glob (p # ps) n else p = c \<and> glob ps n)"

lemma glob_star: "glob (star # ps) n \<longleftrightarrow> (\<exists>u v. n = u @ v \<and> glob ps v)"
proof (induction n)
  case (Cons c n)
  have "(\<exists>u v. c # n = u @ v \<and> glob ps v) \<longleftrightarrow> glob ps (c # n) \<or> (\<exists>u v. n = u @ v \<and> glob ps v)"
    by (auto simp: Cons_eq_append_conv)
  with Cons show ?case by simp
qed simp

lemma glob_literal:
  "star \<notin> set p \<Longrightarrow> glob (p @ ps) n \<longleftrightarrow> (\<exists>v. n = p @ v \<and> glob ps v)"
proof (induction p arbitrary: n)
  case (Cons x p)
  then show ?case by (cases n) auto
qed simp

text \<open>The parts of a pattern, found in the name one after the other with gaps between them.\<close>

fun gaps :: "string list \<Rightarrow> string \<Rightarrow> bool" where
  "gaps [] s = True"
| "gaps (m # ms) s = (\<exists>u v. s = u @ m @ v \<and> gaps ms v)"

lemma gaps_append: "gaps ms v \<Longrightarrow> gaps ms (w @ v)"
  by (cases ms) (auto, metis append.assoc)

text \<open>Taking the leftmost occurrence leaves the most for the parts that follow.\<close>

lemma match_middle_iff: "match_middle ms s \<longleftrightarrow> gaps ms s"
proof (induction ms arbitrary: s)
  case (Cons m ms)
  show ?case
  proof (cases "index_of s m")
    case None
    then have "\<not> contains s m" by (simp add: contains_def)
    with None show ?thesis by (auto simp: contains_iff)
  next
    case (Some k)
    then have k: "prefix m (drop k s)" by (simp add: index_of_Some)
    have "gaps (m # ms) s \<longleftrightarrow> gaps ms (drop (k + length m) s)"
    proof
      assume "gaps (m # ms) s"
      then obtain u v where s: "s = u @ m @ v" and v: "gaps ms v" by auto
      have "k \<le> length u" using index_of_least [OF Some, of "length u"] s by simp
      then have "drop (k + length m) s = drop (k + length m) (u @ m) @ v"
        using s by simp
      with v show "gaps ms (drop (k + length m) s)" by (simp only: gaps_append)
    next
      assume *: "gaps ms (drop (k + length m) s)"
      from k obtain v where "drop k s = m @ v" by (auto simp: prefix_def)
      then have "s = take k s @ m @ v" "v = drop (k + length m) s"
        by (metis append_take_drop_id, metis add.commute append_eq_conv_conj drop_drop)
      with * show "gaps (m # ms) s" by auto
    qed
    with Some Cons show ?thesis by simp
  qed
qed simp

lemma glob_gaps:
  assumes "\<forall>p \<in> set (ms @ [e]). star \<notin> set p"
  shows "glob (star # join_with [star] (ms @ [e])) n \<longleftrightarrow> (\<exists>s. n = s @ e \<and> gaps ms s)"
  using assms
proof (induction ms arbitrary: n)
  case Nil
  then show ?case using glob_literal [of e "[]"] by (auto simp: glob_star)
next
  case (Cons m ms)
  have join: "join_with [star] ((m # ms) @ [e]) = m @ star # join_with [star] (ms @ [e])"
    by (cases ms) auto
  have "glob (star # join_with [star] ((m # ms) @ [e])) n \<longleftrightarrow>
        (\<exists>u v. n = u @ v \<and> (\<exists>w. v = m @ w \<and> (\<exists>s. w = s @ e \<and> gaps ms s)))"
    unfolding join glob_star [of "m @ _"] using Cons by (simp add: glob_literal)
  also have "\<dots> \<longleftrightarrow> (\<exists>s. n = s @ e \<and> gaps (m # ms) s)" by (auto, blast+)
  finally show ?case .
qed

text \<open>
  C30: \<open>MatchPattern\<close>, which splits the pattern at its wildcards and finds the middle parts
  greedily from the left, accepts exactly the names the pattern denotes when every \<open>*\<close>
  stands for an arbitrary string.
\<close>

theorem MatchPattern_glob: "MatchPattern pattern name \<longleftrightarrow> glob pattern name"
proof (cases "star \<in> set pattern")
  case False
  then show ?thesis using glob_literal [of pattern "[]" name] by (auto simp: MatchPattern_def)
next
  case True
  then obtain p rest where pr: "pattern = p @ star # rest" "star \<notin> set p"
    using split_list_first by fastforce
  obtain ms e where rest: "split_on star rest = ms @ [e]"
    by (cases "split_on star rest" rule: rev_cases) auto
  have parts: "split_on star pattern = p # ms @ [e]"
    using pr rest by (simp add: split_on_append_sep)
  have "rest = join_with [star] (ms @ [e])" using join_split [of star rest] rest by simp
  then have "glob pattern name \<longleftrightarrow> (\<exists>v. name = p @ v \<and> (\<exists>s. v = s @ e \<and> gaps ms s))"
    using pr glob_gaps [of ms e] rest split_on_parts [of _ star rest] by (simp add: glob_literal)
  also have "\<dots> \<longleftrightarrow> MatchPattern pattern name"
    using True by (auto simp: MatchPattern_def parts Let_def match_middle_iff prefix_def suffix_def)
  finally show ?thesis ..
qed

section \<open>Precedence: one best pattern\<close>

definition specific_key :: "string \<Rightarrow> int \<times> nat \<times> string" where
  "specific_key p = (- int (Specificity p), length p, p)"

lemma MoreSpecific_key: "MoreSpecific a b \<longleftrightarrow> specific_key a < specific_key b"
  by (auto simp: MoreSpecific_def specific_key_def Let_def)

lemma inj_specific_key: "inj specific_key"
  by (rule injI) (simp add: specific_key_def)

interpretation more_specific: strict_precedence MoreSpecific
  unfolding MoreSpecific_key [abs_def] by (rule strict_precedence_key [OF inj_specific_key])

text \<open>
  The rule the source states for every choice among patterns: an exact pattern before one
  with a wildcard, then \<^const>\<open>MoreSpecific\<close>.
\<close>

definition Preferred :: "string \<Rightarrow> string \<Rightarrow> bool" where
  "Preferred a b \<longleftrightarrow>
     (if (star \<in> set a) \<noteq> (star \<in> set b) then star \<notin> set a else MoreSpecific a b)"

lemma Preferred_key:
  "Preferred a b \<longleftrightarrow> (star \<in> set a, specific_key a) < (star \<in> set b, specific_key b)"
  by (auto simp: Preferred_def MoreSpecific_key)

interpretation preferred: strict_precedence Preferred
  unfolding Preferred_key [abs_def]
  by (rule strict_precedence_key) (use inj_specific_key in \<open>auto simp: inj_def\<close>)

text \<open>What \<open>SelectPattern\<close> promises: a match that no other match is preferred to.\<close>

definition best_match :: "string list \<Rightarrow> string \<Rightarrow> nat option \<Rightarrow> bool" where
  "best_match ps name r \<longleftrightarrow>
     (case r of
        None \<Rightarrow> (\<forall>p \<in> set ps. \<not> MatchPattern p name)
      | Some b \<Rightarrow> b < length ps \<and> MatchPattern (ps ! b) name \<and>
          (\<forall>p \<in> set ps. MatchPattern p name \<longrightarrow> \<not> Preferred p (ps ! b)))"

lemma exact_match: "star \<notin> set p \<Longrightarrow> MatchPattern p name \<longleftrightarrow> p = name"
  by (simp add: MatchPattern_def)

lemma exact_best:
  assumes "star \<notin> set p" "MatchPattern p name" "MatchPattern q name"
  shows "\<not> Preferred q p"
  using assms exact_match [of p name] exact_match [of q name] more_specific.irrefl
  by (auto simp: Preferred_def)

lemma best_match_snoc:
  assumes "best_match ps name best"
    and "\<forall>q \<in> set ps. MatchPattern q name \<longrightarrow> star \<in> set q"
    and "MatchPattern p name" "star \<in> set p"
  shows "best_match (ps @ [p]) name
    (case best of
       None \<Rightarrow> Some (length ps)
     | Some b \<Rightarrow> if MoreSpecific p (ps ! b) then Some (length ps) else Some b)"
proof (cases best)
  case None
  with assms show ?thesis by (auto simp: best_match_def preferred.irrefl)
next
  case (Some b)
  then have b: "b < length ps" "star \<in> set (ps ! b)"
    using assms by (auto simp: best_match_def)
  have "Preferred p (ps ! b) = MoreSpecific p (ps ! b)"
    using b assms(4) by (simp add: Preferred_def)
  moreover have "\<not> Preferred q p" if "MoreSpecific p (ps ! b)" "\<not> Preferred q (ps ! b)" for q
    using that calculation preferred.not_before_trans preferred.asym by blast
  ultimately show ?thesis
    using Some assms b by (auto simp: best_match_def nth_append preferred.irrefl)
qed

lemma select_loop_best:
  assumes "ps = seen @ rest" "i = length seen" "best_match seen name best"
    and "\<forall>q \<in> set seen. MatchPattern q name \<longrightarrow> star \<in> set q"
  shows "best_match ps name (select_loop ps name best i rest)"
  using assms
proof (induction rest arbitrary: seen best i)
  case (Cons p rest)
  show ?case
  proof (cases "MatchPattern p name")
    case False
    with Cons.prems have "best_match (seen @ [p]) name best"
      by (auto simp: best_match_def nth_append split: option.splits)
    then show ?thesis using Cons.prems Cons.IH [of "seen @ [p]" "Suc i" best] False by simp
  next
    case match: True
    show ?thesis
    proof (cases "star \<in> set p")
      case False
      with Cons.prems match exact_best [of p name] show ?thesis
        by (auto simp: best_match_def nth_append)
    next
      case True
      let ?b = "case best of None \<Rightarrow> Some i
        | Some b \<Rightarrow> if MoreSpecific p (ps ! b) then Some i else Some b"
      have "best_match (seen @ [p]) name ?b"
        using best_match_snoc [OF Cons.prems(3,4) match True] Cons.prems
        by (auto simp: best_match_def nth_append split: option.splits)
      then show ?thesis
        using Cons.prems Cons.IH [of "seen @ [p]" "Suc i" ?b] True match by auto
    qed
  qed
qed simp

lemma SelectPattern_best: "best_match ps name (SelectPattern ps name)"
  using select_loop_best [of ps "[]" ps 0 name None]
  by (simp add: SelectPattern_def best_match_def)

lemma SelectPattern_Some:
  assumes "SelectPattern ps name = Some b"
  shows "b < length ps" "MatchPattern (ps ! b) name"
    "p \<in> set ps \<Longrightarrow> MatchPattern p name \<Longrightarrow> \<not> Preferred p (ps ! b)"
  using SelectPattern_best [of ps name] assms by (auto simp: best_match_def)

lemma SelectPattern_None: "SelectPattern ps name = None \<longleftrightarrow> (\<forall>p \<in> set ps. \<not> MatchPattern p name)"
  using SelectPattern_best [of ps name]
  by (cases "SelectPattern ps name") (auto simp: best_match_def)

text \<open>The chosen pattern depends on the set of patterns only.\<close>

lemma SelectPattern_set:
  assumes "set ps = set qs"
  shows "map_option ((!) ps) (SelectPattern ps name) = map_option ((!) qs) (SelectPattern qs name)"
proof (cases "SelectPattern ps name")
  case None
  with assms show ?thesis by (metis SelectPattern_None option.map_disc_iff)
next
  case (Some b)
  with assms obtain c where c: "SelectPattern qs name = Some c"
    by (metis SelectPattern_None not_None_eq)
  have "ps ! b = qs ! c"
    by (rule preferred.best_unique [of _ "{p \<in> set ps. MatchPattern p name}"])
      (use assms SelectPattern_Some [OF Some] SelectPattern_Some [OF c] in auto)
  with Some c show ?thesis by simp
qed

section \<open>Version order: numbers compare as numbers\<close>

fun digits_val :: "string \<Rightarrow> nat" where
  "digits_val [] = 0"
| "digits_val (c # cs) = (code c - 48) * 10 ^ length cs + digits_val cs"

text \<open>A name as the sequence of its characters and numbers, each with the key it sorts by.\<close>

function version_key :: "string \<Rightarrow> (nat \<times> nat) list" where
  "version_key s =
     (if s = [] then []
      else if is_digit (hd s)
        then (48, digits_val (leadingDigits s)) # version_key (drop (length (leadingDigits s)) s)
        else (code (hd s), 0) # version_key (tl s))"
  by pat_completeness auto
termination
  by (relation "measure length") (auto simp: leadingDigits_def neq_Nil_conv intro!: diff_less)

declare version_key.simps [simp del]

lemma digits_val_zeros: "digits_val (dropWhile (\<lambda>c. c = CHR ''0'') s) = digits_val s"
  by (induction s) auto

lemma digits_val_less: "list_all is_digit s \<Longrightarrow> digits_val s < 10 ^ length s"
proof (induction s)
  case (Cons c s)
  then have "code c - 48 \<le> 9" "digits_val s < 10 ^ length s" by (auto simp: is_digit_def)
  then have "(code c - 48) * 10 ^ length s + digits_val s < 9 * 10 ^ length s + 10 ^ length s"
    by (intro add_le_less_mono mult_right_mono) auto
  then show ?case by simp
qed simp

lemma digits_val_length:
  assumes "list_all is_digit a" "list_all is_digit b" "length a < length b"
    "b = [] \<or> hd b \<noteq> CHR ''0''"
  shows "digits_val a < digits_val b"
proof (cases b)
  case (Cons c cs)
  then have "1 \<le> code c - 48" using assms by (auto simp: is_digit_def code_inject [of c])
  then have "10 ^ length cs \<le> (code c - 48) * 10 ^ length cs" by simp
  also have "\<dots> \<le> digits_val b" using Cons by simp
  finally have "10 ^ length cs \<le> digits_val b" .
  moreover have "(10 :: nat) ^ length a \<le> 10 ^ length cs"
    using assms Cons by (intro power_increasing) auto
  ultimately show ?thesis using digits_val_less [OF assms(1)] by linarith
qed (use assms in simp)

lemma digits_val_lex:
  "length a = length b \<Longrightarrow> list_all is_digit a \<Longrightarrow> list_all is_digit b \<Longrightarrow> a < b \<Longrightarrow>
     digits_val a < digits_val b"
proof (induction a b rule: list_induct2)
  case (Cons x xs y ys)
  show ?case
  proof (cases "x = y")
    case False
    with Cons.prems have "code x < code y" "48 \<le> code x" by (auto simp: less_char_def is_digit_def)
    then have "(code x - 48) + 1 \<le> code y - 48" by simp
    then have "((code x - 48) + 1) * 10 ^ length xs \<le> (code y - 48) * 10 ^ length xs"
      by (rule mult_right_mono) simp
    with digits_val_less [of xs] Cons show ?thesis by simp
  qed (use Cons in simp)
qed simp

lemma strip_zeros:
  assumes "list_all is_digit d" "n = dropWhile (\<lambda>c. c = CHR ''0'') d"
  shows "list_all is_digit n" "n = [] \<or> hd n \<noteq> CHR ''0''" "digits_val n = digits_val d"
proof -
  show "list_all is_digit n" using assms by (auto simp: list_all_iff dest: set_dropWhileD)
  show "n = [] \<or> hd n \<noteq> CHR ''0''" using assms(2) hd_dropWhile by blast
  show "digits_val n = digits_val d" using assms(2) by (simp add: digits_val_zeros)
qed

lemma digits_compare:
  assumes "list_all is_digit a" "list_all is_digit b"
    "a = [] \<or> hd a \<noteq> CHR ''0''" "b = [] \<or> hd b \<noteq> CHR ''0''"
  shows "length a \<noteq> length b \<Longrightarrow> cmpInt (length a) (length b) = cmpInt (digits_val a) (digits_val b)"
    "length a = length b \<Longrightarrow> compare_strings a b = cmpInt (digits_val a) (digits_val b)"
    "digits_val a = digits_val b \<Longrightarrow> a = b"
proof -
  note facts = digits_val_length [of a b] digits_val_length [of b a]
    digits_val_lex [of a b] digits_val_lex [of b a]
  show "length a \<noteq> length b \<Longrightarrow> cmpInt (length a) (length b) = cmpInt (digits_val a) (digits_val b)"
    and "length a = length b \<Longrightarrow> compare_strings a b = cmpInt (digits_val a) (digits_val b)"
    using facts assms by (auto simp: cmpInt_def compare_strings_def neq_iff)
  show "digits_val a = digits_val b \<Longrightarrow> a = b"
    using facts assms by (metis less_irrefl linorder_cases)
qed

definition compare_keys :: "(nat \<times> nat) list \<Rightarrow> (nat \<times> nat) list \<Rightarrow> int" where
  "compare_keys x y = (if x < y then -1 else if x = y then 0 else 1)"

lemma compare_keys_Cons:
  "compare_keys (x # xs) (y # ys) =
     (if x = y then compare_keys xs ys else if x < y then -1 else 1)"
  by (auto simp: compare_keys_def)

lemma compare_keys_Nil [simp]:
  "compare_keys [] [] = 0" "compare_keys [] (y # ys) = -1" "compare_keys (x # xs) [] = 1"
  by (simp_all add: compare_keys_def)

lemma leadingDigits_Nil [simp]: "a \<noteq> [] \<Longrightarrow> leadingDigits a = [] \<longleftrightarrow> \<not> is_digit (hd a)"
  by (cases a) (simp_all add: leadingDigits_def)

lemma leadingDigits_digits: "list_all is_digit (leadingDigits a)"
  by (auto simp: leadingDigits_def list_all_iff dest: set_takeWhileD)

lemma version_key_Nil [simp]: "version_key [] = []"
  by (simp add: version_key.simps)

lemma version_key_head:
  "a \<noteq> [] \<Longrightarrow> version_key a =
     (if is_digit (hd a)
      then (48, digits_val (leadingDigits a)) # version_key (drop (length (leadingDigits a)) a)
      else (code (hd a), 0) # version_key (tl a))"
  by (simp add: version_key.simps [of a])

lemma compare_heads:
  assumes "a \<noteq> []" "b \<noteq> []" "\<not> (is_digit (hd a) \<and> is_digit (hd b))" "hd a \<noteq> hd b"
  shows "cmpInt (code (hd a)) (code (hd b)) = compare_keys (version_key a) (version_key b)"
proof -
  have "code (hd a) \<noteq> code (hd b)" using assms(4) code_inject by blast
  with assms(3) show ?thesis
    unfolding version_key_head [OF assms(1)] version_key_head [OF assms(2)]
    by (auto simp: compare_keys_Cons cmpInt_def is_digit_def)
qed

lemma versionCompare_keys: "versionCompare a b = compare_keys (version_key a) (version_key b)"
proof (induction a b rule: versionCompare.induct)
  case (1 a b)
  show ?case
  proof (cases "a = [] \<or> b = []")
    case True
    then show ?thesis
      by (cases "a = []"; cases "b = []")
        (simp_all add: versionCompare.simps [of "[]"] versionCompare.simps [of a "[]"] cmpInt_def
          version_key_head)
  next
    case nonempty: False
    let ?da = "leadingDigits a" and ?db = "leadingDigits b"
    let ?na = "dropWhile (\<lambda>c. c = CHR ''0'') ?da" and ?nb = "dropWhile (\<lambda>c. c = CHR ''0'') ?db"
    note na = strip_zeros [OF leadingDigits_digits [of a] refl]
    note nb = strip_zeros [OF leadingDigits_digits [of b] refl]
    show ?thesis
    proof (cases "is_digit (hd a) \<and> is_digit (hd b)")
      case digits: True
      have "versionCompare a b =
          (if length ?na \<noteq> length ?nb then cmpInt (length ?na) (length ?nb)
           else if ?na \<noteq> ?nb then compare_strings ?na ?nb
           else versionCompare (drop (length ?da) a) (drop (length ?db) b))"
        using nonempty digits by (simp add: versionCompare.simps [of a b] Let_def)
      also have "\<dots> = (if digits_val ?da = digits_val ?db
          then versionCompare (drop (length ?da) a) (drop (length ?db) b)
          else cmpInt (digits_val ?da) (digits_val ?db))"
        using digits_compare [OF na(1) nb(1) na(2) nb(2)] na(3) nb(3)
        by (auto simp: cmpInt_def split: if_splits)
      also have "\<dots> = compare_keys (version_key a) (version_key b)"
      proof (cases "digits_val ?da = digits_val ?db")
        case True
        with digits_compare [OF na(1) nb(1) na(2) nb(2)] na(3) nb(3) have same: "?na = ?nb"
          by metis
        have "versionCompare (drop (length ?da) a) (drop (length ?db) b) =
            compare_keys (version_key (drop (length ?da) a)) (version_key (drop (length ?db) b))"
          by (rule 1(1) [OF _ refl refl _ refl refl]) (use nonempty digits same in auto)
        with True nonempty digits show ?thesis by (simp add: version_key_head compare_keys_Cons)
      next
        case False
        with nonempty digits show ?thesis
          by (simp add: version_key_head compare_keys_Cons cmpInt_def)
      qed
      finally show ?thesis .
    next
      case nodigit: False
      then have step: "versionCompare a b =
          (if hd a \<noteq> hd b then cmpInt (code (hd a)) (code (hd b)) else versionCompare (tl a) (tl b))"
        using nonempty unfolding versionCompare.simps [of a b] Let_def by auto
      show ?thesis
      proof (cases "hd a = hd b")
        case True
        with nodigit nonempty have "versionCompare (tl a) (tl b) =
            compare_keys (version_key (tl a)) (version_key (tl b))"
          by (intro 1(2) [OF _ refl refl]) auto
        with True nodigit nonempty step show ?thesis
          by (simp add: version_key_head compare_keys_Cons)
      next
        case False
        with nodigit nonempty step compare_heads [of a b] show ?thesis by simp
      qed
    qed
  qed
qed

lemma VersionLess_key: "VersionLess a b \<longleftrightarrow> (version_key a, a) < (version_key b, b)"
  by (auto simp: VersionLess_def versionCompare_keys compare_keys_def Let_def)

interpretation version_order: strict_precedence VersionLess
  unfolding VersionLess_key [abs_def] by (rule strict_precedence_key) (auto simp: inj_def)

text \<open>The key of a name is the sequence of its parts: a maximal run of digits is one part.\<close>

lemma version_key_text:
  assumes "p = [] \<or> \<not> is_digit (last p)"
  shows "version_key (p @ s) = version_key p @ version_key s"
  using assms
proof (induction p rule: version_key.induct)
  case (1 p)
  show ?case
  proof (cases "p = []")
    case False
    show ?thesis
    proof (cases "is_digit (hd p)")
      case True
      let ?d = "leadingDigits p"
      have "\<exists>c \<in> set p. \<not> is_digit c" using False 1(3) last_in_set by blast
      then have lead: "leadingDigits (p @ s) = ?d" and rest: "drop (length ?d) p \<noteq> []"
        by (auto simp: leadingDigits_def takeWhile_append dropWhile_eq_drop [symmetric])
      have "length ?d < length p" using rest by simp
      moreover have "\<not> is_digit (last (drop (length ?d) p))"
        using False 1(3) rest by (simp add: last_drop)
      ultimately show ?thesis
        using False True 1(1) lead by (simp add: version_key_head)
    next
      case nodigit: False
      have "tl p = [] \<or> \<not> is_digit (last (tl p))" using False 1(3) by (metis last_tl)
      with False nodigit 1(2) show ?thesis by (simp add: version_key_head)
    qed
  qed simp
qed

lemma list_less_append_same: "xs @ ys < xs @ (zs :: 'a :: linorder list) \<longleftrightarrow> ys < zs"
  by (induction xs) auto

lemma version_key_digits:
  assumes "d \<noteq> []" "list_all is_digit d" "s = [] \<or> \<not> is_digit (hd s)"
  shows "version_key (d @ s) = (48, digits_val d) # version_key s"
proof -
  have "takeWhile is_digit s = []" using assms(3) by (cases s) auto
  then have "leadingDigits (d @ s) = d"
    using assms(2) by (simp add: leadingDigits_def list_all_iff takeWhile_append2)
  moreover have "is_digit (hd (d @ s))" using assms by (cases d) auto
  ultimately show ?thesis using assms(1) by (simp add: version_key_head)
qed

section \<open>Properties\<close>

text \<open>
  \<open>SelectPattern\<close> returns the index of the pattern that matches the name and that is
  preferred to every other match (exact before wildcard, then more literal characters, then
  shorter, then lexicographically smaller), and -1 only when no pattern matches.
\<close>

theorem SelectPattern_chooses_best:
  "case SelectPattern ps name of
     None \<Rightarrow> \<forall>p \<in> set ps. \<not> MatchPattern p name
   | Some i \<Rightarrow> i < length ps \<and> MatchPattern (ps ! i) name \<and>
       (\<forall>p \<in> set ps. MatchPattern p name \<longrightarrow> p \<noteq> ps ! i \<longrightarrow> Preferred (ps ! i) p)"
  using SelectPattern_best [of ps name] preferred.total
  by (auto simp: best_match_def split: option.splits)

theorem SelectPattern_chooses_best_witness:
  "SelectPattern [''*'', ''release/*'', ''rel*''] ''release/1'' = Some 1 \<and>
   Preferred ''release/*'' ''rel*''"
proof -
  have sel: "SelectPattern [''*'', ''release/*'', ''rel*''] ''release/1'' = Some 1" by code_simp
  moreover have "MatchPattern ''rel*'' ''release/1''" by code_simp
  ultimately show ?thesis
    using SelectPattern_chooses_best [of "[''*'', ''release/*'', ''rel*'']" "''release/1''"]
    by simp
qed

text \<open>
  The pattern \<open>SelectPattern\<close> picks does not depend on the order in which the patterns
  are declared (nor on repetitions): two pattern lists with the same elements give the same
  pattern.
\<close>

theorem SelectPattern_order_independent:
  assumes "set ps = set qs"
  shows "map_option (\<lambda>i. ps ! i) (SelectPattern ps name) =
    map_option (\<lambda>i. qs ! i) (SelectPattern qs name)"
  using SelectPattern_set [OF assms] by simp

theorem SelectPattern_order_independent_witness:
  "map_option (\<lambda>i. [''v*'', ''v1.*''] ! i) (SelectPattern [''v*'', ''v1.*''] ''v1.2'') =
    map_option (\<lambda>i. [''v1.*'', ''v*''] ! i) (SelectPattern [''v1.*'', ''v*''] ''v1.2'')"
  by (rule SelectPattern_order_independent) auto

text \<open>
  \<open>VersionLess\<close> is a strict total order, so a sort by it has exactly one result, and it
  reads versions as a person does: where two names agree up to a run of digits, the smaller
  number comes first, however many digits or leading zeros it is written with.
\<close>

theorem VersionLess_reads_numbers:
  assumes "p = [] \<or> \<not> is_digit (last p)" "d \<noteq> []" "list_all is_digit d" "e \<noteq> []"
    "list_all is_digit e" "s = [] \<or> \<not> is_digit (hd s)" "t = [] \<or> \<not> is_digit (hd t)"
    "digits_val d < digits_val e"
  shows "VersionLess (p @ d @ s) (p @ e @ t) \<and> \<not> VersionLess (p @ e @ t) (p @ d @ s)"
proof -
  have "version_key (p @ d @ s) < version_key (p @ e @ t)"
    using assms by (simp add: version_key_text version_key_digits list_less_append_same)
  then have "VersionLess (p @ d @ s) (p @ e @ t)" by (simp add: VersionLess_key)
  then show ?thesis using version_order.asym by blast
qed

theorem VersionLess_reads_numbers_witness:
  "VersionLess (''v1.0.0-beta.'' @ ''9'' @ []) (''v1.0.0-beta.'' @ ''10'' @ []) \<and>
   \<not> VersionLess (''v1.0.0-beta.'' @ ''10'' @ []) (''v1.0.0-beta.'' @ ''9'' @ [])"
  by (rule VersionLess_reads_numbers) (simp_all add: is_digit_def)



end
