(* ===== verification/Rules.thy ===== *)
theory Rules
  imports Git_Refs
begin

text \<open>
  Package \<open>internal/repo\<close>, files \<open>rules.go\<close> and \<open>repo.go\<close>: ref rules and the default push
  policy, together the only permission system for writing to a repository, and the
  validators of a repository's settings.
\<close>

section \<open>Rules and decisions\<close>

datatype PushPolicy = PushEveryone | PushAdmins | PushPeople | PushUnknown string

record Rule =
  rl_Kind :: Kind
  rl_Pattern :: string
  rl_PushPolicy :: PushPolicy
  rl_PushPeople :: "string list"
  rl_AllowForce :: bool
  rl_AllowDelete :: bool
  rl_RunOnPush :: bool
  rl_AllowDocker :: bool
  rl_AllowSecrets :: bool
  rl_AllowDeploy :: bool

record Decision =
  d_CanPush :: bool
  d_AllowForce :: bool
  d_AllowDelete :: bool
  d_RunOnPush :: bool
  d_AllowDocker :: bool
  d_AllowSecrets :: bool
  d_AllowDeploy :: bool
  d_MatchedRule :: "Rule option"

record Who =
  who_ID :: string
  who_Username :: string
  who_IsAdmin :: bool

datatype Visibility = VisibilityEveryone | VisibilityRestricted | VisibilityUnknown string

record Repo =
  rp_ID :: string
  rp_Name :: string
  rp_Description :: string
  rp_DefaultBranch :: string
  rp_Visibility :: Visibility
  rp_DefaultPushPolicy :: PushPolicy
  rp_DefaultPushPeople :: "string list"
  rp_CreatedBy :: "string option"
  rp_CreatedAt :: timestamp

text \<open>Why a deletion is refused; the label of the rule behind it is the rule itself.\<close>

datatype refusal = MayNotPush "Rule option" string | DefaultBranchKept | MayNotDelete "Rule option"

datatype rule_error =
  RuleKind | RuleRef ref_error | PolicyPeopleListed | PolicyNoPeople | PolicyUnknown PushPolicy

datatype repo_error =
  VisibilityInvalid | DescriptionTooLong | DefaultBranchName "ref_error public_text"
| DefaultBranchHash string

definition containsID :: "string list \<Rightarrow> string \<Rightarrow> bool" where
  "containsID ids i = list_ex (\<lambda>existing. existing = i) ids"

text \<open>
  \<open>selectRule\<close> collects the patterns of the rules of the kind with their positions, selects
  a pattern and returns the rule at its position.
\<close>

definition selectRule :: "Rule list \<Rightarrow> Kind \<Rightarrow> string \<Rightarrow> Rule option" where
  "selectRule rules kind name =
     (let indices = filter (\<lambda>i. rl_Kind (rules ! i) = kind) [0..<length rules];
          patterns = map (\<lambda>i. rl_Pattern (rules ! i)) indices
      in case SelectPattern patterns name of
           None \<Rightarrow> None
         | Some best \<Rightarrow> Some (rules ! (indices ! best)))"

text \<open>The \<open>switch\<close> on a push policy; an unknown policy leaves \<open>CanPush\<close> false.\<close>

fun may_push :: "PushPolicy \<Rightarrow> string list \<Rightarrow> string \<Rightarrow> bool \<Rightarrow> bool" where
  "may_push PushEveryone people person isAdmin = True"
| "may_push PushAdmins people person isAdmin = isAdmin"
| "may_push PushPeople people person isAdmin = (isAdmin \<or> containsID people person)"
| "may_push (PushUnknown _) people person isAdmin = False"

definition Evaluate ::
  "Rule list \<Rightarrow> Kind \<Rightarrow> string \<Rightarrow> string \<Rightarrow> bool \<Rightarrow> PushPolicy \<Rightarrow> string list \<Rightarrow> Decision" where
  "Evaluate rules kind name personID isAdmin defaultPush defaultPushPeople =
     (case selectRule rules kind name of
        None \<Rightarrow>
          \<lparr>d_CanPush = may_push defaultPush defaultPushPeople personID isAdmin,
           d_AllowForce = True, d_AllowDelete = True, d_RunOnPush = False,
           d_AllowDocker = False, d_AllowSecrets = False, d_AllowDeploy = False,
           d_MatchedRule = None\<rparr>
      | Some matched \<Rightarrow>
          \<lparr>d_CanPush = may_push (rl_PushPolicy matched) (rl_PushPeople matched) personID isAdmin,
           d_AllowForce = rl_AllowForce matched, d_AllowDelete = rl_AllowDelete matched,
           d_RunOnPush = rl_RunOnPush matched, d_AllowDocker = rl_AllowDocker matched,
           d_AllowSecrets = rl_AllowSecrets matched, d_AllowDeploy = rl_AllowDeploy matched,
           d_MatchedRule = Some matched\<rparr>)"

text \<open>The reason is \<^const>\<open>None\<close> (the empty string of the source) when the deletion is allowed.\<close>

definition CheckDelete ::
  "Repo \<Rightarrow> Rule list \<Rightarrow> Kind \<Rightarrow> string \<Rightarrow> Who \<Rightarrow> Decision \<times> refusal option" where
  "CheckDelete r rules kind name who =
     (let d = Evaluate rules kind name (who_ID who) (who_IsAdmin who)
                (rp_DefaultPushPolicy r) (rp_DefaultPushPeople r)
      in if \<not> d_CanPush d then (d, Some (MayNotPush (d_MatchedRule d) (who_Username who)))
         else if kind = KindBranch \<and> name = rp_DefaultBranch r then (d, Some DefaultBranchKept)
         else if \<not> d_AllowDelete d then (d, Some (MayNotDelete (d_MatchedRule d)))
         else (d, None))"

section \<open>Validators\<close>

fun validatePushPolicy :: "PushPolicy \<Rightarrow> string list \<Rightarrow> (rule_error go_error, unit) result" where
  "validatePushPolicy (PushUnknown s) people = invalid (PolicyUnknown (PushUnknown s))"
| "validatePushPolicy PushPeople people =
     (if length people = 0 then invalid PolicyNoPeople else ok ())"
| "validatePushPolicy policy people =
     (if length people > 0 then invalid PolicyPeopleListed else ok ())"

definition map_message :: "('m \<Rightarrow> 'n) \<Rightarrow> ('m go_error, 'a) result \<Rightarrow> ('n go_error, 'a) result" where
  "map_message f = map_error (map_go_error f)"

definition ValidateRule :: "Rule \<Rightarrow> (rule_error go_error, unit) result" where
  "ValidateRule r =
     (if rl_Kind r \<noteq> KindBranch \<and> rl_Kind r \<noteq> KindTag then invalid RuleKind
      else case map_message RuleRef (ValidatePattern (rl_Pattern r)) of
             Inl err \<Rightarrow> Inl err
           | Inr _ \<Rightarrow> validatePushPolicy (rl_PushPolicy r) (rl_PushPeople r))"

definition ValidateDefaultPush :: "PushPolicy \<Rightarrow> string list \<Rightarrow> (rule_error go_error, unit) result" where
  "ValidateDefaultPush policy people = validatePushPolicy policy people"

definition ValidateVisibility :: "Visibility \<Rightarrow> (repo_error go_error, unit) result" where
  "ValidateVisibility v =
     (case v of
        VisibilityEveryone \<Rightarrow> ok ()
      | VisibilityRestricted \<Rightarrow> ok ()
      | VisibilityUnknown _ \<Rightarrow> invalid VisibilityInvalid)"

definition MaxDescriptionLen :: nat where
  "MaxDescriptionLen = 500"

definition ValidateDescription :: "string \<Rightarrow> (repo_error go_error, unit) result" where
  "ValidateDescription description =
     (if rune_count description > MaxDescriptionLen then invalid DescriptionTooLong else ok ())"

definition ValidateDefaultBranch :: "string \<Rightarrow> (repo_error go_error, unit) result" where
  "ValidateDefaultBranch branch =
     (case ValidateName branch of
        Inl err \<Rightarrow> invalid (DefaultBranchName (PublicMessage err))
      | Inr _ \<Rightarrow>
          if LooksLikeCommitHash branch then invalid (DefaultBranchHash branch) else ok ())"

section \<open>Lemmas\<close>

lemma map_message_ok [simp]: "map_message f r = ok a \<longleftrightarrow> r = ok a"
  by (simp add: map_message_def)

lemma containsID_iff [simp]: "containsID ids i \<longleftrightarrow> i \<in> set ids"
  by (auto simp: containsID_def list_ex_iff)

lemma rules_of_kind:
  "map (\<lambda>i. rules ! i) (filter (\<lambda>i. P (rules ! i)) [0..<length rules]) = filter P rules"
proof -
  have "filter P (map (\<lambda>i. rules ! i) [0..<length rules]) = filter P rules"
    by (simp add: map_nth)
  then show ?thesis by (simp add: filter_map comp_def)
qed

text \<open>Working on positions is the same as working on the list of rules of the kind.\<close>

lemma selectRule_filter:
  "selectRule rules kind name =
     (let rs = filter (\<lambda>r. rl_Kind r = kind) rules
      in map_option (\<lambda>i. rs ! i) (SelectPattern (map rl_Pattern rs) name))"
proof -
  let ?is = "filter (\<lambda>i. rl_Kind (rules ! i) = kind) [0..<length rules]"
  let ?rs = "filter (\<lambda>r. rl_Kind r = kind) rules"
  have rs: "map (\<lambda>i. rules ! i) ?is = ?rs" by (rule rules_of_kind)
  then have ps: "map (\<lambda>i. rl_Pattern (rules ! i)) ?is = map rl_Pattern ?rs"
    by (metis (no_types, lifting) comp_def map_eq_conv map_map)
  have "rules ! (?is ! b) = ?rs ! b" if "SelectPattern (map rl_Pattern ?rs) name = Some b" for b
  proof -
    have "b < length ?is" using SelectPattern_Some(1) [OF that] arg_cong [OF rs, of length] by simp
    then show ?thesis using rs by (metis nth_map)
  qed
  then show ?thesis unfolding selectRule_def Let_def ps by (auto split: option.split)
qed

lemma selectRule_Some:
  assumes "selectRule rules kind name = Some r"
  shows "r \<in> set rules" "rl_Kind r = kind" "MatchPattern (rl_Pattern r) name"
    "q \<in> set rules \<Longrightarrow> rl_Kind q = kind \<Longrightarrow> MatchPattern (rl_Pattern q) name \<Longrightarrow>
       \<not> Preferred (rl_Pattern q) (rl_Pattern r)"
proof -
  let ?rs = "filter (\<lambda>r. rl_Kind r = kind) rules"
  from assms obtain b where b: "SelectPattern (map rl_Pattern ?rs) name = Some b" "r = ?rs ! b"
    by (auto simp: selectRule_filter Let_def)
  note sel = SelectPattern_Some [OF b(1)]
  have "r \<in> set ?rs" using sel(1) b(2) nth_mem by fastforce
  then show "r \<in> set rules" "rl_Kind r = kind" by auto
  have r: "map rl_Pattern ?rs ! b = rl_Pattern r" using sel(1) b(2) by simp
  with sel(2) show "MatchPattern (rl_Pattern r) name" by simp
  show "\<not> Preferred (rl_Pattern q) (rl_Pattern r)"
    if "q \<in> set rules" "rl_Kind q = kind" "MatchPattern (rl_Pattern q) name"
    using sel(3) [of "rl_Pattern q"] that r by auto
qed

lemma selectRule_None:
  "selectRule rules kind name = None \<longleftrightarrow>
     (\<forall>r \<in> set rules. rl_Kind r = kind \<longrightarrow> \<not> MatchPattern (rl_Pattern r) name)"
  by (auto simp: selectRule_filter SelectPattern_None Let_def)

lemma selectRule_set:
  assumes "set rules = set rules'" "inj_on (\<lambda>r. (rl_Kind r, rl_Pattern r)) (set rules)"
  shows "selectRule rules kind name = selectRule rules' kind name"
proof (cases "selectRule rules kind name")
  case None
  with assms show ?thesis by (metis selectRule_None)
next
  case (Some r)
  with assms(1) obtain r' where r': "selectRule rules' kind name = Some r'"
    by (metis selectRule_None not_None_eq)
  note sel = selectRule_Some [OF Some] selectRule_Some [OF r']
  have "rl_Pattern r = rl_Pattern r'"
    using sel assms(1) preferred.total [of "rl_Pattern r" "rl_Pattern r'"] by metis
  with sel assms have "r = r'" by (metis (no_types, lifting) inj_onD)
  with Some r' show ?thesis by simp
qed

lemma validatePushPolicy_admin:
  "validatePushPolicy policy people = ok () \<Longrightarrow> may_push policy people person True"
  by (cases policy) auto

lemma validatePushPolicy_ok:
  "validatePushPolicy policy people = ok () \<longleftrightarrow>
     (policy = PushPeople \<and> people \<noteq> []) \<or> (policy \<in> {PushEveryone, PushAdmins} \<and> people = [])"
  by (cases policy) auto

lemma ValidateRule_ok:
  "ValidateRule r = ok () \<longleftrightarrow>
     valid_kind (rl_Kind r) \<and> ValidatePattern (rl_Pattern r) = ok () \<and>
     validatePushPolicy (rl_PushPolicy r) (rl_PushPeople r) = ok ()"
  by (cases "ValidatePattern (rl_Pattern r)") (auto simp: ValidateRule_def valid_kind_def map_message_def)

lemma Evaluate_None:
  "selectRule rules kind name = None \<Longrightarrow>
     d_CanPush (Evaluate rules kind name p a dp dps) = may_push dp dps p a \<and>
     d_MatchedRule (Evaluate rules kind name p a dp dps) = None"
  by (simp add: Evaluate_def)

lemma Evaluate_Some:
  "selectRule rules kind name = Some r \<Longrightarrow>
     d_CanPush (Evaluate rules kind name p a dp dps) =
       may_push (rl_PushPolicy r) (rl_PushPeople r) p a \<and>
     d_MatchedRule (Evaluate rules kind name p a dp dps) = Some r"
  by (simp add: Evaluate_def)

section \<open>Properties\<close>

text \<open>
  Once a repository's rules and its default push policy have passed \<open>ValidateRule\<close> and
  \<open>ValidateDefaultPush\<close>, no rule set can lock an admin out: \<open>Evaluate\<close> lets an admin push to
  every branch and tag.
\<close>

theorem Evaluate_admin_may_push:
  assumes "\<forall>r \<in> set rules. ValidateRule r = ok ()" "ValidateDefaultPush dp dps = ok ()"
  shows "d_CanPush (Evaluate rules kind name person True dp dps)"
proof (cases "selectRule rules kind name")
  case None
  with assms(2) show ?thesis
    using validatePushPolicy_admin by (simp add: Evaluate_None ValidateDefaultPush_def)
next
  case (Some r)
  with assms(1) show ?thesis
    using validatePushPolicy_admin selectRule_Some(1)
    by (fastforce simp: Evaluate_Some ValidateRule_ok)
qed

definition sample_rule :: Rule where
  "sample_rule =
     \<lparr>rl_Kind = KindBranch, rl_Pattern = ''release/*'', rl_PushPolicy = PushPeople,
      rl_PushPeople = [''p1''], rl_AllowForce = False, rl_AllowDelete = False,
      rl_RunOnPush = True, rl_AllowDocker = True, rl_AllowSecrets = False,
      rl_AllowDeploy = False\<rparr>"

theorem Evaluate_admin_may_push_witness:
  "d_CanPush (Evaluate [sample_rule] KindBranch ''release/1'' ''p9'' True PushAdmins []) \<and>
   \<not> d_CanPush (Evaluate [sample_rule] KindBranch ''release/1'' ''p9'' False PushAdmins [])"
proof -
  have "ValidateRule sample_rule = ok ()" by code_simp
  moreover have "ValidateDefaultPush PushAdmins [] = ok ()" by code_simp
  ultimately have "d_CanPush (Evaluate [sample_rule] KindBranch ''release/1'' ''p9'' True PushAdmins [])"
    by (intro Evaluate_admin_may_push) simp_all
  moreover have "\<not> d_CanPush (Evaluate [sample_rule] KindBranch ''release/1'' ''p9'' False PushAdmins [])"
    by code_simp
  ultimately show ?thesis ..
qed

text \<open>
  \<open>Evaluate\<close> grants a CI capability (run on push, Docker, secrets, deploy) only when
  the rule for the ref's kind that is preferred to all other matching rules grants it; with
  no matching rule none is granted and force-push and delete stay allowed.
\<close>

theorem Evaluate_capabilities:
  "let d = Evaluate rules kind name person isAdmin dp dps in
   case d_MatchedRule d of
     None \<Rightarrow>
       (\<forall>r \<in> set rules. rl_Kind r = kind \<longrightarrow> \<not> MatchPattern (rl_Pattern r) name) \<and>
       d_AllowForce d \<and> d_AllowDelete d \<and>
       \<not> d_RunOnPush d \<and> \<not> d_AllowDocker d \<and> \<not> d_AllowSecrets d \<and> \<not> d_AllowDeploy d
   | Some r \<Rightarrow>
       r \<in> set rules \<and> rl_Kind r = kind \<and> MatchPattern (rl_Pattern r) name \<and>
       (\<forall>q \<in> set rules. rl_Kind q = kind \<longrightarrow> MatchPattern (rl_Pattern q) name \<longrightarrow>
          \<not> Preferred (rl_Pattern q) (rl_Pattern r)) \<and>
       d_RunOnPush d = rl_RunOnPush r \<and> d_AllowDocker d = rl_AllowDocker r \<and>
       d_AllowSecrets d = rl_AllowSecrets r \<and> d_AllowDeploy d = rl_AllowDeploy r \<and>
       d_AllowForce d = rl_AllowForce r \<and> d_AllowDelete d = rl_AllowDelete r"
proof (cases "selectRule rules kind name")
  case None
  then show ?thesis using selectRule_None [of rules kind name] by (simp add: Evaluate_def)
next
  case (Some r)
  then show ?thesis using selectRule_Some [OF Some] by (simp add: Evaluate_def)
qed

theorem Evaluate_capabilities_witness:
  "d_AllowDocker (Evaluate [sample_rule] KindBranch ''release/1'' ''p1'' False PushEveryone []) \<and>
   \<not> d_AllowDeploy (Evaluate [sample_rule] KindTag ''release/1'' ''p1'' True PushEveryone [])"
proof -
  have "d_MatchedRule (Evaluate [sample_rule] KindBranch ''release/1'' ''p1'' False PushEveryone []) =
      Some sample_rule" by code_simp
  moreover have "d_MatchedRule (Evaluate [sample_rule] KindTag ''release/1'' ''p1'' True PushEveryone []) =
      None" by code_simp
  moreover have "rl_AllowDocker sample_rule" by code_simp
  ultimately show ?thesis
    using Evaluate_capabilities [of "[sample_rule]" KindBranch "''release/1''" "''p1''" False PushEveryone "[]"]
      Evaluate_capabilities [of "[sample_rule]" KindTag "''release/1''" "''p1''" True PushEveryone "[]"]
    by (simp add: Let_def)
qed

text \<open>
  What \<open>Evaluate\<close> decides does not depend on the order of the rules, given that a
  repository has at most one rule for a kind and pattern.
\<close>

theorem Evaluate_order_independent:
  assumes "set rules = set rules'" "inj_on (\<lambda>r. (rl_Kind r, rl_Pattern r)) (set rules)"
  shows "Evaluate rules kind name person isAdmin dp dps =
    Evaluate rules' kind name person isAdmin dp dps"
  by (simp add: Evaluate_def selectRule_set [OF assms])

theorem Evaluate_order_independent_witness:
  "Evaluate [sample_rule, sample_rule\<lparr>rl_Pattern := ''*''\<rparr>] KindBranch ''x'' ''p'' False PushAdmins [] =
   Evaluate [sample_rule\<lparr>rl_Pattern := ''*''\<rparr>, sample_rule] KindBranch ''x'' ''p'' False PushAdmins []"
  by (rule Evaluate_order_independent) (auto simp: sample_rule_def)

text \<open>
  \<open>CheckDelete\<close> allows a deletion exactly when the person may push to the ref, the
  deciding rule allows deleting, and the ref is not the default branch, which nobody, admins
  included, can delete.
\<close>

theorem CheckDelete_allows:
  "snd (CheckDelete r rules kind name who) = None \<longleftrightarrow>
     (let d = Evaluate rules kind name (who_ID who) (who_IsAdmin who)
                (rp_DefaultPushPolicy r) (rp_DefaultPushPeople r)
      in fst (CheckDelete r rules kind name who) = d \<and> d_CanPush d \<and> d_AllowDelete d \<and>
         FullName kind name \<noteq> FullName KindBranch (rp_DefaultBranch r))"
  if "valid_kind kind"
  using that by (auto simp: CheckDelete_def Let_def FullName_inject simp del: FullName_simps)

theorem CheckDelete_allows_witness:
  "snd (CheckDelete
     \<lparr>rp_ID = ''r'', rp_Name = ''repo'', rp_Description = [], rp_DefaultBranch = ''main'',
      rp_Visibility = VisibilityEveryone, rp_DefaultPushPolicy = PushEveryone,
      rp_DefaultPushPeople = [], rp_CreatedBy = None, rp_CreatedAt = 0\<rparr>
     [] KindBranch ''main'' \<lparr>who_ID = ''a'', who_Username = ''root'', who_IsAdmin = True\<rparr>) \<noteq> None"
  by (subst CheckDelete_allows) (simp_all add: Let_def)

end
