(* ===== verification/Redact.thy ===== *)
theory Redact
  imports Gitman_Prelude "HOL-Library.Multiset"
begin

text \<open>
  Package \<open>internal/redact\<close>: the stream that masks secrets in step output before it is
  stored. \<open>New\<close> builds an Aho-Corasick automaton over the secrets; \<open>Append\<close> feeds it
  bytes, holds back what may still become part of a secret and writes \<open>***\<close> once for every
  run of masked bytes.

  Go iterates over the map of a node in an unspecified order. The builder is therefore
  parametrised by \<open>ord\<close>, which lists the entries of a map in some order; every result holds
  for all \<open>ord\<close> that are permutations. The loops that follow failure links get the number of
  nodes as fuel and yield \<^const>\<open>None\<close> when it runs out, which is proved never to happen.
\<close>

section \<open>The automaton\<close>

record node =
  n_next :: "(char \<times> nat) list"
  n_fail :: nat
  n_depth :: nat
  n_match :: nat

type_synonym matcher = "node list"

definition new_node :: "nat \<Rightarrow> node" where
  "new_node depth = \<lparr>n_next = [], n_fail = 0, n_depth = depth, n_match = 0\<rparr>"

abbreviation next_of :: "matcher \<Rightarrow> nat \<Rightarrow> char \<Rightarrow> nat option" where
  "next_of nodes at b \<equiv> map_of (n_next (nodes ! at)) b"

text \<open>The first loop of \<open>New\<close>: walk a pattern from the root, adding the nodes it lacks.\<close>

fun insert_bytes :: "matcher \<Rightarrow> nat \<Rightarrow> string \<Rightarrow> matcher \<times> nat" where
  "insert_bytes nodes at [] = (nodes, at)"
| "insert_bytes nodes at (b # bs) =
     (case next_of nodes at b of
        Some n \<Rightarrow> insert_bytes nodes n bs
      | None \<Rightarrow>
          let n = length nodes;
              nodes = nodes @ [new_node (n_depth (nodes ! at) + 1)];
              nodes = nodes[at := (nodes ! at)\<lparr>n_next := n_next (nodes ! at) @ [(b, n)]\<rparr>]
          in insert_bytes nodes n bs)"

definition insert_pattern :: "string \<Rightarrow> matcher \<Rightarrow> matcher" where
  "insert_pattern p nodes =
     (if p = [] then nodes
      else
        let (nodes, at) = insert_bytes nodes 0 p
        in nodes[at := (nodes ! at)\<lparr>n_match := max (n_match (nodes ! at)) (length p)\<rparr>])"

definition build_trie :: "string list \<Rightarrow> matcher" where
  "build_trie patterns = fold insert_pattern patterns [new_node 0]"

text \<open>
  \<open>for fail != 0 { if _, ok := next[b]; ok { break }; fail = nodes[fail].fail }\<close>, the loop
  that both the builder and the stream run.
\<close>

fun follow :: "nat \<Rightarrow> matcher \<Rightarrow> nat \<Rightarrow> char \<Rightarrow> nat option" where
  "follow fuel nodes at b =
     (if at = 0 \<or> next_of nodes at b \<noteq> None then Some at
      else case fuel of 0 \<Rightarrow> None | Suc fuel \<Rightarrow> follow fuel nodes (n_fail (nodes ! at)) b)"

declare follow.simps [simp del]

text \<open>The body of the breadth-first loop for one entry \<open>b, child\<close> of the node \<open>at\<close>.\<close>

definition link_child :: "nat \<Rightarrow> char \<times> nat \<Rightarrow> matcher \<Rightarrow> matcher option" where
  "link_child at entry nodes =
     (case entry of (b, child) \<Rightarrow>
        case follow (length nodes) nodes (n_fail (nodes ! at)) b of
          None \<Rightarrow> None
        | Some fail \<Rightarrow>
            let nodes = (case next_of nodes fail b of
                           Some n \<Rightarrow> nodes[child := (nodes ! child)\<lparr>n_fail := n\<rparr>]
                         | None \<Rightarrow> nodes);
                f = n_fail (nodes ! child)
            in Some (nodes[child := (nodes ! child)
                 \<lparr>n_match := max (n_match (nodes ! child)) (n_match (nodes ! f))\<rparr>]))"

fun link_children :: "nat \<Rightarrow> (char \<times> nat) list \<Rightarrow> matcher \<Rightarrow> matcher option" where
  "link_children at [] nodes = Some nodes"
| "link_children at (e # es) nodes = Option.bind (link_child at e nodes) (link_children at es)"

fun link_all ::
  "((char \<times> nat) list \<Rightarrow> (char \<times> nat) list) \<Rightarrow> nat \<Rightarrow> nat list \<Rightarrow> matcher \<Rightarrow> matcher option" where
  "link_all ord fuel [] nodes = Some nodes"
| "link_all ord 0 (at # queue) nodes = None"
| "link_all ord (Suc fuel) (at # queue) nodes =
     (let entries = ord (n_next (nodes ! at)) in
      Option.bind (link_children at entries nodes)
        (link_all ord fuel (queue @ map snd entries)))"

definition NewMatcher ::
  "((char \<times> nat) list \<Rightarrow> (char \<times> nat) list) \<Rightarrow> string list \<Rightarrow> matcher option" where
  "NewMatcher ord patterns =
     (let nodes = build_trie patterns
      in link_all ord (length nodes) (map snd (ord (n_next (nodes ! 0)))) nodes)"

section \<open>The stream\<close>

record Stream =
  s_matcher :: matcher
  s_state :: nat
  s_pending :: string
  s_masked :: "bool list"
  s_masking :: bool

definition new_stream :: "matcher \<Rightarrow> Stream" where
  "new_stream m =
     \<lparr>s_matcher = m, s_state = 0, s_pending = [], s_masked = [], s_masking = False\<rparr>"

fun emit_loop :: "bool \<Rightarrow> (char \<times> bool) list \<Rightarrow> string \<times> bool" where
  "emit_loop masking [] = ([], masking)"
| "emit_loop masking ((b, m) # rest) =
     (let (out, final) = emit_loop m rest
      in (if m then (if masking then [] else ''***'') @ out else b # out, final))"

definition emit :: "nat \<Rightarrow> Stream \<Rightarrow> Stream \<times> string" where
  "emit n s =
     (let (out, masking) = emit_loop (s_masking s) (zip (take n (s_pending s)) (take n (s_masked s)))
      in (s\<lparr>s_pending := drop n (s_pending s), s_masked := drop n (s_masked s),
           s_masking := masking\<rparr>, out))"

definition append_byte :: "char \<Rightarrow> Stream \<Rightarrow> (Stream \<times> string) option" where
  "append_byte b s =
     (let nodes = s_matcher s; pending = s_pending s @ [b]; masked = s_masked s @ [False] in
      case follow (length nodes) nodes (s_state s) b of
        None \<Rightarrow> None
      | Some at \<Rightarrow>
          let state = (case next_of nodes at b of Some n \<Rightarrow> n | None \<Rightarrow> 0);
              len = n_match (nodes ! state);
              masked = (if len > 0
                        then take (length pending - len) masked @
                             replicate (length pending - (length pending - len)) True
                        else masked);
              n0 = length pending - n_depth (nodes ! state);
              n = n0 + length (takeWhile id (drop n0 masked))
          in Some (emit n (s\<lparr>s_state := state, s_pending := pending, s_masked := masked\<rparr>)))"

fun append_bytes :: "string \<Rightarrow> Stream \<Rightarrow> (Stream \<times> string) option" where
  "append_bytes [] s = Some (s, [])"
| "append_bytes (b # bs) s =
     Option.bind (append_byte b s) (\<lambda>(s1, out1).
       map_option (\<lambda>(s2, out2). (s2, out1 @ out2)) (append_bytes bs s1))"

definition Append :: "string \<Rightarrow> bool \<Rightarrow> Stream \<Rightarrow> (Stream \<times> string) option" where
  "Append p final s =
     Option.bind (append_bytes p s) (\<lambda>(s, out).
       if final
       then let (s, rest) = emit (length (s_pending s)) s in Some (s\<lparr>s_state := 0\<rparr>, out @ rest)
       else Some (s, out))"

definition Mask :: "matcher \<Rightarrow> string \<Rightarrow> string option" where
  "Mask m msg = map_option snd (Append msg True (new_stream m))"

section \<open>Longest suffixes in a prefix-closed set\<close>

text \<open>
  The specification side of the automaton: after reading a text it is in the state of the
  longest suffix of the text that is a prefix of some pattern.
\<close>

fun lsuf :: "string set \<Rightarrow> string \<Rightarrow> string" where
  "lsuf P [] = []"
| "lsuf P (c # w) = (if c # w \<in> P then c # w else lsuf P w)"

text \<open>The length of the longest pattern that is a suffix, 0 when there is none.\<close>

fun mlen :: "string set \<Rightarrow> string \<Rightarrow> nat" where
  "mlen Q [] = 0"
| "mlen Q (c # w) = (if c # w \<in> Q then length (c # w) else mlen Q w)"

lemma suffix_lsuf: "suffix (lsuf P w) w"
  by (induction w) (auto simp: suffix_Cons)

lemma length_lsuf: "length (lsuf P w) \<le> length w"
  using suffix_lsuf [of P w] by (rule suffix_length_le)

lemma lsuf_fixed: "w \<in> P \<Longrightarrow> lsuf P w = w"
  by (cases w) auto

lemma lsuf_longest: "suffix v w \<Longrightarrow> v \<in> P \<Longrightarrow> suffix v (lsuf P w)"
  by (induction w) (auto simp: suffix_Cons)

lemma lsuf_tl: "u \<notin> P \<Longrightarrow> lsuf P u = lsuf P (tl u)"
  by (cases u) auto

lemma mlen_le: "mlen Q w \<le> length w"
  by (induction w) auto

lemma mlen_suffix: "0 < mlen Q w \<Longrightarrow> drop (length w - mlen Q w) w \<in> Q"
proof (induction w)
  case (Cons c w)
  then show ?case using mlen_le [of Q w] by (auto simp: Suc_diff_le split: if_splits)
qed simp

lemma mlen_longest: "suffix v w \<Longrightarrow> v \<in> Q \<Longrightarrow> length v \<le> mlen Q w"
  by (induction w) (auto simp: suffix_Cons dest: suffix_length_le)

lemma mlen_mono: "suffix v w \<Longrightarrow> mlen Q v \<le> mlen Q w"
proof (induction w)
  case (Cons a w)
  then show ?case using mlen_le [of Q v] mlen_le [of Q w] by (auto simp: suffix_Cons)
qed simp

locale prefix_closed =
  fixes P :: "string set"
  assumes nil: "[] \<in> P"
    and closed: "u @ [b] \<in> P \<Longrightarrow> u \<in> P"
begin

lemma lsuf_in: "lsuf P w \<in> P"
  by (induction w) (auto simp: nil)

lemma lsuf_suffix_chain: "suffix v w \<Longrightarrow> suffix (lsuf P w) v \<Longrightarrow> lsuf P v = lsuf P w"
  by (meson lsuf_in lsuf_longest suffix_lsuf suffix_order.antisym suffix_order.trans)

text \<open>Only the longest suffix matters for what a further byte does.\<close>

lemma lsuf_snoc: "lsuf P (w @ [b]) = lsuf P (lsuf P w @ [b])"
proof (rule lsuf_suffix_chain [symmetric])
  show "suffix (lsuf P w @ [b]) (w @ [b])" using suffix_lsuf [of P w] by simp
  show "suffix (lsuf P (w @ [b])) (lsuf P w @ [b])"
  proof (cases "lsuf P (w @ [b])" rule: rev_cases)
    case (snoc v c)
    have "suffix (v @ [c]) (w @ [b])" using suffix_lsuf [of P "w @ [b]"] snoc by simp
    then have vw: "suffix v w" "c = b" by auto
    have "v \<in> P" using lsuf_in [of "w @ [b]"] closed [of v c] snoc by simp
    with vw snoc show ?thesis using lsuf_longest by simp
  qed simp
qed

lemma lsuf_snoc_in: "lsuf P w @ [b] \<in> P \<Longrightarrow> lsuf P (w @ [b]) = lsuf P w @ [b]"
  using lsuf_snoc [of w b] lsuf_fixed by simp

lemma lsuf_snoc_fail:
  assumes "u \<noteq> []" "u @ [b] \<notin> P"
  shows "lsuf P (u @ [b]) = lsuf P (lsuf P (tl u) @ [b])"
proof -
  have "lsuf P (u @ [b]) = lsuf P (tl u @ [b])" using assms lsuf_tl [of "u @ [b]"] by simp
  then show ?thesis using lsuf_snoc [of "tl u" b] by simp
qed

lemma mlen_lsuf: "Q \<subseteq> P \<Longrightarrow> mlen Q (lsuf P w) = mlen Q w"
  by (induction w) auto

lemma mlen_fail: "Q \<subseteq> P \<Longrightarrow> w \<noteq> [] \<Longrightarrow>
  mlen Q w = max (if w \<in> Q then length w else 0) (mlen Q (lsuf P (tl w)))"
  using mlen_lsuf [of Q "tl w"] mlen_le [of Q "tl w"] by (cases w) auto

end

definition prefixes_of :: "string list \<Rightarrow> string set" where
  "prefixes_of ps = insert [] {u. \<exists>p \<in> set ps. prefix u p}"

lemma prefixes_of_iff: "u \<in> prefixes_of ps \<longleftrightarrow> u = [] \<or> (\<exists>p \<in> set ps. prefix u p)"
  by (auto simp: prefixes_of_def)

interpretation pre: prefix_closed "prefixes_of ps" for ps
  by unfold_locales (auto simp: prefixes_of_iff dest: append_prefixD)

abbreviation patterns_of :: "string list \<Rightarrow> string set" where
  "patterns_of ps \<equiv> {p \<in> set ps. p \<noteq> []}"

lemma patterns_prefixes: "patterns_of ps \<subseteq> prefixes_of ps"
  by (auto simp: prefixes_of_iff)

section \<open>The trie\<close>

text \<open>
  \<open>trie P nodes paths\<close>: \<open>paths\<close> lists the string each node stands for, one node per
  element of \<open>P\<close>; edges, depths and nothing else are fixed by it.
\<close>

definition trie :: "string set \<Rightarrow> matcher \<Rightarrow> string list \<Rightarrow> bool" where
  "trie P nodes paths \<longleftrightarrow>
     prefix_closed P \<and> length paths = length nodes \<and> nodes \<noteq> [] \<and> paths ! 0 = [] \<and> distinct paths \<and> set paths = P \<and>
     (\<forall>i < length nodes. n_depth (nodes ! i) = length (paths ! i) \<and>
        distinct (map fst (n_next (nodes ! i))) \<and>
        (\<forall>b j. (b, j) \<in> set (n_next (nodes ! i)) \<longleftrightarrow> j < length nodes \<and> paths ! j = paths ! i @ [b]))"

lemma trie_next:
  assumes "trie P nodes paths" "i < length nodes"
  shows "next_of nodes i b = Some j \<longleftrightarrow> j < length nodes \<and> paths ! j = paths ! i @ [b]"
    "next_of nodes i b = None \<longleftrightarrow> paths ! i @ [b] \<notin> P"
proof -
  have d: "distinct (map fst (n_next (nodes ! i)))"
    and n: "\<And>b j. (b, j) \<in> set (n_next (nodes ! i)) \<longleftrightarrow> j < length nodes \<and> paths ! j = paths ! i @ [b]"
    using assms by (auto simp: trie_def)
  show some: "next_of nodes i b = Some j \<longleftrightarrow> j < length nodes \<and> paths ! j = paths ! i @ [b]" for j
    using n [of b j] d by (metis map_of_SomeD map_of_is_SomeI)
  have "paths ! i @ [b] \<in> P \<longleftrightarrow> (\<exists>j < length nodes. paths ! j = paths ! i @ [b])"
    using assms(1) by (auto simp: trie_def in_set_conv_nth)
  with some show "next_of nodes i b = None \<longleftrightarrow> paths ! i @ [b] \<notin> P"
    by (metis not_None_eq)
qed

lemma trie_basic:
  assumes "trie P nodes paths"
  shows "length paths = length nodes" "0 < length nodes" "paths ! 0 = []"
    "i < length nodes \<Longrightarrow> paths ! i \<in> P"
    "i < length nodes \<Longrightarrow> n_depth (nodes ! i) = length (paths ! i)"
    "i < length nodes \<Longrightarrow> j < length nodes \<Longrightarrow> paths ! i = paths ! j \<longleftrightarrow> i = j"
    "i < length nodes \<Longrightarrow> paths ! i = [] \<longleftrightarrow> i = 0"
proof -
  from assms show len: "length paths = length nodes" "0 < length nodes" "paths ! 0 = []"
    by (auto simp: trie_def)
  show "paths ! i \<in> P" if "i < length nodes" using assms that by (auto simp: trie_def)
  show "n_depth (nodes ! i) = length (paths ! i)" if "i < length nodes"
    using assms that by (simp add: trie_def)
  have d: "distinct paths" using assms by (simp add: trie_def)
  show eq: "paths ! i = paths ! j \<longleftrightarrow> i = j" if "i < length nodes" "j < length nodes" for i j
    using d that len(1) by (simp add: nth_eq_iff_index_eq)
  show "paths ! i = [] \<longleftrightarrow> i = 0" if "i < length nodes" using eq [OF that len(2)] len(3) by simp
qed

lemma trie_path:
  assumes "trie P nodes paths" "w \<in> P"
  obtains i where "i < length nodes" "paths ! i = w"
  using assms by (auto simp: trie_def in_set_conv_nth)

text \<open>Adding the node for \<open>w @ [b]\<close> below the node of \<open>w\<close>.\<close>

lemma prefix_closed_insert:
  assumes "prefix_closed P" "w \<in> P"
  shows "prefix_closed (insert (w @ [b]) P)"
  using assms by (auto simp: prefix_closed_def)

lemma trie_add:
  assumes t: "trie P nodes paths" and i: "i < length nodes" and new: "paths ! i @ [b] \<notin> P"
  defines "nodes' \<equiv> nodes @ [new_node (n_depth (nodes ! i) + 1)]"
  shows "trie (insert (paths ! i @ [b]) P)
    (nodes'[i := (nodes' ! i)\<lparr>n_next := n_next (nodes' ! i) @ [(b, length nodes)]\<rparr>])
    (paths @ [paths ! i @ [b]])"
proof -
  note tb = trie_basic [OF t]
  let ?w = "paths ! i @ [b]" and ?n = "length nodes"
  let ?nodes = "nodes'[i := (nodes' ! i)\<lparr>n_next := n_next (nodes' ! i) @ [(b, length nodes)]\<rparr>]"
  let ?paths = "paths @ [?w]"
  have pc: "prefix_closed P" and sp: "set paths = P" "distinct paths" using t by (auto simp: trie_def)
  have key: "paths ! k @ [c] = ?w \<longleftrightarrow> k = i \<and> c = b" if "k < ?n" for k c
    using that tb(6) [OF that i] by auto
  have leaf: "?paths ! j \<noteq> ?w @ [c]" if "j < Suc ?n" for j c
  proof
    assume "?paths ! j = ?w @ [c]"
    then have "?w @ [c] \<in> P" using that tb(1) tb(4) [of j]
      by (cases "j = ?n") (auto simp: nth_append)
    then show False using prefix_closed.closed [OF pc, of ?w c] new by simp
  qed
  have old: "(c, j) \<in> set (n_next (nodes ! k)) \<longleftrightarrow> j < ?n \<and> paths ! j = paths ! k @ [c]"
    if "k < ?n" for k c j
    using t that by (simp add: trie_def)
  have d: "distinct (map fst (n_next (nodes ! k)))" if "k < ?n" for k
    using t that by (simp add: trie_def)
  have fresh: "b \<notin> fst ` set (n_next (nodes ! i))"
    using old [OF i] new sp(1) tb(1) by (force simp: in_set_conv_nth)
  have node: "n_depth (?nodes ! k) = length (?paths ! k) \<and>
      distinct (map fst (n_next (?nodes ! k))) \<and>
      (\<forall>c j. (c, j) \<in> set (n_next (?nodes ! k)) \<longleftrightarrow> j < Suc ?n \<and> ?paths ! j = ?paths ! k @ [c])"
    if k: "k < Suc ?n" for k
  proof -
    consider "k = ?n" | "k = i" | "k < ?n" "k \<noteq> i" using k by (metis less_Suc_eq)
    then show ?thesis
    proof cases
      case 1
      then show ?thesis using i tb leaf by (simp add: nodes'_def new_node_def nth_append)
    next
      case 2
      then show ?thesis
        using i tb(1) tb(5) [OF i] old [OF i] d [OF i] fresh key [OF i]
        by (auto simp: nodes'_def nth_append less_Suc_eq)
    next
      case 3
      then show ?thesis
        using tb(1) tb(5) [OF 3(1)] old [OF 3(1)] d [OF 3(1)] tb(6) [OF i 3(1)]
        by (auto simp: nodes'_def nth_append less_Suc_eq)
    qed
  qed
  have "distinct ?paths" using sp new by simp
  moreover have "?paths ! 0 = []" using tb(1-3) by (simp add: nth_append)
  ultimately show ?thesis
    unfolding trie_def using node prefix_closed_insert [OF pc tb(4) [OF i]] sp tb(1)
    by (simp add: nodes'_def)
qed

text \<open>Before the failure links are set, a node knows only the pattern that ends at it.\<close>

definition unlinked :: "string set \<Rightarrow> matcher \<Rightarrow> string list \<Rightarrow> bool" where
  "unlinked Q nodes paths \<longleftrightarrow>
     (\<forall>k < length nodes. n_fail (nodes ! k) = 0 \<and>
        n_match (nodes ! k) = (if paths ! k \<in> Q then length (paths ! k) else 0))"

lemma insert_bytes_trie:
  assumes "trie P nodes paths" "unlinked Q nodes paths" "Q \<subseteq> P" "i < length nodes"
    and "insert_bytes nodes i bs = (nodes', at)"
  shows "\<exists>paths'. trie (P \<union> {paths ! i @ u |u. prefix u bs}) nodes' paths' \<and>
    unlinked Q nodes' paths' \<and> at < length nodes' \<and> paths' ! at = paths ! i @ bs"
  using assms
proof (induction nodes i bs arbitrary: P paths nodes' at rule: insert_bytes.induct)
  case (1 nodes i)
  then have "P \<union> {paths ! i @ u |u. prefix u []} = P" using trie_basic(4) [OF 1(1)] by auto
  with 1 show ?case by auto
next
  case (2 nodes i b bs)
  note tn = trie_next [OF 2(3) 2(6)]
  let ?w = "paths ! i @ [b]"
  have split: "{paths ! i @ u |u. prefix u (b # bs)} =
      insert (paths ! i) {?w @ u |u. prefix u bs}"
    by (auto simp: prefix_Cons)
  have iP: "paths ! i \<in> P" using trie_basic(4) [OF 2(3) 2(6)] .
  show ?case
  proof (cases "next_of nodes i b")
    case (Some n)
    then have n: "n < length nodes" "paths ! n = ?w" using tn by auto
    from Some 2 n have "\<exists>paths'. trie (P \<union> {?w @ u |u. prefix u bs}) nodes' paths' \<and>
        unlinked Q nodes' paths' \<and> at < length nodes' \<and> paths' ! at = ?w @ bs"
      using "2.IH"(2) [OF Some 2(3,4,5) n(1)] by auto
    with iP show ?thesis unfolding split by (simp add: insert_absorb)
  next
    case None
    then have new: "?w \<notin> P" using tn by simp
    define nodes1 where "nodes1 = nodes @ [new_node (n_depth (nodes ! i) + 1)]"
    define nodes2 where
      "nodes2 = nodes1[i := (nodes1 ! i)\<lparr>n_next := n_next (nodes1 ! i) @ [(b, length nodes)]\<rparr>]"
    let ?P = "insert ?w P" and ?paths = "paths @ [?w]"
    have t: "trie ?P nodes2 ?paths"
      using trie_add [OF 2(3) 2(6) new] by (simp add: nodes1_def nodes2_def)
    have "unlinked Q nodes2 ?paths"
      using 2(4,5,6) new trie_basic(1) [OF 2(3)]
      by (auto simp: unlinked_def nodes1_def nodes2_def new_node_def nth_append nth_list_update
          less_Suc_eq)
    moreover have "length nodes < length nodes2" by (simp add: nodes1_def nodes2_def)
    moreover have "?paths ! length nodes = ?w" using trie_basic(1) [OF 2(3)] by (simp add: nth_append)
    moreover have "insert_bytes nodes2 (length nodes) bs = (nodes', at)"
      using 2(7) None by (simp add: nodes1_def nodes2_def Let_def)
    ultimately have "\<exists>paths'. trie (?P \<union> {?w @ u |u. prefix u bs}) nodes' paths' \<and>
        unlinked Q nodes' paths' \<and> at < length nodes' \<and> paths' ! at = ?w @ bs"
      using "2.IH"(1) [OF None refl nodes1_def nodes2_def, of ?P ?paths nodes' at] t 2(5) by auto
    moreover have "?P \<union> {?w @ u |u. prefix u bs} = P \<union> {paths ! i @ u |u. prefix u (b # bs)}"
      unfolding split using iP by auto
    ultimately show ?thesis by simp
  qed
qed

lemma insert_pattern_trie:
  assumes t: "trie P nodes paths" and u: "unlinked Q nodes paths" and Q: "Q \<subseteq> P" "[] \<notin> Q"
    and p: "p \<noteq> []"
  shows "\<exists>paths'. trie (P \<union> {u. prefix u p}) (insert_pattern p nodes) paths' \<and>
    unlinked (insert p Q) (insert_pattern p nodes) paths'"
proof -
  obtain nodes' at where ins: "insert_bytes nodes 0 p = (nodes', at)" by fastforce
  note tb = trie_basic [OF t]
  from insert_bytes_trie [OF t u Q(1) tb(2) ins] obtain paths' where
    t': "trie (P \<union> {u. prefix u p}) nodes' paths'" and u': "unlinked Q nodes' paths'"
    and at: "at < length nodes'" "paths' ! at = p"
    using tb(3) by auto
  let ?new = "nodes'[at := (nodes' ! at)\<lparr>n_match := max (n_match (nodes' ! at)) (length p)\<rparr>]"
  have new: "insert_pattern p nodes = ?new" using p ins by (simp add: insert_pattern_def)
  have same: "n_next (?new ! k) = n_next (nodes' ! k)" "n_depth (?new ! k) = n_depth (nodes' ! k)"
    "n_fail (?new ! k) = n_fail (nodes' ! k)" for k
    using at by (auto simp: nth_list_update)
  have "trie (P \<union> {u. prefix u p}) ?new paths'"
    using t' by (simp add: trie_def same)
  moreover have "unlinked (insert p Q) ?new paths'"
  proof -
    have m: "max (n_match (nodes' ! at)) (length p) = length p"
      using u' at by (auto simp: unlinked_def)
    have "n_match (?new ! k) = (if paths' ! k \<in> insert p Q then length (paths' ! k) else 0)"
      if "k < length nodes'" for k
    proof (cases "k = at")
      case True
      then show ?thesis using at m by simp
    next
      case False
      then have "paths' ! k \<noteq> p" using trie_basic(6) [OF t' that at(1)] at(2) by simp
      then show ?thesis using u' that False by (simp add: unlinked_def)
    qed
    then show ?thesis using u' by (simp add: unlinked_def same)
  qed
  ultimately show ?thesis unfolding new by blast
qed

lemma build_trie_correct:
  "\<exists>paths. trie (prefixes_of ps) (build_trie ps) paths \<and> unlinked (patterns_of ps) (build_trie ps) paths"
proof (induction ps rule: rev_induct)
  case Nil
  have "trie {[]} [new_node 0] [[]]" "unlinked {} [new_node 0] [[]]"
    by (auto simp: trie_def prefix_closed_def new_node_def unlinked_def)
  then show ?case by (auto simp: build_trie_def prefixes_of_def)
next
  case (snoc p ps)
  then obtain paths where t: "trie (prefixes_of ps) (build_trie ps) paths"
    "unlinked (patterns_of ps) (build_trie ps) paths" by blast
  have step: "build_trie (ps @ [p]) = insert_pattern p (build_trie ps)"
    by (simp add: build_trie_def)
  have P: "prefixes_of (ps @ [p]) = prefixes_of ps \<union> {u. prefix u p}"
    by (auto simp: prefixes_of_def)
  show ?case
  proof (cases "p = []")
    case True
    then have "prefixes_of ps \<union> {u. prefix u p} = prefixes_of ps"
      "patterns_of (ps @ [p]) = patterns_of ps" by (auto simp: prefixes_of_def)
    with True t show ?thesis unfolding step P by (auto simp: insert_pattern_def)
  next
    case False
    have "patterns_of (ps @ [p]) = insert p (patterns_of ps)" using False by auto
    then show ?thesis
      using insert_pattern_trie [OF t patterns_prefixes _ False] unfolding step P by auto
  qed
qed

section \<open>Failure links\<close>

definition fail_ok :: "string set \<Rightarrow> matcher \<Rightarrow> string list \<Rightarrow> nat \<Rightarrow> bool" where
  "fail_ok P nodes paths i \<longleftrightarrow>
     n_fail (nodes ! i) < length nodes \<and> paths ! n_fail (nodes ! i) = lsuf P (tl (paths ! i))"

definition linked :: "string set \<Rightarrow> string set \<Rightarrow> matcher \<Rightarrow> string list \<Rightarrow> nat \<Rightarrow> bool" where
  "linked P Q nodes paths i \<longleftrightarrow>
     fail_ok P nodes paths i \<and> n_match (nodes ! i) = mlen Q (paths ! i)"

text \<open>A node that may not have been reached yet still has what the trie gave it.\<close>

definition maybe_linked :: "string set \<Rightarrow> string set \<Rightarrow> matcher \<Rightarrow> string list \<Rightarrow> nat \<Rightarrow> bool" where
  "maybe_linked P Q nodes paths i \<longleftrightarrow>
     (n_fail (nodes ! i) = 0 \<or> fail_ok P nodes paths i) \<and>
     n_match (nodes ! i) \<in> {if paths ! i \<in> Q then length (paths ! i) else 0, mlen Q (paths ! i)}"

lemma trie_depth_less:
  assumes t: "trie P nodes paths" and w: "w \<in> P"
  shows "length w < length nodes"
proof -
  have "prefix_closed P" and sp: "set paths = P" "distinct paths" using t by (auto simp: trie_def)
  then have closed: "\<And>u b. u @ [b] \<in> P \<Longrightarrow> u \<in> P" by (auto simp: prefix_closed_def)
  have "take k w \<in> P" for k
  proof (induction "length w - k" arbitrary: k)
    case (Suc n)
    then have "take (Suc k) w \<in> P" "k < length w" by auto
    then show ?case using closed [of "take k w" "w ! k"] by (simp add: take_Suc_conv_app_nth)
  qed (use w in simp)
  then have "(\<lambda>k. take k w) ` {..length w} \<subseteq> set paths" using sp by auto
  moreover have "inj_on (\<lambda>k. take k w) {..length w}"
    by (rule inj_onI) (metis atMost_iff length_take min.absorb2)
  ultimately have "card {..length w} \<le> card (set paths)"
    by (metis card_image card_mono finite_set)
  then show ?thesis using sp(2) trie_basic(1) [OF t] by (simp add: distinct_card)
qed

lemma follow_correct:
  assumes t: "trie P nodes paths"
    and ok: "\<forall>k < length nodes. length (paths ! k) \<le> d \<longrightarrow> fail_ok P nodes paths k"
    and "at < length nodes" "length (paths ! at) \<le> d" "length (paths ! at) \<le> fuel"
  shows "\<exists>r. follow fuel nodes at b = Some r \<and> r < length nodes \<and>
    (case next_of nodes r b of
       Some n \<Rightarrow> n < length nodes \<and> paths ! n = lsuf P (paths ! at @ [b])
     | None \<Rightarrow> lsuf P (paths ! at @ [b]) = [])"
  using assms(3-)
proof (induction "length (paths ! at)" arbitrary: at fuel rule: less_induct)
  case less
  have pc: "prefix_closed P" using t by (simp add: trie_def)
  note tn = trie_next [OF t less(2), of b]
  show ?case
  proof (cases "at = 0 \<or> next_of nodes at b \<noteq> None")
    case True
    then have f: "follow fuel nodes at b = Some at" by (subst follow.simps) simp
    show ?thesis
    proof (cases "next_of nodes at b")
      case None
      with True have "paths ! at = []" using trie_basic(3) [OF t] by simp
      then have "lsuf P (paths ! at @ [b]) = []" using tn None by simp
      with f None less(2) show ?thesis by simp
    next
      case (Some n)
      then have n: "n < length nodes" "paths ! n = paths ! at @ [b]" using tn by auto
      then have "lsuf P (paths ! at @ [b]) = paths ! at @ [b]"
        using trie_basic(4) [OF t n(1)] by (simp add: lsuf_fixed)
      with f Some less(2) n show ?thesis by simp
    qed
  next
    case False
    let ?f = "n_fail (nodes ! at)"
    have ne: "paths ! at \<noteq> []" using False trie_basic(7) [OF t less(2)] by simp
    have f: "?f < length nodes" "paths ! ?f = lsuf P (tl (paths ! at))"
      using ok less by (auto simp: fail_ok_def)
    have shorter: "length (paths ! ?f) < length (paths ! at)"
      using f(2) length_lsuf [of P "tl (paths ! at)"] ne by (cases "paths ! at") auto
    obtain fuel' where fuel: "fuel = Suc fuel'" using shorter less(4) by (cases fuel) auto
    have "lsuf P (paths ! at @ [b]) = lsuf P (paths ! ?f @ [b])"
      using prefix_closed.lsuf_snoc_fail [OF pc ne] False tn f(2) by auto
    moreover have "follow fuel nodes at b = follow fuel' nodes ?f b"
      using False fuel by (subst follow.simps) auto
    moreover have "\<exists>r. follow fuel' nodes ?f b = Some r \<and> r < length nodes \<and>
        (case next_of nodes r b of
           Some n \<Rightarrow> n < length nodes \<and> paths ! n = lsuf P (paths ! ?f @ [b])
         | None \<Rightarrow> lsuf P (paths ! ?f @ [b]) = [])"
      by (rule less.hyps [OF shorter f(1)]) (use shorter less(3,4) fuel in auto)
    ultimately show ?thesis by (simp only:)
  qed
qed

text \<open>One entry of the breadth-first loop.\<close>

lemma link_child_correct:
  assumes t: "trie P nodes paths" and Q: "Q \<subseteq> P"
    and weak: "\<forall>k < length nodes. maybe_linked P Q nodes paths k"
    and upto: "\<forall>k < length nodes. length (paths ! k) \<le> length (paths ! at) \<longrightarrow> linked P Q nodes paths k"
    and at: "at < length nodes" "at \<noteq> 0" and child: "(b, child) \<in> set (n_next (nodes ! at))"
  shows "\<exists>nd. link_child at (b, child) nodes = Some (nodes[child := nd]) \<and>
    n_next nd = n_next (nodes ! child) \<and> n_depth nd = n_depth (nodes ! child) \<and>
    linked P Q (nodes[child := nd]) paths child"
proof -
  have pc: "prefix_closed P" using t by (simp add: trie_def)
  note tb = trie_basic [OF t]
  let ?w = "paths ! at" and ?f0 = "n_fail (nodes ! at)"
  have c: "child < length nodes" "paths ! child = ?w @ [b]"
    using child t at by (auto simp: trie_def)
  have w: "?w \<noteq> []" using tb(7) [OF at(1)] at(2) by simp
  have f0: "?f0 < length nodes" "paths ! ?f0 = lsuf P (tl ?w)"
    using upto at by (auto simp: linked_def fail_ok_def)
  have "length (paths ! ?f0) \<le> length ?w" using f0(2) length_lsuf [of P "tl ?w"] by simp
  moreover have "length (paths ! ?f0) \<le> length nodes"
    using trie_depth_less [OF t tb(4) [OF f0(1)]] by simp
  ultimately obtain r where r: "follow (length nodes) nodes ?f0 b = Some r" "r < length nodes"
    and rn: "case next_of nodes r b of
       Some n \<Rightarrow> n < length nodes \<and> paths ! n = lsuf P (paths ! ?f0 @ [b])
     | None \<Rightarrow> lsuf P (paths ! ?f0 @ [b]) = []"
    using follow_correct [OF t, of "length ?w" ?f0 "length nodes" b] upto f0(1)
    by (auto simp: linked_def)
  have target: "lsuf P (paths ! ?f0 @ [b]) = lsuf P (tl (paths ! child))"
    using f0(2) c(2) w prefix_closed.lsuf_snoc [OF pc, of "tl ?w" b] by simp
  define f where "f = (case next_of nodes r b of Some n \<Rightarrow> n | None \<Rightarrow> n_fail (nodes ! child))"
  have f: "f < length nodes" "paths ! f = lsuf P (tl (paths ! child))"
    using rn target weak c tb(2,3,6)
    by (auto simp: f_def maybe_linked_def fail_ok_def split: option.splits)
  have lf: "length (paths ! f) \<le> length ?w"
    using f(2) c(2) length_lsuf [of P "tl (paths ! child)"] by simp
  then have "f \<noteq> child" using c(2) by auto
  define nd where "nd = (nodes ! child)\<lparr>n_fail := f,
    n_match := max (n_match (nodes ! child)) (n_match (nodes ! f))\<rparr>"
  have "link_child at (b, child) nodes = Some (nodes[child := nd])"
    using r \<open>f \<noteq> child\<close> c(1)
    by (cases "next_of nodes r b") (auto simp: link_child_def Let_def nd_def f_def)
  moreover have "max (n_match (nodes ! child)) (n_match (nodes ! f)) = mlen Q (paths ! child)"
  proof -
    have "n_match (nodes ! f) = mlen Q (lsuf P (tl (paths ! child)))"
      using upto lf f by (auto simp: linked_def)
    moreover have "paths ! child \<noteq> []" using c(2) by simp
    ultimately show ?thesis
      using prefix_closed.mlen_fail [OF pc Q, of "paths ! child"] weak c(1)
      by (auto simp: maybe_linked_def split: if_splits)
  qed
  ultimately show ?thesis
    using f c(1) by (intro exI [of _ nd]) (simp add: nd_def linked_def fail_ok_def)
qed

lemma trie_update:
  assumes "trie P nodes paths" "n_next nd = n_next (nodes ! c)" "n_depth nd = n_depth (nodes ! c)"
  shows "trie P (nodes[c := nd]) paths"
proof -
  have "n_next (nodes[c := nd] ! k) = n_next (nodes ! k) \<and>
    n_depth (nodes[c := nd] ! k) = n_depth (nodes ! k)" if "k < length nodes" for k
    using that assms(2,3) by (cases "k = c") simp_all
  with assms(1) show ?thesis by (simp add: trie_def)
qed

lemma linked_update:
  assumes "linked P Q (nodes[c := nd]) paths c"
  shows "linked P Q nodes paths k \<Longrightarrow> linked P Q (nodes[c := nd]) paths k"
    "maybe_linked P Q nodes paths k \<Longrightarrow> maybe_linked P Q (nodes[c := nd]) paths k"
  using assms
  by (cases "k = c"; auto simp: linked_def maybe_linked_def fail_ok_def)+

lemma link_children_correct:
  assumes "trie P nodes paths" "Q \<subseteq> P"
    and "\<forall>k < length nodes. maybe_linked P Q nodes paths k"
    and "\<forall>k < length nodes. length (paths ! k) \<le> length (paths ! at) \<longrightarrow> linked P Q nodes paths k"
    and "at < length nodes" "at \<noteq> 0" "set es \<subseteq> set (n_next (nodes ! at))"
  shows "\<exists>nodes'. link_children at es nodes = Some nodes' \<and> trie P nodes' paths \<and>
    map n_next nodes' = map n_next nodes \<and>
    (\<forall>k < length nodes. maybe_linked P Q nodes' paths k) \<and>
    (\<forall>k. linked P Q nodes paths k \<longrightarrow> linked P Q nodes' paths k) \<and>
    (\<forall>c \<in> snd ` set es. linked P Q nodes' paths c)"
  using assms
proof (induction es arbitrary: nodes)
  case (Cons e es)
  obtain b c where e: "e = (b, c)" by fastforce
  with Cons.prems obtain nd where step: "link_child at e nodes = Some (nodes[c := nd])"
    and nd: "n_next nd = n_next (nodes ! c)" "n_depth nd = n_depth (nodes ! c)"
    and lc: "linked P Q (nodes[c := nd]) paths c"
    using link_child_correct [of P nodes paths Q at b c] by auto
  have t: "trie P (nodes[c := nd]) paths" using trie_update [OF Cons.prems(1) nd] .
  have nx: "map n_next (nodes[c := nd]) = map n_next nodes"
    using nd(1) list_update_id [of "map n_next nodes" c]
    by (cases "c < length nodes") (simp_all add: map_update list_update_beyond)
  then have "n_next (nodes[c := nd] ! at) = n_next (nodes ! at)"
    using Cons.prems(5) by (metis length_list_update nth_map)
  then obtain nodes' where n': "link_children at es (nodes[c := nd]) = Some nodes'"
      "trie P nodes' paths" "map n_next nodes' = map n_next (nodes[c := nd])"
      "\<forall>k < length nodes. maybe_linked P Q nodes' paths k"
      "\<forall>k. linked P Q (nodes[c := nd]) paths k \<longrightarrow> linked P Q nodes' paths k"
      "\<forall>c \<in> snd ` set es. linked P Q nodes' paths c"
    using Cons.IH [of "nodes[c := nd]"] Cons.prems t linked_update [OF lc] by auto
  with step nx e lc linked_update(1) [OF lc] show ?case by auto
qed auto

text \<open>
  The breadth-first loop. \<open>seen\<close> lists the nodes taken from the queue so far: no node is
  taken twice, and the queue reaches every node that has not been taken, shallowest first.
\<close>

definition bfs_inv ::
  "string set \<Rightarrow> string set \<Rightarrow> string list \<Rightarrow> nat list \<Rightarrow> nat list \<Rightarrow> matcher \<Rightarrow> bool" where
  "bfs_inv P Q paths seen queue nodes \<longleftrightarrow>
     trie P nodes paths \<and>
     (\<forall>k < length nodes. maybe_linked P Q nodes paths k) \<and>
     (\<forall>k \<in> insert 0 (set (seen @ queue)). linked P Q nodes paths k) \<and>
     distinct (seen @ queue) \<and> set (seen @ queue) \<subseteq> {1..<length nodes} \<and>
     sorted (map (\<lambda>k. length (paths ! k)) queue) \<and>
     (\<forall>q \<in> set queue. length (paths ! q) \<le> Suc (length (paths ! hd queue))) \<and>
     (\<forall>k \<in> {1..<length nodes}. k \<in> set seen \<or> (\<exists>q \<in> set queue. prefix (paths ! q) (paths ! k))) \<and>
     (\<forall>k \<in> set (seen @ queue). length (paths ! k) = 1 \<or>
        (\<exists>j \<in> set seen. \<exists>b. paths ! k = paths ! j @ [b]))"

lemma bfs_upto:
  assumes inv: "bfs_inv P Q paths seen (at # queue) nodes"
    and k: "k < length nodes" "length (paths ! k) \<le> length (paths ! at)"
  shows "linked P Q nodes paths k"
proof (cases "k \<in> insert 0 (set (seen @ at # queue))")
  case False
  have "\<forall>k \<in> {1..<length nodes}. k \<in> set seen \<or>
      (\<exists>q \<in> set (at # queue). prefix (paths ! q) (paths ! k))"
    using inv by (simp add: bfs_inv_def)
  moreover have "k \<in> {1..<length nodes}" "k \<notin> set seen" using False k(1) by auto
  ultimately obtain q where q: "q \<in> set (at # queue)" "prefix (paths ! q) (paths ! k)" by blast
  have "length (paths ! at) \<le> length (paths ! q)" using inv q(1) by (auto simp: bfs_inv_def)
  moreover obtain v where v: "paths ! k = paths ! q @ v" using q(2) by (auto simp: prefix_def)
  ultimately have "length v = 0"
    using k(2) arg_cong [OF v, of length] unfolding length_append by linarith
  then have "paths ! q = paths ! k" using v by simp
  then have "q = k"
    using inv q(1) k(1) trie_basic(6) [of P nodes paths q k] by (auto simp: bfs_inv_def)
  with q(1) False show ?thesis by simp
qed (use inv in \<open>auto simp: bfs_inv_def\<close>)

lemma trie_prefix:
  assumes "trie P nodes paths" "u @ v \<in> P"
  shows "u \<in> P"
  using assms(2)
proof (induction v rule: rev_induct)
  case (snoc b v)
  then show ?case
    using assms(1) prefix_closed.closed [of P "u @ v" b] by (simp add: trie_def)
qed simp

text \<open>The children of a node are as many nodes as it has entries, all one step deeper.\<close>

lemma trie_children:
  assumes t: "trie P nodes paths" and at: "at < length nodes"
    and perm: "mset es = mset (n_next (nodes ! at))"
  shows "c \<in> snd ` set es \<longleftrightarrow> c < length nodes \<and> (\<exists>b. paths ! c = paths ! at @ [b])"
    "distinct (map snd es)"
proof -
  have set_es: "set es = set (n_next (nodes ! at))" using perm by (metis set_mset_mset)
  have edge: "(b, j) \<in> set (n_next (nodes ! at)) \<longleftrightarrow> j < length nodes \<and> paths ! j = paths ! at @ [b]"
    for b j using t at by (simp add: trie_def)
  show "c \<in> snd ` set es \<longleftrightarrow> c < length nodes \<and> (\<exists>b. paths ! c = paths ! at @ [b])"
    unfolding set_es using edge by force
  have "distinct (map fst (n_next (nodes ! at)))" using t at by (simp add: trie_def)
  then have "distinct es" using perm by (metis distinct_map mset_eq_imp_distinct_iff)
  moreover have "inj_on snd (set es)"
    unfolding set_es by (rule inj_onI) (auto simp: edge)
  ultimately show "distinct (map snd es)" by (simp add: distinct_map)
qed

lemma bfs_step:
  assumes inv: "bfs_inv P Q paths seen (at # queue) nodes" and Q: "Q \<subseteq> P"
    and perm: "mset es = mset (n_next (nodes ! at))"
  shows "\<exists>nodes'. link_children at es nodes = Some nodes' \<and> length nodes' = length nodes \<and>
    bfs_inv P Q paths (seen @ [at]) (queue @ map snd es) nodes'"
proof -
  have t: "trie P nodes paths"
    and weak: "\<forall>k < length nodes. maybe_linked P Q nodes paths k"
    and lk: "\<forall>k \<in> insert 0 (set (seen @ at # queue)). linked P Q nodes paths k"
    and dist: "distinct (seen @ at # queue)" and sub: "set (seen @ at # queue) \<subseteq> {1..<length nodes}"
    and srt: "sorted (map (\<lambda>k. length (paths ! k)) (at # queue))"
    and lev: "\<forall>q \<in> set (at # queue). length (paths ! q) \<le> Suc (length (paths ! at))"
    and reach: "\<forall>k \<in> {1..<length nodes}. k \<in> set seen \<or>
        (\<exists>q \<in> set (at # queue). prefix (paths ! q) (paths ! k))"
    and par: "\<forall>k \<in> set (seen @ at # queue). length (paths ! k) = 1 \<or>
        (\<exists>j \<in> set seen. \<exists>b. paths ! k = paths ! j @ [b])"
    using inv by (simp_all add: bfs_inv_def)
  have at: "at < length nodes" "at \<noteq> 0" using sub by auto
  note ch = trie_children [OF t at(1) perm]
  have set_es: "set es = set (n_next (nodes ! at))" using perm by (metis set_mset_mset)
  have upto: "\<forall>k < length nodes. length (paths ! k) \<le> length (paths ! at) \<longrightarrow> linked P Q nodes paths k"
    using bfs_upto [OF inv] by blast
  obtain nodes' where n': "link_children at es nodes = Some nodes'" "trie P nodes' paths"
      "map n_next nodes' = map n_next nodes" "\<forall>k < length nodes. maybe_linked P Q nodes' paths k"
      "\<forall>k. linked P Q nodes paths k \<longrightarrow> linked P Q nodes' paths k"
      "\<forall>c \<in> snd ` set es. linked P Q nodes' paths c"
    using link_children_correct [OF t Q weak upto at, of es] set_es by auto
  have len: "length nodes' = length nodes" using n'(3) by (metis length_map)
  have cl: "length (paths ! c) = Suc (length (paths ! at))" if "c \<in> snd ` set es" for c
    using ch(1) [of c] that by auto
  have new: "c \<notin> set (seen @ at # queue)" if c: "c \<in> snd ` set es" for c
  proof
    assume "c \<in> set (seen @ at # queue)"
    then have "length (paths ! c) = 1 \<or> (\<exists>j \<in> set seen. \<exists>b. paths ! c = paths ! j @ [b])"
      using par by blast
    then obtain j where "j \<in> set seen" "paths ! j = paths ! at"
      using ch(1) [of c] c cl [OF c] trie_basic(7) [OF t at(1)] at(2) by auto
    then have "at \<in> set seen" using trie_basic(6) [OF t _ at(1), of j] sub by auto
    then show False using dist by simp
  qed
  have "distinct (seen @ [at] @ queue @ map snd es)" using dist ch(2) new by auto
  moreover have "set (seen @ [at] @ queue @ map snd es) \<subseteq> {1..<length nodes'}"
  proof -
    have "c \<in> {1..<length nodes}" if "c \<in> snd ` set es" for c
      using ch(1) [of c] that trie_basic(3) [OF t] by (cases c) auto
    then have "snd ` set es \<subseteq> {1..<length nodes}" by blast
    then show ?thesis using sub unfolding len by simp
  qed
  moreover have "sorted (map (\<lambda>k. length (paths ! k)) (queue @ map snd es))"
  proof -
    have "sorted (map (\<lambda>k. length (paths ! k)) (map snd es))"
      by (rule sorted_map_const [of _ _ "Suc (length (paths ! at))"]) (use cl in auto)
    then show ?thesis using srt lev cl unfolding map_append sorted_append by auto
  qed
  moreover have "length (paths ! q) \<le> Suc (length (paths ! hd (queue @ map snd es)))"
    if "q \<in> set (queue @ map snd es)" for q
  proof -
    have "length (paths ! q) \<le> Suc (length (paths ! at))"
      using that lev cl [of q] by (cases "q \<in> set queue") simp_all
    moreover have "hd (queue @ map snd es) \<in> set (queue @ map snd es)"
      using that by (intro hd_in_set) auto
    moreover have "length (paths ! at) \<le> length (paths ! h)" if "h \<in> set (queue @ map snd es)" for h
      using that srt cl [of h] by (cases "h \<in> set queue") simp_all
    ultimately show ?thesis by (meson Suc_le_mono order_trans)
  qed
  moreover have "k \<in> set (seen @ [at]) \<or>
      (\<exists>q \<in> set (queue @ map snd es). prefix (paths ! q) (paths ! k))"
    if k: "k \<in> {1..<length nodes'}" for k
  proof (cases "prefix (paths ! at) (paths ! k)")
    case False
    then show ?thesis using reach k len by auto
  next
    case True
    then obtain v where v: "paths ! k = paths ! at @ v" by (auto simp: prefix_def)
    show ?thesis
    proof (cases v)
      case Nil
      then have "k = at" using v trie_basic(6) [OF t _ at(1), of k] k len by auto
      then show ?thesis by simp
    next
      case (Cons b v')
      then have "paths ! at @ [b] \<in> P"
        using v trie_basic(4) [OF t, of k] k len trie_prefix [OF t, of "paths ! at @ [b]" v'] by auto
      then obtain c where "c < length nodes" "paths ! c = paths ! at @ [b]"
        by (rule trie_path [OF t])
      then have "c \<in> snd ` set es" "prefix (paths ! c) (paths ! k)"
        using ch(1) [of c] v Cons by auto
      then show ?thesis by auto
    qed
  qed
  moreover have "length (paths ! k) = 1 \<or> (\<exists>j \<in> set (seen @ [at]). \<exists>b. paths ! k = paths ! j @ [b])"
    if "k \<in> set (seen @ [at] @ queue @ map snd es)" for k
  proof (cases "k \<in> snd ` set es")
    case True
    then show ?thesis using ch(1) [of k] by auto
  next
    case False
    then have "k \<in> set (seen @ at # queue)" using that by auto
    then show ?thesis using par by fastforce
  qed
  moreover have "linked P Q nodes' paths k" if "k \<in> insert 0 (set (seen @ [at] @ queue @ map snd es))" for k
    using that lk n'(5,6) by auto
  ultimately have "bfs_inv P Q paths (seen @ [at]) (queue @ map snd es) nodes'"
    unfolding bfs_inv_def using n'(2,4) len by simp
  with n'(1) len show ?thesis by blast
qed

lemma link_all_correct:
  assumes "bfs_inv P Q paths seen queue nodes" "Q \<subseteq> P"
    and "length nodes \<le> fuel + length seen"
    and "\<forall>xs. mset (ord xs) = mset xs"
  shows "\<exists>nodes'. link_all ord fuel queue nodes = Some nodes' \<and> trie P nodes' paths \<and>
    (\<forall>k < length nodes'. linked P Q nodes' paths k)"
  using assms
proof (induction ord fuel queue nodes arbitrary: seen rule: link_all.induct)
  case (1 ord fuel nodes)
  have "linked P Q nodes paths k" if "k < length nodes" for k
  proof (cases "k = 0")
    case False
    with that 1(1) have "k \<in> set seen" by (auto simp: bfs_inv_def)
    then show ?thesis using 1(1) by (simp add: bfs_inv_def)
  qed (use 1(1) in \<open>simp add: bfs_inv_def\<close>)
  then show ?case using 1(1) by (auto simp: bfs_inv_def)
next
  case (2 ord at queue nodes)
  have "card (set (seen @ at # queue)) \<le> card {1..<length nodes}"
    using 2(1) by (intro card_mono) (simp_all add: bfs_inv_def)
  then have "length (seen @ at # queue) \<le> length nodes - 1"
    using 2(1) distinct_card [of "seen @ at # queue"] by (simp add: bfs_inv_def)
  then show ?case using 2 by simp
next
  case (3 ord fuel at queue nodes)
  let ?es = "ord (n_next (nodes ! at))"
  obtain nodes' where n': "link_children at ?es nodes = Some nodes'" "length nodes' = length nodes"
      "bfs_inv P Q paths (seen @ [at]) (queue @ map snd ?es) nodes'"
    using bfs_step [OF 3(2) 3(3), of ?es] 3(5) by auto
  then show ?case using 3(1) [OF refl, of nodes' "seen @ [at]"] 3(3-) by simp
qed

lemma bfs_init:
  assumes t: "trie P nodes paths" and u: "unlinked Q nodes paths" and Q: "[] \<notin> Q"
    and perm: "mset es = mset (n_next (nodes ! 0))"
  shows "bfs_inv P Q paths [] (map snd es) nodes"
proof -
  note tb = trie_basic [OF t]
  note ch = trie_children [OF t tb(2) perm]
  have c: "c < length nodes \<and> c \<noteq> 0 \<and> (\<exists>b. paths ! c = [b])" if "c \<in> snd ` set es" for c
    using ch(1) [of c] that tb(3) by (cases c) auto
  have "linked P Q nodes paths c" if "c \<in> snd ` set es" for c
    using c [OF that] u tb(2,3) by (auto simp: linked_def fail_ok_def unlinked_def)
  moreover have "linked P Q nodes paths 0"
    using u tb(2,3) Q by (auto simp: linked_def fail_ok_def unlinked_def)
  moreover have "\<forall>k < length nodes. maybe_linked P Q nodes paths k"
    using u by (simp add: maybe_linked_def unlinked_def)
  moreover have "\<exists>q \<in> snd ` set es. prefix (paths ! q) (paths ! k)" if k: "k \<in> {1..<length nodes}" for k
  proof -
    obtain b v where v: "paths ! k = b # v" using tb(7) [of k] k by (cases "paths ! k") auto
    then have "[b] \<in> P" using trie_prefix [OF t, of "[b]" v] tb(4) [of k] k by simp
    then obtain q where "q < length nodes" "paths ! q = [b]" by (rule trie_path [OF t])
    then have "q \<in> snd ` set es" "prefix (paths ! q) (paths ! k)" using ch(1) [of q] tb(3) v by auto
    then show ?thesis by blast
  qed
  moreover have one: "length (paths ! q) = 1" if "q \<in> set (map snd es)" for q
    using c [of q] that by auto
  moreover have "sorted (map (\<lambda>k. length (paths ! k)) (map snd es))"
    by (rule sorted_map_const) (use one in auto)
  moreover have "snd ` set es \<subseteq> {1..<length nodes}" using c by fastforce
  ultimately show ?thesis using t ch(2) one unfolding bfs_inv_def by simp
qed

text \<open>
  What the builder delivers: every node stands for a prefix of a pattern, its failure link
  for the longest proper suffix that is such a prefix, and its match length is that of the
  longest pattern ending there.
\<close>

definition automaton :: "string list \<Rightarrow> matcher \<Rightarrow> string list \<Rightarrow> bool" where
  "automaton ps nodes paths \<longleftrightarrow>
     trie (prefixes_of ps) nodes paths \<and>
     (\<forall>k < length nodes. linked (prefixes_of ps) (patterns_of ps) nodes paths k)"

lemma NewMatcher_automaton:
  assumes "\<And>xs. mset (ord xs) = mset xs"
  shows "\<exists>nodes paths. NewMatcher ord ps = Some nodes \<and> automaton ps nodes paths"
proof -
  obtain paths where t: "trie (prefixes_of ps) (build_trie ps) paths"
    "unlinked (patterns_of ps) (build_trie ps) paths" using build_trie_correct by blast
  have "bfs_inv (prefixes_of ps) (patterns_of ps) paths []
      (map snd (ord (n_next (build_trie ps ! 0)))) (build_trie ps)"
    using bfs_init [OF t] assms by simp
  from link_all_correct [OF this patterns_prefixes, of "length (build_trie ps)" ord] assms
  show ?thesis by (auto simp: NewMatcher_def automaton_def Let_def)
qed

section \<open>The stream masks every occurrence\<close>

text \<open>
  The specification. A position of a text is covered when it lies in an occurrence of a
  pattern; the masked text has \<open>***\<close> for every maximal run of covered bytes and all other
  bytes as they are.
\<close>

definition covered :: "string list \<Rightarrow> string \<Rightarrow> nat \<Rightarrow> bool" where
  "covered ps t i \<longleftrightarrow>
     list_ex (\<lambda>p. list_ex (\<lambda>j. i < j + length p \<and> prefix p (drop j t)) [0..<Suc i]) ps"

lemma covered_iff:
  "covered ps t i \<longleftrightarrow> (\<exists>p \<in> set ps. \<exists>j \<le> i. i < j + length p \<and> prefix p (drop j t))"
  by (auto simp: covered_def list_ex_iff less_Suc_eq_le Bex_def simp del: upt_Suc)

function mask_runs :: "(char \<times> bool) list \<Rightarrow> string" where
  "mask_runs [] = []"
| "mask_runs ((b, False) # rest) = b # mask_runs rest"
| "mask_runs ((b, True) # rest) = ''***'' @ mask_runs (dropWhile snd rest)"
  by pat_completeness auto
termination
  by (relation "measure length") (auto simp: length_dropWhile_le le_imp_less_Suc)

definition mask_spec :: "string list \<Rightarrow> string \<Rightarrow> string" where
  "mask_spec ps t = mask_runs (zip t (map (covered ps t) [0..<length t]))"

lemma emit_loop_mask_runs:
  "fst (emit_loop m xs) = mask_runs (if m then dropWhile snd xs else xs)"
proof (induction m xs rule: emit_loop.induct)
  case (2 m b c rest)
  then show ?case by (cases m; cases c) (auto simp: case_prod_beta)
qed simp

lemma emit_loop_append:
  "emit_loop m (xs @ ys) =
     (let (o1, m1) = emit_loop m xs; (o2, m2) = emit_loop m1 ys in (o1 @ o2, m2))"
  by (induction m xs rule: emit_loop.induct) (auto simp: case_prod_beta Let_def)

lemma covered_mono: "covered ps t i \<Longrightarrow> covered ps (t @ u) i"
  by (fastforce simp: covered_iff intro: prefix_prefix)

lemma covered_length: "covered ps t i \<Longrightarrow> i < length t"
  by (auto simp: covered_iff dest!: prefix_length_le)

text \<open>A position further back than the automaton remembers can no longer be covered.\<close>

lemma covered_resolved:
  assumes i: "i < length t - length (lsuf (prefixes_of ps) t)" and c: "covered ps (t @ u) i"
  shows "covered ps t i"
proof -
  from c obtain p j where p: "p \<in> set ps" "j \<le> i" "i < j + length p" "prefix p (drop j (t @ u))"
    by (auto simp: covered_iff)
  have jt: "j \<le> length t" using p(2) i by simp
  have "prefix p (drop j t)"
  proof (rule ccontr)
    assume no: "\<not> prefix p (drop j t)"
    have "drop j (t @ u) = drop j t @ u" using jt by simp
    with p(4) no have "prefix (drop j t) p" by (metis prefixI prefix_same_cases)
    then have "drop j t \<in> prefixes_of ps" using p(1) by (auto simp: prefixes_of_iff)
    then have "length (drop j t) \<le> length (lsuf (prefixes_of ps) t)"
      using suffix_length_le [OF lsuf_longest [OF suffix_drop]] by blast
    then show False using p(2) i by simp
  qed
  with p show ?thesis by (auto simp: covered_iff)
qed

text \<open>A new byte covers what the longest pattern ending in it covers.\<close>

lemma covered_snoc:
  assumes "i < length (t @ [b])"
  shows "covered ps (t @ [b]) i \<longleftrightarrow>
    covered ps t i \<or> length (t @ [b]) - mlen (patterns_of ps) (t @ [b]) \<le> i"
proof -
  let ?t = "t @ [b]" and ?m = "mlen (patterns_of ps) (t @ [b])"
  have "covered ps ?t i" if "length ?t - ?m \<le> i"
  proof -
    have pos: "0 < ?m" "?m \<le> length ?t" using that assms mlen_le [of _ ?t] by auto
    let ?j = "length ?t - ?m"
    have "drop ?j ?t \<in> set ps" using mlen_suffix [OF pos(1)] by simp
    moreover have "i < ?j + length (drop ?j ?t)" using assms pos by simp
    ultimately show ?thesis
      using that unfolding covered_iff by (intro bexI [of _ "drop ?j ?t"] exI [of _ ?j]) simp_all
  qed
  moreover have "length ?t - ?m \<le> i" if c: "covered ps ?t i" "\<not> covered ps t i"
  proof -
    from c(1) obtain p j where p: "p \<in> set ps" "j \<le> i" "i < j + length p" "prefix p (drop j ?t)"
      by (auto simp: covered_iff)
    have jt: "j \<le> length t" using p(2) assms by simp
    then have d: "drop j ?t = drop j t @ [b]" by simp
    have "\<not> prefix p (drop j t)" using c(2) p by (auto simp: covered_iff)
    then have "p = drop j ?t" using p(4) unfolding d by simp
    then have "suffix p ?t" "p \<noteq> []" using suffix_drop d by auto
    then have "length p \<le> ?m" using mlen_longest p(1) by simp
    then show ?thesis using p(2) \<open>p = drop j ?t\<close> jt by simp
  qed
  ultimately show ?thesis using covered_mono by blast
qed

text \<open>
  What holds of a stream that has read the text \<open>t\<close> and written \<open>out\<close>: it is in the state
  of the longest suffix that can still become a pattern; the first \<open>e\<close> bytes are written,
  and whether they are covered is settled whatever follows; the rest is pending with its
  current flags.
\<close>

definition stream_inv :: "string list \<Rightarrow> string list \<Rightarrow> string \<Rightarrow> string \<Rightarrow> Stream \<Rightarrow> bool" where
  "stream_inv ps paths t out s \<longleftrightarrow>
     automaton ps (s_matcher s) paths \<and>
     s_state s < length (s_matcher s) \<and> paths ! s_state s = lsuf (prefixes_of ps) t \<and>
     (\<exists>e \<le> length t. s_pending s = drop e t \<and> s_masked s = map (covered ps t) [e..<length t] \<and>
        (\<forall>i < e. \<forall>u. covered ps (t @ u) i = covered ps t i) \<and>
        emit_loop False (zip (take e t) (map (covered ps t) [0..<e])) = (out, s_masking s))"

lemma stream_invI:
  assumes "automaton ps (s_matcher s) paths" "q < length (s_matcher s)"
    "paths ! q = lsuf (prefixes_of ps) t" "e \<le> length t" "pend = drop e t"
    "flags = map (covered ps t) [e..<length t]"
    "\<And>i u. i < e \<Longrightarrow> covered ps (t @ u) i = covered ps t i"
    "emit_loop False (zip (take e t) (map (covered ps t) [0..<e])) = (out, m)"
  shows "stream_inv ps paths t out
    (s\<lparr>s_state := q, s_pending := pend, s_masked := flags, s_masking := m\<rparr>)"
  using assms unfolding stream_inv_def by auto

lemma new_stream_inv: "automaton ps m paths \<Longrightarrow> stream_inv ps paths [] [] (new_stream m)"
  using trie_basic(2,3) [of "prefixes_of ps" m paths]
  by (auto simp: stream_inv_def new_stream_def automaton_def)

text \<open>Setting the flags of the last \<open>len\<close> pending bytes.\<close>

lemma mark_masked:
  fixes ps :: "string list" and t :: string and b :: char and e :: nat
  assumes e: "e \<le> length t"
  defines "m \<equiv> mlen (patterns_of ps) (t @ [b])" and "L \<equiv> Suc (length t) - e"
  shows "(if 0 < m
      then take (L - m) (map (covered ps t) [e..<length t] @ [False]) @ replicate (L - (L - m)) True
      else map (covered ps t) [e..<length t] @ [False]) =
    map (covered ps (t @ [b])) [e..<Suc (length t)]" (is "?l = ?r")
proof (rule nth_equalityI)
  let ?old = "map (covered ps t) [e..<length t] @ [False]"
  have lo: "length ?old = L" using e by (simp add: L_def)
  show "length ?l = length ?r" using lo by (simp add: L_def)
  fix k
  assume "k < length ?l"
  then have k: "k < L" using lo by (simp split: if_splits)
  then have pos: "e + k < length (t @ [b])" by (simp add: L_def)
  have old: "?old ! k = covered ps t (e + k)"
    using k e covered_length [of ps t "e + k"]
    by (cases "e + k < length t") (auto simp: nth_append L_def)
  have "?l ! k = (covered ps t (e + k) \<or> L - m \<le> k)"
  proof (cases "0 < m")
    case True
    then show ?thesis using k lo old by (cases "L - m \<le> k") (auto simp: nth_append)
  next
    case False
    then show ?thesis using k old by simp
  qed
  also have "(L - m \<le> k) = (length (t @ [b]) - m \<le> e + k)" using e by (auto simp: L_def)
  also have "(covered ps t (e + k) \<or> \<dots>) = covered ps (t @ [b]) (e + k)"
    using covered_snoc [OF pos, of ps] by (simp add: m_def)
  also have "\<dots> = ?r ! k" using pos k by (simp add: L_def del: upt_Suc)
  finally show "?l ! k = ?r ! k" .
qed

lemma emit_covered:
  assumes "emit_loop False (zip (take e t) (map f [0..<e])) = (out, masking)"
    and e: "e + n \<le> length t"
  shows "emit_loop False (zip (take (e + n) t) (map f [0..<e + n])) =
    (let (o2, m2) = emit_loop masking (zip (take n (drop e t)) (take n (map f [e..<length t])))
     in (out @ o2, m2))"
proof -
  have len: "length (take e t) = length (map f [0..<e])" using e by simp
  have "take (e + n) t = take e t @ take n (drop e t)" by (simp add: take_add)
  moreover have "map f [0..<e + n] = map f [0..<e] @ take n (map f [e..<length t])"
    unfolding take_map take_upt [OF e] map_append [symmetric]
    using upt_add_eq_append [of 0 e n] by simp
  ultimately have "zip (take (e + n) t) (map f [0..<e + n]) =
      zip (take e t) (map f [0..<e]) @ zip (take n (drop e t)) (take n (map f [e..<length t]))"
    by (simp only: zip_append [OF len])
  then show ?thesis using assms(1) by (simp add: emit_loop_append)
qed

lemma emit_step:
  "emit_loop (s_masking s) (zip (take n p) (take n m)) = (out, masking) \<Longrightarrow>
     emit n (s\<lparr>s_state := q, s_pending := p, s_masked := m\<rparr>) =
       (s\<lparr>s_state := q, s_pending := drop n p, s_masked := drop n m, s_masking := masking\<rparr>, out)"
  by (simp add: emit_def)

lemma append_byte_inv:
  assumes inv: "stream_inv ps paths t out s"
  shows "\<exists>s' o'. append_byte b s = Some (s', o') \<and> stream_inv ps paths (t @ [b]) (out @ o') s'"
proof -
  let ?P = "prefixes_of ps" and ?Q = "patterns_of ps" and ?t = "t @ [b]" and ?nodes = "s_matcher s"
  from inv obtain e where a: "automaton ps ?nodes paths"
    and st: "s_state s < length ?nodes" "paths ! s_state s = lsuf ?P t"
    and e: "e \<le> length t" "s_pending s = drop e t" "s_masked s = map (covered ps t) [e..<length t]"
    and res: "\<forall>i < e. \<forall>u. covered ps (t @ u) i = covered ps t i"
    and em: "emit_loop False (zip (take e t) (map (covered ps t) [0..<e])) = (out, s_masking s)"
    unfolding stream_inv_def by blast
  have tr: "trie ?P ?nodes paths" and lk: "\<forall>k < length ?nodes. linked ?P ?Q ?nodes paths k"
    using a by (simp_all add: automaton_def)
  have "length (paths ! s_state s) \<le> length ?nodes"
    using trie_depth_less [OF tr trie_basic(4) [OF tr st(1)]] by simp
  obtain r where r: "follow (length ?nodes) ?nodes (s_state s) b = Some r"
    and rn: "case next_of ?nodes r b of
       Some n \<Rightarrow> n < length ?nodes \<and> paths ! n = lsuf ?P (paths ! s_state s @ [b])
     | None \<Rightarrow> lsuf ?P (paths ! s_state s @ [b]) = []"
    using follow_correct [OF tr _ st(1) order_refl \<open>length (paths ! s_state s) \<le> length ?nodes\<close>, of b] lk
    by (auto simp: linked_def)
  define q where "q = (case next_of ?nodes r b of Some n \<Rightarrow> n | None \<Rightarrow> 0)"
  have q: "q < length ?nodes" "paths ! q = lsuf ?P ?t"
    using rn trie_basic(2,3) [OF tr] st(2) pre.lsuf_snoc [of ps t b]
    by (auto simp: q_def split: option.splits)
  have len: "n_match (?nodes ! q) = mlen ?Q ?t"
    using lk q pre.mlen_lsuf [OF patterns_prefixes, of ps ?t] by (simp add: linked_def)
  have dep: "n_depth (?nodes ! q) = length (lsuf ?P ?t)" using trie_basic(5) [OF tr q(1)] q(2) by simp
  let ?pending = "drop e ?t" and ?masked = "map (covered ps ?t) [e..<length ?t]"
  have pend: "s_pending s @ [b] = ?pending" using e by simp
  define n0 where "n0 = length ?pending - length (lsuf ?P ?t)"
  define n where "n = n0 + length (takeWhile id (drop n0 ?masked))"
  have n: "e + n \<le> length ?t"
    using length_takeWhile_le [of id "drop n0 ?masked"] e(1) by (simp add: n_def n0_def)
  have lp: "length ?pending = Suc (length t) - e" "length ?t = Suc (length t)" by simp_all
  have mk: "(if 0 < n_match (?nodes ! q)
      then take (length ?pending - n_match (?nodes ! q)) (s_masked s @ [False]) @
        replicate (length ?pending - (length ?pending - n_match (?nodes ! q))) True
      else s_masked s @ [False]) = ?masked"
    unfolding len e(3) lp by (rule mark_masked [OF e(1)])
  have step: "append_byte b s =
      Some (emit n (s\<lparr>s_state := q, s_pending := ?pending, s_masked := ?masked\<rparr>))"
    by (simp only: append_byte_def Let_def pend r option.case q_def [symmetric] mk dep n_def n0_def)
  have run: "covered ps ?t i" if "e + n0 \<le> i" "i < e + n" for i
  proof -
    have k: "i - e - n0 < length (takeWhile id (drop n0 ?masked))" using that by (simp add: n_def)
    then have "drop n0 ?masked ! (i - e - n0)"
      by (metis id_apply nth_mem set_takeWhileD takeWhile_nth)
    moreover have "drop n0 ?masked ! (i - e - n0) = covered ps ?t i"
      using that n by (simp del: upt_Suc)
    ultimately show ?thesis by simp
  qed
  have res': "covered ps (?t @ u) i = covered ps ?t i" if "i < e + n" for i u
  proof -
    consider "i < e" | "e \<le> i" "i < e + n0" | "e + n0 \<le> i" by linarith
    then show ?thesis
    proof cases
      case 1
      then show ?thesis using res by (metis append.assoc)
    next
      case 2
      then have "i < length ?t - length (lsuf ?P ?t)" by (simp add: n0_def)
      then show ?thesis using covered_resolved covered_mono by blast
    next
      case 3
      then show ?thesis using run that covered_mono by blast
    qed
  qed
  have old: "map (covered ps ?t) [0..<e] = map (covered ps t) [0..<e]" "take e ?t = take e t"
    using res e(1) by simp_all
  have "emit_loop False (zip (take e ?t) (map (covered ps ?t) [0..<e])) = (out, s_masking s)"
    using em unfolding old .
  note em' = emit_covered [OF this n]
  obtain o2 m2 where o2: "emit_loop (s_masking s) (zip (take n ?pending) (take n ?masked)) = (o2, m2)"
    by fastforce
  have em2: "emit_loop False (zip (take (e + n) ?t) (map (covered ps ?t) [0..<e + n])) = (out @ o2, m2)"
    using em' unfolding o2 by simp
  have "stream_inv ps paths ?t (out @ o2)
      (s\<lparr>s_state := q, s_pending := drop (e + n) ?t,
        s_masked := map (covered ps ?t) [e + n..<length ?t], s_masking := m2\<rparr>)"
    by (rule stream_invI [OF a q n refl refl res' em2])
  moreover have "append_byte b s = Some (s\<lparr>s_state := q, s_pending := drop (e + n) ?t,
        s_masked := map (covered ps ?t) [e + n..<length ?t], s_masking := m2\<rparr>, o2)"
    using emit_step [OF o2] unfolding step drop_drop drop_map drop_upt
    by (simp only: add.commute)
  ultimately show ?thesis by blast
qed

lemma append_bytes_inv:
  assumes "stream_inv ps paths t out s"
  shows "\<exists>s' o'. append_bytes bs s = Some (s', o') \<and> stream_inv ps paths (t @ bs) (out @ o') s'"
  using assms
proof (induction bs arbitrary: t out s)
  case (Cons b bs)
  from append_byte_inv [OF Cons.prems, of b] obtain s1 o1 where
    1: "append_byte b s = Some (s1, o1)" "stream_inv ps paths (t @ [b]) (out @ o1) s1" by blast
  from Cons.IH [OF 1(2)] 1(1) show ?case by auto
qed simp

text \<open>Feeding chunks one by one, the last one final, as the step runner does.\<close>

fun append_chunks :: "string list \<Rightarrow> Stream \<Rightarrow> string option" where
  "append_chunks [] s = Some []"
| "append_chunks (p # ps) s =
     Option.bind (Append p (ps = []) s) (\<lambda>(s, out). map_option ((@) out) (append_chunks ps s))"

lemma Append_more:
  assumes "stream_inv ps paths t out s"
  shows "\<exists>s' o'. Append p False s = Some (s', o') \<and> stream_inv ps paths (t @ p) (out @ o') s'"
  using append_bytes_inv [OF assms, of p] by (auto simp: Append_def)

lemma Append_final:
  assumes "stream_inv ps paths t out s"
  shows "\<exists>s' o'. Append p True s = Some (s', o') \<and> out @ o' = mask_spec ps (t @ p)"
proof -
  let ?t = "t @ p"
  obtain s1 o1 where s1: "append_bytes p s = Some (s1, o1)" "stream_inv ps paths ?t (out @ o1) s1"
    using append_bytes_inv [OF assms, of p] by blast
  then obtain e where e: "e \<le> length ?t" "s_pending s1 = drop e ?t"
      "s_masked s1 = map (covered ps ?t) [e..<length ?t]"
    and em: "emit_loop False (zip (take e ?t) (map (covered ps ?t) [0..<e])) = (out @ o1, s_masking s1)"
    by (auto simp: stream_inv_def)
  define n where "n = length (s_pending s1)"
  have n: "e + n = length ?t" using e by (simp add: n_def)
  obtain o2 m2 where o2: "emit_loop (s_masking s1) (zip (take n (s_pending s1)) (take n (s_masked s1))) = (o2, m2)"
    by fastforce
  have "emit_loop False (zip (take (e + n) ?t) (map (covered ps ?t) [0..<e + n])) = ((out @ o1) @ o2, m2)"
    using emit_covered [OF em, of n] n o2 unfolding e(2,3) by simp
  then have "mask_spec ps ?t = out @ o1 @ o2"
    using emit_loop_mask_runs [of False "zip ?t (map (covered ps ?t) [0..<length ?t])"]
    unfolding n mask_spec_def by simp
  moreover have "\<exists>s'. Append p True s = Some (s', o1 @ o2)"
    using s1(1) o2 by (simp add: Append_def emit_def n_def)
  ultimately show ?thesis by auto
qed

lemma append_chunks_inv:
  assumes "stream_inv ps paths t out s" "chunks \<noteq> []"
  shows "\<exists>o'. append_chunks chunks s = Some o' \<and> out @ o' = mask_spec ps (t @ concat chunks)"
  using assms
proof (induction chunks arbitrary: t out s)
  case (Cons p chunks)
  show ?case
  proof (cases "chunks = []")
    case True
    then show ?thesis using Append_final [OF Cons.prems(1), of p] by auto
  next
    case False
    obtain s1 o1 where 1: "Append p False s = Some (s1, o1)" "stream_inv ps paths (t @ p) (out @ o1) s1"
      using Append_more [OF Cons.prems(1), of p] by blast
    then show ?thesis using Cons.IH [OF 1(2) False] False by auto
  qed
qed simp

section \<open>Properties\<close>

text \<open>
  C5: building the matcher always terminates, for every order in which Go may iterate over
  the maps of the trie, and \<open>Mask\<close> with it returns the text in which every maximal run of
  bytes covered by an occurrence of a secret is replaced by \<open>***\<close> and every other byte is
  kept.
\<close>

theorem Mask_correct:
  assumes "\<forall>xs. mset (ord xs) = mset xs"
  shows "\<exists>m. NewMatcher ord patterns = Some m \<and> Mask m msg = Some (mask_spec patterns msg)"
proof -
  obtain m paths where m: "NewMatcher ord patterns = Some m" "automaton patterns m paths"
    using NewMatcher_automaton [of ord patterns] assms by blast
  with Append_final [OF new_stream_inv [OF m(2)], of msg] show ?thesis by (auto simp: Mask_def)
qed

theorem Mask_correct_witness:
  "\<exists>m. NewMatcher rev [''aba'', ''bad''] = Some m \<and> Mask m ''xababady'' = Some ''x***y''"
proof -
  have "mask_spec [''aba'', ''bad''] ''xababady'' = ''x***y''" by code_simp
  then show ?thesis using Mask_correct [of rev "[''aba'', ''bad'']" "''xababady''"] by simp
qed

text \<open>
  C23: how the output of a step is cut into writes does not matter: a stream fed chunk by
  chunk, only the last call final, writes altogether what masking the whole text at once
  gives, so a secret split over several writes is masked too.
\<close>

theorem stream_chunks_masked:
  assumes "\<forall>xs. mset (ord xs) = mset xs" "chunks \<noteq> []" "NewMatcher ord patterns = Some m"
  shows "append_chunks chunks (new_stream m) = Some (mask_spec patterns (concat chunks))"
proof -
  obtain paths where a: "automaton patterns m paths"
    using NewMatcher_automaton [of ord patterns] assms by auto
  show ?thesis using append_chunks_inv [OF new_stream_inv [OF a] assms(2)] by auto
qed

theorem stream_chunks_masked_witness:
  "\<exists>m. NewMatcher id [''secret''] = Some m \<and>
     append_chunks [''a sec'', ''ret b''] (new_stream m) = Some ''a *** b''"
proof -
  have spec: "mask_spec [''secret''] (concat [''a sec'', ''ret b'']) = ''a *** b''" by code_simp
  obtain m where m: "NewMatcher id [''secret''] = Some m"
    using NewMatcher_automaton [of id "[''secret'']"] by auto
  then have "append_chunks [''a sec'', ''ret b''] (new_stream m) = Some ''a *** b''"
    using stream_chunks_masked [of id "[''a sec'', ''ret b'']" "[''secret'']" m] spec by simp
  with m show ?thesis by blast
qed

end
