(* ===== verification/Image_Refs.thy ===== *)
theory Image_Refs
  imports Gitman_Prelude
begin

text \<open>
  Package \<open>internal/ci\<close>, file \<open>image.go\<close>: the canonical form of container image references.
\<close>

abbreviation slash :: char where
  "slash \<equiv> CHR ''/''"

abbreviation colon :: char where
  "colon \<equiv> CHR '':''"

abbreviation at_sign :: char where
  "at_sign \<equiv> CHR ''@''"

definition hex_digit :: "char \<Rightarrow> bool" where
  "hex_digit c \<longleftrightarrow> c \<in> set ''0123456789abcdef''"

text \<open>\<open>strings.SplitN(s, "/", 2)\<close>: one part, or the parts around the first slash.\<close>

definition split_first :: "string \<Rightarrow> string list" where
  "split_first s =
     (if slash \<in> set s
      then [takeWhile (\<lambda>c. c \<noteq> slash) s, tl (dropWhile (\<lambda>c. c \<noteq> slash) s)]
      else [s])"

definition split_registry :: "string \<Rightarrow> string \<times> string" where
  "split_registry ref =
     (let parts = split_first ref in
      if length parts = 2 \<and>
         (list_ex (\<lambda>c. c = CHR ''.'' \<or> c = colon) (parts ! 0) \<or> parts ! 0 = ''localhost'')
      then (parts ! 0, parts ! 1) else (''docker.io'', ref))"

definition default_registry :: "string \<Rightarrow> string" where
  "default_registry registry =
     (if registry = ''index.docker.io'' then ''docker.io'' else registry)"

definition default_namespace :: "string \<Rightarrow> string \<Rightarrow> string" where
  "default_namespace registry name =
     (if registry = ''docker.io'' \<and> \<not> contains name ''/'' then ''library/'' @ name else name)"

definition default_tag :: "string \<Rightarrow> string" where
  "default_tag name =
     (if \<not> contains name ''@'' \<and> last_index colon name < last_index slash name + 1
      then name @ '':latest'' else name)"

definition NormalizeImageReference :: "string \<Rightarrow> string" where
  "NormalizeImageReference ref =
     (if prefix ''sha256:'' ref then ref
      else if length ref = 64 \<and> trim hex_digit ref = [] then ''sha256:'' @ ref
      else
        let (registry, name) = split_registry ref;
            registry = default_registry registry;
            name = default_namespace registry name
        in registry @ ''/'' @ default_tag name)"

definition NormalizeImageRepository :: "string \<Rightarrow> string" where
  "NormalizeImageRepository ref =
     (let normalized = NormalizeImageReference ref;
          normalized = (case index_of normalized ''@'' of
                          Some i \<Rightarrow> take i normalized | None \<Rightarrow> normalized);
          i = last_index colon normalized
      in if i > last_index slash normalized then take (nat i) normalized else normalized)"

definition ImageTagForVersion :: "string \<Rightarrow> string \<Rightarrow> string" where
  "ImageTagForVersion repository version = repository @ '':'' @ version"

definition normalizeImages :: "string list \<Rightarrow> string list" where
  "normalizeImages images = map NormalizeImageReference images"

section \<open>Canonical references\<close>

definition image_id :: "string \<Rightarrow> bool" where
  "image_id ref \<longleftrightarrow> prefix ''sha256:'' ref \<or> (length ref = 64 \<and> trim hex_digit ref = [])"

definition tagged :: "string \<Rightarrow> bool" where
  "tagged name \<longleftrightarrow> at_sign \<in> set name \<or> last_index slash name < last_index colon name"

text \<open>A registry and a name that the defaults leave alone.\<close>

definition canonical :: "string \<Rightarrow> string \<Rightarrow> bool" where
  "canonical reg name \<longleftrightarrow>
     slash \<notin> set reg \<and> (CHR ''.'' \<in> set reg \<or> colon \<in> set reg \<or> reg = ''localhost'') \<and>
     reg \<noteq> ''index.docker.io'' \<and> (reg = ''docker.io'' \<longrightarrow> slash \<in> set name) \<and>
     \<not> prefix ''sha256:'' (reg @ ''/'' @ name)"

lemma split_first_sep: "slash \<notin> set u \<Longrightarrow> split_first (u @ slash # v) = [u, v]"
proof -
  assume "slash \<notin> set u"
  then have "takeWhile (\<lambda>c. c \<noteq> slash) (u @ slash # v) = u"
    "dropWhile (\<lambda>c. c \<noteq> slash) (u @ slash # v) = slash # v"
    by (induction u) auto
  then show ?thesis by (simp add: split_first_def)
qed

lemma split_first_cases:
  "split_first s = [s] \<or> (\<exists>u v. slash \<notin> set u \<and> s = u @ slash # v \<and> split_first s = [u, v])"
proof (cases "slash \<in> set s")
  case True
  then obtain u v where "s = u @ slash # v" "slash \<notin> set u" using split_list_first by fastforce
  then show ?thesis using split_first_sep by blast
qed (simp add: split_first_def)

lemma trim_all:
  assumes "trim P s = []" shows "list_all P s"
proof (cases "dropWhile P s = []")
  case True
  then show ?thesis by (simp add: dropWhile_eq_Nil_conv list_all_iff)
next
  case False
  then have "\<not> P (hd (dropWhile P s))" by (rule hd_dropWhile)
  moreover have "list_all P (dropWhile P s)"
    using assms by (simp add: trim_def trim_right_def trim_left_def list_all_iff dropWhile_eq_Nil_conv)
  ultimately show ?thesis using False by (auto simp: list_all_iff)
qed

lemma slash_not_id:
  assumes "slash \<in> set s" "\<not> prefix ''sha256:'' s"
  shows "\<not> image_id s"
proof
  assume "image_id s"
  with assms have "list_all hex_digit s" by (auto simp: image_id_def intro: trim_all)
  with assms(1) show False by (auto simp: list_all_iff hex_digit_def)
qed

lemma tagged_colon:
  assumes "colon \<notin> set v" "slash \<notin> set v"
  shows "tagged (name @ colon # v)"
proof -
  have "last_index slash (name @ colon # v) < int (length name)"
    using assms(2) last_index_bounds [of slash name] by (simp add: last_index_append)
  moreover have "last_index colon v = -1" using assms(1) by (simp add: last_index_absent)
  ultimately show ?thesis by (simp add: tagged_def last_index_append)
qed

lemma tagged_default_tag: "tagged (default_tag name)"
  using tagged_colon [of "''latest''" name] by (auto simp: default_tag_def tagged_def)

lemma default_tag_tagged: "tagged name \<Longrightarrow> default_tag name = name"
  by (auto simp: default_tag_def tagged_def)

lemma NormalizeImageReference_not_id:
  assumes "\<not> image_id ref" "split_registry ref = (reg, name)"
  shows "NormalizeImageReference ref =
    default_registry reg @ ''/'' @ default_tag (default_namespace (default_registry reg) name)"
  using assms by (auto simp: NormalizeImageReference_def image_id_def Let_def)

lemma defaults_at_sign:
  "at_sign \<in> set (default_tag n) \<longleftrightarrow> at_sign \<in> set n"
  "at_sign \<in> set (default_namespace r n) \<longleftrightarrow> at_sign \<in> set n"
  "at_sign \<in> set (default_registry r) \<Longrightarrow> at_sign \<in> set r"
  by (simp_all add: default_tag_def default_namespace_def default_registry_def split: if_splits)

lemma NormalizeImageReference_canonical:
  assumes "canonical reg name" "tagged name"
  shows "NormalizeImageReference (reg @ ''/'' @ name) = reg @ ''/'' @ name"
proof -
  have "\<not> image_id (reg @ ''/'' @ name)"
    using assms(1) by (intro slash_not_id) (auto simp: canonical_def)
  moreover have "split_registry (reg @ ''/'' @ name) = (reg, name)"
    using assms(1) split_first_sep [of reg name]
    by (auto simp: canonical_def split_registry_def list_ex_iff Let_def)
  moreover have "default_registry reg = reg" "default_namespace reg name = name"
    using assms(1) by (auto simp: canonical_def default_registry_def default_namespace_def)
  ultimately show ?thesis
    using NormalizeImageReference_not_id default_tag_tagged [OF assms(2)] by simp
qed

lemma prefix_before_slash:
  "slash \<notin> set p \<Longrightarrow> prefix p (u @ slash # v) \<longleftrightarrow> prefix p u"
  by (auto simp: prefix_append prefix_Cons)

lemma split_registry_cases:
  assumes "split_registry ref = (reg, name)"
  shows "(reg = ''docker.io'' \<and> name = ref) \<or>
    (slash \<notin> set reg \<and> (CHR ''.'' \<in> set reg \<or> colon \<in> set reg \<or> reg = ''localhost'') \<and>
     ref = reg @ slash # name)"
  using assms split_first_cases [of ref]
  by (auto simp: split_registry_def Let_def list_ex_iff split: if_splits)

lemma default_registry_ok:
  assumes "split_registry ref = (r, n)"
  shows "slash \<notin> set (default_registry r) \<and>
    (CHR ''.'' \<in> set (default_registry r) \<or> colon \<in> set (default_registry r) \<or>
     default_registry r = ''localhost'') \<and> default_registry r \<noteq> ''index.docker.io''"
proof (cases "r = ''index.docker.io''")
  case False
  then have "default_registry r = r" by (simp add: default_registry_def)
  with False split_registry_cases [OF assms] show ?thesis by (elim disjE conjE) simp_all
qed (simp add: default_registry_def)

lemma NormalizeImageReference_shape:
  assumes "\<not> image_id ref"
  shows "\<exists>reg name. canonical reg name \<and> tagged name \<and>
    NormalizeImageReference ref = reg @ ''/'' @ name \<and>
    (at_sign \<in> set (reg @ ''/'' @ name) \<longrightarrow> at_sign \<in> set ref)"
proof -
  obtain r n where rn: "split_registry ref = (r, n)" by fastforce
  let ?reg = "default_registry r" and ?name = "default_tag (default_namespace (default_registry r) n)"
  note cases = split_registry_cases [OF rn]
  have "\<not> prefix ''sha256:'' ref" using assms by (simp add: image_id_def)
  with cases have "\<not> prefix ''sha256:'' ?reg"
    by (auto simp: default_registry_def prefix_before_slash)
  then have "\<not> prefix ''sha256:'' (?reg @ slash # ?name)" by (subst prefix_before_slash) auto
  moreover have "?reg = ''docker.io'' \<longrightarrow> slash \<in> set ?name"
    by (auto simp: default_namespace_def default_tag_def)
  ultimately have "canonical ?reg ?name"
    using default_registry_ok [OF rn] by (simp add: canonical_def)
  moreover have "at_sign \<in> set (?reg @ ''/'' @ ?name) \<longrightarrow> at_sign \<in> set ref"
    using cases defaults_at_sign(3) [of r] by (auto simp: defaults_at_sign(1,2))
  ultimately show ?thesis
    using NormalizeImageReference_not_id [OF assms rn] tagged_default_tag by blast
qed

text \<open>Cutting off the tag of a canonical reference.\<close>

lemma NormalizeImageRepository_tag:
  assumes "NormalizeImageReference ref = base @ colon # tag" "at_sign \<notin> set (base @ tag)"
    and "colon \<notin> set tag" "slash \<notin> set tag"
  shows "NormalizeImageRepository ref = base"
proof -
  let ?n = "base @ colon # tag"
  have "\<not> contains ?n ''@''" using assms(2) by simp
  then have "index_of ?n ''@'' = None" by (simp only: contains_def not_not)
  moreover have "last_index colon ?n = int (length base)"
    using assms(3) last_index_absent [of colon tag] by (simp add: last_index_append)
  moreover have "last_index slash ?n < int (length base)"
    using assms(4) last_index_bounds [of slash base] by (simp add: last_index_append)
  ultimately show ?thesis
    unfolding NormalizeImageRepository_def assms(1) Let_def by simp
qed

lemma last_colon_split:
  assumes "last_index slash s < last_index colon s"
  shows "\<exists>u v. s = u @ colon # v \<and> colon \<notin> set v \<and> slash \<notin> set v"
proof -
  have "last_index colon s \<noteq> -1" using assms last_index_bounds [of slash s] by auto
  then have "colon \<in> set s" by (simp add: last_index_absent)
  then obtain u v where s: "s = u @ colon # v" "colon \<notin> set v" using split_list_last by fastforce
  have "last_index colon s = int (length u)"
    using s last_index_absent [of colon v] by (simp add: last_index_append)
  then have "slash \<notin> set v"
    using assms s last_index_bounds [of slash v] last_index_absent [of slash v]
    by (auto simp: last_index_append)
  with s show ?thesis by blast
qed

section \<open>Properties\<close>

text \<open>
  Normalizing an image reference is idempotent, so two references that name the same
  image for Docker compare equal however often they have been normalized.
\<close>

theorem NormalizeImageReference_idempotent:
  "NormalizeImageReference (NormalizeImageReference ref) = NormalizeImageReference ref"
proof (cases "image_id ref")
  case True
  then show ?thesis by (auto simp: NormalizeImageReference_def image_id_def)
next
  case False
  then obtain reg name where "canonical reg name" "tagged name"
    "NormalizeImageReference ref = reg @ ''/'' @ name"
    using NormalizeImageReference_shape by blast
  then show ?thesis using NormalizeImageReference_canonical by simp
qed

text \<open>
  The tag a pipeline builds for a version under a canonical repository,
  \<open>ImageTagForVersion\<close>, is already in canonical form and belongs to that repository.
\<close>

theorem ImageTagForVersion_canonical:
  assumes "\<not> image_id ref" "at_sign \<notin> set ref"
    and "colon \<notin> set version" "slash \<notin> set version" "at_sign \<notin> set version"
  defines "repository \<equiv> NormalizeImageRepository ref"
  shows "NormalizeImageReference (ImageTagForVersion repository version) =
      ImageTagForVersion repository version \<and>
    NormalizeImageRepository (ImageTagForVersion repository version) = repository"
proof -
  obtain reg name where c: "canonical reg name" "tagged name"
    and n: "NormalizeImageReference ref = reg @ ''/'' @ name" "at_sign \<notin> set (reg @ ''/'' @ name)"
    using NormalizeImageReference_shape [OF assms(1)] assms(2) by blast
  then obtain u v where uv: "name = u @ colon # v" "colon \<notin> set v" "slash \<notin> set v"
    using last_colon_split [of name] by (auto simp: tagged_def)
  have r: "repository = reg @ ''/'' @ u"
    unfolding repository_def
    by (rule NormalizeImageRepository_tag [of _ _ v]) (use n uv in auto)
  have "canonical reg (u @ colon # version)"
    using c(1) uv prefix_before_slash [of "''sha256:''" reg]
    by (auto simp: canonical_def)
  then have "NormalizeImageReference (ImageTagForVersion repository version) =
      ImageTagForVersion repository version"
    using NormalizeImageReference_canonical tagged_colon [OF assms(3,4)] r
    by (simp add: ImageTagForVersion_def)
  moreover from this have "NormalizeImageRepository (ImageTagForVersion repository version) = repository"
    by (intro NormalizeImageRepository_tag [of _ _ version])
      (use assms(3-5) n uv r in \<open>auto simp: ImageTagForVersion_def\<close>)
  ultimately show ?thesis ..
qed

theorem ImageTagForVersion_canonical_witness:
  "NormalizeImageReference (ImageTagForVersion (NormalizeImageRepository ''team/app'') ''1.2.0'') =
     ''docker.io/team/app:1.2.0''"
proof -
  have "\<not> image_id ''team/app''" by code_simp
  then have "NormalizeImageReference (ImageTagForVersion (NormalizeImageRepository ''team/app'') ''1.2.0'') =
      ImageTagForVersion (NormalizeImageRepository ''team/app'') ''1.2.0''"
    using ImageTagForVersion_canonical [of "''team/app''" "''1.2.0''"] by simp
  moreover have "ImageTagForVersion (NormalizeImageRepository ''team/app'') ''1.2.0'' =
      ''docker.io/team/app:1.2.0''" by code_simp
  ultimately show ?thesis by simp
qed

end
