(* ===== verification/Pipeline.thy ===== *)
theory Pipeline
  imports Git_Refs Image_Refs "HOL-Library.AList"
begin

text \<open>
  Package \<open>internal/ci\<close>, file \<open>pipeline.go\<close>: parsing and validating \<open>.gitman.yml\<close>, the
  conditions of steps, the target of a run and the environment its steps see.

  The YAML decoder is a third-party package and is the parameter \<open>yaml\<close> of \<open>Parse\<close>;
  \<open>time.ParseDuration\<close> (which computes fractions in floating point) is the parameter
  \<open>duration\<close>. Every other check is translated. A problem the validator reports is a value
  of \<open>problem\<close> instead of its text.
\<close>

section \<open>The validated pipeline\<close>

datatype WhenKind = WhenAlways | WhenTarget | WhenBranch | WhenTag | WhenNamed

record When =
  w_Kind :: WhenKind
  w_Name :: string

definition ShouldRun :: "When \<Rightarrow> Kind \<Rightarrow> string \<Rightarrow> bool" where
  "ShouldRun w refKind targetName =
     (case w_Kind w of
        WhenAlways \<Rightarrow> True
      | WhenBranch \<Rightarrow> refKind = KindBranch
      | WhenTag \<Rightarrow> refKind = KindTag
      | WhenTarget \<Rightarrow> targetName \<noteq> []
      | WhenNamed \<Rightarrow> targetName = w_Name w)"

datatype StepKind = StepRun | StepDeploy

record Step =
  st_Type :: StepKind
  st_Name :: string
  st_When :: When
  st_Run :: string

record Target =
  t_Kind :: Kind
  t_Pattern :: string
  t_Env :: "(string \<times> string) list"

record Config =
  c_Image :: string
  c_Docker :: bool
  c_Timeout :: int
  c_Requires :: "string list"
  c_Images :: "(string \<times> int) list"
  c_Env :: "(string \<times> string) list"
  c_Targets :: "(string \<times> Target) list"
  c_Steps :: "Step list"

text \<open>
  The loop over the map \<open>c.Targets\<close>, in the order of the association list; see
  \<open>ResolveTarget_order_independent\<close> for why the order Go picks does not matter.
\<close>

definition ResolveTarget :: "Config \<Rightarrow> Kind \<Rightarrow> string \<Rightarrow> string option" where
  "ResolveTarget c kind name =
     (let ts = filter (\<lambda>(_, target). t_Kind target = kind) (c_Targets c);
          names = map fst ts;
          patterns = map (\<lambda>(_, target). t_Pattern target) ts
      in case SelectPattern patterns name of
           None \<Rightarrow> None
         | Some idx \<Rightarrow> Some (names ! idx))"

record RunContext =
  rc_Repo :: string
  rc_RunNumber :: int
  rc_Commit :: string
  rc_RefKind :: Kind
  rc_RefName :: string
  rc_Target :: string

definition version_safe :: "nat \<Rightarrow> bool" where
  "version_safe r \<longleftrightarrow>
     (48 \<le> r \<and> r \<le> 57) \<or> (65 \<le> r \<and> r \<le> 90) \<or> (97 \<le> r \<and> r \<le> 122) \<or> r = 46 \<or> r = 95 \<or> r = 45"

definition dot_dash :: "char \<Rightarrow> bool" where
  "dot_dash c \<longleftrightarrow> c = CHR ''.'' \<or> c = CHR ''-''"

text \<open>The regular expression replaces every unsafe rune (or invalid byte) by one dash.\<close>

definition sanitizeVersion :: "string \<Rightarrow> string" where
  "sanitizeVersion raw =
     (let v = map (\<lambda>r. if version_safe r then char_of r else CHR ''-'') (runes raw);
          v = trim dot_dash v
      in if length v > 128 then trim_right dot_dash (take 128 v) else v)"

definition firstN :: "string \<Rightarrow> nat \<Rightarrow> string" where
  "firstN s n = (if length s > n then take n s else s)"

definition Version :: "RunContext \<Rightarrow> string" where
  "Version rc =
     (if rc_RefKind rc = KindTag \<and> sanitizeVersion (rc_RefName rc) \<noteq> []
      then sanitizeVersion (rc_RefName rc)
      else firstN (rc_Commit rc) 12)"

fun kind_string :: "Kind \<Rightarrow> string" where
  "kind_string KindBranch = ''branch''"
| "kind_string KindTag = ''tag''"
| "kind_string (KindUnknown s) = s"

definition Variables :: "RunContext \<Rightarrow> (string \<times> string) list" where
  "Variables rc =
     [(''GITMAN_REPO'', rc_Repo rc),
      (''GITMAN_RUN'', format_int (rc_RunNumber rc)),
      (''GITMAN_COMMIT'', rc_Commit rc),
      (''GITMAN_SHORT'', firstN (rc_Commit rc) 7),
      (''GITMAN_REF'', rc_RefName rc),
      (''GITMAN_REF_KIND'', kind_string (rc_RefKind rc)),
      (''GITMAN_VERSION'', Version rc),
      (''GITMAN_TARGET'', rc_Target rc)]"

text \<open>\<open>for k, v := range m { out[k] = v }\<close>\<close>

definition put_all :: "(string \<times> string) list \<Rightarrow> (string \<times> string) list \<Rightarrow> (string \<times> string) list" where
  "put_all m out = fold (\<lambda>(k, v). AList.update k v) m out"

definition ResolvedEnv :: "Config \<Rightarrow> RunContext \<Rightarrow> (string \<times> string) list" where
  "ResolvedEnv c rc =
     (let out = put_all (Variables rc) [];
          out = put_all (c_Env c) out
      in if rc_Target rc \<noteq> []
         then (case map_of (c_Targets c) (rc_Target rc) of
                 Some target \<Rightarrow> put_all (t_Env target) out
               | None \<Rightarrow> out)
         else out)"

section \<open>The file as it is decoded\<close>

record rawTarget =
  rt_Branch :: string
  rt_Tag :: string
  rt_Env :: "(string \<times> string) list"

record rawStep =
  rs_Type :: string
  rs_Name :: string
  rs_When :: string
  rs_Run :: string

record rawConfig =
  raw_Image :: string
  raw_Docker :: bool
  raw_Timeout :: string
  raw_Requires :: "string list"
  raw_Images :: "(string \<times> int option) list"
  raw_Env :: "(string \<times> string) list"
  raw_Targets :: "(string \<times> rawTarget) list"
  raw_Steps :: "rawStep list"

definition MaxFileBytes :: nat where "MaxFileBytes = 256 * 1024"
definition MaxSteps :: nat where "MaxSteps = 64"
definition MaxTargets :: nat where "MaxTargets = 16"
definition MaxRequires :: nat where "MaxRequires = 32"
definition MaxImages :: nat where "MaxImages = 32"
definition MinImageKeep :: int where "MinImageKeep = 1"
definition MaxImageKeep :: int where "MaxImageKeep = 50"
definition MaxEnvVars :: nat where "MaxEnvVars = 128"
definition MaxRunBytes :: nat where "MaxRunBytes = 64 * 1024"
definition MaxStepNameLen :: nat where "MaxStepNameLen = 100"
definition MaxEnvValueLen :: nat where "MaxEnvValueLen = 8 * 1024"
definition MaxTimeout :: int where "MaxTimeout = 24 * 3600 * 1000000000"

lemmas pipeline_limits = MaxFileBytes_def MaxSteps_def MaxTargets_def MaxRequires_def MaxImages_def
  MinImageKeep_def MaxImageKeep_def MaxEnvVars_def MaxRunBytes_def MaxStepNameLen_def
  MaxEnvValueLen_def MaxTimeout_def

section \<open>Validation\<close>

datatype env_label = EnvLabel | TargetEnvLabel string

datatype env_problem = EnvKey | EnvReserved | EnvValueLong nat | EnvControl

datatype repository_problem = NotRepository | RepositoryDigest | RepositoryCase | RepositoryTag

datatype require_source = FromImage | FromRequires

datatype duration_error = MissingUnit | BadDuration

datatype timeout_problem = TimeoutUnit string | TimeoutInvalid string | TimeoutNotPositive | TimeoutTooLong int

datatype require_problem = RequireEmpty | RequireInvalid string | RequireTwice string

datatype image_problem =
  ImageRepository repository_problem | ImageSame string | ImageConflict require_source
| ImageKeepMissing | ImageKeepRange

datatype target_problem =
  TargetName | TargetKind | TargetPattern "ref_error go_error" | TargetSame Kind string string

datatype step_problem =
  StepNameEmpty | StepNameLong | StepNameControl string | StepNameTwice string
| StepRunEmpty string | StepRunLong string nat | StepRunNul string | StepWhen string string
| StepType string | DeployWhen string | DeployNoTarget string

datatype problem =
  ImageRequired | ImageInvalid string | TimeoutProblem timeout_problem
| RequiresTooMany nat | RequireProblem nat require_problem
| ImagesTooMany nat | ImageProblem string image_problem
| EnvTooMany env_label nat | EnvProblem env_label string env_problem
| TargetsTooMany nat | TargetProblem string target_problem
| StepsNone | StepsTooMany nat | StepProblem nat step_problem | DeployTwice

definition image_char :: "char \<Rightarrow> bool" where
  "image_char c \<longleftrightarrow> is_alnum c \<or> c \<in> set ''._/:@-''"

definition imageRefPattern :: "string \<Rightarrow> bool" where
  "imageRefPattern s \<longleftrightarrow>
     (case s of
        [] \<Rightarrow> False
      | c # rest \<Rightarrow> is_alnum c \<and> length rest \<le> 254 \<and> list_all image_char rest)"

definition validateImageRepository :: "string \<Rightarrow> (repository_problem, unit) result" where
  "validateImageRepository repository =
     (if \<not> imageRefPattern repository then Inl NotRepository
      else if contains repository ''@'' then Inl RepositoryDigest
      else if repository \<noteq> to_lower repository then Inl RepositoryCase
      else if last_index colon repository > last_index slash repository then Inl RepositoryTag
      else ok ())"

definition envKeyPattern :: "string \<Rightarrow> bool" where
  "envKeyPattern s \<longleftrightarrow>
     (case s of
        [] \<Rightarrow> False
      | c # rest \<Rightarrow> (is_upper c \<or> c = CHR ''_'') \<and>
          list_all (\<lambda>c. is_upper c \<or> is_digit c \<or> c = CHR ''_'') rest)"

definition check_env :: "string \<times> string \<Rightarrow> env_problem option" where
  "check_env entry =
     (case entry of (key, val) \<Rightarrow>
        if \<not> envKeyPattern key then Some EnvKey
        else if prefix ''GITMAN_'' key then Some EnvReserved
        else if length val > MaxEnvValueLen then Some (EnvValueLong (length val))
        else if has_control val then Some EnvControl
        else None)"

text \<open>The entries of a map in the order of its sorted keys.\<close>

definition sorted_entries :: "(string \<times> 'v) list \<Rightarrow> (string \<times> 'v) list" where
  "sorted_entries m = map (\<lambda>k. (k, the (map_of m k))) (sorted_keys m)"

definition validateEnv ::
  "env_label \<Rightarrow> (string \<times> string) list \<Rightarrow> problem list \<times> (string \<times> string) list" where
  "validateEnv label raw =
     (if length raw = 0 then ([], [])
      else if length raw > MaxEnvVars then ([EnvTooMany label (length raw)], [])
      else
        let entries = sorted_entries raw in
        (List.map_filter (\<lambda>e. map_option (EnvProblem label (fst e)) (check_env e)) entries,
         filter (\<lambda>e. check_env e = None) entries))"

definition targetNamePattern :: "string \<Rightarrow> bool" where
  "targetNamePattern s \<longleftrightarrow>
     (case s of
        [] \<Rightarrow> False
      | c # rest \<Rightarrow> is_lower c \<and>
          list_all (\<lambda>c. is_lower c \<or> is_digit c \<or> c = CHR ''_'' \<or> c = CHR ''-'') rest)"

definition when_of :: "WhenKind \<Rightarrow> When" where
  "when_of k = \<lparr>w_Kind = k, w_Name = []\<rparr>"

definition parseWhen :: "string \<Rightarrow> string list \<Rightarrow> When option" where
  "parseWhen raw targetNames =
     (if raw = [] \<or> raw = ''always'' then Some (when_of WhenAlways)
      else if raw = ''target'' then Some (when_of WhenTarget)
      else if raw = ''branch'' then Some (when_of WhenBranch)
      else if raw = ''tag'' then Some (when_of WhenTag)
      else if raw \<notin> set targetNames then None
      else Some \<lparr>w_Kind = WhenNamed, w_Name = raw\<rparr>)"

text \<open>
  \<open>validate\<close>, section by section, in the order of the source: each section yields the
  problems it reports and the part of the configuration it fills.
\<close>

definition validate_image :: "string \<Rightarrow> problem list \<times> string" where
  "validate_image raw =
     (let img = trim_space raw in
      if img = [] then ([ImageRequired], [])
      else if \<not> imageRefPattern img then ([ImageInvalid img], [])
      else ([], img))"

definition validate_timeout ::
  "(string \<Rightarrow> (duration_error, int) result) \<Rightarrow> string \<Rightarrow> problem list \<times> int" where
  "validate_timeout duration raw =
     (let timeout = trim_space raw in
      if timeout = [] then ([], 0)
      else case duration timeout of
             Inl MissingUnit \<Rightarrow> ([TimeoutProblem (TimeoutUnit timeout)], 0)
           | Inl BadDuration \<Rightarrow> ([TimeoutProblem (TimeoutInvalid timeout)], 0)
           | Inr d \<Rightarrow>
               if d \<le> 0 then ([TimeoutProblem TimeoutNotPositive], 0)
               else if d > MaxTimeout then ([TimeoutProblem (TimeoutTooLong d)], 0)
               else ([], d))"

text \<open>The loop over \<open>requires\<close>; the entries accepted so far are also \<open>seenRequires\<close>.\<close>

fun validate_requires :: "nat \<Rightarrow> string list \<Rightarrow> string list \<Rightarrow> problem list \<times> string list" where
  "validate_requires i seen [] = ([], [])"
| "validate_requires i seen (raw # rest) =
     (let r = trim_space raw;
          p = (if r = [] then Some RequireEmpty
               else if \<not> imageRefPattern r then Some (RequireInvalid r)
               else if r \<in> set seen then Some (RequireTwice r)
               else None)
      in case p of
           Some p \<Rightarrow>
             let (ps, out) = validate_requires (Suc i) seen rest in (RequireProblem i p # ps, out)
         | None \<Rightarrow>
             let (ps, out) = validate_requires (Suc i) (r # seen) rest in (ps, r # out))"

definition required_repositories :: "string \<Rightarrow> string list \<Rightarrow> (string \<times> require_source) list" where
  "required_repositories img requires =
     map (\<lambda>r. (NormalizeImageRepository r, FromRequires)) requires @
     (if img \<noteq> [] then [(NormalizeImageRepository img, FromImage)] else [])"

definition check_image ::
  "(string \<times> require_source) list \<Rightarrow> (string \<times> int) list \<Rightarrow> string \<Rightarrow> int option \<Rightarrow>
     (image_problem, string \<times> int) result" where
  "check_image required images repository keep =
     (case validateImageRepository repository of
        Inl p \<Rightarrow> Inl (ImageRepository p)
      | Inr _ \<Rightarrow>
          let canonical = NormalizeImageRepository repository in
          if map_of images canonical \<noteq> None then Inl (ImageSame canonical)
          else case map_of required canonical of
            Some source \<Rightarrow> Inl (ImageConflict source)
          | None \<Rightarrow>
              (case keep of
                 None \<Rightarrow> Inl ImageKeepMissing
               | Some k \<Rightarrow>
                   if k < MinImageKeep \<or> k > MaxImageKeep then Inl ImageKeepRange
                   else Inr (canonical, k)))"

fun validate_images ::
  "(string \<times> require_source) list \<Rightarrow> (string \<times> int) list \<Rightarrow> (string \<times> int option) list \<Rightarrow>
     problem list \<times> (string \<times> int) list" where
  "validate_images required images [] = ([], images)"
| "validate_images required images ((rawRepository, keep) # rest) =
     (let repository = trim_space rawRepository in
      case check_image required images repository keep of
        Inl p \<Rightarrow>
          let (ps, out) = validate_images required images rest
          in (ImageProblem repository p # ps, out)
      | Inr entry \<Rightarrow> validate_images required (images @ [entry]) rest)"

text \<open>\<open>seenTargetPatterns\<close> is the list of the targets accepted so far, by kind and pattern.\<close>

definition check_target ::
  "(string \<times> Target) list \<Rightarrow> string \<Rightarrow> rawTarget \<Rightarrow> (target_problem, Kind \<times> string) result" where
  "check_target targets name rt =
     (if \<not> targetNamePattern name then Inl TargetName
      else
        let hasBranch = trim_space (rt_Branch rt) \<noteq> []; hasTag = trim_space (rt_Tag rt) \<noteq> [] in
        if hasBranch = hasTag then Inl TargetKind
        else
          let kind = (if hasBranch then KindBranch else KindTag);
              pattern = trim_space (if hasBranch then rt_Branch rt else rt_Tag rt)
          in case ValidatePattern pattern of
               Inl err \<Rightarrow> Inl (TargetPattern err)
             | Inr _ \<Rightarrow>
                 (case find (\<lambda>(_, t). t_Kind t = kind \<and> t_Pattern t = pattern) targets of
                    Some (other, _) \<Rightarrow> Inl (TargetSame kind pattern other)
                  | None \<Rightarrow> Inr (kind, pattern)))"

fun validate_targets ::
  "(string \<times> Target) list \<Rightarrow> (string \<times> rawTarget) list \<Rightarrow> problem list \<times> (string \<times> Target) list" where
  "validate_targets targets [] = ([], targets)"
| "validate_targets targets ((name, rt) # rest) =
     (case check_target targets name rt of
        Inl p \<Rightarrow>
          let (ps, out) = validate_targets targets rest in (TargetProblem name p # ps, out)
      | Inr (kind, pattern) \<Rightarrow>
          let (eps, env) = validateEnv (TargetEnvLabel name) (rt_Env rt);
              target = \<lparr>t_Kind = kind, t_Pattern = pattern, t_Env = env\<rparr>;
              (ps, out) = validate_targets (targets @ [(name, target)]) rest
          in (eps @ ps, out))"

fun step_kind :: "string \<Rightarrow> StepKind option" where
  "step_kind s =
     (if s = [] \<or> s = ''run'' then Some StepRun else if s = ''deploy'' then Some StepDeploy else None)"

text \<open>
  One step: the name checks, after which the name counts as seen, then the rest. A deploy
  step that breaks a rule is reported and still appended.
\<close>

definition check_step_name :: "string list \<Rightarrow> string \<Rightarrow> step_problem option" where
  "check_step_name seen name =
     (if name = [] then Some StepNameEmpty
      else if rune_count name > MaxStepNameLen then Some StepNameLong
      else if has_control name then Some (StepNameControl name)
      else if name \<in> set seen then Some (StepNameTwice name)
      else None)"

definition check_step_body ::
  "string list \<Rightarrow> string \<Rightarrow> rawStep \<Rightarrow> (step_problem, StepKind \<times> When) result" where
  "check_step_body targetNames name rs =
     (if trim_space (rs_Run rs) = [] then Inl (StepRunEmpty name)
      else if length (rs_Run rs) > MaxRunBytes then Inl (StepRunLong name (length (rs_Run rs)))
      else if CHR 0x00 \<in> set (rs_Run rs) then Inl (StepRunNul name)
      else case parseWhen (trim_space (rs_When rs)) targetNames of
             None \<Rightarrow> Inl (StepWhen name (trim_space (rs_When rs)))
           | Some wh \<Rightarrow>
               (case step_kind (rs_Type rs) of
                  None \<Rightarrow> Inl (StepType name)
                | Some kind \<Rightarrow> Inr (kind, wh)))"

definition deploy_problems :: "nat \<Rightarrow> nat \<Rightarrow> string \<Rightarrow> When \<Rightarrow> string list \<Rightarrow> problem list" where
  "deploy_problems i deployCount name wh targetNames =
     (if deployCount > 1 then [DeployTwice] else []) @
     (if w_Kind wh \<noteq> WhenTarget \<and> w_Kind wh \<noteq> WhenNamed then [StepProblem i (DeployWhen name)] else []) @
     (if length targetNames = 0 then [StepProblem i (DeployNoTarget name)] else [])"

fun validate_steps ::
  "string list \<Rightarrow> nat \<Rightarrow> string list \<Rightarrow> nat \<Rightarrow> rawStep list \<Rightarrow> problem list \<times> Step list" where
  "validate_steps targetNames i seen deployCount [] = ([], [])"
| "validate_steps targetNames i seen deployCount (rs # rest) =
     (let name = trim_space (rs_Name rs) in
      case check_step_name seen name of
        Some p \<Rightarrow>
          let (ps, out) = validate_steps targetNames (Suc i) seen deployCount rest
          in (StepProblem i p # ps, out)
      | None \<Rightarrow>
          (case check_step_body targetNames name rs of
             Inl p \<Rightarrow>
               let (ps, out) = validate_steps targetNames (Suc i) (name # seen) deployCount rest
               in (StepProblem i p # ps, out)
           | Inr (kind, wh) \<Rightarrow>
               let deployCount = (if kind = StepDeploy then deployCount + 1 else deployCount);
                   dps = (if kind = StepDeploy then deploy_problems i deployCount name wh targetNames else []);
                   step = \<lparr>st_Type = kind, st_Name = name, st_When = wh, st_Run = rs_Run rs\<rparr>;
                   (ps, out) = validate_steps targetNames (Suc i) (name # seen) deployCount rest
               in (dps @ ps, step # out)))"

definition limit_list :: "nat \<Rightarrow> (nat \<Rightarrow> problem) \<Rightarrow> 'a list \<Rightarrow> problem list \<times> 'a list" where
  "limit_list limit p xs = (if length xs > limit then ([p (length xs)], []) else ([], xs))"

definition limit_steps :: "rawStep list \<Rightarrow> problem list \<times> rawStep list" where
  "limit_steps raw =
     (if length raw = 0 then ([StepsNone], []) else limit_list MaxSteps StepsTooMany raw)"

definition validate ::
  "(string \<Rightarrow> (duration_error, int) result) \<Rightarrow> rawConfig \<Rightarrow> (problem list, Config) result" where
  "validate duration raw =
     (let (p1, img) = validate_image (raw_Image raw);
          (p2, timeout) = validate_timeout duration (raw_Timeout raw);
          (p3, rawRequires) = limit_list MaxRequires RequiresTooMany (raw_Requires raw);
          (p4, requires) = validate_requires 0 [] rawRequires;
          required = required_repositories img requires;
          (p5, rawImages) = limit_list MaxImages ImagesTooMany (raw_Images raw);
          (p6, images) = validate_images required [] (sorted_entries rawImages);
          (p7, env) = validateEnv EnvLabel (raw_Env raw);
          (p8, rawTargets) = limit_list MaxTargets TargetsTooMany (raw_Targets raw);
          (p9, targets) = validate_targets [] (sorted_entries rawTargets);
          targetNames = map fst targets;
          (p10, rawSteps) = limit_steps (raw_Steps raw);
          (p11, steps) = validate_steps targetNames 0 [] 0 rawSteps;
          errs = p1 @ p2 @ p3 @ p4 @ p5 @ p6 @ p7 @ p8 @ p9 @ p10 @ p11
      in if errs \<noteq> [] then Inl errs
         else Inr \<lparr>c_Image = img, c_Docker = raw_Docker raw, c_Timeout = timeout,
                c_Requires = requires, c_Images = images, c_Env = env, c_Targets = targets,
                c_Steps = steps\<rparr>)"

datatype 'a decoded = Document 'a | EndOfFile | Malformed

datatype parse_error = FileTooLarge nat | FileEmpty | FileMalformed | FileDocuments | FileInvalid "problem list"

text \<open>
  \<open>yaml data\<close> is what the decoder returns for the first and for the second document.
\<close>

definition Parse ::
  "(string \<Rightarrow> rawConfig decoded \<times> unit decoded) \<Rightarrow> (string \<Rightarrow> (duration_error, int) result) \<Rightarrow>
     string \<Rightarrow> (parse_error, Config) result" where
  "Parse yaml duration data =
     (if length data > MaxFileBytes then Inl (FileTooLarge (length data))
      else case yaml data of
             (EndOfFile, _) \<Rightarrow> Inl FileEmpty
           | (Malformed, _) \<Rightarrow> Inl FileMalformed
           | (Document raw, extra) \<Rightarrow>
               (case extra of
                  Document _ \<Rightarrow> Inl FileDocuments
                | Malformed \<Rightarrow> Inl FileMalformed
                | EndOfFile \<Rightarrow> map_error FileInvalid (validate duration raw)))"

end
