(* ===== verification/Pipeline_Facts.thy ===== *)
theory Pipeline_Facts
  imports Pipeline
begin

text \<open>
  What a pipeline file that \<open>Parse\<close> accepts guarantees everything downstream, and the
  behaviour of targets, versions and environments built on those guarantees.
\<close>

section \<open>Well-formed configurations\<close>

definition wf_env :: "(string \<times> string) list \<Rightarrow> bool" where
  "wf_env env \<longleftrightarrow>
     distinct (map fst env) \<and> length env \<le> MaxEnvVars \<and>
     list_all (\<lambda>(k, v). envKeyPattern k \<and> \<not> prefix ''GITMAN_'' k \<and> length v \<le> MaxEnvValueLen \<and>
       \<not> has_control v) env"

definition wf_targets :: "(string \<times> Target) list \<Rightarrow> bool" where
  "wf_targets ts \<longleftrightarrow>
     distinct (map fst ts) \<and> distinct (map (\<lambda>(_, t). (t_Kind t, t_Pattern t)) ts) \<and>
     list_all (\<lambda>(n, t). targetNamePattern n \<and> valid_kind (t_Kind t) \<and>
       ValidatePattern (t_Pattern t) = ok () \<and> wf_env (t_Env t)) ts"

definition wf_step :: "string list \<Rightarrow> Step \<Rightarrow> bool" where
  "wf_step targetNames s \<longleftrightarrow>
     st_Name s \<noteq> [] \<and> rune_count (st_Name s) \<le> MaxStepNameLen \<and> \<not> has_control (st_Name s) \<and>
     trim_space (st_Run s) \<noteq> [] \<and> length (st_Run s) \<le> MaxRunBytes \<and>
     CHR 0x00 \<notin> set (st_Run s) \<and>
     (w_Kind (st_When s) = WhenNamed \<longrightarrow> w_Name (st_When s) \<in> set targetNames) \<and>
     (st_Type s = StepDeploy \<longrightarrow>
        w_Kind (st_When s) \<in> {WhenTarget, WhenNamed} \<and> targetNames \<noteq> [])"

definition wf_steps :: "string list \<Rightarrow> Step list \<Rightarrow> bool" where
  "wf_steps targetNames steps \<longleftrightarrow>
     distinct (map st_Name steps) \<and> list_all (wf_step targetNames) steps \<and>
     length (filter (\<lambda>s. st_Type s = StepDeploy) steps) \<le> 1"

definition wf_images :: "(string \<times> require_source) list \<Rightarrow> (string \<times> int) list \<Rightarrow> bool" where
  "wf_images required images \<longleftrightarrow>
     distinct (map fst images) \<and>
     list_all (\<lambda>(r, k). r \<notin> fst ` set required \<and> MinImageKeep \<le> k \<and> k \<le> MaxImageKeep) images"

definition config_wf :: "Config \<Rightarrow> bool" where
  "config_wf c \<longleftrightarrow>
     imageRefPattern (c_Image c) \<and> 0 \<le> c_Timeout c \<and> c_Timeout c \<le> MaxTimeout \<and>
     distinct (c_Requires c) \<and> length (c_Requires c) \<le> MaxRequires \<and>
     list_all imageRefPattern (c_Requires c) \<and>
     length (c_Images c) \<le> MaxImages \<and>
     wf_images (required_repositories (c_Image c) (c_Requires c)) (c_Images c) \<and>
     wf_env (c_Env c) \<and>
     length (c_Targets c) \<le> MaxTargets \<and> wf_targets (c_Targets c) \<and>
     0 < length (c_Steps c) \<and> length (c_Steps c) \<le> MaxSteps \<and>
     wf_steps (map fst (c_Targets c)) (c_Steps c)"

text \<open>A decoded file holds Go maps: no key occurs twice.\<close>

definition raw_wf :: "rawConfig \<Rightarrow> bool" where
  "raw_wf raw \<longleftrightarrow>
     distinct (map fst (raw_Images raw)) \<and> distinct (map fst (raw_Env raw)) \<and>
     distinct (map fst (raw_Targets raw)) \<and>
     list_all (\<lambda>(_, t). distinct (map fst (rt_Env t))) (raw_Targets raw)"

section \<open>Section by section\<close>

lemma fst_sorted_entries [simp]: "map fst (sorted_entries m) = sorted_keys m"
  by (simp add: sorted_entries_def comp_def)

lemma length_sorted_entries [simp]: "length (sorted_entries m) = length m"
  by (simp add: sorted_entries_def)

lemma set_sorted_entries: "distinct (map fst m) \<Longrightarrow> set (sorted_entries m) = set m"
  by (force simp: sorted_entries_def)

lemma sorted_entries_Nil [simp]: "sorted_entries [] = []"
  by (simp add: sorted_entries_def sorted_keys_def)

lemma map_filter_Nil: "List.map_filter f xs = [] \<longleftrightarrow> (\<forall>x \<in> set xs. f x = None)"
  by (induction xs) (auto simp: List.map_filter_def)

lemma check_env_None:
  "check_env (k, v) = None \<longleftrightarrow>
     envKeyPattern k \<and> \<not> prefix ''GITMAN_'' k \<and> length v \<le> MaxEnvValueLen \<and> \<not> has_control v"
  by (auto simp: check_env_def)

text \<open>An accepted environment is the whole map of the file, nothing dropped.\<close>

lemma validateEnv_ok:
  assumes "validateEnv l raw = ([], env)" "distinct (map fst raw)"
  shows "wf_env env" "set env = set raw"
proof -
  have "env = sorted_entries raw \<and> length raw \<le> MaxEnvVars \<and>
      (\<forall>e \<in> set (sorted_entries raw). check_env e = None)"
    using assms(1) by (auto simp: validateEnv_def Let_def map_filter_Nil split: if_splits)
  then show "wf_env env" "set env = set raw"
    using assms(2) set_sorted_entries [OF assms(2)]
    by (auto simp: wf_env_def list_all_iff check_env_None)
qed

lemma validate_image_ok: "validate_image raw = ([], img) \<Longrightarrow> imageRefPattern img"
  by (auto simp: validate_image_def Let_def split: if_splits)

lemma validate_timeout_ok:
  "validate_timeout duration raw = ([], t) \<Longrightarrow> 0 \<le> t \<and> t \<le> MaxTimeout"
  by (auto simp: validate_timeout_def Let_def pipeline_limits
      split: if_splits sum.splits duration_error.splits)

lemma validate_requires_ok:
  "validate_requires i seen raws = ([], out) \<Longrightarrow>
     distinct out \<and> set out \<inter> set seen = {} \<and> length out = length raws \<and> list_all imageRefPattern out"
proof (induction raws arbitrary: i seen out)
  case (Cons raw rest)
  let ?r = "trim_space raw"
  from Cons.prems have ok: "?r \<noteq> []" "imageRefPattern ?r" "?r \<notin> set seen"
    by (auto simp: Let_def split: if_splits prod.splits)
  with Cons.prems obtain out' where
    out: "validate_requires (Suc i) (?r # seen) rest = ([], out')" "out = ?r # out'"
    by (auto simp: Let_def split: prod.splits)
  from Cons.IH [OF out(1)] ok out(2) show ?case by auto
qed simp

lemma check_image_ok:
  "check_image required images repository keep = Inr (r, k) \<Longrightarrow>
     r \<notin> fst ` set images \<and> r \<notin> fst ` set required \<and> MinImageKeep \<le> k \<and> k \<le> MaxImageKeep"
  by (auto simp: check_image_def Let_def map_of_eq_None_iff split: sum.splits if_splits option.splits)

lemma validate_images_ok:
  "validate_images required images raws = ([], out) \<Longrightarrow> wf_images required images \<Longrightarrow>
     wf_images required out \<and> length out = length images + length raws"
proof (induction required images raws arbitrary: out rule: validate_images.induct)
  case (2 required images rawRepository keep rest)
  from 2(3) obtain r k where rk: "check_image required images (trim_space rawRepository) keep = Inr (r, k)"
    by (auto simp: Let_def split: sum.splits prod.splits)
  then have "wf_images required (images @ [(r, k)])"
    using 2(4) check_image_ok by (auto simp: wf_images_def)
  with rk 2 show ?case by (auto simp: Let_def)
qed auto

lemma check_target_ok:
  assumes "check_target targets name rt = Inr (kind, pattern)"
  shows "targetNamePattern name" "valid_kind kind" "ValidatePattern pattern = ok ()"
    "(kind, pattern) \<notin> (\<lambda>(_, t). (t_Kind t, t_Pattern t)) ` set targets"
proof -
  have *: "targetNamePattern name \<and> valid_kind kind \<and> ValidatePattern pattern = ok () \<and>
      find (\<lambda>(_, t). t_Kind t = kind \<and> t_Pattern t = pattern) targets = None"
    using assms by (auto simp: check_target_def Let_def is_ok_unit split: if_splits sum.splits option.splits)
  then show "targetNamePattern name" "valid_kind kind" "ValidatePattern pattern = ok ()" by auto
  show "(kind, pattern) \<notin> (\<lambda>(_, t). (t_Kind t, t_Pattern t)) ` set targets"
    using * by (auto simp: find_None_iff)
qed

lemma validate_targets_ok:
  "validate_targets targets raws = ([], out) \<Longrightarrow> wf_targets targets \<Longrightarrow>
     distinct (map fst targets @ map fst raws) \<Longrightarrow>
     list_all (\<lambda>(_, t). distinct (map fst (rt_Env t))) raws \<Longrightarrow>
     wf_targets out \<and> map fst out = map fst targets @ map fst raws"
proof (induction raws arbitrary: targets out)
  case (Cons raw rest)
  obtain name rt where raw: "raw = (name, rt)" by fastforce
  with Cons.prems(1) obtain kind pattern where kp: "check_target targets name rt = Inr (kind, pattern)"
    by (auto split: sum.splits prod.splits)
  obtain eps env where env: "validateEnv (TargetEnvLabel name) (rt_Env rt) = (eps, env)" by fastforce
  let ?t = "\<lparr>t_Kind = kind, t_Pattern = pattern, t_Env = env\<rparr>"
  have ok: "eps = []" "validate_targets (targets @ [(name, ?t)]) rest = ([], out)"
    using Cons.prems(1) raw kp env by (auto split: prod.splits)
  have "wf_env env" using validateEnv_ok(1) env ok(1) Cons.prems(4) raw by auto
  then have "wf_targets (targets @ [(name, ?t)])"
    using Cons.prems(2,3) raw check_target_ok [OF kp] by (auto simp: wf_targets_def)
  from Cons.IH [OF ok(2) this] Cons.prems(3,4) raw show ?case by auto
qed simp

lemma parseWhen_named:
  "parseWhen raw names = Some w \<Longrightarrow> w_Kind w = WhenNamed \<Longrightarrow> w_Name w \<in> set names"
  by (auto simp: parseWhen_def when_of_def split: if_splits)

lemma check_step_body_ok:
  assumes "check_step_body names name rs = Inr (kind, wh)"
  shows "trim_space (rs_Run rs) \<noteq> []" "length (rs_Run rs) \<le> MaxRunBytes"
    "CHR 0x00 \<notin> set (rs_Run rs)" "w_Kind wh = WhenNamed \<Longrightarrow> w_Name wh \<in> set names"
  using assms parseWhen_named
  by (auto simp: check_step_body_def simp del: step_kind.simps split: if_splits option.splits)

text \<open>The steps that are left, given the names seen and the deploy steps counted so far.\<close>

lemma validate_steps_ok:
  "validate_steps names i seen n raws = ([], out) \<Longrightarrow>
     distinct (map st_Name out) \<and> set (map st_Name out) \<inter> set seen = {} \<and>
     list_all (wf_step names) out \<and> length out = length raws \<and>
     (filter (\<lambda>s. st_Type s = StepDeploy) out \<noteq> [] \<longrightarrow>
        n + length (filter (\<lambda>s. st_Type s = StepDeploy) out) \<le> 1)"
proof (induction raws arbitrary: i seen n out)
  case (Cons rs rest)
  let ?name = "trim_space (rs_Name rs)"
  have nm: "check_step_name seen ?name = None"
    using Cons.prems by (auto simp: Let_def split: option.splits prod.splits)
  then obtain kind wh where kw: "check_step_body names ?name rs = Inr (kind, wh)"
    using Cons.prems by (auto simp: Let_def split: sum.splits prod.splits)
  let ?n = "if kind = StepDeploy then n + 1 else n"
  let ?step = "\<lparr>st_Type = kind, st_Name = ?name, st_When = wh, st_Run = rs_Run rs\<rparr>"
  obtain out' where out: "validate_steps names (Suc i) (?name # seen) ?n rest = ([], out')"
      "out = ?step # out'" "kind = StepDeploy \<longrightarrow> deploy_problems i (n + 1) ?name wh names = []"
    using Cons.prems nm kw by (auto simp: Let_def split: prod.splits if_splits)
  have "wf_step names ?step"
    using nm check_step_body_ok [OF kw] out(3)
    by (auto simp: wf_step_def check_step_name_def deploy_problems_def split: if_splits)
  moreover have "?name \<notin> set seen" using nm by (auto simp: check_step_name_def split: if_splits)
  moreover have "kind = StepDeploy \<Longrightarrow> n = 0"
    using out(3) by (auto simp: deploy_problems_def split: if_splits)
  ultimately show ?case using Cons.IH [OF out(1)] out(2) by (auto split: if_splits)
qed simp

lemma limit_list_ok: "limit_list m p xs = ([], ys) \<longleftrightarrow> ys = xs \<and> length xs \<le> m"
  by (auto simp: limit_list_def)

lemma validate_ok:
  assumes v: "validate duration raw = Inr c" and raw: "raw_wf raw"
  shows "config_wf c"
proof -
  obtain p1 img where 1: "validate_image (raw_Image raw) = (p1, img)" by fastforce
  obtain p2 timeout where 2: "validate_timeout duration (raw_Timeout raw) = (p2, timeout)" by fastforce
  obtain p3 rr where 3: "limit_list MaxRequires RequiresTooMany (raw_Requires raw) = (p3, rr)" by fastforce
  obtain p4 requires where 4: "validate_requires 0 [] rr = (p4, requires)" by fastforce
  let ?req = "required_repositories img requires"
  obtain p5 ri where 5: "limit_list MaxImages ImagesTooMany (raw_Images raw) = (p5, ri)" by fastforce
  obtain p6 images where 6: "validate_images ?req [] (sorted_entries ri) = (p6, images)" by fastforce
  obtain p7 env where 7: "validateEnv EnvLabel (raw_Env raw) = (p7, env)" by fastforce
  obtain p8 rt where 8: "limit_list MaxTargets TargetsTooMany (raw_Targets raw) = (p8, rt)" by fastforce
  obtain p9 targets where 9: "validate_targets [] (sorted_entries rt) = (p9, targets)" by fastforce
  obtain p10 rs where 10: "limit_steps (raw_Steps raw) = (p10, rs)" by fastforce
  obtain p11 steps where 11: "validate_steps (map fst targets) 0 [] 0 rs = (p11, steps)" by fastforce
  have "validate duration raw =
      (if p1 @ p2 @ p3 @ p4 @ p5 @ p6 @ p7 @ p8 @ p9 @ p10 @ p11 \<noteq> []
       then Inl (p1 @ p2 @ p3 @ p4 @ p5 @ p6 @ p7 @ p8 @ p9 @ p10 @ p11)
       else Inr \<lparr>c_Image = img, c_Docker = raw_Docker raw, c_Timeout = timeout, c_Requires = requires,
         c_Images = images, c_Env = env, c_Targets = targets, c_Steps = steps\<rparr>)"
    by (simp only: validate_def Let_def 1 2 3 4 5 6 7 8 9 10 11 prod.case)
  with v have p: "p1 = []" "p2 = []" "p3 = []" "p4 = []" "p5 = []" "p6 = []" "p7 = []" "p8 = []"
      "p9 = []" "p10 = []" "p11 = []"
    and c: "c = \<lparr>c_Image = img, c_Docker = raw_Docker raw, c_Timeout = timeout, c_Requires = requires,
      c_Images = images, c_Env = env, c_Targets = targets, c_Steps = steps\<rparr>"
    by (simp_all split: if_splits)
  note r = raw [unfolded raw_wf_def]
  have rr: "rr = raw_Requires raw" "length rr \<le> MaxRequires" "ri = raw_Images raw" "length ri \<le> MaxImages"
    "rt = raw_Targets raw" "length rt \<le> MaxTargets"
    using 3 5 8 p by (auto simp: limit_list_ok)
  have st: "rs \<noteq> []" "length rs \<le> MaxSteps"
    using 10 p(10) by (auto simp: limit_steps_def limit_list_ok split: if_splits)
  have "wf_images ?req images" "length images \<le> MaxImages"
    using validate_images_ok [of ?req "[]" "sorted_entries ri" images] 6 p(6) rr
    by (auto simp: wf_images_def)
  moreover have "wf_targets targets" "length targets = length rt"
  proof -
    have "list_all (\<lambda>(_, t). distinct (map fst (rt_Env t))) (sorted_entries rt)"
      using r rr(5) set_sorted_entries [of rt] by (simp add: list_all_iff)
    then have "wf_targets targets \<and> map fst targets = map fst (sorted_entries rt)"
      using validate_targets_ok [of "[]" "sorted_entries rt" targets] 9 p(9) r rr(5)
      by (simp add: wf_targets_def)
    then show "wf_targets targets" "length targets = length rt"
      by (auto dest: arg_cong [of _ _ length])
  qed
  moreover have "wf_steps (map fst targets) steps" "length steps = length rs"
    using validate_steps_ok [OF 11 [unfolded p]] by (auto simp: wf_steps_def)
  moreover have "wf_env env" using validateEnv_ok(1) [OF 7 [unfolded p]] r by simp
  ultimately show ?thesis
    unfolding config_wf_def c
    using validate_image_ok [OF 1 [unfolded p]] validate_timeout_ok [OF 2 [unfolded p]]
      validate_requires_ok [OF 4 [unfolded p]] rr st by simp
qed

section \<open>Targets, versions and environments\<close>

lemma ResolveTarget_Some:
  assumes "ResolveTarget c kind name = Some n"
  shows "\<exists>t. (n, t) \<in> set (c_Targets c) \<and> t_Kind t = kind \<and> MatchPattern (t_Pattern t) name \<and>
    (\<forall>(m, u) \<in> set (c_Targets c). t_Kind u = kind \<longrightarrow> MatchPattern (t_Pattern u) name \<longrightarrow>
       \<not> Preferred (t_Pattern u) (t_Pattern t))"
proof -
  let ?ts = "filter (\<lambda>(_, target). t_Kind target = kind) (c_Targets c)"
  let ?ps = "map (\<lambda>(_, target). t_Pattern target) ?ts"
  obtain i where i: "SelectPattern ?ps name = Some i" "n = map fst ?ts ! i"
    using assms by (auto simp: ResolveTarget_def Let_def split: option.splits)
  note sel = SelectPattern_Some [OF i(1)]
  have len: "i < length ?ts" using sel(1) by simp
  obtain t where t: "?ts ! i = (n, t)" using i(2) len by (cases "?ts ! i") auto
  then have "(n, t) \<in> set ?ts" using len nth_mem by metis
  moreover have "?ps ! i = t_Pattern t" using len t by simp
  ultimately show ?thesis using sel(2,3) by (fastforce intro!: exI [of _ t])
qed

lemma ResolveTarget_None:
  "ResolveTarget c kind name = None \<longleftrightarrow>
     (\<forall>(m, u) \<in> set (c_Targets c). t_Kind u = kind \<longrightarrow> \<not> MatchPattern (t_Pattern u) name)"
proof -
  have "ResolveTarget c kind name = None \<longleftrightarrow>
      SelectPattern (map (\<lambda>(_, target). t_Pattern target)
        (filter (\<lambda>(_, target). t_Kind target = kind) (c_Targets c))) name = None"
    by (simp add: ResolveTarget_def Let_def split: option.splits)
  then show ?thesis by (auto simp: SelectPattern_None)
qed

lemma map_of_put_all: "map_of (put_all m out) = map_of out ++ map_of (rev m)"
  by (induction m arbitrary: out) (auto simp: put_all_def update_conv' map_add_upd_left)

lemma map_of_put_all_distinct:
  "distinct (map fst m) \<Longrightarrow> map_of (put_all m out) = map_of out ++ map_of m"
  using map_of_inject_set [of "rev m" m] by (simp add: map_of_put_all rev_map [symmetric])

lemma wf_env_no_builtin:
  "wf_env env \<Longrightarrow> prefix ''GITMAN_'' k \<Longrightarrow> map_of env k = None"
  by (force simp: wf_env_def list_all_iff map_of_eq_None_iff)

lemma Variables_builtin: "(k, v) \<in> set (Variables rc) \<Longrightarrow> prefix ''GITMAN_'' k"
  by (auto simp: Variables_def)

lemma distinct_Variables: "distinct (map fst (Variables rc))"
  by (simp add: Variables_def)

definition target_env :: "Config \<Rightarrow> RunContext \<Rightarrow> (string \<times> string) list" where
  "target_env c rc =
     (if rc_Target rc = [] then []
      else case map_of (c_Targets c) (rc_Target rc) of Some t \<Rightarrow> t_Env t | None \<Rightarrow> [])"

lemma wf_target_env: "config_wf c \<Longrightarrow> wf_env (target_env c rc)"
  by (auto simp: target_env_def config_wf_def wf_targets_def wf_env_def list_all_iff
      split: option.splits dest!: map_of_SomeD)

lemma map_of_ResolvedEnv:
  assumes "config_wf c"
  shows "map_of (ResolvedEnv c rc) =
    (map_of (Variables rc) ++ map_of (c_Env c)) ++ map_of (target_env c rc)"
proof -
  have "distinct (map fst (c_Env c))" "distinct (map fst (target_env c rc))"
    using assms wf_target_env [OF assms] by (auto simp: config_wf_def wf_env_def)
  then show ?thesis
    by (auto simp: ResolvedEnv_def target_env_def Let_def map_of_put_all_distinct
        distinct_Variables split: option.splits)
qed

lemma trim_ends:
  "trim P v = [] \<or> (\<not> P (hd (trim P v)) \<and> \<not> P (last (trim P v)))"
proof (cases "trim P v = []")
  case False
  let ?l = "dropWhile P v"
  have eq: "trim P v = rev (dropWhile P (rev ?l))" by (simp add: trim_def trim_left_def trim_right_def)
  have last: "\<not> P (last (trim P v))" using eq False hd_dropWhile [of P "rev ?l"] by (simp add: last_rev)
  have "prefix (trim P v) ?l"
    using suffix_dropWhile [of P "rev ?l"] by (simp add: trim_def trim_left_def trim_right_def suffix_to_prefix)
  moreover have "?l \<noteq> []" using False eq by (metis dropWhile.simps(1) rev.simps(1))
  ultimately have "hd (trim P v) = hd ?l" using False by (metis hd_append2 prefixE)
  then show ?thesis using last hd_dropWhile [OF \<open>?l \<noteq> []\<close>] by simp
qed simp

lemma set_trim: "set (trim P v) \<subseteq> set v"
  by (auto simp: trim_def trim_left_def trim_right_def dest!: set_dropWhileD)

lemma trim_right_hd:
  assumes "v \<noteq> []" "\<not> P (hd v)"
  shows "trim_right P v \<noteq> [] \<and> hd (trim_right P v) = hd v \<and> set (trim_right P v) \<subseteq> set v \<and>
    length (trim_right P v) \<le> length v"
proof -
  have p: "prefix (trim_right P v) v"
    using suffix_dropWhile [of P "rev v"] by (simp add: trim_right_def suffix_to_prefix)
  moreover have "trim_right P v \<noteq> []"
    using assms by (auto simp: trim_right_def dropWhile_eq_Nil_conv)
  ultimately show ?thesis
    using set_mono_prefix [OF p] prefix_length_le [OF p] by (metis hd_append2 prefixE)
qed

definition tag_char :: "char \<Rightarrow> bool" where
  "tag_char c \<longleftrightarrow> version_safe (code c)"

lemma sanitizeVersion_shape:
  assumes "sanitizeVersion raw \<noteq> []"
  shows "list_all tag_char (sanitizeVersion raw)" "length (sanitizeVersion raw) \<le> 128"
    "\<not> dot_dash (hd (sanitizeVersion raw))"
proof -
  let ?m = "map (\<lambda>r. if version_safe r then char_of r else CHR ''-'') (runes raw)"
  let ?v = "trim dot_dash ?m"
  have safe: "tag_char c" if "c \<in> set ?m" for c
    using that by (auto simp: tag_char_def version_safe_def)
  have ne: "?v \<noteq> []" using assms by (auto simp: sanitizeVersion_def Let_def trim_right_def)
  have hd: "\<not> dot_dash (hd ?v)" using trim_ends [of dot_dash ?m] ne by blast
  have v: "set ?v \<subseteq> set ?m" by (rule set_trim)
  show "list_all tag_char (sanitizeVersion raw)" "length (sanitizeVersion raw) \<le> 128"
    "\<not> dot_dash (hd (sanitizeVersion raw))"
  proof -
    have *: "list_all tag_char (sanitizeVersion raw) \<and> length (sanitizeVersion raw) \<le> 128 \<and>
        \<not> dot_dash (hd (sanitizeVersion raw))"
    proof (cases "length ?v > 128")
      case True
      have t: "take 128 ?v \<noteq> []" "hd (take 128 ?v) = hd ?v" using ne by (cases ?v; simp)+
      note tr = trim_right_hd [of "take 128 ?v" dot_dash, OF t(1)]
      have "set (take 128 ?v) \<subseteq> set ?m" using v set_take_subset by fast
      with True tr t(2) hd safe show ?thesis
        by (simp add: sanitizeVersion_def Let_def list_all_iff subset_iff)
    next
      case False
      with hd safe v show ?thesis by (simp add: sanitizeVersion_def Let_def list_all_iff subset_iff)
    qed
    then show "list_all tag_char (sanitizeVersion raw)" "length (sanitizeVersion raw) \<le> 128"
      "\<not> dot_dash (hd (sanitizeVersion raw))" by auto
  qed
qed

section \<open>Properties\<close>

definition sample_raw :: rawConfig where
  "sample_raw =
     \<lparr>raw_Image = ''golang:1.25'', raw_Docker = True, raw_Timeout = [], raw_Requires = [''postgres:18''],
      raw_Images = [(''team/app'', Some 3)], raw_Env = [(''MODE'', ''ci'')],
      raw_Targets = [(''prod'', \<lparr>rt_Branch = [], rt_Tag = ''v*'', rt_Env = [(''MODE'', ''prod'')]\<rparr>)],
      raw_Steps =
        [\<lparr>rs_Type = [], rs_Name = ''test'', rs_When = [], rs_Run = ''go test''\<rparr>,
         \<lparr>rs_Type = ''deploy'', rs_Name = ''ship'', rs_When = ''prod'', rs_Run = ''./deploy''\<rparr>]\<rparr>"

definition sample_config :: Config where
  "sample_config =
     \<lparr>c_Image = ''golang:1.25'', c_Docker = True, c_Timeout = 0, c_Requires = [''postgres:18''],
      c_Images = [(''docker.io/team/app'', 3)], c_Env = [(''MODE'', ''ci'')],
      c_Targets = [(''prod'', \<lparr>t_Kind = KindTag, t_Pattern = ''v*'', t_Env = [(''MODE'', ''prod'')]\<rparr>)],
      c_Steps =
        [\<lparr>st_Type = StepRun, st_Name = ''test'', st_When = when_of WhenAlways, st_Run = ''go test''\<rparr>,
         \<lparr>st_Type = StepDeploy, st_Name = ''ship'',
          st_When = \<lparr>w_Kind = WhenNamed, w_Name = ''prod''\<rparr>, st_Run = ''./deploy''\<rparr>]\<rparr>"

lemma sample_trim:
  "trim_space ''golang:1.25'' = ''golang:1.25''" "trim_space ''postgres:18'' = ''postgres:18''"
  "trim_space ''team/app'' = ''team/app''" "trim_space ''v*'' = ''v*''" "trim_space [] = []"
  "trim_space ''test'' = ''test''" "trim_space ''ship'' = ''ship''" "trim_space ''prod'' = ''prod''"
  "trim_space ''go test'' = ''go test''" "trim_space ''./deploy'' = ''./deploy''"
  by code_simp+

lemma sample_checks:
  "imageRefPattern ''golang:1.25''" "imageRefPattern ''postgres:18''"
  "NormalizeImageRepository ''golang:1.25'' = ''docker.io/library/golang''"
  "NormalizeImageRepository ''postgres:18'' = ''docker.io/library/postgres''"
  "NormalizeImageRepository ''team/app'' = ''docker.io/team/app''"
  "validateImageRepository ''team/app'' = ok ()" "ValidatePattern ''v*'' = ok ()"
  "targetNamePattern ''prod''" "envKeyPattern ''MODE''" "\<not> has_control ''ci''" "\<not> has_control ''prod''"
  "\<not> has_control ''test''" "\<not> has_control ''ship''" "rune_count ''test'' = 4" "rune_count ''ship'' = 4"
  by code_simp+

lemma sample_sections:
  "validateEnv l [(''MODE'', ''ci'')] = ([], [(''MODE'', ''ci'')])"
  "validateEnv l [(''MODE'', ''prod'')] = ([], [(''MODE'', ''prod'')])"
  by (simp_all add: validateEnv_def sorted_entries_def sorted_keys_def check_env_def sample_checks
      pipeline_limits List.map_filter_def)

lemma sample_validate: "validate (\<lambda>_. Inl BadDuration) sample_raw = Inr sample_config"
  by (simp add: validate_def sample_raw_def sample_config_def validate_image_def validate_timeout_def limit_list_def
      limit_steps_def sorted_entries_def sorted_keys_def required_repositories_def check_image_def
      check_target_def check_step_name_def check_step_body_def parseWhen_def when_of_def deploy_problems_def
      sample_trim sample_checks sample_sections pipeline_limits Let_def)

lemma sample_raw_wf: "raw_wf sample_raw"
  by (simp add: raw_wf_def sample_raw_def)
lemma sample_config_wf: "config_wf sample_config"
  by (rule validate_ok [OF sample_validate sample_raw_wf])

text \<open>
  C20: a pipeline file that \<open>Parse\<close> accepts is well-formed in every respect the rest of
  Gitman relies on: all limits hold, step names, image repositories, targets and their
  patterns are unique, no built image is also required, environment keys are valid and never
  reserved, every condition names a declared target, and there is at most one deploy step,
  conditional on a target. The decoder is only assumed to build maps without duplicate keys.
\<close>

theorem Parse_well_formed:
  assumes "Parse yaml duration data = Inr c"
    and "\<And>raw extra. yaml data = (Document raw, extra) \<Longrightarrow> raw_wf raw"
  shows "config_wf c"
  using assms validate_ok
  by (auto simp: Parse_def split: if_splits decoded.splits prod.splits)

theorem Parse_well_formed_witness:
  "Parse (\<lambda>_. (Document sample_raw, EndOfFile)) (\<lambda>_. Inl BadDuration) ''image: x'' = Inr sample_config \<and>
   config_wf sample_config"
proof -
  have *: "Parse (\<lambda>_. (Document sample_raw, EndOfFile)) (\<lambda>_. Inl BadDuration) ''image: x'' = Inr sample_config"
    using sample_validate by (simp add: Parse_def MaxFileBytes_def)
  with Parse_well_formed [OF *] sample_raw_wf show ?thesis by simp
qed

text \<open>
  Although Go iterates over the targets in an unspecified order, the target of a run is
  determined: for a validated pipeline \<open>ResolveTarget\<close> gives the same name for every order of
  its targets.
\<close>

theorem ResolveTarget_order_independent:
  assumes "config_wf c" "set (c_Targets c') = set (c_Targets c)"
  shows "ResolveTarget c' kind name = ResolveTarget c kind name"
proof -
  have same: "ResolveTarget c' kind name = None \<longleftrightarrow> ResolveTarget c kind name = None"
    unfolding ResolveTarget_None assms(2) ..
  show ?thesis
  proof (cases "ResolveTarget c kind name")
    case None
    with same show ?thesis by metis
  next
    case (Some n)
    then obtain n' where n': "ResolveTarget c' kind name = Some n'"
      using same by (metis not_None_eq)
    obtain t t' where t: "(n, t) \<in> set (c_Targets c)" "(n', t') \<in> set (c_Targets c)"
        "t_Kind t = kind" "t_Kind t' = kind"
        "\<not> Preferred (t_Pattern t) (t_Pattern t')" "\<not> Preferred (t_Pattern t') (t_Pattern t)"
      using ResolveTarget_Some [OF Some] ResolveTarget_Some [OF n'] unfolding assms(2) by fast
    then have "t_Pattern t = t_Pattern t'" using preferred.total by blast
    moreover have "inj_on (\<lambda>(_, t). (t_Kind t, t_Pattern t)) (set (c_Targets c))"
      using assms(1) by (simp add: config_wf_def wf_targets_def distinct_map)
    ultimately have "(n, t) = (n', t')" using t(1-4) by (auto dest: inj_onD [of _ _ "(n, t)" "(n', t')"])
    then have "n = n'" by simp
    with Some n' show ?thesis by simp
  qed
qed

theorem ResolveTarget_order_independent_witness:
  "ResolveTarget (sample_config\<lparr>c_Targets := c_Targets sample_config @ c_Targets sample_config\<rparr>) KindTag ''v1'' =
     ResolveTarget sample_config KindTag ''v1''"
  by (rule ResolveTarget_order_independent [OF sample_config_wf]) simp

text \<open>
  In the environment of a run of a validated pipeline every built-in \<open>GITMAN_\<close>
  variable has the value Gitman gives it, whatever the file sets; apart from those, a key of
  the resolved target's environment overrides the shared environment.
\<close>

theorem ResolvedEnv_layers:
  assumes "config_wf c"
  shows "map_of (ResolvedEnv c rc) k =
    (case map_of (Variables rc) k of
       Some v \<Rightarrow> Some v
     | None \<Rightarrow> (case map_of (target_env c rc) k of
                  Some v \<Rightarrow> Some v
                | None \<Rightarrow> map_of (c_Env c) k))"
proof (cases "map_of (Variables rc) k")
  case None
  then show ?thesis
    by (simp add: map_of_ResolvedEnv [OF assms] map_add_def split: option.splits)
next
  case (Some v)
  then have k: "prefix ''GITMAN_'' k" by (blast dest: map_of_SomeD Variables_builtin)
  have "map_of (c_Env c) k = None" "map_of (target_env c rc) k = None"
    using wf_env_no_builtin [OF _ k] assms wf_target_env [OF assms] by (auto simp: config_wf_def)
  with Some show ?thesis by (simp add: map_of_ResolvedEnv [OF assms] map_add_def)
qed

definition sample_context :: RunContext where
  "sample_context =
     \<lparr>rc_Repo = ''app'', rc_RunNumber = 42, rc_Commit = ''0123456789abcdef0123'',
      rc_RefKind = KindTag, rc_RefName = ''v1'', rc_Target = ''prod''\<rparr>"

theorem ResolvedEnv_layers_witness:
  "map_of (ResolvedEnv sample_config sample_context) ''MODE'' = Some ''prod'' \<and>
   map_of (ResolvedEnv sample_config sample_context) ''GITMAN_RUN'' = Some ''42''"
proof -
  have "format_int 42 = ''42''" by code_simp
  then have "map_of (Variables sample_context) ''MODE'' = None"
    "map_of (target_env sample_config sample_context) ''MODE'' = Some ''prod''"
    "map_of (Variables sample_context) ''GITMAN_RUN'' = Some ''42''"
    by (simp_all add: Variables_def target_env_def sample_context_def sample_config_def)
  then show ?thesis by (simp add: ResolvedEnv_layers [OF sample_config_wf])
qed

text \<open>
  \<open>$GITMAN_VERSION\<close> is always usable as a Docker tag: it is not empty, at most 128
  characters long, made of letters, digits, dots, dashes and underscores only, and does not
  start with a dot or a dash.
\<close>

theorem Version_is_tag:
  assumes "rc_Commit rc \<noteq> []" "list_all is_hex_lower (rc_Commit rc)"
  shows "Version rc \<noteq> [] \<and> length (Version rc) \<le> 128 \<and> list_all tag_char (Version rc) \<and>
    \<not> dot_dash (hd (Version rc))"
proof (cases "rc_RefKind rc = KindTag \<and> sanitizeVersion (rc_RefName rc) \<noteq> []")
  case True
  then show ?thesis using sanitizeVersion_shape by (simp add: Version_def)
next
  case False
  let ?v = "firstN (rc_Commit rc) 12"
  have hex: "tag_char c \<and> \<not> dot_dash c" if "is_hex_lower c" for c
    using that by (auto simp: is_hex_lower_def tag_char_def version_safe_def is_digit_def dot_dash_def)
  have v: "?v \<noteq> []" "length ?v \<le> 128" "set ?v \<subseteq> set (rc_Commit rc)"
    using assms(1) by (auto simp: firstN_def dest: in_set_takeD)
  have all: "\<forall>c \<in> set ?v. is_hex_lower c" using v(3) assms(2) by (auto simp: list_all_iff)
  then have "is_hex_lower (hd ?v)" using v(1) by simp
  with all hex v(1,2) False show ?thesis by (simp add: Version_def list_all_iff)
qed

theorem Version_is_tag_witness:
  "Version (sample_context\<lparr>rc_RefName := ''release/v1+rc''\<rparr>) = ''release-v1-rc'' \<and>
   \<not> dot_dash (hd (Version (sample_context\<lparr>rc_RefName := ''release/v1+rc''\<rparr>)))"
proof -
  have "Version (sample_context\<lparr>rc_RefName := ''release/v1+rc''\<rparr>) = ''release-v1-rc''" by code_simp
  moreover have "list_all is_hex_lower (rc_Commit sample_context)" by code_simp
  moreover have "rc_Commit sample_context \<noteq> []" by code_simp
  ultimately show ?thesis
    using Version_is_tag [of "sample_context\<lparr>rc_RefName := ''release/v1+rc''\<rparr>"] by simp
qed

text \<open>
  In a validated pipeline a deploy step runs only when the run resolved to a target, and
  that target is declared in the file whenever the step names one.
\<close>

theorem deploy_step_needs_target:
  assumes "config_wf c" "s \<in> set (c_Steps c)" "st_Type s = StepDeploy"
    and "ShouldRun (st_When s) kind target"
  shows "target \<noteq> [] \<and> (w_Kind (st_When s) = WhenNamed \<longrightarrow> target \<in> fst ` set (c_Targets c))"
proof -
  have w: "wf_step (map fst (c_Targets c)) s"
    using assms(1,2) by (auto simp: config_wf_def wf_steps_def list_all_iff)
  have names: "\<forall>n \<in> fst ` set (c_Targets c). n \<noteq> []"
    using assms(1) by (auto simp: config_wf_def wf_targets_def list_all_iff targetNamePattern_def)
  from w assms(3) consider (target) "w_Kind (st_When s) = WhenTarget"
    | (named) "w_Kind (st_When s) = WhenNamed" "w_Name (st_When s) \<in> set (map fst (c_Targets c))"
    unfolding wf_step_def by blast
  then show ?thesis
  proof cases
    case target
    then show ?thesis using assms(4) by (simp add: ShouldRun_def)
  next
    case named
    then have "target \<in> fst ` set (c_Targets c)" using assms(4) by (simp add: ShouldRun_def)
    with bspec [OF names this] show ?thesis by simp
  qed
qed

theorem deploy_step_needs_target_witness:
  "\<not> ShouldRun (st_When (c_Steps sample_config ! 1)) KindBranch []"
proof
  assume run: "ShouldRun (st_When (c_Steps sample_config ! 1)) KindBranch []"
  have "c_Steps sample_config ! 1 \<in> set (c_Steps sample_config)"
    "st_Type (c_Steps sample_config ! 1) = StepDeploy" by (simp_all add: sample_config_def)
  from deploy_step_needs_target [OF sample_config_wf this run] show False by simp
qed

end
