(* ===== verification/Utf8_Facts.thy ===== *)
theory Utf8_Facts
  imports Gitman_Prelude
begin

text \<open>
  UTF-8 as \<open>utf8.DecodeRune\<close> and \<open>utf8.EncodeRune\<close> have it: decoding yields Unicode scalar
  values only, and gives back every scalar value that was encoded.
\<close>

text \<open>A Unicode scalar value.\<close>

definition valid_rune :: "nat \<Rightarrow> bool" where
  "valid_rune r \<longleftrightarrow> r < 55296 \<or> (57343 < r \<and> r < 1114112)"

lemma code_char_of_less: "n < 256 \<Longrightarrow> code (char_of n) = n"
  by simp

lemma decode_multi_valid: "valid_rune (fst (decode_multi bs))"
proof (cases bs rule: decode_multi.cases)
  case (1 b0 b1 rest)
  have e: "valid_rune rune_error" by (simp add: valid_rune_def rune_error_def)
  have 2: "valid_rune ((b0 - 192) * 64 + (b1 - 128))" if "rune2 b0 b1"
    using that by (auto simp: valid_rune_def rune2_def cont_def)
  have 3: "valid_rune ((b0 - 224) * 4096 + (b1 - 128) * 64 + (b2 - 128))" if "rune3 b0 b1 b2" for b2
    using that by (cases "b0 = 237"; cases "b0 < 237") (auto simp: valid_rune_def rune3_def cont_def split: if_splits)
  have 4: "valid_rune ((b0 - 240) * 262144 + (b1 - 128) * 4096 + (b2 - 128) * 64 + (b3 - 128))"
    if "rune4 b0 b1 b2 b3" for b2 b3
    using that by (cases "b0 = 244") (auto simp: valid_rune_def rune4_def cont_def split: if_splits)
  show ?thesis unfolding 1 using e 2 3 4 by (auto split: list.split)
qed (simp_all add: valid_rune_def rune_error_def)

lemma decode_rune_valid: "valid_rune (fst (decode_rune s))"
proof (cases s)
  case (Cons a t)
  then show ?thesis
    using decode_multi_valid [of "map code (a # take 3 t)"]
    by (auto simp: valid_rune_def simp del: decode_multi.simps list.map)
qed (simp add: valid_rune_def rune_error_def)

lemma runes_valid: "list_all valid_rune (runes s)"
proof (induction s rule: runes_widths.induct)
  case (1 s)
  then show ?case
    using decode_rune_valid [of s]
    by (cases "s = []") (simp_all add: runes_def runes_widths.simps [of s] runes_widths.simps [of "[]"])
qed

lemma base64_digits:
  "(r :: nat) div 4096 * 4096 + r div 64 mod 64 * 64 + r mod 64 = r"
  "r div 262144 * 262144 + r div 4096 mod 64 * 4096 + r div 64 mod 64 * 64 + r mod 64 = r"
proof -
  have d: "r div 4096 = r div 64 div 64" "r div 262144 = r div 64 div 64 div 64"
    by (simp_all add: div_mult2_eq [symmetric])
  note e = div_mult_mod_eq [of r 64] div_mult_mod_eq [of "r div 64" 64]
    div_mult_mod_eq [of "r div 64 div 64" 64]
  show "r div 4096 * 4096 + r div 64 mod 64 * 64 + r mod 64 = r"
    "r div 262144 * 262144 + r div 4096 mod 64 * 4096 + r div 64 mod 64 * 64 + r mod 64 = r"
    unfolding d using e by linarith+
qed

lemma decode_encode_rune:
  assumes "valid_rune r"
  shows "decode_rune (encode_rune r @ s) = (r, length (encode_rune r))"
proof -
  consider "r < 128" | "128 \<le> r" "r < 2048" | "2048 \<le> r" "r < 65536" | "65536 \<le> r" "r < 1114112"
    using assms by (fastforce simp: valid_rune_def)
  then show ?thesis
  proof cases
    case 2
    then have "rune2 (192 + r div 64) (128 + r mod 64)" by (auto simp: rune2_def cont_def)
    moreover have "192 + r div 64 < 256" using 2 by auto
    ultimately show ?thesis using 2 by (simp add: encode_rune_def)
  next
    case 3
    have b0: "\<not> rune2 (224 + r div 4096) b" for b by (simp add: rune2_def cont_def)
    have low: "r div 64 mod 64 \<le> 31" if "r div 4096 = 13" "r < 55296"
    proof -
      have "r div 64 mod 64 = r div 64 - 64 * (r div 64 div 64)" by (simp add: minus_mult_div_eq_mod)
      also have "r div 64 div 64 = 13" using that(1) by (simp add: div_mult2_eq [symmetric])
      finally show ?thesis using that(2) by auto
    qed
    have "rune3 (224 + r div 4096) (128 + r div 64 mod 64) (128 + r mod 64)"
      using 3 assms low by (auto simp: rune3_def cont_def valid_rune_def)
    moreover have "224 + r div 4096 < 256" using 3 by auto
    moreover note base64_digits(1) [of r]
    ultimately show ?thesis using 3 b0 by (simp add: encode_rune_def)
  next
    case 4
    have b0: "\<not> rune2 (240 + r div 262144) b" "\<not> rune3 (240 + r div 262144) b c" for b c
      by (simp_all add: rune2_def rune3_def cont_def)
    have low: "r div 4096 mod 64 \<le> 15" if "r div 262144 = 4"
    proof -
      have "r div 4096 mod 64 = r div 4096 - 64 * (r div 4096 div 64)"
        by (simp add: minus_mult_div_eq_mod)
      also have "r div 4096 div 64 = 4" using that by (simp add: div_mult2_eq [symmetric])
      finally show ?thesis using 4(2) by auto
    qed
    have "rune4 (240 + r div 262144) (128 + r div 4096 mod 64) (128 + r div 64 mod 64) (128 + r mod 64)"
      using 4 low by (auto simp: rune4_def cont_def)
    moreover have "240 + r div 262144 < 256" using 4 by auto
    moreover note base64_digits(2) [of r]
    ultimately show ?thesis using 4 b0 by (simp add: encode_rune_def)
  qed (simp add: encode_rune_def)
qed

lemma encode_rune_nonempty [simp]: "encode_rune r \<noteq> []"
  by (simp add: encode_rune_def)

lemma runes_encode: "list_all valid_rune rs \<Longrightarrow> runes (concat (map encode_rune rs)) = rs"
proof (induction rs)
  case (Cons r rs)
  then show ?case
    by (simp add: runes_def runes_widths.simps [of "encode_rune r @ _"] decode_encode_rune)
qed (simp add: runes_def runes_widths.simps)
end
