(* ===== verification/Scheduler.thy ===== *)
theory Scheduler
  imports Pipeline_Facts Rules Utf8_Facts
begin

text \<open>
  Package \<open>internal/ci\<close>, file \<open>scheduler.go\<close>, with the types of \<open>run.go\<close> it uses: what a
  new run's status, reason, target and steps are, decided from its pipeline and from what the
  ref rules allow.

  The text of a parse error is rendered by the parameter \<open>error_text\<close>; every other reason is
  the source's text. Target names are validated to need no escaping, so \<open>%q\<close> puts quotation
  marks around them.
\<close>

section \<open>Types of run.go\<close>

datatype Status = StatusQueued | StatusRunning | StatusPassed | StatusFailed | StatusCancelled

datatype StepStatus =
  StepPending | StepRunning | StepPassed | StepFailed | StepSkipped | StepCancelled

datatype Trigger = TriggerPush | TriggerManual

record CreateParams =
  p_RepoID :: string
  p_Commit :: string
  p_RefKind :: Kind
  p_RefName :: string
  p_Trigger :: Trigger
  p_PersonID :: string
  p_PushID :: string
  p_Pipeline :: string
  p_PipelineProblem :: string
  p_Decision :: Decision

record plannedStep =
  ps_kind :: StepKind
  ps_name :: string
  ps_run :: bool

record plan =
  pl_timeout :: int
  pl_status :: Status
  pl_reason :: string
  pl_target :: string
  pl_version :: string
  pl_steps :: "plannedStep list"

section \<open>Planning a run\<close>

definition refLabel :: "Kind \<Rightarrow> string \<Rightarrow> string" where
  "refLabel kind name =
     (if name = [] then ''this commit'' else kind_string kind @ '' '' @ name)"

text \<open>\<open>strings.ToUpper\<close> of the first byte; a label starts with an ASCII letter.\<close>

definition capitalize :: "string \<Rightarrow> string" where
  "capitalize s =
     (case s of
        [] \<Rightarrow> []
      | c # rest \<Rightarrow> (if is_lower c then char_of (code c - 32) else c) # rest)"

definition maxReasonLen :: nat where
  "maxReasonLen = 4000"

definition ellipsis :: string where
  "ellipsis = [CHR 0xE2, CHR 0x80, CHR 0xA6]"

definition truncateReason :: "string \<Rightarrow> string" where
  "truncateReason s =
     (if rune_count s \<le> maxReasonLen then s
      else concat (map encode_rune (take (maxReasonLen - 1) (runes s))) @ ellipsis)"

definition planRun ::
  "(string \<Rightarrow> (parse_error, Config) result) \<Rightarrow> (parse_error \<Rightarrow> string) \<Rightarrow> CreateParams \<Rightarrow> plan" where
  "planRun parse error_text p =
     (let rc = \<lparr>rc_Repo = [], rc_RunNumber = 0, rc_Commit = p_Commit p, rc_RefKind = p_RefKind p,
               rc_RefName = p_RefName p, rc_Target = []\<rparr>;
          pl = \<lparr>pl_timeout = 0, pl_status = StatusQueued, pl_reason = [], pl_target = [],
               pl_version = Version rc, pl_steps = []\<rparr>
      in if p_PipelineProblem p \<noteq> []
         then pl\<lparr>pl_status := StatusFailed, pl_reason := p_PipelineProblem p\<rparr>
         else case parse (p_Pipeline p) of
           Inl err \<Rightarrow> pl\<lparr>pl_status := StatusFailed, pl_reason := error_text err\<rparr>
         | Inr cfg \<Rightarrow>
             let target = (case ResolveTarget cfg (p_RefKind p) (p_RefName p) of
                             Some t \<Rightarrow> t | None \<Rightarrow> []);
                 pl = pl\<lparr>pl_timeout := c_Timeout cfg, pl_target := target\<rparr>;
                 label = refLabel (p_RefKind p) (p_RefName p);
                 deploys = list_ex (\<lambda>s. st_Type s = StepDeploy \<and>
                             ShouldRun (st_When s) (p_RefKind p) target) (c_Steps cfg);
                 steps = map (\<lambda>s. \<lparr>ps_kind = st_Type s, ps_name = st_Name s,
                             ps_run = ShouldRun (st_When s) (p_RefKind p) target\<rparr>) (c_Steps cfg)
             in if c_Docker cfg \<and> \<not> d_AllowDocker (p_Decision p)
                then pl\<lparr>pl_status := StatusFailed,
                  pl_reason := ''The pipeline uses Docker, but no rule allows Docker for '' @ label @ ''.''\<rparr>
                else if deploys \<and> \<not> d_AllowDeploy (p_Decision p)
                then pl\<lparr>pl_status := StatusFailed,
                  pl_reason := capitalize label @ '' resolves to target '' @ [CHR 0x22] @ target @
                    [CHR 0x22] @ '', but no rule allows deployment from it.''\<rparr>
                else if \<not> list_ex ps_run steps
                then pl\<lparr>pl_steps := steps, pl_status := StatusPassed,
                  pl_reason := ''No step applies to '' @ label @ ''.''\<rparr>
                else pl\<lparr>pl_steps := steps, pl_status := StatusQueued\<rparr>)"

section \<open>Lemmas\<close>

lemma planRun_problem:
  "p_PipelineProblem p \<noteq> [] \<Longrightarrow>
     pl_status (planRun parse et p) = StatusFailed \<and> pl_steps (planRun parse et p) = []"
  by (simp add: planRun_def Let_def)

lemma planRun_parse_error:
  "p_PipelineProblem p = [] \<Longrightarrow> parse (p_Pipeline p) = Inl err \<Longrightarrow>
     pl_status (planRun parse et p) = StatusFailed \<and> pl_steps (planRun parse et p) = []"
  by (simp add: planRun_def Let_def)

definition resolved_target :: "Config \<Rightarrow> CreateParams \<Rightarrow> string" where
  "resolved_target cfg p =
     (case ResolveTarget cfg (p_RefKind p) (p_RefName p) of Some t \<Rightarrow> t | None \<Rightarrow> [])"

definition applies :: "Config \<Rightarrow> CreateParams \<Rightarrow> Step \<Rightarrow> bool" where
  "applies cfg p s = ShouldRun (st_When s) (p_RefKind p) (resolved_target cfg p)"

lemma planRun_parsed:
  assumes "p_PipelineProblem p = []" "parse (p_Pipeline p) = Inr cfg"
  shows "pl_status (planRun parse et p) =
      (if c_Docker cfg \<and> \<not> d_AllowDocker (p_Decision p) then StatusFailed
       else if (\<exists>s \<in> set (c_Steps cfg). st_Type s = StepDeploy \<and> applies cfg p s) \<and>
         \<not> d_AllowDeploy (p_Decision p) then StatusFailed
       else if \<exists>s \<in> set (c_Steps cfg). applies cfg p s then StatusQueued
       else StatusPassed)"
    "pl_target (planRun parse et p) = resolved_target cfg p"
    "pl_timeout (planRun parse et p) = c_Timeout cfg"
    "pl_steps (planRun parse et p) =
      (if pl_status (planRun parse et p) = StatusFailed then []
       else map (\<lambda>s. \<lparr>ps_kind = st_Type s, ps_name = st_Name s, ps_run = applies cfg p s\<rparr>) (c_Steps cfg))"
  using assms
  by (auto simp: planRun_def Let_def resolved_target_def [symmetric] applies_def [symmetric]
      list_ex_iff)

section \<open>Properties\<close>

text \<open>
  C17: a run is queued exactly when its pipeline could be read and parsed, the rules allow
  Docker if the pipeline uses it and deployment if a deploy step applies, and at least one
  step applies; nothing else reaches a worker.
\<close>

theorem planRun_queued_iff:
  "pl_status (planRun parse error_text p) = StatusQueued \<longleftrightarrow>
     p_PipelineProblem p = [] \<and>
     (\<exists>cfg. parse (p_Pipeline p) = Inr cfg \<and>
        (c_Docker cfg \<longrightarrow> d_AllowDocker (p_Decision p)) \<and>
        (\<forall>s \<in> set (c_Steps cfg). st_Type s = StepDeploy \<longrightarrow> applies cfg p s \<longrightarrow> d_AllowDeploy (p_Decision p)) \<and>
        (\<exists>s \<in> set (c_Steps cfg). applies cfg p s))"
proof (cases "p_PipelineProblem p = []")
  case ok: True
  show ?thesis
  proof (cases "parse (p_Pipeline p)")
    case (Inl err)
    then show ?thesis using planRun_parse_error [OF ok, of parse err] by auto
  next
    case (Inr cfg)
    then show ?thesis using ok planRun_parsed(1) [OF ok, of parse cfg] by auto
  qed
qed (use planRun_problem in simp)

text \<open>
  A recorded reason is at most 4000 characters long: a reason within the limit is kept as
  it is, a longer one keeps its first 3999 characters followed by an ellipsis.
\<close>

theorem truncateReason_limit:
  "rune_count (truncateReason s) \<le> maxReasonLen \<and>
   (if rune_count s \<le> maxReasonLen then truncateReason s = s
    else runes (truncateReason s) = take (maxReasonLen - 1) (runes s) @ [8230])"
proof (cases "rune_count s \<le> maxReasonLen")
  case False
  let ?rs = "take (maxReasonLen - 1) (runes s) @ [8230]"
  have "ellipsis = encode_rune 8230"
    by (simp add: ellipsis_def encode_rune_def char_of_def bit_nat_def)
  then have t: "truncateReason s = concat (map encode_rune ?rs)"
    using False by (simp add: truncateReason_def)
  have "list_all valid_rune ?rs"
    using runes_valid [of s] by (auto simp: list_all_iff valid_rune_def dest: in_set_takeD)
  then have r: "runes (truncateReason s) = ?rs" unfolding t by (rule runes_encode)
  then have "rune_count (truncateReason s) \<le> maxReasonLen"
    by (simp add: rune_count_def maxReasonLen_def)
  with r False show ?thesis by simp
qed (simp add: truncateReason_def)

definition sample_decision :: Decision where
  "sample_decision =
     \<lparr>d_CanPush = True, d_AllowForce = False, d_AllowDelete = False, d_RunOnPush = True,
      d_AllowDocker = True, d_AllowSecrets = False, d_AllowDeploy = True, d_MatchedRule = None\<rparr>"

definition sample_params :: CreateParams where
  "sample_params =
     \<lparr>p_RepoID = ''r1'', p_Commit = ''0123456789abcdef0123'', p_RefKind = KindTag, p_RefName = ''v1'',
      p_Trigger = TriggerPush, p_PersonID = ''u1'', p_PushID = ''x1'', p_Pipeline = ''yaml'',
      p_PipelineProblem = [], p_Decision = sample_decision\<rparr>"

theorem planRun_queued_iff_witness:
  "pl_status (planRun (\<lambda>_. Inr sample_config) (\<lambda>_. []) sample_params) = StatusQueued"
  by (subst planRun_queued_iff)
    (auto simp: sample_params_def sample_decision_def sample_config_def applies_def ShouldRun_def
      when_of_def)

text \<open>
  C18: whenever a plan marks a deploy step to run, the rules allow deployment from the ref and
  the run resolved to a target; steps are planned in the order of the file, one for each.
\<close>

theorem planRun_deploy_guarded:
  assumes "\<And>data cfg. parse data = Inr cfg \<Longrightarrow> config_wf cfg"
    and "ps \<in> set (pl_steps (planRun parse error_text p))" "ps_kind ps = StepDeploy" "ps_run ps"
  shows "d_AllowDeploy (p_Decision p) \<and> pl_target (planRun parse error_text p) \<noteq> []"
proof -
  have ok: "p_PipelineProblem p = []" using assms(2) planRun_problem by fastforce
  obtain cfg where cfg: "parse (p_Pipeline p) = Inr cfg"
    using assms(2) planRun_parse_error [OF ok] by (cases "parse (p_Pipeline p)") fastforce+
  note pl = planRun_parsed [where parse = parse and et = error_text, OF ok cfg]
  have nf: "pl_status (planRun parse error_text p) \<noteq> StatusFailed" using assms(2) pl(4) by auto
  then obtain s where s: "s \<in> set (c_Steps cfg)" "st_Type s = StepDeploy" "applies cfg p s"
    using assms(2-4) pl(4) by auto
  then have "d_AllowDeploy (p_Decision p)" using nf pl(1) by (auto split: if_splits)
  moreover have "resolved_target cfg p \<noteq> []"
  proof -
    have w: "config_wf cfg" using assms(1) cfg by blast
    then have "w_Kind (st_When s) \<in> {WhenTarget, WhenNamed}"
      "w_Kind (st_When s) = WhenNamed \<longrightarrow> w_Name (st_When s) \<in> fst ` set (c_Targets cfg)"
      using s by (auto simp: config_wf_def wf_steps_def wf_step_def list_all_iff)
    moreover have "\<forall>n \<in> fst ` set (c_Targets cfg). n \<noteq> []"
      using w by (auto simp: config_wf_def wf_targets_def list_all_iff targetNamePattern_def)
    ultimately show ?thesis
      using s(3) by (auto simp: applies_def ShouldRun_def)
  qed
  ultimately show ?thesis using pl(2) by simp
qed

theorem planRun_deploy_guarded_witness:
  "pl_target (planRun (\<lambda>_. Inr sample_config) (\<lambda>_. []) sample_params) \<noteq> []"
proof -
  let ?pl = "planRun (\<lambda>_. Inr sample_config) (\<lambda>_. []) sample_params"
  have t: "ResolveTarget sample_config KindTag ''v1'' = Some ''prod''" by code_simp
  have "\<lparr>ps_kind = StepDeploy, ps_name = ''ship'', ps_run = True\<rparr> \<in> set (pl_steps ?pl)"
    using planRun_parsed(1,4) [of sample_params "\<lambda>_. Inr sample_config" sample_config "\<lambda>_. []"] t
    by (simp add: sample_params_def sample_decision_def sample_config_def applies_def ShouldRun_def
        resolved_target_def when_of_def)
  then show ?thesis
    using planRun_deploy_guarded [of "\<lambda>_. Inr sample_config" _ "\<lambda>_. []" sample_params] sample_config_wf
    by fastforce
qed

end
