(* ===== verification/Ci_Store.thy ===== *)
theory Ci_Store
  imports Scheduler "HOL-Library.AList"
begin

text \<open>
  Package \<open>internal/ci\<close>, file \<open>store.go\<close>: the tables that hold runs, steps, deployments and
  workers, and the SQL statements that change them.

  A table is a list of rows, in insertion order; \<open>UPDATE ... WHERE\<close> is
  \<^const>\<open>update_where\<close>. Times are nanoseconds; \<open>now\<close>, the database clock, and freshly
  generated identifiers are arguments. A statement that violates a unique key, a CHECK or a
  foreign key of \<open>migrations/0001_init.sql\<close> fails with \<open>UniqueViolation\<close>, \<open>CheckViolation\<close> or
  \<open>ForeignKeyViolation\<close>. Row locks taken by other transactions appear where a statement can
  observe them, as the parameters of \<open>SKIP LOCKED\<close> and of \<open>pg_try_advisory_xact_lock_shared\<close>.
\<close>

section \<open>Tables\<close>

record repo_row =
  rr_id :: string
  rr_name :: string
  rr_counter :: int

record ref_row =
  rf_repo :: string
  rf_kind :: Kind
  rf_name :: string
  rf_commit :: string

record run_row =
  r_id :: string
  r_repo :: string
  r_number :: int
  r_commit :: string
  r_kind :: Kind
  r_ref :: string
  r_trigger :: Trigger
  r_person :: "string option"
  r_push :: "string option"
  r_status :: Status
  r_reason :: string
  r_target :: string
  r_version :: string
  r_secrets :: bool
  r_pipeline :: string
  r_images :: "string list"
  r_timeout :: int
  r_deadline :: "timestamp option"
  r_cancel :: bool
  r_worker :: "string option"
  r_token :: "string option"
  r_queued :: timestamp
  r_started :: "timestamp option"
  r_finished :: "timestamp option"

record step_row =
  s_id :: string
  s_run :: string
  s_index :: nat
  s_name :: string
  s_status :: StepStatus
  s_exit :: "int option"
  s_type :: StepKind
  s_generation :: "int option"
  s_container :: "string option"
  s_cid :: "string option"
  s_removed :: "timestamp option"
  s_log_error :: string
  s_log_bytes :: nat
  s_log_lines :: nat
  s_started :: "timestamp option"
  s_finished :: "timestamp option"

text \<open>\<open>owner_run_id\<close> and \<open>owner_step_id\<close> are both NULL or both set: one optional pair.\<close>

record target_row =
  dt_repo :: string
  dt_target :: string
  dt_generation :: int
  dt_latest :: int
  dt_owner :: "(string \<times> string) option"

record deployment_row =
  dp_id :: string
  dp_repo :: string
  dp_target :: string
  dp_version :: string
  dp_commit :: string
  dp_run :: "string option"
  dp_person :: "string option"
  dp_step :: string
  dp_created :: timestamp

record worker_row =
  wk_id :: string
  wk_hostname :: string
  wk_heartbeat :: timestamp
  wk_stopped :: "timestamp option"
  wk_active :: int
  wk_ready :: bool
  wk_reason :: string
  wk_readiness :: "timestamp option"
  wk_images :: "string list"
  wk_engine :: string
  wk_root :: string

record log_row =
  l_repo :: string
  l_step :: string
  l_sequence :: int
  l_content :: string

datatype channel = NotifyChannel | LogChannel

record ci_db =
  db_maintenance :: bool
  db_repos :: "repo_row list"
  db_refs :: "ref_row list"
  db_pending :: "string list"
  db_runs :: "run_row list"
  db_steps :: "step_row list"
  db_targets :: "target_row list"
  db_deployments :: "deployment_row list"
  db_workers :: "worker_row list"
  db_logs :: "log_row list"
  db_summary :: "((string \<times> string) \<times> string) list"
  db_notes :: "(channel \<times> string) list"
  db_audit :: "(string \<times> string \<times> nat) list"

datatype ci_error =
  UniqueViolation | CheckViolation | ForeignKeyViolation | NotFound | RunEnded | RunFinished | DeploymentBusy | DeploymentSuperseded
| DeploymentOwnership | WorkerAlive | InvalidTimeout | IncompatibleRoot | LogBudget | InvalidFetchToken
| Unavailable | GitFailure

type_synonym 'a tx = "(ci_error, 'a \<times> ci_db) result"

definition run_of :: "ci_db \<Rightarrow> string \<Rightarrow> run_row option" where
  "run_of db runID = find (\<lambda>r. r_id r = runID) (db_runs db)"

definition step_of :: "ci_db \<Rightarrow> string \<Rightarrow> step_row option" where
  "step_of db stepID = find (\<lambda>s. s_id s = stepID) (db_steps db)"

definition update_run :: "(run_row \<Rightarrow> bool) \<Rightarrow> (run_row \<Rightarrow> run_row) \<Rightarrow> ci_db \<Rightarrow> ci_db" where
  "update_run P f db = db\<lparr>db_runs := update_where P f (db_runs db)\<rparr>"

definition update_step :: "(step_row \<Rightarrow> bool) \<Rightarrow> (step_row \<Rightarrow> step_row) \<Rightarrow> ci_db \<Rightarrow> ci_db" where
  "update_step P f db = db\<lparr>db_steps := update_where P f (db_steps db)\<rparr>"

definition update_target :: "(target_row \<Rightarrow> bool) \<Rightarrow> (target_row \<Rightarrow> target_row) \<Rightarrow> ci_db \<Rightarrow> ci_db" where
  "update_target P f db = db\<lparr>db_targets := update_where P f (db_targets db)\<rparr>"

definition update_worker :: "(worker_row \<Rightarrow> bool) \<Rightarrow> (worker_row \<Rightarrow> worker_row) \<Rightarrow> ci_db \<Rightarrow> ci_db" where
  "update_worker P f db = db\<lparr>db_workers := update_where P f (db_workers db)\<rparr>"

definition null_empty :: "string \<Rightarrow> string option" where
  "null_empty s = (if s = [] then None else Some s)"

section \<open>Creating runs\<close>

definition allocateRunNumber :: "string \<Rightarrow> ci_db \<Rightarrow> int tx" where
  "allocateRunNumber repoID db =
     (case find (\<lambda>r. rr_id r = repoID) (db_repos db) of
        None \<Rightarrow> Inl NotFound
      | Some r \<Rightarrow>
          Inr (rr_counter r + 1,
               db\<lparr>db_repos := update_where (\<lambda>r. rr_id r = repoID)
                    (\<lambda>r. r\<lparr>rr_counter := rr_counter r + 1\<rparr>) (db_repos db)\<rparr>))"

record Created =
  cr_ID :: string
  cr_Number :: int
  cr_Status :: Status
  cr_Reason :: string
  cr_Target :: string
  cr_Version :: string

definition insertRun ::
  "(string \<Rightarrow> (parse_error, Config) result) \<Rightarrow> timestamp \<Rightarrow> Created \<Rightarrow> CreateParams \<Rightarrow> bool \<Rightarrow> int \<Rightarrow>
     ci_db \<Rightarrow> unit tx" where
  "insertRun parse now run p finished timeout db =
     (let images = (case parse (p_Pipeline p) of Inr cfg \<Rightarrow> c_Image cfg # c_Requires cfg | Inl _ \<Rightarrow> []);
          row = \<lparr>r_id = cr_ID run, r_repo = p_RepoID p, r_number = cr_Number run, r_commit = p_Commit p,
                 r_kind = p_RefKind p, r_ref = p_RefName p, r_trigger = p_Trigger p,
                 r_person = null_empty (p_PersonID p), r_push = null_empty (p_PushID p),
                 r_status = cr_Status run, r_reason = cr_Reason run, r_target = cr_Target run,
                 r_version = cr_Version run, r_secrets = d_AllowSecrets (p_Decision p),
                 r_pipeline = p_Pipeline p, r_images = normalizeImages images, r_timeout = timeout,
                 r_deadline = None, r_cancel = False, r_worker = None, r_token = None,
                 r_queued = now, r_started = None,
                 r_finished = (if finished then Some now else None)\<rparr>
      in if \<not> valid_kind (p_RefKind p) \<or> p_RefName p = [] \<or> timeout < 0 \<or>
            (cr_Status run \<in> {StatusQueued, StatusRunning}) = finished \<or> cr_Status run = StatusRunning
         then Inl CheckViolation
         else if cr_ID run \<in> r_id ` set (db_runs db) \<or>
            (p_RepoID p, cr_Number run) \<in> (\<lambda>r. (r_repo r, r_number r)) ` set (db_runs db)
         then Inl UniqueViolation
         else Inr ((), db\<lparr>db_runs := db_runs db @ [row]\<rparr>))"

definition insertStep ::
  "string \<Rightarrow> string \<Rightarrow> nat \<Rightarrow> string \<Rightarrow> StepKind \<Rightarrow> StepStatus \<Rightarrow> ci_db \<Rightarrow> unit tx" where
  "insertStep stepID runID index name kind status db =
     (let row = \<lparr>s_id = stepID, s_run = runID, s_index = index, s_name = name, s_status = status,
                 s_exit = None, s_type = kind, s_generation = None, s_container = None, s_cid = None,
                 s_removed = None, s_log_error = [], s_log_bytes = 0, s_log_lines = 0,
                 s_started = None, s_finished = None\<rparr>
      in if stepID \<in> s_id ` set (db_steps db) \<or>
            (runID, index) \<in> (\<lambda>s. (s_run s, s_index s)) ` set (db_steps db)
         then Inl UniqueViolation
         else if runID \<notin> r_id ` set (db_runs db) then Inl ForeignKeyViolation
         else Inr ((), db\<lparr>db_steps := db_steps db @ [row]\<rparr>))"

definition notify :: "channel \<Rightarrow> string \<Rightarrow> ci_db \<Rightarrow> ci_db" where
  "notify channel payload db = db\<lparr>db_notes := db_notes db @ [(channel, payload)]\<rparr>"

definition notifyRun :: "string \<Rightarrow> ci_db \<Rightarrow> ci_db" where
  "notifyRun runID = notify NotifyChannel runID"

text \<open>The condition \<open>number < $4\<close> is dropped (\<^const>\<open>None\<close>) for \<open>math.MaxInt64\<close>.\<close>

definition supersedeQueued ::
  "timestamp \<Rightarrow> string \<Rightarrow> Kind \<Rightarrow> string \<Rightarrow> int option \<Rightarrow> string \<Rightarrow> ci_db \<Rightarrow> string list \<times> ci_db" where
  "supersedeQueued now repoID refKind refName beforeNumber reason db =
     (let P = (\<lambda>r. r_repo r = repoID \<and> r_kind r = refKind \<and> r_ref r = refName \<and>
                 r_status r = StatusQueued \<and>
                 (case beforeNumber of None \<Rightarrow> True | Some n \<Rightarrow> r_number r < n));
          ids = map r_id (filter P (db_runs db));
          db = update_run P (\<lambda>r. r\<lparr>r_status := StatusCancelled, r_reason := reason,
                 r_finished := Some now\<rparr>) db
      in (ids, fold (\<lambda>runID. update_step (\<lambda>s. s_run s = runID \<and> s_status s = StepPending)
                 (\<lambda>s. s\<lparr>s_status := StepCancelled\<rparr>)) ids db))"

section \<open>Claiming runs\<close>

definition claimable :: "string list \<Rightarrow> ci_db \<Rightarrow> run_row \<Rightarrow> bool" where
  "claimable images db r \<longleftrightarrow>
     \<not> db_maintenance db \<and> r_status r = StatusQueued \<and> set (r_images r) \<subseteq> set images \<and>
     r_repo r \<notin> set (db_pending db)"

definition queue_key :: "run_row \<Rightarrow> timestamp \<times> string" where
  "queue_key r = (r_queued r, r_id r)"

text \<open>\<open>GROUP BY repo_id ORDER BY min(queued_at), min(id) LIMIT 256\<close>\<close>

definition repo_key :: "run_row list \<Rightarrow> string \<Rightarrow> timestamp \<times> string" where
  "repo_key rs repo =
     (let mine = filter (\<lambda>r. r_repo r = repo) rs
      in (Min (set (map r_queued mine)), Min (set (map r_id mine))))"

definition claim_candidates :: "string list \<Rightarrow> ci_db \<Rightarrow> string list" where
  "claim_candidates images db =
     (let rs = filter (claimable images db) (db_runs db)
      in take 256 (sort_key (repo_key rs) (remdups (map r_repo rs))))"

record ClaimedStep =
  cs_Type :: StepKind
  cs_ID :: string
  cs_Index :: nat
  cs_Name :: string
  cs_Skipped :: bool

record Claim =
  cl_Deadline :: timestamp
  cl_RunID :: string
  cl_RepoID :: string
  cl_RepoName :: string
  cl_Number :: int
  cl_Commit :: string
  cl_RefKind :: Kind
  cl_RefName :: string
  cl_Target :: string
  cl_Version :: string
  cl_AllowSecrets :: bool
  cl_Pipeline :: string
  cl_FetchToken :: string
  cl_Steps :: "ClaimedStep list"

text \<open>
  \<open>locked\<close> are the rows other transactions hold, which \<open>SKIP LOCKED\<close> passes over; the fetch
  token of the claim is filled in by the caller.
\<close>

definition claimNextRunForRepo ::
  "(string \<Rightarrow> bool) \<Rightarrow> timestamp \<Rightarrow> string \<Rightarrow> string \<Rightarrow> int \<Rightarrow> string list \<Rightarrow> string \<Rightarrow> ci_db \<Rightarrow> Claim tx" where
  "claimNextRunForRepo locked now workerID tokenHash timeout images repoID db =
     (case sort_key queue_key
        (filter (\<lambda>r. claimable images db r \<and> r_repo r = repoID \<and> \<not> locked (r_id r)) (db_runs db)) of
        [] \<Rightarrow> Inl NotFound
      | r # _ \<Rightarrow>
          if list_ex (\<lambda>q. r_id q \<noteq> r_id r \<and> r_token q = Some tokenHash) (db_runs db) then Inl UniqueViolation
          else if workerID \<notin> wk_id ` set (db_workers db) then Inl ForeignKeyViolation
          else (case find (\<lambda>p. rr_id p = r_repo r) (db_repos db) of
             None \<Rightarrow> Inl NotFound
           | Some repo \<Rightarrow>
               let deadline = now + (if r_timeout r \<noteq> 0 then r_timeout r else timeout);
                   db = update_run (\<lambda>q. r_id q = r_id r)
                          (\<lambda>q. q\<lparr>r_status := StatusRunning, r_started := Some now,
                             r_worker := Some workerID, r_token := Some tokenHash,
                             r_deadline := Some deadline\<rparr>) db;
                   steps = sort_key s_index (filter (\<lambda>s. s_run s = r_id r) (db_steps db))
               in Inr (\<lparr>cl_Deadline = deadline, cl_RunID = r_id r, cl_RepoID = r_repo r,
                        cl_RepoName = rr_name repo, cl_Number = r_number r, cl_Commit = r_commit r,
                        cl_RefKind = r_kind r, cl_RefName = r_ref r, cl_Target = r_target r,
                        cl_Version = r_version r, cl_AllowSecrets = r_secrets r,
                        cl_Pipeline = r_pipeline r, cl_FetchToken = [],
                        cl_Steps = map (\<lambda>s. \<lparr>cs_Type = s_type s, cs_ID = s_id s, cs_Index = s_index s,
                          cs_Name = s_name s, cs_Skipped = (s_status s = StepSkipped)\<rparr>) steps\<rparr>, db)))"

text \<open>\<open>gate\<close> says for which repositories the shared execution gate can be taken.\<close>

fun claim_first ::
  "(string \<Rightarrow> bool) \<Rightarrow> (string \<Rightarrow> Claim tx) \<Rightarrow> string list \<Rightarrow> Claim tx" where
  "claim_first gate claim [] = Inl NotFound"
| "claim_first gate claim (repoID # rest) =
     (if \<not> gate repoID then claim_first gate claim rest
      else case claim repoID of
             Inl NotFound \<Rightarrow> claim_first gate claim rest
           | res \<Rightarrow> res)"

definition claimNextRun ::
  "(string \<Rightarrow> bool) \<Rightarrow> (string \<Rightarrow> bool) \<Rightarrow> timestamp \<Rightarrow> string \<Rightarrow> string \<Rightarrow> int \<Rightarrow> string list \<Rightarrow> ci_db \<Rightarrow> Claim tx" where
  "claimNextRun gate locked now workerID tokenHash timeout images db =
     claim_first gate (\<lambda>repoID. claimNextRunForRepo locked now workerID tokenHash timeout images repoID db)
       (claim_candidates images db)"

definition selectRunningRepoByFetchToken :: "string \<Rightarrow> ci_db \<Rightarrow> (ci_error, string) result" where
  "selectRunningRepoByFetchToken tokenHash db =
     (case find (\<lambda>r. r_token r = Some tokenHash \<and> r_status r = StatusRunning) (db_runs db) of
        None \<Rightarrow> Inl NotFound | Some r \<Rightarrow> Inr (r_repo r))"

section \<open>Executing runs\<close>

definition step_open :: "StepStatus \<Rightarrow> bool" where
  "step_open st \<longleftrightarrow> st = StepPending \<or> st = StepRunning"

definition run_active :: "ci_db \<Rightarrow> string \<Rightarrow> bool" where
  "run_active db runID \<longleftrightarrow>
     list_ex (\<lambda>r. r_id r = runID \<and> r_status r = StatusRunning \<and> \<not> r_cancel r) (db_runs db)"

definition setStepRunning :: "timestamp \<Rightarrow> string \<Rightarrow> ci_db \<Rightarrow> unit tx" where
  "setStepRunning now stepID db =
     (let P = (\<lambda>s. s_id s = stepID \<and> s_status s = StepPending \<and> run_active db (s_run s))
      in if list_ex P (db_steps db)
         then Inr ((), update_step P (\<lambda>s. s\<lparr>s_status := StepRunning, s_started := Some now\<rparr>) db)
         else Inl RunEnded)"

definition settleOpenSteps ::
  "timestamp \<Rightarrow> string \<Rightarrow> StepStatus \<Rightarrow> StepStatus \<Rightarrow> ci_db \<Rightarrow> ci_db" where
  "settleOpenSteps now runID runningBecomes pendingBecomes =
     update_step (\<lambda>s. s_run s = runID \<and> step_open (s_status s))
       (\<lambda>s. s\<lparr>s_status := (if s_status s = StepRunning then runningBecomes else pendingBecomes),
              s_finished := Some now\<rparr>)"

text \<open>
  The triggers of \<open>step_logs\<close> fill in the repository of a chunk and keep the stored bytes of a
  repository within 1 GiB; a chunk holds at most 64 KiB.
\<close>

definition log_budget :: nat where
  "log_budget = 1073741824"

definition stored_bytes :: "string \<Rightarrow> ci_db \<Rightarrow> nat" where
  "stored_bytes repoID db =
     sum_list (map (\<lambda>l. length (l_content l)) (filter (\<lambda>l. l_repo l = repoID) (db_logs db)))"

definition newlines :: "string \<Rightarrow> nat" where
  "newlines content = length (filter (\<lambda>c. c = CHR 0x0A) content)"

definition insertLogChunk :: "string \<Rightarrow> int \<Rightarrow> string \<Rightarrow> ci_db \<Rightarrow> unit tx" where
  "insertLogChunk stepID sequence content db =
     (case step_of db stepID of
        None \<Rightarrow> Inr ((), db)
      | Some st \<Rightarrow>
          (case find (\<lambda>r. r_id r = s_run st \<and> r_status r = StatusRunning) (db_runs db) of
             None \<Rightarrow> Inr ((), db)
           | Some r \<Rightarrow>
               if 65536 < length content then Inl CheckViolation
               else if list_ex (\<lambda>l. l_step l = stepID \<and> l_sequence l = sequence) (db_logs db)
               then Inr ((), db)
               else if log_budget < stored_bytes (r_repo r) db + length content then Inl LogBudget
               else Inr ((), update_step (\<lambda>s. s_id s = stepID)
                      (\<lambda>s. s\<lparr>s_log_bytes := s_log_bytes s + length content,
                             s_log_lines := s_log_lines s + newlines content\<rparr>)
                      (db\<lparr>db_logs := db_logs db @
                            [\<lparr>l_repo = r_repo r, l_step = stepID, l_sequence = sequence,
                              l_content = content\<rparr>]\<rparr>))))"

definition selectRunState :: "string \<Rightarrow> ci_db \<Rightarrow> (ci_error, Status \<times> bool) result" where
  "selectRunState runID db =
     (case run_of db runID of None \<Rightarrow> Inl NotFound | Some r \<Rightarrow> Inr (r_status r, r_cancel r))"

definition selectRepoIDForRun :: "string \<Rightarrow> ci_db \<Rightarrow> (ci_error, string) result" where
  "selectRepoIDForRun runID db =
     (case run_of db runID of None \<Rightarrow> Inl NotFound | Some r \<Rightarrow> Inr (r_repo r))"

definition selectRepoIDForStep :: "string \<Rightarrow> ci_db \<Rightarrow> (ci_error, string) result" where
  "selectRepoIDForStep stepID db =
     (case step_of db stepID of None \<Rightarrow> Inl NotFound | Some st \<Rightarrow> selectRepoIDForRun (s_run st) db)"

record finishedRun =
  fr_repoID :: string
  fr_target :: string
  fr_version :: string
  fr_commit :: string
  fr_triggeredBy :: "string option"

definition finished_run :: "run_row \<Rightarrow> finishedRun" where
  "finished_run r = \<lparr>fr_repoID = r_repo r, fr_target = r_target r, fr_version = r_version r,
     fr_commit = r_commit r, fr_triggeredBy = r_person r\<rparr>"

text \<open>The CHECK \<open>runs_finished_matches_status\<close> refuses an outcome that is not final.\<close>

definition finishRunRow :: "timestamp \<Rightarrow> string \<Rightarrow> Status \<Rightarrow> string \<Rightarrow> ci_db \<Rightarrow> finishedRun tx" where
  "finishRunRow now runID status reason db =
     (let P = (\<lambda>r. r_id r = runID \<and> r_status r = StatusRunning)
      in case find P (db_runs db) of
           None \<Rightarrow> Inl NotFound
         | Some r \<Rightarrow>
             if status \<in> {StatusQueued, StatusRunning} then Inl CheckViolation
             else Inr (finished_run r,
               update_run P (\<lambda>r. r\<lparr>r_status := status,
                 r_reason := (if status = StatusCancelled \<and> r_reason r \<noteq> [] then r_reason r else reason),
                 r_finished := Some now, r_token := None\<rparr>) db))"

definition insertSummary :: "string \<Rightarrow> string \<Rightarrow> string \<Rightarrow> ci_db \<Rightarrow> ci_db" where
  "insertSummary runID key v db = db\<lparr>db_summary := AList.update (runID, key) v (db_summary db)\<rparr>"

definition insertDeployment ::
  "timestamp \<Rightarrow> string \<Rightarrow> string \<Rightarrow> string \<Rightarrow> finishedRun \<Rightarrow> ci_db \<Rightarrow> unit tx" where
  "insertDeployment now newID runID stepID f db =
     (if stepID \<in> dp_step ` set (db_deployments db) then Inr ((), db)
      else if newID \<in> dp_id ` set (db_deployments db) then Inl UniqueViolation
      else Inr ((), db\<lparr>db_deployments := db_deployments db @
             [\<lparr>dp_id = newID, dp_repo = fr_repoID f, dp_target = fr_target f, dp_version = fr_version f,
               dp_commit = fr_commit f, dp_run = Some runID, dp_person = fr_triggeredBy f,
               dp_step = stepID, dp_created = now\<rparr>]\<rparr>))"

definition cancelRunRow ::
  "timestamp \<Rightarrow> string \<Rightarrow> int \<Rightarrow> string \<Rightarrow> ci_db \<Rightarrow> (string \<times> Status) tx" where
  "cancelRunRow now repoID number reason db =
     (case find (\<lambda>r. r_repo r = repoID \<and> r_number r = number) (db_runs db) of
        None \<Rightarrow> Inl NotFound
      | Some r \<Rightarrow>
          Inr ((r_id r, r_status r),
            if r_status r = StatusQueued
            then settleOpenSteps now (r_id r) StepCancelled StepCancelled
                   (update_run (\<lambda>q. r_id q = r_id r) (\<lambda>q. q\<lparr>r_status := StatusCancelled,
                      r_reason := reason, r_finished := Some now\<rparr>) db)
            else if r_status r = StatusRunning
            then update_run (\<lambda>q. r_id q = r_id r)
                   (\<lambda>q. q\<lparr>r_cancel := True, r_reason := reason\<rparr>) db
            else db))"

section \<open>Workers\<close>

definition upsertWorker :: "timestamp \<Rightarrow> string \<Rightarrow> string \<Rightarrow> ci_db \<Rightarrow> ci_db" where
  "upsertWorker now workerID hostname db =
     (if workerID \<in> wk_id ` set (db_workers db)
      then update_worker (\<lambda>w. wk_id w = workerID)
             (\<lambda>w. w\<lparr>wk_heartbeat := now, wk_stopped := None\<rparr>) db
      else db\<lparr>db_workers := db_workers db @
             [\<lparr>wk_id = workerID, wk_hostname = hostname, wk_heartbeat = now, wk_stopped = None,
               wk_active = 0, wk_ready = False, wk_reason = ''Starting'', wk_readiness = None,
               wk_images = [], wk_engine = [], wk_root = []\<rparr>]\<rparr>)"

definition touchWorker :: "timestamp \<Rightarrow> string \<Rightarrow> int \<Rightarrow> ci_db \<Rightarrow> ci_db" where
  "touchWorker now workerID activeRuns =
     update_worker (\<lambda>w. wk_id w = workerID) (\<lambda>w. w\<lparr>wk_heartbeat := now, wk_active := activeRuns\<rparr>)"

definition markWorkerStopped :: "timestamp \<Rightarrow> string \<Rightarrow> ci_db \<Rightarrow> ci_db" where
  "markWorkerStopped now workerID =
     update_worker (\<lambda>w. wk_id w = workerID) (\<lambda>w. w\<lparr>wk_stopped := Some now, wk_active := 0\<rparr>)"

definition worker_ready :: "timestamp \<Rightarrow> int \<Rightarrow> worker_row \<Rightarrow> bool" where
  "worker_ready now staleAfter w \<longleftrightarrow>
     wk_stopped w = None \<and> wk_ready w \<and>
     (case wk_readiness w of None \<Rightarrow> False | Some t \<Rightarrow> now - staleAfter \<le> t) \<and>
     now - staleAfter \<le> wk_heartbeat w"

definition selectAnyWorkerReady :: "timestamp \<Rightarrow> int \<Rightarrow> ci_db \<Rightarrow> bool" where
  "selectAnyWorkerReady now staleAfter db = list_ex (worker_ready now staleAfter) (db_workers db)"

definition worker_lost :: "timestamp \<Rightarrow> int \<Rightarrow> worker_row \<Rightarrow> bool" where
  "worker_lost now staleAfter w \<longleftrightarrow> wk_stopped w \<noteq> None \<or> wk_heartbeat w < now - staleAfter"

definition selectLostRuns :: "(string \<Rightarrow> bool) \<Rightarrow> timestamp \<Rightarrow> int \<Rightarrow> ci_db \<Rightarrow> string list" where
  "selectLostRuns locked now staleAfter db =
     map r_id (filter (\<lambda>r. r_status r = StatusRunning \<and> \<not> locked (r_id r) \<and>
       list_ex (\<lambda>w. r_worker r = Some (wk_id w) \<and> worker_lost now staleAfter w) (db_workers db))
       (db_runs db))"

definition selectRunningRunIDs :: "ci_db \<Rightarrow> string list" where
  "selectRunningRunIDs db = map r_id (filter (\<lambda>r. r_status r = StatusRunning) (db_runs db))"

section \<open>Logs and retention\<close>

definition selectLogChunks :: "string \<Rightarrow> int \<Rightarrow> nat \<Rightarrow> ci_db \<Rightarrow> (int \<times> string) list" where
  "selectLogChunks stepID after limit db =
     take limit (map (\<lambda>l. (l_sequence l, l_content l))
       (sort_key l_sequence (filter (\<lambda>l. l_step l = stepID \<and> after < l_sequence l) (db_logs db))))"

text \<open>A container that was planned and is not known to be removed.\<close>

definition container_left :: "step_row \<Rightarrow> bool" where
  "container_left s \<longleftrightarrow> s_container s \<noteq> None \<and> s_removed s = None"

definition run_has_container :: "ci_db \<Rightarrow> string \<Rightarrow> bool" where
  "run_has_container db runID = list_ex (\<lambda>s. s_run s = runID \<and> container_left s) (db_steps db)"

definition owner_run :: "target_row \<Rightarrow> string option" where
  "owner_run t = map_option fst (dt_owner t)"

definition owns_target :: "ci_db \<Rightarrow> string \<Rightarrow> bool" where
  "owns_target db runID = list_ex (\<lambda>t. owner_run t = Some runID) (db_targets db)"

text \<open>\<open>DISTINCT ON (repo_id, kind, name) ... ORDER BY number DESC\<close>: the newest finished run of the head.\<close>

definition head_run :: "ci_db \<Rightarrow> ref_row \<Rightarrow> run_row \<Rightarrow> bool" where
  "head_run db head r \<longleftrightarrow>
     r_repo r = rf_repo head \<and> r_kind r = rf_kind head \<and> r_ref r = rf_name head \<and>
     r_commit r = rf_commit head \<and> r_finished r \<noteq> None"

definition latest_of_head :: "ci_db \<Rightarrow> run_row \<Rightarrow> bool" where
  "latest_of_head db r =
     list_ex (\<lambda>head. head_run db head r \<and>
       list_all (\<lambda>q. head_run db head q \<longrightarrow> r_number q \<le> r_number r) (db_runs db)) (db_refs db)"

definition expired_run :: "timestamp \<Rightarrow> ci_db \<Rightarrow> run_row \<Rightarrow> bool" where
  "expired_run before db r \<longleftrightarrow>
     (case r_finished r of None \<Rightarrow> False | Some t \<Rightarrow> t < before) \<and>
     \<not> run_has_container db (r_id r) \<and> \<not> owns_target db (r_id r) \<and> \<not> latest_of_head db r"

text \<open>
  \<open>delete_runs\<close> is \<open>DELETE FROM runs\<close> with the actions of the foreign keys: steps, log chunks and
  summaries cascade, a deployment keeps its row and loses its run.
\<close>

definition delete_runs :: "string list \<Rightarrow> ci_db \<Rightarrow> ci_db" where
  "delete_runs ids db =
     (let gone = map s_id (filter (\<lambda>s. s_run s \<in> set ids) (db_steps db))
      in db\<lparr>db_runs := filter (\<lambda>r. r_id r \<notin> set ids) (db_runs db),
            db_steps := filter (\<lambda>s. s_run s \<notin> set ids) (db_steps db),
            db_logs := filter (\<lambda>l. l_step l \<notin> set gone) (db_logs db),
            db_summary := filter (\<lambda>e. fst (fst e) \<notin> set ids) (db_summary db),
            db_deployments := update_where (\<lambda>d. \<exists>i\<in>set ids. dp_run d = Some i)
              (\<lambda>d. d\<lparr>dp_run := None\<rparr>) (db_deployments db)\<rparr>)"

definition deleteOldRuns :: "timestamp \<Rightarrow> nat \<Rightarrow> ci_db \<Rightarrow> nat \<times> ci_db" where
  "deleteOldRuns before limit db =
     (let ids = take limit (map r_id (filter (expired_run before db) (db_runs db)))
      in (length ids, delete_runs ids db))"

definition worker_kept :: "ci_db \<Rightarrow> string \<Rightarrow> bool" where
  "worker_kept db workerID =
     list_ex (\<lambda>r. r_worker r = Some workerID \<and>
       (r_status r = StatusRunning \<or> run_has_container db (r_id r) \<or> owns_target db (r_id r)))
       (db_runs db)"

definition gone_worker :: "timestamp \<Rightarrow> ci_db \<Rightarrow> worker_row \<Rightarrow> bool" where
  "gone_worker before db w \<longleftrightarrow>
     (case wk_stopped w of None \<Rightarrow> wk_heartbeat w | Some t \<Rightarrow> t) < before \<and> \<not> worker_kept db (wk_id w)"

definition deleteGoneWorkers :: "timestamp \<Rightarrow> ci_db \<Rightarrow> nat \<times> ci_db" where
  "deleteGoneWorkers before db =
     (let ids = map wk_id (filter (gone_worker before db) (db_workers db))
      in (length ids,
          update_run (\<lambda>r. \<exists>i\<in>set ids. r_worker r = Some i) (\<lambda>r. r\<lparr>r_worker := None\<rparr>)
            (db\<lparr>db_workers := filter (\<lambda>w. wk_id w \<notin> set ids) (db_workers db)\<rparr>)))"

end
