(* ===== verification/Ci_Service.thy ===== *)
theory Ci_Service
  imports Ci_Store
begin

text \<open>
  Package \<open>internal/ci\<close>: the operations of \<open>service.go\<close>, \<open>deploy_owner.go\<close>, \<open>worker_release.go\<close>
  and \<open>retention.go\<close> on the tables of \<open>Ci_Store\<close>.

  Each operation is one transaction: \<^const>\<open>Inl\<close> is an error, after which the transaction has
  left no trace; \<^const>\<open>Inr\<close> carries the committed state. The one operation that writes after a
  failed transaction, \<open>AppendLog\<close>, returns the error and the state side by side. Parameters are
  \<open>now\<close>, new identifiers, the pipeline parser with the text of its errors, and the hash of
  fetch tokens (package \<open>token\<close>).
\<close>

section \<open>Creating runs\<close>

definition pending_full :: "string \<Rightarrow> ci_db \<Rightarrow> bool" where
  "pending_full repoID db \<longleftrightarrow>
     10000 \<le> length (filter (\<lambda>r. r_repo r = repoID \<and>
                (r_status r = StatusQueued \<or> r_status r = StatusRunning)) (db_runs db))"

definition budget_reason :: string where
  "budget_reason = ''This repository reached its 10,000 pending-run budget. Clear queued work before starting another run.''"

definition apply_budget :: "CreateParams \<Rightarrow> ci_db \<Rightarrow> plan \<Rightarrow> plan" where
  "apply_budget p db pl =
     (let pl = (if pl_status pl = StatusQueued \<and> pending_full (p_RepoID p) db
                then pl\<lparr>pl_status := StatusFailed, pl_reason := budget_reason\<rparr> else pl)
      in pl\<lparr>pl_reason := truncateReason (pl_reason pl)\<rparr>)"

fun insert_steps ::
  "string \<Rightarrow> Status \<Rightarrow> (nat \<Rightarrow> string) \<Rightarrow> nat \<Rightarrow> plannedStep list \<Rightarrow> ci_db \<Rightarrow> unit tx" where
  "insert_steps runID status newID i [] db = Inr ((), db)"
| "insert_steps runID status newID i (step # rest) db =
     bind_result
       (insertStep (newID i) runID i (ps_name step) (ps_kind step)
          (if status = StatusQueued \<and> ps_run step then StepPending else StepSkipped) db)
       (\<lambda>(_, db). insert_steps runID status newID (Suc i) rest db)"

definition superseded_reason :: "int \<Rightarrow> string" where
  "superseded_reason number = ''Superseded by #'' @ format_int number @ ''.''"

definition CreateTx ::
  "(string \<Rightarrow> (parse_error, Config) result) \<Rightarrow> (parse_error \<Rightarrow> string) \<Rightarrow> timestamp \<Rightarrow>
     string \<Rightarrow> (nat \<Rightarrow> string) \<Rightarrow> CreateParams \<Rightarrow> ci_db \<Rightarrow> Created tx" where
  "CreateTx parse error_text now runID stepIDs p db =
     (let pl = apply_budget p db (planRun parse error_text p)
      in bind_result (allocateRunNumber (p_RepoID p) db) (\<lambda>(number, db).
         let run = \<lparr>cr_ID = runID, cr_Number = number, cr_Status = pl_status pl,
                    cr_Reason = pl_reason pl, cr_Target = pl_target pl, cr_Version = pl_version pl\<rparr>
         in bind_result
              (insertRun parse now run p (pl_status pl \<noteq> StatusQueued) (pl_timeout pl) db) (\<lambda>(_, db).
            bind_result (insert_steps runID (pl_status pl) stepIDs 0 (pl_steps pl) db) (\<lambda>(_, db).
              let (superseded, db) = supersedeQueued now (p_RepoID p) (p_RefKind p) (p_RefName p)
                                       (Some number) (superseded_reason number) db
              in Inr (run, notifyRun runID (fold notifyRun superseded db))))))"

definition CancelQueuedTx :: "timestamp \<Rightarrow> string \<Rightarrow> Kind \<Rightarrow> string \<Rightarrow> string \<Rightarrow> ci_db \<Rightarrow> unit tx" where
  "CancelQueuedTx now repoID refKind refName reason db =
     (let (cancelled, db) = supersedeQueued now repoID refKind refName None reason db
      in Inr ((), fold notifyRun cancelled db))"

text \<open>
  \<open>FileAt\<close> reads a file of a commit; \<open>LoadPipeline\<close> turns what is wrong with the file into the
  reason its run fails with.
\<close>

datatype file_at = FileFound string | FileMissing | FileOversized nat | FileFailed

definition LoadPipeline :: "(string \<Rightarrow> file_at) \<Rightarrow> string \<Rightarrow> (string \<times> string) option" where
  "LoadPipeline FileAt commit =
     (let short = take 7 commit
      in case FileAt commit of
           FileMissing \<Rightarrow> Some ([], ''There is no .gitman.yml at '' @ short @ ''.'')
         | FileOversized n \<Rightarrow> Some ([], ''.gitman.yml at '' @ short @ '' is '' @ format_nat n @
              '' bytes; the limit is '' @ format_nat MaxFileBytes @ ''.'')
         | FileFailed \<Rightarrow> None
         | FileFound content \<Rightarrow> Some (content, []))"

record StartParams =
  sp_RepoID :: string
  sp_Commit :: string
  sp_RefKind :: Kind
  sp_RefName :: string
  sp_PersonID :: string
  sp_Decision :: Decision

definition Start ::
  "(string \<Rightarrow> (parse_error, Config) result) \<Rightarrow> (parse_error \<Rightarrow> string) \<Rightarrow> (string \<Rightarrow> file_at) \<Rightarrow>
     timestamp \<Rightarrow> string \<Rightarrow> (nat \<Rightarrow> string) \<Rightarrow> StartParams \<Rightarrow> ci_db \<Rightarrow> Created tx" where
  "Start parse error_text FileAt now runID stepIDs p db =
     (if db_maintenance db \<or> sp_RepoID p \<in> set (db_pending db) then Inl Unavailable
      else case LoadPipeline FileAt (sp_Commit p) of
        None \<Rightarrow> Inl GitFailure
      | Some (content, problem) \<Rightarrow>
          CreateTx parse error_text now runID stepIDs
            \<lparr>p_RepoID = sp_RepoID p, p_Commit = sp_Commit p, p_RefKind = sp_RefKind p,
             p_RefName = sp_RefName p, p_Trigger = TriggerManual, p_PersonID = sp_PersonID p,
             p_PushID = [], p_Pipeline = content, p_PipelineProblem = problem,
             p_Decision = sp_Decision p\<rparr> db)"

section \<open>Claiming and executing runs\<close>

definition ClaimNext ::
  "(string \<Rightarrow> string) \<Rightarrow> (string \<Rightarrow> bool) \<Rightarrow> (string \<Rightarrow> bool) \<Rightarrow> timestamp \<Rightarrow> string \<Rightarrow> string \<Rightarrow> int \<Rightarrow>
     string list \<Rightarrow> ci_db \<Rightarrow> Claim option tx" where
  "ClaimNext hash gate locked now plain workerID defaultTimeout images db =
     (if defaultTimeout \<le> 0 \<or> MaxTimeout < defaultTimeout then Inl InvalidTimeout
      else if db_maintenance db then Inr (None, db)
      else case claimNextRun gate locked now workerID (hash plain) defaultTimeout
                  (normalizeImages images) db of
        Inl NotFound \<Rightarrow> Inr (None, db)
      | Inl e \<Rightarrow> Inl e
      | Inr (claim, db) \<Rightarrow>
          Inr (Some (claim\<lparr>cl_FetchToken := plain\<rparr>), notify NotifyChannel (cl_RunID claim) db))"

definition AuthenticateFetch :: "(string \<Rightarrow> string) \<Rightarrow> string \<Rightarrow> ci_db \<Rightarrow> (ci_error, string) result" where
  "AuthenticateFetch hash fetchToken db =
     (if fetchToken = [] then Inl InvalidFetchToken
      else case selectRunningRepoByFetchToken (hash fetchToken) db of
        Inl NotFound \<Rightarrow> Inl InvalidFetchToken
      | res \<Rightarrow> res)"

definition StepStarted :: "timestamp \<Rightarrow> string \<Rightarrow> string \<Rightarrow> ci_db \<Rightarrow> unit tx" where
  "StepStarted now runID stepID db =
     bind_result (setStepRunning now stepID db) (\<lambda>(_, db). Inr ((), notify NotifyChannel runID db))"

text \<open>
  A receipt settles a step; a deploy step that passed records its deployment only while its run
  owns the target in the generation the step was given, and every receipt of a deploy step gives
  the target up.
\<close>

definition release_step :: "string \<Rightarrow> string \<Rightarrow> int \<Rightarrow> ci_db \<Rightarrow> ci_db" where
  "release_step runID stepID g =
     update_target (\<lambda>t. dt_owner t = Some (runID, stepID) \<and> dt_generation t = g)
       (\<lambda>t. t\<lparr>dt_owner := None\<rparr>)"

definition record_deployment ::
  "timestamp \<Rightarrow> string \<Rightarrow> string \<Rightarrow> string \<Rightarrow> int option \<Rightarrow> int option \<Rightarrow> bool \<Rightarrow> ci_db \<Rightarrow> unit tx" where
  "record_deployment now newID runID stepID generation exitcode recovery db =
     (case (generation, exitcode) of
        (Some g, Some c) \<Rightarrow>
          if c \<noteq> 0 then Inl DeploymentOwnership
          else (case find (\<lambda>r. r_id r = runID \<and> (recovery \<or> r_status r = StatusRunning)) (db_runs db) of
            None \<Rightarrow> Inl RunEnded
          | Some r \<Rightarrow>
              if \<not> list_ex (\<lambda>t. dt_repo t = r_repo r \<and> dt_target t = r_target r \<and>
                     dt_owner t = Some (runID, stepID) \<and> dt_generation t = g) (db_targets db)
              then Inl DeploymentOwnership
              else bind_result (insertDeployment now newID runID stepID (finished_run r) db) (\<lambda>(_, db).
                Inr ((), update_target (\<lambda>t. dt_repo t = r_repo r \<and> dt_target t = r_target r)
                       (\<lambda>t. t\<lparr>dt_latest := max (dt_latest t) (r_number r)\<rparr>) db)))
      | _ \<Rightarrow> Inl DeploymentOwnership)"

definition finishExecutionReceipt ::
  "timestamp \<Rightarrow> string \<Rightarrow> string \<Rightarrow> string \<Rightarrow> StepStatus \<Rightarrow> int option \<Rightarrow> bool \<Rightarrow> ci_db \<Rightarrow> unit tx" where
  "finishExecutionReceipt now newID runID stepID status exitcode recovery db =
     (case find (\<lambda>s. s_id s = stepID \<and> s_run s = runID) (db_steps db) of
        None \<Rightarrow> Inl NotFound
      | Some st \<Rightarrow>
          if \<not> step_open (s_status st) \<and> (\<not> recovery \<or> s_exit st \<noteq> None) then Inr ((), db)
          else bind_result
            (if s_type st = StepDeploy \<and> status = StepPassed
             then record_deployment now newID runID stepID (s_generation st) exitcode recovery db
             else Inr ((), db)) (\<lambda>(_, db).
            let db = update_step (\<lambda>s. s_id s = stepID)
                       (\<lambda>s. s\<lparr>s_status := status, s_exit := exitcode,
                          s_finished := (case s_finished s of None \<Rightarrow> Some now | Some t \<Rightarrow> Some t)\<rparr>) db
            in Inr ((), case s_generation st of
                 Some g \<Rightarrow> (if s_type st = StepDeploy then release_step runID stepID g db else db)
               | None \<Rightarrow> db)))"

definition finishRecordedStep ::
  "timestamp \<Rightarrow> string \<Rightarrow> string \<Rightarrow> string \<Rightarrow> StepStatus \<Rightarrow> int option \<Rightarrow> ci_db \<Rightarrow> unit tx" where
  "finishRecordedStep now newID runID stepID status exitcode =
     finishExecutionReceipt now newID runID stepID status exitcode False"

definition StepFinished ::
  "timestamp \<Rightarrow> string \<Rightarrow> string \<Rightarrow> string \<Rightarrow> StepStatus \<Rightarrow> int option \<Rightarrow> ci_db \<Rightarrow> unit tx" where
  "StepFinished now newID runID stepID status exitcode db =
     bind_result (finishRecordedStep now newID runID stepID status exitcode db)
       (\<lambda>(_, db). Inr ((), notify NotifyChannel runID db))"

definition log_error_text :: string where
  "log_error_text = ''Repository log storage reached its 1 GiB budget. Some output could not be recorded.''"

definition AppendLog :: "string \<Rightarrow> string \<Rightarrow> int \<Rightarrow> string \<Rightarrow> ci_db \<Rightarrow> ci_error option \<times> ci_db" where
  "AppendLog runID stepID sequence content db =
     (case insertLogChunk stepID sequence content db of
        Inr (_, db) \<Rightarrow> (None, notify LogChannel runID db)
      | Inl LogBudget \<Rightarrow>
          (Some LogBudget, update_step (\<lambda>s. s_id s = stepID) (\<lambda>s. s\<lparr>s_log_error := log_error_text\<rparr>) db)
      | Inl e \<Rightarrow> (Some e, db))"

definition StopReason :: "string \<Rightarrow> ci_db \<Rightarrow> string" where
  "StopReason runID db =
     (case selectRunState runID db of
        Inl _ \<Rightarrow> ''the run no longer exists''
      | Inr (status, cancelRequested) \<Rightarrow>
          if cancelRequested then ''the run was cancelled''
          else if status \<noteq> StatusRunning then ''the run has already ended'' else [])"

record Outcome =
  o_Status :: Status
  o_Reason :: string
  o_Summary :: "(string \<times> string) list"

definition Finish :: "timestamp \<Rightarrow> string \<Rightarrow> Outcome \<Rightarrow> ci_db \<Rightarrow> unit tx" where
  "Finish now runID out db =
     (let (runningBecomes, pendingBecomes) =
            (if o_Status out = StatusCancelled then (StepCancelled, StepCancelled)
             else (StepFailed, StepSkipped))
      in case finishRunRow now runID (o_Status out) (truncateReason (o_Reason out)) db of
           Inl NotFound \<Rightarrow> Inr ((), db)
         | Inl e \<Rightarrow> Inl e
         | Inr (_, db) \<Rightarrow>
             let db = settleOpenSteps now runID runningBecomes pendingBecomes db;
                 db = fold (\<lambda>(key, v). insertSummary runID key v) (o_Summary out) db
             in Inr ((), notify NotifyChannel runID db))"

definition cancel_reason :: "string \<Rightarrow> string" where
  "cancel_reason by_name =
     (if by_name = [] then ''Cancelled.'' else ''Cancelled by '' @ by_name @ ''.'')"

definition Cancel :: "timestamp \<Rightarrow> string \<Rightarrow> int \<Rightarrow> string \<Rightarrow> ci_db \<Rightarrow> unit tx" where
  "Cancel now repoID number by_name db =
     bind_result (cancelRunRow now repoID number (cancel_reason by_name) db) (\<lambda>((runID, before), db).
       if before \<noteq> StatusQueued \<and> before \<noteq> StatusRunning then Inl RunFinished
       else Inr ((), notify NotifyChannel runID db))"

section \<open>Workers\<close>

definition WorkerLostAfter :: int where
  "WorkerLostAfter = 5 * 60 * 1000000000"

definition WorkerReadyAfter :: int where
  "WorkerReadyAfter = 60 * 1000000000"

definition RegisterWorker :: "timestamp \<Rightarrow> string \<Rightarrow> string \<Rightarrow> ci_db \<Rightarrow> ci_db" where
  "RegisterWorker = upsertWorker"

definition Heartbeat :: "timestamp \<Rightarrow> string \<Rightarrow> int \<Rightarrow> ci_db \<Rightarrow> ci_db" where
  "Heartbeat = touchWorker"

definition StopWorker :: "timestamp \<Rightarrow> string \<Rightarrow> ci_db \<Rightarrow> ci_db" where
  "StopWorker = markWorkerStopped"

definition AnyWorkerReady :: "timestamp \<Rightarrow> ci_db \<Rightarrow> bool" where
  "AnyWorkerReady now = selectAnyWorkerReady now WorkerReadyAfter"

definition AnyWorkerReadyForRun :: "timestamp \<Rightarrow> string \<Rightarrow> ci_db \<Rightarrow> bool" where
  "AnyWorkerReadyForRun now runID db =
     (case run_of db runID of
        None \<Rightarrow> False
      | Some r \<Rightarrow> list_ex (\<lambda>w. worker_ready now WorkerReadyAfter w \<and> set (r_images r) \<subseteq> set (wk_images w))
                   (db_workers db))"

definition SetWorkerReadiness ::
  "timestamp \<Rightarrow> string \<Rightarrow> bool \<Rightarrow> string \<Rightarrow> string list \<Rightarrow> ci_db \<Rightarrow> ci_db" where
  "SetWorkerReadiness now workerID ready reason images =
     update_worker (\<lambda>w. wk_id w = workerID)
       (\<lambda>w. w\<lparr>wk_ready := ready, wk_reason := reason, wk_images := normalizeImages images,
              wk_readiness := Some now\<rparr>)"

definition BindWorkerEngine :: "timestamp \<Rightarrow> string \<Rightarrow> string \<Rightarrow> string \<Rightarrow> ci_db \<Rightarrow> unit tx" where
  "BindWorkerEngine now workerID engineID root db =
     (if list_ex (\<lambda>w. wk_engine w = engineID \<and> wk_root w \<noteq> root \<and> wk_id w \<noteq> workerID \<and>
           wk_stopped w = None \<and> now - WorkerLostAfter \<le> wk_heartbeat w) (db_workers db)
      then Inl IncompatibleRoot
      else Inr ((), update_worker (\<lambda>w. wk_id w = workerID)
                      (\<lambda>w. w\<lparr>wk_engine := engineID, wk_root := root\<rparr>) db))"

definition worker_reason :: "timestamp \<Rightarrow> worker_row \<Rightarrow> string" where
  "worker_reason now w =
     (if wk_stopped w \<noteq> None then ''Stopped''
      else if wk_heartbeat w < now - WorkerReadyAfter then ''Heartbeat is stale''
      else if (case wk_readiness w of None \<Rightarrow> True | Some t \<Rightarrow> t < now - WorkerReadyAfter)
      then ''Readiness has not been checked recently'' else wk_reason w)"

section \<open>Lost and finished runs\<close>

fun fail_lost :: "timestamp \<Rightarrow> string list \<Rightarrow> ci_db \<Rightarrow> unit tx" where
  "fail_lost now [] db = Inr ((), db)"
| "fail_lost now (runID # rest) db =
     bind_result (finishRunRow now runID StatusFailed ''The worker running it stopped responding.'' db)
       (\<lambda>(_, db). fail_lost now rest
          (notify NotifyChannel runID (settleOpenSteps now runID StepFailed StepSkipped db)))"

definition FailLostRuns :: "(string \<Rightarrow> bool) \<Rightarrow> timestamp \<Rightarrow> int \<Rightarrow> ci_db \<Rightarrow> nat tx" where
  "FailLostRuns locked now staleAfter db =
     (let lost = selectLostRuns locked now staleAfter db
      in bind_result (fail_lost now lost db) (\<lambda>(_, db). Inr (length lost, db)))"

definition pruneBatch :: nat where
  "pruneBatch = 500"

lemma length_filter_not_in:
  "ids \<noteq> [] \<Longrightarrow> set ids \<subseteq> f ` set xs \<Longrightarrow> length (filter (\<lambda>x. f x \<notin> set ids) xs) < length xs"
  by (rule length_filter_less [where x = "SOME x. x \<in> set xs \<and> f x \<in> set ids"])
    (rule someI2_ex, fastforce simp: neq_Nil_conv, blast)+

lemma deleteOldRuns_shrinks:
  assumes "deleteOldRuns before pruneBatch db = (n, db')" and "\<not> n < pruneBatch"
  shows "length (db_runs db') < length (db_runs db)"
proof -
  let ?ids = "take pruneBatch (map r_id (filter (expired_run before db) (db_runs db)))"
  have "?ids \<noteq> []" using assms by (auto simp: deleteOldRuns_def Let_def pruneBatch_def)
  moreover have "set ?ids \<subseteq> r_id ` set (db_runs db)"
    by (auto dest!: in_set_takeD)
  ultimately have "length (filter (\<lambda>r. r_id r \<notin> set ?ids) (db_runs db)) < length (db_runs db)"
    by (rule length_filter_not_in)
  then show ?thesis using assms(1) by (auto simp: deleteOldRuns_def delete_runs_def Let_def)
qed

function PruneRuns :: "timestamp \<Rightarrow> ci_db \<Rightarrow> nat \<times> ci_db" where
  "PruneRuns before db =
     (let (n, db') = deleteOldRuns before pruneBatch db
      in if n < pruneBatch then (n, db')
         else let (total, db'') = PruneRuns before db' in (n + total, db''))"
  by pat_completeness auto

termination
  by (relation "measure (\<lambda>(before, db). length (db_runs db))") (auto dest: deleteOldRuns_shrinks [OF sym])

declare PruneRuns.simps [simp del]

definition PruneWorkers :: "timestamp \<Rightarrow> ci_db \<Rightarrow> nat \<times> ci_db" where
  "PruneWorkers = deleteGoneWorkers"

section \<open>Containers\<close>

definition update_steps_if ::
  "(step_row \<Rightarrow> bool) \<Rightarrow> (step_row \<Rightarrow> step_row) \<Rightarrow> ci_db \<Rightarrow> unit tx" where
  "update_steps_if P f db =
     (if length (filter P (db_steps db)) \<noteq> 1 then Inl RunEnded else Inr ((), update_step P f db))"

definition PlanContainer :: "string \<Rightarrow> string \<Rightarrow> string \<Rightarrow> ci_db \<Rightarrow> unit tx" where
  "PlanContainer runID stepID name db =
     update_steps_if (\<lambda>s. s_id s = stepID \<and> s_run s = runID \<and> s_status s = StepRunning \<and> run_active db runID)
       (\<lambda>s. s\<lparr>s_container := Some name\<rparr>) db"

definition ContainerCreated :: "string \<Rightarrow> string \<Rightarrow> string \<Rightarrow> ci_db \<Rightarrow> unit tx" where
  "ContainerCreated runID stepID containerID db =
     update_steps_if (\<lambda>s. s_id s = stepID \<and> s_run s = runID \<and> s_status s = StepRunning \<and>
         run_active db runID \<and>
         (s_type s = StepRun \<or>
          list_ex (\<lambda>t. dt_owner t = Some (runID, stepID) \<and> s_generation s = Some (dt_generation t))
            (db_targets db)))
       (\<lambda>s. s\<lparr>s_cid := Some containerID\<rparr>) db"

definition RecoverStepExit :: "timestamp \<Rightarrow> string \<Rightarrow> string \<Rightarrow> string \<Rightarrow> int \<Rightarrow> ci_db \<Rightarrow> unit tx" where
  "RecoverStepExit now newID runID name exitcode db =
     (case find (\<lambda>s. s_run s = runID \<and> (s_container s = Some name \<or> s_cid s = Some name)) (db_steps db) of
        None \<Rightarrow> Inl NotFound
      | Some st \<Rightarrow>
          finishExecutionReceipt now newID runID (s_id st)
            (if exitcode = 0 then StepPassed else StepFailed) (Some exitcode) True db)"

definition ContainerRemoved :: "timestamp \<Rightarrow> string \<Rightarrow> string \<Rightarrow> ci_db \<Rightarrow> ci_db" where
  "ContainerRemoved now runID name =
     update_step (\<lambda>s. s_run s = runID \<and> s_container s = Some name \<and> s_removed s = None)
       (\<lambda>s. s\<lparr>s_removed := Some now\<rparr>)"

definition remove_containers :: "timestamp \<Rightarrow> string \<Rightarrow> ci_db \<Rightarrow> ci_db" where
  "remove_containers now runID =
     update_step (\<lambda>s. s_run s = runID \<and> container_left s) (\<lambda>s. s\<lparr>s_removed := Some now\<rparr>)"

definition confirmExecutionStoppedTx :: "timestamp \<Rightarrow> string \<Rightarrow> ci_db \<Rightarrow> ci_db" where
  "confirmExecutionStoppedTx now runID db =
     update_target (\<lambda>t. owner_run t = Some runID) (\<lambda>t. t\<lparr>dt_owner := None\<rparr>)
       (update_step (\<lambda>s. s_run s = runID \<and> s_type s = StepDeploy \<and> s_status s = StepRunning)
          (\<lambda>s. s\<lparr>s_status := StepFailed, s_finished := Some now\<rparr>) db)"

definition ConfirmExecutionStopped :: "timestamp \<Rightarrow> string \<Rightarrow> ci_db \<Rightarrow> ci_db" where
  "ConfirmExecutionStopped = confirmExecutionStoppedTx"

definition ConfirmContainersRemoved :: "timestamp \<Rightarrow> string \<Rightarrow> ci_db \<Rightarrow> ci_db" where
  "ConfirmContainersRemoved now runID db =
     remove_containers now runID (ConfirmExecutionStopped now runID db)"

record RecoveryRun =
  rec_ID :: string
  rec_Containers :: "string list"
  rec_Foreign :: bool

definition RecoveryRuns :: "timestamp \<Rightarrow> string \<Rightarrow> string \<Rightarrow> ci_db \<Rightarrow> RecoveryRun list" where
  "RecoveryRuns now workerID engineID db =
     concat (map (\<lambda>r. map (\<lambda>w. \<lparr>rec_ID = r_id r,
           rec_Containers = map (\<lambda>s. the (s_container s))
             (filter (\<lambda>s. s_run s = r_id r \<and> container_left s) (db_steps db)),
           rec_Foreign = (r_worker r \<noteq> Some workerID)\<rparr>)
         (filter (\<lambda>w. r_worker r = Some (wk_id w) \<and>
            (wk_id w = workerID \<or>
             engineID \<noteq> [] \<and> wk_engine w = engineID \<and>
               (wk_stopped w \<noteq> None \<or> wk_heartbeat w < now - 60 * 1000000000)) \<and>
            (r_status r = StatusRunning \<or> run_has_container db (r_id r))) (db_workers db)))
       (db_runs db))"

section \<open>Deployment targets\<close>

definition insert_target :: "string \<Rightarrow> string \<Rightarrow> ci_db \<Rightarrow> ci_db" where
  "insert_target repoID target db =
     (if list_ex (\<lambda>t. dt_repo t = repoID \<and> dt_target t = target) (db_targets db) then db
      else db\<lparr>db_targets := db_targets db @
             [\<lparr>dt_repo = repoID, dt_target = target, dt_generation = 0, dt_latest = 0, dt_owner = None\<rparr>]\<rparr>)"

definition BeginDeployment :: "timestamp \<Rightarrow> string \<Rightarrow> string \<Rightarrow> ci_db \<Rightarrow> unit tx" where
  "BeginDeployment now runID stepID db =
     (case find (\<lambda>r. r_id r = runID \<and> r_status r = StatusRunning \<and> \<not> r_cancel r \<and> r_target r \<noteq> [] \<and>
              (case r_deadline r of None \<Rightarrow> False | Some d \<Rightarrow> now < d)) (db_runs db) of
        None \<Rightarrow> Inl RunEnded
      | Some r \<Rightarrow>
        (case find (\<lambda>s. s_id s = stepID \<and> s_run s = runID \<and> s_status s = StepRunning) (db_steps db) of
           None \<Rightarrow> Inl NotFound
         | Some st \<Rightarrow>
           if s_type st \<noteq> StepDeploy then Inl DeploymentOwnership
           else let db = insert_target (r_repo r) (r_target r) db;
                    mine = (\<lambda>t. dt_repo t = r_repo r \<and> dt_target t = r_target r);
                    give = (\<lambda>g. update_step (\<lambda>s. s_id s = stepID) (\<lambda>s. s\<lparr>s_generation := Some g\<rparr>))
                in case find mine (db_targets db) of
                     None \<Rightarrow> Inl NotFound
                   | Some t \<Rightarrow>
                       if r_trigger r = TriggerPush \<and> r_number r < dt_latest t then Inl DeploymentSuperseded
                       else (case dt_owner t of
                          Some (ownerRun, ownerStep) \<Rightarrow>
                            if ownerStep \<noteq> stepID then Inl DeploymentBusy
                            else Inr ((), give (dt_generation t) db)
                        | None \<Rightarrow>
                            Inr ((), give (dt_generation t + 1)
                              (update_target mine (\<lambda>u. u\<lparr>dt_owner := Some (runID, stepID),
                                 dt_generation := dt_generation t + 1\<rparr>) db)))))"

section \<open>Releasing a lost worker\<close>

definition release_reason :: string where
  "release_reason = ''The worker running it was confirmed gone by an operator.''"

definition release_run :: "timestamp \<Rightarrow> string \<times> Status \<Rightarrow> ci_db \<Rightarrow> unit tx" where
  "release_run now run db =
     (let (runID, status) = run
      in bind_result
           (if status = StatusRunning
            then bind_result (finishRunRow now runID StatusFailed release_reason db) (\<lambda>(_, db).
              Inr ((), notify NotifyChannel runID (confirmExecutionStoppedTx now runID
                (settleOpenSteps now runID StepFailed StepSkipped db))))
            else Inr ((), db))
           (\<lambda>(_, db). Inr ((), remove_containers now runID db)))"

fun release_runs :: "timestamp \<Rightarrow> (string \<times> Status) list \<Rightarrow> ci_db \<Rightarrow> unit tx" where
  "release_runs now [] db = Inr ((), db)"
| "release_runs now (run # rest) db =
     bind_result (release_run now run db) (\<lambda>(_, db). release_runs now rest db)"

definition released_runs :: "string \<Rightarrow> string \<Rightarrow> ci_db \<Rightarrow> (string \<times> Status) list" where
  "released_runs workerID onlyRunID db =
     map (\<lambda>r. (r_id r, r_status r))
       (filter (\<lambda>r. (onlyRunID = [] \<or> r_id r = onlyRunID) \<and> r_worker r = Some workerID \<and>
          (r_status r = StatusRunning \<or> run_has_container db (r_id r))) (db_runs db))"

definition release_owners :: "string \<Rightarrow> string \<Rightarrow> ci_db \<Rightarrow> ci_db" where
  "release_owners workerID onlyRunID db =
     update_target
       (\<lambda>t. list_ex (\<lambda>r. owner_run t = Some (r_id r) \<and> r_worker r = Some workerID \<and>
              (onlyRunID = [] \<or> r_id r = onlyRunID)) (db_runs db))
       (\<lambda>t. t\<lparr>dt_owner := None\<rparr>) db"

definition stop_released :: "timestamp \<Rightarrow> string \<Rightarrow> ci_db \<Rightarrow> ci_db" where
  "stop_released now workerID =
     update_worker (\<lambda>w. wk_id w = workerID)
       (\<lambda>w. w\<lparr>wk_stopped := (case wk_stopped w of None \<Rightarrow> Some now | Some t \<Rightarrow> Some t),
              wk_ready := False, wk_active := 0,
              wk_reason := ''Stopped: confirmed gone by an operator''\<rparr>)"

definition ReleaseLostWorker :: "timestamp \<Rightarrow> string \<Rightarrow> string \<Rightarrow> ci_db \<Rightarrow> nat tx" where
  "ReleaseLostWorker now workerID onlyRunID db =
     (case find (\<lambda>w. wk_id w = workerID) (db_workers db) of
        None \<Rightarrow> Inl NotFound
      | Some w \<Rightarrow>
        if wk_stopped w = None \<and> now - WorkerLostAfter \<le> wk_heartbeat w then Inl WorkerAlive
        else let runs = released_runs workerID onlyRunID db
             in if onlyRunID \<noteq> [] \<and> runs = [] then Inl NotFound
                else bind_result (release_runs now runs db) (\<lambda>(_, db).
                  let db = stop_released now workerID (release_owners workerID onlyRunID db)
                  in Inr (length runs, db\<lparr>db_audit := db_audit db @ [(wk_hostname w, workerID, length runs)]\<rparr>)))"

end
