(* ===== verification/Transitions.thy ===== *)
theory Transitions
  imports Gitman_Prelude
begin

text \<open>
  Sequences of operations on a state, and the two ways the development reasons about them: an
  invariant every operation keeps, and an order along which every operation moves.
\<close>

inductive reaches :: "('op \<Rightarrow> 's \<Rightarrow> bool) \<Rightarrow> ('op \<Rightarrow> 's \<Rightarrow> 's) \<Rightarrow> 's \<Rightarrow> 's \<Rightarrow> bool"
  for allowed step where
  reaches_refl: "reaches allowed step s s"
| reaches_step: "reaches allowed step s t \<Longrightarrow> allowed op t \<Longrightarrow> reaches allowed step s (step op t)"

lemma reaches_one: "allowed op s \<Longrightarrow> reaches allowed step s (step op s)"
  by (rule reaches_step [OF reaches_refl])

lemma reaches_trans:
  assumes "reaches allowed step t u" and "reaches allowed step s t"
  shows "reaches allowed step s u"
  using assms by induction (auto intro: reaches_step)

lemma reaches_weaken:
  assumes "reaches allowed step s t" and "\<And>op u. allowed op u \<Longrightarrow> allowed' op u"
  shows "reaches allowed' step s t"
  using assms by induction (auto intro: reaches.intros)

inductive_cases reaches_E: "reaches allowed step s t"

fun run_ops :: "('op \<Rightarrow> 's \<Rightarrow> 's) \<Rightarrow> 'op list \<Rightarrow> 's \<Rightarrow> 's" where
  "run_ops step [] s = s"
| "run_ops step (op # ops) s = run_ops step ops (step op s)"

fun all_allowed :: "('op \<Rightarrow> 's \<Rightarrow> bool) \<Rightarrow> ('op \<Rightarrow> 's \<Rightarrow> 's) \<Rightarrow> 'op list \<Rightarrow> 's \<Rightarrow> bool" where
  "all_allowed allowed step [] s = True"
| "all_allowed allowed step (op # ops) s = (allowed op s \<and> all_allowed allowed step ops (step op s))"

lemma reaches_run_ops:
  "all_allowed allowed step ops s \<Longrightarrow> reaches allowed step s (run_ops step ops s)"
proof (induction ops arbitrary: s)
  case (Cons op ops)
  then have "reaches allowed step (step op s) (run_ops step ops (step op s))" by simp
  moreover have "reaches allowed step s (step op s)" using Cons.prems by (auto intro: reaches_one)
  ultimately show ?case by (auto intro: reaches_trans)
qed (simp add: reaches_refl)

locale invariant_system =
  fixes allowed :: "'op \<Rightarrow> 's \<Rightarrow> bool"
    and step :: "'op \<Rightarrow> 's \<Rightarrow> 's"
    and inv :: "'s \<Rightarrow> bool"
  assumes preserves: "inv s \<Longrightarrow> allowed op s \<Longrightarrow> inv (step op s)"
begin

lemma inv_reaches: "reaches allowed step s t \<Longrightarrow> inv s \<Longrightarrow> inv t"
  by (induction rule: reaches.induct) (auto intro: preserves)

end

locale ordered_system = invariant_system +
  fixes le :: "'b \<Rightarrow> 'b \<Rightarrow> bool"
  assumes le_refl: "le s s"
    and le_trans: "le s t \<Longrightarrow> le t u \<Longrightarrow> le s u"
    and advances: "inv s \<Longrightarrow> allowed op s \<Longrightarrow> le s (step op s)"
begin

lemma le_reaches: "reaches allowed step s t \<Longrightarrow> inv s \<Longrightarrow> le s t"
proof (induction rule: reaches.induct)
  case (reaches_step s t op)
  then have "inv t" by (auto intro: inv_reaches)
  then show ?case using reaches_step by (auto intro: le_trans advances)
qed (rule le_refl)

end

text \<open>
  A system refines an abstract one when every operation is, through an abstraction function, a
  labelled step of it; then every run is an abstract run.
\<close>

locale refinement_system = invariant_system +
  fixes abs :: "'b \<Rightarrow> 'c"
    and astep :: "'l \<Rightarrow> 'c \<Rightarrow> 'c \<Rightarrow> bool"
  assumes simulates: "inv s \<Longrightarrow> allowed op s \<Longrightarrow> \<exists>l. astep l (abs s) (abs (step op s))"
begin

lemma abstract_reaches:
  "reaches allowed step s t \<Longrightarrow> inv s \<Longrightarrow> (\<lambda>a b. \<exists>l. astep l a b)\<^sup>*\<^sup>* (abs s) (abs t)"
proof (induction rule: reaches.induct)
  case (reaches_step s t op)
  then have "inv t" by (auto intro: inv_reaches)
  then have "\<exists>l. astep l (abs t) (abs (step op t))" using reaches_step(2) by (rule simulates)
  then show ?case using reaches_step.IH [OF reaches_step.prems] by (simp add: rtranclp.rtrancl_into_rtrancl)
qed simp

end

end
