(* ===== verification/Ci_Invariant.thy ===== *)
theory Ci_Invariant
  imports Ci_Service Transitions
begin

text \<open>
  The invariant of the CI tables: unique numbers, the CHECK constraints of a run, what a step may
  be while its run is queued, running or finished, who may own a deployment target, and what a
  recorded deployment says about its step and its target; and that the elementary updates keep it.
\<close>

section \<open>The invariant\<close>

definition run_ok :: "run_row \<Rightarrow> bool" where
  "run_ok r \<longleftrightarrow>
     (r_finished r = None \<longleftrightarrow> r_status r = StatusQueued \<or> r_status r = StatusRunning) \<and>
     (r_status r = StatusQueued \<longrightarrow> r_started r = None \<and> r_worker r = None) \<and>
     (r_status r = StatusRunning \<longrightarrow> r_started r \<noteq> None \<and> r_worker r \<noteq> None) \<and>
     (r_token r \<noteq> None \<longrightarrow> r_status r = StatusRunning)"

definition runs_inv :: "ci_db \<Rightarrow> bool" where
  "runs_inv db \<longleftrightarrow>
     distinct (map rr_id (db_repos db)) \<and>
     distinct (map r_id (db_runs db)) \<and>
     distinct (map (\<lambda>r. (r_repo r, r_number r)) (db_runs db)) \<and>
     (\<forall>r\<in>set (db_runs db). run_ok r) \<and>
     (\<forall>r\<in>set (db_runs db). \<exists>p\<in>set (db_repos db). rr_id p = r_repo r \<and> r_number r \<le> rr_counter p)"

definition step_fits :: "run_row \<Rightarrow> step_row \<Rightarrow> bool" where
  "step_fits r s \<longleftrightarrow>
     (r_finished r \<noteq> None \<longrightarrow> \<not> step_open (s_status s)) \<and>
     (r_status r = StatusQueued \<longrightarrow> s_status s \<noteq> StepRunning)"

definition steps_inv :: "ci_db \<Rightarrow> bool" where
  "steps_inv db \<longleftrightarrow>
     distinct (map s_id (db_steps db)) \<and>
     (\<forall>s\<in>set (db_steps db). \<exists>r\<in>set (db_runs db). r_id r = s_run s \<and> step_fits r s)"

definition target_key :: "target_row \<Rightarrow> string \<times> string" where
  "target_key t = (dt_repo t, dt_target t)"

definition run_key :: "run_row \<Rightarrow> string \<times> string" where
  "run_key r = (r_repo r, r_target r)"

definition owner_ok :: "ci_db \<Rightarrow> target_row \<Rightarrow> bool" where
  "owner_ok db t \<longleftrightarrow>
     (\<forall>run step. dt_owner t = Some (run, step) \<longrightarrow>
        (\<exists>s\<in>set (db_steps db). s_id s = step \<and> s_run s = run \<and> s_type s = StepDeploy \<and>
           s_generation s = Some (dt_generation t)) \<and>
        (\<exists>r\<in>set (db_runs db). r_id r = run \<and> run_key r = target_key t \<and> r_worker r \<noteq> None))"

definition owners_inv :: "ci_db \<Rightarrow> bool" where
  "owners_inv db \<longleftrightarrow>
     distinct (map target_key (db_targets db)) \<and> (\<forall>t\<in>set (db_targets db). owner_ok db t)"

text \<open>The generation a step holds: where, and which.\<close>

definition holds :: "ci_db \<Rightarrow> step_row \<Rightarrow> string \<times> string \<Rightarrow> int \<Rightarrow> bool" where
  "holds db s k g \<longleftrightarrow>
     s \<in> set (db_steps db) \<and> s_generation s = Some g \<and>
     (\<exists>r\<in>set (db_runs db). r_id r = s_run s \<and> run_key r = k)"

definition generations_inv :: "ci_db \<Rightarrow> bool" where
  "generations_inv db \<longleftrightarrow>
     (\<forall>s k g. holds db s k g \<longrightarrow> (\<exists>t\<in>set (db_targets db). target_key t = k \<and> g \<le> dt_generation t)) \<and>
     (\<forall>s s' k g. holds db s k g \<longrightarrow> holds db s' k g \<longrightarrow> s_id s = s_id s')"

definition deployment_ok :: "ci_db \<Rightarrow> deployment_row \<Rightarrow> bool" where
  "deployment_ok db d \<longleftrightarrow>
     (\<forall>r\<in>set (db_runs db). dp_run d = Some (r_id r) \<longrightarrow>
        run_key r = (dp_repo d, dp_target d) \<and>
        (\<exists>t\<in>set (db_targets db). target_key t = (dp_repo d, dp_target d) \<and> r_number r \<le> dt_latest t)) \<and>
     (\<forall>s\<in>set (db_steps db). dp_step d = s_id s \<longrightarrow>
        s_type s = StepDeploy \<and> s_status s = StepPassed \<and> s_exit s = Some 0 \<and> dp_run d = Some (s_run s))"

definition deployments_inv :: "ci_db \<Rightarrow> bool" where
  "deployments_inv db \<longleftrightarrow>
     distinct (map dp_step (db_deployments db)) \<and>
     (\<forall>d\<in>set (db_deployments db). \<forall>runID. dp_run d = Some runID \<longrightarrow> runID \<in> r_id ` set (db_runs db)) \<and>
     (\<forall>d\<in>set (db_deployments db). deployment_ok db d)"

definition ci_inv :: "ci_db \<Rightarrow> bool" where
  "ci_inv db \<longleftrightarrow>
     runs_inv db \<and> steps_inv db \<and> owners_inv db \<and> generations_inv db \<and> deployments_inv db"

lemmas inv_parts = runs_inv_def steps_inv_def owners_inv_def generations_inv_def deployments_inv_def

lemmas inv_tables = inv_parts owner_ok_def holds_def deployment_ok_def

named_theorems ci_simps

section \<open>Tables the invariant does not read\<close>

lemma inv_frame [ci_simps]:
  "ci_inv (db\<lparr>db_notes := a\<rparr>) = ci_inv db"
  "ci_inv (db\<lparr>db_logs := b\<rparr>) = ci_inv db"
  "ci_inv (db\<lparr>db_summary := c\<rparr>) = ci_inv db"
  "ci_inv (db\<lparr>db_audit := d\<rparr>) = ci_inv db"
  "ci_inv (db\<lparr>db_workers := e\<rparr>) = ci_inv db"
  "ci_inv (db\<lparr>db_refs := f\<rparr>) = ci_inv db"
  "ci_inv (db\<lparr>db_pending := g\<rparr>) = ci_inv db"
  "ci_inv (db\<lparr>db_maintenance := h\<rparr>) = ci_inv db"
  by (simp_all add: ci_inv_def inv_tables)

lemma inv_notify [ci_simps]:
  "ci_inv (notify c p db) = ci_inv db"
  "ci_inv (notifyRun p db) = ci_inv db"
  by (simp_all add: notify_def notifyRun_def ci_simps)

lemma inv_notify_all [ci_simps]: "ci_inv (fold notifyRun ids db) = ci_inv db"
  by (induction ids arbitrary: db) (simp_all add: ci_simps)

lemma inv_update_worker [ci_simps]: "ci_inv (update_worker P f db) = ci_inv db"
  by (simp add: update_worker_def ci_simps)

lemma update_run_tables [simp]:
  "db_runs (update_run P f db) = update_where P f (db_runs db)"
  "db_repos (update_run P f db) = db_repos db" "db_steps (update_run P f db) = db_steps db"
  "db_targets (update_run P f db) = db_targets db" "db_workers (update_run P f db) = db_workers db"
  "db_deployments (update_run P f db) = db_deployments db"
  by (simp_all add: update_run_def)

lemma update_step_tables [simp]:
  "db_steps (update_step P f db) = update_where P f (db_steps db)"
  "db_repos (update_step P f db) = db_repos db" "db_runs (update_step P f db) = db_runs db"
  "db_targets (update_step P f db) = db_targets db" "db_workers (update_step P f db) = db_workers db"
  "db_deployments (update_step P f db) = db_deployments db"
  by (simp_all add: update_step_def)

lemma update_target_tables [simp]:
  "db_targets (update_target P f db) = update_where P f (db_targets db)"
  "db_repos (update_target P f db) = db_repos db" "db_runs (update_target P f db) = db_runs db"
  "db_steps (update_target P f db) = db_steps db" "db_workers (update_target P f db) = db_workers db"
  "db_deployments (update_target P f db) = db_deployments db"
  by (simp_all add: update_target_def)

lemma update_worker_tables [simp]:
  "db_workers (update_worker P f db) = update_where P f (db_workers db)"
  "db_repos (update_worker P f db) = db_repos db" "db_runs (update_worker P f db) = db_runs db"
  "db_steps (update_worker P f db) = db_steps db" "db_targets (update_worker P f db) = db_targets db"
  "db_deployments (update_worker P f db) = db_deployments db"
  by (simp_all add: update_worker_def)

lemma notify_tables [simp]:
  "db_runs (notify c p db) = db_runs db" "db_repos (notify c p db) = db_repos db"
  "db_steps (notify c p db) = db_steps db" "db_targets (notify c p db) = db_targets db"
  "db_deployments (notify c p db) = db_deployments db" "db_workers (notify c p db) = db_workers db"
  by (simp_all add: notify_def)

section \<open>Looking rows up\<close>

lemma run_unique:
  "ci_inv db \<Longrightarrow> r \<in> set (db_runs db) \<Longrightarrow> r' \<in> set (db_runs db) \<Longrightarrow> r_id r = r_id r' \<Longrightarrow> r = r'"
  by (auto simp: ci_inv_def runs_inv_def distinct_map dest: inj_onD)

lemma step_unique:
  "ci_inv db \<Longrightarrow> s \<in> set (db_steps db) \<Longrightarrow> s' \<in> set (db_steps db) \<Longrightarrow> s_id s = s_id s' \<Longrightarrow> s = s'"
  by (auto simp: ci_inv_def steps_inv_def distinct_map dest: inj_onD)

lemma target_unique:
  "ci_inv db \<Longrightarrow> t \<in> set (db_targets db) \<Longrightarrow> t' \<in> set (db_targets db) \<Longrightarrow>
     target_key t = target_key t' \<Longrightarrow> t = t'"
  by (auto simp: ci_inv_def owners_inv_def distinct_map dest: inj_onD)

lemma inv_run_ok: "ci_inv db \<Longrightarrow> r \<in> set (db_runs db) \<Longrightarrow> run_ok r"
  by (simp add: ci_inv_def runs_inv_def)

lemma repo_unique:
  "ci_inv db \<Longrightarrow> p \<in> set (db_repos db) \<Longrightarrow> q \<in> set (db_repos db) \<Longrightarrow> rr_id p = rr_id q \<Longrightarrow> p = q"
  by (auto simp: ci_inv_def runs_inv_def distinct_map dest: inj_onD)

lemma inv_run_counter:
  assumes "ci_inv db" "r \<in> set (db_runs db)" "p \<in> set (db_repos db)" "rr_id p = r_repo r"
  shows "r_number r \<le> rr_counter p"
proof -
  obtain q where "q \<in> set (db_repos db)" "rr_id q = r_repo r" "r_number r \<le> rr_counter q"
    using assms(1,2) unfolding ci_inv_def runs_inv_def by blast
  then show ?thesis using repo_unique [OF assms(1,3)] assms(4) by metis
qed

lemma inv_step_run:
  assumes "ci_inv db" "s \<in> set (db_steps db)"
  obtains r where "r \<in> set (db_runs db)" "r_id r = s_run s" "step_fits r s"
  using assms unfolding ci_inv_def steps_inv_def by blast

lemma inv_step_fits:
  assumes "ci_inv db" "s \<in> set (db_steps db)" "r \<in> set (db_runs db)" "r_id r = s_run s"
  shows "step_fits r s"
proof -
  obtain r' where "r' \<in> set (db_runs db)" "r_id r' = s_run s" "step_fits r' s"
    using inv_step_run [OF assms(1,2)] .
  then show ?thesis using run_unique [OF assms(1), of r r'] assms by auto
qed

lemma inv_held:
  assumes "ci_inv db" "holds db s k g"
  obtains t where "t \<in> set (db_targets db)" "target_key t = k" "g \<le> dt_generation t"
  using assms unfolding ci_inv_def generations_inv_def by blast

lemma inv_held_unique:
  "ci_inv db \<Longrightarrow> holds db s k g \<Longrightarrow> holds db s' k g \<Longrightarrow> s_id s = s_id s'"
  unfolding ci_inv_def generations_inv_def by blast

lemma generations_invI:
  assumes "\<And>s k g. holds db s k g \<Longrightarrow> \<exists>t\<in>set (db_targets db). target_key t = k \<and> g \<le> dt_generation t"
    and "\<And>s s' k g. holds db s k g \<Longrightarrow> holds db s' k g \<Longrightarrow> s_id s = s_id s'"
  shows "generations_inv db"
  using assms unfolding generations_inv_def by blast

lemma inv_deployment_run:
  assumes "ci_inv db" "d \<in> set (db_deployments db)" "r \<in> set (db_runs db)" "dp_run d = Some (r_id r)"
  obtains t where "run_key r = (dp_repo d, dp_target d)" "t \<in> set (db_targets db)"
    "target_key t = (dp_repo d, dp_target d)" "r_number r \<le> dt_latest t"
  using assms unfolding ci_inv_def deployments_inv_def deployment_ok_def by blast

lemma inv_deployment_target:
  assumes "ci_inv db" "d \<in> set (db_deployments db)" "r \<in> set (db_runs db)" "dp_run d = Some (r_id r)"
  shows "run_key r = (dp_repo d, dp_target d) \<and>
    (\<exists>t\<in>set (db_targets db). target_key t = (dp_repo d, dp_target d) \<and> r_number r \<le> dt_latest t)"
  using assms unfolding ci_inv_def deployments_inv_def deployment_ok_def by blast

lemma inv_deployment_step:
  assumes "ci_inv db" "d \<in> set (db_deployments db)" "s \<in> set (db_steps db)" "dp_step d = s_id s"
  shows "s_type s = StepDeploy \<and> s_status s = StepPassed \<and> s_exit s = Some 0 \<and> dp_run d = Some (s_run s)"
  using assms unfolding ci_inv_def deployments_inv_def deployment_ok_def by blast

lemma deployment_okI:
  assumes "\<And>r. r \<in> set (db_runs db) \<Longrightarrow> dp_run d = Some (r_id r) \<Longrightarrow>
        run_key r = (dp_repo d, dp_target d) \<and>
        (\<exists>t\<in>set (db_targets db). target_key t = (dp_repo d, dp_target d) \<and> r_number r \<le> dt_latest t)"
    and "\<And>s. s \<in> set (db_steps db) \<Longrightarrow> dp_step d = s_id s \<Longrightarrow>
        s_type s = StepDeploy \<and> s_status s = StepPassed \<and> s_exit s = Some 0 \<and> dp_run d = Some (s_run s)"
  shows "deployment_ok db d"
  using assms unfolding deployment_ok_def by blast

lemma deployments_invI:
  assumes "distinct (map dp_step (db_deployments db))"
    and "\<And>d runID. d \<in> set (db_deployments db) \<Longrightarrow> dp_run d = Some runID \<Longrightarrow> runID \<in> r_id ` set (db_runs db)"
    and "\<And>d. d \<in> set (db_deployments db) \<Longrightarrow> deployment_ok db d"
  shows "deployments_inv db"
  using assms unfolding deployments_inv_def by blast

lemma inv_deployment_run_exists:
  "ci_inv db \<Longrightarrow> d \<in> set (db_deployments db) \<Longrightarrow> dp_run d = Some runID \<Longrightarrow> runID \<in> r_id ` set (db_runs db)"
  unfolding ci_inv_def deployments_inv_def by blast

lemma inv_deployments_distinct: "ci_inv db \<Longrightarrow> distinct (map dp_step (db_deployments db))"
  by (simp add: ci_inv_def deployments_inv_def)

section \<open>Elementary updates\<close>

text \<open>What an update of runs must keep, on the rows it matches.\<close>

definition run_update_ok ::
  "(run_row \<Rightarrow> bool) \<Rightarrow> (run_row \<Rightarrow> run_row) \<Rightarrow> ci_db \<Rightarrow> bool" where
  "run_update_ok P f db \<longleftrightarrow>
     (\<forall>r\<in>set (db_runs db). P r \<longrightarrow>
        r_id (f r) = r_id r \<and> r_repo (f r) = r_repo r \<and> r_number (f r) = r_number r \<and>
        r_target (f r) = r_target r \<and> run_ok (f r) \<and>
        (r_worker (f r) = None \<longrightarrow> r_worker r = None \<or> \<not> owns_target db (r_id r)) \<and>
        (\<forall>s\<in>set (db_steps db). s_run s = r_id r \<longrightarrow> step_fits r s \<longrightarrow> step_fits (f r) s))"

lemma inv_update_run:
  assumes inv: "ci_inv db" and f: "run_update_ok P f db"
  shows "ci_inv (update_run P f db)"
proof -
  define g where "g = (\<lambda>r. if P r then f r else r)"
  have keep: "r_id (g r) = r_id r \<and> r_repo (g r) = r_repo r \<and> r_number (g r) = r_number r \<and>
      run_key (g r) = run_key r" if "r \<in> set (db_runs db)" for r
    using f that by (auto simp: g_def run_update_ok_def run_key_def)
  have "runs_inv (update_run P f db)"
    using inv f keep
    by (auto simp: ci_inv_def runs_inv_def where_simps g_def run_update_ok_def
        map_update_where_on)
  moreover have "steps_inv (update_run P f db)"
  proof -
    have "\<exists>r\<in>set (db_runs db). r_id (g r) = s_run s \<and> step_fits (g r) s"
      if s: "s \<in> set (db_steps db)" for s
    proof -
      obtain r where r: "r \<in> set (db_runs db)" "r_id r = s_run s" "step_fits r s"
        using inv_step_run [OF inv s] .
      have "step_fits (g r) s"
        using r s f by (auto simp: g_def run_update_ok_def)
      then show ?thesis using r keep [of r] by auto
    qed
    then show ?thesis
      using inv by (auto simp: ci_inv_def steps_inv_def where_simps g_def)
  qed
  moreover have "owners_inv (update_run P f db)"
  proof -
    have "\<exists>r\<in>set (db_runs db). r_id (g r) = run \<and> run_key (g r) = target_key t \<and> r_worker (g r) \<noteq> None"
      if t: "t \<in> set (db_targets db)" "dt_owner t = Some (run, step)" for t run step
    proof -
      obtain r where r: "r \<in> set (db_runs db)" "r_id r = run" "run_key r = target_key t" "r_worker r \<noteq> None"
        using inv t unfolding ci_inv_def owners_inv_def owner_ok_def by blast
      have "owns_target db (r_id r)"
        using t r(2) by (auto simp: owns_target_def owner_run_def list_ex_iff)
      then have "r_worker (g r) \<noteq> None" using f r by (auto simp: g_def run_update_ok_def)
      then show ?thesis using r keep [of r] by auto
    qed
    then show ?thesis
      using inv unfolding ci_inv_def owners_inv_def owner_ok_def
      by (simp add: where_simps g_def)
  qed
  moreover have holds: "holds (update_run P f db) s k n \<longleftrightarrow> holds db s k n" for s k n
    using keep by (auto simp: holds_def where_simps g_def)
  have "generations_inv (update_run P f db)"
    using inv unfolding ci_inv_def generations_inv_def holds update_run_tables by blast
  moreover have "deployments_inv (update_run P f db)"
  proof (rule deployments_invI, goal_cases)
    case (2 d runID)
    then have "runID \<in> r_id ` set (db_runs db)" using inv_deployment_run_exists [OF inv] by simp
    moreover have "map r_id (update_where P f (db_runs db)) = map r_id (db_runs db)"
      using f by (intro map_update_where_on) (simp add: run_update_ok_def)
    ultimately show ?case by (metis list.set_map update_run_tables(1))
  next
    case (3 d)
    then have d: "d \<in> set (db_deployments db)" by simp
    show ?case
    proof (rule deployment_okI, goal_cases)
      case (1 r')
      then obtain r where r: "r \<in> set (db_runs db)" "r' = g r"
        by (auto simp: update_where_def g_def)
      then obtain t where "run_key r = (dp_repo d, dp_target d)" "t \<in> set (db_targets db)"
          "target_key t = (dp_repo d, dp_target d)" "r_number r \<le> dt_latest t"
        using inv_deployment_run [OF inv d] 1(2) keep by metis
      then show ?case using r keep by auto
    qed (use inv_deployment_step [OF inv d] in auto)
  qed (simp add: inv_deployments_distinct [OF inv])
  ultimately show ?thesis by (simp add: ci_inv_def)
qed

text \<open>What an update of steps must keep.\<close>

definition step_update_ok ::
  "(step_row \<Rightarrow> bool) \<Rightarrow> (step_row \<Rightarrow> step_row) \<Rightarrow> ci_db \<Rightarrow> bool" where
  "step_update_ok P f db \<longleftrightarrow>
     (\<forall>s\<in>set (db_steps db). P s \<longrightarrow>
        s_id (f s) = s_id s \<and> s_run (f s) = s_run s \<and> s_type (f s) = s_type s \<and>
        s_generation (f s) = s_generation s \<and>
        (s_id s \<in> dp_step ` set (db_deployments db) \<longrightarrow> s_status s = StepPassed \<longrightarrow> s_exit s = Some 0 \<longrightarrow>
           s_status (f s) = StepPassed \<and> s_exit (f s) = Some 0)) \<and>
     (\<forall>s\<in>set (db_steps db). \<forall>r\<in>set (db_runs db). r_id r = s_run s \<longrightarrow> P s \<longrightarrow>
        step_fits r s \<longrightarrow> step_fits r (f s))"

lemma inv_update_step:
  assumes inv: "ci_inv db" and f: "step_update_ok P f db"
  shows "ci_inv (update_step P f db)"
proof -
  define g where "g = (\<lambda>s. if P s then f s else s)"
  have keep: "s_id (g s) = s_id s \<and> s_run (g s) = s_run s \<and> s_type (g s) = s_type s \<and>
      s_generation (g s) = s_generation s" if "s \<in> set (db_steps db)" for s
    using f that by (auto simp: g_def step_update_ok_def)
  have "runs_inv (update_step P f db)"
    using inv by (simp add: ci_inv_def runs_inv_def update_step_def)
  moreover have "steps_inv (update_step P f db)"
  proof -
    have "\<exists>r\<in>set (db_runs db). r_id r = s_run (g s) \<and> step_fits r (g s)"
      if s: "s \<in> set (db_steps db)" for s
    proof -
      obtain r where r: "r \<in> set (db_runs db)" "r_id r = s_run s" "step_fits r s"
        using inv_step_run [OF inv s] .
      then have "step_fits r (g s)" using f s unfolding g_def step_update_ok_def by auto
      then show ?thesis using r keep [OF s] by auto
    qed
    moreover have "map s_id (update_where P f (db_steps db)) = map s_id (db_steps db)"
      using keep by (intro map_update_where_on) (force simp: g_def)
    ultimately show ?thesis
      using inv by (simp add: ci_inv_def steps_inv_def where_simps g_def)
  qed
  moreover have "owners_inv (update_step P f db)"
    using inv keep unfolding ci_inv_def owners_inv_def owner_ok_def
    by (auto simp: where_simps g_def)
  moreover have "generations_inv (update_step P f db)"
  proof -
    have holds: "\<exists>s. holds db s k n \<and> s_id s' = s_id s" if h: "holds (update_step P f db) s' k n" for s' k n
    proof -
      obtain s where "s \<in> set (db_steps db)" "s' = g s"
        using h by (auto simp: holds_def update_where_def g_def)
      then show ?thesis using h keep by (auto simp: holds_def)
    qed
    show ?thesis
    proof (rule generations_invI, goal_cases)
      case (1 s k n)
      then obtain s0 where "holds db s0 k n" using holds by blast
      from inv_held [OF inv this] show ?case by auto
    next
      case (2 s s' k n)
      then show ?case using holds inv_held_unique [OF inv] by metis
    qed
  qed
  moreover have "deployments_inv (update_step P f db)"
  proof (rule deployments_invI, goal_cases)
    case (2 d runID)
    then show ?case using inv_deployment_run_exists [OF inv] by simp
  next
    case (3 d)
    then have d: "d \<in> set (db_deployments db)" by simp
    show ?case
    proof (rule deployment_okI, goal_cases)
      case (1 r)
      then show ?case using inv_deployment_target [OF inv d, of r] by auto
    next
      case (2 s')
      have "s' \<in> g ` set (db_steps db)" using 2(1) by (simp add: update_where_def g_def)
      then obtain s where s: "s \<in> set (db_steps db)" "s' = g s" by blast
      then have id: "dp_step d = s_id s" using 2(2) keep by auto
      then have "s_id s \<in> dp_step ` set (db_deployments db)" using d by (metis imageI)
      moreover note past = inv_deployment_step [OF inv d s(1) id]
      ultimately have "P s \<Longrightarrow> s_status (f s) = StepPassed \<and> s_exit (f s) = Some 0"
        using f s(1) unfolding step_update_ok_def by blast
      then show ?case using past s(2) keep [OF s(1)] by (auto simp: g_def)
    qed
  qed (simp add: inv_deployments_distinct [OF inv])
  ultimately show ?thesis by (simp add: ci_inv_def)
qed

text \<open>An update of targets that keeps generations, at most raises latest numbers and frees owners.\<close>

definition target_update_ok :: "(target_row \<Rightarrow> target_row) \<Rightarrow> bool" where
  "target_update_ok f \<longleftrightarrow>
     (\<forall>t. target_key (f t) = target_key t \<and> dt_generation (f t) = dt_generation t \<and>
        dt_latest t \<le> dt_latest (f t) \<and> (dt_owner (f t) = dt_owner t \<or> dt_owner (f t) = None))"

lemma target_update_okI [ci_simps, intro]:
  "target_update_ok (\<lambda>t. t\<lparr>dt_owner := None\<rparr>)"
  "target_update_ok (\<lambda>t. t\<lparr>dt_latest := max (dt_latest t) n\<rparr>)"
  by (auto simp: target_update_ok_def target_key_def)

lemma inv_update_target:
  assumes inv: "ci_inv db" and f: "target_update_ok f"
  shows "ci_inv (update_target P f db)"
proof -
  define g where "g = (\<lambda>t. if P t then f t else t)"
  have keep: "target_key (g t) = target_key t \<and> dt_generation (g t) = dt_generation t \<and>
      dt_latest t \<le> dt_latest (g t) \<and> (dt_owner (g t) = dt_owner t \<or> dt_owner (g t) = None)" for t
    using f by (auto simp: g_def target_update_ok_def)
  have "runs_inv (update_target P f db)" "steps_inv (update_target P f db)"
    using inv by (simp_all add: ci_inv_def runs_inv_def steps_inv_def)
  moreover have "owners_inv (update_target P f db)"
  proof -
    have "owner_ok (update_target P f db) (g t)" if "t \<in> set (db_targets db)" for t
    proof -
      have "owner_ok db t" using inv that by (simp add: ci_inv_def owners_inv_def)
      then show ?thesis using keep [of t] by (auto simp: owner_ok_def)
    qed
    moreover have "map target_key (update_where P f (db_targets db)) = map target_key (db_targets db)"
      using f by (intro map_update_where_on) (simp add: target_update_ok_def)
    ultimately show ?thesis
      using inv by (simp add: ci_inv_def owners_inv_def where_simps g_def)
  qed
  moreover have holds: "holds (update_target P f db) s k n \<longleftrightarrow> holds db s k n" for s k n
    by (simp add: holds_def)
  have "\<exists>t\<in>set (db_targets db). target_key (g t) = k \<and> n \<le> dt_generation (g t)"
    if "holds db s k n" for s k n
    using inv_held [OF inv that] keep by metis
  then have "generations_inv (update_target P f db)"
    by (intro generations_invI) (auto simp: holds where_simps g_def intro: inv_held_unique [OF inv])
  moreover have "deployments_inv (update_target P f db)"
  proof -
    have "deployment_ok (update_target P f db) d" if d: "d \<in> set (db_deployments db)" for d
    proof -
      have "\<exists>t\<in>set (db_targets db). target_key (g t) = (dp_repo d, dp_target d) \<and> r_number r \<le> dt_latest (g t)"
        if r: "r \<in> set (db_runs db)" "dp_run d = Some (r_id r)" for r
      proof -
        obtain t where "t \<in> set (db_targets db)" "target_key t = (dp_repo d, dp_target d)" "r_number r \<le> dt_latest t"
          using inv_deployment_run [OF inv d r] by blast
        then show ?thesis using keep [of t] by (metis order_trans)
      qed
      then show ?thesis
        using inv_deployment_step [OF inv d] inv_deployment_target [OF inv d]
        by (intro deployment_okI) (simp_all add: where_simps g_def)
    qed
    then show ?thesis using inv by (simp add: ci_inv_def deployments_inv_def)
  qed
  ultimately show ?thesis by (simp add: ci_inv_def)
qed

end
