(* ===== verification/Ci_Preserve.thy ===== *)
theory Ci_Preserve
  imports Ci_Invariant
begin

text \<open>
  Every operation of the run service keeps the invariant of \<open>Ci_Invariant\<close>. A transaction that
  finishes a run before it settles the steps equals one that settles them first, since the two
  updates touch different tables; so each elementary update can be checked on its own.
\<close>

lemma update_run_step_commute:
  "update_step Q g (update_run P f db) = update_run P f (update_step Q g db)"
  by (simp add: update_run_def update_step_def)

lemma update_target_step_commute:
  "update_target Q g (update_step P f db) = update_step P f (update_target Q g db)"
  by (simp add: update_target_def update_step_def)

lemma step_open_simps [simp]:
  "step_open StepPending" "step_open StepRunning" "\<not> step_open StepPassed" "\<not> step_open StepFailed"
  "\<not> step_open StepSkipped" "\<not> step_open StepCancelled"
  by (simp_all add: step_open_def)

lemma step_not_open_fits: "\<not> step_open (s_status s) \<Longrightarrow> step_fits r s"
  by (simp add: step_fits_def step_open_def)

lemma step_fits_cong: "s_status s' = s_status s \<Longrightarrow> step_fits r s' = step_fits r s"
  by (simp add: step_fits_def)

text \<open>Updates that leave status, exit code and generation of steps alone.\<close>

lemma inv_step_detail:
  assumes "ci_inv db"
    and "\<And>s. s_id (f s) = s_id s \<and> s_run (f s) = s_run s \<and> s_type (f s) = s_type s \<and>
        s_generation (f s) = s_generation s \<and> s_status (f s) = s_status s \<and> s_exit (f s) = s_exit s"
  shows "ci_inv (update_step P f db)"
proof (rule inv_update_step [OF assms(1)])
  have "step_fits r (f s) = step_fits r s" for r s by (rule step_fits_cong) (simp add: assms(2))
  then show "step_update_ok P f db" unfolding step_update_ok_def using assms(2) by simp
qed

text \<open>Updates that settle open steps.\<close>

lemma inv_step_settle:
  assumes "ci_inv db"
    and "\<And>s. P s \<Longrightarrow> step_open (s_status s)"
    and "\<And>s. P s \<Longrightarrow> s_id (f s) = s_id s \<and> s_run (f s) = s_run s \<and> s_type (f s) = s_type s \<and>
        s_generation (f s) = s_generation s \<and> \<not> step_open (s_status (f s))"
  shows "ci_inv (update_step P f db)"
proof (rule inv_update_step [OF assms(1)])
  show "step_update_ok P f db"
    unfolding step_update_ok_def using assms(2,3)
    by (metis StepStatus.distinct(3,11) step_not_open_fits step_open_def)
qed

section \<open>Finishing runs\<close>

lemma settle_inv:
  assumes "ci_inv db" "\<not> step_open a" "\<not> step_open b"
  shows "ci_inv (settleOpenSteps now runID a b db)"
  unfolding settleOpenSteps_def using assms(2,3) by (intro inv_step_settle [OF assms(1)]) auto

lemma settle_settles:
  assumes "\<not> step_open a" "\<not> step_open b" "s \<in> set (db_steps (settleOpenSteps now runID a b db))" "s_run s = runID"
  shows "\<not> step_open (s_status s)"
  using assms(3) unfolding settleOpenSteps_def update_step_tables
  by (rule update_where_cases) (use assms in auto)

lemma settle_tables [simp]:
  "db_runs (settleOpenSteps now runID a b db) = db_runs db"
  "db_targets (settleOpenSteps now runID a b db) = db_targets db"
  "db_repos (settleOpenSteps now runID a b db) = db_repos db"
  "db_workers (settleOpenSteps now runID a b db) = db_workers db"
  "db_deployments (settleOpenSteps now runID a b db) = db_deployments db"
  by (simp_all add: settleOpenSteps_def)

text \<open>
  A run whose steps are all settled may be finished.
\<close>

lemma inv_finish_rows:
  assumes inv: "ci_inv db"
    and settled: "\<And>r s. r \<in> set (db_runs db) \<Longrightarrow> P r \<Longrightarrow> s \<in> set (db_steps db) \<Longrightarrow> s_run s = r_id r \<Longrightarrow> \<not> step_open (s_status s)"
    and f: "\<And>r. P r \<Longrightarrow> r_id (f r) = r_id r \<and> r_repo (f r) = r_repo r \<and> r_number (f r) = r_number r \<and>
        r_target (f r) = r_target r \<and> r_worker (f r) = r_worker r"
    and fin: "\<And>r. P r \<Longrightarrow> run_ok r \<Longrightarrow> r_finished (f r) \<noteq> None \<and>
        r_status (f r) \<notin> {StatusQueued, StatusRunning} \<and> r_token (f r) = None"
  shows "ci_inv (update_run P f db)"
proof (rule inv_update_run [OF inv])
  show "run_update_ok P f db"
    unfolding run_update_ok_def
  proof (intro ballI impI)
    fix r assume r: "r \<in> set (db_runs db)" "P r"
    from fin [OF r(2) inv_run_ok [OF inv r(1)]] have "run_ok (f r)" by (simp add: run_ok_def)
    moreover have "step_fits (f r) s" if "s \<in> set (db_steps db)" "s_run s = r_id r" for s
      using settled [OF r that] by (rule step_not_open_fits)
    ultimately show "r_id (f r) = r_id r \<and> r_repo (f r) = r_repo r \<and> r_number (f r) = r_number r \<and>
        r_target (f r) = r_target r \<and> run_ok (f r) \<and>
        (r_worker (f r) = None \<longrightarrow> r_worker r = None \<or> \<not> owns_target db (r_id r)) \<and>
        (\<forall>s\<in>set (db_steps db). s_run s = r_id r \<longrightarrow> step_fits r s \<longrightarrow> step_fits (f r) s)"
      using f [OF r(2)] by simp
  qed
qed

lemma finishRunRow_Inr:
  assumes "finishRunRow now runID status reason db = Inr (fr, db')"
  obtains r where "r \<in> set (db_runs db)" "r_id r = runID" "r_status r = StatusRunning" "fr = finished_run r"
    "status \<notin> {StatusQueued, StatusRunning}"
    "db' = update_run (\<lambda>r. r_id r = runID \<and> r_status r = StatusRunning)
       (\<lambda>r. r\<lparr>r_status := status,
          r_reason := (if status = StatusCancelled \<and> r_reason r \<noteq> [] then r_reason r else reason),
          r_finished := Some now, r_token := None\<rparr>) db"
  using assms
  by (auto simp: finishRunRow_def Let_def split: option.splits if_splits dest!: find_SomeD)

lemma finish_settle_inv:
  assumes inv: "ci_inv db" and fin: "finishRunRow now runID status reason db = Inr (fr, db')"
    and ab: "\<not> step_open a" "\<not> step_open b"
  shows "ci_inv (settleOpenSteps now runID a b db')"
proof -
  from fin obtain r where st: "status \<notin> {StatusQueued, StatusRunning}"
    and db': "db' = update_run (\<lambda>r. r_id r = runID \<and> r_status r = StatusRunning)
       (\<lambda>r. r\<lparr>r_status := status,
          r_reason := (if status = StatusCancelled \<and> r_reason r \<noteq> [] then r_reason r else reason),
          r_finished := Some now, r_token := None\<rparr>) db"
    by (rule finishRunRow_Inr)
  have "ci_inv (update_run (\<lambda>r. r_id r = runID \<and> r_status r = StatusRunning)
       (\<lambda>r. r\<lparr>r_status := status,
          r_reason := (if status = StatusCancelled \<and> r_reason r \<noteq> [] then r_reason r else reason),
          r_finished := Some now, r_token := None\<rparr>) (settleOpenSteps now runID a b db))"
    using st settle_settles [OF ab] by (intro inv_finish_rows settle_inv inv ab) auto
  then show ?thesis unfolding db' settleOpenSteps_def by (simp only: update_run_step_commute)
qed

lemma fold_summary_inv [ci_simps]:
  "ci_inv (fold (\<lambda>(key, v). insertSummary runID key v) es db) = ci_inv db"
proof (induction es arbitrary: db)
  case (Cons e es)
  have "ci_inv (case e of (key, v) \<Rightarrow> insertSummary runID key v db) = ci_inv db"
    by (cases e) (simp add: insertSummary_def inv_frame)
  then show ?case using Cons.IH [of "case e of (key, v) \<Rightarrow> insertSummary runID key v db"]
    by (simp add: case_prod_beta)
qed simp

lemma Finish_inv: "ci_inv db \<Longrightarrow> Finish now runID out db = Inr (u, db') \<Longrightarrow> ci_inv db'"
  by (auto simp: Finish_def Let_def ci_simps
      split: sum.splits ci_error.splits prod.splits if_splits elim!: finish_settle_inv)

lemma fail_lost_inv: "ci_inv db \<Longrightarrow> fail_lost now ids db = Inr (u, db') \<Longrightarrow> ci_inv db'"
proof (induction ids arbitrary: db)
  case (Cons i ids)
  then obtain fr db1 where "finishRunRow now i StatusFailed ''The worker running it stopped responding.'' db = Inr (fr, db1)"
      "fail_lost now ids (notify NotifyChannel i (settleOpenSteps now i StepFailed StepSkipped db1)) = Inr (u, db')"
    by (auto elim!: bind_result.elims)
  moreover from finish_settle_inv [OF Cons.prems(1) this(1)]
  have "ci_inv (notify NotifyChannel i (settleOpenSteps now i StepFailed StepSkipped db1))"
    by (simp add: ci_simps)
  ultimately show ?case using Cons.IH by blast
qed simp

lemma FailLostRuns_inv: "ci_inv db \<Longrightarrow> FailLostRuns locked now staleAfter db = Inr (n, db') \<Longrightarrow> ci_inv db'"
  by (auto simp: FailLostRuns_def Let_def bind_result_Inr split: prod.splits intro: fail_lost_inv)

section \<open>Cancelling runs\<close>

lemma cancelRunRow_inv:
  assumes inv: "ci_inv db" and c: "cancelRunRow now repoID number reason db = Inr (res, db')"
  shows "ci_inv db'"
proof -
  obtain r where r: "r \<in> set (db_runs db)"
    and db': "db' = (if r_status r = StatusQueued
            then settleOpenSteps now (r_id r) StepCancelled StepCancelled
                   (update_run (\<lambda>q. r_id q = r_id r) (\<lambda>q. q\<lparr>r_status := StatusCancelled,
                      r_reason := reason, r_finished := Some now\<rparr>) db)
            else if r_status r = StatusRunning
            then update_run (\<lambda>q. r_id q = r_id r) (\<lambda>q. q\<lparr>r_cancel := True, r_reason := reason\<rparr>) db
            else db)"
    using c by (auto simp: cancelRunRow_def split: option.splits dest!: find_SomeD)
  have same: "q = r" if "q \<in> set (db_runs db)" "r_id q = r_id r" for q
    using run_unique [OF inv that(1) r that(2)] .
  consider "r_status r = StatusQueued" | "r_status r = StatusRunning" | "db' = db"
    using db' by (cases "r_status r") auto
  then show ?thesis
  proof cases
    case 1
    let ?db = "settleOpenSteps now (r_id r) StepCancelled StepCancelled db"
    have "ci_inv (update_run (\<lambda>q. r_id q = r_id r) (\<lambda>q. q\<lparr>r_status := StatusCancelled,
                      r_reason := reason, r_finished := Some now\<rparr>) ?db)"
    proof (rule inv_update_run)
      show "ci_inv ?db" by (intro settle_inv inv) simp_all
      show "run_update_ok (\<lambda>q. r_id q = r_id r) (\<lambda>q. q\<lparr>r_status := StatusCancelled,
                      r_reason := reason, r_finished := Some now\<rparr>) ?db"
        unfolding run_update_ok_def
        using 1 same inv_run_ok [OF inv r] settle_settles [of StepCancelled StepCancelled _ now "r_id r" db]
        by (auto simp: run_ok_def intro!: step_not_open_fits)
    qed
    then show ?thesis using 1 by (simp add: db' settleOpenSteps_def update_run_step_commute)
  next
    case 2
    have "ci_inv (update_run (\<lambda>q. r_id q = r_id r) (\<lambda>q. q\<lparr>r_cancel := True, r_reason := reason\<rparr>) db)"
      using inv_run_ok [OF inv]
      by (intro inv_update_run inv) (auto simp: run_update_ok_def run_ok_def step_fits_def)
    then show ?thesis using 2 by (simp add: db')
  qed (simp add: inv)
qed

lemma Cancel_inv: "ci_inv db \<Longrightarrow> Cancel now repoID number by_name db = Inr (u, db') \<Longrightarrow> ci_inv db'"
  by (auto simp: Cancel_def bind_result_Inr ci_simps split: prod.splits if_splits intro: cancelRunRow_inv)

text \<open>The loop over superseded runs is one update.\<close>

lemma fold_cancel_steps:
  "fold (\<lambda>runID. update_step (\<lambda>s. s_run s = runID \<and> s_status s = StepPending)
        (\<lambda>s. s\<lparr>s_status := StepCancelled\<rparr>)) ids db =
   update_step (\<lambda>s. s_run s \<in> set ids \<and> s_status s = StepPending) (\<lambda>s. s\<lparr>s_status := StepCancelled\<rparr>) db"
proof (induction ids arbitrary: db)
  case Nil
  then show ?case by (simp add: update_step_def update_where_none)
next
  case (Cons i ids)
  show ?case by (simp add: Cons) (auto simp: update_step_def update_where_def)
qed

definition supersedable :: "string \<Rightarrow> Kind \<Rightarrow> string \<Rightarrow> int option \<Rightarrow> run_row \<Rightarrow> bool" where
  "supersedable repoID refKind refName beforeNumber r \<longleftrightarrow>
     r_repo r = repoID \<and> r_kind r = refKind \<and> r_ref r = refName \<and> r_status r = StatusQueued \<and>
     (case beforeNumber of None \<Rightarrow> True | Some n \<Rightarrow> r_number r < n)"

lemma supersedeQueued_alt:
  "supersedeQueued now repoID refKind refName beforeNumber reason db =
     (let P = supersedable repoID refKind refName beforeNumber;
          ids = map r_id (filter P (db_runs db))
      in (ids, update_run P (\<lambda>r. r\<lparr>r_status := StatusCancelled, r_reason := reason, r_finished := Some now\<rparr>)
           (update_step (\<lambda>s. s_run s \<in> set ids \<and> s_status s = StepPending)
              (\<lambda>s. s\<lparr>s_status := StepCancelled\<rparr>) db)))"
  unfolding supersedeQueued_def Let_def fold_cancel_steps update_run_step_commute supersedable_def by simp

lemma supersedeQueued_inv:
  assumes inv: "ci_inv db"
    and s: "supersedeQueued now repoID refKind refName beforeNumber reason db = (ids, db')"
  shows "ci_inv db'"
proof -
  define P where "P = supersedable repoID refKind refName beforeNumber"
  define db1 where "db1 = update_step (\<lambda>s. s_run s \<in> r_id ` {r \<in> set (db_runs db). P r} \<and> s_status s = StepPending)
              (\<lambda>s. s\<lparr>s_status := StepCancelled\<rparr>) db"
  have db': "db' = update_run P (\<lambda>r. r\<lparr>r_status := StatusCancelled, r_reason := reason, r_finished := Some now\<rparr>) db1"
    using s by (simp add: supersedeQueued_alt Let_def P_def db1_def)
  have inv1: "ci_inv db1" unfolding db1_def by (rule inv_step_settle [OF inv]) auto
  have settled: "\<not> step_open (s_status s)"
    if sr: "s \<in> set (db_steps db1)" "r \<in> set (db_runs db)" "P r" "s_run s = r_id r" for s r
  proof -
    have "step_fits r s"
      using inv_step_fits [OF inv1 sr(1), of r] sr by (simp add: db1_def)
    then have "s_status s \<noteq> StepRunning" using sr(3) by (simp add: step_fits_def P_def supersedable_def)
    moreover have "s_status s \<noteq> StepPending"
      using sr(1) unfolding db1_def update_step_tables
      by (rule update_where_cases) (use sr in auto)
    ultimately show ?thesis by (simp add: step_open_def)
  qed
  show ?thesis
    unfolding db' using settled
    by (intro inv_finish_rows inv1) (auto simp: db1_def run_ok_def P_def supersedable_def)
qed

lemma CancelQueuedTx_inv:
  "ci_inv db \<Longrightarrow> CancelQueuedTx now repoID refKind refName reason db = Inr (u, db') \<Longrightarrow> ci_inv db'"
  by (auto simp: CancelQueuedTx_def ci_simps split: prod.splits intro: supersedeQueued_inv)

section \<open>Claiming runs\<close>

lemma sort_key_filter_head:
  assumes "sort_key k (filter P xs) = x # rest"
  shows "x \<in> set xs" "P x" "\<And>y. y \<in> set xs \<Longrightarrow> P y \<Longrightarrow> k x \<le> k y"
proof -
  have set: "set (x # rest) = {y \<in> set xs. P y}" using assms by (metis set_filter set_sort)
  show "x \<in> set xs" "P x" using set by auto
  have "sorted (map k (x # rest))" using assms by (metis sorted_sort_key)
  then show "k x \<le> k y" if "y \<in> set xs" "P y" for y
    using set that by auto
qed

lemma claimNextRunForRepo_Inr:
  assumes "claimNextRunForRepo locked now workerID tokenHash timeout images repoID db = Inr (claim, db')"
  obtains r where "r \<in> set (db_runs db)" "claimable images db r" "r_repo r = repoID" "\<not> locked (r_id r)"
    "\<And>q. q \<in> set (db_runs db) \<Longrightarrow> claimable images db q \<Longrightarrow> r_repo q = repoID \<Longrightarrow> \<not> locked (r_id q) \<Longrightarrow>
       queue_key r \<le> queue_key q"
    "cl_RunID claim = r_id r" "workerID \<in> wk_id ` set (db_workers db)"
    "db' = update_run (\<lambda>q. r_id q = r_id r)
       (\<lambda>q. q\<lparr>r_status := StatusRunning, r_started := Some now, r_worker := Some workerID,
          r_token := Some tokenHash, r_deadline := Some (cl_Deadline claim)\<rparr>) db"
    "\<And>q. q \<in> set (db_runs db) \<Longrightarrow> r_token q = Some tokenHash \<Longrightarrow> r_id q = r_id r"
    "cl_RepoID claim = r_repo r" "cl_Commit claim = r_commit r"
    "cl_Deadline claim = now + (if r_timeout r \<noteq> 0 then r_timeout r else timeout)"
proof -
  obtain r rest where
    l: "sort_key queue_key (filter (\<lambda>r. claimable images db r \<and> r_repo r = repoID \<and> \<not> locked (r_id r)) (db_runs db)) = r # rest"
    and rest: "cl_RunID claim = r_id r" "workerID \<in> wk_id ` set (db_workers db)"
      "db' = update_run (\<lambda>q. r_id q = r_id r)
       (\<lambda>q. q\<lparr>r_status := StatusRunning, r_started := Some now, r_worker := Some workerID,
          r_token := Some tokenHash, r_deadline := Some (cl_Deadline claim)\<rparr>) db"
      "\<not> list_ex (\<lambda>q. r_id q \<noteq> r_id r \<and> r_token q = Some tokenHash) (db_runs db)"
      "cl_RepoID claim = r_repo r" "cl_Commit claim = r_commit r"
      "cl_Deadline claim = now + (if r_timeout r \<noteq> 0 then r_timeout r else timeout)"
    using assms
    by (auto simp: claimNextRunForRepo_def Let_def split: list.splits option.splits if_splits)
  note h = sort_key_filter_head [OF l]
  show thesis using h by (intro that [of r]) (use rest in \<open>auto simp: list_ex_iff\<close>)
qed

lemma claimNextRunForRepo_inv:
  assumes inv: "ci_inv db"
    and c: "claimNextRunForRepo locked now workerID tokenHash timeout images repoID db = Inr (claim, db')"
  shows "ci_inv db'"
  using c
proof (rule claimNextRunForRepo_Inr)
  fix r
  assume r: "r \<in> set (db_runs db)" "claimable images db r"
    and db': "db' = update_run (\<lambda>q. r_id q = r_id r)
       (\<lambda>q. q\<lparr>r_status := StatusRunning, r_started := Some now, r_worker := Some workerID,
          r_token := Some tokenHash, r_deadline := Some (cl_Deadline claim)\<rparr>) db"
  have queued: "r_status r = StatusQueued" using r by (simp add: claimable_def)
  have "run_ok r" using inv_run_ok [OF inv r(1)] .
  moreover have "q = r" if "q \<in> set (db_runs db)" "r_id q = r_id r" for q
    using run_unique [OF inv that(1) r(1) that(2)] .
  ultimately show "ci_inv db'"
    unfolding db' using queued
    by (intro inv_update_run inv) (auto simp: run_update_ok_def run_ok_def step_fits_def)
qed

lemma claim_first_Inr:
  "claim_first gate claim repos = Inr res \<Longrightarrow>
     \<exists>pre repo post. repos = pre @ repo # post \<and> gate repo \<and> claim repo = Inr res \<and>
       (\<forall>p\<in>set pre. \<not> gate p \<or> claim p = Inl NotFound)"
proof (induction repos)
  case (Cons p repos)
  show ?case
  proof (cases "gate p \<and> claim p \<noteq> Inl NotFound")
    case True
    then have "claim p = Inr res"
      using Cons.prems by (auto split: sum.splits ci_error.splits)
    then show ?thesis
      using True by - (rule exI [of _ "[]"], rule exI [of _ p], rule exI [of _ repos], simp)
  next
    case False
    then have "claim_first gate claim repos = Inr res"
      using Cons.prems by (auto split: sum.splits ci_error.splits if_splits)
    from Cons.IH [OF this] obtain pre repo post where
      "repos = pre @ repo # post" "gate repo" "claim repo = Inr res" "\<forall>p\<in>set pre. \<not> gate p \<or> claim p = Inl NotFound"
      by blast
    then show ?thesis
      using False by - (rule exI [of _ "p # pre"], rule exI [of _ repo], rule exI [of _ post], auto)
  qed
qed simp

lemma ClaimNext_Inr:
  assumes "ClaimNext hash gate locked now plain workerID defaultTimeout images db = Inr (Some claim, db')"
  obtains claim0 db0 where
    "claimNextRun gate locked now workerID (hash plain) defaultTimeout (normalizeImages images) db = Inr (claim0, db0)"
    "claim = claim0\<lparr>cl_FetchToken := plain\<rparr>" "db' = notify NotifyChannel (cl_RunID claim0) db0"
    "0 < defaultTimeout" "defaultTimeout \<le> MaxTimeout" "\<not> db_maintenance db"
  using assms by (auto simp: ClaimNext_def split: if_splits sum.splits ci_error.splits prod.splits)

lemma ClaimNext_inv:
  assumes inv: "ci_inv db"
    and c: "ClaimNext hash gate locked now plain workerID defaultTimeout images db = Inr (res, db')"
  shows "ci_inv db'"
proof (cases res)
  case None
  then show ?thesis using c inv by (auto simp: ClaimNext_def split: if_splits sum.splits ci_error.splits prod.splits)
next
  case (Some claim)
  with c obtain claim0 db0 where
    "claimNextRun gate locked now workerID (hash plain) defaultTimeout (normalizeImages images) db = Inr (claim0, db0)"
    and db': "db' = notify NotifyChannel (cl_RunID claim0) db0"
    by (auto elim: ClaimNext_Inr)
  from claim_first_Inr [OF this(1) [unfolded claimNextRun_def]] have "ci_inv db0"
    using claimNextRunForRepo_inv [OF inv] by blast
  then show ?thesis by (simp add: db' ci_simps)
qed

section \<open>Steps, logs and workers\<close>

lemma run_active_run:
  assumes "ci_inv db" "run_active db runID" "r \<in> set (db_runs db)" "r_id r = runID"
  shows "r_status r = StatusRunning \<and> \<not> r_cancel r \<and> r_finished r = None"
proof -
  obtain q where q: "q \<in> set (db_runs db)" "r_id q = runID" "r_status q = StatusRunning" "\<not> r_cancel q"
    using assms(2) by (auto simp: run_active_def list_ex_iff)
  then have "q = r" using run_unique [OF assms(1) q(1) assms(3)] assms(4) by simp
  then show ?thesis using q inv_run_ok [OF assms(1) q(1)] by (simp add: run_ok_def)
qed

lemma setStepRunning_inv:
  assumes inv: "ci_inv db" and c: "setStepRunning now stepID db = Inr (u, db')"
  shows "ci_inv db'"
proof -
  have "step_update_ok (\<lambda>s. s_id s = stepID \<and> s_status s = StepPending \<and> run_active db (s_run s))
     (\<lambda>s. s\<lparr>s_status := StepRunning, s_started := Some now\<rparr>) db"
    using run_active_run [OF inv] by (auto simp: step_update_ok_def step_fits_def)
  then show ?thesis using c by (auto simp: setStepRunning_def Let_def split: if_splits intro: inv_update_step [OF inv])
qed

lemma StepStarted_inv: "ci_inv db \<Longrightarrow> StepStarted now runID stepID db = Inr (u, db') \<Longrightarrow> ci_inv db'"
  by (auto simp: StepStarted_def bind_result_Inr ci_simps split: prod.splits intro: setStepRunning_inv)

lemma insertLogChunk_inv: "ci_inv db \<Longrightarrow> insertLogChunk stepID sq content db = Inr (u, db') \<Longrightarrow> ci_inv db'"
  by (auto simp: insertLogChunk_def ci_simps split: option.splits if_splits intro!: inv_step_detail)

lemma AppendLog_inv: "ci_inv db \<Longrightarrow> ci_inv (snd (AppendLog runID stepID sq content db))"
  by (auto simp: AppendLog_def ci_simps split: sum.splits prod.splits ci_error.splits
      intro!: inv_step_detail intro: insertLogChunk_inv)

lemma worker_ops_inv [ci_simps]:
  "ci_inv (RegisterWorker now workerID hostname db) = ci_inv db"
  "ci_inv (Heartbeat now workerID n db) = ci_inv db"
  "ci_inv (StopWorker now workerID db) = ci_inv db"
  "ci_inv (SetWorkerReadiness now workerID ready reason images db) = ci_inv db"
  by (simp_all add: RegisterWorker_def upsertWorker_def Heartbeat_def touchWorker_def StopWorker_def
      markWorkerStopped_def SetWorkerReadiness_def ci_simps)

lemma BindWorkerEngine_inv: "ci_inv db \<Longrightarrow> BindWorkerEngine now workerID engineID root db = Inr (u, db') \<Longrightarrow> ci_inv db'"
  by (auto simp: BindWorkerEngine_def ci_simps split: if_splits)

lemma update_steps_if_Inr:
  "update_steps_if P f db = Inr (u, db') \<longleftrightarrow> length (filter P (db_steps db)) = 1 \<and> db' = update_step P f db"
  by (auto simp: update_steps_if_def)

lemma PlanContainer_inv: "ci_inv db \<Longrightarrow> PlanContainer runID stepID name db = Inr (u, db') \<Longrightarrow> ci_inv db'"
  unfolding PlanContainer_def update_steps_if_Inr by (elim conjE, hypsubst, rule inv_step_detail) simp_all

lemma ContainerCreated_inv: "ci_inv db \<Longrightarrow> ContainerCreated runID stepID name db = Inr (u, db') \<Longrightarrow> ci_inv db'"
  unfolding ContainerCreated_def update_steps_if_Inr by (elim conjE, hypsubst, rule inv_step_detail) simp_all

lemma ContainerRemoved_inv: "ci_inv db \<Longrightarrow> ci_inv (ContainerRemoved now runID name db)"
  unfolding ContainerRemoved_def by (rule inv_step_detail) simp_all

lemma remove_containers_inv: "ci_inv db \<Longrightarrow> ci_inv (remove_containers now runID db)"
  unfolding remove_containers_def by (rule inv_step_detail) simp_all

lemma confirm_inv:
  assumes "ci_inv db" shows "ci_inv (confirmExecutionStoppedTx now runID db)"
  unfolding confirmExecutionStoppedTx_def
  by (intro inv_update_target target_update_okI inv_step_settle assms) auto

lemma ConfirmContainersRemoved_inv: "ci_inv db \<Longrightarrow> ci_inv (ConfirmContainersRemoved now runID db)"
  by (simp add: ConfirmContainersRemoved_def ConfirmExecutionStopped_def remove_containers_inv confirm_inv)

section \<open>Receipts\<close>

definition add_deployment :: "deployment_row \<Rightarrow> ci_db \<Rightarrow> ci_db" where
  "add_deployment d db = db\<lparr>db_deployments := db_deployments db @ [d]\<rparr>"

lemma add_deployment_tables [simp]:
  "db_deployments (add_deployment d db) = db_deployments db @ [d]"
  "db_runs (add_deployment d db) = db_runs db" "db_repos (add_deployment d db) = db_repos db"
  "db_steps (add_deployment d db) = db_steps db" "db_targets (add_deployment d db) = db_targets db"
  "db_workers (add_deployment d db) = db_workers db"
  by (simp_all add: add_deployment_def)

lemma inv_add_deployment:
  assumes inv: "ci_inv db" and new: "dp_step d \<notin> dp_step ` set (db_deployments db)"
    and r: "r \<in> set (db_runs db)" "dp_run d = Some (r_id r)" "run_key r = (dp_repo d, dp_target d)"
    and t: "t \<in> set (db_targets db)" "target_key t = run_key r" "r_number r \<le> dt_latest t"
    and st: "st \<in> set (db_steps db)" "s_id st = dp_step d" "s_run st = r_id r" "s_type st = StepDeploy"
      "s_status st = StepPassed" "s_exit st = Some 0"
  shows "ci_inv (add_deployment d db)"
proof -
  have same: "db_runs (add_deployment d db) = db_runs db" "db_repos (add_deployment d db) = db_repos db"
    "db_steps (add_deployment d db) = db_steps db" "db_targets (add_deployment d db) = db_targets db"
    by simp_all
  have old: "deployment_ok (add_deployment d db) e" if "e \<in> set (db_deployments db)" for e
    using inv that unfolding ci_inv_def deployments_inv_def deployment_ok_def same by blast
  have "deployment_ok (add_deployment d db) d"
  proof (rule deployment_okI, goal_cases)
    case (1 q)
    then have "q = r" using run_unique [OF inv _ r(1)] r(2) by simp
    then show ?case using r(3) t by auto
  next
    case (2 s)
    then have "s = st" using step_unique [OF inv _ st(1)] st(2) by simp
    then show ?case using st r(2) by simp
  qed
  then have "deployments_inv (add_deployment d db)"
    using old new inv_deployments_distinct [OF inv] inv_deployment_run_exists [OF inv] r(1,2)
    by (intro deployments_invI) auto
  moreover have "runs_inv (add_deployment d db)" "steps_inv (add_deployment d db)"
    "owners_inv (add_deployment d db)" "generations_inv (add_deployment d db)"
    using inv unfolding ci_inv_def runs_inv_def steps_inv_def owners_inv_def owner_ok_def
      generations_inv_def holds_def same by blast+
  ultimately show ?thesis by (simp add: ci_inv_def)
qed

definition receipt :: "timestamp \<Rightarrow> string \<Rightarrow> StepStatus \<Rightarrow> int option \<Rightarrow> ci_db \<Rightarrow> ci_db" where
  "receipt now stepID status exitcode =
     update_step (\<lambda>s. s_id s = stepID)
       (\<lambda>s. s\<lparr>s_status := status, s_exit := exitcode,
          s_finished := (case s_finished s of None \<Rightarrow> Some now | Some t \<Rightarrow> Some t)\<rparr>)"

lemma receipt_inv:
  assumes inv: "ci_inv db" and st: "st \<in> set (db_steps db)" "s_id st = stepID"
    and fresh: "step_open (s_status st) \<or> s_exit st = None" and final: "\<not> step_open status"
  shows "ci_inv (receipt now stepID status exitcode db)"
  unfolding receipt_def
proof (rule inv_update_step [OF inv])
  have "s = st" if "s \<in> set (db_steps db)" "s_id s = stepID" for s
    using step_unique [OF inv that(1) st(1)] that st by simp
  then show "step_update_ok (\<lambda>s. s_id s = stepID) (\<lambda>s. s\<lparr>s_status := status, s_exit := exitcode,
          s_finished := (case s_finished s of None \<Rightarrow> Some now | Some t \<Rightarrow> Some t)\<rparr>) db"
    unfolding step_update_ok_def using fresh final by (auto intro!: step_not_open_fits)
qed

lemma record_deployment_Inr:
  assumes "record_deployment now newID runID stepID generation exitcode recovery db = Inr (u, db')"
  obtains g r t where "generation = Some g" "exitcode = Some 0" "r \<in> set (db_runs db)" "r_id r = runID"
    "recovery \<or> r_status r = StatusRunning" "t \<in> set (db_targets db)" "target_key t = run_key r"
    "dt_owner t = Some (runID, stepID)" "dt_generation t = g"
    "db' = update_target (\<lambda>t. target_key t = run_key r) (\<lambda>t. t\<lparr>dt_latest := max (dt_latest t) (r_number r)\<rparr>)
       (if stepID \<in> dp_step ` set (db_deployments db) then db
        else add_deployment \<lparr>dp_id = newID, dp_repo = r_repo r, dp_target = r_target r, dp_version = r_version r,
          dp_commit = r_commit r, dp_run = Some runID, dp_person = r_person r, dp_step = stepID,
          dp_created = now\<rparr> db)"
  using assms
  by (auto simp: record_deployment_def bind_result_Inr insertDeployment_def add_deployment_def finished_run_def
      target_key_def run_key_def list_ex_iff split: option.splits if_splits dest!: find_SomeD)

lemma release_step_inv: "ci_inv db \<Longrightarrow> ci_inv (release_step runID stepID g db)"
  unfolding release_step_def by (intro inv_update_target target_update_okI)

lemma receipt_add_commute: "receipt now stepID st c (add_deployment d db) = add_deployment d (receipt now stepID st c db)"
  by (simp add: receipt_def add_deployment_def update_step_def)

lemma target_add_commute: "update_target P f (add_deployment d db) = add_deployment d (update_target P f db)"
  by (simp add: update_target_def add_deployment_def)

lemma receipt_target_commute: "receipt now stepID st c (update_target P f db) = update_target P f (receipt now stepID st c db)"
  by (simp add: receipt_def update_target_step_commute)

lemma receipt_tables [simp]:
  "db_runs (receipt now stepID st c db) = db_runs db" "db_targets (receipt now stepID st c db) = db_targets db"
  "db_deployments (receipt now stepID st c db) = db_deployments db"
  "db_workers (receipt now stepID st c db) = db_workers db" "db_repos (receipt now stepID st c db) = db_repos db"
  by (simp_all add: receipt_def)

lemma finishExecutionReceipt_alt:
  "finishExecutionReceipt now newID runID stepID status exitcode recovery db =
     (case find (\<lambda>s. s_id s = stepID \<and> s_run s = runID) (db_steps db) of
        None \<Rightarrow> Inl NotFound
      | Some st \<Rightarrow>
          if \<not> step_open (s_status st) \<and> (\<not> recovery \<or> s_exit st \<noteq> None) then Inr ((), db)
          else bind_result
            (if s_type st = StepDeploy \<and> status = StepPassed
             then record_deployment now newID runID stepID (s_generation st) exitcode recovery db
             else Inr ((), db)) (\<lambda>(_, db1).
            Inr ((), case s_generation st of
               Some g \<Rightarrow> (if s_type st = StepDeploy then release_step runID stepID g (receipt now stepID status exitcode db1)
                          else receipt now stepID status exitcode db1)
             | None \<Rightarrow> receipt now stepID status exitcode db1)))"
  unfolding finishExecutionReceipt_def receipt_def Let_def by (rule refl)

lemma finishExecutionReceipt_Inr:
  assumes "finishExecutionReceipt now newID runID stepID status exitcode recovery db = Inr (u, db')"
  obtains (kept) "db' = db"
  | (written) st db1 where "st \<in> set (db_steps db)" "s_id st = stepID" "s_run st = runID"
      "step_open (s_status st) \<or> recovery \<and> s_exit st = None"
      "if s_type st = StepDeploy \<and> status = StepPassed
       then record_deployment now newID runID stepID (s_generation st) exitcode recovery db = Inr ((), db1)
       else db1 = db"
      "db' = (case s_generation st of
          Some g \<Rightarrow> (if s_type st = StepDeploy then release_step runID stepID g (receipt now stepID status exitcode db1)
                     else receipt now stepID status exitcode db1)
        | None \<Rightarrow> receipt now stepID status exitcode db1)"
proof -
  obtain st where st: "find (\<lambda>s. s_id s = stepID \<and> s_run s = runID) (db_steps db) = Some st"
    using assms by (auto simp: finishExecutionReceipt_alt split: option.splits)
  note found = find_SomeD [OF st]
  show thesis
  proof (cases "\<not> step_open (s_status st) \<and> (\<not> recovery \<or> s_exit st \<noteq> None)")
    case True
    then show thesis using assms st kept by (simp add: finishExecutionReceipt_alt)
  next
    case False
    then obtain db1 where "if s_type st = StepDeploy \<and> status = StepPassed
       then record_deployment now newID runID stepID (s_generation st) exitcode recovery db = Inr ((), db1)
       else db1 = db"
      "db' = (case s_generation st of
          Some g \<Rightarrow> (if s_type st = StepDeploy then release_step runID stepID g (receipt now stepID status exitcode db1)
                     else receipt now stepID status exitcode db1)
        | None \<Rightarrow> receipt now stepID status exitcode db1)"
      using assms st
      by (auto simp: finishExecutionReceipt_alt bind_result_Inr split: if_splits)
    then show thesis using found False by (intro written) auto
  qed
qed

lemma finishExecutionReceipt_inv:
  assumes inv: "ci_inv db" and final: "\<not> step_open status"
    and c: "finishExecutionReceipt now newID runID stepID status exitcode recovery db = Inr (u, db')"
  shows "ci_inv db'"
  using c
proof (cases rule: finishExecutionReceipt_Inr)
  case (written st db1)
  have "ci_inv (receipt now stepID status exitcode db1)"
  proof (cases "s_type st = StepDeploy \<and> status = StepPassed")
    case False
    then have "db1 = db" using written(5) by (simp split: if_splits)
    then show ?thesis using receipt_inv [OF inv written(1,2) _ final] written(4) by blast
  next
    case True
    with written(5) have "record_deployment now newID runID stepID (s_generation st) exitcode recovery db = Inr ((), db1)"
      by simp
    then obtain g r t where r: "exitcode = Some 0" "r \<in> set (db_runs db)" "r_id r = runID"
        "t \<in> set (db_targets db)" "target_key t = run_key r"
      and db1: "db1 = update_target (\<lambda>t. target_key t = run_key r) (\<lambda>t. t\<lparr>dt_latest := max (dt_latest t) (r_number r)\<rparr>)
       (if stepID \<in> dp_step ` set (db_deployments db) then db
        else add_deployment \<lparr>dp_id = newID, dp_repo = r_repo r, dp_target = r_target r, dp_version = r_version r,
          dp_commit = r_commit r, dp_run = Some runID, dp_person = r_person r, dp_step = stepID,
          dp_created = now\<rparr> db)"
      by (rule record_deployment_Inr)
    define db2 where "db2 = update_target (\<lambda>t. target_key t = run_key r)
        (\<lambda>t. t\<lparr>dt_latest := max (dt_latest t) (r_number r)\<rparr>) (receipt now stepID status exitcode db)"
    have inv2: "ci_inv db2"
      unfolding db2_def using written final by (intro inv_update_target target_update_okI receipt_inv [of _ st] inv) auto
    let ?t = "t\<lparr>dt_latest := max (dt_latest t) (r_number r)\<rparr>"
    have t: "?t \<in> set (db_targets db2)" "target_key ?t = run_key r"
      using r(4,5) by (auto simp: db2_def in_update_where target_key_def)
    let ?st = "st\<lparr>s_status := StepPassed, s_exit := Some 0,
          s_finished := (case s_finished st of None \<Rightarrow> Some now | Some t \<Rightarrow> Some t)\<rparr>"
    have st: "?st \<in> set (db_steps db2)"
      using written(1,2) True r(1) by (auto simp: db2_def receipt_def in_update_where)
    show ?thesis
    proof (cases "stepID \<in> dp_step ` set (db_deployments db)")
      case True
      then show ?thesis using inv2 by (simp add: db1 db2_def receipt_target_commute)
    next
      case False
      have "ci_inv (add_deployment \<lparr>dp_id = newID, dp_repo = r_repo r, dp_target = r_target r, dp_version = r_version r,
          dp_commit = r_commit r, dp_run = Some runID, dp_person = r_person r, dp_step = stepID,
          dp_created = now\<rparr> db2)"
        using False r(2,3) written(2,3) True t st
        by (intro inv_add_deployment [OF inv2, of _ r ?t ?st]) (auto simp: db2_def run_key_def)
      then show ?thesis using False
        by (simp add: db1 db2_def receipt_target_commute receipt_add_commute target_add_commute)
    qed
  qed
  then show ?thesis using written(6) by (auto split: option.splits if_splits intro: release_step_inv)
qed (simp add: inv)

lemma StepFinished_inv:
  "ci_inv db \<Longrightarrow> \<not> step_open status \<Longrightarrow> StepFinished now newID runID stepID status exitcode db = Inr (u, db') \<Longrightarrow> ci_inv db'"
  by (auto simp: StepFinished_def finishRecordedStep_def bind_result_Inr ci_simps split: prod.splits
      intro: finishExecutionReceipt_inv)

lemma RecoverStepExit_inv: "ci_inv db \<Longrightarrow> RecoverStepExit now newID runID name c db = Inr (u, db') \<Longrightarrow> ci_inv db'"
  by (auto simp: RecoverStepExit_def split: option.splits if_splits intro: finishExecutionReceipt_inv [rotated 2])

section \<open>Taking a deployment target\<close>

lemma inv_insert_target:
  assumes inv: "ci_inv db" shows "ci_inv (insert_target repoID target db)"
proof (cases "list_ex (\<lambda>t. dt_repo t = repoID \<and> dt_target t = target) (db_targets db)")
  case False
  define new where "new = \<lparr>dt_repo = repoID, dt_target = target, dt_generation = 0, dt_latest = 0, dt_owner = None\<rparr>"
  define db' where "db' = db\<lparr>db_targets := db_targets db @ [new]\<rparr>"
  have same: "db_runs db' = db_runs db" "db_repos db' = db_repos db" "db_steps db' = db_steps db"
    "db_deployments db' = db_deployments db" and targets: "db_targets db' = db_targets db @ [new]"
    by (simp_all add: db'_def)
  have "runs_inv db'" "steps_inv db'"
    using inv unfolding ci_inv_def runs_inv_def steps_inv_def same by blast+
  moreover have "owners_inv db'"
  proof -
    have "target_key new \<notin> set (map target_key (db_targets db))"
      using False by (auto simp: list_ex_iff new_def target_key_def)
    moreover have "owner_ok db' t = owner_ok db t" for t unfolding owner_ok_def same ..
    moreover have "owner_ok db new" by (simp add: owner_ok_def new_def)
    ultimately show ?thesis using inv by (simp add: ci_inv_def owners_inv_def targets)
  qed
  moreover have "generations_inv db'"
  proof (rule generations_invI)
    have holds: "holds db' s k g = holds db s k g" for s k g unfolding holds_def same ..
    show "\<exists>t\<in>set (db_targets db'). target_key t = k \<and> g \<le> dt_generation t" if "holds db' s k g" for s k g
      using inv_held [OF inv that [unfolded holds]] by (auto simp: targets)
    show "s_id s = s_id s'" if "holds db' s k g" "holds db' s' k g" for s s' k g
      using inv_held_unique [OF inv that [unfolded holds]] .
  qed
  moreover have "deployments_inv db'"
  proof (rule deployments_invI, goal_cases)
    case (3 d)
    then have d: "d \<in> set (db_deployments db)" by (simp add: same)
    have "deployment_ok db d" using inv d by (simp add: ci_inv_def deployments_inv_def)
    then show ?case unfolding deployment_ok_def same targets set_append by blast
  qed (use inv_deployments_distinct [OF inv] inv_deployment_run_exists [OF inv] in \<open>simp_all add: same\<close>)
  ultimately show ?thesis using False by (simp add: insert_target_def ci_inv_def db'_def new_def)
qed (simp add: insert_target_def inv)

lemma insert_target_tables [simp]:
  "db_runs (insert_target repoID target db) = db_runs db"
  "db_steps (insert_target repoID target db) = db_steps db"
  "db_deployments (insert_target repoID target db) = db_deployments db"
  "db_workers (insert_target repoID target db) = db_workers db"
  "db_repos (insert_target repoID target db) = db_repos db"
  by (simp_all add: insert_target_def)

text \<open>\<open>take_target\<close> is the last step of an acquisition: a new generation, for the target and the step.\<close>

definition take_target :: "string \<times> string \<Rightarrow> string \<Rightarrow> string \<Rightarrow> int \<Rightarrow> ci_db \<Rightarrow> ci_db" where
  "take_target k runID stepID g db =
     update_step (\<lambda>s. s_id s = stepID) (\<lambda>s. s\<lparr>s_generation := Some g\<rparr>)
       (update_target (\<lambda>t. target_key t = k)
          (\<lambda>t. t\<lparr>dt_owner := Some (runID, stepID), dt_generation := g\<rparr>) db)"

definition new_step :: "string \<Rightarrow> int \<Rightarrow> step_row \<Rightarrow> step_row" where
  "new_step stepID g s = (if s_id s = stepID then s\<lparr>s_generation := Some g\<rparr> else s)"

definition new_target :: "string \<times> string \<Rightarrow> string \<Rightarrow> string \<Rightarrow> int \<Rightarrow> target_row \<Rightarrow> target_row" where
  "new_target k runID stepID g t =
     (if target_key t = k then t\<lparr>dt_owner := Some (runID, stepID), dt_generation := g\<rparr> else t)"

lemma new_step_simps [simp]:
  "s_id (new_step i g s) = s_id s" "s_run (new_step i g s) = s_run s" "s_type (new_step i g s) = s_type s"
  "s_status (new_step i g s) = s_status s" "s_exit (new_step i g s) = s_exit s"
  "s_generation (new_step i g s) = (if s_id s = i then Some g else s_generation s)"
  by (simp_all add: new_step_def)

lemma new_target_simps [simp]:
  "target_key (new_target k i j g t) = target_key t" "dt_latest (new_target k i j g t) = dt_latest t"
  "dt_owner (new_target k i j g t) = (if target_key t = k then Some (i, j) else dt_owner t)"
  "dt_generation (new_target k i j g t) = (if target_key t = k then g else dt_generation t)"
  by (simp_all add: new_target_def target_key_def)

lemma take_target_tables [simp]:
  "db_runs (take_target k i j g db) = db_runs db" "db_repos (take_target k i j g db) = db_repos db"
  "db_deployments (take_target k i j g db) = db_deployments db"
  "db_workers (take_target k i j g db) = db_workers db"
  "db_steps (take_target k i j g db) = map (new_step j g) (db_steps db)"
  "db_targets (take_target k i j g db) = map (new_target k i j g) (db_targets db)"
  by (simp_all add: take_target_def update_where_def new_step_def new_target_def)

text \<open>The situation in which a step takes a target: its run is running, and nobody owns the target.\<close>

definition free_target :: "ci_db \<Rightarrow> run_row \<Rightarrow> step_row \<Rightarrow> target_row \<Rightarrow> bool" where
  "free_target db r st t \<longleftrightarrow>
     ci_inv db \<and> r \<in> set (db_runs db) \<and> r_status r = StatusRunning \<and>
     st \<in> set (db_steps db) \<and> s_run st = r_id r \<and> s_type st = StepDeploy \<and>
     t \<in> set (db_targets db) \<and> target_key t = run_key r \<and> dt_owner t = None"

abbreviation taken :: "ci_db \<Rightarrow> run_row \<Rightarrow> step_row \<Rightarrow> target_row \<Rightarrow> ci_db" where
  "taken db r st t \<equiv> take_target (run_key r) (r_id r) (s_id st) (dt_generation t + 1) db"

lemma steps_taken:
  assumes "ci_inv db" shows "steps_inv (take_target k i j g db)"
proof -
  have "\<exists>q\<in>set (db_runs db). r_id q = s_run s \<and> step_fits q (new_step j g s)" if s: "s \<in> set (db_steps db)" for s
  proof -
    from inv_step_run [OF assms s] obtain q where "q \<in> set (db_runs db)" "r_id q = s_run s" "step_fits q s" .
    moreover have "step_fits q (new_step j g s) = step_fits q s" by (rule step_fits_cong) simp
    ultimately show ?thesis by auto
  qed
  then show ?thesis using assms by (simp add: ci_inv_def steps_inv_def comp_def)
qed

lemma owners_taken:
  assumes ft: "free_target db r st t" shows "owners_inv (taken db r st t)"
proof -
  note f = ft [unfolded free_target_def]
  have inv: "ci_inv db" using f by simp
  have "owner_ok (taken db r st t) (new_target (run_key r) (r_id r) (s_id st) (dt_generation t + 1) u)"
    if u: "u \<in> set (db_targets db)" for u
  proof (cases "target_key u = run_key r")
    case True
    have "r_worker r \<noteq> None" using inv_run_ok [OF inv, of r] f by (simp add: run_ok_def)
    then show ?thesis using True f unfolding owner_ok_def by auto
  next
    case False
    have "owner_ok db u" using inv u by (simp add: ci_inv_def owners_inv_def)
    moreover have "s_id s \<noteq> s_id st"
      if "s \<in> set (db_steps db)" "q \<in> set (db_runs db)" "r_id q = s_run s" "run_key q = target_key u" for s q
      using that False step_unique [OF inv that(1), of st] run_unique [OF inv that(2), of r] f by auto
    ultimately show ?thesis using False unfolding owner_ok_def by fastforce
  qed
  then show ?thesis using inv by (simp add: ci_inv_def owners_inv_def comp_def)
qed

lemma holds_taken:
  assumes ft: "free_target db r st t" and h: "holds (taken db r st t) s' k g"
  obtains "s_id s' = s_id st" "k = run_key r" "g = dt_generation t + 1" | s where "holds db s k g" "s_id s' = s_id s"
proof -
  note f = ft [unfolded free_target_def]
  have inv: "ci_inv db" using f by simp
  obtain s q where s: "s \<in> set (db_steps db)" "s' = new_step (s_id st) (dt_generation t + 1) s"
    "s_generation s' = Some g" "q \<in> set (db_runs db)" "r_id q = s_run s" "run_key q = k"
    using h by (auto simp: holds_def)
  show thesis
  proof (cases "s_id s = s_id st")
    case True
    then have "s = st" using step_unique [OF inv s(1), of st] f by simp
    then have "q = r" using run_unique [OF inv s(4), of r] s(5) f by simp
    then show thesis using s \<open>s = st\<close> by (intro that(1)) auto
  next
    case False
    then show thesis using s by (intro that(2) [of s]) (auto simp: holds_def)
  qed
qed

lemma generations_taken:
  assumes ft: "free_target db r st t" shows "generations_inv (taken db r st t)"
proof (rule generations_invI)
  note f = ft [unfolded free_target_def]
  have inv: "ci_inv db" using f by simp
  have same: "u = t" if "u \<in> set (db_targets db)" "target_key u = run_key r" for u
    using target_unique [OF inv that(1), of t] that(2) f by simp
  have below: "g \<le> dt_generation t" if h: "holds db s (run_key r) g" for s g
    using inv_held [OF inv h] same by metis
  show "\<exists>u\<in>set (db_targets (taken db r st t)). target_key u = k \<and> g \<le> dt_generation u"
    if "holds (taken db r st t) s k g" for s k g
    using ft that
  proof (cases rule: holds_taken)
    case 1
    then show ?thesis using f by auto
  next
    case (2 s0)
    from inv_held [OF inv 2(1)] obtain u where "u \<in> set (db_targets db)" "target_key u = k" "g \<le> dt_generation u" .
    then show ?thesis using same [of u]
      by (intro bexI [of _ "new_target (run_key r) (r_id r) (s_id st) (dt_generation t + 1) u"]) auto
  qed
  show "s_id s = s_id s'" if h: "holds (taken db r st t) s k g" "holds (taken db r st t) s' k g" for s s' k g
    using ft h(1)
  proof (cases rule: holds_taken)
    case 1
    show ?thesis using ft h(2)
      by (cases rule: holds_taken) (use 1 below in fastforce)+
  next
    case (2 s0)
    note s0 = 2
    show ?thesis using ft h(2)
    proof (cases rule: holds_taken)
      case 1
      then show ?thesis using below [of s0 g] s0 by simp
    next
      case (2 s1)
      then show ?thesis using inv_held_unique [OF inv s0(1) 2(1)] s0(2) by simp
    qed
  qed
qed

lemma deployments_taken:
  assumes inv: "ci_inv db" shows "deployments_inv (take_target k i j g db)"
proof (rule deployments_invI, goal_cases)
  case (3 d)
  then have d: "d \<in> set (db_deployments db)" by simp
  have "deployment_ok db d" using inv d by (simp add: ci_inv_def deployments_inv_def)
  then show ?case unfolding deployment_ok_def by auto
qed (use inv_deployments_distinct [OF inv] inv_deployment_run_exists [OF inv] in simp_all)

lemma taken_inv: "free_target db r st t \<Longrightarrow> ci_inv (taken db r st t)"
  using steps_taken [of db] owners_taken [of db r st t] generations_taken [of db r st t] deployments_taken [of db]
  by (simp add: free_target_def ci_inv_def runs_inv_def)

lemma BeginDeployment_Inr:
  assumes "BeginDeployment now runID stepID db = Inr (u, db')"
  obtains r st t where "r \<in> set (db_runs db)" "r_id r = runID" "r_status r = StatusRunning" "\<not> r_cancel r"
    "st \<in> set (db_steps db)" "s_id st = stepID" "s_run st = runID" "s_status st = StepRunning" "s_type st = StepDeploy"
    "t \<in> set (db_targets (insert_target (r_repo r) (r_target r) db))" "target_key t = run_key r"
    "\<not> (r_trigger r = TriggerPush \<and> r_number r < dt_latest t)"
    "(\<exists>ownerRun. dt_owner t = Some (ownerRun, stepID) \<and>
        db' = update_step (\<lambda>s. s_id s = stepID) (\<lambda>s. s\<lparr>s_generation := Some (dt_generation t)\<rparr>)
          (insert_target (r_repo r) (r_target r) db)) \<or>
     dt_owner t = None \<and> db' = taken (insert_target (r_repo r) (r_target r) db) r st t"
proof -
  obtain r where r: "find (\<lambda>r. r_id r = runID \<and> r_status r = StatusRunning \<and> \<not> r_cancel r \<and> r_target r \<noteq> [] \<and>
              (case r_deadline r of None \<Rightarrow> False | Some d \<Rightarrow> now < d)) (db_runs db) = Some r"
    using assms by (auto simp: BeginDeployment_def split: option.splits)
  obtain st where st: "find (\<lambda>s. s_id s = stepID \<and> s_run s = runID \<and> s_status s = StepRunning) (db_steps db) = Some st"
    using assms r by (auto simp: BeginDeployment_def split: option.splits)
  let ?db = "insert_target (r_repo r) (r_target r) db"
  obtain t where t: "find (\<lambda>t. dt_repo t = r_repo r \<and> dt_target t = r_target r) (db_targets ?db) = Some t"
    using assms r st by (auto simp: BeginDeployment_def Let_def split: option.splits if_splits)
  note found = find_SomeD [OF r] find_SomeD [OF st] find_SomeD [OF t]
  have key: "(\<lambda>t. target_key t = run_key r) = (\<lambda>t. dt_repo t = r_repo r \<and> dt_target t = r_target r)"
    by (auto simp: target_key_def run_key_def)
  have "s_type st = StepDeploy" "\<not> (r_trigger r = TriggerPush \<and> r_number r < dt_latest t)"
    "(\<exists>ownerRun. dt_owner t = Some (ownerRun, stepID) \<and>
        db' = update_step (\<lambda>s. s_id s = stepID) (\<lambda>s. s\<lparr>s_generation := Some (dt_generation t)\<rparr>) ?db) \<or>
     dt_owner t = None \<and> db' = update_step (\<lambda>s. s_id s = stepID) (\<lambda>s. s\<lparr>s_generation := Some (dt_generation t + 1)\<rparr>)
       (update_target (\<lambda>t. dt_repo t = r_repo r \<and> dt_target t = r_target r)
          (\<lambda>u. u\<lparr>dt_owner := Some (runID, stepID), dt_generation := dt_generation t + 1\<rparr>) ?db)"
    using assms r st t by (auto simp: BeginDeployment_def Let_def split: option.splits if_splits prod.splits)
  then show thesis
    using found by (intro that [of r st t]) (auto simp: take_target_def key target_key_def run_key_def)
qed

lemma BeginDeployment_inv:
  assumes inv: "ci_inv db" and c: "BeginDeployment now runID stepID db = Inr (u, db')"
  shows "ci_inv db'"
  using c
proof (rule BeginDeployment_Inr)
  fix r st t
  assume r: "r \<in> set (db_runs db)" "r_id r = runID" "r_status r = StatusRunning"
    and st: "st \<in> set (db_steps db)" "s_id st = stepID" "s_run st = runID" "s_type st = StepDeploy"
    and t: "t \<in> set (db_targets (insert_target (r_repo r) (r_target r) db))" "target_key t = run_key r"
    and cases: "(\<exists>ownerRun. dt_owner t = Some (ownerRun, stepID) \<and>
        db' = update_step (\<lambda>s. s_id s = stepID) (\<lambda>s. s\<lparr>s_generation := Some (dt_generation t)\<rparr>)
          (insert_target (r_repo r) (r_target r) db)) \<or>
     dt_owner t = None \<and> db' = taken (insert_target (r_repo r) (r_target r) db) r st t"
  define db0 where "db0 = insert_target (r_repo r) (r_target r) db"
  have inv0: "ci_inv db0" unfolding db0_def by (rule inv_insert_target [OF inv])
  from cases show ?thesis
  proof
    assume "\<exists>ownerRun. dt_owner t = Some (ownerRun, stepID) \<and>
        db' = update_step (\<lambda>s. s_id s = stepID) (\<lambda>s. s\<lparr>s_generation := Some (dt_generation t)\<rparr>)
          (insert_target (r_repo r) (r_target r) db)"
    then obtain ownerRun where o: "dt_owner t = Some (ownerRun, stepID)"
      and db': "db' = update_step (\<lambda>s. s_id s = stepID) (\<lambda>s. s\<lparr>s_generation := Some (dt_generation t)\<rparr>) db0"
      by (auto simp: db0_def)
    have "owner_ok db0 t" using inv0 t by (simp add: ci_inv_def owners_inv_def db0_def)
    then obtain s0 where s0: "s0 \<in> set (db_steps db0)" "s_id s0 = stepID" "s_generation s0 = Some (dt_generation t)"
      using o unfolding owner_ok_def by blast
    have "s_generation s = Some (dt_generation t)" if "s \<in> set (db_steps db0)" "s_id s = stepID" for s
      using step_unique [OF inv0 that(1) s0(1)] that(2) s0 by simp
    then have "step_update_ok (\<lambda>s. s_id s = stepID) (\<lambda>s. s\<lparr>s_generation := Some (dt_generation t)\<rparr>) db0"
      by (auto simp: step_update_ok_def step_fits_def)
    then show ?thesis unfolding db' by (rule inv_update_step [OF inv0])
  next
    assume "dt_owner t = None \<and> db' = taken (insert_target (r_repo r) (r_target r) db) r st t"
    then have "free_target db0 r st t" and "db' = taken db0 r st t"
      using inv0 r st t by (auto simp: free_target_def db0_def)
    then show ?thesis using taken_inv by simp
  qed
qed

end
