(* ===== verification/Ci_Lifecycle.thy ===== *)
theory Ci_Lifecycle
  imports Ci_Preserve
begin

text \<open>
  Deleting, creating and releasing runs keep the invariant; the operations of the run service as
  one transition system, and what holds of every state it reaches.
\<close>

section \<open>Deleting runs and workers\<close>

lemma distinct_map_filter_sub: "distinct (map f xs) \<Longrightarrow> distinct (map f (filter P xs))"
  by (simp add: distinct_map_filter)

lemma delete_runs_tables [simp]:
  "db_runs (delete_runs ids db) = filter (\<lambda>r. r_id r \<notin> set ids) (db_runs db)"
  "db_steps (delete_runs ids db) = filter (\<lambda>s. s_run s \<notin> set ids) (db_steps db)"
  "db_deployments (delete_runs ids db) = update_where (\<lambda>d. \<exists>i\<in>set ids. dp_run d = Some i)
      (\<lambda>d. d\<lparr>dp_run := None\<rparr>) (db_deployments db)"
  "db_repos (delete_runs ids db) = db_repos db" "db_targets (delete_runs ids db) = db_targets db"
  "db_workers (delete_runs ids db) = db_workers db"
  by (simp_all add: delete_runs_def Let_def)

lemma delete_runs_inv:
  assumes inv: "ci_inv db" and free: "\<And>i. i \<in> set ids \<Longrightarrow> \<not> owns_target db i"
  shows "ci_inv (delete_runs ids db)"
proof -
  define db' where "db' = delete_runs ids db"
  have t: "db_runs db' = filter (\<lambda>r. r_id r \<notin> set ids) (db_runs db)"
    "db_steps db' = filter (\<lambda>s. s_run s \<notin> set ids) (db_steps db)"
    "db_repos db' = db_repos db" "db_targets db' = db_targets db"
    and dep: "db_deployments db' = update_where (\<lambda>d. \<exists>i\<in>set ids. dp_run d = Some i)
      (\<lambda>d. d\<lparr>dp_run := None\<rparr>) (db_deployments db)"
    by (simp_all add: db'_def)
  have "runs_inv db'"
    using inv by (simp add: ci_inv_def runs_inv_def t distinct_map_filter_sub)
  moreover have "steps_inv db'"
  proof -
    have "\<exists>r\<in>set (db_runs db'). r_id r = s_run s \<and> step_fits r s" if s: "s \<in> set (db_steps db')" for s
    proof -
      have s0: "s \<in> set (db_steps db)" "s_run s \<notin> set ids" using s by (simp_all add: t)
      from inv_step_run [OF inv s0(1)] obtain r where "r \<in> set (db_runs db)" "r_id r = s_run s" "step_fits r s" .
      then show ?thesis using s0(2) by (auto simp: t)
    qed
    then show ?thesis using inv by (simp add: ci_inv_def steps_inv_def t(2) distinct_map_filter_sub)
  qed
  moreover have "owners_inv db'"
  proof -
    have "owner_ok db' t" if "t \<in> set (db_targets db)" for t
    proof -
      have "owner_ok db t" using inv that by (simp add: ci_inv_def owners_inv_def)
      moreover have "run \<notin> set ids" if "dt_owner t = Some (run, step)" for run step
        using free [of run] \<open>t \<in> set (db_targets db)\<close> that
        by (auto simp: owns_target_def owner_run_def list_ex_iff)
      ultimately show ?thesis unfolding owner_ok_def t by auto metis+
    qed
    then show ?thesis using inv by (simp add: ci_inv_def owners_inv_def t)
  qed
  moreover have "generations_inv db'"
  proof (rule generations_invI)
    have sub: "holds db s k g" if "holds db' s k g" for s k g using that by (auto simp: holds_def t)
    show "\<exists>u\<in>set (db_targets db'). target_key u = k \<and> g \<le> dt_generation u" if "holds db' s k g" for s k g
      using inv_held [OF inv sub [OF that]] unfolding t(4) by blast
    show "s_id s = s_id s'" if "holds db' s k g" "holds db' s' k g" for s s' k g
      using inv_held_unique [OF inv that [THEN sub]] .
  qed
  moreover have "deployments_inv db'"
  proof (rule deployments_invI, goal_cases)
    case 1
    show ?case using inv_deployments_distinct [OF inv] by (simp add: dep map_update_where_on)
  next
    case (2 d runID)
    then have "d \<in> set (db_deployments db)" "runID \<notin> set ids" by (auto simp: dep in_update_where)
    then show ?case using inv_deployment_run_exists [OF inv _ 2(2)] by (auto simp: t)
  next
    case (3 d)
    then obtain d0 where d0: "d0 \<in> set (db_deployments db)" "dp_step d = dp_step d0" "dp_repo d = dp_repo d0"
      "dp_target d = dp_target d0" "dp_run d = (if \<exists>i\<in>set ids. dp_run d0 = Some i then None else dp_run d0)"
      by (auto simp: dep in_update_where)
    have "deployment_ok db d0" using inv d0(1) by (simp add: ci_inv_def deployments_inv_def)
    then show ?case unfolding deployment_ok_def d0(2-5) t by auto
  qed
  ultimately show ?thesis by (simp add: ci_inv_def db'_def)
qed

lemma deleteOldRuns_inv:
  assumes "ci_inv db" "deleteOldRuns before limit db = (n, db')" shows "ci_inv db'"
  using assms
  by (auto simp: deleteOldRuns_def Let_def expired_run_def intro!: delete_runs_inv dest!: in_set_takeD)

lemma PruneRuns_inv: "ci_inv db \<Longrightarrow> ci_inv (snd (PruneRuns before db))"
proof (induction before db rule: PruneRuns.induct)
  case (1 before db)
  obtain n db1 where d: "deleteOldRuns before pruneBatch db = (n, db1)" by (cases "deleteOldRuns before pruneBatch db")
  have "ci_inv db1" using deleteOldRuns_inv [OF "1.prems" d] .
  then show ?case
    using "1.IH" [OF d [symmetric]] d by (subst PruneRuns.simps) (simp add: case_prod_beta)
qed

lemma deleteGoneWorkers_inv:
  assumes inv: "ci_inv db" and c: "deleteGoneWorkers before db = (n, db')"
  shows "ci_inv db'"
proof -
  define ids where "ids = map wk_id (filter (gone_worker before db) (db_workers db))"
  have db': "db' = update_run (\<lambda>r. \<exists>i\<in>set ids. r_worker r = Some i) (\<lambda>r. r\<lparr>r_worker := None\<rparr>)
            (db\<lparr>db_workers := filter (\<lambda>w. wk_id w \<notin> set ids) (db_workers db)\<rparr>)"
    using c by (simp add: deleteGoneWorkers_def Let_def ids_def)
  have "r_status r \<noteq> StatusRunning \<and> \<not> owns_target db (r_id r)"
    if "r \<in> set (db_runs db)" "i \<in> set ids" "r_worker r = Some i" for r i
    using that by (auto simp: ids_def gone_worker_def worker_kept_def list_ex_iff)
  then show ?thesis
    unfolding db' using inv_run_ok [OF inv]
    by (intro inv_update_run) (auto simp: ci_simps inv run_update_ok_def run_ok_def step_fits_def owns_target_def)
qed

section \<open>Creating runs\<close>

lemma inv_add_run:
  assumes inv: "ci_inv db" and ok: "run_ok r" and id: "r_id r \<notin> r_id ` set (db_runs db)"
    and number: "(r_repo r, r_number r) \<notin> (\<lambda>r. (r_repo r, r_number r)) ` set (db_runs db)"
    and counter: "p \<in> set (db_repos db)" "rr_id p = r_repo r" "r_number r \<le> rr_counter p"
  shows "ci_inv (db\<lparr>db_runs := db_runs db @ [r]\<rparr>)" (is "ci_inv ?db")
proof -
  have t: "db_runs ?db = db_runs db @ [r]" "db_steps ?db = db_steps db" "db_repos ?db = db_repos db"
    "db_targets ?db = db_targets db" "db_deployments ?db = db_deployments db"
    by simp_all
  have "runs_inv ?db"
    using inv ok id number counter by (auto simp: ci_inv_def runs_inv_def)
  moreover have "steps_inv ?db" "owners_inv ?db"
    using inv unfolding ci_inv_def steps_inv_def owners_inv_def owner_ok_def t by auto
  moreover have "generations_inv ?db"
  proof (rule generations_invI)
    have sub: "holds db s k g" if h: "holds ?db s k g" for s k g
    proof -
      have "s \<in> set (db_steps db)" using h by (simp add: holds_def)
      from inv_step_run [OF inv this] obtain q where "q \<in> set (db_runs db)" "r_id q = s_run s" .
      then have "s_run s \<noteq> r_id r" using id by (metis imageI)
      then show ?thesis using h by (auto simp: holds_def)
    qed
    show "\<exists>u\<in>set (db_targets ?db). target_key u = k \<and> g \<le> dt_generation u" if "holds ?db s k g" for s k g
      using inv_held [OF inv sub [OF that]] unfolding t(4) by blast
    show "s_id s = s_id s'" if "holds ?db s k g" "holds ?db s' k g" for s s' k g
      using inv_held_unique [OF inv that [THEN sub]] .
  qed
  moreover have "deployments_inv ?db"
  proof (rule deployments_invI, goal_cases)
    case (2 d runID)
    then show ?case using inv_deployment_run_exists [OF inv] by auto
  next
    case (3 d)
    then have d: "d \<in> set (db_deployments db)" by simp
    have "dp_run d \<noteq> Some (r_id r)" using inv_deployment_run_exists [OF inv d] id by blast
    moreover have "deployment_ok db d" using inv d by (simp add: ci_inv_def deployments_inv_def)
    ultimately show ?case unfolding deployment_ok_def t by auto
  qed (use inv_deployments_distinct [OF inv] in simp)
  ultimately show ?thesis by (simp add: ci_inv_def)
qed

lemma inv_add_step:
  assumes inv: "ci_inv db" and id: "s_id s \<notin> s_id ` set (db_steps db)" and gen: "s_generation s = None"
    and run: "r \<in> set (db_runs db)" "r_id r = s_run s" "step_fits r s"
    and fresh: "s_id s \<notin> dp_step ` set (db_deployments db)"
  shows "ci_inv (db\<lparr>db_steps := db_steps db @ [s]\<rparr>)" (is "ci_inv ?db")
proof -
  have t: "db_runs ?db = db_runs db" "db_steps ?db = db_steps db @ [s]" "db_repos ?db = db_repos db"
    "db_targets ?db = db_targets db" "db_deployments ?db = db_deployments db"
    by simp_all
  have holds: "holds ?db s' k g = holds db s' k g" for s' k g using gen by (auto simp: holds_def)
  have "runs_inv ?db" "generations_inv ?db"
    using inv unfolding ci_inv_def runs_inv_def generations_inv_def holds t by blast+
  moreover have "owners_inv ?db"
    using inv unfolding ci_inv_def owners_inv_def owner_ok_def t set_append by blast
  moreover have "steps_inv ?db"
    using inv id run by (auto simp: ci_inv_def steps_inv_def)
  moreover have "deployments_inv ?db"
  proof (rule deployments_invI, goal_cases)
    case (2 d runID)
    then show ?case using inv_deployment_run_exists [OF inv] by simp
  next
    case (3 d)
    then have d: "d \<in> set (db_deployments db)" by simp
    then have "dp_step d \<noteq> s_id s" using fresh by (metis imageI)
    moreover have "deployment_ok db d" using inv d by (simp add: ci_inv_def deployments_inv_def)
    ultimately show ?case unfolding deployment_ok_def t by auto
  qed (use inv_deployments_distinct [OF inv] in simp)
  ultimately show ?thesis by (simp add: ci_inv_def)
qed

lemma allocateRunNumber_Inr:
  assumes inv: "ci_inv db" and c: "allocateRunNumber repoID db = Inr (number, db')"
  shows "ci_inv db'" and "db_runs db' = db_runs db" and "db_steps db' = db_steps db"
    and "db_deployments db' = db_deployments db" and "db_targets db' = db_targets db"
    and "\<And>r. r \<in> set (db_runs db) \<Longrightarrow> r_repo r = repoID \<Longrightarrow> r_number r < number"
    and "\<exists>p\<in>set (db_repos db'). rr_id p = repoID \<and> rr_counter p = number"
proof -
  obtain p where p: "p \<in> set (db_repos db)" "rr_id p = repoID" and number: "number = rr_counter p + 1"
    and db': "db' = db\<lparr>db_repos := update_where (\<lambda>r. rr_id r = repoID)
                    (\<lambda>r. r\<lparr>rr_counter := rr_counter r + 1\<rparr>) (db_repos db)\<rparr>"
    using c by (auto simp: allocateRunNumber_def split: option.splits dest!: find_SomeD)
  show t: "db_runs db' = db_runs db" "db_steps db' = db_steps db"
    "db_deployments db' = db_deployments db" "db_targets db' = db_targets db" by (simp_all add: db')
  have "runs_inv db'"
  proof -
    have "\<exists>q\<in>set (db_repos db'). rr_id q = r_repo r \<and> r_number r \<le> rr_counter q" if r: "r \<in> set (db_runs db)" for r
    proof -
      obtain q where "q \<in> set (db_repos db)" "rr_id q = r_repo r" "r_number r \<le> rr_counter q"
        using inv r unfolding ci_inv_def runs_inv_def by blast
      then show ?thesis by (auto simp: db' bex_update_where)
    qed
    moreover have "map rr_id (db_repos db') = map rr_id (db_repos db)"
      by (simp add: db' map_update_where_on)
    ultimately show ?thesis using inv by (simp add: ci_inv_def runs_inv_def t)
  qed
  moreover have "steps_inv db'" "owners_inv db'" "generations_inv db'" "deployments_inv db'"
    using inv unfolding ci_inv_def steps_inv_def owners_inv_def owner_ok_def generations_inv_def holds_def
      deployments_inv_def deployment_ok_def t by blast+
  ultimately show "ci_inv db'" by (simp add: ci_inv_def)
  show "r_number r < number" if "r \<in> set (db_runs db)" "r_repo r = repoID" for r
    using inv_run_counter [OF inv that(1) p(1)] that(2) p(2) number by simp
  show "\<exists>q\<in>set (db_repos db'). rr_id q = repoID \<and> rr_counter q = number"
    using p number by (auto simp: db' bex_update_where)
qed

lemma insert_steps_inv:
  assumes "insert_steps runID status newID i steps db = Inr (u, db')" "ci_inv db"
    and "r \<in> set (db_runs db)" "r_id r = runID" "r_finished r \<noteq> None \<longrightarrow> status \<noteq> StatusQueued"
    and "\<And>j. newID j \<notin> dp_step ` set (db_deployments db)"
  shows "ci_inv db' \<and> db_runs db' = db_runs db \<and> db_deployments db' = db_deployments db \<and>
     db_targets db' = db_targets db \<and> db_workers db' = db_workers db \<and>
     filter (\<lambda>s. s_run s \<noteq> runID) (db_steps db') = filter (\<lambda>s. s_run s \<noteq> runID) (db_steps db)"
  using assms
proof (induction steps arbitrary: i db)
  case (Cons step rest)
  let ?st = "if status = StatusQueued \<and> ps_run step then StepPending else StepSkipped"
  let ?row = "\<lparr>s_id = newID i, s_run = runID, s_index = i, s_name = ps_name step, s_status = ?st,
                 s_exit = None, s_type = ps_kind step, s_generation = None, s_container = None, s_cid = None,
                 s_removed = None, s_log_error = [], s_log_bytes = 0, s_log_lines = 0,
                 s_started = None, s_finished = None\<rparr>"
  let ?db = "db\<lparr>db_steps := db_steps db @ [?row]\<rparr>"
  have rest: "insert_steps runID status newID (Suc i) rest ?db = Inr (u, db')"
    and new: "newID i \<notin> s_id ` set (db_steps db)"
    using Cons.prems(1) by (auto simp: bind_result_Inr insertStep_def Let_def split: if_splits)
  have "ci_inv ?db"
    using Cons.prems(3-6) new
    by (intro inv_add_step [OF Cons.prems(2), of _ r]) (auto simp: step_fits_def)
  from Cons.IH [OF rest this] Cons.prems(3-6) show ?case by auto
qed simp

definition step_ids_fresh :: "(nat \<Rightarrow> string) \<Rightarrow> ci_db \<Rightarrow> bool" where
  "step_ids_fresh newID db \<longleftrightarrow> (\<forall>j. newID j \<notin> dp_step ` set (db_deployments db))"

text \<open>The row of a new run, and the states a successful \<open>CreateTx\<close> passes through.\<close>

definition new_run_row :: "(string \<Rightarrow> (parse_error, Config) result) \<Rightarrow> timestamp \<Rightarrow> Created \<Rightarrow> CreateParams \<Rightarrow> int \<Rightarrow> run_row" where
  "new_run_row parse now run p timeout =
     \<lparr>r_id = cr_ID run, r_repo = p_RepoID p, r_number = cr_Number run, r_commit = p_Commit p,
      r_kind = p_RefKind p, r_ref = p_RefName p, r_trigger = p_Trigger p,
      r_person = null_empty (p_PersonID p), r_push = null_empty (p_PushID p),
      r_status = cr_Status run, r_reason = cr_Reason run, r_target = cr_Target run,
      r_version = cr_Version run, r_secrets = d_AllowSecrets (p_Decision p),
      r_pipeline = p_Pipeline p,
      r_images = normalizeImages (case parse (p_Pipeline p) of Inr cfg \<Rightarrow> c_Image cfg # c_Requires cfg | Inl _ \<Rightarrow> []),
      r_timeout = timeout, r_deadline = None, r_cancel = False, r_worker = None, r_token = None,
      r_queued = now, r_started = None,
      r_finished = (if cr_Status run \<noteq> StatusQueued then Some now else None)\<rparr>"

lemma insertRun_Inr:
  assumes "insertRun parse now run p (cr_Status run \<noteq> StatusQueued) timeout db = Inr (u, db')"
  shows "db' = db\<lparr>db_runs := db_runs db @ [new_run_row parse now run p timeout]\<rparr>"
    and "cr_ID run \<notin> r_id ` set (db_runs db)"
    and "(p_RepoID p, cr_Number run) \<notin> (\<lambda>r. (r_repo r, r_number r)) ` set (db_runs db)"
    and "cr_Status run \<noteq> StatusRunning"
  using assms unfolding insertRun_def Let_def new_run_row_def by (auto split: if_splits)

lemma CreateTx_Inr:
  assumes c: "CreateTx parse et now runID stepIDs p db = Inr (created, db')"
  obtains db1 db2 db3 ids db4 where
    "allocateRunNumber (p_RepoID p) db = Inr (cr_Number created, db1)"
    "db2 = db1\<lparr>db_runs := db_runs db1 @
        [new_run_row parse now created p (pl_timeout (apply_budget p db (planRun parse et p)))]\<rparr>"
    "runID \<notin> r_id ` set (db_runs db1)"
    "(p_RepoID p, cr_Number created) \<notin> (\<lambda>r. (r_repo r, r_number r)) ` set (db_runs db1)"
    "insert_steps runID (cr_Status created) stepIDs 0 (pl_steps (apply_budget p db (planRun parse et p))) db2 = Inr ((), db3)"
    "supersedeQueued now (p_RepoID p) (p_RefKind p) (p_RefName p) (Some (cr_Number created))
      (superseded_reason (cr_Number created)) db3 = (ids, db4)"
    "db' = notifyRun runID (fold notifyRun ids db4)"
    "cr_ID created = runID" "cr_Status created \<noteq> StatusRunning"
    "cr_Status created = pl_status (apply_budget p db (planRun parse et p))"
    "cr_Reason created = pl_reason (apply_budget p db (planRun parse et p))"
    "cr_Target created = pl_target (apply_budget p db (planRun parse et p))"
proof -
  define pl where "pl = apply_budget p db (planRun parse et p)"
  obtain number db1 where a: "allocateRunNumber (p_RepoID p) db = Inr (number, db1)"
    using c by (auto simp: CreateTx_def bind_result_Inr Let_def)
  define run where "run = \<lparr>cr_ID = runID, cr_Number = number, cr_Status = pl_status pl,
                    cr_Reason = pl_reason pl, cr_Target = pl_target pl, cr_Version = pl_version pl\<rparr>"
  obtain db2 where i: "insertRun parse now run p (pl_status pl \<noteq> StatusQueued) (pl_timeout pl) db1 = Inr ((), db2)"
    using c a by (auto simp: CreateTx_def bind_result_Inr Let_def pl_def run_def)
  obtain db3 where s: "insert_steps runID (pl_status pl) stepIDs 0 (pl_steps pl) db2 = Inr ((), db3)"
    using c a i by (auto simp: CreateTx_def bind_result_Inr Let_def pl_def run_def)
  obtain ids db4 where q: "supersedeQueued now (p_RepoID p) (p_RefKind p) (p_RefName p) (Some number)
      (superseded_reason number) db3 = (ids, db4)"
    by (cases "supersedeQueued now (p_RepoID p) (p_RefKind p) (p_RefName p) (Some number) (superseded_reason number) db3")
  have fin: "db' = notifyRun runID (fold notifyRun ids db4)" "created = run"
    using c a i s q by (auto simp: CreateTx_def bind_result_Inr Let_def pl_def run_def)
  have "pl_status pl = cr_Status run" by (simp add: run_def)
  note row = insertRun_Inr [OF i [unfolded this]]
  show thesis
    by (rule that) (use a i s q fin row in \<open>simp_all add: run_def flip: pl_def\<close>)
qed

lemma create_steps_inv:
  assumes inv: "ci_inv db" and fresh: "step_ids_fresh stepIDs db"
    and a: "allocateRunNumber (p_RepoID p) db = Inr (cr_Number created, db1)"
    and db2: "db2 = db1\<lparr>db_runs := db_runs db1 @ [new_run_row parse now created p timeout]\<rparr>"
    and chk: "runID \<notin> r_id ` set (db_runs db1)"
      "(p_RepoID p, cr_Number created) \<notin> (\<lambda>r. (r_repo r, r_number r)) ` set (db_runs db1)"
    and s: "insert_steps runID (cr_Status created) stepIDs 0 steps db2 = Inr ((), db3)"
    and id: "cr_ID created = runID" and run: "cr_Status created \<noteq> StatusRunning"
  shows "ci_inv db3"
proof -
  define row where "row = new_run_row parse now created p timeout"
  have row: "r_id row = runID" "r_repo row = p_RepoID p" "r_number row = cr_Number created"
      "r_finished row = (if cr_Status created \<noteq> StatusQueued then Some now else None)"
    using id by (simp_all add: row_def new_run_row_def)
  note al = allocateRunNumber_Inr [OF inv a]
  from al(7) obtain q where q: "q \<in> set (db_repos db1)" "rr_id q = p_RepoID p" "rr_counter q = cr_Number created"
    by blast
  have "run_ok row" using run by (cases "cr_Status created") (simp_all add: run_ok_def row_def new_run_row_def)
  then have "ci_inv db2"
    unfolding db2 row_def [symmetric] using row chk q by (intro inv_add_run [of _ _ q] al(1)) auto
  moreover have "row \<in> set (db_runs db2)" by (simp add: db2 row_def)
  moreover have "stepIDs j \<notin> dp_step ` set (db_deployments db2)" for j
    using fresh by (simp add: db2 al(4) step_ids_fresh_def)
  ultimately show ?thesis using insert_steps_inv [OF s, of row] row by simp
qed

lemma CreateTx_inv:
  assumes inv: "ci_inv db" and fresh: "step_ids_fresh stepIDs db"
    and c: "CreateTx parse et now runID stepIDs p db = Inr (created, db')"
  shows "ci_inv db'"
  using c
proof (rule CreateTx_Inr, goal_cases)
  case (1 db1 db2 db3 ids db4)
  have "ci_inv db3" using create_steps_inv [OF inv fresh 1(1-5) 1(8,9)] .
  then show ?case using supersedeQueued_inv [OF _ 1(6)] by (simp add: 1(7) ci_simps)
qed

lemma Start_inv:
  "ci_inv db \<Longrightarrow> step_ids_fresh stepIDs db \<Longrightarrow> Start parse et FileAt now runID stepIDs p db = Inr (created, db') \<Longrightarrow> ci_inv db'"
  by (auto simp: Start_def split: if_splits option.splits prod.splits intro: CreateTx_inv)

section \<open>Releasing a lost worker\<close>

lemma release_run_inv: "ci_inv db \<Longrightarrow> release_run now run db = Inr (u, db') \<Longrightarrow> ci_inv db'"
  by (auto simp: release_run_def bind_result_Inr ci_simps split: prod.splits if_splits
      intro!: remove_containers_inv confirm_inv elim!: finish_settle_inv)

lemma release_runs_inv: "ci_inv db \<Longrightarrow> release_runs now runs db = Inr (u, db') \<Longrightarrow> ci_inv db'"
  by (induction runs arbitrary: db) (auto simp: bind_result_Inr intro: release_run_inv)

lemma ReleaseLostWorker_Inr:
  assumes "ReleaseLostWorker now workerID only db = Inr (n, db')"
  obtains w db1 where "w \<in> set (db_workers db)" "wk_id w = workerID" "worker_lost now WorkerLostAfter w"
    "release_runs now (released_runs workerID only db) db = Inr ((), db1)"
    "db' = (let db = stop_released now workerID (release_owners workerID only db1)
            in db\<lparr>db_audit := db_audit db @ [(wk_hostname w, workerID, n)]\<rparr>)"
  using assms
  by (auto simp: ReleaseLostWorker_def Let_def bind_result_Inr worker_lost_def
      split: option.splits if_splits dest!: find_SomeD)

lemma ReleaseLostWorker_inv:
  assumes "ci_inv db" "ReleaseLostWorker now workerID only db = Inr (n, db')" shows "ci_inv db'"
  using assms(2)
proof (rule ReleaseLostWorker_Inr)
  fix w db1
  assume r: "release_runs now (released_runs workerID only db) db = Inr ((), db1)"
    and db': "db' = (let db = stop_released now workerID (release_owners workerID only db1)
            in db\<lparr>db_audit := db_audit db @ [(wk_hostname w, workerID, n)]\<rparr>)"
  have "ci_inv (release_owners workerID only db1)"
    unfolding release_owners_def using release_runs_inv [OF assms(1) r]
    by (intro inv_update_target target_update_okI)
  then show ?thesis by (simp add: db' Let_def stop_released_def ci_simps)
qed

end
