(* ===== verification/Ci_System.thy ===== *)
theory Ci_System
  imports Ci_Lifecycle
begin

text \<open>
  The run service as one transition system: an operation is one call of the service (or a change
  another package makes to the tables), a transition commits it or, after an error, leaves the
  tables as they were. The invariant holds in every reachable state.
\<close>

section \<open>Operations\<close>

datatype ci_op =
  DoCreate timestamp string "nat \<Rightarrow> string" CreateParams
| DoStart "string \<Rightarrow> file_at" timestamp string "nat \<Rightarrow> string" StartParams
| DoCancelQueued timestamp string Kind string string
| DoClaim "string \<Rightarrow> bool" "string \<Rightarrow> bool" timestamp string string int "string list"
| DoStepStarted timestamp string string
| DoStepFinished timestamp string string string StepStatus "int option"
| DoAppendLog string string int string
| DoFinish timestamp string Outcome
| DoCancel timestamp string int string
| DoRegister timestamp string string
| DoHeartbeat timestamp string int
| DoStopWorker timestamp string
| DoReadiness timestamp string bool string "string list"
| DoBindEngine timestamp string string string
| DoFailLost "string \<Rightarrow> bool" timestamp int
| DoPruneRuns timestamp
| DoPruneWorkers timestamp
| DoPlanContainer string string string
| DoContainerCreated string string string
| DoRecoverExit timestamp string string string int
| DoContainerRemoved timestamp string string
| DoConfirmStopped timestamp string
| DoConfirmRemoved timestamp string
| DoBegin timestamp string string
| DoRelease timestamp string string
| DoAddRepo string string
| DoRefs "ref_row list"
| DoPending "string list"
| DoMaintenance bool

definition commit :: "'a tx \<Rightarrow> ci_db \<Rightarrow> ci_db" where
  "commit res db = (case res of Inl _ \<Rightarrow> db | Inr (_, db') \<Rightarrow> db')"

definition add_repo :: "string \<Rightarrow> string \<Rightarrow> ci_db \<Rightarrow> ci_db" where
  "add_repo repoID name db =
     (if repoID \<in> rr_id ` set (db_repos db) \<or> repoID \<in> r_repo ` set (db_runs db) then db
      else db\<lparr>db_repos := db_repos db @ [\<lparr>rr_id = repoID, rr_name = name, rr_counter = 0\<rparr>]\<rparr>)"

fun ci_exec ::
  "(string \<Rightarrow> (parse_error, Config) result) \<Rightarrow> (parse_error \<Rightarrow> string) \<Rightarrow> (string \<Rightarrow> string) \<Rightarrow>
     ci_op \<Rightarrow> ci_db \<Rightarrow> ci_db" where
  "ci_exec parse et hash (DoCreate now runID stepIDs p) db = commit (CreateTx parse et now runID stepIDs p db) db"
| "ci_exec parse et hash (DoStart FileAt now runID stepIDs p) db =
     commit (Start parse et FileAt now runID stepIDs p db) db"
| "ci_exec parse et hash (DoCancelQueued now repoID kind name reason) db =
     commit (CancelQueuedTx now repoID kind name reason db) db"
| "ci_exec parse et hash (DoClaim gate locked now plain workerID timeout images) db =
     commit (ClaimNext hash gate locked now plain workerID timeout images db) db"
| "ci_exec parse et hash (DoStepStarted now runID stepID) db = commit (StepStarted now runID stepID db) db"
| "ci_exec parse et hash (DoStepFinished now newID runID stepID status c) db =
     commit (StepFinished now newID runID stepID status c db) db"
| "ci_exec parse et hash (DoAppendLog runID stepID sq content) db = snd (AppendLog runID stepID sq content db)"
| "ci_exec parse et hash (DoFinish now runID out) db = commit (Finish now runID out db) db"
| "ci_exec parse et hash (DoCancel now repoID number by_name) db = commit (Cancel now repoID number by_name db) db"
| "ci_exec parse et hash (DoRegister now workerID hostname) db = RegisterWorker now workerID hostname db"
| "ci_exec parse et hash (DoHeartbeat now workerID n) db = Heartbeat now workerID n db"
| "ci_exec parse et hash (DoStopWorker now workerID) db = StopWorker now workerID db"
| "ci_exec parse et hash (DoReadiness now workerID ready reason images) db =
     SetWorkerReadiness now workerID ready reason images db"
| "ci_exec parse et hash (DoBindEngine now workerID engineID root) db =
     commit (BindWorkerEngine now workerID engineID root db) db"
| "ci_exec parse et hash (DoFailLost locked now staleAfter) db = commit (FailLostRuns locked now staleAfter db) db"
| "ci_exec parse et hash (DoPruneRuns before) db = snd (PruneRuns before db)"
| "ci_exec parse et hash (DoPruneWorkers before) db = snd (PruneWorkers before db)"
| "ci_exec parse et hash (DoPlanContainer runID stepID name) db = commit (PlanContainer runID stepID name db) db"
| "ci_exec parse et hash (DoContainerCreated runID stepID cid) db = commit (ContainerCreated runID stepID cid db) db"
| "ci_exec parse et hash (DoRecoverExit now newID runID name c) db = commit (RecoverStepExit now newID runID name c db) db"
| "ci_exec parse et hash (DoContainerRemoved now runID name) db = ContainerRemoved now runID name db"
| "ci_exec parse et hash (DoConfirmStopped now runID) db = ConfirmExecutionStopped now runID db"
| "ci_exec parse et hash (DoConfirmRemoved now runID) db = ConfirmContainersRemoved now runID db"
| "ci_exec parse et hash (DoBegin now runID stepID) db = commit (BeginDeployment now runID stepID db) db"
| "ci_exec parse et hash (DoRelease now workerID only) db = commit (ReleaseLostWorker now workerID only db) db"
| "ci_exec parse et hash (DoAddRepo repoID name) db = add_repo repoID name db"
| "ci_exec parse et hash (DoRefs refs) db = db\<lparr>db_refs := refs\<rparr>"
| "ci_exec parse et hash (DoPending ids) db = db\<lparr>db_pending := ids\<rparr>"
| "ci_exec parse et hash (DoMaintenance b) db = db\<lparr>db_maintenance := b\<rparr>"

text \<open>
  What callers keep to: identifiers are never reused, and \<open>StepFinished\<close> is given a final status.
\<close>

fun ci_allowed :: "ci_op \<Rightarrow> ci_db \<Rightarrow> bool" where
  "ci_allowed (DoCreate now runID stepIDs p) db = step_ids_fresh stepIDs db"
| "ci_allowed (DoStart FileAt now runID stepIDs p) db = step_ids_fresh stepIDs db"
| "ci_allowed (DoStepFinished now newID runID stepID status c) db = (\<not> step_open status)"
| "ci_allowed _ db = True"

definition empty_db :: ci_db where
  "empty_db = \<lparr>db_maintenance = False, db_repos = [], db_refs = [], db_pending = [], db_runs = [], db_steps = [],
     db_targets = [], db_deployments = [], db_workers = [], db_logs = [], db_summary = [], db_notes = [], db_audit = []\<rparr>"

section \<open>The invariant of reachable states\<close>

lemma empty_inv: "ci_inv empty_db"
  by (simp add: empty_db_def ci_inv_def inv_tables)

lemma commit_inv: "ci_inv db \<Longrightarrow> (\<And>a db'. res = Inr (a, db') \<Longrightarrow> ci_inv db') \<Longrightarrow> ci_inv (commit res db)"
  by (auto simp: commit_def split: sum.splits)

lemma add_repo_inv: "ci_inv db \<Longrightarrow> ci_inv (add_repo repoID name db)"
proof (cases "repoID \<in> rr_id ` set (db_repos db) \<or> repoID \<in> r_repo ` set (db_runs db)")
  case False
  define db' where "db' = db\<lparr>db_repos := db_repos db @ [\<lparr>rr_id = repoID, rr_name = name, rr_counter = 0\<rparr>]\<rparr>"
  have t: "db_runs db' = db_runs db" "db_steps db' = db_steps db" "db_targets db' = db_targets db"
    "db_deployments db' = db_deployments db" by (simp_all add: db'_def)
  assume inv: "ci_inv db"
  then have "runs_inv db'"
    using False unfolding ci_inv_def runs_inv_def t by (auto simp: db'_def)
  moreover have "steps_inv db'" "owners_inv db'" "generations_inv db'" "deployments_inv db'"
    using inv unfolding ci_inv_def steps_inv_def owners_inv_def owner_ok_def generations_inv_def holds_def
      deployments_inv_def deployment_ok_def t by blast+
  ultimately show ?thesis using False by (simp add: add_repo_def ci_inv_def db'_def)
qed (simp add: add_repo_def)

lemmas op_invs = CreateTx_inv Start_inv CancelQueuedTx_inv ClaimNext_inv StepStarted_inv StepFinished_inv
  Finish_inv Cancel_inv BindWorkerEngine_inv FailLostRuns_inv PlanContainer_inv ContainerCreated_inv
  RecoverStepExit_inv BeginDeployment_inv ReleaseLostWorker_inv

lemma ci_exec_inv:
  assumes inv: "ci_inv db" and allowed: "ci_allowed op db"
  shows "ci_inv (ci_exec parse et hash op db)"
proof (cases op)
  case (DoPruneWorkers before)
  then show ?thesis using inv
    by (cases "deleteGoneWorkers before db") (auto simp: PruneWorkers_def intro: deleteGoneWorkers_inv)
qed (use inv allowed in \<open>simp_all add: ci_simps AppendLog_inv PruneRuns_inv ContainerRemoved_inv
  ConfirmExecutionStopped_def confirm_inv ConfirmContainersRemoved_inv add_repo_inv\<close>,
  (rule commit_inv, assumption, blast intro: op_invs)+)

interpretation ci: invariant_system ci_allowed "ci_exec parse et hash" ci_inv for parse et hash
  by unfold_locales (rule ci_exec_inv)

end
