(* ===== verification/Ci_History.thy ===== *)
theory Ci_History
  imports Ci_System
begin

text \<open>
  What never changes, or changes in one direction only, along any sequence of operations: the
  history of runs and the generations of deployment targets.
\<close>

section \<open>How a run may change\<close>

fun status_rank :: "Status \<Rightarrow> nat" where
  "status_rank StatusQueued = 0"
| "status_rank StatusRunning = 1"
| "status_rank _ = 2"

text \<open>The columns no operation writes after a run is created.\<close>

definition run_identity where
  "run_identity r = ((r_id r, r_repo r, r_number r, r_commit r, r_kind r, r_ref r, r_trigger r, r_person r),
     (r_push r, r_target r, r_version r, r_secrets r, r_pipeline r, r_images r, r_timeout r, r_queued r))"

definition evolves :: "run_row \<Rightarrow> run_row \<Rightarrow> bool" where
  "evolves r r' \<longleftrightarrow>
     run_identity r' = run_identity r \<and> status_rank (r_status r) \<le> status_rank (r_status r') \<and>
     (r_finished r \<noteq> None \<longrightarrow>
        r_status r' = r_status r \<and> r_reason r' = r_reason r \<and> r_finished r' = r_finished r)"

lemma run_identity_fields:
  assumes "run_identity r' = run_identity r"
  shows "r_id r' = r_id r" "r_repo r' = r_repo r" "r_number r' = r_number r" "r_commit r' = r_commit r"
    "r_target r' = r_target r" "r_version r' = r_version r" "r_secrets r' = r_secrets r"
    "r_pipeline r' = r_pipeline r" "r_trigger r' = r_trigger r" "r_kind r' = r_kind r" "r_ref r' = r_ref r"
  using assms by (simp_all add: run_identity_def)

lemma evolves_refl: "evolves r r"
  by (simp add: evolves_def)

lemma evolves_trans: "evolves r q \<Longrightarrow> evolves q p \<Longrightarrow> evolves r p"
  unfolding evolves_def by (metis order_trans)

section \<open>The order of states\<close>

definition counters_le :: "ci_db \<Rightarrow> ci_db \<Rightarrow> bool" where
  "counters_le db db' \<longleftrightarrow>
     (\<forall>p\<in>set (db_repos db). \<exists>p'\<in>set (db_repos db'). rr_id p' = rr_id p \<and> rr_counter p \<le> rr_counter p')"

text \<open>Every run of the later state was either created since, under a new number, or is an earlier run, evolved.\<close>

definition runs_le :: "ci_db \<Rightarrow> ci_db \<Rightarrow> bool" where
  "runs_le db db' \<longleftrightarrow>
     (\<forall>r'\<in>set (db_runs db'). \<forall>p\<in>set (db_repos db).
        rr_id p = r_repo r' \<longrightarrow> r_number r' \<le> rr_counter p \<longrightarrow> (\<exists>r\<in>set (db_runs db). evolves r r'))"

definition targets_le :: "ci_db \<Rightarrow> ci_db \<Rightarrow> bool" where
  "targets_le db db' \<longleftrightarrow>
     (\<forall>t\<in>set (db_targets db). \<exists>t'\<in>set (db_targets db'). target_key t' = target_key t \<and>
        dt_generation t \<le> dt_generation t' \<and> dt_latest t \<le> dt_latest t')"

definition ci_le :: "ci_db \<Rightarrow> ci_db \<Rightarrow> bool" where
  "ci_le db db' \<longleftrightarrow> counters_le db db' \<and> runs_le db db' \<and> targets_le db db'"

lemma counters_le_refl: "counters_le db db"
  by (auto simp: counters_le_def)

lemma runs_le_refl: "runs_le db db"
  by (auto simp: runs_le_def intro: evolves_refl)

lemma targets_le_refl: "targets_le db db"
  by (auto simp: targets_le_def)

lemma ci_le_refl: "ci_le db db"
  by (simp add: ci_le_def counters_le_refl runs_le_refl targets_le_refl)

lemma counters_le_trans: "counters_le a b \<Longrightarrow> counters_le b c \<Longrightarrow> counters_le a c"
  unfolding counters_le_def by (metis order_trans)

lemma targets_le_trans: "targets_le a b \<Longrightarrow> targets_le b c \<Longrightarrow> targets_le a c"
  unfolding targets_le_def by (metis order_trans)

lemma runs_le_trans:
  assumes ab: "runs_le a b" "counters_le a b" and bc: "runs_le b c"
  shows "runs_le a c"
  unfolding runs_le_def
proof (intro ballI impI)
  fix r'' p
  assume r'': "r'' \<in> set (db_runs c)" and p: "p \<in> set (db_repos a)" "rr_id p = r_repo r''" "r_number r'' \<le> rr_counter p"
  obtain p' where "p' \<in> set (db_repos b)" "rr_id p' = r_repo r''" "rr_counter p \<le> rr_counter p'"
    using ab(2) p(1,2) unfolding counters_le_def by metis
  then obtain r' where r': "r' \<in> set (db_runs b)" "evolves r' r''"
    using bc r'' p(3) unfolding runs_le_def by (meson order_trans)
  then have "r_repo r'' = r_repo r'" "r_number r'' = r_number r'"
    by (auto simp: evolves_def dest: run_identity_fields)
  then obtain r where "r \<in> set (db_runs a)" "evolves r r'"
    using ab(1) r'(1) p unfolding runs_le_def by metis
  then show "\<exists>r\<in>set (db_runs a). evolves r r''" using r'(2) evolves_trans by blast
qed

lemma ci_le_trans: "ci_le a b \<Longrightarrow> ci_le b c \<Longrightarrow> ci_le a c"
  unfolding ci_le_def by (blast intro: counters_le_trans runs_le_trans targets_le_trans)

section \<open>Elementary updates move forward\<close>

definition same_history :: "ci_db \<Rightarrow> ci_db \<Rightarrow> bool" where
  "same_history db db' \<longleftrightarrow>
     db_runs db' = db_runs db \<and> db_repos db' = db_repos db \<and> db_targets db' = db_targets db"

lemma ci_le_same: "same_history db db' \<Longrightarrow> ci_le db db'"
  using ci_le_refl [of db]
  by (simp add: same_history_def ci_le_def counters_le_def runs_le_def targets_le_def)

lemma ci_le_cong: "same_history db1 db2 \<Longrightarrow> ci_le db db2 = ci_le db db1"
  by (simp add: same_history_def ci_le_def counters_le_def runs_le_def targets_le_def)

lemma same_historyI [ci_simps]:
  "same_history db (update_step P f db)" "same_history db (update_worker Q g db)" "same_history db (notify c x db)"
  "same_history db (db\<lparr>db_logs := l\<rparr>)" "same_history db (db\<lparr>db_audit := au\<rparr>)" "same_history db (db\<lparr>db_workers := w\<rparr>)"
  "same_history db (db\<lparr>db_refs := rs\<rparr>)" "same_history db (db\<lparr>db_pending := ps\<rparr>)"
  "same_history db (db\<lparr>db_maintenance := b\<rparr>)" "same_history db (insertSummary i k v db)"
  "same_history db (settleOpenSteps now i s1 s2 db)" "same_history db (db\<lparr>db_steps := ss\<rparr>)"
  "same_history db (notifyRun i db)"
  by (simp_all add: same_history_def insertSummary_def notifyRun_def)

lemma same_history_trans: "same_history a b \<Longrightarrow> same_history b c \<Longrightarrow> same_history a c"
  by (simp add: same_history_def)

lemma same_history_fold:
  "(\<And>x db. same_history db (f x db)) \<Longrightarrow> same_history db (fold f xs db)"
proof (induction xs arbitrary: db)
  case (Cons x xs)
  have "same_history (f x db) (fold f xs (f x db))" by (rule Cons.IH) (rule Cons.prems)
  then show ?case using Cons.prems [of db x] by (auto intro: same_history_trans)
qed (simp add: same_history_def)

lemma ci_le_update_run:
  assumes "\<And>r. r \<in> set (db_runs db) \<Longrightarrow> P r \<Longrightarrow> evolves r (f r)"
  shows "ci_le db (update_run P f db)"
proof -
  have "\<exists>r\<in>set (db_runs db). evolves r r'" if "r' \<in> set (update_where P f (db_runs db))" for r'
    using that by (rule update_where_cases) (use assms evolves_refl in blast)+
  then have "runs_le db (update_run P f db)" by (simp add: runs_le_def)
  then show ?thesis using counters_le_refl [of db] targets_le_refl [of db]
    by (simp add: ci_le_def counters_le_def targets_le_def)
qed

lemma ci_le_update_target:
  assumes "\<And>t. target_key (f t) = target_key t \<and> dt_latest t \<le> dt_latest (f t)"
    and "\<And>t. t \<in> set (db_targets db) \<Longrightarrow> P t \<Longrightarrow> dt_generation t \<le> dt_generation (f t)"
  shows "ci_le db (update_target P f db)"
proof -
  have "\<exists>t'\<in>set (update_where P f (db_targets db)). target_key t' = target_key t \<and>
        dt_generation t \<le> dt_generation t' \<and> dt_latest t \<le> dt_latest t'" if "t \<in> set (db_targets db)" for t
    using that assms(1) assms(2) [OF that] by (auto simp: bex_update_where)
  then have "targets_le db (update_target P f db)" by (simp add: targets_le_def)
  then show ?thesis using counters_le_refl [of db] runs_le_refl [of db]
    by (simp add: ci_le_def counters_le_def runs_le_def)
qed

lemma ci_le_release: "target_update_ok f \<Longrightarrow> ci_le db (update_target P f db)"
  by (rule ci_le_update_target) (auto simp: target_update_ok_def)

lemma ci_le_delete_runs: "ci_le db (delete_runs ids db)"
  using counters_le_refl [of db] targets_le_refl [of db]
  by (auto simp: ci_le_def counters_le_def targets_le_def runs_le_def intro: evolves_refl)

lemma ci_le_insert_target: "ci_le db (insert_target repoID target db)"
  using counters_le_refl [of db] runs_le_refl [of db]
  by (auto simp: ci_le_def counters_le_def targets_le_def runs_le_def insert_target_def)

lemma ci_le_add_repo: "ci_le db (add_repo repoID name db)"
  using runs_le_refl [of db] targets_le_refl [of db]
  by (auto simp: ci_le_def counters_le_def targets_le_def runs_le_def add_repo_def)

section \<open>Every operation moves forward\<close>

lemma ci_le_then: "ci_le a b \<Longrightarrow> same_history b c \<Longrightarrow> ci_le a c"
  by (blast intro: ci_le_trans ci_le_same)

lemma evolves_active:
  assumes "run_ok r" "r_status r = StatusQueued \<or> r_status r = StatusRunning"
    "run_identity r' = run_identity r" "status_rank (r_status r) \<le> status_rank (r_status r')"
  shows "evolves r r'"
  using assms by (auto simp: evolves_def run_ok_def)

lemma final_rank [simp]: "status \<noteq> StatusQueued \<Longrightarrow> status \<noteq> StatusRunning \<Longrightarrow> status_rank status = 2"
  by (cases status) simp_all

lemma rank_le: "status_rank status \<le> 2"
  by (cases status) simp_all

lemma ci_le_update_one:
  assumes inv: "ci_inv db" and r: "r \<in> set (db_runs db)" "r_status r = StatusQueued \<or> r_status r = StatusRunning"
    "run_identity (f r) = run_identity r" "status_rank (r_status r) \<le> status_rank (r_status (f r))"
  shows "ci_le db (update_run (\<lambda>q. r_id q = r_id r) f db)"
proof (rule ci_le_update_run)
  fix q assume "q \<in> set (db_runs db)" "r_id q = r_id r"
  then have "q = r" using run_unique [OF inv _ r(1)] by simp
  then show "evolves q (f q)" using evolves_active [OF inv_run_ok [OF inv r(1)] r(2-4)] by simp
qed

lemma finishRunRow_le:
  assumes inv: "ci_inv db" and f: "finishRunRow now runID status reason db = Inr (fr, db')"
  shows "ci_le db db'"
  using f
proof (rule finishRunRow_Inr)
  fix r
  assume st: "status \<notin> {StatusQueued, StatusRunning}" and db': "db' = update_run (\<lambda>r. r_id r = runID \<and> r_status r = StatusRunning)
       (\<lambda>r. r\<lparr>r_status := status,
          r_reason := (if status = StatusCancelled \<and> r_reason r \<noteq> [] then r_reason r else reason),
          r_finished := Some now, r_token := None\<rparr>) db"
  show ?thesis
    unfolding db'
    by (rule ci_le_update_run, rule evolves_active [OF inv_run_ok [OF inv]])
      (use st in \<open>simp_all add: run_identity_def\<close>)
qed

lemma Finish_le:
  assumes inv: "ci_inv db" and c: "Finish now runID out db = Inr (u, db')"
  shows "ci_le db db'"
proof (cases "finishRunRow now runID (o_Status out) (truncateReason (o_Reason out)) db")
  case (Inl e)
  then show ?thesis using c by (cases e) (auto simp: Finish_def Let_def ci_le_refl split: if_splits)
next
  case (Inr a)
  obtain fr db1 where a: "a = (fr, db1)" by (cases a)
  define x where "x = (if o_Status out = StatusCancelled then StepCancelled else StepFailed)"
  define y where "y = (if o_Status out = StatusCancelled then StepCancelled else StepSkipped)"
  have db': "db' = notify NotifyChannel runID
      (fold (\<lambda>(key, v). insertSummary runID key v) (o_Summary out) (settleOpenSteps now runID x y db1))"
    using c Inr a by (simp add: Finish_def Let_def x_def y_def split: if_splits)
  have "same_history db0 (fold (\<lambda>(key, v). insertSummary runID key v) (o_Summary out) db0)" for db0
    by (rule same_history_fold) (auto simp: same_historyI split: prod.splits)
  then have "same_history db1 db'"
    unfolding db' using same_history_trans [OF same_historyI(11)] same_history_trans [OF _ same_historyI(3)] by blast
  then show ?thesis using finishRunRow_le [OF inv Inr [unfolded a]] by (rule ci_le_then [rotated])
qed

lemma fail_lost_le: "ci_inv db \<Longrightarrow> fail_lost now ids db = Inr (u, db') \<Longrightarrow> ci_le db db'"
proof (induction ids arbitrary: db)
  case (Cons i ids)
  then obtain fr db1 where f: "finishRunRow now i StatusFailed ''The worker running it stopped responding.'' db = Inr (fr, db1)"
      and rest: "fail_lost now ids (notify NotifyChannel i (settleOpenSteps now i StepFailed StepSkipped db1)) = Inr (u, db')"
    by (auto elim!: bind_result.elims)
  let ?db = "notify NotifyChannel i (settleOpenSteps now i StepFailed StepSkipped db1)"
  have "ci_le db ?db"
    using finishRunRow_le [OF Cons.prems(1) f]
    by (rule ci_le_then) (auto intro: same_history_trans same_historyI)
  moreover have "ci_inv ?db" using finish_settle_inv [OF Cons.prems(1) f] by (simp add: ci_simps)
  ultimately show ?case using Cons.IH [OF _ rest] ci_le_trans by blast
qed (simp add: ci_le_refl)

lemma FailLostRuns_le: "ci_inv db \<Longrightarrow> FailLostRuns locked now staleAfter db = Inr (n, db') \<Longrightarrow> ci_le db db'"
  by (auto simp: FailLostRuns_def Let_def bind_result_Inr split: prod.splits intro: fail_lost_le)

lemma cancelRunRow_le:
  assumes inv: "ci_inv db" and c: "cancelRunRow now repoID number reason db = Inr (res, db')"
  shows "ci_le db db'"
proof -
  obtain r where r: "r \<in> set (db_runs db)"
    and db': "db' = (if r_status r = StatusQueued
            then settleOpenSteps now (r_id r) StepCancelled StepCancelled
                   (update_run (\<lambda>q. r_id q = r_id r) (\<lambda>q. q\<lparr>r_status := StatusCancelled,
                      r_reason := reason, r_finished := Some now\<rparr>) db)
            else if r_status r = StatusRunning
            then update_run (\<lambda>q. r_id q = r_id r) (\<lambda>q. q\<lparr>r_cancel := True, r_reason := reason\<rparr>) db
            else db)"
    using c by (auto simp: cancelRunRow_def split: option.splits dest!: find_SomeD)
  show ?thesis
    unfolding db'
    by (auto simp: run_identity_def ci_le_refl intro!: ci_le_then [OF _ same_historyI(11)] ci_le_update_one [OF inv r])
qed

lemma Cancel_le: "ci_inv db \<Longrightarrow> Cancel now repoID number by_name db = Inr (u, db') \<Longrightarrow> ci_le db db'"
  by (auto simp: Cancel_def bind_result_Inr split: prod.splits if_splits
      intro!: ci_le_then [OF _ same_historyI(3)] intro: cancelRunRow_le)

lemma supersedeQueued_le:
  assumes inv: "ci_inv db"
    and s: "supersedeQueued now repoID refKind refName beforeNumber reason db = (ids, db')"
  shows "ci_le db db'"
proof -
  define P where "P = (\<lambda>s :: step_row. s_run s \<in> set ids \<and> s_status s = StepPending)"
  have "db' = update_run (supersedable repoID refKind refName beforeNumber)
      (\<lambda>r. r\<lparr>r_status := StatusCancelled, r_reason := reason, r_finished := Some now\<rparr>)
      (update_step P (\<lambda>s. s\<lparr>s_status := StepCancelled\<rparr>) db)"
    using s by (auto simp: supersedeQueued_alt Let_def P_def)
  then have db': "db' = update_step P (\<lambda>s. s\<lparr>s_status := StepCancelled\<rparr>)
      (update_run (supersedable repoID refKind refName beforeNumber)
         (\<lambda>r. r\<lparr>r_status := StatusCancelled, r_reason := reason, r_finished := Some now\<rparr>) db)"
    by (simp add: update_run_step_commute)
  have le: "ci_le db (update_run (supersedable repoID refKind refName beforeNumber)
      (\<lambda>r. r\<lparr>r_status := StatusCancelled, r_reason := reason, r_finished := Some now\<rparr>) db)"
    by (rule ci_le_update_run, rule evolves_active [OF inv_run_ok [OF inv]])
      (auto simp: run_identity_def supersedable_def)
  show ?thesis unfolding db' by (rule ci_le_then [OF le same_historyI(1)])
qed

lemma same_history_notify_all: "same_history db (fold notifyRun ids db)"
  by (rule same_history_fold) (simp add: ci_simps)

lemma CancelQueuedTx_le: "ci_inv db \<Longrightarrow> CancelQueuedTx now repoID refKind refName reason db = Inr (u, db') \<Longrightarrow> ci_le db db'"
  by (auto simp: CancelQueuedTx_def split: prod.splits
      intro!: ci_le_then [OF _ same_history_notify_all] intro: supersedeQueued_le)

lemma ClaimNext_le:
  assumes inv: "ci_inv db"
    and c: "ClaimNext hash gate locked now plain workerID defaultTimeout images db = Inr (res, db')"
  shows "ci_le db db'"
proof (cases res)
  case None
  then show ?thesis
    using c by (auto simp: ClaimNext_def ci_le_refl split: if_splits sum.splits ci_error.splits prod.splits)
next
  case (Some claim)
  with c obtain claim0 db0 where
    "claimNextRun gate locked now workerID (hash plain) defaultTimeout (normalizeImages images) db = Inr (claim0, db0)"
    and db': "db' = notify NotifyChannel (cl_RunID claim0) db0"
    by (auto elim: ClaimNext_Inr)
  from claim_first_Inr [OF this(1) [unfolded claimNextRun_def]] obtain repoID where
    "claimNextRunForRepo locked now workerID (hash plain) defaultTimeout (normalizeImages images) repoID db = Inr (claim0, db0)"
    by blast
  then have "ci_le db db0"
  proof (rule claimNextRunForRepo_Inr)
    fix r
    assume r: "r \<in> set (db_runs db)" "claimable (normalizeImages images) db r"
      and db0: "db0 = update_run (\<lambda>q. r_id q = r_id r)
       (\<lambda>q. q\<lparr>r_status := StatusRunning, r_started := Some now, r_worker := Some workerID,
          r_token := Some (hash plain), r_deadline := Some (cl_Deadline claim0)\<rparr>) db"
    show ?thesis
      unfolding db0 using r(2)
      by (intro ci_le_update_one inv r(1)) (auto simp: claimable_def run_identity_def)
  qed
  then show ?thesis unfolding db' by (rule ci_le_then) (rule same_historyI(3))
qed

lemma step_ops_le:
  shows "StepStarted now runID stepID db = Inr (u, db') \<Longrightarrow> ci_le db db'"
    and "PlanContainer runID stepID name db = Inr (u, db') \<Longrightarrow> ci_le db db'"
    and "ContainerCreated runID stepID name db = Inr (u, db') \<Longrightarrow> ci_le db db'"
    and "BindWorkerEngine now workerID engineID root db = Inr (u, db') \<Longrightarrow> ci_le db db'"
proof -
  show "ci_le db db'" if "StepStarted now runID stepID db = Inr (u, db')"
    using that
    by (auto simp: StepStarted_def setStepRunning_def Let_def bind_result_Inr split: if_splits
        intro!: ci_le_then [OF _ same_historyI(3)] ci_le_same [OF same_historyI(1)])
  show "ci_le db db'" if "PlanContainer runID stepID name db = Inr (u, db')"
    using that by (auto simp: PlanContainer_def update_steps_if_Inr intro: ci_le_same [OF same_historyI(1)])
  show "ci_le db db'" if "ContainerCreated runID stepID name db = Inr (u, db')"
    using that by (auto simp: ContainerCreated_def update_steps_if_Inr intro: ci_le_same [OF same_historyI(1)])
  show "ci_le db db'" if "BindWorkerEngine now workerID engineID root db = Inr (u, db')"
    using that by (auto simp: BindWorkerEngine_def split: if_splits intro: ci_le_same [OF same_historyI(2)])
qed

lemma AppendLog_le: "ci_le db (snd (AppendLog runID stepID sq content db))"
proof -
  have "same_history db db'" if "insertLogChunk stepID sq content db = Inr (u, db')" for u db'
    using that
    by (auto simp: insertLogChunk_def same_history_def split: option.splits if_splits)
  then show ?thesis
    by (auto simp: AppendLog_def split: sum.splits prod.splits ci_error.splits
        intro!: ci_le_same ci_le_then [OF _ same_historyI(3)] simp: same_historyI same_history_def)
qed

lemma worker_ops_le:
  "ci_le db (RegisterWorker now workerID hostname db)" "ci_le db (Heartbeat now workerID n db)"
  "ci_le db (StopWorker now workerID db)" "ci_le db (SetWorkerReadiness now workerID ready reason images db)"
  by (auto simp: RegisterWorker_def upsertWorker_def Heartbeat_def touchWorker_def StopWorker_def
      markWorkerStopped_def SetWorkerReadiness_def same_historyI intro!: ci_le_same)

lemma same_history_add: "same_history db (add_deployment d db)"
  by (simp add: same_history_def)

lemma record_deployment_le:
  assumes "record_deployment now newID runID stepID generation c recovery db = Inr (u, db')"
  shows "ci_le db db'"
  using assms
  by (rule record_deployment_Inr)
    (auto intro: ci_le_release target_update_okI ci_le_trans [OF ci_le_same [OF same_history_add]])

lemma finishExecutionReceipt_le:
  assumes "finishExecutionReceipt now newID runID stepID status c recovery db = Inr (u, db')"
  shows "ci_le db db'"
  using assms
proof (cases rule: finishExecutionReceipt_Inr)
  case (written st db1)
  have "ci_le db db1" using written(5) by (auto split: if_splits intro: record_deployment_le ci_le_refl)
  then have le: "ci_le db (receipt now stepID status c db1)"
    unfolding receipt_def by (rule ci_le_then) (rule same_historyI(1))
  have "ci_le (receipt now stepID status c db1) db'"
    unfolding written(6) release_step_def
    by (auto split: option.splits intro!: ci_le_refl ci_le_release)
  then show ?thesis by (rule ci_le_trans [OF le])
qed (simp add: ci_le_refl)

lemma StepFinished_le: "StepFinished now newID runID stepID status c db = Inr (u, db') \<Longrightarrow> ci_le db db'"
  by (auto simp: StepFinished_def finishRecordedStep_def bind_result_Inr split: prod.splits
      intro!: ci_le_then [OF _ same_historyI(3)] intro: finishExecutionReceipt_le)

lemma RecoverStepExit_le: "RecoverStepExit now newID runID name c db = Inr (u, db') \<Longrightarrow> ci_le db db'"
  by (auto simp: RecoverStepExit_def split: option.splits if_splits intro: finishExecutionReceipt_le)

lemma confirm_le: "ci_le db (confirmExecutionStoppedTx now runID db)"
  unfolding confirmExecutionStoppedTx_def
  by (rule ci_le_trans [OF ci_le_same [OF same_historyI(1)] ci_le_release]) (rule target_update_okI)

lemma ConfirmContainersRemoved_le: "ci_le db (ConfirmContainersRemoved now runID db)"
  unfolding ConfirmContainersRemoved_def remove_containers_def ConfirmExecutionStopped_def
  by (rule ci_le_then [OF confirm_le same_historyI(1)])

lemma BeginDeployment_le:
  assumes inv: "ci_inv db" and c: "BeginDeployment now runID stepID db = Inr (u, db')"
  shows "ci_le db db'"
  using c
proof (rule BeginDeployment_Inr)
  fix r st t
  assume t: "t \<in> set (db_targets (insert_target (r_repo r) (r_target r) db))" "target_key t = run_key r"
    and cases: "(\<exists>ownerRun. dt_owner t = Some (ownerRun, stepID) \<and>
        db' = update_step (\<lambda>s. s_id s = stepID) (\<lambda>s. s\<lparr>s_generation := Some (dt_generation t)\<rparr>)
          (insert_target (r_repo r) (r_target r) db)) \<or>
     dt_owner t = None \<and> db' = taken (insert_target (r_repo r) (r_target r) db) r st t"
  define db0 where "db0 = insert_target (r_repo r) (r_target r) db"
  have le: "ci_le db db0" unfolding db0_def by (rule ci_le_insert_target)
  have "u = t" if "u \<in> set (db_targets db0)" "target_key u = run_key r" for u
    using target_unique [OF inv_insert_target [OF inv]] that t unfolding db0_def by metis
  then have "ci_le db0 (update_target (\<lambda>t. target_key t = run_key r)
          (\<lambda>u. u\<lparr>dt_owner := Some (r_id r, s_id st), dt_generation := dt_generation t + 1\<rparr>) db0)"
    by (intro ci_le_update_target) (auto simp: target_key_def)
  then have "ci_le db0 (taken db0 r st t)"
    unfolding take_target_def by (rule ci_le_then) (rule same_historyI(1))
  then have "ci_le db0 db'"
    using cases by (auto simp: db0_def intro: ci_le_same [OF same_historyI(1)])
  then show ?thesis by (rule ci_le_trans [OF le])
qed

lemma PruneRuns_le: "ci_le db (snd (PruneRuns before db))"
proof (induction before db rule: PruneRuns.induct)
  case (1 before db)
  obtain n db1 where d: "deleteOldRuns before pruneBatch db = (n, db1)" by (cases "deleteOldRuns before pruneBatch db")
  have "ci_le db db1" using d ci_le_delete_runs [of db] by (auto simp: deleteOldRuns_def Let_def)
  then show ?case
    using "1.IH" [OF d [symmetric] refl] d ci_le_trans [of db db1]
    by (subst PruneRuns.simps) (auto simp: case_prod_beta)
qed

lemma PruneWorkers_le: "ci_le db (snd (PruneWorkers before db))"
proof -
  have "evolves r (r\<lparr>r_worker := None\<rparr>)" for r by (simp add: evolves_def run_identity_def)
  then show ?thesis
    unfolding PruneWorkers_def deleteGoneWorkers_def Let_def snd_conv
    by (intro ci_le_trans [OF ci_le_same [OF same_historyI(6)] ci_le_update_run])
qed

lemma release_run_le: "ci_inv db \<Longrightarrow> release_run now run db = Inr (u, db') \<Longrightarrow> ci_le db db'"
  unfolding release_run_def remove_containers_def
  by (auto simp: bind_result_Inr split: prod.splits if_splits
      intro!: ci_le_then [OF _ same_historyI(1)] ci_le_then [OF _ same_historyI(3)] ci_le_trans [OF _ confirm_le]
        ci_le_then [OF _ same_historyI(11)] intro: ci_le_refl finishRunRow_le)

lemma release_runs_le: "ci_inv db \<Longrightarrow> release_runs now runs db = Inr (u, db') \<Longrightarrow> ci_le db db'"
proof (induction runs arbitrary: db)
  case (Cons run runs)
  then obtain db1 where "release_run now run db = Inr ((), db1)" "release_runs now runs db1 = Inr (u, db')"
    by (auto simp: bind_result_Inr)
  then show ?case
    using Cons.IH release_run_le [OF Cons.prems(1)] release_run_inv [OF Cons.prems(1)] ci_le_trans by blast
qed (simp add: ci_le_refl)

lemma ReleaseLostWorker_le:
  assumes inv: "ci_inv db" and c: "ReleaseLostWorker now workerID only db = Inr (n, db')"
  shows "ci_le db db'"
  using c
proof (rule ReleaseLostWorker_Inr)
  fix w db1
  assume r: "release_runs now (released_runs workerID only db) db = Inr ((), db1)"
    and db': "db' = (let db = stop_released now workerID (release_owners workerID only db1)
            in db\<lparr>db_audit := db_audit db @ [(wk_hostname w, workerID, n)]\<rparr>)"
  have "ci_le db1 (release_owners workerID only db1)"
    unfolding release_owners_def by (rule ci_le_release) (rule target_update_okI)
  then have "ci_le db (release_owners workerID only db1)" by (rule ci_le_trans [OF release_runs_le [OF inv r]])
  then show ?thesis
    unfolding db' Let_def stop_released_def by (intro ci_le_then [OF ci_le_then [OF _ same_historyI(2)] same_historyI(5)])
qed

lemma insert_steps_tables:
  "insert_steps runID status newID i steps db = Inr (u, db') \<Longrightarrow>
     same_history db db' \<and> db_deployments db' = db_deployments db \<and> db_workers db' = db_workers db"
proof (induction steps arbitrary: i db)
  case (Cons step rest)
  then obtain db1 where "insertStep (newID i) runID i (ps_name step) (ps_kind step)
      (if status = StatusQueued \<and> ps_run step then StepPending else StepSkipped) db = Inr ((), db1)"
    and rest: "insert_steps runID status newID (Suc i) rest db1 = Inr (u, db')"
    by (auto simp: bind_result_Inr)
  then have "same_history db db1 \<and> db_deployments db1 = db_deployments db \<and> db_workers db1 = db_workers db"
    by (auto simp: insertStep_def Let_def same_history_def split: if_splits)
  then show ?case using Cons.IH [OF rest] by (auto intro: same_history_trans)
qed (simp add: same_history_def)

lemma allocate_insert_le:
  assumes inv: "ci_inv db" and a: "allocateRunNumber repoID db = Inr (number, db1)"
    and row: "r_repo row = repoID" "r_number row = number"
  shows "ci_le db (db1\<lparr>db_runs := db_runs db1 @ [row]\<rparr>)"
proof -
  obtain p where p: "p \<in> set (db_repos db)" "rr_id p = repoID" and number: "number = rr_counter p + 1"
    and db1: "db1 = db\<lparr>db_repos := update_where (\<lambda>r. rr_id r = repoID)
                    (\<lambda>r. r\<lparr>rr_counter := rr_counter r + 1\<rparr>) (db_repos db)\<rparr>"
    using a by (auto simp: allocateRunNumber_def split: option.splits dest!: find_SomeD)
  have "inj_on rr_id (set (db_repos db))" using inv by (simp add: ci_inv_def runs_inv_def distinct_map)
  then have "q = p" if "q \<in> set (db_repos db)" "rr_id q = repoID" for q
    using that p by (auto dest: inj_onD)
  then have "runs_le db (db1\<lparr>db_runs := db_runs db1 @ [row]\<rparr>)"
    using row number by (auto simp: runs_le_def db1 intro: evolves_refl)
  moreover have "counters_le db (db1\<lparr>db_runs := db_runs db1 @ [row]\<rparr>)"
    by (auto simp: counters_le_def db1 bex_update_where)
  moreover have "targets_le db (db1\<lparr>db_runs := db_runs db1 @ [row]\<rparr>)"
    using targets_le_refl [of db] by (simp add: targets_le_def db1)
  ultimately show ?thesis by (simp add: ci_le_def)
qed

lemma CreateTx_le:
  assumes inv: "ci_inv db" and fresh: "step_ids_fresh stepIDs db"
    and c: "CreateTx parse et now runID stepIDs p db = Inr (created, db')"
  shows "ci_le db db'"
  using c
proof (rule CreateTx_Inr, goal_cases)
  case (1 db1 db2 db3 ids db4)
  have inv3: "ci_inv db3" using create_steps_inv [OF inv fresh 1(1-5) 1(8,9)] .
  have "ci_le db db2"
    unfolding 1(2) by (rule allocate_insert_le [OF inv 1(1)]) (simp_all add: new_run_row_def)
  moreover have "same_history db2 db3" using insert_steps_tables [OF 1(5)] by blast
  moreover have "ci_le db3 db4" by (rule supersedeQueued_le [OF inv3 1(6)])
  moreover have "same_history db4 db'"
    unfolding 1(7) using same_history_trans [OF same_history_notify_all same_historyI(13)] .
  ultimately show ?case using ci_le_then [OF ci_le_trans [OF ci_le_then]] by blast
qed

lemma Start_le:
  "ci_inv db \<Longrightarrow> step_ids_fresh stepIDs db \<Longrightarrow> Start parse et FileAt now runID stepIDs p db = Inr (created, db') \<Longrightarrow> ci_le db db'"
  by (auto simp: Start_def split: if_splits option.splits prod.splits intro: CreateTx_le)

lemma commit_le: "(\<And>a db'. res = Inr (a, db') \<Longrightarrow> ci_le db db') \<Longrightarrow> ci_le db (commit res db)"
  by (auto simp: commit_def ci_le_refl split: sum.splits)

lemmas op_les = CreateTx_le Start_le CancelQueuedTx_le ClaimNext_le step_ops_le StepFinished_le
  Finish_le Cancel_le FailLostRuns_le RecoverStepExit_le BeginDeployment_le ReleaseLostWorker_le

lemma ci_exec_le:
  assumes inv: "ci_inv db" and allowed: "ci_allowed op db"
  shows "ci_le db (ci_exec parse et hash op db)"
proof (cases op)
  case (DoContainerRemoved now runID name)
  then show ?thesis by (simp add: ContainerRemoved_def ci_le_same same_historyI)
qed (use inv allowed in \<open>simp_all add: AppendLog_le PruneRuns_le PruneWorkers_le ConfirmExecutionStopped_def
  confirm_le ConfirmContainersRemoved_le ci_le_add_repo worker_ops_le ci_le_same same_historyI\<close>,
  (rule commit_le, blast intro: op_les)+)

interpretation ci_history: ordered_system ci_allowed "ci_exec parse et hash" ci_inv ci_le for parse et hash
  by unfold_locales (auto intro: ci_le_refl ci_le_trans ci_exec_le)

end
