(* ===== verification/Ci_Ownership.thy ===== *)
theory Ci_Ownership
  imports Ci_History
begin

text \<open>
  The owner of a deployment target stays its owner, and nobody else records a deployment there,
  until the owner's own receipt, a confirmation that its execution stopped, or an operator's
  release of its worker; and no two queued runs share a ref.
\<close>

section \<open>Operations that leave targets and deployments alone\<close>

definition deployment_view :: "deployment_row \<Rightarrow> string \<times> string \<times> string" where
  "deployment_view d = (dp_step d, dp_repo d, dp_target d)"

definition quiet :: "ci_db \<Rightarrow> ci_db \<Rightarrow> bool" where
  "quiet db db' \<longleftrightarrow>
     db_targets db' = db_targets db \<and>
     map deployment_view (db_deployments db') = map deployment_view (db_deployments db)"

lemma quiet_refl: "quiet db db"
  by (simp add: quiet_def)

lemma quiet_trans: "quiet a b \<Longrightarrow> quiet b c \<Longrightarrow> quiet a c"
  by (simp add: quiet_def)

lemma quietI:
  "quiet db (update_run P f db)" "quiet db (update_step Q g db)" "quiet db (update_worker R h db)"
  "quiet db (notify c x db)" "quiet db (notifyRun i db)" "quiet db (settleOpenSteps now i s1 s2 db)"
  "quiet db (insertSummary i k v db)" "quiet db (delete_runs ids db)" "quiet db (add_repo i nm db)"
  "quiet db (db\<lparr>db_logs := l\<rparr>)" "quiet db (db\<lparr>db_audit := au\<rparr>)" "quiet db (db\<lparr>db_workers := w\<rparr>)"
  "quiet db (db\<lparr>db_refs := rs\<rparr>)" "quiet db (db\<lparr>db_pending := ps\<rparr>)" "quiet db (db\<lparr>db_maintenance := b\<rparr>)"
  "quiet db (db\<lparr>db_runs := rns\<rparr>)" "quiet db (db\<lparr>db_repos := rps\<rparr>)"
  by (simp_all add: quiet_def insertSummary_def notifyRun_def add_repo_def map_update_where_on deployment_view_def)

lemma quiet_then: "quiet a b \<Longrightarrow> (\<And>db. quiet db (f db)) \<Longrightarrow> quiet a (f b)"
  using quiet_trans by blast

lemma quiet_fold: "(\<And>x db. quiet db (f x db)) \<Longrightarrow> quiet db (fold f xs db)"
proof (induction xs arbitrary: db)
  case (Cons x xs)
  have "quiet (f x db) (fold f xs (f x db))" by (rule Cons.IH) (rule Cons.prems)
  then show ?case using Cons.prems [of db x] by (auto intro: quiet_trans)
qed (simp add: quiet_refl)

lemma quiet_notify_all: "quiet db (fold notifyRun ids db)"
  by (rule quiet_fold) (rule quietI)

lemma finishRunRow_quiet: "finishRunRow now runID status reason db = Inr (fr, db') \<Longrightarrow> quiet db db'"
  by (erule finishRunRow_Inr) (simp add: quietI)

lemma Finish_quiet:
  assumes "Finish now runID out db = Inr (u, db')" shows "quiet db db'"
proof (cases "finishRunRow now runID (o_Status out) (truncateReason (o_Reason out)) db")
  case (Inl e)
  then show ?thesis using assms by (cases e) (auto simp: Finish_def Let_def quiet_refl split: if_splits)
next
  case (Inr a)
  obtain fr db1 where a: "a = (fr, db1)" by (cases a)
  define x where "x = (if o_Status out = StatusCancelled then StepCancelled else StepFailed)"
  define y where "y = (if o_Status out = StatusCancelled then StepCancelled else StepSkipped)"
  have db': "db' = notify NotifyChannel runID
      (fold (\<lambda>(key, v). insertSummary runID key v) (o_Summary out) (settleOpenSteps now runID x y db1))"
    using assms Inr a by (simp add: Finish_def Let_def x_def y_def split: if_splits)
  have "quiet db0 (fold (\<lambda>(key, v). insertSummary runID key v) (o_Summary out) db0)" for db0
    by (rule quiet_fold) (auto simp: quietI split: prod.splits)
  then show ?thesis
    unfolding db' using finishRunRow_quiet [OF Inr [unfolded a]] quietI(4,6) quiet_trans by metis
qed

lemma fail_lost_quiet: "fail_lost now ids db = Inr (u, db') \<Longrightarrow> quiet db db'"
proof (induction ids arbitrary: db)
  case (Cons i ids)
  then obtain fr db1 where f: "finishRunRow now i StatusFailed ''The worker running it stopped responding.'' db = Inr (fr, db1)"
      and rest: "fail_lost now ids (notify NotifyChannel i (settleOpenSteps now i StepFailed StepSkipped db1)) = Inr (u, db')"
    by (auto elim!: bind_result.elims)
  have "quiet db1 (notify NotifyChannel i (settleOpenSteps now i StepFailed StepSkipped db1))"
    by (rule quiet_trans [OF quietI(6) quietI(4)])
  then show ?case using finishRunRow_quiet [OF f] Cons.IH [OF rest] quiet_trans by blast
qed (simp add: quiet_refl)

lemma FailLostRuns_quiet: "FailLostRuns locked now staleAfter db = Inr (n, db') \<Longrightarrow> quiet db db'"
  by (auto simp: FailLostRuns_def Let_def bind_result_Inr split: prod.splits intro: fail_lost_quiet)

lemma supersedeQueued_quiet:
  "supersedeQueued now repoID refKind refName beforeNumber reason db = (ids, db') \<Longrightarrow> quiet db db'"
  by (auto simp: supersedeQueued_alt Let_def intro: quiet_trans [OF quietI(2) quietI(1)])

lemma CancelQueuedTx_quiet: "CancelQueuedTx now repoID refKind refName reason db = Inr (u, db') \<Longrightarrow> quiet db db'"
  by (auto simp: CancelQueuedTx_def split: prod.splits
      intro!: quiet_trans [OF _ quiet_notify_all] intro: supersedeQueued_quiet)

lemma insert_steps_quiet: "insert_steps runID status newID i steps db = Inr (u, db') \<Longrightarrow> quiet db db'"
  using insert_steps_tables [of runID status newID i steps db u db'] by (simp add: quiet_def same_history_def)

lemma CreateTx_quiet:
  assumes "CreateTx parse et now runID stepIDs p db = Inr (created, db')" shows "quiet db db'"
  using assms
proof (rule CreateTx_Inr, goal_cases)
  case (1 db1 db2 db3 ids db4)
  have "quiet db db1" using 1(1) by (auto simp: allocateRunNumber_def quietI split: option.splits)
  moreover have "quiet db1 db2" unfolding 1(2) by (rule quietI)
  moreover have "quiet db4 db'" unfolding 1(7) by (rule quiet_trans [OF quiet_notify_all quietI(5)])
  ultimately show ?case
    using insert_steps_quiet [OF 1(5)] supersedeQueued_quiet [OF 1(6)] quiet_trans by blast
qed

lemma Start_quiet: "Start parse et FileAt now runID stepIDs p db = Inr (created, db') \<Longrightarrow> quiet db db'"
  by (auto simp: Start_def split: if_splits option.splits prod.splits intro: CreateTx_quiet)

lemma ClaimNext_quiet:
  assumes "ClaimNext hash gate locked now plain workerID defaultTimeout images db = Inr (res, db')"
  shows "quiet db db'"
proof (cases res)
  case None
  then show ?thesis
    using assms by (auto simp: ClaimNext_def quiet_refl split: if_splits sum.splits ci_error.splits prod.splits)
next
  case (Some claim)
  with assms obtain claim0 db0 where
    "claimNextRun gate locked now workerID (hash plain) defaultTimeout (normalizeImages images) db = Inr (claim0, db0)"
    and db': "db' = notify NotifyChannel (cl_RunID claim0) db0"
    by (auto elim: ClaimNext_Inr)
  from claim_first_Inr [OF this(1) [unfolded claimNextRun_def]] obtain repoID where
    "claimNextRunForRepo locked now workerID (hash plain) defaultTimeout (normalizeImages images) repoID db = Inr (claim0, db0)"
    by blast
  then have "quiet db db0" by (rule claimNextRunForRepo_Inr) (simp add: quietI)
  then show ?thesis unfolding db' by (rule quiet_trans) (rule quietI)
qed

lemma Cancel_quiet: "Cancel now repoID number by_name db = Inr (u, db') \<Longrightarrow> quiet db db'"
  by (auto simp: Cancel_def cancelRunRow_def bind_result_Inr split: prod.splits if_splits option.splits
      intro!: quiet_trans [OF _ quietI(4)] quiet_trans [OF quietI(1) quietI(6)] quietI quiet_refl)

lemma StepStarted_quiet: "StepStarted now runID stepID db = Inr (u, db') \<Longrightarrow> quiet db db'"
  by (auto simp: StepStarted_def setStepRunning_def Let_def bind_result_Inr split: if_splits
      intro!: quiet_trans [OF quietI(2) quietI(4)])

lemma container_quiet:
  "PlanContainer runID stepID name db = Inr (u, db') \<Longrightarrow> quiet db db'"
  "ContainerCreated runID stepID name db = Inr (u, db') \<Longrightarrow> quiet db db'"
  "quiet db (ContainerRemoved now runID name db)" "quiet db (remove_containers now runID db)"
  by (auto simp: PlanContainer_def ContainerCreated_def update_steps_if_Inr ContainerRemoved_def
      remove_containers_def quietI)

lemma BindWorkerEngine_quiet: "BindWorkerEngine now workerID engineID root db = Inr (u, db') \<Longrightarrow> quiet db db'"
  by (auto simp: BindWorkerEngine_def quietI split: if_splits)

lemma worker_ops_quiet:
  "quiet db (RegisterWorker now workerID hostname db)" "quiet db (Heartbeat now workerID n db)"
  "quiet db (StopWorker now workerID db)" "quiet db (SetWorkerReadiness now workerID ready reason images db)"
  by (simp_all add: RegisterWorker_def upsertWorker_def Heartbeat_def touchWorker_def StopWorker_def
      markWorkerStopped_def SetWorkerReadiness_def quietI)

lemma AppendLog_quiet: "quiet db (snd (AppendLog runID stepID sq content db))"
proof -
  have "quiet db db'" if "insertLogChunk stepID sq content db = Inr (u, db')" for u db'
    using that by (auto simp: insertLogChunk_def quiet_def split: option.splits if_splits)
  then show ?thesis
    by (auto simp: AppendLog_def quietI quiet_refl split: sum.splits prod.splits ci_error.splits
        intro!: quiet_trans [OF _ quietI(4)])
qed

lemma PruneRuns_quiet: "quiet db (snd (PruneRuns before db))"
proof (induction before db rule: PruneRuns.induct)
  case (1 before db)
  obtain n db1 where d: "deleteOldRuns before pruneBatch db = (n, db1)" by (cases "deleteOldRuns before pruneBatch db")
  have "quiet db db1" using d by (auto simp: deleteOldRuns_def Let_def quietI)
  then show ?case
    using "1.IH" [OF d [symmetric] refl] d quiet_trans [of db db1]
    by (subst PruneRuns.simps) (auto simp: case_prod_beta)
qed

lemma PruneWorkers_quiet: "quiet db (snd (PruneWorkers before db))"
  by (auto simp: PruneWorkers_def deleteGoneWorkers_def Let_def intro: quiet_trans [OF quietI(12) quietI(1)])

section \<open>Holding a target\<close>

definition owned :: "string \<times> string \<Rightarrow> string \<Rightarrow> string \<Rightarrow> int \<Rightarrow> ci_db \<Rightarrow> bool" where
  "owned k runID stepID g db \<longleftrightarrow>
     (\<exists>t\<in>set (db_targets db). target_key t = k \<and> dt_owner t = Some (runID, stepID) \<and> dt_generation t = g)"

text \<open>The steps with a deployment recorded for a target.\<close>

definition recorded :: "string \<times> string \<Rightarrow> ci_db \<Rightarrow> string set" where
  "recorded k db = dp_step ` {d \<in> set (db_deployments db). (dp_repo d, dp_target d) = k}"

definition kept :: "string \<times> string \<Rightarrow> string \<Rightarrow> string \<Rightarrow> int \<Rightarrow> ci_db \<Rightarrow> ci_db \<Rightarrow> bool" where
  "kept k runID stepID g db db' \<longleftrightarrow> owned k runID stepID g db' \<and> recorded k db' \<subseteq> recorded k db"

text \<open>The calls that may end an ownership.\<close>

fun releases :: "string \<Rightarrow> string \<Rightarrow> ci_op \<Rightarrow> ci_db \<Rightarrow> bool" where
  "releases runID stepID (DoStepFinished _ _ r s _ _) db = (r = runID \<and> s = stepID)"
| "releases runID stepID (DoRecoverExit _ _ r _ _) db = (r = runID)"
| "releases runID stepID (DoConfirmStopped _ r) db = (r = runID)"
| "releases runID stepID (DoConfirmRemoved _ r) db = (r = runID)"
| "releases runID stepID (DoRelease _ w _) db = list_ex (\<lambda>r. r_id r = runID \<and> r_worker r = Some w) (db_runs db)"
| "releases runID stepID _ db = False"

lemma recorded_view: "recorded k db = {s. (s, k) \<in> set (map deployment_view (db_deployments db))}"
  by (force simp: recorded_def deployment_view_def)

lemma quiet_recorded: "quiet db db' \<Longrightarrow> recorded k db' = recorded k db"
  by (simp only: recorded_view quiet_def)

lemma quiet_kept: "quiet db db' \<Longrightarrow> owned k runID stepID g db \<Longrightarrow> kept k runID stepID g db db'"
  using quiet_recorded [of db db' k] by (simp add: kept_def owned_def quiet_def)

lemma kept_trans: "kept k i j g a b \<Longrightarrow> kept k i j g b c \<Longrightarrow> kept k i j g a c"
  unfolding kept_def by blast

lemma owned_update_target:
  assumes "owned k i j g db"
    and "\<And>t. t \<in> set (db_targets db) \<Longrightarrow> target_key t = k \<Longrightarrow> dt_owner t = Some (i, j) \<Longrightarrow> P t \<Longrightarrow>
       target_key (f t) = k \<and> dt_owner (f t) = Some (i, j) \<and> dt_generation (f t) = dt_generation t"
  shows "owned k i j g (update_target P f db)"
  using assms unfolding owned_def update_target_tables bex_update_where by auto

lemma recorded_same: "db_deployments db' = db_deployments db \<Longrightarrow> recorded k db' = recorded k db"
  by (simp add: recorded_def)

lemma kept_update_target:
  assumes "owned k i j g db"
    and "\<And>t. t \<in> set (db_targets db) \<Longrightarrow> target_key t = k \<Longrightarrow> dt_owner t = Some (i, j) \<Longrightarrow> P t \<Longrightarrow>
       target_key (f t) = k \<and> dt_owner (f t) = Some (i, j) \<and> dt_generation (f t) = dt_generation t"
  shows "kept k i j g db (update_target P f db)"
  unfolding kept_def
proof
  show "owned k i j g (update_target P f db)" by (rule owned_update_target) (use assms in blast)+
  have "recorded k (update_target P f db) = recorded k db" by (rule recorded_same) simp
  then show "recorded k (update_target P f db) \<subseteq> recorded k db" by simp
qed

lemma owned_owner:
  assumes inv: "ci_inv db" and o: "owned k i j g db" and t: "t \<in> set (db_targets db)" "target_key t = k"
  shows "dt_owner t = Some (i, j)"
proof -
  obtain t0 where t0: "t0 \<in> set (db_targets db)" "target_key t0 = k" "dt_owner t0 = Some (i, j)"
    using o unfolding owned_def by blast
  then have "t = t0" using target_unique [OF inv t(1) t0(1)] t(2) by simp
  then show ?thesis using t0(3) by simp
qed

lemma kept_confirm:
  assumes o: "owned k i j g db" and ne: "runID \<noteq> i"
  shows "kept k i j g db (confirmExecutionStoppedTx now runID db)"
  unfolding confirmExecutionStoppedTx_def update_target_step_commute
proof (rule kept_trans)
  show "kept k i j g db (update_target (\<lambda>t. owner_run t = Some runID) (\<lambda>t. t\<lparr>dt_owner := None\<rparr>) db)"
    by (rule kept_update_target [OF o]) (use ne in \<open>simp add: owner_run_def\<close>)
  then have "owned k i j g (update_target (\<lambda>t. owner_run t = Some runID) (\<lambda>t. t\<lparr>dt_owner := None\<rparr>) db)"
    by (simp add: kept_def)
  then show "kept k i j g (update_target (\<lambda>t. owner_run t = Some runID) (\<lambda>t. t\<lparr>dt_owner := None\<rparr>) db)
     (update_step (\<lambda>s. s_run s = runID \<and> s_type s = StepDeploy \<and> s_status s = StepRunning)
       (\<lambda>s. s\<lparr>s_status := StepFailed, s_finished := Some now\<rparr>)
       (update_target (\<lambda>t. owner_run t = Some runID) (\<lambda>t. t\<lparr>dt_owner := None\<rparr>) db))"
    by (rule quiet_kept [OF quietI(2)])
qed

lemma kept_record:
  assumes inv: "ci_inv db" and o: "owned k i j g db" and ne: "(runID, stepID) \<noteq> (i, j)"
    and c: "record_deployment now newID runID stepID generation c recovery db = Inr (u, db')"
  shows "kept k i j g db db'"
  using c
proof (rule record_deployment_Inr)
  fix g' t and r :: run_row
  define d where "d = \<lparr>dp_id = newID, dp_repo = r_repo r, dp_target = r_target r, dp_version = r_version r,
          dp_commit = r_commit r, dp_run = Some runID, dp_person = r_person r, dp_step = stepID, dp_created = now\<rparr>"
  assume t: "t \<in> set (db_targets db)" "target_key t = run_key r" "dt_owner t = Some (runID, stepID)"
    and db': "db' = update_target (\<lambda>t. target_key t = run_key r) (\<lambda>t. t\<lparr>dt_latest := max (dt_latest t) (r_number r)\<rparr>)
       (if stepID \<in> dp_step ` set (db_deployments db) then db
        else add_deployment \<lparr>dp_id = newID, dp_repo = r_repo r, dp_target = r_target r, dp_version = r_version r,
          dp_commit = r_commit r, dp_run = Some runID, dp_person = r_person r, dp_step = stepID,
          dp_created = now\<rparr> db)"
  have "run_key r \<noteq> k" using owned_owner [OF inv o t(1)] t(2,3) ne by auto
  then have "recorded k (add_deployment d db) = recorded k db"
    by (auto simp: recorded_def d_def run_key_def)
  moreover have "owned k i j g (add_deployment d db)" using o by (simp add: owned_def)
  ultimately have mid: "kept k i j g db (if stepID \<in> dp_step ` set (db_deployments db) then db else add_deployment d db)"
    using o by (simp add: kept_def)
  then have "owned k i j g (if stepID \<in> dp_step ` set (db_deployments db) then db else add_deployment d db)"
    by (simp add: kept_def)
  from kept_update_target [OF this, of "\<lambda>t. target_key t = run_key r" "\<lambda>t. t\<lparr>dt_latest := max (dt_latest t) (r_number r)\<rparr>"]
  show ?thesis unfolding db' d_def [symmetric] by (intro kept_trans [OF mid]) (simp add: target_key_def)
qed

lemma kept_receipt:
  assumes inv: "ci_inv db" and o: "owned k i j g db" and ne: "(runID, stepID) \<noteq> (i, j)"
    and c: "finishExecutionReceipt now newID runID stepID status c recovery db = Inr (u, db')"
  shows "kept k i j g db db'"
  using c
proof (cases rule: finishExecutionReceipt_Inr)
  case kept
  then show ?thesis using quiet_kept [OF quiet_refl o] by simp
next
  case (written st db1)
  have mid: "kept k i j g db db1"
    using written(5) kept_record [OF inv o ne] quiet_kept [OF quiet_refl o] by (auto split: if_splits)
  have rcpt: "kept k i j g db (receipt now stepID status c db1)"
    using mid unfolding receipt_def by (intro kept_trans [OF mid] quiet_kept quietI) (simp add: kept_def)
  then have "owned k i j g (receipt now stepID status c db1)" by (simp add: kept_def)
  then have "kept k i j g (receipt now stepID status c db1) (release_step runID stepID g' (receipt now stepID status c db1))" for g'
    unfolding release_step_def by (rule kept_update_target) (use ne in auto)
  then show ?thesis
    using rcpt kept_trans unfolding written(6) by (auto split: option.splits)
qed

lemma kept_begin:
  assumes inv: "ci_inv db" and o: "owned k i j g db"
    and c: "BeginDeployment now runID stepID db = Inr (u, db')"
  shows "kept k i j g db db'"
  using c
proof (rule BeginDeployment_Inr)
  fix r st t
  assume t: "t \<in> set (db_targets (insert_target (r_repo r) (r_target r) db))" "target_key t = run_key r"
    and cases: "(\<exists>ownerRun. dt_owner t = Some (ownerRun, stepID) \<and>
        db' = update_step (\<lambda>s. s_id s = stepID) (\<lambda>s. s\<lparr>s_generation := Some (dt_generation t)\<rparr>)
          (insert_target (r_repo r) (r_target r) db)) \<or>
     dt_owner t = None \<and> db' = taken (insert_target (r_repo r) (r_target r) db) r st t"
  define db0 where "db0 = insert_target (r_repo r) (r_target r) db"
  have inv0: "ci_inv db0" unfolding db0_def by (rule inv_insert_target [OF inv])
  have o0: "owned k i j g db0" using o by (auto simp: owned_def db0_def insert_target_def)
  have mid: "kept k i j g db db0" using o0 recorded_same [of db0 db k] by (simp add: kept_def db0_def)
  from cases show ?thesis
  proof
    assume "\<exists>ownerRun. dt_owner t = Some (ownerRun, stepID) \<and>
        db' = update_step (\<lambda>s. s_id s = stepID) (\<lambda>s. s\<lparr>s_generation := Some (dt_generation t)\<rparr>)
          (insert_target (r_repo r) (r_target r) db)"
    then show ?thesis using quiet_kept [OF quietI(2) o0] kept_trans [OF mid] by (auto simp: db0_def)
  next
    assume free: "dt_owner t = None \<and> db' = taken (insert_target (r_repo r) (r_target r) db) r st t"
    have ne: "run_key r \<noteq> k" using owned_owner [OF inv0 o0, of t] t free by (auto simp: db0_def)
    define db1 where "db1 = update_target (\<lambda>t. target_key t = run_key r)
          (\<lambda>u. u\<lparr>dt_owner := Some (r_id r, s_id st), dt_generation := dt_generation t + 1\<rparr>) db0"
    have k1: "kept k i j g db0 db1"
      unfolding db1_def by (rule kept_update_target [OF o0]) (use ne in auto)
    then have "owned k i j g db1" by (simp add: kept_def)
    from quiet_kept [OF quietI(2) this] have "kept k i j g db1 db'"
      using free by (simp add: db1_def take_target_def db0_def)
    then show ?thesis using mid k1 kept_trans by blast
  qed
qed

definition assignments :: "ci_db \<Rightarrow> (string \<times> string option) list" where
  "assignments db = map (\<lambda>r. (r_id r, r_worker r)) (db_runs db)"

lemma finishRunRow_assignments:
  "finishRunRow now runID status reason db = Inr (fr, db') \<Longrightarrow> assignments db' = assignments db"
  by (erule finishRunRow_Inr) (simp add: assignments_def map_update_where_on)

lemma release_run_Inr:
  assumes "release_run now run db = Inr (u, db')"
  shows "assignments db' = assignments db"
    and "owned k i j g db \<Longrightarrow> fst run \<noteq> i \<Longrightarrow> kept k i j g db db'"
proof -
  obtain runID status where run: "run = (runID, status)" by (cases run)
  obtain db1 where db': "db' = remove_containers now runID db1" and db1:
    "if status = StatusRunning then (\<exists>fr db0. finishRunRow now runID StatusFailed release_reason db = Inr (fr, db0) \<and>
        db1 = notify NotifyChannel runID (confirmExecutionStoppedTx now runID
                (settleOpenSteps now runID StepFailed StepSkipped db0)))
     else db1 = db"
    using assms by (auto simp: release_run_def run bind_result_Inr split: if_splits)
  show "assignments db' = assignments db"
  proof (cases "status = StatusRunning")
    case True
    then show ?thesis using db1 finishRunRow_assignments
      by (auto simp: db' remove_containers_def assignments_def confirmExecutionStoppedTx_def)
  qed (use db1 in \<open>simp add: db' remove_containers_def assignments_def\<close>)
  show "kept k i j g db db'" if o: "owned k i j g db" "fst run \<noteq> i"
  proof -
    have "kept k i j g db db1"
    proof (cases "status = StatusRunning")
      case False
      then show ?thesis using db1 quiet_kept [OF quiet_refl o(1)] by simp
    next
      case True
      then obtain fr db0 where f: "finishRunRow now runID StatusFailed release_reason db = Inr (fr, db0)"
        and d: "db1 = notify NotifyChannel runID (confirmExecutionStoppedTx now runID
                (settleOpenSteps now runID StepFailed StepSkipped db0))"
        using db1 by auto
      let ?s = "settleOpenSteps now runID StepFailed StepSkipped db0"
      have k1: "kept k i j g db ?s"
        by (rule quiet_kept [OF quiet_trans [OF finishRunRow_quiet [OF f] quietI(6)] o(1)])
      then have k2: "kept k i j g ?s (confirmExecutionStoppedTx now runID ?s)"
        using o(2) by (intro kept_confirm) (auto simp: kept_def run)
      then have "kept k i j g (confirmExecutionStoppedTx now runID ?s) db1"
        unfolding d by (intro quiet_kept quietI) (simp add: kept_def)
      then show ?thesis using k1 k2 kept_trans by blast
    qed
    moreover have "kept k i j g db1 db'"
      unfolding db' using calculation by (intro quiet_kept container_quiet) (simp add: kept_def)
    ultimately show ?thesis by (rule kept_trans)
  qed
qed

lemma release_runs_Inr:
  assumes "release_runs now runs db = Inr (u, db')"
  shows "assignments db' = assignments db"
    and "owned k i j g db \<Longrightarrow> i \<notin> fst ` set runs \<Longrightarrow> kept k i j g db db'"
  using assms
proof (induction runs arbitrary: db)
  case Nil
  { case 1 then show ?case by simp }
  { case 2 then show ?case using quiet_kept [OF quiet_refl] by simp }
next
  case (Cons run runs)
  { case 1
    then obtain db1 where "release_run now run db = Inr ((), db1)" "release_runs now runs db1 = Inr (u, db')"
      by (auto simp: bind_result_Inr)
    then show ?case using Cons.IH(1) release_run_Inr(1) by metis }
  { case 2
    then obtain db1 where r: "release_run now run db = Inr ((), db1)" "release_runs now runs db1 = Inr (u, db')"
      by (auto simp: bind_result_Inr)
    have k1: "kept k i j g db db1" using 2 by (intro release_run_Inr(2) [OF r(1)]) auto
    moreover have "kept k i j g db1 db'" by (rule Cons.IH(2)) (use r(2) 2 k1 in \<open>auto simp: kept_def\<close>)
    ultimately show ?case by (rule kept_trans) }
qed

lemma kept_release:
  assumes o: "owned k i j g db" and ne: "\<not> list_ex (\<lambda>r. r_id r = i \<and> r_worker r = Some workerID) (db_runs db)"
    and c: "ReleaseLostWorker now workerID only db = Inr (n, db')"
  shows "kept k i j g db db'"
  using c
proof (rule ReleaseLostWorker_Inr)
  fix w db1
  assume r: "release_runs now (released_runs workerID only db) db = Inr ((), db1)"
    and db': "db' = (let db = stop_released now workerID (release_owners workerID only db1)
            in db\<lparr>db_audit := db_audit db @ [(wk_hostname w, workerID, n)]\<rparr>)"
  have "i \<notin> fst ` set (released_runs workerID only db)"
    using ne by (auto simp: released_runs_def list_ex_iff)
  from release_runs_Inr(2) [OF r o this] have k1: "kept k i j g db db1" .
  have "(i, Some workerID) \<notin> set (assignments db)" using ne by (auto simp: assignments_def list_ex_iff)
  then have "(i, Some workerID) \<notin> set (assignments db1)" using release_runs_Inr(1) [OF r] by simp
  then have k2: "kept k i j g db1 (release_owners workerID only db1)"
    unfolding release_owners_def using k1
    by (intro kept_update_target) (auto simp: kept_def owner_run_def assignments_def list_ex_iff rev_image_eqI)
  have "quiet (release_owners workerID only db1) db'"
    unfolding db' Let_def stop_released_def by (rule quiet_trans [OF quietI(3) quietI(11)])
  then have "kept k i j g (release_owners workerID only db1) db'"
    using k2 by (intro quiet_kept) (simp_all add: kept_def)
  then show ?thesis using k1 k2 kept_trans by blast
qed

lemma commit_kept:
  "owned k i j g db \<Longrightarrow> (\<And>a db'. res = Inr (a, db') \<Longrightarrow> kept k i j g db db') \<Longrightarrow> kept k i j g db (commit res db)"
  using quiet_kept [OF quiet_refl] by (auto simp: commit_def split: sum.splits)

lemmas op_quiet = CreateTx_quiet Start_quiet CancelQueuedTx_quiet ClaimNext_quiet StepStarted_quiet
  Finish_quiet Cancel_quiet FailLostRuns_quiet container_quiet BindWorkerEngine_quiet

lemmas op_quiet_total = AppendLog_quiet PruneRuns_quiet PruneWorkers_quiet worker_ops_quiet container_quiet(3) quietI

lemma kept_confirm_removed:
  assumes "owned k i j g db" "runID \<noteq> i"
  shows "kept k i j g db (ConfirmContainersRemoved now runID db)"
proof -
  have c: "kept k i j g db (confirmExecutionStoppedTx now runID db)" by (rule kept_confirm [OF assms])
  then have "owned k i j g (confirmExecutionStoppedTx now runID db)" by (simp add: kept_def)
  from quiet_kept [OF container_quiet(4) this] show ?thesis
    unfolding ConfirmContainersRemoved_def ConfirmExecutionStopped_def by (rule kept_trans [OF c])
qed

lemma ci_exec_kept:
  assumes inv: "ci_inv db" and o: "owned k i j g db" and ne: "\<not> releases i j op db"
  shows "kept k i j g db (ci_exec parse et hash op db)"
proof (cases op)
  case (DoStepFinished now newID runID stepID status c)
  show ?thesis
    unfolding DoStepFinished ci_exec.simps
  proof (rule commit_kept [OF o])
    fix a db' assume "StepFinished now newID runID stepID status c db = Inr (a, db')"
    then obtain db1 where "finishExecutionReceipt now newID runID stepID status c False db = Inr ((), db1)"
      and db': "db' = notify NotifyChannel runID db1"
      by (auto simp: StepFinished_def finishRecordedStep_def bind_result_Inr)
    then have k1: "kept k i j g db db1"
      by (intro kept_receipt [OF inv o, rotated]) (use ne DoStepFinished in auto)
    then have "owned k i j g db1" by (simp add: kept_def)
    from quiet_kept [OF quietI(4) this] show "kept k i j g db db'" unfolding db' by (rule kept_trans [OF k1])
  qed
next
  case (DoRecoverExit now newID runID name c)
  show ?thesis
    unfolding DoRecoverExit ci_exec.simps
  proof (rule commit_kept [OF o])
    fix a db' assume "RecoverStepExit now newID runID name c db = Inr (a, db')"
    then obtain stepID status where "finishExecutionReceipt now newID runID stepID status (Some c) True db = Inr (a, db')"
      by (auto simp: RecoverStepExit_def split: option.splits)
    then show "kept k i j g db db'" by (rule kept_receipt [OF inv o, rotated]) (use ne DoRecoverExit in auto)
  qed
next
  case (DoConfirmStopped now runID)
  then show ?thesis using kept_confirm [OF o] ne by (simp add: ConfirmExecutionStopped_def)
next
  case (DoConfirmRemoved now runID)
  then show ?thesis using kept_confirm_removed [OF o] ne by simp
next
  case (DoBegin now runID stepID)
  then show ?thesis using kept_begin [OF inv o] by (auto intro: commit_kept [OF o])
next
  case (DoRelease now workerID only)
  then show ?thesis using kept_release [OF o] ne by (auto intro: commit_kept [OF o])
qed (simp_all add: quiet_kept [OF _ o] op_quiet_total,
  (rule commit_kept [OF o], rule quiet_kept [OF _ o], erule op_quiet)+)

interpretation ownership: invariant_system
  "\<lambda>op db. ci_allowed op db \<and> \<not> releases i j op db" "ci_exec parse et hash"
  "\<lambda>db. ci_inv db \<and> owned k i j g db \<and> recorded k db \<subseteq> R" for i j k g R parse et hash
proof unfold_locales
  fix op db
  assume s: "ci_inv db \<and> owned k i j g db \<and> recorded k db \<subseteq> R" and a: "ci_allowed op db \<and> \<not> releases i j op db"
  then have "kept k i j g db (ci_exec parse et hash op db)" by (intro ci_exec_kept) simp_all
  moreover have "ci_inv (ci_exec parse et hash op db)" using s a by (intro ci_exec_inv) simp_all
  ultimately show "ci_inv (ci_exec parse et hash op db) \<and> owned k i j g (ci_exec parse et hash op db) \<and>
      recorded k (ci_exec parse et hash op db) \<subseteq> R"
    using s unfolding kept_def by blast
qed

end
