(* ===== verification/Ci_Queue.thy ===== *)
theory Ci_Queue
  imports Ci_Ownership
begin

text \<open>
  The queue: no two queued runs share a ref, in any reachable state, because creating a run
  cancels the older queued runs of its ref and nothing else ever queues a run.
\<close>

section \<open>Operations that add no repository\<close>

lemma fold_summary_repos: "db_repos (fold (\<lambda>(key, v). insertSummary runID key v) es db) = db_repos db"
  by (induction es arbitrary: db) (auto simp: insertSummary_def)

lemma fold_notify_repos: "db_repos (fold notifyRun ids db) = db_repos db"
  by (induction ids arbitrary: db) (auto simp: notifyRun_def)

lemma finishRunRow_repos: "finishRunRow now runID status reason db = Inr (fr, db') \<Longrightarrow> db_repos db' = db_repos db"
  by (erule finishRunRow_Inr) simp

lemma Finish_repos: "Finish now runID out db = Inr (u, db') \<Longrightarrow> db_repos db' = db_repos db"
  by (auto simp: Finish_def Let_def fold_summary_repos dest: finishRunRow_repos
      split: sum.splits ci_error.splits prod.splits if_splits)

lemma fail_lost_repos: "fail_lost now ids db = Inr (u, db') \<Longrightarrow> db_repos db' = db_repos db"
  by (induction ids arbitrary: db) (fastforce simp: bind_result_Inr dest: finishRunRow_repos)+

lemma FailLostRuns_repos: "FailLostRuns locked now staleAfter db = Inr (n, db') \<Longrightarrow> db_repos db' = db_repos db"
  by (auto simp: FailLostRuns_def Let_def bind_result_Inr split: prod.splits intro: fail_lost_repos)

lemma supersedeQueued_repos:
  "supersedeQueued now repoID refKind refName beforeNumber reason db = (ids, db') \<Longrightarrow> db_repos db' = db_repos db"
  by (auto simp: supersedeQueued_alt Let_def)

lemma CancelQueuedTx_repos:
  "CancelQueuedTx now repoID refKind refName reason db = Inr (u, db') \<Longrightarrow> db_repos db' = db_repos db"
  by (auto simp: CancelQueuedTx_def fold_notify_repos dest: supersedeQueued_repos split: prod.splits)

lemma Cancel_repos: "Cancel now repoID number by_name db = Inr (u, db') \<Longrightarrow> db_repos db' = db_repos db"
  by (auto simp: Cancel_def cancelRunRow_def bind_result_Inr split: prod.splits if_splits option.splits)

lemma ClaimNext_repos:
  assumes "ClaimNext hash gate locked now plain workerID defaultTimeout images db = Inr (res, db')"
  shows "db_repos db' = db_repos db"
proof (cases res)
  case None
  then show ?thesis using assms by (auto simp: ClaimNext_def split: if_splits sum.splits ci_error.splits prod.splits)
next
  case (Some claim)
  with assms obtain claim0 db0 where
    "claimNextRun gate locked now workerID (hash plain) defaultTimeout (normalizeImages images) db = Inr (claim0, db0)"
    and db': "db' = notify NotifyChannel (cl_RunID claim0) db0"
    by (auto elim: ClaimNext_Inr)
  from claim_first_Inr [OF this(1) [unfolded claimNextRun_def]] obtain repoID where
    "claimNextRunForRepo locked now workerID (hash plain) defaultTimeout (normalizeImages images) repoID db = Inr (claim0, db0)"
    by blast
  then have "db_repos db0 = db_repos db" by (rule claimNextRunForRepo_Inr) simp
  then show ?thesis by (simp add: db')
qed

lemma step_repos:
  "StepStarted now runID stepID db = Inr (u, db') \<Longrightarrow> db_repos db' = db_repos db"
  "PlanContainer runID stepID name db = Inr (u, db') \<Longrightarrow> db_repos db' = db_repos db"
  "ContainerCreated runID stepID name db = Inr (u, db') \<Longrightarrow> db_repos db' = db_repos db"
  "BindWorkerEngine now workerID engineID root db = Inr (u, db') \<Longrightarrow> db_repos db' = db_repos db"
  by (auto simp: StepStarted_def setStepRunning_def Let_def bind_result_Inr PlanContainer_def
      ContainerCreated_def update_steps_if_Inr BindWorkerEngine_def split: if_splits)

lemma AppendLog_repos: "db_repos (snd (AppendLog runID stepID sq content db)) = db_repos db"
proof -
  have "db_repos db' = db_repos db" if "insertLogChunk stepID sq content db = Inr (u, db')" for u db'
    using that by (auto simp: insertLogChunk_def split: option.splits if_splits)
  then show ?thesis by (auto simp: AppendLog_def split: sum.splits prod.splits ci_error.splits)
qed

lemma receipt_repos:
  assumes "finishExecutionReceipt now newID runID stepID status c recovery db = Inr (u, db')"
  shows "db_repos db' = db_repos db"
  using assms
proof (cases rule: finishExecutionReceipt_Inr)
  case (written st db1)
  have "db_repos db1 = db_repos db"
    using written(5) by (auto split: if_splits elim!: record_deployment_Inr)
  then show ?thesis using written(6) by (auto simp: release_step_def split: option.splits if_splits)
qed simp

lemma StepFinished_repos: "StepFinished now newID runID stepID status c db = Inr (u, db') \<Longrightarrow> db_repos db' = db_repos db"
  by (auto simp: StepFinished_def finishRecordedStep_def bind_result_Inr dest: receipt_repos)

lemma RecoverStepExit_repos: "RecoverStepExit now newID runID name c db = Inr (u, db') \<Longrightarrow> db_repos db' = db_repos db"
  by (auto simp: RecoverStepExit_def dest: receipt_repos split: option.splits if_splits)

lemma BeginDeployment_repos: "BeginDeployment now runID stepID db = Inr (u, db') \<Longrightarrow> db_repos db' = db_repos db"
  by (erule BeginDeployment_Inr) auto

lemma release_runs_repos: "release_runs now runs db = Inr (u, db') \<Longrightarrow> db_repos db' = db_repos db"
proof (induction runs arbitrary: db)
  case (Cons run runs)
  then obtain db1 where r: "release_run now run db = Inr ((), db1)" "release_runs now runs db1 = Inr (u, db')"
    by (auto simp: bind_result_Inr)
  have "db_repos db1 = db_repos db"
    using r(1) by (auto simp: release_run_def bind_result_Inr remove_containers_def confirmExecutionStoppedTx_def
        dest: finishRunRow_repos split: prod.splits if_splits)
  then show ?case using Cons.IH [OF r(2)] by simp
qed simp

lemma ReleaseLostWorker_repos: "ReleaseLostWorker now workerID only db = Inr (n, db') \<Longrightarrow> db_repos db' = db_repos db"
  by (erule ReleaseLostWorker_Inr)
    (auto simp: Let_def stop_released_def release_owners_def dest: release_runs_repos)

lemma PruneRuns_repos: "db_repos (snd (PruneRuns before db)) = db_repos db"
proof (induction before db rule: PruneRuns.induct)
  case (1 before db)
  obtain n db1 where d: "deleteOldRuns before pruneBatch db = (n, db1)" by (cases "deleteOldRuns before pruneBatch db")
  have "db_repos db1 = db_repos db" using d by (auto simp: deleteOldRuns_def Let_def)
  then show ?case using "1.IH" [OF d [symmetric] refl] d by (subst PruneRuns.simps) (auto simp: case_prod_beta)
qed

lemma total_repos:
  "db_repos (RegisterWorker now workerID hostname db) = db_repos db" "db_repos (Heartbeat now workerID n db) = db_repos db"
  "db_repos (StopWorker now workerID db) = db_repos db"
  "db_repos (SetWorkerReadiness now workerID ready reason images db) = db_repos db"
  "db_repos (ContainerRemoved now runID name db) = db_repos db"
  "db_repos (ConfirmExecutionStopped now runID db) = db_repos db"
  "db_repos (ConfirmContainersRemoved now runID db) = db_repos db"
  "db_repos (snd (PruneWorkers before db)) = db_repos db"
  by (simp_all add: RegisterWorker_def upsertWorker_def Heartbeat_def touchWorker_def StopWorker_def
      markWorkerStopped_def SetWorkerReadiness_def ContainerRemoved_def ConfirmExecutionStopped_def
      confirmExecutionStoppedTx_def ConfirmContainersRemoved_def remove_containers_def PruneWorkers_def
      deleteGoneWorkers_def Let_def)

lemmas op_repos = CancelQueuedTx_repos ClaimNext_repos step_repos StepFinished_repos Finish_repos Cancel_repos
  FailLostRuns_repos RecoverStepExit_repos BeginDeployment_repos ReleaseLostWorker_repos

section \<open>One queued run per ref\<close>

definition ref_key :: "run_row \<Rightarrow> string \<times> Kind \<times> string" where
  "ref_key r = (r_repo r, r_kind r, r_ref r)"

definition queued_unique :: "ci_db \<Rightarrow> bool" where
  "queued_unique db \<longleftrightarrow>
     (\<forall>r\<in>set (db_runs db). \<forall>q\<in>set (db_runs db). r_status r = StatusQueued \<longrightarrow> r_status q = StatusQueued \<longrightarrow>
        ref_key r = ref_key q \<longrightarrow> r = q)"

lemma queued_origin:
  assumes le: "ci_le db db'" and repos: "db_repos db' = db_repos db" and inv': "ci_inv db'"
    and r': "r' \<in> set (db_runs db')" "r_status r' = StatusQueued"
  obtains r where "r \<in> set (db_runs db)" "r_status r = StatusQueued" "ref_key r = ref_key r'" "r_id r = r_id r'"
proof -
  obtain p where "p \<in> set (db_repos db)" "rr_id p = r_repo r'" "r_number r' \<le> rr_counter p"
    using inv' r'(1) repos unfolding ci_inv_def runs_inv_def by auto
  then obtain r where r: "r \<in> set (db_runs db)" "evolves r r'"
    using le r'(1) unfolding ci_le_def runs_le_def by blast
  then have "status_rank (r_status r) = 0" using r'(2) by (simp add: evolves_def)
  then have "r_status r = StatusQueued" by (cases "r_status r") simp_all
  moreover have "ref_key r = ref_key r'" "r_id r = r_id r'"
    using r(2) by (auto simp: evolves_def ref_key_def run_identity_def)
  ultimately show thesis using r(1) that by blast
qed

lemma queued_unique_le:
  assumes le: "ci_le db db'" and repos: "db_repos db' = db_repos db" and inv: "ci_inv db" "ci_inv db'"
    and u: "queued_unique db"
  shows "queued_unique db'"
  unfolding queued_unique_def
proof (intro ballI impI)
  fix r' q' assume a: "r' \<in> set (db_runs db')" "q' \<in> set (db_runs db')" "r_status r' = StatusQueued"
    "r_status q' = StatusQueued" "ref_key r' = ref_key q'"
  obtain r where r: "r \<in> set (db_runs db)" "r_status r = StatusQueued" "ref_key r = ref_key r'" "r_id r = r_id r'"
    using queued_origin [OF le repos inv(2) a(1,3)] .
  obtain q where q: "q \<in> set (db_runs db)" "r_status q = StatusQueued" "ref_key q = ref_key q'" "r_id q = r_id q'"
    using queued_origin [OF le repos inv(2) a(2,4)] .
  have "r = q" using u r q a(5) unfolding queued_unique_def by auto
  then show "r' = q'" using run_unique [OF inv(2) a(1,2)] r(4) q(4) by simp
qed

lemma CreateTx_queued:
  assumes inv: "ci_inv db" and u: "queued_unique db"
    and c: "CreateTx parse et now runID stepIDs p db = Inr (created, db')"
  shows "queued_unique db'"
  using c
proof (rule CreateTx_Inr, goal_cases)
  case (1 db1 db2 db3 ids db4)
  define row where "row = new_run_row parse now created p (pl_timeout (apply_budget p db (planRun parse et p)))"
  define P where "P = supersedable (p_RepoID p) (p_RefKind p) (p_RefName p) (Some (cr_Number created))"
  define f where "f = (\<lambda>r :: run_row. r\<lparr>r_status := StatusCancelled, r_reason := superseded_reason (cr_Number created),
      r_finished := Some now\<rparr>)"
  note al = allocateRunNumber_Inr [OF inv 1(1)]
  have "db_runs db' = db_runs db4"
    unfolding 1(7) using same_history_trans [OF same_history_notify_all same_historyI(13), of db4 runID ids]
    by (simp add: same_history_def)
  moreover have "db_runs db4 = update_where P f (db_runs db3)"
    using 1(6) by (auto simp: supersedeQueued_alt Let_def P_def f_def)
  moreover have "db_runs db3 = db_runs db @ [row]"
    using insert_steps_tables [OF 1(5)] al(2) by (simp add: same_history_def 1(2) row_def)
  ultimately have runs: "db_runs db' = update_where P f (db_runs db @ [row])" by simp
  have row: "ref_key row = (p_RepoID p, p_RefKind p, p_RefName p)" "r_number row = cr_Number created"
    by (simp_all add: row_def new_run_row_def ref_key_def)
  have queued: "r = row \<or> r \<in> set (db_runs db) \<and> ref_key r \<noteq> ref_key row"
    if r: "r \<in> set (db_runs db')" "r_status r = StatusQueued" for r
  proof -
    have "r \<in> set (db_runs db @ [row]) \<and> \<not> P r"
      using r(1) unfolding runs by (rule update_where_cases) (use r(2) in \<open>auto simp: f_def\<close>)
    then show ?thesis
      using r(2) al(6) [of r] row by (auto simp: P_def supersedable_def ref_key_def)
  qed
  show ?case
    unfolding queued_unique_def using queued u unfolding queued_unique_def by metis
qed

lemma commit_queued: "queued_unique db \<Longrightarrow> (\<And>a db'. res = Inr (a, db') \<Longrightarrow> queued_unique db') \<Longrightarrow> queued_unique (commit res db)"
  by (auto simp: commit_def split: sum.splits)

lemma commit_repos: "(\<And>a db'. res = Inr (a, db') \<Longrightarrow> db_repos db' = db_repos db) \<Longrightarrow> db_repos (commit res db) = db_repos db"
  by (auto simp: commit_def split: sum.splits)

lemma ci_exec_queued:
  assumes inv: "ci_inv db" and u: "queued_unique db" and a: "ci_allowed op db"
  shows "queued_unique (ci_exec parse et hash op db)"
proof (cases "\<exists>now runID stepIDs p FileAt sp repoID name. op = DoCreate now runID stepIDs p \<or>
    op = DoStart FileAt now runID stepIDs sp \<or> op = DoAddRepo repoID name")
  case True
  then show ?thesis
    using u CreateTx_queued [OF inv u]
    by (auto simp: Start_def add_repo_def queued_unique_def [of "_\<lparr>db_repos := _\<rparr>"] split: if_splits option.splits prod.splits
        intro!: commit_queued) (simp add: queued_unique_def)
next
  case False
  then have "db_repos (ci_exec parse et hash op db) = db_repos db"
    by (cases op) (simp_all add: AppendLog_repos PruneRuns_repos total_repos, (rule commit_repos, erule op_repos)+)
  then show ?thesis using queued_unique_le [OF ci_exec_le [OF inv a] _ inv ci_exec_inv [OF inv a] u] by simp
qed

interpretation queue: invariant_system ci_allowed "ci_exec parse et hash" "\<lambda>db. ci_inv db \<and> queued_unique db"
  for parse et hash
  by unfold_locales (simp add: ci_exec_inv ci_exec_queued)

end
