(* ===== verification/Ci_Sample.thy ===== *)
theory Ci_Sample
  imports Ci_Queue
begin

text \<open>
  A sample history of the service, the input at which the properties of the next theories are
  applied: a tag is pushed, its run queued, claimed and executed, its deploy step takes the
  target, and the deployment is recorded. Every state is written out and is the result of running
  the operations.
\<close>

definition sample_parse :: "string \<Rightarrow> (parse_error, Config) result" where
  "sample_parse data = Inr sample_config"

definition no_text :: "parse_error \<Rightarrow> string" where
  "no_text err = []"

definition sample_hash :: "string \<Rightarrow> string" where
  "sample_hash plain = CHR ''h'' # plain"

abbreviation sample_exec :: "ci_op \<Rightarrow> ci_db \<Rightarrow> ci_db" where
  "sample_exec \<equiv> ci_exec sample_parse no_text sample_hash"

definition sample_step_ids :: "nat \<Rightarrow> string" where
  "sample_step_ids i = ''s'' @ replicate i CHR ''x''"

section \<open>Rows and states\<close>

definition queued_run :: run_row where
  "queued_run =
     \<lparr>r_id = ''a'', r_repo = ''r1'', r_number = 1, r_commit = ''0123456789abcdef0123'', r_kind = KindTag,
      r_ref = ''v1'', r_trigger = TriggerPush, r_person = Some ''u1'', r_push = Some ''x1'',
      r_status = StatusQueued, r_reason = [], r_target = ''prod'', r_version = ''v1'', r_secrets = False,
      r_pipeline = ''yaml'', r_images = [''docker.io/library/golang:1.25'', ''docker.io/library/postgres:18''],
      r_timeout = 0, r_deadline = None, r_cancel = False, r_worker = None, r_token = None, r_queued = 2,
      r_started = None, r_finished = None\<rparr>"

definition running_run :: run_row where
  "running_run = queued_run\<lparr>r_status := StatusRunning, r_deadline := Some 1003, r_worker := Some ''w1'',
     r_token := Some ''htok'', r_started := Some 3\<rparr>"

definition passed_run :: run_row where
  "passed_run = running_run\<lparr>r_status := StatusPassed, r_token := None, r_finished := Some 9\<rparr>"

definition test_step :: step_row where
  "test_step =
     \<lparr>s_id = ''s'', s_run = ''a'', s_index = 0, s_name = ''test'', s_status = StepPending, s_exit = None,
      s_type = StepRun, s_generation = None, s_container = None, s_cid = None, s_removed = None,
      s_log_error = [], s_log_bytes = 0, s_log_lines = 0, s_started = None, s_finished = None\<rparr>"

definition ship_step :: step_row where
  "ship_step = test_step\<lparr>s_id := ''sx'', s_index := 1, s_name := ''ship'', s_type := StepDeploy\<rparr>"

definition sample_worker :: worker_row where
  "sample_worker =
     \<lparr>wk_id = ''w1'', wk_hostname = ''host'', wk_heartbeat = 1, wk_stopped = None, wk_active = 0,
      wk_ready = False, wk_reason = ''Starting'', wk_readiness = None, wk_images = [], wk_engine = [],
      wk_root = []\<rparr>"

definition prod_target :: target_row where
  "prod_target =
     \<lparr>dt_repo = ''r1'', dt_target = ''prod'', dt_generation = 1, dt_latest = 0, dt_owner = Some (''a'', ''sx'')\<rparr>"

definition sample_queued :: ci_db where
  "sample_queued = empty_db\<lparr>db_repos := [\<lparr>rr_id = ''r1'', rr_name = ''app'', rr_counter = 1\<rparr>],
     db_runs := [queued_run], db_steps := [test_step, ship_step], db_workers := [sample_worker],
     db_notes := [(NotifyChannel, ''a'')]\<rparr>"

definition sample_db :: ci_db where
  "sample_db = sample_queued\<lparr>db_runs := [running_run],
     db_steps := [test_step\<lparr>s_status := StepPassed, s_exit := Some 0, s_started := Some 4, s_finished := Some 5\<rparr>,
       ship_step\<lparr>s_status := StepRunning, s_generation := Some 1, s_started := Some 6\<rparr>],
     db_targets := [prod_target], db_notes := replicate 5 (NotifyChannel, ''a'')\<rparr>"

definition sample_done :: ci_db where
  "sample_done = sample_db\<lparr>db_runs := [passed_run],
     db_steps := [test_step\<lparr>s_status := StepPassed, s_exit := Some 0, s_started := Some 4, s_finished := Some 5\<rparr>,
       ship_step\<lparr>s_status := StepPassed, s_exit := Some 0, s_generation := Some 1, s_started := Some 6,
         s_finished := Some 8\<rparr>],
     db_targets := [prod_target\<lparr>dt_latest := 1, dt_owner := None\<rparr>],
     db_deployments := [\<lparr>dp_id = ''d1'', dp_repo = ''r1'', dp_target = ''prod'', dp_version = ''v1'',
       dp_commit = ''0123456789abcdef0123'', dp_run = Some ''a'', dp_person = Some ''u1'', dp_step = ''sx'',
       dp_created = 8\<rparr>],
     db_notes := replicate 7 (NotifyChannel, ''a'')\<rparr>"

lemmas sample_rows = queued_run_def running_run_def passed_run_def test_step_def ship_step_def
  sample_worker_def prod_target_def

lemmas sample_states = sample_queued_def sample_db_def sample_done_def empty_db_def

section \<open>The operations between them\<close>

definition sample_push :: "ci_op list" where
  "sample_push =
     [DoAddRepo ''r1'' ''app'', DoRegister 1 ''w1'' ''host'', DoCreate 2 ''a'' sample_step_ids sample_params]"

definition sample_work :: "ci_op list" where
  "sample_work =
     [DoClaim (\<lambda>_. True) (\<lambda>_. False) 3 ''tok'' ''w1'' 1000 [''golang:1.25'', ''postgres:18''],
      DoStepStarted 4 ''a'' ''s'', DoStepFinished 5 ''d0'' ''a'' ''s'' StepPassed (Some 0),
      DoStepStarted 6 ''a'' ''sx'', DoBegin 7 ''a'' ''sx'']"

definition sample_end :: "ci_op list" where
  "sample_end = [DoStepFinished 8 ''d1'' ''a'' ''sx'' StepPassed (Some 0),
     DoFinish 9 ''a'' \<lparr>o_Status = StatusPassed, o_Reason = [], o_Summary = []\<rparr>]"

lemma sample_push_run: "run_ops sample_exec sample_push empty_db = sample_queued"
  by code_simp

lemma sample_work_run: "run_ops sample_exec sample_work sample_queued = sample_db"
  by code_simp

lemma sample_end_run: "run_ops sample_exec sample_end sample_db = sample_done"
  by code_simp

lemma queued_reaches: "reaches ci_allowed sample_exec empty_db sample_queued"
  unfolding sample_push_run [symmetric]
  by (rule reaches_run_ops)
    (simp add: sample_push_def step_ids_fresh_def RegisterWorker_def upsertWorker_def add_repo_def empty_db_def)

lemma work_reaches: "reaches ci_allowed sample_exec sample_queued sample_db"
  unfolding sample_work_run [symmetric]
  by (rule reaches_run_ops) (simp add: sample_work_def step_open_def)

lemma done_reaches: "reaches ci_allowed sample_exec sample_db sample_done"
  unfolding sample_end_run [symmetric]
  by (rule reaches_run_ops) (simp add: sample_end_def step_open_def)

lemmas sample_reaches = reaches_trans [OF work_reaches queued_reaches]

lemmas sample_done_reaches = reaches_trans [OF done_reaches sample_reaches]

lemma sample_invs: "ci_inv sample_queued" "ci_inv sample_db" "ci_inv sample_done"
  using ci.inv_reaches [OF _ empty_inv] queued_reaches sample_reaches sample_done_reaches by blast+

end
