(* ===== verification/Ci_Properties.thy ===== *)
theory Ci_Properties
  imports Ci_Sample
begin

text \<open>
  Properties of the run service over all sequences of its operations.
\<close>

section \<open>Every reachable state\<close>

lemma empty_queued: "queued_unique empty_db"
  by (simp add: queued_unique_def empty_db_def)

text \<open>
  C1: in every state the service can reach, run numbers and identifiers are unique; a run is
  finished exactly when it is neither queued nor running, and only a running run has a fetch
  token; the steps of a finished run are settled; a target's owner is a deploy step of a claimed
  run for that target, holding its current generation; a deployment belongs to a deploy step that
  passed with exit code 0; and no two queued runs share a ref.
\<close>

theorem ci_reachable_inv:
  assumes "reaches ci_allowed (ci_exec parse error_text hash) empty_db db"
  shows "ci_inv db \<and> queued_unique db"
  using queue.inv_reaches [OF assms] empty_inv empty_queued by simp

theorem ci_reachable_inv_witness: "ci_inv sample_db \<and> queued_unique sample_db \<and> db_runs sample_db = [running_run]"
  using ci_reachable_inv [OF sample_reaches] by (simp add: sample_db_def)



section \<open>Deployments\<close>

lemma owned_unique:
  assumes inv: "ci_inv db" and o: "owned k i j g db" "owned k i' j' g' db"
  shows "i' = i \<and> j' = j \<and> g' = g"
proof -
  obtain t where t: "t \<in> set (db_targets db)" "target_key t = k" "dt_owner t = Some (i, j)" "dt_generation t = g"
    using o(1) unfolding owned_def by blast
  obtain t' where t': "t' \<in> set (db_targets db)" "target_key t' = k" "dt_owner t' = Some (i', j')" "dt_generation t' = g'"
    using o(2) unfolding owned_def by blast
  have "t' = t" using target_unique [OF inv t'(1) t(1)] t(2) t'(2) by simp
  then show ?thesis using t t' by simp
qed

lemma owned_holds:
  assumes inv: "ci_inv db" and o: "owned k i j g db"
  obtains s where "holds db s k g" "s_id s = j"
proof -
  obtain t where t: "t \<in> set (db_targets db)" "target_key t = k" "dt_owner t = Some (i, j)" "dt_generation t = g"
    using o unfolding owned_def by blast
  then have "owner_ok db t" using inv by (simp add: ci_inv_def owners_inv_def)
  then show thesis using t that unfolding owner_ok_def holds_def by blast
qed

lemma BeginDeployment_owned:
  assumes inv: "ci_inv db" and c: "BeginDeployment now runID stepID db = Inr (u, db')"
  shows "\<exists>r g. r \<in> set (db_runs db) \<and> r_id r = runID \<and> r_status r = StatusRunning \<and> owned (run_key r) runID stepID g db'"
  using c
proof (rule BeginDeployment_Inr)
  fix r :: run_row and st t
  let ?db = "insert_target (r_repo r) (r_target r) db"
  assume r: "r \<in> set (db_runs db)" "r_id r = runID" "r_status r = StatusRunning"
    and st: "st \<in> set (db_steps db)" "s_id st = stepID" "s_run st = runID"
    and t: "t \<in> set (db_targets ?db)" "target_key t = run_key r"
    and cases: "(\<exists>ownerRun. dt_owner t = Some (ownerRun, stepID) \<and>
        db' = update_step (\<lambda>s. s_id s = stepID) (\<lambda>s. s\<lparr>s_generation := Some (dt_generation t)\<rparr>) ?db) \<or>
      dt_owner t = None \<and> db' = taken ?db r st t"
  have inv1: "ci_inv ?db" using inv by (rule inv_insert_target)
  have "\<exists>g. owned (run_key r) runID stepID g db'"
    using cases
  proof
    assume "\<exists>ownerRun. dt_owner t = Some (ownerRun, stepID) \<and>
        db' = update_step (\<lambda>s. s_id s = stepID) (\<lambda>s. s\<lparr>s_generation := Some (dt_generation t)\<rparr>) ?db"
    then obtain ownerRun where o: "dt_owner t = Some (ownerRun, stepID)" and db': "db_targets db' = db_targets ?db" by auto
    have "owner_ok ?db t" using inv1 t(1) by (simp add: ci_inv_def owners_inv_def)
    then obtain s where "s \<in> set (db_steps db)" "s_id s = stepID" "s_run s = ownerRun"
      using o unfolding owner_ok_def by auto
    then have "ownerRun = runID" using step_unique [OF inv _ st(1)] st by auto
    then show ?thesis using o t db' unfolding owned_def by auto
  next
    assume "dt_owner t = None \<and> db' = taken ?db r st t"
    then show ?thesis using t r st unfolding owned_def by auto
  qed
  then show ?thesis using r by blast
qed

text \<open>
  C11: a successful \<open>BeginDeployment\<close> makes the step the owner of its run's target under a
  generation that fences off every other step: nobody else owned the target before, every step
  holding a generation of this target holds a smaller one, and only this step holds this one.
\<close>

theorem BeginDeployment_fences:
  assumes "reaches ci_allowed (ci_exec parse error_text hash) empty_db db"
    and "BeginDeployment now runID stepID db = Inr (u, db')"
  shows "\<exists>r g. r \<in> set (db_runs db) \<and> r_id r = runID \<and> r_status r = StatusRunning \<and>
    owned (run_key r) runID stepID g db' \<and>
    (\<forall>i j h. owned (run_key r) i j h db \<longrightarrow> i = runID \<and> j = stepID \<and> h = g) \<and>
    (\<forall>s h. holds db' s (run_key r) h \<longrightarrow> h < g \<or> h = g \<and> s_id s = stepID)"
proof -
  have inv: "ci_inv db" using ci.inv_reaches [OF assms(1) empty_inv] .
  have inv': "ci_inv db'" using BeginDeployment_inv [OF inv assms(2)] .
  obtain r g where r: "r \<in> set (db_runs db)" "r_id r = runID" "r_status r = StatusRunning"
    and o: "owned (run_key r) runID stepID g db'"
    using BeginDeployment_owned [OF inv assms(2)] by blast
  obtain t where t: "t \<in> set (db_targets db')" "target_key t = run_key r" "dt_generation t = g"
    using o unfolding owned_def by blast
  obtain s0 where s0: "holds db' s0 (run_key r) g" "s_id s0 = stepID" using owned_holds [OF inv' o] .
  have "h < g \<or> h = g \<and> s_id s = stepID" if h: "holds db' s (run_key r) h" for s h
  proof -
    obtain t' where "t' \<in> set (db_targets db')" "target_key t' = run_key r" "h \<le> dt_generation t'"
      using inv_held [OF inv' h] .
    then have "h \<le> g" using target_unique [OF inv' _ t(1)] t(2,3) by metis
    then show ?thesis using inv_held_unique [OF inv' s0(1)] s0(2) h by fastforce
  qed
  moreover have "i = runID \<and> j = stepID \<and> h = g" if "owned (run_key r) i j h db" for i j h
    using kept_begin [OF inv that assms(2)] owned_unique [OF inv' o, of i j h] by (simp add: kept_def)
  ultimately show ?thesis using r o by blast
qed

text \<open>The state before the sample step takes its target.\<close>

definition sample_ready :: ci_db where
  "sample_ready = sample_db\<lparr>db_steps := [test_step\<lparr>s_status := StepPassed, s_exit := Some 0, s_started := Some 4,
       s_finished := Some 5\<rparr>, ship_step\<lparr>s_status := StepRunning, s_started := Some 6\<rparr>], db_targets := []\<rparr>"

lemma ready_reaches: "reaches ci_allowed sample_exec empty_db sample_ready"
proof -
  have "run_ops sample_exec (butlast sample_work) sample_queued = sample_ready" by code_simp
  then have "reaches ci_allowed sample_exec sample_queued sample_ready"
    using reaches_run_ops [of ci_allowed sample_exec "butlast sample_work" sample_queued]
    by (simp add: sample_work_def step_open_def)
  then show ?thesis using queued_reaches by (rule reaches_trans)
qed

theorem BeginDeployment_fences_witness:
  "\<exists>g. owned (''r1'', ''prod'') ''a'' ''sx'' g sample_db \<and> (\<forall>i j h. \<not> owned (''r1'', ''prod'') i j h sample_ready)"
proof -
  have "BeginDeployment 7 ''a'' ''sx'' sample_ready = Inr ((), sample_db)" by code_simp
  moreover have "\<not> owned k i j h sample_ready" for k i j h by (simp add: owned_def sample_ready_def)
  ultimately show ?thesis
    using BeginDeployment_fences [OF ready_reaches] by (fastforce simp: sample_ready_def sample_db_def sample_rows run_key_def)
qed

text \<open>
  C7: once a step owns a deployment target, whatever other calls do (other runs' deployments, lost
  workers, cancellations, finishing or pruning runs), it keeps the target and its generation, and no
  further deployment of that target is recorded, until its own receipt, the confirmation that its
  execution stopped, or an operator's release of its worker.
\<close>

theorem deployment_owner_kept:
  assumes "reaches ci_allowed (ci_exec parse error_text hash) empty_db db"
    and "owned k runID stepID g db"
    and "reaches (\<lambda>op s. ci_allowed op s \<and> \<not> releases runID stepID op s) (ci_exec parse error_text hash) db db'"
  shows "owned k runID stepID g db' \<and> recorded k db' \<subseteq> recorded k db"
  using ownership.inv_reaches [OF assms(3), of k g "recorded k db"] ci.inv_reaches [OF assms(1) empty_inv] assms(2)
  by blast

lemma sample_owned: "owned (''r1'', ''prod'') ''a'' ''sx'' 1 sample_db"
  by (simp add: owned_def sample_db_def prod_target_def target_key_def)

theorem deployment_owner_kept_witness:
  "owned (''r1'', ''prod'') ''a'' ''sx'' 1
     (sample_exec (DoFinish 9 ''a'' \<lparr>o_Status = StatusFailed, o_Reason = ''lost'', o_Summary = []\<rparr>) sample_db)"
  by (rule conjunct1 [OF deployment_owner_kept [OF sample_reaches sample_owned reaches_one]]) simp

text \<open>
  C32: at most one deployment is recorded under each generation of a target, and a recorded
  deployment names the run, the target and a deploy step that passed with exit code 0.
\<close>

theorem one_deployment_per_generation:
  assumes "reaches ci_allowed (ci_exec parse error_text hash) empty_db db"
    and "d \<in> set (db_deployments db)" "d' \<in> set (db_deployments db)"
    and "s \<in> set (db_steps db)" "s' \<in> set (db_steps db)" "dp_step d = s_id s" "dp_step d' = s_id s'"
    and "(dp_repo d, dp_target d) = (dp_repo d', dp_target d')" "s_generation s = Some g" "s_generation s' = Some g"
  shows "d' = d \<and> s_type s = StepDeploy \<and> s_status s = StepPassed \<and> s_exit s = Some 0 \<and> dp_run d = Some (s_run s)"
proof -
  have inv: "ci_inv db" using ci.inv_reaches [OF assms(1) empty_inv] .
  have h: "holds db t (dp_repo e, dp_target e) g"
    if e: "e \<in> set (db_deployments db)" and t: "t \<in> set (db_steps db)" "dp_step e = s_id t" "s_generation t = Some g" for e t
  proof -
    have ok: "deployment_ok db e" using inv e by (simp add: ci_inv_def deployments_inv_def)
    obtain r where "r \<in> set (db_runs db)" "r_id r = s_run t" using inv_step_run [OF inv t(1)] .
    then show ?thesis using ok t unfolding deployment_ok_def holds_def by metis
  qed
  have "s_id s = s_id s'"
    using inv_held_unique [OF inv h [OF assms(2,4,6,9)]] h [OF assms(3,5,7,10)] assms(8) by simp
  then have "d' = d"
    using inv_deployments_distinct [OF inv] assms(2,3,6,7) by (simp add: distinct_map inj_on_def)
  moreover have "deployment_ok db d" using inv assms(2) by (simp add: ci_inv_def deployments_inv_def)
  ultimately show ?thesis using assms(4,6) unfolding deployment_ok_def by blast
qed

theorem one_deployment_per_generation_witness:
  "\<exists>d\<in>set (db_deployments sample_done). dp_run d = Some ''a'' \<and> dp_step d = ''sx''"
  using one_deployment_per_generation [OF sample_done_reaches, of "hd (db_deployments sample_done)" _
      "last (db_steps sample_done)" "last (db_steps sample_done)" 1]
  by (auto simp: sample_done_def sample_rows)



end
