(* ===== verification/Ci_Run_Properties.thy ===== *)
theory Ci_Run_Properties
  imports Ci_Properties
begin

text \<open>
  Properties of single operations of the run service: claiming, losing, releasing, cancelling
  and pruning runs, and their logs.
\<close>

section \<open>Claiming\<close>

lemma find_only:
  assumes "x \<in> set xs" "P x" "\<And>y. y \<in> set xs \<Longrightarrow> P y \<Longrightarrow> y = x"
  shows "find P xs = Some x"
proof (cases "find P xs")
  case None
  then show ?thesis using assms(1,2) by (auto simp: find_None_iff)
next
  case (Some y)
  then show ?thesis using assms(3) [of y] find_SomeD [OF Some] by simp
qed

lemma sort_key_not_Nil:
  assumes "x \<in> set xs" shows "sort_key f xs \<noteq> []"
proof
  assume e: "sort_key f xs = []"
  have "x \<in> set (sort_key f xs)" using assms by simp
  then show False unfolding e by simp
qed

lemma claimNextRun_Inr:
  assumes "claimNextRun gate locked now workerID tokenHash timeout images db = Inr (claim, db')"
  obtains repoID where "gate repoID" "repoID \<in> set (claim_candidates images db)"
    "claimNextRunForRepo locked now workerID tokenHash timeout images repoID db = Inr (claim, db')"
  using claim_first_Inr [OF assms [unfolded claimNextRun_def]] by force

text \<open>
  C34: a claim takes a queued run the worker has the images for, whose repository is neither in
  maintenance nor pending and could be locked, and the oldest such run of that repository; the
  run is then running on that worker with its deadline set, every other run is untouched, and the
  fetch token of the claim opens exactly that run's repository.
\<close>

theorem ClaimNext_claims_oldest:
  assumes "reaches ci_allowed (ci_exec parse error_text hash) empty_db db"
    and "ClaimNext hash gate locked now plain workerID timeout images db = Inr (Some claim, db')" and "plain \<noteq> []"
  shows "\<exists>r\<in>set (db_runs db). cl_RunID claim = r_id r \<and> cl_RepoID claim = r_repo r \<and> cl_Commit claim = r_commit r \<and>
    claimable (normalizeImages images) db r \<and> gate (r_repo r) \<and> \<not> locked (r_id r) \<and>
    (\<forall>q\<in>set (db_runs db). claimable (normalizeImages images) db q \<longrightarrow> r_repo q = r_repo r \<longrightarrow> \<not> locked (r_id q) \<longrightarrow>
       (r_queued r, r_id r) \<le> (r_queued q, r_id q)) \<and>
    cl_Deadline claim = now + (if r_timeout r \<noteq> 0 then r_timeout r else timeout) \<and>
    db_runs db' = map (\<lambda>q. if r_id q = r_id r
      then q\<lparr>r_status := StatusRunning, r_started := Some now, r_worker := Some workerID,
             r_token := Some (hash plain), r_deadline := Some (cl_Deadline claim)\<rparr> else q) (db_runs db) \<and>
    AuthenticateFetch hash plain db' = Inr (r_repo r)"
proof -
  let ?images = "normalizeImages images"
  have inv: "ci_inv db" using ci.inv_reaches [OF assms(1) empty_inv] .
  obtain claim0 db0 where c: "claimNextRun gate locked now workerID (hash plain) timeout ?images db = Inr (claim0, db0)"
    and claim: "claim = claim0\<lparr>cl_FetchToken := plain\<rparr>" and db': "db' = notify NotifyChannel (cl_RunID claim0) db0"
    using assms(2) by (rule ClaimNext_Inr)
  obtain repoID where "gate repoID" and c1:
    "claimNextRunForRepo locked now workerID (hash plain) timeout ?images repoID db = Inr (claim0, db0)"
    using c by (rule claimNextRun_Inr)
  from c1 show ?thesis
  proof (rule claimNextRunForRepo_Inr, goal_cases)
    case (1 r)
    have runs: "db_runs db' = map (\<lambda>q. if r_id q = r_id r
      then q\<lparr>r_status := StatusRunning, r_started := Some now, r_worker := Some workerID,
             r_token := Some (hash plain), r_deadline := Some (cl_Deadline claim)\<rparr> else q) (db_runs db)"
      by (simp add: db' 1(8) claim update_where_def)
    have "find (\<lambda>q. r_token q = Some (hash plain) \<and> r_status q = StatusRunning) (db_runs db') =
      Some (r\<lparr>r_status := StatusRunning, r_started := Some now, r_worker := Some workerID,
             r_token := Some (hash plain), r_deadline := Some (cl_Deadline claim)\<rparr>)" (is "find ?P _ = Some ?r")
    proof -
      have only: "q = ?r" if q: "q \<in> set (db_runs db')" "?P q" for q
      proof -
        obtain q0 where q0: "q0 \<in> set (db_runs db)" "q = (if r_id q0 = r_id r
            then q0\<lparr>r_status := StatusRunning, r_started := Some now, r_worker := Some workerID,
             r_token := Some (hash plain), r_deadline := Some (cl_Deadline claim)\<rparr> else q0)"
          using q(1) unfolding runs by auto
        have "r_id q0 = r_id r" using q0 q(2) 1(9) [of q0] by (auto split: if_splits)
        moreover have "q0 = r" using run_unique [OF inv q0(1) 1(1)] calculation .
        ultimately show ?thesis using q0 by simp
      qed
      have mine: "?r \<in> set (db_runs db')" "?P ?r" using 1(1) unfolding runs by auto
      show ?thesis by (rule find_only [where P = ?P, OF mine]) (rule only)
    qed
    then have "AuthenticateFetch hash plain db' = Inr (r_repo r)"
      using assms(3) by (simp add: AuthenticateFetch_def selectRunningRepoByFetchToken_def)
    then show ?thesis
      using 1 runs \<open>gate repoID\<close> by (intro bexI [of _ r]) (auto simp: claim queue_key_def)
  qed
qed

theorem ClaimNext_claims_oldest_witness:
  "\<exists>db'. AuthenticateFetch sample_hash ''tok'' db' = Inr ''r1'' \<and>
     db' = ci_exec sample_parse no_text sample_hash (hd sample_work) sample_queued"
proof -
  obtain claim db' where c: "ClaimNext sample_hash (\<lambda>_. True) (\<lambda>_. False) 3 ''tok'' ''w1'' 1000 [''golang:1.25'', ''postgres:18'']
      sample_queued = Inr (Some claim, db')" and "db_runs sample_queued = [queued_run]"
  proof -
    have "case ClaimNext sample_hash (\<lambda>_. True) (\<lambda>_. False) 3 ''tok'' ''w1'' 1000 [''golang:1.25'', ''postgres:18'']
      sample_queued of Inr (Some _, _) \<Rightarrow> True | _ \<Rightarrow> False" by code_simp
    then show thesis using that by (auto simp: sample_queued_def split: sum.splits prod.splits option.splits)
  qed
  then show ?thesis
    using ClaimNext_claims_oldest [OF queued_reaches c]
    by (auto simp: sample_work_def commit_def queued_run_def)
qed

section \<open>Progress\<close>

lemma claim_first_progress:
  assumes "repoID \<in> set repos" "gate repoID" "claim repoID \<noteq> Inl NotFound"
    and "\<And>p. p \<in> set repos \<Longrightarrow> claim p \<noteq> Inl NotFound \<Longrightarrow> \<exists>res. claim p = Inr res"
  shows "\<exists>res. claim_first gate claim repos = Inr res"
  using assms
proof (induction repos)
  case (Cons p repos)
  show ?case
  proof (cases "gate p \<and> claim p \<noteq> Inl NotFound")
    case True
    then obtain res where "claim p = Inr res" using Cons.prems(4) [of p] by auto
    then show ?thesis using True by simp
  next
    case False
    then have "repoID \<in> set repos" using Cons.prems(1-3) by auto
    then have "\<exists>res. claim_first gate claim repos = Inr res"
      using Cons.prems by (intro Cons.IH) auto
    then show ?thesis using False by auto
  qed
qed simp

lemma claimNextRunForRepo_progress:
  assumes inv: "ci_inv db" and w: "workerID \<in> wk_id ` set (db_workers db)"
    and token: "\<And>q. q \<in> set (db_runs db) \<Longrightarrow> r_token q \<noteq> Some tokenHash"
    and nf: "claimNextRunForRepo locked now workerID tokenHash timeout images repoID db \<noteq> Inl NotFound"
  shows "\<exists>res. claimNextRunForRepo locked now workerID tokenHash timeout images repoID db = Inr res"
proof (cases "sort_key queue_key
    (filter (\<lambda>r. claimable images db r \<and> r_repo r = repoID \<and> \<not> locked (r_id r)) (db_runs db))")
  case (Cons r rest)
  have "\<not> list_ex (\<lambda>q. r_id q \<noteq> r_id r \<and> r_token q = Some tokenHash) (db_runs db)"
    using token by (auto simp: list_ex_iff)
  then show ?thesis
    using nf w Cons by (auto simp: claimNextRunForRepo_def Let_def split: option.splits)
qed (use nf in \<open>simp add: claimNextRunForRepo_def\<close>)

lemma claimNextRunForRepo_found:
  assumes inv: "ci_inv db" and r: "r \<in> set (db_runs db)" "claimable images db r" "\<not> locked (r_id r)"
  shows "claimNextRunForRepo locked now workerID tokenHash timeout images (r_repo r) db \<noteq> Inl NotFound"
proof -
  have "r \<in> set (filter (\<lambda>q. claimable images db q \<and> r_repo q = r_repo r \<and> \<not> locked (r_id q)) (db_runs db))"
    using r by simp
  then have "sort_key queue_key
      (filter (\<lambda>q. claimable images db q \<and> r_repo q = r_repo r \<and> \<not> locked (r_id q)) (db_runs db)) \<noteq> []"
    by (rule sort_key_not_Nil)
  then obtain q rest where l: "sort_key queue_key
      (filter (\<lambda>q. claimable images db q \<and> r_repo q = r_repo r \<and> \<not> locked (r_id q)) (db_runs db)) = q # rest"
    by (auto simp: neq_Nil_conv)
  have q: "q \<in> set (db_runs db)" "r_repo q = r_repo r"
    using sort_key_filter_head [OF l] by auto
  obtain p where "p \<in> set (db_repos db)" "rr_id p = r_repo q"
    using inv q(1) unfolding ci_inv_def runs_inv_def by blast
  then have "find (\<lambda>p. rr_id p = r_repo q) (db_repos db) \<noteq> None" by (auto simp: find_None_iff)
  then show ?thesis using l by (auto simp: claimNextRunForRepo_def Let_def split: option.splits)
qed



section \<open>Pruning\<close>

text \<open>Deleting expired runs does not change which of the others are expired.\<close>

lemma latest_of_head_exists:
  assumes q: "q \<in> set (db_runs db)" "head_run db head q" and head: "head \<in> set (db_refs db)"
  obtains m where "m \<in> set (db_runs db)" "head_run db head m" "r_number q \<le> r_number m" "latest_of_head db m"
proof -
  let ?S = "{m \<in> set (db_runs db). head_run db head m}"
  have fin: "finite ?S" by simp
  have "?S \<noteq> {}" using q by auto
  then have "Max (r_number ` ?S) \<in> r_number ` ?S" using fin by (intro Max_in) auto
  then obtain m where m: "m \<in> ?S" "Max (r_number ` ?S) = r_number m" by (rule imageE)
  have "r_number x \<le> r_number m" if "x \<in> ?S" for x
    unfolding m(2) [symmetric] using that fin by (intro Max_ge) auto
  note m = m(1) this
  have "latest_of_head db m" using m head by (auto simp: latest_of_head_def list_ex_iff list_all_iff)
  then show thesis using m q by (intro that) auto
qed

lemma expired_after_delete:
  assumes inv: "ci_inv db" and r: "r \<in> set (db_runs db)" "r_id r \<notin> set ids"
    and ids: "set ids \<subseteq> r_id ` {q \<in> set (db_runs db). expired_run before db q}"
  shows "expired_run before (delete_runs ids db) r = expired_run before db r"
proof -
  let ?db = "delete_runs ids db"
  have "run_has_container ?db (r_id r) = run_has_container db (r_id r)"
    using r(2) by (auto simp: run_has_container_def delete_runs_def Let_def list_ex_iff)
  moreover have "owns_target ?db (r_id r) = owns_target db (r_id r)"
    by (simp add: owns_target_def delete_runs_def Let_def)
  moreover have "latest_of_head ?db r = latest_of_head db r"
  proof
    assume "latest_of_head db r"
    then show "latest_of_head ?db r"
      by (auto simp: latest_of_head_def head_run_def delete_runs_def Let_def list_ex_iff list_all_iff)
  next
    assume "latest_of_head ?db r"
    then obtain head where head: "head \<in> set (db_refs db)" "head_run db head r"
      and top: "\<And>q. q \<in> set (db_runs db) \<Longrightarrow> r_id q \<notin> set ids \<Longrightarrow> head_run db head q \<Longrightarrow> r_number q \<le> r_number r"
      by (auto simp: latest_of_head_def head_run_def delete_runs_def Let_def list_ex_iff list_all_iff)
    have "r_number q \<le> r_number r" if q: "q \<in> set (db_runs db)" "head_run db head q" for q
    proof -
      obtain m where m: "m \<in> set (db_runs db)" "head_run db head m" "r_number q \<le> r_number m" "latest_of_head db m"
        using latest_of_head_exists [OF q head(1)] .
      have "r_id m \<notin> set ids"
      proof
        assume "r_id m \<in> set ids"
        then obtain x where "x \<in> set (db_runs db)" "expired_run before db x" "r_id x = r_id m" using ids by auto
        then show False using run_unique [OF inv _ m(1)] m(4) by (auto simp: expired_run_def)
      qed
      then show ?thesis using top [OF m(1) _ m(2)] m(3) by simp
    qed
    then show "latest_of_head db r" using head by (auto simp: latest_of_head_def list_ex_iff list_all_iff)
  qed
  ultimately show ?thesis by (simp add: expired_run_def)
qed

lemma filter_taken:
  assumes "distinct (map f xs)" shows "filter (\<lambda>x. f x \<notin> set (map f (take n xs))) xs = drop n xs"
proof -
  have "set (map f (take n xs)) \<inter> set (map f (drop n xs)) = {}"
    using assms by (metis append_take_drop_id distinct_append map_append)
  then have "filter (\<lambda>x. f x \<notin> set (map f (take n xs))) (take n xs) = []"
    "filter (\<lambda>x. f x \<notin> set (map f (take n xs))) (drop n xs) = drop n xs"
    by (auto simp: filter_empty_conv filter_id_conv)
  then show ?thesis by (metis append_Nil append_take_drop_id filter_append)
qed

lemma deleteOldRuns_exact:
  assumes inv: "ci_inv db" and d: "deleteOldRuns before limit db = (n, db')"
  shows "n = min limit (length (filter (expired_run before db) (db_runs db)))"
    and "filter (\<lambda>r. \<not> expired_run before db' r) (db_runs db') = filter (\<lambda>r. \<not> expired_run before db r) (db_runs db)"
    and "filter (expired_run before db') (db_runs db') = drop limit (filter (expired_run before db) (db_runs db))"
proof -
  define xs where "xs = filter (expired_run before db) (db_runs db)"
  define ids where "ids = map r_id (take limit xs)"
  have db': "db' = delete_runs ids db" and n: "n = length ids"
    using d by (auto simp: deleteOldRuns_def Let_def ids_def xs_def take_map)
  have runs: "db_runs db' = filter (\<lambda>r. r_id r \<notin> set ids) (db_runs db)" by (simp add: db' delete_runs_def Let_def)
  have sub: "set ids \<subseteq> r_id ` {q \<in> set (db_runs db). expired_run before db q}"
    by (auto simp: ids_def xs_def dest!: in_set_takeD)
  have same: "expired_run before db' r = expired_run before db r" if "r \<in> set (db_runs db')" for r
    unfolding db' using that by (intro expired_after_delete [OF inv _ _ sub]) (auto simp: runs)
  have out: "r_id r \<notin> set ids" if "r \<in> set (db_runs db)" "\<not> expired_run before db r" for r
  proof
    assume "r_id r \<in> set ids"
    then obtain x where x: "x \<in> set (db_runs db)" "expired_run before db x" "r_id x = r_id r" using sub by auto
    then show False using run_unique [OF inv x(1) that(1)] that(2) by simp
  qed
  show "n = min limit (length (filter (expired_run before db) (db_runs db)))"
    by (simp add: n ids_def xs_def min.commute)
  have "filter (\<lambda>r. \<not> expired_run before db' r) (db_runs db') = filter (\<lambda>r. \<not> expired_run before db r) (db_runs db')"
    using same by (intro filter_cong) auto
  also have "\<dots> = filter (\<lambda>r. \<not> expired_run before db r) (db_runs db)"
    unfolding runs filter_filter using out by (intro filter_cong) auto
  finally show "filter (\<lambda>r. \<not> expired_run before db' r) (db_runs db') = filter (\<lambda>r. \<not> expired_run before db r) (db_runs db)" .
  have "filter (expired_run before db') (db_runs db') = filter (expired_run before db) (db_runs db')"
    using same by (intro filter_cong) auto
  also have "\<dots> = filter (\<lambda>r. r_id r \<notin> set ids) xs"
    unfolding runs xs_def by (simp add: conj_commute)
  also have "\<dots> = drop limit xs"
    unfolding ids_def
    by (rule filter_taken) (use inv in \<open>simp add: xs_def ci_inv_def runs_inv_def distinct_map_filter_sub\<close>)
  finally show "filter (expired_run before db') (db_runs db') = drop limit (filter (expired_run before db) (db_runs db))"
    by (simp add: xs_def)
qed

lemma PruneRuns_filter:
  assumes "ci_inv db"
  shows "fst (PruneRuns before db) = length (filter (expired_run before db) (db_runs db)) \<and>
    db_runs (snd (PruneRuns before db)) = filter (\<lambda>r. \<not> expired_run before db r) (db_runs db)"
  using assms
proof (induction before db rule: PruneRuns.induct)
  case (1 before db)
  obtain n db1 where d: "deleteOldRuns before pruneBatch db = (n, db1)" by (cases "deleteOldRuns before pruneBatch db")
  note ex = deleteOldRuns_exact [OF "1.prems" d]
  have inv1: "ci_inv db1" using deleteOldRuns_inv [OF "1.prems" d] .
  show ?case
  proof (cases "n < pruneBatch")
    case True
    then have "filter (expired_run before db1) (db_runs db1) = []" using ex(1,3) by simp
    then have "filter (\<lambda>r. \<not> expired_run before db1 r) (db_runs db1) = db_runs db1"
      by (simp add: filter_empty_conv filter_id_conv)
    moreover have "PruneRuns before db = (n, db1)" using True d by (subst PruneRuns.simps) simp
    moreover have "n = length (filter (expired_run before db) (db_runs db))" using True ex(1) by simp
    ultimately show ?thesis using ex(2) by simp
  next
    case False
    then show ?thesis
      using "1.IH" [OF d [symmetric] refl False inv1] d ex by (subst (1 2) PruneRuns.simps) (auto simp: case_prod_beta)
  qed
qed

text \<open>
  C36: pruning in batches of 500 deletes exactly the expired runs, however many there are, and
  counts them: the runs left are those that are unfinished or finished since the limit, have a
  container that was not removed, own a deployment target, or are the latest finished run of a
  ref's current commit.
\<close>

theorem PruneRuns_exact:
  assumes "reaches ci_allowed (ci_exec parse error_text hash) empty_db db"
  shows "fst (PruneRuns before db) = length (filter (expired_run before db) (db_runs db)) \<and>
    db_runs (snd (PruneRuns before db)) = filter (\<lambda>r. \<not> expired_run before db r) (db_runs db)"
  using PruneRuns_filter [OF ci.inv_reaches [OF assms empty_inv]] .

theorem PruneRuns_exact_witness:
  "fst (PruneRuns 10 sample_done) = 1 \<and> db_runs (snd (PruneRuns 9 sample_done)) = [passed_run]"
proof -
  have "expired_run 10 sample_done passed_run" "\<not> expired_run 9 sample_done passed_run" by code_simp+
  then show ?thesis
    using PruneRuns_exact [OF sample_done_reaches, of 10] PruneRuns_exact [OF sample_done_reaches, of 9]
    by (simp add: sample_done_def)
qed

section \<open>Lost workers\<close>

definition lost_text :: string where
  "lost_text = ''The worker running it stopped responding.''"

definition failed_run :: "timestamp \<Rightarrow> run_row \<Rightarrow> run_row" where
  "failed_run now r = r\<lparr>r_status := StatusFailed, r_reason := lost_text, r_finished := Some now, r_token := None\<rparr>"

lemma finishRunRow_running:
  assumes inv: "ci_inv db" and r: "r \<in> set (db_runs db)" "r_id r = runID" "r_status r = StatusRunning"
  obtains fr db' where "finishRunRow now runID StatusFailed lost_text db = Inr (fr, db')"
    "db_runs db' = map (\<lambda>q. if r_id q = runID then failed_run now q else q) (db_runs db)"
proof -
  have "find (\<lambda>q. r_id q = runID \<and> r_status q = StatusRunning) (db_runs db) \<noteq> None"
    using r by (auto simp: find_None_iff)
  then obtain fr db' where f: "finishRunRow now runID StatusFailed lost_text db = Inr (fr, db')"
    by (auto simp: finishRunRow_def Let_def)
  have "r_status q = StatusRunning" if q: "q \<in> set (db_runs db)" "r_id q = runID" for q
    using run_unique [OF inv q(1) r(1)] q(2) r(2,3) by simp
  moreover have "db_runs db' = update_where (\<lambda>q. r_id q = runID \<and> r_status q = StatusRunning) (failed_run now) (db_runs db)"
    using f by (rule finishRunRow_Inr) (simp add: failed_run_def [abs_def])
  ultimately have "db_runs db' = map (\<lambda>q. if r_id q = runID then failed_run now q else q) (db_runs db)"
    by (simp add: update_where_def)
  then show thesis using f that by blast
qed

lemma fail_lost_exact:
  assumes "ci_inv db" "distinct ids"
    and "\<And>i. i \<in> set ids \<Longrightarrow> \<exists>r\<in>set (db_runs db). r_id r = i \<and> r_status r = StatusRunning"
  shows "\<exists>db'. fail_lost now ids db = Inr ((), db') \<and>
    db_runs db' = map (\<lambda>r. if r_id r \<in> set ids then failed_run now r else r) (db_runs db)"
  using assms
proof (induction ids arbitrary: db)
  case (Cons i ids)
  obtain r where r: "r \<in> set (db_runs db)" "r_id r = i" "r_status r = StatusRunning" using Cons.prems(3) [of i] by auto
  obtain fr db1 where f: "finishRunRow now i StatusFailed lost_text db = Inr (fr, db1)"
    and runs: "db_runs db1 = map (\<lambda>q. if r_id q = i then failed_run now q else q) (db_runs db)"
    using finishRunRow_running [OF Cons.prems(1) r] .
  define db2 where "db2 = notify NotifyChannel i (settleOpenSteps now i StepFailed StepSkipped db1)"
  have runs2: "db_runs db2 = map (\<lambda>q. if r_id q = i then failed_run now q else q) (db_runs db)"
    by (simp add: db2_def runs)
  have "ci_inv db2"
    using finish_settle_inv [OF Cons.prems(1) f, of StepFailed StepSkipped] by (simp add: db2_def ci_simps)
  moreover have "\<exists>r\<in>set (db_runs db2). r_id r = j \<and> r_status r = StatusRunning" if j: "j \<in> set ids" for j
  proof -
    obtain q where "q \<in> set (db_runs db)" "r_id q = j" "r_status q = StatusRunning"
      using Cons.prems(3) [OF list.set_intros(2) [OF j]] by auto
    then show ?thesis using j Cons.prems(2) unfolding runs2 by (auto intro!: bexI [of _ q] image_eqI [of _ _ q])
  qed
  ultimately obtain db' where db': "fail_lost now ids db2 = Inr ((), db')"
    "db_runs db' = map (\<lambda>r. if r_id r \<in> set ids then failed_run now r else r) (db_runs db2)"
    using Cons.IH [of db2] Cons.prems(2) by auto
  have "fail_lost now (i # ids) db = Inr ((), db')"
    using f db'(1) by (simp add: lost_text_def db2_def)
  moreover have "db_runs db' = map (\<lambda>r. if r_id r \<in> set (i # ids) then failed_run now r else r) (db_runs db)"
    using Cons.prems(2) unfolding db'(2) runs2 by (auto simp: failed_run_def)
  ultimately show ?case by blast
qed simp

text \<open>
  \<open>FailLostRuns\<close> always succeeds; it fails exactly the running runs whose worker stopped or
  went silent, with their reason and their fetch token removed, settles their steps, and leaves
  every other run alone. It never takes a deployment target away: the lost step may still be
  running somewhere.
\<close>

theorem FailLostRuns_exact:
  assumes "reaches ci_allowed (ci_exec parse error_text hash) empty_db db"
    and "lost = selectLostRuns locked now staleAfter db"
  shows "\<exists>db'. FailLostRuns locked now staleAfter db = Inr (length lost, db') \<and>
    db_runs db' = map (\<lambda>r. if r_id r \<in> set lost then r\<lparr>r_status := StatusFailed, r_reason := lost_text,
       r_finished := Some now, r_token := None\<rparr> else r) (db_runs db) \<and>
    db_targets db' = db_targets db \<and>
    (\<forall>s\<in>set (db_steps db'). s_run s \<in> set lost \<longrightarrow> \<not> step_open (s_status s))"
proof -
  have inv: "ci_inv db" using ci.inv_reaches [OF assms(1) empty_inv] .
  have "distinct lost"
    using inv unfolding assms(2) selectLostRuns_def ci_inv_def runs_inv_def by (simp add: distinct_map_filter_sub)
  moreover have "\<exists>r\<in>set (db_runs db). r_id r = i \<and> r_status r = StatusRunning" if "i \<in> set lost" for i
    using that by (auto simp: assms(2) selectLostRuns_def)
  ultimately obtain db' where f: "fail_lost now lost db = Inr ((), db')"
    and runs: "db_runs db' = map (\<lambda>r. if r_id r \<in> set lost then failed_run now r else r) (db_runs db)"
    using fail_lost_exact [OF inv] by blast
  have e: "FailLostRuns locked now staleAfter db = Inr (length lost, db')"
    using f by (simp add: FailLostRuns_def assms(2) [symmetric])
  have inv': "ci_inv db'" using FailLostRuns_inv [OF inv e] .
  have "\<not> step_open (s_status s)" if s: "s \<in> set (db_steps db')" "s_run s \<in> set lost" for s
  proof -
    obtain r where r: "r \<in> set (db_runs db')" "r_id r = s_run s" "step_fits r s" using inv_step_run [OF inv' s(1)] .
    then have "r_finished r \<noteq> None" using s(2) unfolding runs by (auto simp: failed_run_def split: if_splits)
    then show ?thesis using r(3) by (simp add: step_fits_def)
  qed
  then show ?thesis
    using e runs FailLostRuns_quiet [OF e] by (auto simp: failed_run_def quiet_def)
qed

theorem FailLostRuns_exact_witness:
  "\<exists>db'. FailLostRuns (\<lambda>_. False) 100 50 sample_db = Inr (1, db') \<and> db_targets db' = [prod_target]"
proof -
  have "selectLostRuns (\<lambda>_. False) 100 50 sample_db = [''a'']" by code_simp
  then show ?thesis
    using FailLostRuns_exact [OF sample_reaches refl, of "\<lambda>_. False" 100 50] by (auto simp: sample_db_def)
qed

section \<open>Releasing a lost worker\<close>

definition idle_run :: "string \<Rightarrow> ci_db \<Rightarrow> bool" where
  "idle_run i db \<longleftrightarrow> (\<forall>r\<in>set (db_runs db). r_id r = i \<longrightarrow> r_status r \<noteq> StatusRunning)"

definition no_container :: "string \<Rightarrow> ci_db \<Rightarrow> bool" where
  "no_container i db \<longleftrightarrow> \<not> run_has_container db i"

lemma no_container_update_step:
  assumes "no_container i db" and "\<And>s. s_run (f s) = s_run s" and "\<And>s. container_left (f s) \<Longrightarrow> container_left s"
  shows "no_container i (update_step P f db)"
proof -
  have old: "\<not> container_left s" if "s \<in> set (db_steps db)" "s_run s = i" for s
    using assms(1) that by (auto simp: no_container_def run_has_container_def list_ex_iff)
  have "\<not> container_left s" if s: "s \<in> set (update_where P f (db_steps db))" "s_run s = i" for s
    using s(1)
  proof (rule update_where_cases)
    fix s0 assume "s0 \<in> set (db_steps db)" "s = f s0"
    then show ?thesis using old [of s0] assms(2,3) [of s0] s(2) by auto
  qed (use old s(2) in blast)
  then show ?thesis by (auto simp: no_container_def run_has_container_def list_ex_iff)
qed

lemma no_container_remove: "no_container i (remove_containers now i db)"
proof -
  have "\<not> container_left s"
    if s: "s \<in> set (update_where (\<lambda>s. s_run s = i \<and> container_left s) (\<lambda>s. s\<lparr>s_removed := Some now\<rparr>) (db_steps db))"
      "s_run s = i" for s
    using s(1) by (rule update_where_cases) (use s(2) in \<open>auto simp: container_left_def\<close>)
  then show ?thesis by (auto simp: no_container_def run_has_container_def remove_containers_def list_ex_iff)
qed

lemma finishRunRow_idle:
  assumes "finishRunRow now runID StatusFailed reason db = Inr (fr, db')"
  shows "idle_run runID db'" and "idle_run i db \<Longrightarrow> idle_run i db'" and "db_steps db' = db_steps db"
    and "r \<in> set (db_runs db) \<Longrightarrow> r_id r \<noteq> runID \<Longrightarrow> r \<in> set (db_runs db')"
  by (rule finishRunRow_Inr [OF assms]; force simp: idle_run_def in_update_where)+

lemma release_run_effect:
  assumes c: "release_run now (j, status) db = Inr (u, db')"
  shows "no_container j db'" and "status = StatusRunning \<or> idle_run j db \<Longrightarrow> idle_run j db'"
    and "idle_run i db \<Longrightarrow> idle_run i db'" and "no_container i db \<Longrightarrow> no_container i db'"
    and "r \<in> set (db_runs db) \<Longrightarrow> r_id r \<noteq> j \<Longrightarrow> r \<in> set (db_runs db')"
proof -
  obtain db1 where db': "db' = remove_containers now j db1" and db1:
    "if status = StatusRunning then (\<exists>fr db0. finishRunRow now j StatusFailed release_reason db = Inr (fr, db0) \<and>
        db1 = notify NotifyChannel j (confirmExecutionStoppedTx now j (settleOpenSteps now j StepFailed StepSkipped db0)))
     else db1 = db"
    using c by (auto simp: release_run_def bind_result_Inr split: if_splits)
  have runs: "db_runs db' = db_runs db1" by (simp add: db' remove_containers_def)
  have "idle_run i db1 \<and> (r \<in> set (db_runs db) \<longrightarrow> r_id r \<noteq> j \<longrightarrow> r \<in> set (db_runs db1))"
    if "idle_run i db \<or> i = j \<and> status = StatusRunning" for i
  proof (cases "status = StatusRunning")
    case True
    then obtain fr db0 where f: "finishRunRow now j StatusFailed release_reason db = Inr (fr, db0)"
      and d: "db_runs db1 = db_runs db0" using db1 by (auto simp: confirmExecutionStoppedTx_def)
    show ?thesis using that finishRunRow_idle [OF f] d by (auto simp: idle_run_def)
  qed (use db1 that in simp)
  note idle = this
  have "no_container i db1" if n: "no_container i db"
  proof (cases "status = StatusRunning")
    case True
    then obtain fr db0 where f: "finishRunRow now j StatusFailed release_reason db = Inr (fr, db0)" and
      d: "db1 = notify NotifyChannel j (confirmExecutionStoppedTx now j (settleOpenSteps now j StepFailed StepSkipped db0))"
      using db1 by auto
    have "no_container i db0" using n finishRunRow_idle(3) [OF f] by (simp add: no_container_def run_has_container_def)
    then have "no_container i (update_step (\<lambda>s. s_run s = j \<and> s_type s = StepDeploy \<and> s_status s = StepRunning)
          (\<lambda>s. s\<lparr>s_status := StepFailed, s_finished := Some now\<rparr>) (settleOpenSteps now j StepFailed StepSkipped db0))"
      unfolding settleOpenSteps_def by (intro no_container_update_step) (auto simp: container_left_def)
    then show ?thesis
      by (simp add: d confirmExecutionStoppedTx_def no_container_def run_has_container_def)
  qed (use db1 n in simp)
  then show "no_container i db \<Longrightarrow> no_container i db'"
    unfolding db' remove_containers_def by (intro no_container_update_step) (auto simp: container_left_def)
  show "no_container j db'" unfolding db' by (rule no_container_remove)
  show "idle_run i db \<Longrightarrow> idle_run i db'" "status = StatusRunning \<or> idle_run j db \<Longrightarrow> idle_run j db'"
    using idle by (auto simp: idle_run_def runs)
  show "r \<in> set (db_runs db) \<Longrightarrow> r_id r \<noteq> j \<Longrightarrow> r \<in> set (db_runs db')"
  proof (cases "status = StatusRunning")
    case True
    assume "r \<in> set (db_runs db)" "r_id r \<noteq> j"
    then show ?thesis using idle [of j] True by (simp add: runs)
  qed (use db1 runs in simp)
qed

lemma release_runs_effect:
  assumes "release_runs now rs db = Inr (u, db')"
  shows "(\<forall>(j, st)\<in>set rs. st \<noteq> StatusRunning \<longrightarrow> idle_run j db) \<Longrightarrow> j \<in> fst ` set rs \<Longrightarrow> idle_run j db' \<and> no_container j db'"
    and "idle_run i db \<Longrightarrow> idle_run i db'" and "no_container i db \<Longrightarrow> no_container i db'"
    and "r \<in> set (db_runs db) \<Longrightarrow> r_id r \<notin> fst ` set rs \<Longrightarrow> r \<in> set (db_runs db')"
proof -
  have "((\<forall>(j, st)\<in>set rs. st \<noteq> StatusRunning \<longrightarrow> idle_run j db) \<longrightarrow> (\<forall>j\<in>fst ` set rs. idle_run j db' \<and> no_container j db')) \<and>
    (\<forall>i. (idle_run i db \<longrightarrow> idle_run i db') \<and> (no_container i db \<longrightarrow> no_container i db')) \<and>
    (\<forall>r. r \<in> set (db_runs db) \<longrightarrow> r_id r \<notin> fst ` set rs \<longrightarrow> r \<in> set (db_runs db'))"
    using assms
  proof (induction rs arbitrary: db)
    case (Cons run rs)
    obtain j st where run: "run = (j, st)" by (cases run)
    obtain db1 where c: "release_run now (j, st) db = Inr ((), db1)" "release_runs now rs db1 = Inr (u, db')"
      using Cons.prems by (auto simp: bind_result_Inr run)
    note e = release_run_effect [OF c(1)]
    note ih = Cons.IH [OF c(2)]
    show ?case
    proof (intro conjI allI impI ballI, goal_cases)
      case (1 k)
      have "\<forall>(j, st)\<in>set rs. st \<noteq> StatusRunning \<longrightarrow> idle_run j db1" using 1(1) e(3) by (auto simp: run)
      moreover have "idle_run j db1" using 1(1) e(2) by (auto simp: run)
      ultimately show ?case using 1(2) ih e(1) by (auto simp: run)
    next
      case (2 k)
      have "\<forall>(j, st)\<in>set rs. st \<noteq> StatusRunning \<longrightarrow> idle_run j db1" using 2(1) e(3) by (auto simp: run)
      then show ?case using 2(2) ih e(1) by (auto simp: run)
    qed (use ih e(3-5) in \<open>auto simp: run\<close>)
  qed simp
  then show "(\<forall>(j, st)\<in>set rs. st \<noteq> StatusRunning \<longrightarrow> idle_run j db) \<Longrightarrow> j \<in> fst ` set rs \<Longrightarrow> idle_run j db' \<and> no_container j db'"
    "idle_run i db \<Longrightarrow> idle_run i db'" "no_container i db \<Longrightarrow> no_container i db'"
    "r \<in> set (db_runs db) \<Longrightarrow> r_id r \<notin> fst ` set rs \<Longrightarrow> r \<in> set (db_runs db')"
    by blast+
qed



section \<open>Cancelling\<close>

lemma inactive_starts_nothing:
  assumes "\<not> run_active db runID"
  shows "BeginDeployment t runID s db = Inl RunEnded" and "PlanContainer runID s name db = Inl RunEnded"
    and "ContainerCreated runID s name db = Inl RunEnded"
    and "ci_inv db \<Longrightarrow> st \<in> set (db_steps db) \<Longrightarrow> s_run st = runID \<Longrightarrow> StepStarted t runID (s_id st) db = Inl RunEnded"
proof -
  have "find (\<lambda>r. r_id r = runID \<and> r_status r = StatusRunning \<and> \<not> r_cancel r \<and> r_target r \<noteq> [] \<and>
              (case r_deadline r of None \<Rightarrow> False | Some d \<Rightarrow> t < d)) (db_runs db) = None"
    using assms by (auto simp: find_None_iff run_active_def list_ex_iff)
  then show "BeginDeployment t runID s db = Inl RunEnded" by (simp add: BeginDeployment_def)
  show "PlanContainer runID s name db = Inl RunEnded" "ContainerCreated runID s name db = Inl RunEnded"
    using assms by (simp_all add: PlanContainer_def ContainerCreated_def update_steps_if_def)
  show "StepStarted t runID (s_id st) db = Inl RunEnded"
    if "ci_inv db" "st \<in> set (db_steps db)" "s_run st = runID"
  proof -
    have "x = st" if "x \<in> set (db_steps db)" "s_id x = s_id st" for x
      using step_unique [OF \<open>ci_inv db\<close> that(1) \<open>st \<in> _\<close> that(2)] .
    then show ?thesis
      using assms that(3) by (auto simp: StepStarted_def setStepRunning_def Let_def list_ex_iff)
  qed
qed

lemma Cancel_cases:
  assumes inv: "ci_inv db" and r: "r \<in> set (db_runs db)"
  shows "Cancel now (r_repo r) (r_number r) by_name db = Inl RunFinished \<longleftrightarrow> r_finished r \<noteq> None"
    and "Cancel now (r_repo r) (r_number r) by_name db = Inr (u, db') \<Longrightarrow>
      (\<forall>q\<in>set (db_runs db'). r_id q = r_id r \<longrightarrow> r_status q \<noteq> StatusQueued \<and> (r_status q = StatusRunning \<longrightarrow> r_cancel q))"
proof -
  have f: "find (\<lambda>q. r_repo q = r_repo r \<and> r_number q = r_number r) (db_runs db) = Some r"
  proof (rule find_only [OF r])
    fix q assume "q \<in> set (db_runs db)" "r_repo q = r_repo r \<and> r_number q = r_number r"
    then show "q = r" using inv r by (auto simp: ci_inv_def runs_inv_def distinct_map dest!: inj_onD)
  qed simp
  have ok: "run_ok r" using inv_run_ok [OF inv r] .
  have same: "q = r" if "q \<in> set (db_runs db)" "r_id q = r_id r" for q using run_unique [OF inv that(1) r that(2)] .
  show "Cancel now (r_repo r) (r_number r) by_name db = Inl RunFinished \<longleftrightarrow> r_finished r \<noteq> None"
    using ok f by (auto simp: Cancel_def cancelRunRow_def run_ok_def)
  show "\<forall>q\<in>set (db_runs db'). r_id q = r_id r \<longrightarrow> r_status q \<noteq> StatusQueued \<and> (r_status q = StatusRunning \<longrightarrow> r_cancel q)"
    if c: "Cancel now (r_repo r) (r_number r) by_name db = Inr (u, db')"
  proof (intro ballI impI)
    fix q assume q: "q \<in> set (db_runs db')" "r_id q = r_id r"
    consider "r_status r = StatusQueued" "db_runs db' = update_where (\<lambda>q. r_id q = r_id r)
        (\<lambda>q. q\<lparr>r_status := StatusCancelled, r_reason := cancel_reason by_name, r_finished := Some now\<rparr>) (db_runs db)"
      | "r_status r = StatusRunning" "db_runs db' = update_where (\<lambda>q. r_id q = r_id r)
        (\<lambda>q. q\<lparr>r_cancel := True, r_reason := cancel_reason by_name\<rparr>) (db_runs db)"
      using c f by (auto simp: Cancel_def cancelRunRow_def split: if_splits)
    then show "r_status q \<noteq> StatusQueued \<and> (r_status q = StatusRunning \<longrightarrow> r_cancel q)"
    proof cases
      case 1
      show ?thesis using q(1) [unfolded 1(2)] by (rule update_where_cases) (use q(2) in auto)
    next
      case 2
      show ?thesis using q(1) [unfolded 2(2)]
      proof (rule update_where_cases)
        fix x assume "x \<in> set (db_runs db)" "r_id x = r_id r"
          "q = x\<lparr>r_cancel := True, r_reason := cancel_reason by_name\<rparr>"
        then show ?thesis using same [of x] 2(1) by simp
      qed (use q(2) in simp)
    qed
  qed
qed

text \<open>
  C37: cancelling is refused exactly for a finished run, and once a run is cancelled it starts
  nothing: none of its steps can start, plan a container or take a deployment target, and no
  worker can claim it.
\<close>

theorem Cancel_stops_starts:
  assumes "reaches ci_allowed (ci_exec parse error_text hash) empty_db db" and "r \<in> set (db_runs db)"
  shows "(Cancel now (r_repo r) (r_number r) by_name db = Inl RunFinished \<longleftrightarrow> r_finished r \<noteq> None) \<and>
    (\<forall>u db'. Cancel now (r_repo r) (r_number r) by_name db = Inr (u, db') \<longrightarrow>
      (\<forall>q\<in>set (db_runs db'). r_id q = r_id r \<longrightarrow> r_status q \<noteq> StatusQueued) \<and>
      (\<forall>t s. BeginDeployment t (r_id r) s db' = Inl RunEnded) \<and>
      (\<forall>name s. PlanContainer (r_id r) s name db' = Inl RunEnded) \<and>
      (\<forall>t s. s \<in> set (db_steps db') \<longrightarrow> s_run s = r_id r \<longrightarrow> StepStarted t (r_id r) (s_id s) db' = Inl RunEnded))"
proof -
  have inv: "ci_inv db" using ci.inv_reaches [OF assms(1) empty_inv] .
  note c = Cancel_cases [OF inv assms(2), of now by_name]
  have "\<not> run_active db' (r_id r) \<and> (\<forall>q\<in>set (db_runs db'). r_id q = r_id r \<longrightarrow> r_status q \<noteq> StatusQueued) \<and> ci_inv db'"
    if "Cancel now (r_repo r) (r_number r) by_name db = Inr (u, db')" for u db'
    using c(2) [OF that] Cancel_inv [OF inv that] by (auto simp: run_active_def list_ex_iff)
  then show ?thesis using c(1) inactive_starts_nothing by blast
qed

theorem Cancel_stops_starts_witness:
  "\<exists>db'. Cancel 8 ''r1'' 1 ''ann'' sample_ready = Inr ((), db') \<and> BeginDeployment 9 ''a'' ''sx'' db' = Inl RunEnded"
proof -
  have r: "running_run \<in> set (db_runs sample_ready)" by (simp add: sample_ready_def sample_db_def)
  have "\<exists>db'. Cancel 8 ''r1'' 1 ''ann'' sample_ready = Inr ((), db')"
    by (simp add: Cancel_def cancelRunRow_def sample_ready_def sample_db_def sample_rows)
  moreover have "r_repo running_run = ''r1'' \<and> r_number running_run = 1 \<and> r_id running_run = ''a''"
    by (simp add: sample_rows)
  ultimately show ?thesis using Cancel_stops_starts [OF ready_reaches r, of 8 "''ann''"] by auto
qed

section \<open>Logs\<close>

lemma step_of_update:
  assumes "\<And>s. s_id (f s) = s_id s"
  shows "step_of (update_step P f db) i = map_option (\<lambda>s. if P s then f s else s) (step_of db i)"
proof -
  have "find (\<lambda>s. s_id s = i) (update_where P f xs) = map_option (\<lambda>s. if P s then f s else s) (find (\<lambda>s. s_id s = i) xs)" for xs
    by (induction xs) (auto simp: update_where_def assms)
  then show ?thesis by (simp add: step_of_def)
qed

lemma step_of_frame:
  "step_of (notify c x db) = step_of db" "step_of (db\<lparr>db_logs := ls\<rparr>) = step_of db"
  "step_of (db\<lparr>db_notes := ns\<rparr>) = step_of db"
  by (simp_all add: step_of_def fun_eq_iff)

lemma insertLogChunk_Inr:
  assumes "insertLogChunk stepID sq content db = Inr (u, db1)"
  obtains (unstored) "db1 = db" "insertLogChunk stepID sq content (notify ch x db) = Inr (u, notify ch x db)"
  | (stored) st r where "step_of db stepID = Some st"
      "find (\<lambda>r. r_id r = s_run st \<and> r_status r = StatusRunning) (db_runs db) = Some r" "length content \<le> 65536"
      "stored_bytes (r_repo r) db + length content \<le> log_budget"
      "db1 = update_step (\<lambda>s. s_id s = stepID) (\<lambda>s. s\<lparr>s_log_bytes := s_log_bytes s + length content,
             s_log_lines := s_log_lines s + newlines content\<rparr>)
           (db\<lparr>db_logs := db_logs db @ [\<lparr>l_repo = r_repo r, l_step = stepID, l_sequence = sq, l_content = content\<rparr>]\<rparr>)"
proof (cases "step_of db stepID")
  case None
  then show thesis using assms by (intro unstored) (auto simp: insertLogChunk_def step_of_frame)
next
  case st: (Some st)
  show thesis
  proof (cases "find (\<lambda>r. r_id r = s_run st \<and> r_status r = StatusRunning) (db_runs db)")
    case None
    then show thesis using assms st by (intro unstored) (auto simp: insertLogChunk_def step_of_frame)
  next
    case (Some r)
    show thesis
    proof (cases "list_ex (\<lambda>l. l_step l = stepID \<and> l_sequence l = sq) (db_logs db)")
      case True
      then show thesis using assms st Some
        by (intro unstored) (auto simp: insertLogChunk_def step_of_frame notify_def split: if_splits)
    next
      case False
      then show thesis using assms st Some
        by (intro stored [OF st Some]) (auto simp: insertLogChunk_def split: if_splits)
    qed
  qed
qed

lemma insertLogChunk_again:
  assumes "insertLogChunk stepID sq content db = Inr (u, db1)"
  shows "insertLogChunk stepID sq content (notify ch x db1) = Inr (u, notify ch x db1)"
  using assms
proof (cases rule: insertLogChunk_Inr [where ch = ch and x = x])
  case (stored st r)
  have "step_of (notify ch x db1) stepID = Some (if s_id st = stepID then st\<lparr>s_log_bytes := s_log_bytes st + length content,
             s_log_lines := s_log_lines st + newlines content\<rparr> else st)"
    using stored(1) by (simp add: stored(5) step_of_frame step_of_update)
  moreover have "db_runs (notify ch x db1) = db_runs db"
    "list_ex (\<lambda>l. l_step l = stepID \<and> l_sequence l = sq) (db_logs (notify ch x db1))"
    by (simp_all add: stored(5) notify_def update_step_def)
  ultimately show ?thesis
    using stored(2,3) by (simp add: insertLogChunk_def split: if_splits)
qed simp

lemma insertLogChunk_bytes:
  assumes "insertLogChunk stepID sq content db = Inr (u, db1)"
  shows "stored_bytes repo db1 \<le> max log_budget (stored_bytes repo db)"
  using assms
proof (cases rule: insertLogChunk_Inr [where ch = NotifyChannel and x = "[]"])
  case (stored st r)
  have "stored_bytes repo db1 = stored_bytes repo db + (if r_repo r = repo then length content else 0)"
    by (simp add: stored(5) stored_bytes_def update_step_def)
  then show ?thesis using stored(4) by auto
qed simp

text \<open>
  The log of a step: no call makes the stored bytes of any repository exceed 1 GiB, sending
  a chunk again changes neither the log nor the counters of the step, and a chunk that exceeds the
  budget is not stored but leaves a note on the step.
\<close>

theorem AppendLog_budget:
  assumes "AppendLog runID stepID sq content db = (err, db')" "\<forall>repo. stored_bytes repo db \<le> log_budget"
  shows "(\<forall>repo. stored_bytes repo db' \<le> log_budget) \<and>
    (err = None \<longrightarrow> AppendLog runID stepID sq content db' = (None, notify LogChannel runID db')) \<and>
    (err = Some LogBudget \<longrightarrow> db_logs db' = db_logs db \<and>
       (\<forall>s\<in>set (db_steps db'). s_id s = stepID \<longrightarrow> s_log_error s = log_error_text))"
proof (cases "insertLogChunk stepID sq content db")
  case (Inl e)
  show ?thesis
  proof (cases "e = LogBudget")
    case True
    then have "db' = update_step (\<lambda>s. s_id s = stepID) (\<lambda>s. s\<lparr>s_log_error := log_error_text\<rparr>) db" "err = Some LogBudget"
      using assms(1) Inl by (auto simp: AppendLog_def)
    moreover have "s_log_error s = log_error_text"
      if s: "s \<in> set (update_where (\<lambda>s. s_id s = stepID) (\<lambda>s. s\<lparr>s_log_error := log_error_text\<rparr>) (db_steps db))"
        "s_id s = stepID" for s
      using s(1) by (rule update_where_cases) (use s(2) in auto)
    ultimately show ?thesis using assms(2) by (simp add: stored_bytes_def update_step_def)
  next
    case False
    then have "db' = db" "err = Some e" using assms(1) Inl by (auto simp: AppendLog_def split: ci_error.splits)
    then show ?thesis using assms(2) False by simp
  qed
next
  case (Inr x)
  then obtain db1 where i: "insertLogChunk stepID sq content db = Inr ((), db1)" by (cases x) auto
  then have r: "err = None" "db' = notify LogChannel runID db1" using assms(1) by (auto simp: AppendLog_def)
  have "stored_bytes repo db' = stored_bytes repo db1" for repo by (simp add: r stored_bytes_def notify_def)
  moreover have "stored_bytes repo db1 \<le> log_budget" for repo
    using insertLogChunk_bytes [OF i, of repo] spec [OF assms(2), of repo] by (simp add: max.absorb1)
  ultimately show ?thesis using insertLogChunk_again [OF i] by (simp add: r AppendLog_def)
qed

theorem AppendLog_budget_witness:
  "AppendLog ''a'' ''sx'' 1 ''ok'' sample_db = (None, snd (AppendLog ''a'' ''sx'' 1 ''ok'' sample_db)) \<and>
   AppendLog ''a'' ''sx'' 1 ''ok'' (snd (AppendLog ''a'' ''sx'' 1 ''ok'' sample_db)) =
     (None, notify LogChannel ''a'' (snd (AppendLog ''a'' ''sx'' 1 ''ok'' sample_db)))"
proof -
  let ?db = "snd (AppendLog ''a'' ''sx'' 1 ''ok'' sample_db)"
  have "fst (AppendLog ''a'' ''sx'' 1 ''ok'' sample_db) = None"
    by (simp add: AppendLog_def insertLogChunk_def step_of_def sample_states sample_rows log_budget_def stored_bytes_def)
  then have a: "AppendLog ''a'' ''sx'' 1 ''ok'' sample_db = (None, ?db)" by (metis prod.collapse)
  have "\<forall>repo. stored_bytes repo sample_db \<le> log_budget" by (simp add: stored_bytes_def sample_states)
  then show ?thesis using AppendLog_budget [OF a] a by simp
qed

end
