(* ===== verification/Ci_Refinement.thy ===== *)
theory Ci_Refinement
  imports Ci_Properties
begin

text \<open>
  The deployment targets of the run service implement one fencing lock each. The lock is the
  specification: it is free or held by a step of a run, and its token grows with every acquisition.
  Every operation of the service either leaves the lock of a target alone, or is the
  \<open>BeginDeployment\<close> of the step that acquires it, or one of the calls entitled to release it.
\<close>

section \<open>The specification\<close>

datatype lock_state = Free int | Held "string \<times> string" int

datatype lock_event = Stay | Acquire string string | Release string string

inductive lock_step :: "lock_event \<Rightarrow> lock_state \<Rightarrow> lock_state \<Rightarrow> bool" where
  stay: "lock_step Stay l l"
| acquire: "lock_step (Acquire i j) (Free g) (Held (i, j) (g + 1))"
| release: "lock_step (Release i j) (Held (i, j) g) (Free g)"

inductive_simps lock_step_simps:
  "lock_step Stay l l'" "lock_step (Acquire i j) l l'" "lock_step (Release i j) l l'"

abbreviation lock_run :: "lock_state \<Rightarrow> lock_state \<Rightarrow> bool" where
  "lock_run \<equiv> (\<lambda>a b. \<exists>l. lock_step l a b)\<^sup>*\<^sup>*"

fun token :: "lock_state \<Rightarrow> int" where
  "token (Free g) = g"
| "token (Held p g) = g"

text \<open>The promise of the lock: tokens never repeat for two holders.\<close>

lemma lock_run_token:
  "lock_run l l' \<Longrightarrow> token l < token l' \<or> l' = l \<or> l' = Free (token l)"
proof (induction rule: rtranclp_induct)
  case (step l1 l2)
  then obtain e where "lock_step e l1 l2" by blast
  then show ?case using step.IH by (cases rule: lock_step.cases) auto
qed simp

lemma lock_run_fences:
  assumes "lock_run (Held p g) (Held q h)"
  shows "g < h \<or> g = h \<and> p = q"
  using lock_run_token [OF assms] by auto

section \<open>The abstraction\<close>

definition lock_of :: "string \<times> string \<Rightarrow> ci_db \<Rightarrow> lock_state" where
  "lock_of k db =
     (case find (\<lambda>t. target_key t = k) (db_targets db) of
        None \<Rightarrow> Free 0
      | Some t \<Rightarrow> (case dt_owner t of None \<Rightarrow> Free (dt_generation t) | Some p \<Rightarrow> Held p (dt_generation t)))"

definition caused :: "lock_event \<Rightarrow> ci_op \<Rightarrow> ci_db \<Rightarrow> bool" where
  "caused e op db \<longleftrightarrow>
     (case e of Stay \<Rightarrow> True
      | Acquire i j \<Rightarrow> (case op of DoBegin now runID stepID \<Rightarrow> runID = i \<and> stepID = j | _ \<Rightarrow> False)
      | Release i j \<Rightarrow> releases i j op db)"

lemma find_map_key:
  assumes "\<And>x. Q (f x) = Q x"
  shows "find Q (map f xs) = map_option f (find Q xs)"
  using assms by (induction xs) auto

text \<open>An operation that only frees targets: no new rows, no new owners, the same generations.\<close>

definition frees :: "ci_db \<Rightarrow> ci_db \<Rightarrow> bool" where
  "frees db db' \<longleftrightarrow>
     (\<exists>f. db_targets db' = map f (db_targets db) \<and>
       (\<forall>t. target_key (f t) = target_key t \<and> dt_generation (f t) = dt_generation t \<and>
          (dt_owner (f t) = dt_owner t \<or> dt_owner (f t) = None)))"

lemma frees_trans: "frees a b \<Longrightarrow> frees b c \<Longrightarrow> frees a c"
  unfolding frees_def
proof (elim exE conjE)
  fix f g
  assume "db_targets b = map f (db_targets a)" "db_targets c = map g (db_targets b)"
    and "\<forall>t. target_key (f t) = target_key t \<and> dt_generation (f t) = dt_generation t \<and> (dt_owner (f t) = dt_owner t \<or> dt_owner (f t) = None)"
    and "\<forall>t. target_key (g t) = target_key t \<and> dt_generation (g t) = dt_generation t \<and> (dt_owner (g t) = dt_owner t \<or> dt_owner (g t) = None)"
  then show "\<exists>f. db_targets c = map f (db_targets a) \<and>
     (\<forall>t. target_key (f t) = target_key t \<and> dt_generation (f t) = dt_generation t \<and> (dt_owner (f t) = dt_owner t \<or> dt_owner (f t) = None))"
    by (intro exI [of _ "g \<circ> f"]) (simp, metis)
qed

lemma frees_same: "db_targets db' = db_targets db \<Longrightarrow> frees db db'"
  unfolding frees_def by (rule exI [of _ id]) simp

lemma frees_quiet: "quiet db db' \<Longrightarrow> frees db db'"
  by (rule frees_same) (simp add: quiet_def)

lemma frees_update:
  assumes "\<And>t. target_key (f t) = target_key t \<and> dt_generation (f t) = dt_generation t \<and>
      (dt_owner (f t) = dt_owner t \<or> dt_owner (f t) = None)"
  shows "frees db (update_target P f db)"
  unfolding frees_def
  by (rule exI [of _ "\<lambda>t. if P t then f t else t"]) (simp add: assms update_target_def update_where_def)

lemma frees_lock:
  assumes "frees db db'"
  shows "lock_of k db' = lock_of k db \<or> (\<exists>p g. lock_of k db = Held p g \<and> lock_of k db' = Free g)"
proof -
  obtain f where f: "db_targets db' = map f (db_targets db)"
    and keep: "\<And>t. target_key (f t) = target_key t \<and> dt_generation (f t) = dt_generation t \<and>
          (dt_owner (f t) = dt_owner t \<or> dt_owner (f t) = None)"
    using assms unfolding frees_def by blast
  show ?thesis
  proof (cases "find (\<lambda>t. target_key t = k) (db_targets db)")
    case None
    then show ?thesis by (simp add: lock_of_def f find_map_key keep)
  next
    case (Some t)
    then show ?thesis using keep [of t]
      by (cases "dt_owner t") (auto simp: lock_of_def f find_map_key keep)
  qed
qed

lemma owned_lock:
  assumes "ci_inv db"
  shows "owned k i j g db \<longleftrightarrow> lock_of k db = Held (i, j) g"
proof
  assume "owned k i j g db"
  then obtain t where t: "t \<in> set (db_targets db)" "target_key t = k" "dt_owner t = Some (i, j)" "dt_generation t = g"
    unfolding owned_def by blast
  then obtain u where u: "find (\<lambda>t. target_key t = k) (db_targets db) = Some u"
    by (cases "find (\<lambda>t. target_key t = k) (db_targets db)") (auto simp: find_None_iff)
  then have "u \<in> set (db_targets db)" "target_key u = k" by (auto dest: find_SomeD)
  then have "u = t" using target_unique [OF assms _ t(1)] t(2) by simp
  then show "lock_of k db = Held (i, j) g" using u t by (simp add: lock_of_def)
next
  assume "lock_of k db = Held (i, j) g"
  then show "owned k i j g db"
    by (auto simp: lock_of_def owned_def split: option.splits dest!: find_SomeD)
qed

section \<open>Operations\<close>

lemma confirm_frees: "frees db (confirmExecutionStoppedTx now runID db)"
  unfolding confirmExecutionStoppedTx_def update_target_step_commute
  by (rule frees_trans [OF _ frees_quiet [OF quietI(2)]]) (simp add: frees_update target_key_def)

lemma record_frees:
  "record_deployment now newID runID stepID generation c recovery db = Inr (u, db') \<Longrightarrow> frees db db'"
  by (erule record_deployment_Inr)
    (auto intro!: frees_trans [OF frees_same frees_update] simp: target_key_def add_deployment_def)

lemma receipt_frees:
  assumes "finishExecutionReceipt now newID runID stepID status c recovery db = Inr (u, db')"
  shows "frees db db'"
  using assms
proof (cases rule: finishExecutionReceipt_Inr)
  case kept
  then show ?thesis by (simp add: frees_same)
next
  case (written st db1)
  have "frees db db1" using written(5) by (auto simp: frees_same dest: record_frees split: if_splits)
  then have rcpt: "frees db (receipt now stepID status c db1)"
    unfolding receipt_def by (rule frees_trans) (rule frees_quiet [OF quietI(2)])
  have "frees d (release_step runID stepID g d)" for g d
    unfolding release_step_def by (rule frees_update) (simp add: target_key_def)
  then show ?thesis using rcpt frees_trans unfolding written(6) by (auto split: option.splits)
qed

lemma release_run_frees: "release_run now run db = Inr (u, db') \<Longrightarrow> frees db db'"
proof -
  assume a: "release_run now run db = Inr (u, db')"
  obtain runID status where run: "run = (runID, status)" by (cases run)
  have removed: "frees d (remove_containers now runID d)" for d by (rule frees_quiet [OF container_quiet(4)])
  show ?thesis
  proof (cases "status = StatusRunning")
    case False
    then show ?thesis using a removed by (auto simp: release_run_def run)
  next
    case True
    then obtain fr db0 where f: "finishRunRow now runID StatusFailed release_reason db = Inr (fr, db0)"
      and db': "db' = remove_containers now runID (notify NotifyChannel runID (confirmExecutionStoppedTx now runID
          (settleOpenSteps now runID StepFailed StepSkipped db0)))"
      using a by (auto simp: release_run_def run bind_result_Inr)
    show ?thesis unfolding db'
      by (rule frees_trans [OF _ removed], rule frees_trans [OF _ frees_quiet [OF quietI(4)]],
          rule frees_trans [OF _ confirm_frees], rule frees_trans [OF _ frees_quiet [OF quietI(6)]])
        (rule frees_quiet [OF finishRunRow_quiet [OF f]])
  qed
qed

lemma release_runs_frees: "release_runs now runs db = Inr (u, db') \<Longrightarrow> frees db db'"
proof (induction runs arbitrary: db)
  case (Cons run runs)
  then obtain db1 where "release_run now run db = Inr ((), db1)" "release_runs now runs db1 = Inr (u, db')"
    by (auto simp: bind_result_Inr)
  then show ?case using release_run_frees Cons.IH frees_trans by blast
qed (simp add: frees_same)

lemma ReleaseLostWorker_frees: "ReleaseLostWorker now workerID only db = Inr (n, db') \<Longrightarrow> frees db db'"
proof (erule ReleaseLostWorker_Inr)
  fix w db1
  assume r: "release_runs now (released_runs workerID only db) db = Inr ((), db1)"
    and db': "db' = (let db = stop_released now workerID (release_owners workerID only db1)
            in db\<lparr>db_audit := db_audit db @ [(wk_hostname w, workerID, n)]\<rparr>)"
  have "frees db1 (release_owners workerID only db1)"
    unfolding release_owners_def by (rule frees_update) (simp add: target_key_def)
  moreover have "frees (release_owners workerID only db1) db'"
    unfolding db' Let_def stop_released_def by (rule frees_quiet) (rule quiet_trans [OF quietI(3) quietI(11)])
  ultimately show ?thesis using release_runs_frees [OF r] frees_trans by blast
qed

lemma commit_frees: "(\<And>a db'. res = Inr (a, db') \<Longrightarrow> frees db db') \<Longrightarrow> frees db (commit res db)"
  by (auto simp: commit_def frees_same split: sum.splits)

lemma exec_frees:
  assumes "\<And>now runID stepID. op \<noteq> DoBegin now runID stepID"
  shows "frees db (ci_exec parse et hash op db)"
proof (cases op)
  case (DoStepFinished now newID runID stepID status c)
  have "frees db db'" if "StepFinished now newID runID stepID status c db = Inr (a, db')" for a db'
    using that by (auto simp: StepFinished_def finishRecordedStep_def bind_result_Inr
        intro: frees_trans [OF receipt_frees frees_quiet [OF quietI(4)]])
  then show ?thesis unfolding DoStepFinished ci_exec.simps by (rule commit_frees)
next
  case (DoRecoverExit now newID runID name c)
  have "frees db db'" if "RecoverStepExit now newID runID name c db = Inr (a, db')" for a db'
    using that by (auto simp: RecoverStepExit_def split: option.splits intro: receipt_frees)
  then show ?thesis unfolding DoRecoverExit ci_exec.simps by (rule commit_frees)
next
  case (DoConfirmStopped now runID)
  then show ?thesis by (simp add: ConfirmExecutionStopped_def confirm_frees)
next
  case (DoConfirmRemoved now runID)
  then show ?thesis
    by (simp add: ConfirmContainersRemoved_def ConfirmExecutionStopped_def
        frees_trans [OF confirm_frees frees_quiet [OF container_quiet(4)]])
next
  case (DoRelease now workerID only)
  then show ?thesis by (simp add: commit_frees ReleaseLostWorker_frees)
qed (use assms in \<open>simp_all add: frees_quiet op_quiet_total\<close>, (rule commit_frees, rule frees_quiet, erule op_quiet)+)

lemma insert_target_lock: "lock_of k (insert_target repoID target db) = lock_of k db"
proof (cases "list_ex (\<lambda>t. dt_repo t = repoID \<and> dt_target t = target) (db_targets db)")
  case False
  have app: "find P (xs @ [x]) = (case find P xs of None \<Rightarrow> if P x then Some x else None | Some y \<Rightarrow> Some y)" for P xs and x :: target_row
    by (induction xs) auto
  show ?thesis using False by (auto simp: insert_target_def lock_of_def app split: option.split)
qed (simp add: insert_target_def)

lemma begin_lock:
  assumes inv: "ci_inv db" and c: "BeginDeployment now runID stepID db = Inr (u, db')"
  shows "lock_of k db' = lock_of k db \<or>
    (\<exists>g. lock_of k db = Free g \<and> lock_of k db' = Held (runID, stepID) (g + 1))"
  using c
proof (rule BeginDeployment_Inr)
  fix r :: run_row and st t
  define db0 where "db0 = insert_target (r_repo r) (r_target r) db"
  assume r: "r_id r = runID" and st: "s_id st = stepID"
    and t: "t \<in> set (db_targets (insert_target (r_repo r) (r_target r) db))" "target_key t = run_key r"
    and cases: "(\<exists>ownerRun. dt_owner t = Some (ownerRun, stepID) \<and>
        db' = update_step (\<lambda>s. s_id s = stepID) (\<lambda>s. s\<lparr>s_generation := Some (dt_generation t)\<rparr>)
          (insert_target (r_repo r) (r_target r) db)) \<or>
     dt_owner t = None \<and> db' = taken (insert_target (r_repo r) (r_target r) db) r st t"
  have inv0: "ci_inv db0" unfolding db0_def by (rule inv_insert_target [OF inv])
  have lock0: "lock_of k db0 = lock_of k db" by (simp add: db0_def insert_target_lock)
  have t0: "t \<in> set (db_targets db0)" using t(1) by (simp add: db0_def)
  from cases show ?thesis
  proof
    assume "\<exists>ownerRun. dt_owner t = Some (ownerRun, stepID) \<and>
        db' = update_step (\<lambda>s. s_id s = stepID) (\<lambda>s. s\<lparr>s_generation := Some (dt_generation t)\<rparr>)
          (insert_target (r_repo r) (r_target r) db)"
    then have "lock_of k db' = lock_of k db0" by (auto simp: lock_of_def db0_def)
    then show ?thesis using lock0 by simp
  next
    assume free: "dt_owner t = None \<and> db' = taken (insert_target (r_repo r) (r_target r) db) r st t"
    define f where "f u = (if target_key u = run_key r
        then u\<lparr>dt_owner := Some (r_id r, s_id st), dt_generation := dt_generation t + 1\<rparr> else u)" for u :: target_row
    have "db_targets db' = map f (db_targets db0)"
      using free by (simp add: db0_def take_target_def update_target_def update_where_def f_def)
    moreover have "target_key (f u) = target_key u" for u by (simp add: f_def target_key_def)
    ultimately have find': "find (\<lambda>t. target_key t = k) (db_targets db') = map_option f (find (\<lambda>t. target_key t = k) (db_targets db0))"
      by (simp add: find_map_key)
    show ?thesis
    proof (cases "find (\<lambda>t. target_key t = k) (db_targets db0)")
      case None
      then show ?thesis using lock0 find' by (simp add: lock_of_def)
    next
      case (Some u)
      then have u: "u \<in> set (db_targets db0)" "target_key u = k" by (auto dest: find_SomeD)
      show ?thesis
      proof (cases "k = run_key r")
        case True
        then have "u = t" using target_unique [OF inv0 u(1) t0] u(2) t(2) by simp
        then show ?thesis using Some find' lock0 free True u r st by (auto simp: lock_of_def f_def)
      next
        case False
        then show ?thesis using Some find' lock0 u by (simp add: lock_of_def f_def)
      qed
    qed
  qed
qed

lemma ci_step_lock:
  assumes inv: "ci_inv db" and allowed: "ci_allowed op db"
  shows "\<exists>e. lock_step e (lock_of k db) (lock_of k (ci_exec parse et hash op db)) \<and> caused e op db"
proof (cases "\<exists>now runID stepID. op = DoBegin now runID stepID")
  case True
  then obtain now runID stepID where op: "op = DoBegin now runID stepID" by blast
  show ?thesis
  proof (cases "BeginDeployment now runID stepID db")
    case (Inl e)
    then have "ci_exec parse et hash op db = db" by (simp add: op commit_def)
    then show ?thesis by (auto simp: caused_def intro!: exI [of _ Stay] stay)
  next
    case (Inr b)
    then obtain u where "BeginDeployment now runID stepID db = Inr (u, ci_exec parse et hash op db)"
      by (cases b) (simp add: op commit_def)
    from begin_lock [OF inv this, of k] show ?thesis
    proof (elim disjE exE conjE)
      assume "lock_of k (ci_exec parse et hash op db) = lock_of k db"
      then show ?thesis by (auto simp: caused_def intro!: exI [of _ Stay] stay)
    next
      fix g assume "lock_of k db = Free g" "lock_of k (ci_exec parse et hash op db) = Held (runID, stepID) (g + 1)"
      then show ?thesis by (auto simp: caused_def op intro!: exI [of _ "Acquire runID stepID"] acquire)
    qed
  qed
next
  case False
  then have "frees db (ci_exec parse et hash op db)" by (intro exec_frees) blast
  from frees_lock [OF this, of k] show ?thesis
  proof (elim disjE exE conjE)
    assume "lock_of k (ci_exec parse et hash op db) = lock_of k db"
    then show ?thesis by (auto simp: caused_def intro!: exI [of _ Stay] stay)
  next
    fix p g assume held: "lock_of k db = Held p g" and free: "lock_of k (ci_exec parse et hash op db) = Free g"
    obtain i j where p: "p = (i, j)" by (cases p)
    have "releases i j op db"
    proof (rule ccontr)
      assume ne: "\<not> releases i j op db"
      have "owned k i j g db" using held p owned_lock [OF inv] by simp
      from ci_exec_kept [OF inv this ne] have "owned k i j g (ci_exec parse et hash op db)" by (simp add: kept_def)
      then show False using owned_lock [OF ci_exec_inv [OF inv allowed]] free by simp
    qed
    then show ?thesis using held free p by (auto simp: caused_def intro!: exI [of _ "Release i j"] release)
  qed
qed

interpretation lock: refinement_system ci_allowed "ci_exec parse et hash" ci_inv "lock_of k" lock_step
  for parse et hash k
  by unfold_locales (use ci_step_lock in blast)

section \<open>Properties\<close>

text \<open>
  C8: the deployment target \<open>k\<close> behaves as a fencing lock. Every call of the service, in every
  reachable state, leaves the lock as it is, or is the \<open>BeginDeployment\<close> of the step that
  acquires the free lock under the next token, or is a call of the holder (its receipt, the
  confirmation that its execution stopped, the release of its worker) that frees it under the
  same token.
\<close>

theorem ci_refines_lock:
  assumes "reaches ci_allowed (ci_exec parse error_text hash) empty_db db" and "ci_allowed op db"
  shows "\<exists>e. lock_step e (lock_of k db) (lock_of k (ci_exec parse error_text hash op db)) \<and> caused e op db"
  using ci_step_lock [OF ci.inv_reaches [OF assms(1) empty_inv] assms(2)] .

theorem ci_refines_lock_witness:
  "lock_of (''r1'', ''prod'') sample_ready = Free 0 \<and>
   lock_of (''r1'', ''prod'') (sample_exec (DoBegin 7 ''a'' ''sx'') sample_ready) = Held (''a'', ''sx'') 1 \<and>
   lock_step (Acquire ''a'' ''sx'') (lock_of (''r1'', ''prod'') sample_ready)
     (lock_of (''r1'', ''prod'') (sample_exec (DoBegin 7 ''a'' ''sx'') sample_ready))"
proof -
  have "BeginDeployment 7 ''a'' ''sx'' sample_ready = Inr ((), sample_db)" by code_simp
  then have exec: "sample_exec (DoBegin 7 ''a'' ''sx'') sample_ready = sample_db" by (simp add: commit_def)
  have locks: "lock_of (''r1'', ''prod'') sample_ready = Free 0"
    "lock_of (''r1'', ''prod'') sample_db = Held (''a'', ''sx'') 1"
    by (simp_all add: lock_of_def sample_ready_def sample_db_def prod_target_def target_key_def)
  obtain e where e: "lock_step e (Free 0) (Held (''a'', ''sx'') 1)"
    using ci_refines_lock [OF ready_reaches, of "DoBegin 7 ''a'' ''sx''" "(''r1'', ''prod'')"] unfolding exec locks by auto
  then have "e = Acquire ''a'' ''sx''" by (cases rule: lock_step.cases) simp_all
  with e show ?thesis unfolding exec locks by simp
qed

text \<open>Whole runs refine runs of the lock, so tokens fence: a holder met later under the same token is the same step.\<close>

theorem owners_fenced:
  assumes "reaches ci_allowed (ci_exec parse error_text hash) empty_db db"
    and "reaches ci_allowed (ci_exec parse error_text hash) db db'"
    and "owned k i j g db" and "owned k i' j' g' db'"
  shows "g < g' \<or> g = g' \<and> i = i' \<and> j = j'"
proof -
  have inv: "ci_inv db" using ci.inv_reaches [OF assms(1) empty_inv] .
  have inv': "ci_inv db'" using ci.inv_reaches [OF assms(2) inv] .
  have "lock_run (lock_of k db) (lock_of k db')" by (rule lock.abstract_reaches [OF assms(2) inv])
  then show ?thesis using lock_run_fences assms(3,4) owned_lock [OF inv] owned_lock [OF inv'] by fastforce
qed

end
