(* ===== verification/Images.thy ===== *)
theory Images
  imports Image_Refs "HOL-Library.Product_Lexorder" "HOL-Library.Multiset"
begin

text \<open>
  Package \<open>internal/ci\<close>, file \<open>images.go\<close>: the classification of the images on a worker's host
  and the plan of what a prune may remove.

  Times are nanoseconds. A Go map is an association list read by \<^const>\<open>map_of\<close>; the order in
  which Go visits the keys of \<open>builtByRepository\<close> is the parameter \<open>visit\<close>. Sums of sizes wrap
  at 64 bits.
\<close>

section \<open>Types\<close>

datatype ImageClass = ImageRequired | ImageBuilt | ImageOther

record InventoryImage =
  ii_Repository :: string
  ii_NormalizedRepository :: string
  ii_Tag :: string
  ii_ID :: string
  ii_Digests :: "string list"
  ii_Size :: int
  ii_Created :: timestamp
  ii_LastTagTime :: timestamp
  ii_InUse :: bool

record ClassifiedImage = InventoryImage +
  ci_Class :: ImageClass
  ci_Reason :: string
  ci_Keep :: int
  ci_Deployed :: bool
  ci_DeployedFallback :: bool
  ci_WithinKeep :: bool
  ci_Prunable :: bool
  ci_Refusal :: string

definition Ref :: "'a InventoryImage_scheme \<Rightarrow> string" where
  "Ref i = (if ii_Tag i = [] then ii_ID i else ii_Repository i @ '':'' @ ii_Tag i)"

definition NormalizedRef :: "'a InventoryImage_scheme \<Rightarrow> string" where
  "NormalizedRef i = (if ii_Tag i = [] then ii_ID i else ii_NormalizedRepository i @ '':'' @ ii_Tag i)"

definition Dangling :: "'a InventoryImage_scheme \<Rightarrow> bool" where
  "Dangling i \<longleftrightarrow> ii_Tag i = []"

record ImageSource =
  is_Repo :: string
  is_Ref :: string

definition source_string :: "ImageSource \<Rightarrow> string" where
  "source_string s = (if is_Ref s = [] then is_Repo s else is_Repo s @ '' '' @ is_Ref s)"

record RequiredImage =
  rq_Ref :: string
  rq_Sources :: "ImageSource list"

record BuiltPolicy =
  bp_Keep :: int
  bp_Sources :: "ImageSource list"
  bp_Deployments :: "string list"

record ImageFacts =
  if_Required :: "(string \<times> RequiredImage) list"
  if_Built :: "(string \<times> BuiltPolicy) list"
  if_Incomplete :: bool

definition NewImageFacts :: ImageFacts where
  "NewImageFacts = \<lparr>if_Required = [], if_Built = [], if_Incomplete = False\<rparr>"

section \<open>Classification\<close>

definition requiredByReference :: "'a InventoryImage_scheme \<Rightarrow> (string \<times> RequiredImage) list \<Rightarrow> bool" where
  "requiredByReference img required \<longleftrightarrow> map_of required (NormalizedRef img) \<noteq> None"

definition requiredByDigest :: "'a InventoryImage_scheme \<Rightarrow> (string \<times> RequiredImage) list \<Rightarrow> bool" where
  "requiredByDigest img required \<longleftrightarrow> list_ex (\<lambda>digest. map_of required digest \<noteq> None) (ii_Digests img)"

definition requiredSources ::
  "'a InventoryImage_scheme \<Rightarrow> (string \<times> RequiredImage) list \<Rightarrow> ImageSource list" where
  "requiredSources img required =
     (case map_of required (NormalizedRef img) of
        Some req \<Rightarrow> rq_Sources req
      | None \<Rightarrow> concat (map (\<lambda>digest. case map_of required digest of
                   Some req \<Rightarrow> rq_Sources req | None \<Rightarrow> []) (ii_Digests img)))"

definition sourcesText :: "ImageSource list \<Rightarrow> string" where
  "sourcesText sources =
     (if sources = [] then ''a pipeline'' else join_with '', '' (map source_string sources))"

definition unclassified :: "InventoryImage \<Rightarrow> ClassifiedImage" where
  "unclassified img =
     InventoryImage.extend img (ClassifiedImage.fields ImageOther [] 0 False False False False [])"

definition classify_image :: "ImageFacts \<Rightarrow> InventoryImage \<Rightarrow> ClassifiedImage" where
  "classify_image facts img =
     (let classified = unclassified img in
      if Dangling img
      then classified\<lparr>ci_Class := ImageOther, ci_Reason := ''dangling image''\<rparr>
      else if requiredByReference img (if_Required facts) \<or> requiredByDigest img (if_Required facts)
      then classified\<lparr>ci_Class := ImageRequired,
             ci_Reason := ''required by '' @ sourcesText (requiredSources img (if_Required facts))\<rparr>
      else case map_of (if_Built facts) (ii_NormalizedRepository img) of
        None \<Rightarrow> classified\<lparr>ci_Class := ImageOther, ci_Reason := ''not declared in any pipeline'' @ [CHR 0x27] @ ''s images''\<rparr>
      | Some built \<Rightarrow>
          classified\<lparr>ci_Class := ImageBuilt, ci_Keep := bp_Keep built,
            ci_Reason := ''built by '' @ sourcesText (bp_Sources built),
            ci_Refusal := (if if_Incomplete facts
              then ''image facts are incomplete; no built image is pruned'' else [])\<rparr>)"

text \<open>
  \<open>sort.SliceStable\<close> with \<open>less\<close> decided by creation time, tag time, tag and identifier, each
  descending: a stable sort by the key, from the back.
\<close>

definition newest_key :: "'a InventoryImage_scheme \<Rightarrow> timestamp \<times> timestamp \<times> string \<times> string" where
  "newest_key i = (ii_Created i, ii_LastTagTime i, ii_Tag i, ii_ID i)"

definition newest_first :: "ClassifiedImage list \<Rightarrow> nat list \<Rightarrow> nat list" where
  "newest_first out indices = rev (sort_key (\<lambda>i. newest_key (out ! i)) (rev indices))"

definition mark_keep :: "int \<Rightarrow> nat list \<Rightarrow> ClassifiedImage list \<Rightarrow> ClassifiedImage list" where
  "mark_keep keep indices out =
     fold (\<lambda>(rank, i) out. out[i := (out ! i)\<lparr>ci_WithinKeep := int rank < keep\<rparr>])
       (enumerate 0 indices) out"

definition mark_version ::
  "string \<Rightarrow> nat list \<Rightarrow> string \<Rightarrow> ClassifiedImage list \<times> bool \<Rightarrow> ClassifiedImage list \<times> bool" where
  "mark_version repository indices version st =
     (let (out, unmatched) = st;
          tag = ImageTagForVersion repository version;
          matched = list_ex (\<lambda>i. NormalizedRef (out ! i) = tag) indices
      in (fold (\<lambda>i out. if NormalizedRef (out ! i) = tag then out[i := (out ! i)\<lparr>ci_Deployed := True\<rparr>] else out)
            indices out,
          unmatched \<or> \<not> matched))"

definition mark_repository ::
  "ImageFacts \<Rightarrow> (string \<Rightarrow> nat list) \<Rightarrow> string \<Rightarrow> ClassifiedImage list \<Rightarrow> ClassifiedImage list" where
  "mark_repository facts builtByRepository repository out =
     (let indices = newest_first out (builtByRepository repository)
      in case map_of (if_Built facts) repository of
           None \<Rightarrow> out
         | Some built \<Rightarrow>
             let out = mark_keep (bp_Keep built) indices out;
                 (out, unmatched) = fold (mark_version repository indices) (bp_Deployments built) (out, False)
             in if unmatched
                then out[hd indices := (out ! hd indices)\<lparr>ci_Deployed := True, ci_DeployedFallback := True\<rparr>]
                else out)"

definition built_indices :: "ClassifiedImage list \<Rightarrow> string \<Rightarrow> nat list" where
  "built_indices out repository =
     filter (\<lambda>i. ci_Class (out ! i) = ImageBuilt \<and> ii_NormalizedRepository (out ! i) = repository)
       [0..<length out]"

definition built_repositories :: "ClassifiedImage list \<Rightarrow> string list" where
  "built_repositories out = remdups (map ii_NormalizedRepository (filter (\<lambda>c. ci_Class c = ImageBuilt) out))"

definition Classify ::
  "(string list \<Rightarrow> string list) \<Rightarrow> InventoryImage list \<Rightarrow> ImageFacts option \<Rightarrow> ClassifiedImage list" where
  "Classify visit images facts =
     (let facts = (case facts of None \<Rightarrow> NewImageFacts | Some facts \<Rightarrow> facts);
          out = map (classify_image facts) images
      in fold (mark_repository facts (built_indices out)) (visit (built_repositories out)) out)"

section \<open>Planning a prune\<close>

record PrunePlan =
  pp_Remove :: "ClassifiedImage list"
  pp_Refuse :: "ClassifiedImage list"
  pp_ReclaimableBytes :: int

definition add_int64 :: "int \<Rightarrow> int \<Rightarrow> int" where
  "add_int64 a b = (a + b + 2 ^ 63) mod 2 ^ 64 - 2 ^ 63"

definition sort_by_name :: "ClassifiedImage \<Rightarrow> string \<times> string \<times> string" where
  "sort_by_name i = (ii_NormalizedRepository i, ii_Tag i, ii_ID i)"

definition sortClassified :: "ClassifiedImage list \<Rightarrow> ClassifiedImage list" where
  "sortClassified = sort_key sort_by_name"

text \<open>The switch of \<open>PlanPrune\<close>: why an img stays, or \<^const>\<open>None\<close> when it is removed.\<close>

definition prune_refusal :: "ClassifiedImage \<Rightarrow> string option" where
  "prune_refusal img =
     (if ci_Class img = ImageRequired then Some (ci_Reason img)
      else if ii_InUse img then Some ''in use by a container''
      else if ci_Class img = ImageOther \<and> Dangling img then Some ''dangling image; remove it explicitly''
      else if ci_Class img = ImageOther then Some (ci_Reason img)
      else if ci_Refusal img \<noteq> [] then Some (ci_Refusal img)
      else if ci_Deployed img \<and> ci_DeployedFallback img
      then Some ''newest tag kept because the deployed version could not be matched to a tag''
      else if ci_Deployed img then Some ''currently deployed''
      else if ci_WithinKeep img
      then Some (''within the newest '' @ format_int (ci_Keep img) @ '' tags'')
      else None)"

definition plan_image :: "ClassifiedImage \<Rightarrow> PrunePlan \<Rightarrow> PrunePlan" where
  "plan_image img plan =
     (case prune_refusal img of
        Some refusal \<Rightarrow> plan\<lparr>pp_Refuse := pp_Refuse plan @ [img\<lparr>ci_Prunable := False, ci_Refusal := refusal\<rparr>]\<rparr>
      | None \<Rightarrow> plan\<lparr>pp_Remove := pp_Remove plan @ [img\<lparr>ci_Prunable := True\<rparr>],
                   pp_ReclaimableBytes := add_int64 (pp_ReclaimableBytes plan) (ii_Size img)\<rparr>)"

definition PlanPrune :: "ClassifiedImage list \<Rightarrow> PrunePlan" where
  "PlanPrune images =
     (let plan = fold plan_image images \<lparr>pp_Remove = [], pp_Refuse = [], pp_ReclaimableBytes = 0\<rparr>
      in plan\<lparr>pp_Remove := sortClassified (pp_Remove plan), pp_Refuse := sortClassified (pp_Refuse plan)\<rparr>)"

definition PlanRemoveOne :: "ClassifiedImage \<Rightarrow> bool \<times> string" where
  "PlanRemoveOne img =
     (if ci_Class img = ImageRequired then (False, ci_Reason img)
      else if ii_InUse img then (False, ''in use by a container'') else (True, []))"

definition ImageKey :: "ClassifiedImage \<Rightarrow> string" where
  "ImageKey img = NormalizedRef img @ [CHR 0x00] @ ii_ID img"

definition applyPlan :: "ClassifiedImage list \<Rightarrow> PrunePlan \<Rightarrow> ClassifiedImage list" where
  "applyPlan images plan =
     map (\<lambda>img. img\<lparr>ci_Prunable := ImageKey img \<in> ImageKey ` set (pp_Remove plan),
            ci_Refusal := (case map_of (rev (map (\<lambda>r. (ImageKey r, ci_Refusal r)) (pp_Refuse plan))) (ImageKey img) of
              None \<Rightarrow> [] | Some refusal \<Rightarrow> refusal)\<rparr>) images"

section \<open>What the marks of a repository are\<close>

definition position :: "'a list \<Rightarrow> 'a \<Rightarrow> nat" where
  "position xs x = length (takeWhile (\<lambda>y. y \<noteq> x) xs)"

lemma position_Cons: "position (y # xs) x = (if y = x then 0 else Suc (position xs x))"
  by (simp add: position_def)

lemma fold_marks_length [simp]:
  "length (fold (\<lambda>(rank, i) out. out[i := f rank (out ! i)]) ris out) = length out"
  by (induction ris arbitrary: out) auto

lemma fold_enumerate_nth:
  assumes "distinct indices" "set indices \<subseteq> {..<length out}" "i < length out"
  shows "fold (\<lambda>(rank, i) out. out[i := f rank (out ! i)]) (enumerate n indices) out ! i =
    (if i \<in> set indices then f (n + position indices i) (out ! i) else out ! i)"
  using assms
proof (induction indices arbitrary: n out)
  case (Cons j indices)
  have "fold (\<lambda>(rank, i) out. out[i := f rank (out ! i)]) (enumerate (Suc n) indices) (out[j := f n (out ! j)]) ! i =
    (if i \<in> set indices then f (Suc n + position indices i) (out[j := f n (out ! j)] ! i) else out[j := f n (out ! j)] ! i)"
    by (rule Cons.IH) (use Cons.prems in auto)
  then show ?case using Cons.prems by (auto simp: position_Cons nth_list_update)
qed simp

lemma mark_keep_length [simp]: "length (mark_keep keep indices out) = length out"
  unfolding mark_keep_def by (rule fold_marks_length [of "\<lambda>rank c. c\<lparr>ci_WithinKeep := int rank < keep\<rparr>"])

lemma mark_keep_nth:
  assumes "distinct indices" "set indices \<subseteq> {..<length out}" "i < length out"
  shows "mark_keep keep indices out ! i =
      (if i \<in> set indices then (out ! i)\<lparr>ci_WithinKeep := int (position indices i) < keep\<rparr> else out ! i)"
  using fold_enumerate_nth [OF assms, of "\<lambda>rank c. c\<lparr>ci_WithinKeep := int rank < keep\<rparr>" 0]
  by (simp add: mark_keep_def)

lemma NormalizedRef_update [simp]:
  "NormalizedRef (c\<lparr>ci_WithinKeep := b\<rparr>) = NormalizedRef c" "NormalizedRef (c\<lparr>ci_Deployed := b\<rparr>) = NormalizedRef c"
  "NormalizedRef (c\<lparr>ci_DeployedFallback := b\<rparr>) = NormalizedRef c"
  by (simp_all add: NormalizedRef_def)

lemma fold_if_update_length [simp]:
  "length (fold (\<lambda>i out. if P (out ! i) then out[i := f (out ! i)] else out) indices out) = length out"
proof (induction indices arbitrary: out)
  case (Cons j indices)
  then show ?case using Cons.IH [of "if P (out ! j) then out[j := f (out ! j)] else out"] by auto
qed simp

lemma fold_if_update_nth:
  assumes "set indices \<subseteq> {..<length out}" "i < length out" and "\<And>c. P (f c) = P c" "\<And>c. f (f c) = f c"
  shows "fold (\<lambda>i out. if P (out ! i) then out[i := f (out ! i)] else out) indices out ! i =
      (if i \<in> set indices \<and> P (out ! i) then f (out ! i) else out ! i)"
  using assms(1,2)
proof (induction indices arbitrary: out)
  case (Cons j indices)
  let ?out = "if P (out ! j) then out[j := f (out ! j)] else out"
  have "fold (\<lambda>i out. if P (out ! i) then out[i := f (out ! i)] else out) indices ?out ! i =
      (if i \<in> set indices \<and> P (?out ! i) then f (?out ! i) else ?out ! i)"
    by (rule Cons.IH) (use Cons.prems in auto)
  then show ?case using Cons.prems assms(3,4) by (auto simp: nth_list_update)
qed simp

lemma mark_versions_nth:
  assumes "set indices \<subseteq> {..<length out}"
  shows "(\<forall>i<length out. fst (fold (mark_version repository indices) versions (out, u)) ! i =
      (if i \<in> set indices \<and> (\<exists>v\<in>set versions. NormalizedRef (out ! i) = ImageTagForVersion repository v)
       then (out ! i)\<lparr>ci_Deployed := True\<rparr> else out ! i)) \<and>
    length (fst (fold (mark_version repository indices) versions (out, u))) = length out \<and>
    (snd (fold (mark_version repository indices) versions (out, u)) \<longleftrightarrow>
      u \<or> (\<exists>v\<in>set versions. \<forall>j\<in>set indices. NormalizedRef (out ! j) \<noteq> ImageTagForVersion repository v))"
  using assms
proof (induction versions arbitrary: out u)
  case (Cons v versions)
  define tag where "tag = ImageTagForVersion repository v"
  define out' where "out' = fold (\<lambda>i out. if NormalizedRef (out ! i) = tag then out[i := (out ! i)\<lparr>ci_Deployed := True\<rparr>] else out)
            indices out"
  define u' where "u' = (u \<or> \<not> list_ex (\<lambda>i. NormalizedRef (out ! i) = tag) indices)"
  have step: "mark_version repository indices v (out, u) = (out', u')"
    by (simp add: mark_version_def Let_def out'_def u'_def tag_def)
  have len: "length out' = length out"
    unfolding out'_def by (rule fold_if_update_length)
  have nth: "out' ! i = (if i \<in> set indices \<and> NormalizedRef (out ! i) = tag then (out ! i)\<lparr>ci_Deployed := True\<rparr> else out ! i)"
    if "i < length out" for i
    unfolding out'_def by (rule fold_if_update_nth) (use Cons.prems that in auto)
  have ref: "NormalizedRef (out' ! i) = NormalizedRef (out ! i)" if "i < length out" for i
    using nth [OF that] by simp
  have sub: "set indices \<subseteq> {..<length out'}" using Cons.prems len by simp
  note ih = Cons.IH [OF sub, of u', unfolded len]
  have same: "(\<forall>j\<in>set indices. NormalizedRef (out' ! j) \<noteq> x) \<longleftrightarrow> (\<forall>j\<in>set indices. NormalizedRef (out ! j) \<noteq> x)" for x
    using ref Cons.prems by (metis lessThan_iff subsetD)
  show ?case
  proof (intro conjI allI impI)
    fix i assume i: "i < length out"
    have "fst (fold (mark_version repository indices) versions (out', u')) ! i =
      (if i \<in> set indices \<and> (\<exists>v\<in>set versions. NormalizedRef (out ! i) = ImageTagForVersion repository v)
       then (out' ! i)\<lparr>ci_Deployed := True\<rparr> else out' ! i)" using ih i ref [OF i] by simp
    then show "fst (fold (mark_version repository indices) (v # versions) (out, u)) ! i =
      (if i \<in> set indices \<and> (\<exists>v\<in>set (v # versions). NormalizedRef (out ! i) = ImageTagForVersion repository v)
       then (out ! i)\<lparr>ci_Deployed := True\<rparr> else out ! i)"
      using nth [OF i] by (auto simp: step tag_def)
  next
    show "length (fst (fold (mark_version repository indices) (v # versions) (out, u))) = length out"
      using ih by (simp add: step)
  next
    have "snd (fold (mark_version repository indices) versions (out', u')) =
      (u' \<or> (\<exists>v\<in>set versions. \<forall>j\<in>set indices. NormalizedRef (out ! j) \<noteq> ImageTagForVersion repository v))"
      using ih same by simp
    then show "snd (fold (mark_version repository indices) (v # versions) (out, u)) =
      (u \<or> (\<exists>v\<in>set (v # versions). \<forall>j\<in>set indices. NormalizedRef (out ! j) \<noteq> ImageTagForVersion repository v))"
      by (auto simp: step u'_def list_ex_iff tag_def)
  qed
qed simp

section \<open>What the classification is\<close>

text \<open>The marks of an image, from the classified images before any mark.\<close>

definition unmatched_version :: "ClassifiedImage list \<Rightarrow> string \<Rightarrow> BuiltPolicy \<Rightarrow> bool" where
  "unmatched_version base repository built \<longleftrightarrow>
     (\<exists>v\<in>set (bp_Deployments built). \<forall>j\<in>set (built_indices base repository).
        NormalizedRef (base ! j) \<noteq> ImageTagForVersion repository v)"

definition marked :: "ImageFacts \<Rightarrow> ClassifiedImage list \<Rightarrow> nat \<Rightarrow> ClassifiedImage" where
  "marked facts base i =
     (let c = base ! i; repository = ii_NormalizedRepository c;
          indices = newest_first base (built_indices base repository)
      in if ci_Class c \<noteq> ImageBuilt then c
         else case map_of (if_Built facts) repository of
           None \<Rightarrow> c
         | Some built \<Rightarrow>
             let fallback = unmatched_version base repository built \<and> i = hd indices
             in c\<lparr>ci_WithinKeep := int (position indices i) < bp_Keep built,
                  ci_Deployed := ci_Deployed c \<or> fallback \<or>
                    (\<exists>v\<in>set (bp_Deployments built). NormalizedRef c = ImageTagForVersion repository v),
                  ci_DeployedFallback := ci_DeployedFallback c \<or> fallback\<rparr>)"

lemma set_built_indices:
  "i \<in> set (built_indices out repository) \<longleftrightarrow>
     i < length out \<and> ci_Class (out ! i) = ImageBuilt \<and> ii_NormalizedRepository (out ! i) = repository"
  by (auto simp: built_indices_def)

lemma distinct_built_indices [simp]: "distinct (built_indices out repository)"
  by (simp add: built_indices_def)

lemma newest_first_simps [simp]:
  "set (newest_first out indices) = set indices" "distinct (newest_first out indices) = distinct indices"
  by (simp_all add: newest_first_def)

lemma insort_key_cong:
  "(\<And>y. y \<in> insert x (set ys) \<Longrightarrow> f y = g y) \<Longrightarrow> insort_key f x ys = insort_key g x ys"
  by (induction ys) auto

lemma sort_key_cong: "(\<And>x. x \<in> set xs \<Longrightarrow> f x = g x) \<Longrightarrow> sort_key f xs = sort_key g xs"
proof (induction xs)
  case (Cons x xs)
  then have "sort_key f xs = sort_key g xs" by simp
  then show ?case using Cons.prems insort_key_cong [of x "sort_key g xs" f g] by simp
qed simp

lemma newest_first_cong:
  assumes "\<And>i. i \<in> set indices \<Longrightarrow> newest_key (out' ! i) = newest_key (out ! i)"
  shows "newest_first out' indices = newest_first out indices"
  unfolding newest_first_def using assms by (intro arg_cong [where f = rev] sort_key_cong) auto

lemma mark_repository_nth:
  assumes len: "length out = length base"
    and same: "\<And>i. i \<in> set (built_indices base repository) \<Longrightarrow> out ! i = base ! i"
    and ne: "built_indices base repository \<noteq> []"
  shows "length (mark_repository facts (built_indices base) repository out) = length base"
    and "i < length base \<Longrightarrow> mark_repository facts (built_indices base) repository out ! i =
      (if i \<in> set (built_indices base repository) then marked facts base i else out ! i)"
proof -
  let ?idx = "newest_first base (built_indices base repository)"
  have idx: "newest_first out (built_indices base repository) = ?idx"
    using same by (intro newest_first_cong) auto
  have sub: "set ?idx \<subseteq> {..<length base}" by (auto simp: set_built_indices)
  have "length (mark_repository facts (built_indices base) repository out) = length base \<and>
      (i < length base \<longrightarrow> mark_repository facts (built_indices base) repository out ! i =
        (if i \<in> set (built_indices base repository) then marked facts base i else out ! i))"
    proof (cases "map_of (if_Built facts) repository")
      case None
      then show ?thesis using len same [of i] by (auto simp: mark_repository_def marked_def Let_def set_built_indices)
    next
      case (Some built)
      define out1 where "out1 = mark_keep (bp_Keep built) ?idx out"
      obtain out2 um where v: "fold (mark_version repository ?idx) (bp_Deployments built) (out1, False) = (out2, um)"
        by (cases "fold (mark_version repository ?idx) (bp_Deployments built) (out1, False)")
      have len1: "length out1 = length base" using len by (simp add: out1_def)
      have out1: "out1 ! j = (if j \<in> set ?idx then (out ! j)\<lparr>ci_WithinKeep := int (position ?idx j) < bp_Keep built\<rparr> else out ! j)"
        if "j < length base" for j
        unfolding out1_def using mark_keep_nth [of ?idx out j] sub len that by simp
      note mv = mark_versions_nth [of ?idx out1 repository "bp_Deployments built" False, unfolded v fst_conv snd_conv len1, OF sub]
      have um: "um = unmatched_version base repository built"
        using mv out1 same by (auto simp: unmatched_version_def set_built_indices)
      have final: "mark_repository facts (built_indices base) repository out =
          (if um then out2[hd ?idx := (out2 ! hd ?idx)\<lparr>ci_Deployed := True, ci_DeployedFallback := True\<rparr>] else out2)"
        using v by (simp add: mark_repository_def idx Some Let_def out1_def)
      have "mark_repository facts (built_indices base) repository out ! i =
        (if i \<in> set (built_indices base repository) then marked facts base i else out ! i)" if i: "i < length base"
      proof (cases "i \<in> set ?idx")
        case True
        have c: "ci_Class (base ! i) = ImageBuilt" "ii_NormalizedRepository (base ! i) = repository" "out ! i = base ! i"
          using True same [of i] by (auto simp: set_built_indices)
        have o2: "out2 ! i = (if \<exists>v\<in>set (bp_Deployments built). NormalizedRef (base ! i) = ImageTagForVersion repository v
            then (base ! i)\<lparr>ci_WithinKeep := int (position ?idx i) < bp_Keep built, ci_Deployed := True\<rparr>
            else (base ! i)\<lparr>ci_WithinKeep := int (position ?idx i) < bp_Keep built\<rparr>)"
          using mv out1 [OF i] i True c by simp
        have "length out2 = length base" using mv by simp
        then show ?thesis
          using True i o2 c unfolding final um marked_def Let_def
          by (cases "i = hd ?idx") (auto simp: Some intro!: ClassifiedImage.equality)
      next
        case False
        have "set ?idx \<noteq> {}" using ne by simp
        then have "hd ?idx \<noteq> i" using False by (metis hd_in_set list.set(1))
        moreover have "out2 ! i = out ! i" using mv out1 [OF i] i False by simp
        ultimately show ?thesis using False unfolding final by simp
      qed
      then show ?thesis using mv by (simp add: final)
    qed
  then show "length (mark_repository facts (built_indices base) repository out) = length base"
    "i < length base \<Longrightarrow> mark_repository facts (built_indices base) repository out ! i =
      (if i \<in> set (built_indices base repository) then marked facts base i else out ! i)" by blast+
qed

lemma mark_repositories_nth:
  assumes "distinct ks" "length out = length base"
    and "\<And>k. k \<in> set ks \<Longrightarrow> built_indices base k \<noteq> []"
    and "\<And>i k. k \<in> set ks \<Longrightarrow> i \<in> set (built_indices base k) \<Longrightarrow> out ! i = base ! i"
  shows "length (fold (mark_repository facts (built_indices base)) ks out) = length base \<and>
    (\<forall>i<length base. fold (mark_repository facts (built_indices base)) ks out ! i =
      (if \<exists>k\<in>set ks. i \<in> set (built_indices base k) then marked facts base i else out ! i))"
  using assms
proof (induction ks arbitrary: out)
  case (Cons k ks)
  let ?out = "mark_repository facts (built_indices base) k out"
  note m = mark_repository_nth [where facts = facts, OF Cons.prems(2) Cons.prems(4) [of k] Cons.prems(3) [of k], simplified]
  have other: "i \<notin> set (built_indices base k)" if "j \<in> set ks" "i \<in> set (built_indices base j)" for i j
    using that Cons.prems(1) by (auto simp: set_built_indices)
  have "length (fold (mark_repository facts (built_indices base)) ks ?out) = length base \<and>
    (\<forall>i<length base. fold (mark_repository facts (built_indices base)) ks ?out ! i =
      (if \<exists>k\<in>set ks. i \<in> set (built_indices base k) then marked facts base i else ?out ! i))"
  proof (rule Cons.IH)
    fix i j assume "j \<in> set ks" "i \<in> set (built_indices base j)"
    then show "?out ! i = base ! i"
      using other m(2) [of i] Cons.prems(4) [of j i] by (auto simp: set_built_indices)
  qed (use Cons.prems m(1) in auto)
  then show ?case using m(2) by auto
qed simp

abbreviation permutes_keys :: "(string list \<Rightarrow> string list) \<Rightarrow> bool" where
  "permutes_keys visit \<equiv> \<forall>ks. mset (visit ks) = mset ks"

lemma set_built_repositories:
  "k \<in> set (built_repositories out) \<longleftrightarrow> (\<exists>i. i \<in> set (built_indices out k))"
  by (auto simp: built_repositories_def built_indices_def in_set_conv_nth)

lemma Classify_nth:
  fixes facts images
  defines "base \<equiv> map (classify_image facts) images"
  assumes visit: "permutes_keys visit"
  shows "length (Classify visit images (Some facts)) = length images"
    and "i < length images \<Longrightarrow> Classify visit images (Some facts) ! i = marked facts base i"
proof -
  have "mset (visit (built_repositories base)) = mset (built_repositories base)" using visit by blast
  then have ks: "set (visit (built_repositories base)) = set (built_repositories base)"
    "distinct (visit (built_repositories base))"
    by (auto simp: built_repositories_def dest: mset_eq_setD mset_eq_imp_distinct_iff)
  have c: "Classify visit images (Some facts) =
      fold (mark_repository facts (built_indices base)) (visit (built_repositories base)) base"
    by (simp add: Classify_def Let_def base_def)
  have f: "length (Classify visit images (Some facts)) = length base \<and>
    (\<forall>i<length base. Classify visit images (Some facts) ! i =
      (if \<exists>k\<in>set (visit (built_repositories base)). i \<in> set (built_indices base k) then marked facts base i else base ! i))"
    unfolding c by (rule mark_repositories_nth) (use ks in \<open>auto simp: set_built_repositories\<close>)
  then show "length (Classify visit images (Some facts)) = length images" by (simp add: base_def)
  show "Classify visit images (Some facts) ! i = marked facts base i" if i: "i < length images"
  proof (cases "ci_Class (base ! i) = ImageBuilt")
    case True
    then have "\<exists>k\<in>set (visit (built_repositories base)). i \<in> set (built_indices base k)"
      using i ks(1) by (auto simp: set_built_repositories set_built_indices base_def)
    then show ?thesis using f i by (simp add: base_def)
  next
    case False
    then have "marked facts base i = base ! i" by (simp add: marked_def)
    then show ?thesis using f i by (simp add: base_def)
  qed
qed

text \<open>
  The order in which Go visits the map of built repositories does not influence the
  classification.
\<close>

theorem Classify_order_independent:
  assumes "permutes_keys visit" "permutes_keys visit'"
  shows "Classify visit images facts = Classify visit' images facts"
proof -
  have "Classify visit images (Some f) = Classify visit' images (Some f)" for f
    using Classify_nth [where images = images and facts = f, OF assms(1)] Classify_nth [where images = images and facts = f, OF assms(2)]
    by (intro nth_equalityI) auto
  then show ?thesis by (cases facts) (auto simp: Classify_def)
qed

section \<open>What a prune removes\<close>

lemma fold_plan_image:
  "fold plan_image images plan =
     \<lparr>pp_Remove = pp_Remove plan @ map (\<lambda>c. c\<lparr>ci_Prunable := True\<rparr>) (filter (\<lambda>c. prune_refusal c = None) images),
      pp_Refuse = pp_Refuse plan @ map (\<lambda>c. c\<lparr>ci_Prunable := False, ci_Refusal := the (prune_refusal c)\<rparr>)
        (filter (\<lambda>c. prune_refusal c \<noteq> None) images),
      pp_ReclaimableBytes = fold (\<lambda>c b. add_int64 b (ii_Size c)) (filter (\<lambda>c. prune_refusal c = None) images)
        (pp_ReclaimableBytes plan)\<rparr>"
  by (induction images arbitrary: plan) (auto simp: plan_image_def split: option.splits)

lemma PlanPrune_lists:
  "pp_Remove (PlanPrune images) =
     sortClassified (map (\<lambda>c. c\<lparr>ci_Prunable := True\<rparr>) (filter (\<lambda>c. prune_refusal c = None) images))"
  "pp_Refuse (PlanPrune images) =
     sortClassified (map (\<lambda>c. c\<lparr>ci_Prunable := False, ci_Refusal := the (prune_refusal c)\<rparr>)
       (filter (\<lambda>c. prune_refusal c \<noteq> None) images))"
  by (simp_all add: PlanPrune_def fold_plan_image)

lemma sortClassified_simps [simp]:
  "set (sortClassified cs) = set cs" "mset (sortClassified cs) = mset cs" "sorted (map sort_by_name (sortClassified cs))"
  by (simp_all add: sortClassified_def)

lemma classify_image_built:
  assumes "ci_Class (classify_image facts img) = ImageBuilt"
  obtains built where "map_of (if_Built facts) (ii_NormalizedRepository img) = Some built" "ii_Tag img \<noteq> []"
    "map_of (if_Required facts) (NormalizedRef img) = None" "\<forall>d\<in>set (ii_Digests img). map_of (if_Required facts) d = None"
    "ci_Refusal (classify_image facts img) = [] \<longrightarrow> \<not> if_Incomplete facts"
  using assms
  by (auto simp: classify_image_def Let_def Dangling_def requiredByReference_def requiredByDigest_def list_ex_iff
      split: if_splits option.splits)

lemma unclassified_simps [simp]:
  "ii_Repository (unclassified img) = ii_Repository img" "ii_NormalizedRepository (unclassified img) = ii_NormalizedRepository img"
  "ii_Tag (unclassified img) = ii_Tag img" "ii_ID (unclassified img) = ii_ID img"
  "ii_Digests (unclassified img) = ii_Digests img" "ii_Size (unclassified img) = ii_Size img"
  "ii_Created (unclassified img) = ii_Created img" "ii_LastTagTime (unclassified img) = ii_LastTagTime img"
  "ii_InUse (unclassified img) = ii_InUse img" "\<not> ci_Deployed (unclassified img)" "\<not> ci_DeployedFallback (unclassified img)"
  "InventoryImage.truncate (unclassified img) = img"
  by (simp_all add: unclassified_def InventoryImage.defs ClassifiedImage.defs)

lemma classify_image_fields [simp]:
  "ii_NormalizedRepository (classify_image facts img) = ii_NormalizedRepository img"
  "ii_InUse (classify_image facts img) = ii_InUse img" "ii_Tag (classify_image facts img) = ii_Tag img"
  "NormalizedRef (classify_image facts img) = NormalizedRef img" "newest_key (classify_image facts img) = newest_key img"
  "\<not> ci_Deployed (classify_image facts img)" "\<not> ci_DeployedFallback (classify_image facts img)"
  "InventoryImage.truncate (classify_image facts img) = img"
  by (simp_all add: classify_image_def Let_def NormalizedRef_def newest_key_def InventoryImage.truncate_def
      split: option.splits)

lemma marked_fields [simp]:
  "ci_Class (marked facts base i) = ci_Class (base ! i)" "ii_InUse (marked facts base i) = ii_InUse (base ! i)"
  "ci_Refusal (marked facts base i) = ci_Refusal (base ! i)" "ci_Reason (marked facts base i) = ci_Reason (base ! i)"
  "InventoryImage.truncate (marked facts base i) = InventoryImage.truncate (base ! i)"
  by (simp_all add: marked_def Let_def InventoryImage.truncate_def split: option.splits)

lemma truncate_update [simp]:
  "InventoryImage.truncate (c\<lparr>ci_Prunable := b\<rparr>) = InventoryImage.truncate c"
  "InventoryImage.truncate (c\<lparr>ci_Refusal := r\<rparr>) = InventoryImage.truncate c"
  by (simp_all add: InventoryImage.truncate_def)

lemma position_less:
  assumes "x \<in> set xs" shows "position xs x < length xs" and "xs ! position xs x = x"
  using assms by (induction xs) (auto simp: position_Cons)

lemma newer_before:
  assumes "distinct idx" "i \<in> set (newest_first base idx)"
  shows "int (position (newest_first base idx) i) \<le>
    int (card {j \<in> set idx. j \<noteq> i \<and> newest_key (base ! i) \<le> newest_key (base ! j)})"
proof -
  let ?l = "newest_first base idx" and ?p = "position (newest_first base idx) i"
  have d: "distinct ?l" using assms(1) by simp
  have p: "?p < length ?l" "?l ! ?p = i" using position_less [OF assms(2)] by simp_all
  have s: "sorted_wrt (\<lambda>i j. newest_key (base ! j) \<le> newest_key (base ! i)) ?l"
    unfolding newest_first_def sorted_wrt_rev using sorted_sort_key [of "\<lambda>i. newest_key (base ! i)" "rev idx"]
    by (simp add: sorted_map)
  have "set (take ?p ?l) \<subseteq> {j \<in> set idx. j \<noteq> i \<and> newest_key (base ! i) \<le> newest_key (base ! j)}"
  proof
    fix j assume "j \<in> set (take ?p ?l)"
    then obtain q where q: "q < ?p" "j = ?l ! q" using p(1) by (auto simp: in_set_conv_nth)
    have "j \<in> set ?l" unfolding q(2) using q(1) p(1) by (intro nth_mem) simp
    moreover have "j \<noteq> i" using q p d by (metis less_irrefl_nat less_trans nth_eq_iff_index_eq)
    moreover have "newest_key (base ! i) \<le> newest_key (base ! j)"
      using sorted_wrt_nth_less [OF s q(1) p(1)] q(2) p(2) by simp
    ultimately show "j \<in> {j \<in> set idx. j \<noteq> i \<and> newest_key (base ! i) \<le> newest_key (base ! j)}" by simp
  qed
  then have "card (set (take ?p ?l)) \<le> card {j \<in> set idx. j \<noteq> i \<and> newest_key (base ! i) \<le> newest_key (base ! j)}"
    by (intro card_mono) auto
  moreover have "card (set (take ?p ?l)) = ?p" using d p(1) by (simp add: distinct_card)
  ultimately show ?thesis by simp
qed

text \<open>
  C19: whatever a prune removes is a tagged image that a pipeline declares it builds, that no
  pipeline requires by name or digest, that no container uses and that no recorded deployment
  names; and enough newer images of the same repository stay: at least the declared number, and
  at least one when some deployed version could not be matched to a tag. With incomplete facts
  nothing is removed.
\<close>

theorem PlanPrune_safe:
  assumes "permutes_keys visit" "c \<in> set (pp_Remove (PlanPrune (Classify visit images (Some facts))))"
  shows "\<exists>i<length images. \<exists>built. InventoryImage.truncate c = images ! i \<and>
    map_of (if_Built facts) (ii_NormalizedRepository (images ! i)) = Some built \<and> \<not> if_Incomplete facts \<and>
    ii_Tag (images ! i) \<noteq> [] \<and> \<not> ii_InUse (images ! i) \<and>
    map_of (if_Required facts) (NormalizedRef (images ! i)) = None \<and>
    (\<forall>d\<in>set (ii_Digests (images ! i)). map_of (if_Required facts) d = None) \<and>
    (\<forall>v\<in>set (bp_Deployments built).
       NormalizedRef (images ! i) \<noteq> ImageTagForVersion (ii_NormalizedRepository (images ! i)) v) \<and>
    (let newer = {j. j < length images \<and> j \<noteq> i \<and> ci_Class (classify_image facts (images ! j)) = ImageBuilt \<and>
           ii_NormalizedRepository (images ! j) = ii_NormalizedRepository (images ! i) \<and>
           newest_key (images ! i) \<le> newest_key (images ! j)}
     in bp_Keep built \<le> int (card newer) \<and>
        ((\<exists>v\<in>set (bp_Deployments built). \<forall>j<length images.
            ci_Class (classify_image facts (images ! j)) = ImageBuilt \<longrightarrow>
            ii_NormalizedRepository (images ! j) = ii_NormalizedRepository (images ! i) \<longrightarrow>
            NormalizedRef (images ! j) \<noteq> ImageTagForVersion (ii_NormalizedRepository (images ! i)) v) \<longrightarrow> newer \<noteq> {}))"
proof -
  define base where "base = map (classify_image facts) images"
  let ?out = "Classify visit images (Some facts)"
  obtain c0 where c0: "c0 \<in> set ?out" "prune_refusal c0 = None" "c = c0\<lparr>ci_Prunable := True\<rparr>"
    using assms(2) by (auto simp: PlanPrune_lists)
  obtain i where i: "i < length images" "c0 = marked facts base i"
    using c0(1) Classify_nth [where images = images and facts = facts, OF assms(1)] by (auto simp: in_set_conv_nth base_def)
  have b: "base ! i = classify_image facts (images ! i)" using i(1) by (simp add: base_def)
  let ?repo = "ii_NormalizedRepository (images ! i)"
  let ?idx = "built_indices base ?repo"
  let ?sorted = "newest_first base ?idx"
  have cls: "ci_Class c0 = ImageBuilt" "\<not> ii_InUse c0" "ci_Refusal c0 = []" "\<not> ci_Deployed c0" "\<not> ci_WithinKeep c0"
    using c0(2) by (cases "ci_Class c0"; auto simp: prune_refusal_def split: if_splits)+
  obtain built where built: "map_of (if_Built facts) ?repo = Some built" "ii_Tag (images ! i) \<noteq> []"
    "map_of (if_Required facts) (NormalizedRef (images ! i)) = None"
    "\<forall>d\<in>set (ii_Digests (images ! i)). map_of (if_Required facts) d = None" "\<not> if_Incomplete facts"
    using cls(1,3) classify_image_built [of facts "images ! i"] by (auto simp: i(2) b)
  have m: "c0 = (base ! i)\<lparr>ci_WithinKeep := int (position ?sorted i) < bp_Keep built,
      ci_Deployed := ci_Deployed (base ! i) \<or> (unmatched_version base ?repo built \<and> i = hd ?sorted) \<or>
        (\<exists>v\<in>set (bp_Deployments built). NormalizedRef (base ! i) = ImageTagForVersion ?repo v),
      ci_DeployedFallback := ci_DeployedFallback (base ! i) \<or> (unmatched_version base ?repo built \<and> i = hd ?sorted)\<rparr>"
  proof -
    have "ci_Class (base ! i) = ImageBuilt" using cls(1) by (simp add: i(2))
    then show ?thesis using built(1) by (simp add: i(2) marked_def b Let_def)
  qed
  have mine: "i \<in> set ?idx" using i cls(1) by (simp add: set_built_indices b base_def)
  have idx: "j \<in> set ?idx \<longleftrightarrow> j < length images \<and> ci_Class (classify_image facts (images ! j)) = ImageBuilt \<and>
      ii_NormalizedRepository (images ! j) = ?repo" for j
    by (auto simp: set_built_indices base_def)
  define newer where "newer = {j. j < length images \<and> j \<noteq> i \<and> ci_Class (classify_image facts (images ! j)) = ImageBuilt \<and>
           ii_NormalizedRepository (images ! j) = ?repo \<and> newest_key (images ! i) \<le> newest_key (images ! j)}"
  have key: "newest_key (base ! j) = newest_key (images ! j)" "NormalizedRef (base ! j) = NormalizedRef (images ! j)"
    if "j < length images" for j
    using that by (simp_all add: base_def)
  have "newer = {j \<in> set ?idx. j \<noteq> i \<and> newest_key (base ! i) \<le> newest_key (base ! j)}"
  proof (rule set_eqI)
    fix j
    show "j \<in> newer \<longleftrightarrow> j \<in> {j \<in> set ?idx. j \<noteq> i \<and> newest_key (base ! i) \<le> newest_key (base ! j)}"
      unfolding newer_def mem_Collect_eq idx using key(1) [of j] key(1) [OF i(1)] by (cases "j < length images") auto
  qed
  then have before: "int (position ?sorted i) \<le> int (card newer)"
    using newer_before [of ?idx i base] mine by simp
  have "bp_Keep built \<le> int (position ?sorted i)" using cls(5) by (simp add: m)
  moreover have "newer \<noteq> {}" if v: "v \<in> set (bp_Deployments built)" "\<forall>j<length images.
      ci_Class (classify_image facts (images ! j)) = ImageBuilt \<longrightarrow> ii_NormalizedRepository (images ! j) = ?repo \<longrightarrow>
      NormalizedRef (images ! j) \<noteq> ImageTagForVersion ?repo v" for v
  proof -
    have "unmatched_version base ?repo built"
      unfolding unmatched_version_def
    proof (intro bexI [of _ v] ballI)
      fix j assume "j \<in> set ?idx"
      then show "NormalizedRef (base ! j) \<noteq> ImageTagForVersion ?repo v"
        unfolding idx using v(2) key(2) [of j] by simp
    qed (rule v(1))
    then have "hd ?sorted \<noteq> i" using cls(4) by (auto simp: m)
    moreover have "?sorted \<noteq> []" using mine by (metis list.set(1) empty_iff newest_first_simps(1))
    ultimately have "position ?sorted i \<noteq> 0" by (cases ?sorted) (auto simp: position_Cons)
    then show ?thesis using before by auto
  qed
  ultimately have "bp_Keep built \<le> int (card newer) \<and>
    ((\<exists>v\<in>set (bp_Deployments built). \<forall>j<length images. ci_Class (classify_image facts (images ! j)) = ImageBuilt \<longrightarrow>
        ii_NormalizedRepository (images ! j) = ?repo \<longrightarrow> NormalizedRef (images ! j) \<noteq> ImageTagForVersion ?repo v) \<longrightarrow>
      newer \<noteq> {})" using before by auto
  moreover have "InventoryImage.truncate c = images ! i"
    by (simp add: c0(3) i(2) b)
  moreover have "\<not> ii_InUse (images ! i)" using cls(2) by (simp add: i(2) b)
  moreover have "\<forall>v\<in>set (bp_Deployments built). NormalizedRef (images ! i) \<noteq> ImageTagForVersion ?repo v"
    using cls(4) by (auto simp: m b)
  ultimately show ?thesis
    using i(1) built unfolding newer_def Let_def by blast
qed

definition sample_image :: "string \<Rightarrow> timestamp \<Rightarrow> InventoryImage" where
  "sample_image tag created =
     \<lparr>ii_Repository = ''team/app'', ii_NormalizedRepository = ''docker.io/team/app'', ii_Tag = tag, ii_ID = tag,
      ii_Digests = [], ii_Size = 5, ii_Created = created, ii_LastTagTime = created, ii_InUse = False\<rparr>"

definition sample_images :: "InventoryImage list" where
  "sample_images = [sample_image ''v1'' 10, sample_image ''v2'' 20, sample_image ''v3'' 30]"

definition sample_facts :: ImageFacts where
  "sample_facts = \<lparr>if_Required = [],
     if_Built = [(''docker.io/team/app'', \<lparr>bp_Keep = 1, bp_Sources = [], bp_Deployments = [''v2'']\<rparr>)],
     if_Incomplete = False\<rparr>"

text \<open>
  A prune accounts for every image it was given exactly once: each is either removed, marked
  prunable, or refused with a reason, and both lists are sorted by repository, tag and identifier.
\<close>

theorem PlanPrune_partition:
  fixes images :: "InventoryImage list"
  assumes "permutes_keys visit" and "plan = PlanPrune (Classify visit images facts)"
  shows "mset (map InventoryImage.truncate (pp_Remove plan)) + mset (map InventoryImage.truncate (pp_Refuse plan)) = mset images \<and>
    (\<forall>c\<in>set (pp_Remove plan). ci_Prunable c) \<and>
    (\<forall>c\<in>set (pp_Refuse plan). \<not> ci_Prunable c \<and> ci_Refusal c \<noteq> []) \<and>
    sorted (map sort_by_name (pp_Remove plan)) \<and> sorted (map sort_by_name (pp_Refuse plan))"
proof -
  obtain f where f: "plan = PlanPrune (Classify visit images (Some f))"
    using assms(2) by (cases facts) (auto simp: Classify_def)
  let ?out = "Classify visit images (Some f)"
  note nth = Classify_nth [where images = images and facts = f, OF assms(1)]
  have reason: "ci_Reason c \<noteq> []" if c: "c \<in> set ?out" for c
  proof -
    obtain i where i: "i < length images" "c = marked f (map (classify_image f) images) i"
      using c nth by (auto simp: in_set_conv_nth)
    then show ?thesis by (auto simp: classify_image_def Let_def split: option.splits)
  qed
  have refused: "the (prune_refusal c) \<noteq> []" if "c \<in> set ?out" "prune_refusal c \<noteq> None" for c
    using that(2) reason [OF that(1)] by (auto simp: prune_refusal_def split: if_splits)
  have "map InventoryImage.truncate ?out = images"
    by (rule nth_equalityI) (use nth in auto)
  then have "mset images = image_mset InventoryImage.truncate (mset ?out)" by (metis mset_map)
  also have "\<dots> = image_mset InventoryImage.truncate (mset (filter (\<lambda>c. prune_refusal c = None) ?out)) +
      image_mset InventoryImage.truncate (mset (filter (\<lambda>c. prune_refusal c \<noteq> None) ?out))"
    by (simp flip: image_mset_union)
  finally have "mset (map InventoryImage.truncate (pp_Remove plan)) + mset (map InventoryImage.truncate (pp_Refuse plan)) = mset images"
    by (simp add: f PlanPrune_lists image_mset.compositionality comp_def)
  then show ?thesis using refused by (auto simp: f PlanPrune_lists)
qed

theorem Classify_order_independent_witness:
  "Classify rev sample_images (Some sample_facts) = Classify id sample_images (Some sample_facts)"
  by (rule Classify_order_independent) simp_all

lemma sample_plan: "map (\<lambda>c. (ii_Tag c, ci_Refusal c)) (pp_Remove (PlanPrune (Classify id sample_images (Some sample_facts)))) = [(''v1'', [])]"
  by code_simp

theorem PlanPrune_safe_witness:
  "\<exists>c\<in>set (pp_Remove (PlanPrune (Classify id sample_images (Some sample_facts)))).
     \<exists>i<length sample_images. InventoryImage.truncate c = sample_images ! i \<and> \<not> ii_InUse (sample_images ! i)"
proof -
  have "pp_Remove (PlanPrune (Classify id sample_images (Some sample_facts))) \<noteq> []" using sample_plan by auto
  then obtain c where c: "c \<in> set (pp_Remove (PlanPrune (Classify id sample_images (Some sample_facts))))"
    by (meson list.set_sel(1))
  show ?thesis using PlanPrune_safe [OF _ c] c by auto
qed

theorem PlanPrune_partition_witness:
  "length (pp_Remove (PlanPrune (Classify id sample_images (Some sample_facts)))) +
   length (pp_Refuse (PlanPrune (Classify id sample_images (Some sample_facts)))) = 3"
  using arg_cong [OF conjunct1 [OF PlanPrune_partition [of id _ sample_images "Some sample_facts", OF _ refl]], of size]
  by (simp add: sample_images_def)

end
