(* ===== verification/Auth.thy ===== *)
theory Auth
  imports Names "HOL-Library.Product_Lexorder"
begin

text \<open>
  Package \<open>internal/auth\<close>: people, their sessions and their access tokens; the types and the
  SQL statements of \<open>store.go\<close>. The operations of the service are in \<open>Auth_Service\<close>.

  A table is a list of rows. An operation is one transaction: \<^const>\<open>Inl\<close> is an error, after
  which nothing has changed; \<^const>\<open>Inr\<close> carries the result and the new tables. \<open>clock\<close> is
  the time of the process and \<open>now\<close> that of the database, in nanoseconds. What package bcrypt
  computes is the parameter \<open>verify\<close> and the fresh hashes; a token's hash is the parameter \<open>hash\<close>;
  fresh identifiers and secrets are arguments.
\<close>

section \<open>Types\<close>

record Person =
  pe_ID :: string
  pe_Username :: string
  pe_PasswordHash :: string
  pe_IsAdmin :: bool
  pe_DisabledAt :: "timestamp option"
  pe_CreatedAt :: timestamp
  pe_Generation :: int
  pe_BootstrapExpiresAt :: "timestamp option"

definition Disabled :: "Person \<Rightarrow> bool" where
  "Disabled p \<longleftrightarrow> pe_DisabledAt p \<noteq> None"

record session_row =
  ss_hash :: string
  ss_id :: string
  ss_person :: string
  ss_created :: timestamp
  ss_expires :: timestamp
  ss_generation :: int
  ss_seen :: timestamp
  ss_ip :: string
  ss_agent :: string

datatype Scope = ScopeRead | ScopeWrite | ScopeUnknown string

definition Satisfies :: "Scope \<Rightarrow> Scope \<Rightarrow> bool" where
  "Satisfies s required \<longleftrightarrow> s = ScopeWrite \<or> s = required"

record token_row =
  tk_id :: string
  tk_person :: string
  tk_name :: string
  tk_hash :: string
  tk_all :: bool
  tk_generation :: int
  tk_scope :: Scope
  tk_created :: timestamp
  tk_expires :: timestamp
  tk_used :: "timestamp option"

record Session =
  se_ID :: string
  se_PersonID :: string
  se_Username :: string
  se_CreatedAt :: timestamp
  se_ExpiresAt :: timestamp
  se_LastSeenAt :: timestamp
  se_IP :: string
  se_UserAgent :: string

record AccessToken =
  at_AllRepositories :: bool
  at_Repositories :: "string list"
  at_ID :: string
  at_PersonID :: string
  at_Name :: string
  at_Scope :: Scope
  at_CreatedAt :: timestamp
  at_ExpiresAt :: timestamp
  at_LastUsedAt :: "timestamp option"

text \<open>What the service reads of repositories: name, visibility and explicit readers.\<close>

record access_row =
  ac_id :: string
  ac_name :: string
  ac_everyone :: bool
  ac_readers :: "string list"

record auth_db =
  au_people :: "Person list"
  au_sessions :: "session_row list"
  au_tokens :: "token_row list"
  au_grants :: "(string \<times> string) list"
  au_repos :: "access_row list"
  au_audit :: "(string \<times> string \<times> string) list"

datatype auth_error =
  AuthNotFound | AuthExists | NoRows | InvalidCredentials | ErrDisabled | LastAdmin | InvalidSession
| InvalidToken | NotTokenOwner | NotSessionOwner | BadUsername "name_error go_error"
| PasswordTooShort | PasswordTooLong | AlreadyEnabled | TokenNameInvalid | TokenScopeInvalid string
| ChangePasswordFirst | TokenExpiryInvalid | UnreadableRepository | HashFailure

type_synonym 'a auth_tx = "(auth_error, 'a \<times> auth_db) result"

datatype verdict = HashMatches | HashMismatch | HashBroken

definition hours :: "int \<Rightarrow> int" where
  "hours n = n * 3600 * 1000000000"

definition minutes :: "int \<Rightarrow> int" where
  "minutes n = n * 60 * 1000000000"

section \<open>Statements of store.go\<close>

definition update_person :: "(Person \<Rightarrow> bool) \<Rightarrow> (Person \<Rightarrow> Person) \<Rightarrow> auth_db \<Rightarrow> auth_db" where
  "update_person P f db = db\<lparr>au_people := update_where P f (au_people db)\<rparr>"

definition insertPerson :: "timestamp \<Rightarrow> Person \<Rightarrow> auth_db \<Rightarrow> Person auth_tx" where
  "insertPerson now p db =
     (if pe_ID p \<in> pe_ID ` set (au_people db) \<or> pe_Username p \<in> pe_Username ` set (au_people db)
      then Inl AuthExists
      else let p = p\<lparr>pe_DisabledAt := None, pe_CreatedAt := now, pe_Generation := 1\<rparr>
           in Inr (p, db\<lparr>au_people := au_people db @ [p]\<rparr>))"

definition selectPersonByUsername :: "string \<Rightarrow> auth_db \<Rightarrow> (auth_error, Person) result" where
  "selectPersonByUsername username db =
     (case find (\<lambda>p. pe_Username p = to_lower username) (au_people db) of
        None \<Rightarrow> Inl AuthNotFound | Some p \<Rightarrow> Inr p)"

definition selectPersonByID :: "string \<Rightarrow> auth_db \<Rightarrow> (auth_error, Person) result" where
  "selectPersonByID personID db =
     (case find (\<lambda>p. pe_ID p = personID) (au_people db) of None \<Rightarrow> Inl AuthNotFound | Some p \<Rightarrow> Inr p)"

definition selectPeople :: "auth_db \<Rightarrow> Person list" where
  "selectPeople db = sort_key pe_Username (au_people db)"

definition enabled_admin :: "Person \<Rightarrow> bool" where
  "enabled_admin p \<longleftrightarrow> pe_IsAdmin p \<and> pe_DisabledAt p = None"

definition lockEnabledAdmins :: "auth_db \<Rightarrow> string list" where
  "lockEnabledAdmins db = sort (map pe_ID (filter enabled_admin (au_people db)))"

definition person_exists :: "string \<Rightarrow> auth_db \<Rightarrow> bool" where
  "person_exists personID db \<longleftrightarrow> list_ex (\<lambda>p. pe_ID p = personID) (au_people db)"

definition setDisabled :: "timestamp \<Rightarrow> string \<Rightarrow> bool \<Rightarrow> auth_db \<Rightarrow> unit auth_tx" where
  "setDisabled now personID disabled db =
     (if \<not> person_exists personID db then Inl AuthNotFound
      else Inr ((), update_person (\<lambda>p. pe_ID p = personID)
        (\<lambda>p. p\<lparr>pe_Generation := pe_Generation p + 1,
               pe_DisabledAt := (if disabled
                 then (case pe_DisabledAt p of None \<Rightarrow> Some now | Some t \<Rightarrow> Some t) else None)\<rparr>) db))"

definition setAdminRow :: "string \<Rightarrow> bool \<Rightarrow> auth_db \<Rightarrow> unit auth_tx" where
  "setAdminRow personID isAdmin db =
     (if \<not> person_exists personID db then Inl AuthNotFound
      else Inr ((), update_person (\<lambda>p. pe_ID p = personID) (\<lambda>p. p\<lparr>pe_IsAdmin := isAdmin\<rparr>) db))"

definition setPasswordHash :: "string \<Rightarrow> string \<Rightarrow> auth_db \<Rightarrow> unit auth_tx" where
  "setPasswordHash personID hash db =
     (if \<not> person_exists personID db then Inl AuthNotFound
      else Inr ((), update_person (\<lambda>p. pe_ID p = personID)
        (\<lambda>p. p\<lparr>pe_PasswordHash := hash, pe_Generation := pe_Generation p + 1,
               pe_BootstrapExpiresAt := None\<rparr>) db))"

definition deleteSessionsOf :: "string \<Rightarrow> auth_db \<Rightarrow> auth_db" where
  "deleteSessionsOf personID db =
     db\<lparr>au_sessions := filter (\<lambda>s. ss_person s \<noteq> personID) (au_sessions db)\<rparr>"

text \<open>Deleting tokens deletes their grants with them.\<close>

definition delete_tokens :: "(token_row \<Rightarrow> bool) \<Rightarrow> auth_db \<Rightarrow> auth_db" where
  "delete_tokens P db =
     (let gone = map tk_id (filter P (au_tokens db))
      in db\<lparr>au_tokens := filter (\<lambda>t. \<not> P t) (au_tokens db),
            au_grants := filter (\<lambda>g. fst g \<notin> set gone) (au_grants db)\<rparr>)"

definition revokeCredentials :: "string \<Rightarrow> auth_db \<Rightarrow> auth_db" where
  "revokeCredentials personID db = delete_tokens (\<lambda>t. tk_person t = personID) (deleteSessionsOf personID db)"

definition insertSession ::
  "timestamp \<Rightarrow> string \<Rightarrow> string \<Rightarrow> Person \<Rightarrow> timestamp \<Rightarrow> string \<Rightarrow> string \<Rightarrow> auth_db \<Rightarrow> string auth_tx" where
  "insertSession now newID tokenHash person expiresAt ip userAgent db =
     (case find (\<lambda>p. pe_ID p = pe_ID person \<and> pe_Generation p = pe_Generation person \<and> pe_DisabledAt p = None \<and>
              (case pe_BootstrapExpiresAt p of None \<Rightarrow> True | Some t \<Rightarrow> now < t)) (au_people db) of
        None \<Rightarrow> Inl InvalidCredentials
      | Some p \<Rightarrow>
          if tokenHash \<in> ss_hash ` set (au_sessions db) \<or> newID \<in> ss_id ` set (au_sessions db) then Inl AuthExists
          else Inr (newID, db\<lparr>au_sessions := au_sessions db @
                 [\<lparr>ss_hash = tokenHash, ss_id = newID, ss_person = pe_ID p, ss_created = now,
                   ss_expires = expiresAt, ss_generation = pe_Generation p, ss_seen = now, ss_ip = ip,
                   ss_agent = userAgent\<rparr>]\<rparr>))"

definition session_active :: "timestamp \<Rightarrow> session_row \<Rightarrow> Person \<Rightarrow> bool" where
  "session_active now s p \<longleftrightarrow>
     pe_ID p = ss_person s \<and> now < ss_expires s \<and> ss_generation s = pe_Generation p \<and>
     (case pe_BootstrapExpiresAt p of None \<Rightarrow> True | Some t \<Rightarrow> now < t)"

definition selectSessionIdentity :: "timestamp \<Rightarrow> string \<Rightarrow> auth_db \<Rightarrow> (auth_error, Person \<times> string) result" where
  "selectSessionIdentity now tokenHash db =
     (case find (\<lambda>s. ss_hash s = tokenHash) (au_sessions db) of
        None \<Rightarrow> Inl AuthNotFound
      | Some s \<Rightarrow> (case find (session_active now s) (au_people db) of
          None \<Rightarrow> Inl AuthNotFound | Some p \<Rightarrow> Inr (p, ss_id s)))"

definition touchSession :: "timestamp \<Rightarrow> string \<Rightarrow> auth_db \<Rightarrow> auth_db" where
  "touchSession now tokenHash db =
     db\<lparr>au_sessions := update_where (\<lambda>s. ss_hash s = tokenHash \<and> ss_seen s < now - minutes 1)
          (\<lambda>s. s\<lparr>ss_seen := now\<rparr>) (au_sessions db)\<rparr>"

text \<open>The newest \<open>limit\<close> rows of a person beside the one kept, newest first.\<close>

definition maxSessionsPerPerson :: nat where
  "maxSessionsPerPerson = 20"

definition maxTokensPerPerson :: nat where
  "maxTokensPerPerson = 50"

definition pruneSessions :: "string \<Rightarrow> string \<Rightarrow> auth_db \<Rightarrow> auth_db" where
  "pruneSessions personID keepID db =
     (let others = filter (\<lambda>s. ss_person s = personID \<and> ss_id s \<noteq> keepID) (au_sessions db);
          kept = take (maxSessionsPerPerson - 1) (rev (sort_key (\<lambda>s. (ss_seen s, ss_id s)) others))
      in db\<lparr>au_sessions := filter (\<lambda>s. \<not> (ss_person s = personID \<and> ss_id s \<noteq> keepID \<and>
              ss_id s \<notin> ss_id ` set kept)) (au_sessions db)\<rparr>)"

text \<open>A row of the join of \<open>sessions\<close> with \<open>people\<close>.\<close>

definition scanSession :: "session_row \<Rightarrow> Person \<Rightarrow> Session" where
  "scanSession s p =
     \<lparr>se_ID = ss_id s, se_PersonID = ss_person s, se_Username = pe_Username p, se_CreatedAt = ss_created s,
      se_ExpiresAt = ss_expires s, se_LastSeenAt = ss_seen s, se_IP = ss_ip s, se_UserAgent = ss_agent s\<rparr>"

definition join_session :: "auth_db \<Rightarrow> session_row \<Rightarrow> (session_row \<times> Person) list" where
  "join_session db s = map (Pair s) (filter (\<lambda>p. pe_ID p = ss_person s) (au_people db))"

definition selectSessionByID :: "string \<Rightarrow> auth_db \<Rightarrow> (auth_error, Session) result" where
  "selectSessionByID sessionID db =
     (case concat (map (join_session db) (filter (\<lambda>s. ss_id s = sessionID) (au_sessions db))) of
        [] \<Rightarrow> Inl AuthNotFound | (s, p) # _ \<Rightarrow> Inr (scanSession s p))"

definition deleteSessionByID :: "string \<Rightarrow> auth_db \<Rightarrow> unit auth_tx" where
  "deleteSessionByID sessionID db =
     (if sessionID \<notin> ss_id ` set (au_sessions db) then Inl AuthNotFound
      else Inr ((), db\<lparr>au_sessions := filter (\<lambda>s. ss_id s \<noteq> sessionID) (au_sessions db)\<rparr>))"

definition deleteSession :: "string \<Rightarrow> auth_db \<Rightarrow> auth_db" where
  "deleteSession tokenHash db = db\<lparr>au_sessions := filter (\<lambda>s. ss_hash s \<noteq> tokenHash) (au_sessions db)\<rparr>"

text \<open>\<open>ListSessions\<close> for a person, \<open>ListAllSessions\<close> with the empty identifier.\<close>

definition selectSessions :: "timestamp \<Rightarrow> string \<Rightarrow> auth_db \<Rightarrow> Session list" where
  "selectSessions now personID db =
     take 500 (sort_key (\<lambda>s. (- se_LastSeenAt s, se_ID s))
       (map (\<lambda>(s, p). scanSession s p)
         (filter (\<lambda>(s, p). now < ss_expires s \<and> ss_generation s = pe_Generation p \<and> pe_DisabledAt p = None \<and>
             (personID = [] \<or> ss_person s = personID))
           (concat (map (join_session db) (au_sessions db))))))"

definition insertToken :: "timestamp \<Rightarrow> AccessToken \<Rightarrow> string \<Rightarrow> int \<Rightarrow> auth_db \<Rightarrow> AccessToken auth_tx" where
  "insertToken now t tokenHash generation db =
     (case find (\<lambda>p. pe_ID p = at_PersonID t \<and> pe_Generation p = generation \<and> pe_DisabledAt p = None \<and>
              pe_BootstrapExpiresAt p = None) (au_people db) of
        None \<Rightarrow> Inl NoRows
      | Some p \<Rightarrow>
          if at_ID t \<in> tk_id ` set (au_tokens db) \<or> tokenHash \<in> tk_hash ` set (au_tokens db) then Inl AuthExists
          else Inr (t\<lparr>at_CreatedAt := now\<rparr>, db\<lparr>au_tokens := au_tokens db @
                 [\<lparr>tk_id = at_ID t, tk_person = pe_ID p, tk_name = at_Name t, tk_hash = tokenHash,
                   tk_all = at_AllRepositories t, tk_generation = pe_Generation p, tk_scope = at_Scope t,
                   tk_created = now, tk_expires = at_ExpiresAt t, tk_used = None\<rparr>]\<rparr>))"

definition pruneTokens :: "string \<Rightarrow> string \<Rightarrow> auth_db \<Rightarrow> auth_db" where
  "pruneTokens personID keepID db =
     (let others = filter (\<lambda>t. tk_person t = personID \<and> tk_id t \<noteq> keepID) (au_tokens db);
          kept = take (maxTokensPerPerson - 1) (rev (sort_key (\<lambda>t. (tk_created t, tk_id t)) others))
      in delete_tokens (\<lambda>t. tk_person t = personID \<and> tk_id t \<noteq> keepID \<and> tk_id t \<notin> tk_id ` set kept) db)"

text \<open>The columns of a token, with the names of the repositories granted to it.\<close>

definition scanToken :: "auth_db \<Rightarrow> token_row \<Rightarrow> AccessToken" where
  "scanToken db t =
     \<lparr>at_AllRepositories = tk_all t,
      at_Repositories = sort (map ac_name (filter (\<lambda>r. (tk_id t, ac_id r) \<in> set (au_grants db)) (au_repos db))),
      at_ID = tk_id t, at_PersonID = tk_person t, at_Name = tk_name t, at_Scope = tk_scope t,
      at_CreatedAt = tk_created t, at_ExpiresAt = tk_expires t, at_LastUsedAt = tk_used t\<rparr>"

definition selectTokens :: "string \<Rightarrow> auth_db \<Rightarrow> AccessToken list" where
  "selectTokens personID db =
     map (scanToken db) (sort_key tk_created (filter (\<lambda>t. tk_person t = personID) (au_tokens db)))"

definition selectToken :: "string \<Rightarrow> auth_db \<Rightarrow> (auth_error, AccessToken) result" where
  "selectToken tokenID db =
     (case find (\<lambda>t. tk_id t = tokenID) (au_tokens db) of
        None \<Rightarrow> Inl AuthNotFound | Some t \<Rightarrow> Inr (scanToken db t))"

definition deleteTokenRow :: "string \<Rightarrow> auth_db \<Rightarrow> unit auth_tx" where
  "deleteTokenRow tokenID db =
     (if tokenID \<notin> tk_id ` set (au_tokens db) then Inl AuthNotFound
      else Inr ((), delete_tokens (\<lambda>t. tk_id t = tokenID) db))"

definition token_active :: "timestamp \<Rightarrow> string \<Rightarrow> auth_db \<Rightarrow> token_row \<Rightarrow> Person \<Rightarrow> bool" where
  "token_active now repositoryName db t p \<longleftrightarrow>
     pe_ID p = tk_person t \<and> now < tk_expires t \<and> tk_generation t = pe_Generation p \<and>
     pe_BootstrapExpiresAt p = None \<and>
     (tk_all t \<or> list_ex (\<lambda>r. (tk_id t, ac_id r) \<in> set (au_grants db) \<and> ac_name r = to_lower repositoryName)
        (au_repos db)) \<and>
     pe_DisabledAt p = None"

definition useToken :: "timestamp \<Rightarrow> string \<Rightarrow> string \<Rightarrow> auth_db \<Rightarrow> (Person \<times> Scope) auth_tx" where
  "useToken now tokenHash repositoryName db =
     (case find (\<lambda>t. tk_hash t = tokenHash) (au_tokens db) of
        None \<Rightarrow> Inl InvalidToken
      | Some t \<Rightarrow> (case find (token_active now repositoryName db t) (au_people db) of
          None \<Rightarrow> Inl InvalidToken
        | Some p \<Rightarrow> Inr ((p, tk_scope t),
            db\<lparr>au_tokens := update_where
                 (\<lambda>u. tk_id u = tk_id t \<and> (case tk_used u of None \<Rightarrow> True | Some w \<Rightarrow> w < now - minutes 1))
                 (\<lambda>u. u\<lparr>tk_used := Some now\<rparr>) (au_tokens db)\<rparr>)))"

definition deleteExpiredSessions :: "timestamp \<Rightarrow> auth_db \<Rightarrow> nat \<times> auth_db" where
  "deleteExpiredSessions now db =
     (length (filter (\<lambda>s. ss_expires s \<le> now) (au_sessions db)),
      db\<lparr>au_sessions := filter (\<lambda>s. \<not> ss_expires s \<le> now) (au_sessions db)\<rparr>)"

definition deleteExpiredTokens :: "timestamp \<Rightarrow> auth_db \<Rightarrow> nat \<times> auth_db" where
  "deleteExpiredTokens now db =
     (length (filter (\<lambda>t. tk_expires t \<le> now) (au_tokens db)), delete_tokens (\<lambda>t. tk_expires t \<le> now) db)"

definition recordAdmin :: "string \<Rightarrow> string \<Rightarrow> string \<Rightarrow> auth_db \<Rightarrow> auth_db" where
  "recordAdmin actorID action detail db = db\<lparr>au_audit := au_audit db @ [(actorID, action, detail)]\<rparr>"

end
