(* ===== verification/Auth_Service.thy ===== *)
theory Auth_Service
  imports Auth
begin

text \<open>
  The operations of \<open>internal/auth/service.go\<close>, each one call of the service. An operation that
  reads a person before its transaction starts takes the tables it read, \<open>before\<close>, as an argument
  of its own: other operations may have run in between. \<open>hashed\<close> is what \<open>hashPassword\<close>
  returned for the new password, \<^const>\<open>None\<close> where bcrypt failed.
\<close>

section \<open>Passwords\<close>

definition ValidatePassword :: "string \<Rightarrow> (auth_error, unit) result" where
  "ValidatePassword password =
     (if \<not> valid_utf8 password \<or> rune_count password < 12 then Inl PasswordTooShort
      else if 72 < length password then Inl PasswordTooLong
      else ok ())"

definition hashPassword :: "string option \<Rightarrow> (auth_error, string) result" where
  "hashPassword hashed = (case hashed of None \<Rightarrow> Inl HashFailure | Some h \<Rightarrow> ok h)"

definition validatedHash :: "string option \<Rightarrow> string \<Rightarrow> (auth_error, string) result" where
  "validatedHash hashed password = bind_result (ValidatePassword password) (\<lambda>_. hashPassword hashed)"

section \<open>People\<close>

definition create ::
  "timestamp \<Rightarrow> timestamp \<Rightarrow> string \<Rightarrow> string option \<Rightarrow> string \<Rightarrow> string \<Rightarrow> bool \<Rightarrow> string \<Rightarrow> bool \<Rightarrow> auth_db \<Rightarrow>
     Person auth_tx" where
  "create clock now newID hashed username password isAdmin actorID bootstrap db =
     (case ValidateUsername username of
        Inl e \<Rightarrow> Inl (BadUsername e)
      | Inr _ \<Rightarrow> bind_result (validatedHash hashed password) (\<lambda>h.
          bind_result (insertPerson now
            \<lparr>pe_ID = newID, pe_Username = to_lower username, pe_PasswordHash = h, pe_IsAdmin = isAdmin,
             pe_DisabledAt = None, pe_CreatedAt = 0, pe_Generation = 0,
             pe_BootstrapExpiresAt = (if bootstrap then Some (clock + hours 24) else None)\<rparr> db)
            (\<lambda>(p, db). ok (p, recordAdmin actorID ''person.added'' (pe_Username p) db))))"

definition Create ::
  "timestamp \<Rightarrow> timestamp \<Rightarrow> string \<Rightarrow> string option \<Rightarrow> string \<Rightarrow> string \<Rightarrow> bool \<Rightarrow> string \<Rightarrow> auth_db \<Rightarrow> Person auth_tx" where
  "Create clock now newID hashed username password isAdmin actorID db =
     create clock now newID hashed username password isAdmin actorID False db"

definition CreateBootstrap ::
  "timestamp \<Rightarrow> timestamp \<Rightarrow> string \<Rightarrow> string option \<Rightarrow> string \<Rightarrow> string \<Rightarrow> bool \<Rightarrow> string \<Rightarrow> auth_db \<Rightarrow> Person auth_tx" where
  "CreateBootstrap clock now newID hashed username password isAdmin actorID db =
     create clock now newID hashed username password isAdmin actorID True db"

definition isOnlyEnabledAdmin :: "string \<Rightarrow> auth_db \<Rightarrow> bool" where
  "isOnlyEnabledAdmin personID db = (lockEnabledAdmins db = [personID])"

definition Disable :: "timestamp \<Rightarrow> string \<Rightarrow> string \<Rightarrow> auth_db \<Rightarrow> unit auth_tx" where
  "Disable now personID actorID db =
     (let onlyAdmin = isOnlyEnabledAdmin personID db in
      bind_result (selectPersonByID personID db) (\<lambda>p.
        if Disabled p then ok ((), db)
        else if onlyAdmin then Inl LastAdmin
        else bind_result (setDisabled now personID True db) (\<lambda>(_, db).
          ok ((), recordAdmin actorID ''person.disabled'' (pe_Username p) (revokeCredentials personID db)))))"

definition Enable :: "timestamp \<Rightarrow> string \<Rightarrow> string option \<Rightarrow> string \<Rightarrow> string \<Rightarrow> auth_db \<Rightarrow> string auth_tx" where
  "Enable now password hashed personID actorID db =
     bind_result (validatedHash hashed password) (\<lambda>h.
       bind_result (selectPersonByID personID db) (\<lambda>p.
         if \<not> list_ex (\<lambda>q. pe_ID q = personID \<and> pe_DisabledAt q \<noteq> None) (au_people db) then Inl AlreadyEnabled
         else ok (password, recordAdmin actorID ''person.enabled'' (pe_Username p)
           (revokeCredentials personID
             (update_person (\<lambda>q. pe_ID q = personID \<and> pe_DisabledAt q \<noteq> None)
               (\<lambda>q. q\<lparr>pe_DisabledAt := None, pe_PasswordHash := h, pe_Generation := pe_Generation q + 1,
                      pe_BootstrapExpiresAt := Some (now + hours 24)\<rparr>) db)))))"

definition SetAdmin :: "string \<Rightarrow> bool \<Rightarrow> string \<Rightarrow> auth_db \<Rightarrow> unit auth_tx" where
  "SetAdmin personID isAdmin actorID db =
     (if \<not> isAdmin \<and> isOnlyEnabledAdmin personID db then Inl LastAdmin
      else bind_result (selectPersonByID personID db) (\<lambda>p.
        if pe_IsAdmin p = isAdmin then ok ((), db)
        else bind_result (setAdminRow personID isAdmin db) (\<lambda>(_, db).
          ok ((), recordAdmin actorID ''person.role''
            (pe_Username p @ '' '' @ (if isAdmin then ''admin'' else ''member'')) db))))"

definition ResetPassword :: "timestamp \<Rightarrow> string option \<Rightarrow> string \<Rightarrow> string \<Rightarrow> string \<Rightarrow> auth_db \<Rightarrow> unit auth_tx" where
  "ResetPassword now hashed personID newPassword actorID db =
     bind_result (validatedHash hashed newPassword) (\<lambda>h.
       bind_result (selectPersonByID personID db) (\<lambda>p.
         bind_result (setPasswordHash personID h db) (\<lambda>(_, db).
           ok ((), recordAdmin actorID ''person.password_reset'' (pe_Username p) (revokeCredentials personID
             (update_person (\<lambda>q. pe_ID q = personID)
               (\<lambda>q. q\<lparr>pe_BootstrapExpiresAt := Some (now + hours 24)\<rparr>) db))))))"

definition ChangePassword ::
  "(string \<Rightarrow> string \<Rightarrow> verdict) \<Rightarrow> string option \<Rightarrow> string \<Rightarrow> string \<Rightarrow> string \<Rightarrow> auth_db \<Rightarrow> auth_db \<Rightarrow> Person auth_tx" where
  "ChangePassword verify hashed personID currentPassword newPassword before db =
     bind_result (selectPersonByID personID before) (\<lambda>p.
       if verify (pe_PasswordHash p) currentPassword \<noteq> HashMatches then Inl InvalidCredentials
       else bind_result (validatedHash hashed newPassword) (\<lambda>h.
         let P = (\<lambda>q. pe_ID q = personID \<and> pe_Generation q = pe_Generation p \<and> pe_DisabledAt q = None) in
         if \<not> list_ex P (au_people db) then Inl InvalidCredentials
         else ok (p\<lparr>pe_Generation := pe_Generation p + 1, pe_PasswordHash := h, pe_BootstrapExpiresAt := None\<rparr>,
           revokeCredentials personID
             (update_person P (\<lambda>q. q\<lparr>pe_PasswordHash := h, pe_Generation := pe_Generation q + 1,
                                    pe_BootstrapExpiresAt := None\<rparr>) db))))"

definition VerifyLogin ::
  "(string \<Rightarrow> string \<Rightarrow> verdict) \<Rightarrow> timestamp \<Rightarrow> string \<Rightarrow> string \<Rightarrow> auth_db \<Rightarrow> (auth_error, Person) result" where
  "VerifyLogin verify clock username password db =
     (case selectPersonByUsername username db of
        Inl _ \<Rightarrow> Inl InvalidCredentials
      | Inr p \<Rightarrow>
          (case verify (pe_PasswordHash p) password of
             HashMismatch \<Rightarrow> Inl InvalidCredentials
           | HashBroken \<Rightarrow> Inl HashFailure
           | HashMatches \<Rightarrow>
               if Disabled p then Inl ErrDisabled
               else if (case pe_BootstrapExpiresAt p of None \<Rightarrow> False | Some t \<Rightarrow> \<not> clock < t)
                 then Inl InvalidCredentials
               else ok p))"

definition RevokeAll :: "string \<Rightarrow> string \<Rightarrow> auth_db \<Rightarrow> unit auth_tx" where
  "RevokeAll personID actorID db =
     (case find (\<lambda>p. pe_ID p = personID) (au_people db) of
        None \<Rightarrow> Inl AuthNotFound
      | Some p \<Rightarrow> ok ((), recordAdmin actorID ''person.credentials_revoked'' (pe_Username p)
          (revokeCredentials personID
            (update_person (\<lambda>q. pe_ID q = personID) (\<lambda>q. q\<lparr>pe_Generation := pe_Generation q + 1\<rparr>) db))))"

section \<open>Sessions\<close>

definition maxUserAgentBytes :: nat where
  "maxUserAgentBytes = 512"

function trim_invalid :: "string \<Rightarrow> string" where
  "trim_invalid value = (if value = [] \<or> valid_utf8 value then value else trim_invalid (butlast value))"
  by pat_completeness auto
termination by (relation "measure length") (auto simp: length_greater_0_conv)

declare trim_invalid.simps [simp del]

definition truncateUserAgent :: "string \<Rightarrow> string" where
  "truncateUserAgent value =
     (if length value \<le> maxUserAgentBytes then value else trim_invalid (take maxUserAgentBytes value))"

definition CreateSession ::
  "(string \<Rightarrow> string) \<Rightarrow> timestamp \<Rightarrow> timestamp \<Rightarrow> string \<Rightarrow> string \<Rightarrow> Person \<Rightarrow> int \<Rightarrow> string \<Rightarrow> string \<Rightarrow> auth_db \<Rightarrow>
     (string \<times> timestamp) auth_tx" where
  "CreateSession hash clock now plain newID person ttl ip userAgent db =
     bind_result (insertSession now newID (hash plain) person (clock + ttl) ip (truncateUserAgent userAgent) db)
       (\<lambda>(sessionID, db). ok ((plain, clock + ttl), pruneSessions (pe_ID person) sessionID db))"

definition SessionIdentity ::
  "(string \<Rightarrow> string) \<Rightarrow> timestamp \<Rightarrow> string \<Rightarrow> auth_db \<Rightarrow> (Person \<times> string) auth_tx" where
  "SessionIdentity hash now sessionToken db =
     (case selectSessionIdentity now (hash sessionToken) db of
        Inl _ \<Rightarrow> Inl InvalidSession
      | Inr (p, sessionID) \<Rightarrow>
          if Disabled p then Inl InvalidSession
          else ok ((p, sessionID), touchSession now (hash sessionToken) db))"

definition SessionPerson :: "(string \<Rightarrow> string) \<Rightarrow> timestamp \<Rightarrow> string \<Rightarrow> auth_db \<Rightarrow> Person auth_tx" where
  "SessionPerson hash now sessionToken db =
     bind_result (SessionIdentity hash now sessionToken db) (\<lambda>((p, _), db). ok (p, db))"

definition ListSessions :: "timestamp \<Rightarrow> string \<Rightarrow> auth_db \<Rightarrow> Session list" where
  "ListSessions now personID db = selectSessions now personID db"

definition ListAllSessions :: "timestamp \<Rightarrow> auth_db \<Rightarrow> Session list" where
  "ListAllSessions now db = selectSessions now [] db"

definition may_revoke :: "Session \<Rightarrow> string \<Rightarrow> auth_db \<Rightarrow> (auth_error, unit) result" where
  "may_revoke session actorID db =
     (if se_PersonID session \<noteq> actorID \<and> actorID \<noteq> []
      then bind_result (selectPersonByID actorID db)
        (\<lambda>actor. if pe_IsAdmin actor then ok () else Inl NotSessionOwner)
      else ok ())"

definition RevokeSession :: "string \<Rightarrow> string \<Rightarrow> auth_db \<Rightarrow> Session auth_tx" where
  "RevokeSession sessionID actorID db =
     bind_result (selectSessionByID sessionID db) (\<lambda>session.
       bind_result (may_revoke session actorID db) (\<lambda>_.
         bind_result (deleteSessionByID (se_ID session) db) (\<lambda>(_, db).
           ok (session, if se_PersonID session \<noteq> actorID
             then recordAdmin actorID ''person.session_revoked'' (se_Username session) db else db))))"

definition DeleteSession :: "(string \<Rightarrow> string) \<Rightarrow> string \<Rightarrow> auth_db \<Rightarrow> auth_db" where
  "DeleteSession hash sessionToken db = deleteSession (hash sessionToken) db"

definition PruneExpiredSessions :: "timestamp \<Rightarrow> auth_db \<Rightarrow> nat \<times> auth_db" where
  "PruneExpiredSessions now db = deleteExpiredSessions now db"

section \<open>Access tokens\<close>

definition can_read :: "string \<Rightarrow> string \<Rightarrow> auth_db \<Rightarrow> bool" where
  "can_read personID repoID db \<longleftrightarrow>
     list_ex (\<lambda>r. ac_id r = repoID \<and>
       list_ex (\<lambda>p. pe_ID p = personID \<and> (pe_IsAdmin p \<or> ac_everyone r \<or> personID \<in> set (ac_readers r)))
         (au_people db)) (au_repos db)"

fun grant_repositories ::
  "string \<Rightarrow> string \<Rightarrow> string list \<Rightarrow> string list \<Rightarrow> auth_db \<Rightarrow> unit auth_tx" where
  "grant_repositories tokenID personID seen [] db = ok ((), db)"
| "grant_repositories tokenID personID seen (repoID # rest) db =
     (if repoID \<in> set seen then grant_repositories tokenID personID seen rest db
      else if can_read personID repoID db
        then grant_repositories tokenID personID (repoID # seen) rest
          (db\<lparr>au_grants := au_grants db @ [(tokenID, repoID)]\<rparr>)
      else Inl UnreadableRepository)"

definition token_name_ok :: "string \<Rightarrow> bool" where
  "token_name_ok name \<longleftrightarrow> name \<noteq> [] \<and> rune_count name \<le> 100"

definition token_duration :: "int option \<Rightarrow> int" where
  "token_duration ttl = (case ttl of None \<Rightarrow> hours (30 * 24) | Some d \<Rightarrow> d)"

definition scope_text :: "Scope \<Rightarrow> string" where
  "scope_text s = (case s of ScopeRead \<Rightarrow> ''read'' | ScopeWrite \<Rightarrow> ''write'' | ScopeUnknown t \<Rightarrow> t)"

definition CreateToken ::
  "(string \<Rightarrow> string) \<Rightarrow> timestamp \<Rightarrow> timestamp \<Rightarrow> string \<Rightarrow> string \<Rightarrow> string \<Rightarrow> string \<Rightarrow> Scope \<Rightarrow> int option \<Rightarrow>
     string list \<Rightarrow> auth_db \<Rightarrow> auth_db \<Rightarrow> (string \<times> AccessToken) auth_tx" where
  "CreateToken hash clock now plain newID personID name scope ttl repositories before db =
     (let name = trim_space name; duration = token_duration ttl in
      if \<not> token_name_ok name then Inl TokenNameInvalid
      else if scope \<noteq> ScopeRead \<and> scope \<noteq> ScopeWrite then Inl (TokenScopeInvalid (scope_text scope))
      else bind_result (selectPersonByID personID before) (\<lambda>p.
        if Disabled p \<or> pe_BootstrapExpiresAt p \<noteq> None then Inl ChangePasswordFirst
        else if duration \<le> 0 \<or> hours (365 * 24) < duration then Inl TokenExpiryInvalid
        else bind_result (insertToken now
            \<lparr>at_AllRepositories = (repositories = []), at_Repositories = repositories, at_ID = newID,
             at_PersonID = personID, at_Name = name, at_Scope = scope, at_CreatedAt = 0,
             at_ExpiresAt = clock + duration, at_LastUsedAt = None\<rparr> (hash plain) (pe_Generation p) db)
          (\<lambda>(created, db). bind_result (grant_repositories newID personID [] repositories db)
            (\<lambda>(_, db). ok ((plain, created), pruneTokens personID newID db)))))"

definition ListTokens :: "string \<Rightarrow> auth_db \<Rightarrow> AccessToken list" where
  "ListTokens personID db = selectTokens personID db"

definition RevokeToken :: "string \<Rightarrow> string \<Rightarrow> auth_db \<Rightarrow> AccessToken auth_tx" where
  "RevokeToken personID tokenID db =
     bind_result (selectToken tokenID db) (\<lambda>t.
       if at_PersonID t \<noteq> personID then Inl NotTokenOwner
       else bind_result (deleteTokenRow tokenID db) (\<lambda>(_, db). ok (t, db)))"

definition Authenticate ::
  "(string \<Rightarrow> string) \<Rightarrow> timestamp \<Rightarrow> string \<Rightarrow> string \<Rightarrow> auth_db \<Rightarrow> (Person \<times> Scope) auth_tx" where
  "Authenticate hash now plain repositoryName db =
     (if plain = [] then Inl InvalidToken else useToken now (hash plain) repositoryName db)"

definition PruneExpiredTokens :: "timestamp \<Rightarrow> auth_db \<Rightarrow> nat \<times> auth_db" where
  "PruneExpiredTokens now db = deleteExpiredTokens now db"

end
