(* ===== verification/Auth_System.thy ===== *)
theory Auth_System
  imports Auth_Service Transitions
begin

text \<open>
  The account service as a transition system, the invariant of its tables, and its preservation by
  every operation. An operation commits its transaction or, after an error, leaves the tables as
  they were. The snapshots an operation read earlier (a verified login, a person read before the
  transaction) are arbitrary: nothing is assumed of them.
\<close>

section \<open>Operations\<close>

datatype auth_op =
  DoAddPerson timestamp timestamp string "string option" string string bool string bool
| DoDisable timestamp string string
| DoEnable timestamp string "string option" string string
| DoSetAdmin string bool string
| DoResetPassword timestamp "string option" string string string
| DoChangePassword "string option" string string string auth_db
| DoRevokeAll string string
| DoCreateSession timestamp timestamp string string Person int string string
| DoIdentify timestamp string
| DoRevokeSession string string
| DoDeleteSession string
| DoPruneSessions timestamp
| DoCreateToken timestamp timestamp string string string string Scope "int option" "string list" auth_db
| DoRevokeToken string string
| DoAuthenticate timestamp string string
| DoPruneTokens timestamp
| DoRepositories "access_row list"

definition auth_commit :: "'a auth_tx \<Rightarrow> auth_db \<Rightarrow> auth_db" where
  "auth_commit res db = (case res of Inl _ \<Rightarrow> db | Inr (_, db') \<Rightarrow> db')"

text \<open>Repositories change in another package; deleting one deletes the grants of it.\<close>

definition set_repositories :: "access_row list \<Rightarrow> auth_db \<Rightarrow> auth_db" where
  "set_repositories repos db =
     db\<lparr>au_repos := repos, au_grants := filter (\<lambda>g. snd g \<in> ac_id ` set repos) (au_grants db)\<rparr>"

fun auth_exec ::
  "(string \<Rightarrow> string) \<Rightarrow> (string \<Rightarrow> string \<Rightarrow> verdict) \<Rightarrow> auth_op \<Rightarrow> auth_db \<Rightarrow> auth_db" where
  "auth_exec hash verify (DoAddPerson clock now newID hashed username password isAdmin actorID bootstrap) db =
     auth_commit (create clock now newID hashed username password isAdmin actorID bootstrap db) db"
| "auth_exec hash verify (DoDisable now personID actorID) db = auth_commit (Disable now personID actorID db) db"
| "auth_exec hash verify (DoEnable now password hashed personID actorID) db =
     auth_commit (Enable now password hashed personID actorID db) db"
| "auth_exec hash verify (DoSetAdmin personID isAdmin actorID) db = auth_commit (SetAdmin personID isAdmin actorID db) db"
| "auth_exec hash verify (DoResetPassword now hashed personID newPassword actorID) db =
     auth_commit (ResetPassword now hashed personID newPassword actorID db) db"
| "auth_exec hash verify (DoChangePassword hashed personID current newPassword before) db =
     auth_commit (ChangePassword verify hashed personID current newPassword before db) db"
| "auth_exec hash verify (DoRevokeAll personID actorID) db = auth_commit (RevokeAll personID actorID db) db"
| "auth_exec hash verify (DoCreateSession clock now plain newID person ttl ip userAgent) db =
     auth_commit (CreateSession hash clock now plain newID person ttl ip userAgent db) db"
| "auth_exec hash verify (DoIdentify now sessionToken) db = auth_commit (SessionIdentity hash now sessionToken db) db"
| "auth_exec hash verify (DoRevokeSession sessionID actorID) db = auth_commit (RevokeSession sessionID actorID db) db"
| "auth_exec hash verify (DoDeleteSession sessionToken) db = DeleteSession hash sessionToken db"
| "auth_exec hash verify (DoPruneSessions now) db = snd (PruneExpiredSessions now db)"
| "auth_exec hash verify (DoCreateToken clock now plain newID personID name scope ttl repos before) db =
     auth_commit (CreateToken hash clock now plain newID personID name scope ttl repos before db) db"
| "auth_exec hash verify (DoRevokeToken personID tokenID) db = auth_commit (RevokeToken personID tokenID db) db"
| "auth_exec hash verify (DoAuthenticate now plain repositoryName) db =
     auth_commit (Authenticate hash now plain repositoryName db) db"
| "auth_exec hash verify (DoPruneTokens now) db = snd (PruneExpiredTokens now db)"
| "auth_exec hash verify (DoRepositories repos) db = set_repositories repos db"

definition any_op :: "auth_op \<Rightarrow> auth_db \<Rightarrow> bool" where
  "any_op op db = True"

definition empty_auth :: auth_db where
  "empty_auth = \<lparr>au_people = [], au_sessions = [], au_tokens = [], au_grants = [], au_repos = [], au_audit = []\<rparr>"

section \<open>The invariant\<close>

definition sessions_of :: "string \<Rightarrow> auth_db \<Rightarrow> session_row list" where
  "sessions_of personID db = filter (\<lambda>s. ss_person s = personID) (au_sessions db)"

definition tokens_of :: "string \<Rightarrow> auth_db \<Rightarrow> token_row list" where
  "tokens_of personID db = filter (\<lambda>t. tk_person t = personID) (au_tokens db)"

definition people_inv :: "auth_db \<Rightarrow> bool" where
  "people_inv db \<longleftrightarrow> distinct (map pe_ID (au_people db)) \<and> distinct (map pe_Username (au_people db))"

text \<open>A credential belongs to the current generation of an enabled person.\<close>

definition session_live :: "auth_db \<Rightarrow> session_row \<Rightarrow> bool" where
  "session_live db s \<longleftrightarrow>
     (\<exists>p\<in>set (au_people db). pe_ID p = ss_person s \<and> pe_Generation p = ss_generation s \<and> pe_DisabledAt p = None)"

definition token_live :: "auth_db \<Rightarrow> token_row \<Rightarrow> bool" where
  "token_live db t \<longleftrightarrow>
     (\<exists>p\<in>set (au_people db). pe_ID p = tk_person t \<and> pe_Generation p = tk_generation t \<and>
        pe_DisabledAt p = None \<and> pe_BootstrapExpiresAt p = None)"

definition sessions_inv :: "auth_db \<Rightarrow> bool" where
  "sessions_inv db \<longleftrightarrow>
     distinct (map ss_hash (au_sessions db)) \<and> distinct (map ss_id (au_sessions db)) \<and>
     (\<forall>s\<in>set (au_sessions db). session_live db s) \<and>
     (\<forall>personID. length (sessions_of personID db) \<le> maxSessionsPerPerson)"

definition tokens_inv :: "auth_db \<Rightarrow> bool" where
  "tokens_inv db \<longleftrightarrow>
     distinct (map tk_hash (au_tokens db)) \<and> distinct (map tk_id (au_tokens db)) \<and>
     (\<forall>t\<in>set (au_tokens db). token_live db t) \<and>
     (\<forall>personID. length (tokens_of personID db) \<le> maxTokensPerPerson)"

definition grants_inv :: "auth_db \<Rightarrow> bool" where
  "grants_inv db \<longleftrightarrow> distinct (au_grants db) \<and> (\<forall>g\<in>set (au_grants db). fst g \<in> tk_id ` set (au_tokens db))"

definition auth_inv :: "auth_db \<Rightarrow> bool" where
  "auth_inv db \<longleftrightarrow> people_inv db \<and> sessions_inv db \<and> tokens_inv db \<and> grants_inv db"

lemmas auth_inv_defs = auth_inv_def people_inv_def sessions_inv_def tokens_inv_def grants_inv_def
  session_live_def token_live_def sessions_of_def tokens_of_def

lemma empty_auth_inv: "auth_inv empty_auth"
  by (simp add: empty_auth_def auth_inv_defs)

section \<open>Parts of operations\<close>

named_theorems auth_simps \<open>which tables an operation of the account service changes\<close>

lemma recordAdmin_tables [auth_simps]:
  "au_people (recordAdmin a k d db) = au_people db" "au_sessions (recordAdmin a k d db) = au_sessions db"
  "au_tokens (recordAdmin a k d db) = au_tokens db" "au_grants (recordAdmin a k d db) = au_grants db"
  "au_repos (recordAdmin a k d db) = au_repos db"
  by (simp_all add: recordAdmin_def)

lemma revokeCredentials_tables [auth_simps]:
  "au_people (revokeCredentials personID db) = au_people db"
  "au_sessions (revokeCredentials personID db) = filter (\<lambda>s. ss_person s \<noteq> personID) (au_sessions db)"
  "au_tokens (revokeCredentials personID db) = filter (\<lambda>t. tk_person t \<noteq> personID) (au_tokens db)"
  by (simp_all add: revokeCredentials_def delete_tokens_def deleteSessionsOf_def Let_def)

lemma delete_tokens_tables [auth_simps]:
  "au_people (delete_tokens P db) = au_people db" "au_sessions (delete_tokens P db) = au_sessions db"
  "au_tokens (delete_tokens P db) = filter (\<lambda>t. \<not> P t) (au_tokens db)" "au_repos (delete_tokens P db) = au_repos db"
  by (simp_all add: delete_tokens_def Let_def)

lemma update_person_tables [auth_simps]:
  "au_people (update_person P f db) = update_where P f (au_people db)"
  "au_sessions (update_person P f db) = au_sessions db" "au_tokens (update_person P f db) = au_tokens db"
  "au_grants (update_person P f db) = au_grants db" "au_repos (update_person P f db) = au_repos db"
  by (simp_all add: update_person_def)

lemma recordAdmin_inv: "auth_inv (recordAdmin a k d db) = auth_inv db"
  by (simp add: auth_inv_defs auth_simps)

lemma length_filter_conj: "length (filter (\<lambda>x. P x \<and> Q x) xs) \<le> length (filter Q xs)"
  by (induction xs) auto

lemma distinct_map_filterI: "distinct (map f xs) \<Longrightarrow> distinct (map f (filter P xs))"
  by (induction xs) auto

lemma sessions_inv_filter:
  assumes "sessions_inv db" and "au_sessions db' = filter P (au_sessions db)" and "au_people db' = au_people db"
  shows "sessions_inv db'"
proof -
  have "length (sessions_of personID db') \<le> length (sessions_of personID db)" for personID
    by (simp add: sessions_of_def assms length_filter_conj)
  then show ?thesis using assms order_trans by (fastforce simp: sessions_inv_def session_live_def distinct_map_filterI)
qed

lemma tokens_inv_filter:
  assumes "tokens_inv db" and "au_tokens db' = filter P (au_tokens db)" and "au_people db' = au_people db"
  shows "tokens_inv db'"
proof -
  have "length (tokens_of personID db') \<le> length (tokens_of personID db)" for personID
    by (simp add: tokens_of_def assms length_filter_conj)
  then show ?thesis using assms order_trans by (fastforce simp: tokens_inv_def token_live_def distinct_map_filterI)
qed

text \<open>An operation that leaves a table alone leaves the invariant of that table alone.\<close>

lemma inv_congs:
  "au_people db' = au_people db \<Longrightarrow> people_inv db' = people_inv db"
  "au_people db' = au_people db \<Longrightarrow> au_sessions db' = au_sessions db \<Longrightarrow> sessions_inv db' = sessions_inv db"
  "au_people db' = au_people db \<Longrightarrow> au_tokens db' = au_tokens db \<Longrightarrow> tokens_inv db' = tokens_inv db"
  "au_tokens db' = au_tokens db \<Longrightarrow> au_grants db' = au_grants db \<Longrightarrow> grants_inv db' = grants_inv db"
  by (simp_all add: people_inv_def sessions_inv_def tokens_inv_def grants_inv_def session_live_def
      token_live_def sessions_of_def tokens_of_def)

lemma filter_sessions_inv:
  assumes "auth_inv db"
  shows "auth_inv (db\<lparr>au_sessions := filter P (au_sessions db)\<rparr>)"
  using assms sessions_inv_filter [of db "db\<lparr>au_sessions := filter P (au_sessions db)\<rparr>" P]
  by (simp add: auth_inv_def inv_congs [of "db\<lparr>au_sessions := filter P (au_sessions db)\<rparr>" db])

text \<open>Grants are exactly those of tokens that are left, whatever tokens are deleted.\<close>

lemma delete_tokens_grants:
  assumes "grants_inv db"
  shows "grants_inv (delete_tokens P db)"
proof -
  have "fst g \<in> tk_id ` set (au_tokens (delete_tokens P db))" if g: "g \<in> set (au_grants (delete_tokens P db))" for g
  proof -
    have "g \<in> set (au_grants db)" and fresh: "fst g \<notin> tk_id ` set (filter P (au_tokens db))"
      using g by (auto simp: delete_tokens_def Let_def)
    then obtain t where "t \<in> set (au_tokens db)" "tk_id t = fst g"
      using assms by (auto simp: grants_inv_def)
    moreover from this fresh have "\<not> P t" by (auto simp: image_iff)
    ultimately show ?thesis by (force simp: auth_simps)
  qed
  moreover have "distinct (au_grants (delete_tokens P db))"
    using assms by (simp add: grants_inv_def delete_tokens_def Let_def)
  ultimately show ?thesis by (simp add: grants_inv_def)
qed

lemma delete_tokens_inv:
  assumes inv: "auth_inv db"
  shows "auth_inv (delete_tokens P db)"
  using inv tokens_inv_filter [of db "delete_tokens P db" "\<lambda>t. \<not> P t"]
  by (simp add: auth_inv_def inv_congs [of "delete_tokens P db" db] auth_simps delete_tokens_grants)

text \<open>
  Revoking a person's credentials restores the invariant after any change of that person's row
  that keeps the identifier and the username.
\<close>

definition only_changes :: "string \<Rightarrow> auth_db \<Rightarrow> auth_db \<Rightarrow> bool" where
  "only_changes personID db db' \<longleftrightarrow>
     (\<exists>f. au_people db' = update_where (\<lambda>p. pe_ID p = personID) f (au_people db) \<and>
        (\<forall>p. pe_ID (f p) = pe_ID p \<and> pe_Username (f p) = pe_Username p)) \<and>
     au_sessions db' = au_sessions db \<and> au_tokens db' = au_tokens db \<and> au_grants db' = au_grants db"

lemma revoke_inv:
  assumes inv: "auth_inv db" and change: "only_changes personID db db'"
  shows "auth_inv (revokeCredentials personID db')"
proof -
  obtain f where people: "au_people db' = update_where (\<lambda>p. pe_ID p = personID) f (au_people db)"
    and f: "\<And>p. pe_ID (f p) = pe_ID p \<and> pe_Username (f p) = pe_Username p"
    using change by (auto simp: only_changes_def)
  define base where "base = revokeCredentials personID db"
  have "auth_inv base"
    unfolding base_def revokeCredentials_def deleteSessionsOf_def
    by (intro delete_tokens_inv filter_sessions_inv inv)
  have tables: "au_sessions (revokeCredentials personID db') = au_sessions base"
    "au_tokens (revokeCredentials personID db') = au_tokens base"
    "au_grants (revokeCredentials personID db') = au_grants base"
    using change by (auto simp: base_def only_changes_def revokeCredentials_def delete_tokens_def
        deleteSessionsOf_def Let_def)
  have kept: "p \<in> set (au_people db')" if "p \<in> set (au_people db)" "pe_ID p \<noteq> personID" for p
    using that by (auto simp: people in_update_where)
  have gone: "s \<in> set (au_sessions base) \<Longrightarrow> ss_person s \<noteq> personID"
    "t \<in> set (au_tokens base) \<Longrightarrow> tk_person t \<noteq> personID" for s t
    by (auto simp: base_def auth_simps)
  have people_base: "au_people base = au_people db" by (simp add: base_def auth_simps)
  have live: "session_live (revokeCredentials personID db') s" if s: "s \<in> set (au_sessions base)" for s
  proof -
    have "session_live db s" using \<open>auth_inv base\<close> s people_base
      by (simp add: auth_inv_def sessions_inv_def session_live_def)
    then show ?thesis using kept gone(1) [OF s] by (auto simp: session_live_def auth_simps)
  qed
  have live': "token_live (revokeCredentials personID db') t" if t: "t \<in> set (au_tokens base)" for t
  proof -
    have "token_live db t" using \<open>auth_inv base\<close> t people_base
      by (simp add: auth_inv_def tokens_inv_def token_live_def)
    then show ?thesis using kept gone(2) [OF t] by (auto simp: token_live_def auth_simps)
  qed
  have "people_inv (revokeCredentials personID db')"
    using inv f by (auto simp: auth_inv_defs auth_simps people map_update_where_on)
  moreover have "sessions_inv (revokeCredentials personID db')"
    using \<open>auth_inv base\<close> live by (auto simp: auth_inv_def sessions_inv_def sessions_of_def tables)
  moreover have "tokens_inv (revokeCredentials personID db')"
    using \<open>auth_inv base\<close> live' by (auto simp: auth_inv_def tokens_inv_def tokens_of_def tables)
  moreover have "grants_inv (revokeCredentials personID db')"
    using \<open>auth_inv base\<close> by (simp add: auth_inv_def grants_inv_def tables)
  ultimately show ?thesis by (simp add: auth_inv_def)
qed

text \<open>Pruning keeps one row and at most \<open>n\<close> others of a person.\<close>

lemma prune_limit:
  assumes "distinct (map idf xs)" and "length kept \<le> n"
  shows "length (filter (\<lambda>x. own x = k) (filter (\<lambda>x. \<not> (own x = k \<and> idf x \<noteq> keep \<and> idf x \<notin> idf ` set kept)) xs)) \<le> Suc n"
    (is "length ?ys \<le> _")
proof -
  have "distinct (map idf ?ys)" using assms(1) by (intro distinct_map_filterI)
  then have "length ?ys = card (idf ` set ?ys)" using distinct_card by fastforce
  also have "\<dots> \<le> card (insert keep (idf ` set kept))" by (rule card_mono) auto
  also have "\<dots> \<le> Suc (card (idf ` set kept))" by (rule card_insert_le_m1) auto
  also have "\<dots> \<le> Suc n" using assms(2) card_image_le [of "set kept" idf] card_length [of kept] by simp
  finally show ?thesis .
qed

section \<open>Operations on people\<close>

lemma selectPersonByID_Inr:
  "selectPersonByID personID db = Inr p \<Longrightarrow> p \<in> set (au_people db) \<and> pe_ID p = personID"
  by (auto simp: selectPersonByID_def split: option.splits dest: find_SomeD)

lemma only_changes_update:
  assumes "\<And>p. P p \<Longrightarrow> pe_ID p = personID" and "\<And>p. pe_ID (f p) = pe_ID p \<and> pe_Username (f p) = pe_Username p"
  shows "only_changes personID db (update_person P f db)"
proof -
  have "update_where P f (au_people db) =
      update_where (\<lambda>p. pe_ID p = personID) (\<lambda>p. if P p then f p else p) (au_people db)"
    using assms(1) by (auto simp: update_where_def)
  moreover have "\<forall>p. pe_ID (if P p then f p else p) = pe_ID p \<and> pe_Username (if P p then f p else p) = pe_Username p"
    using assms(2) by simp
  ultimately show ?thesis unfolding only_changes_def auth_simps by blast
qed

lemma only_changes_twice:
  assumes "only_changes personID db db'" and "\<And>p. P p \<Longrightarrow> pe_ID p = personID"
    and "\<And>p. pe_ID (f p) = pe_ID p \<and> pe_Username (f p) = pe_Username p"
  shows "only_changes personID db (update_person P f db')"
proof -
  obtain g where g: "au_people db' = update_where (\<lambda>p. pe_ID p = personID) g (au_people db)"
    "\<And>p. pe_ID (g p) = pe_ID p \<and> pe_Username (g p) = pe_Username p"
    using assms(1) by (auto simp: only_changes_def)
  have "update_where P f (au_people db') =
      update_where (\<lambda>p. pe_ID p = personID) (\<lambda>p. if P (g p) then f (g p) else g p) (au_people db)"
    using assms(2) by (auto simp: g(1) update_where_def)
  moreover have "\<forall>p. pe_ID (if P (g p) then f (g p) else g p) = pe_ID p \<and>
      pe_Username (if P (g p) then f (g p) else g p) = pe_Username p"
    using assms(3) g(2) by simp
  ultimately show ?thesis using assms(1) unfolding only_changes_def auth_simps by blast
qed

lemma create_inv:
  assumes inv: "auth_inv db"
    and "create clock now newID hashed username password isAdmin actorID bootstrap db = Inr (r, db')"
  shows "auth_inv db'"
proof -
  have p: "pe_ID r \<notin> pe_ID ` set (au_people db)" "pe_Username r \<notin> pe_Username ` set (au_people db)"
    and db': "db' = recordAdmin actorID ''person.added'' (pe_Username r) (db\<lparr>au_people := au_people db @ [r]\<rparr>)"
    using assms(2) by (auto simp: create_def insertPerson_def bind_result_Inr Let_def split: sum.splits if_splits)
  have "people_inv db'" using inv p by (simp add: db' auth_inv_def people_inv_def auth_simps)
  moreover have "sessions_inv db'" "tokens_inv db'"
    using inv by (auto simp: db' auth_inv_def sessions_inv_def tokens_inv_def session_live_def token_live_def
        sessions_of_def tokens_of_def auth_simps)
  ultimately show ?thesis using inv by (simp add: db' auth_inv_def grants_inv_def auth_simps)
qed

lemma Disable_inv:
  assumes "auth_inv db" and "Disable now personID actorID db = Inr (r, db')"
  shows "auth_inv db'"
  using assms
  by (auto simp: Disable_def setDisabled_def bind_result_Inr Let_def recordAdmin_inv split: if_splits
      intro!: revoke_inv [of db] only_changes_update)

lemma Enable_inv:
  assumes "auth_inv db" and "Enable now password hashed personID actorID db = Inr (r, db')"
  shows "auth_inv db'"
  using assms
  by (auto simp: Enable_def bind_result_Inr Let_def recordAdmin_inv split: if_splits
      intro!: revoke_inv [of db] only_changes_update)

lemma ResetPassword_inv:
  assumes "auth_inv db" and "ResetPassword now hashed personID newPassword actorID db = Inr (r, db')"
  shows "auth_inv db'"
  using assms
  by (auto simp: ResetPassword_def setPasswordHash_def bind_result_Inr Let_def recordAdmin_inv split: if_splits
      intro!: revoke_inv [of db] only_changes_twice only_changes_update)

lemma ChangePassword_inv:
  assumes "auth_inv db" and "ChangePassword verify hashed personID current newPassword before db = Inr (r, db')"
  shows "auth_inv db'"
  using assms
  by (auto simp: ChangePassword_def bind_result_Inr Let_def recordAdmin_inv split: if_splits
      intro!: revoke_inv [of db] only_changes_update)

lemma RevokeAll_inv:
  assumes "auth_inv db" and "RevokeAll personID actorID db = Inr (r, db')"
  shows "auth_inv db'"
  using assms
  by (auto simp: RevokeAll_def recordAdmin_inv split: option.splits intro!: revoke_inv [of db] only_changes_update)

lemma SetAdmin_inv:
  assumes inv: "auth_inv db" and "SetAdmin personID isAdmin actorID db = Inr (r, db')"
  shows "auth_inv db'"
proof (cases "db' = db")
  case False
  then obtain d where db': "db' = recordAdmin actorID ''person.role'' d
      (update_person (\<lambda>p. pe_ID p = personID) (\<lambda>p. p\<lparr>pe_IsAdmin := isAdmin\<rparr>) db)"
    using assms(2) by (auto simp: SetAdmin_def setAdminRow_def bind_result_Inr split: if_splits)
  have "session_live db' s = session_live db s" "token_live db' t = token_live db t" for s t
    by (auto simp: db' session_live_def token_live_def auth_simps bex_update_where intro: bex_cong)
  then show ?thesis using inv
    by (simp add: db' auth_inv_def people_inv_def sessions_inv_def tokens_inv_def grants_inv_def auth_simps
        sessions_of_def tokens_of_def map_update_where_on)
qed (use inv in simp)

section \<open>Operations on sessions\<close>

lemma insertSession_Inr:
  assumes "insertSession now newID h person expiresAt ip userAgent db = Inr (r, db')"
  obtains p where "p \<in> set (au_people db)" "pe_ID p = pe_ID person" "pe_Generation p = pe_Generation person"
    "pe_DisabledAt p = None" "h \<notin> ss_hash ` set (au_sessions db)" "newID \<notin> ss_id ` set (au_sessions db)" "r = newID"
    "db' = db\<lparr>au_sessions := au_sessions db @
                 [\<lparr>ss_hash = h, ss_id = newID, ss_person = pe_ID p, ss_created = now, ss_expires = expiresAt,
                   ss_generation = pe_Generation p, ss_seen = now, ss_ip = ip, ss_agent = userAgent\<rparr>]\<rparr>"
proof -
  define Q where "Q = (\<lambda>p :: Person. pe_ID p = pe_ID person \<and> pe_Generation p = pe_Generation person \<and> pe_DisabledAt p = None \<and>
              (case pe_BootstrapExpiresAt p of None \<Rightarrow> True | Some t \<Rightarrow> now < t))"
  show thesis
  proof (cases "find Q (au_people db)")
    case None
    then show ?thesis using assms by (simp add: insertSession_def Q_def)
  next
    case (Some p)
    then have "p \<in> set (au_people db) \<and> Q p" by (rule find_SomeD)
    then show ?thesis
      using assms Some by (intro that [of p]) (auto simp: insertSession_def Q_def split: if_splits)
  qed
qed

lemma CreateSession_Inr:
  assumes "CreateSession hash clock now plain newID person ttl ip userAgent db = Inr (r, db')"
  obtains s p and kept :: "session_row list" where "p \<in> set (au_people db)" "pe_ID p = pe_ID person" "pe_Generation p = pe_Generation person"
    "pe_DisabledAt p = None" "ss_person s = pe_ID p" "ss_generation s = pe_Generation p" "ss_hash s = hash plain"
    "ss_id s = newID" "ss_expires s = clock + ttl" "hash plain \<notin> ss_hash ` set (au_sessions db)"
    "newID \<notin> ss_id ` set (au_sessions db)" "length kept < maxSessionsPerPerson"
    "db' = db\<lparr>au_sessions := filter (\<lambda>s. \<not> (ss_person s = pe_ID person \<and> ss_id s \<noteq> newID \<and> ss_id s \<notin> ss_id ` set kept))
       (au_sessions db @ [s])\<rparr>"
    "r = (plain, clock + ttl)"
proof -
  obtain sid db1 where ins: "insertSession now newID (hash plain) person (clock + ttl) ip
      (truncateUserAgent userAgent) db = Inr (sid, db1)" and r: "r = (plain, clock + ttl)"
    and db': "db' = pruneSessions (pe_ID person) sid db1"
    using assms by (auto simp: CreateSession_def bind_result_Inr)
  from insertSession_Inr [OF ins] obtain p where p: "p \<in> set (au_people db)" "pe_ID p = pe_ID person"
    "pe_Generation p = pe_Generation person" "pe_DisabledAt p = None"
    and fresh: "hash plain \<notin> ss_hash ` set (au_sessions db)" "newID \<notin> ss_id ` set (au_sessions db)" and sid: "sid = newID"
    and db1: "db1 = db\<lparr>au_sessions := au_sessions db @
                 [\<lparr>ss_hash = hash plain, ss_id = newID, ss_person = pe_ID p, ss_created = now,
                   ss_expires = clock + ttl, ss_generation = pe_Generation p, ss_seen = now, ss_ip = ip,
                   ss_agent = truncateUserAgent userAgent\<rparr>]\<rparr>" (is "_ = db\<lparr>au_sessions := _ @ [?s]\<rparr>")
    by blast
  show thesis
    by (rule that [of p ?s "take (maxSessionsPerPerson - 1) (rev (sort_key (\<lambda>s. (ss_seen s, ss_id s))
        (filter (\<lambda>s. ss_person s = pe_ID person \<and> ss_id s \<noteq> newID) (au_sessions db @ [?s]))))"])
      (use p fresh r in \<open>simp_all add: db' db1 sid pruneSessions_def Let_def maxSessionsPerPerson_def\<close>)
qed

lemma CreateSession_inv:
  assumes inv: "auth_inv db" and ok: "CreateSession hash clock now plain newID person ttl ip userAgent db = Inr (r, db')"
  shows "auth_inv db'"
proof -
  obtain s p and kept :: "session_row list" where p: "p \<in> set (au_people db)" "pe_ID p = pe_ID person" "pe_Generation p = pe_Generation person"
      "pe_DisabledAt p = None"
    and s: "ss_person s = pe_ID p" "ss_generation s = pe_Generation p" "ss_hash s = hash plain" "ss_id s = newID"
      "ss_expires s = clock + ttl"
    and fresh: "hash plain \<notin> ss_hash ` set (au_sessions db)" "newID \<notin> ss_id ` set (au_sessions db)"
    and kept: "length kept < maxSessionsPerPerson"
    and db': "db' = db\<lparr>au_sessions := filter (\<lambda>x. \<not> (ss_person x = pe_ID person \<and> ss_id x \<noteq> newID \<and>
       ss_id x \<notin> ss_id ` set kept)) (au_sessions db @ [s])\<rparr>"
    by (rule CreateSession_Inr [OF ok])
  define xs where "xs = au_sessions db @ [s]"
  have rows: "distinct (map ss_hash xs)" "distinct (map ss_id xs)" "\<forall>x\<in>set xs. session_live db x"
    using inv fresh p s by (auto simp: xs_def auth_inv_def sessions_inv_def session_live_def)
  have limit: "length (sessions_of personID db') \<le> maxSessionsPerPerson" for personID
  proof (cases "personID = pe_ID person")
    case True
    have "length kept \<le> maxSessionsPerPerson - 1" using kept by simp
    from prune_limit [OF rows(2) this, of ss_person personID newID] show ?thesis
      using True by (simp add: sessions_of_def db' xs_def maxSessionsPerPerson_def)
  next
    case False
    then have "sessions_of personID db' = sessions_of personID db"
      using p(2) s(1) by (simp add: sessions_of_def db') (rule filter_cong, auto)
    then show ?thesis using inv by (simp add: auth_inv_def sessions_inv_def)
  qed
  have "sessions_inv db'"
    using rows limit unfolding sessions_inv_def xs_def [symmetric]
    by (auto simp: db' xs_def [symmetric] distinct_map_filterI session_live_def simp del: filter_append)
  then show ?thesis using inv inv_congs [of db' db] by (simp add: db' auth_inv_def)
qed

lemma touch_inv:
  assumes "auth_inv db"
  shows "auth_inv (touchSession now h db)"
proof -
  have "sessions_of personID (touchSession now h db) =
      update_where (\<lambda>s. ss_hash s = h \<and> ss_seen s < now - minutes 1) (\<lambda>s. s\<lparr>ss_seen := now\<rparr>) (sessions_of personID db)"
    for personID
    by (simp add: sessions_of_def touchSession_def update_where_def filter_map comp_def) (rule map_cong, auto intro: filter_cong)
  then have "sessions_inv (touchSession now h db)"
    using assms by (simp add: auth_inv_def sessions_inv_def)
      (simp add: touchSession_def map_update_where_on ball_update_where session_live_def)
  then show ?thesis using assms inv_congs [of "touchSession now h db" db]
    by (simp add: auth_inv_def touchSession_def)
qed

lemma SessionIdentity_inv: "auth_inv db \<Longrightarrow> SessionIdentity hash now token db = Inr (r, db') \<Longrightarrow> auth_inv db'"
  by (auto simp: SessionIdentity_def touch_inv split: sum.splits if_splits)

lemma RevokeSession_inv: "auth_inv db \<Longrightarrow> RevokeSession sessionID actorID db = Inr (r, db') \<Longrightarrow> auth_inv db'"
  by (auto simp: RevokeSession_def deleteSessionByID_def bind_result_Inr recordAdmin_inv filter_sessions_inv
      split: if_splits)

section \<open>Operations on tokens\<close>

lemma grant_repositories_Inr:
  assumes "grant_repositories tokenID personID seen repos db = Inr (r, db')"
  shows "\<exists>ids. distinct ids \<and> set ids = set repos - set seen \<and> (\<forall>r\<in>set ids. can_read personID r db) \<and>
    db' = db\<lparr>au_grants := au_grants db @ map (Pair tokenID) ids\<rparr>"
  using assms
proof (induction tokenID personID seen repos db rule: grant_repositories.induct)
  case (2 tokenID personID seen repoID rest db)
  show ?case
  proof (cases "repoID \<in> set seen")
    case True
    then have "set (repoID # rest) - set seen = set rest - set seen" by auto
    then show ?thesis using 2 True by (simp del: set_simps)
  next
    case False
    then have read: "can_read personID repoID db" using "2.prems" by (auto split: if_splits)
    define db1 where "db1 = db\<lparr>au_grants := au_grants db @ [(tokenID, repoID)]\<rparr>"
    have same: "can_read personID x db1 = can_read personID x db" for x by (simp add: can_read_def db1_def)
    have "grant_repositories tokenID personID (repoID # seen) rest db1 = Inr (r, db')"
      using "2.prems" False read by (simp add: db1_def)
    then obtain ids where ids: "distinct ids" "set ids = set rest - set (repoID # seen)"
      "\<forall>r\<in>set ids. can_read personID r db1" "db' = db1\<lparr>au_grants := au_grants db1 @ map (Pair tokenID) ids\<rparr>"
      using "2.IH"(2) [OF False read] unfolding db1_def by blast
    show ?thesis
      by (rule exI [of _ "repoID # ids"]) (use ids read False in \<open>auto simp: same\<close>, simp_all add: db1_def)
  qed
qed auto

lemma insertToken_Inr:
  assumes "insertToken now t h generation db = Inr (r, db')"
  obtains p where "p \<in> set (au_people db)" "pe_ID p = at_PersonID t" "pe_DisabledAt p = None"
    "pe_BootstrapExpiresAt p = None" "at_ID t \<notin> tk_id ` set (au_tokens db)" "h \<notin> tk_hash ` set (au_tokens db)"
    "db' = db\<lparr>au_tokens := au_tokens db @
                 [\<lparr>tk_id = at_ID t, tk_person = pe_ID p, tk_name = at_Name t, tk_hash = h,
                   tk_all = at_AllRepositories t, tk_generation = pe_Generation p, tk_scope = at_Scope t,
                   tk_created = now, tk_expires = at_ExpiresAt t, tk_used = None\<rparr>]\<rparr>"
proof -
  define Q where "Q = (\<lambda>p :: Person. pe_ID p = at_PersonID t \<and> pe_Generation p = generation \<and> pe_DisabledAt p = None \<and>
              pe_BootstrapExpiresAt p = None)"
  show thesis
  proof (cases "find Q (au_people db)")
    case None
    then show ?thesis using assms by (simp add: insertToken_def Q_def)
  next
    case (Some p)
    then have "p \<in> set (au_people db) \<and> Q p" by (rule find_SomeD)
    then show ?thesis
      using assms Some by (intro that [of p]) (auto simp: insertToken_def Q_def split: if_splits)
  qed
qed

text \<open>The checks of \<open>CreateToken\<close> passed, and its three statements ran.\<close>

lemma CreateToken_steps:
  assumes "CreateToken hash clock now plain newID personID name scope ttl repos before db = Inr (r, db')"
  obtains p0 :: Person and created db1 db2 where "insertToken now
       \<lparr>at_AllRepositories = (repos = []), at_Repositories = repos, at_ID = newID,
        at_PersonID = personID, at_Name = trim_space name, at_Scope = scope, at_CreatedAt = 0,
        at_ExpiresAt = clock + token_duration ttl, at_LastUsedAt = None\<rparr> (hash plain) (pe_Generation p0) db = Inr (created, db1)"
    "grant_repositories newID personID [] repos db1 = Inr ((), db2)"
    "db' = pruneTokens personID newID db2" "r = (plain, created)"
    "scope = ScopeRead \<or> scope = ScopeWrite" "token_duration ttl \<le> hours (365 * 24)"
proof (cases "\<not> token_name_ok (trim_space name) \<or> (scope \<noteq> ScopeRead \<and> scope \<noteq> ScopeWrite)")
  case True
  then show ?thesis using assms by (auto simp: CreateToken_def Let_def split: if_splits)
next
  case False
  from assms False obtain p where sel: "selectPersonByID personID before = Inr p"
    by (cases "selectPersonByID personID before") (auto simp: CreateToken_def Let_def)
  have n: "\<not> (Disabled p \<or> pe_BootstrapExpiresAt p \<noteq> None)"
    "\<not> (token_duration ttl \<le> 0 \<or> hours (365 * 24) < token_duration ttl)"
    using assms False sel by (auto simp: CreateToken_def Let_def split: if_splits)
  then have "bind_result (insertToken now
            \<lparr>at_AllRepositories = (repos = []), at_Repositories = repos, at_ID = newID,
             at_PersonID = personID, at_Name = trim_space name, at_Scope = scope, at_CreatedAt = 0,
             at_ExpiresAt = clock + token_duration ttl, at_LastUsedAt = None\<rparr> (hash plain) (pe_Generation p) db)
          (\<lambda>(created, db). bind_result (grant_repositories newID personID [] repos db)
            (\<lambda>(_, db). ok ((plain, created), pruneTokens personID newID db))) = Inr (r, db')"
    using assms False sel by (simp add: CreateToken_def Let_def split: if_splits)
  then show ?thesis using n False that [of p] by (auto simp: bind_result_Inr)
qed

lemma CreateToken_Inr:
  assumes "CreateToken hash clock now plain newID personID name scope ttl repos before db = Inr (r, db')"
  obtains t p ids and kept :: "token_row list" where "p \<in> set (au_people db)" "pe_ID p = personID" "pe_DisabledAt p = None"
    "pe_BootstrapExpiresAt p = None" "tk_person t = personID" "tk_generation t = pe_Generation p" "tk_hash t = hash plain"
    "tk_id t = newID" "tk_scope t = scope" "tk_all t = (repos = [])" "tk_expires t = clock + token_duration ttl"
    "tk_used t = None" "scope = ScopeRead \<or> scope = ScopeWrite" "token_duration ttl \<le> hours (365 * 24)"
    "hash plain \<notin> tk_hash ` set (au_tokens db)" "newID \<notin> tk_id ` set (au_tokens db)"
    "distinct ids" "set ids = set repos" "\<forall>r\<in>set ids. can_read personID r db" "length kept < maxTokensPerPerson"
    "db' = delete_tokens (\<lambda>x. tk_person x = personID \<and> tk_id x \<noteq> newID \<and> tk_id x \<notin> tk_id ` set kept)
       (db\<lparr>au_tokens := au_tokens db @ [t], au_grants := au_grants db @ map (Pair newID) ids\<rparr>)"
    "fst r = plain"
proof -
  from CreateToken_steps [OF assms] obtain p0 :: Person and created db1 db2 where ins: "insertToken now
       \<lparr>at_AllRepositories = (repos = []), at_Repositories = repos, at_ID = newID,
        at_PersonID = personID, at_Name = trim_space name, at_Scope = scope, at_CreatedAt = 0,
        at_ExpiresAt = clock + token_duration ttl, at_LastUsedAt = None\<rparr> (hash plain) (pe_Generation p0) db = Inr (created, db1)"
    and grant: "grant_repositories newID personID [] repos db1 = Inr ((), db2)"
    and db': "db' = pruneTokens personID newID db2" and r: "r = (plain, created)"
    and scope: "scope = ScopeRead \<or> scope = ScopeWrite" and ttl: "token_duration ttl \<le> hours (365 * 24)"
    by blast
  from insertToken_Inr [OF ins, simplified]
  obtain p where p: "p \<in> set (au_people db)" "pe_ID p = personID" "pe_DisabledAt p = None" "pe_BootstrapExpiresAt p = None"
    and fresh: "newID \<notin> tk_id ` set (au_tokens db)" "hash plain \<notin> tk_hash ` set (au_tokens db)"
    and db1: "db1 = db\<lparr>au_tokens := au_tokens db @
                 [\<lparr>tk_id = newID, tk_person = pe_ID p, tk_name = trim_space name, tk_hash = hash plain,
                   tk_all = (repos = []), tk_generation = pe_Generation p, tk_scope = scope,
                   tk_created = now, tk_expires = clock + token_duration ttl, tk_used = None\<rparr>]\<rparr>"
      (is "_ = db\<lparr>au_tokens := _ @ [?t]\<rparr>")
    by blast
  obtain ids where ids: "distinct ids" "set ids = set repos" "\<forall>r\<in>set ids. can_read personID r db1"
    "db2 = db1\<lparr>au_grants := au_grants db1 @ map (Pair newID) ids\<rparr>"
    using grant_repositories_Inr [OF grant] by auto
  have "can_read personID x db1 = can_read personID x db" for x by (simp add: can_read_def db1)
  with ids(3) have read: "\<forall>r\<in>set ids. can_read personID r db" by simp
  show thesis
    by (rule that [of p ?t ids "take (maxTokensPerPerson - 1) (rev (sort_key (\<lambda>t. (tk_created t, tk_id t))
        (filter (\<lambda>t. tk_person t = personID \<and> tk_id t \<noteq> newID) (au_tokens db @ [?t]))))"])
      (use p fresh r scope ttl ids(1,2,4) read in \<open>simp_all add: db' db1 pruneTokens_def Let_def maxTokensPerPerson_def\<close>)
qed

lemma CreateToken_inv:
  assumes inv: "auth_inv db"
    and ok: "CreateToken hash clock now plain newID personID name scope ttl repos before db = Inr (r, db')"
  shows "auth_inv db'"
proof -
  obtain t p ids and kept :: "token_row list" where p: "p \<in> set (au_people db)" "pe_ID p = personID"
      "pe_DisabledAt p = None" "pe_BootstrapExpiresAt p = None"
    and t: "tk_person t = personID" "tk_generation t = pe_Generation p" "tk_hash t = hash plain" "tk_id t = newID"
    and fresh: "hash plain \<notin> tk_hash ` set (au_tokens db)" "newID \<notin> tk_id ` set (au_tokens db)"
    and ids: "distinct ids" and kept: "length kept < maxTokensPerPerson"
    and db': "db' = delete_tokens (\<lambda>x. tk_person x = personID \<and> tk_id x \<noteq> newID \<and> tk_id x \<notin> tk_id ` set kept)
       (db\<lparr>au_tokens := au_tokens db @ [t], au_grants := au_grants db @ map (Pair newID) ids\<rparr>)"
    by (rule CreateToken_Inr [OF ok], rule that) assumption+
  define xs where "xs = au_tokens db @ [t]"
  have rows: "distinct (map tk_hash xs)" "distinct (map tk_id xs)" "\<forall>x\<in>set xs. token_live db x"
    using inv fresh p t by (auto simp: xs_def auth_inv_def tokens_inv_def token_live_def)
  have tokens: "au_tokens db' = filter (\<lambda>x. \<not> (tk_person x = personID \<and> tk_id x \<noteq> newID \<and> tk_id x \<notin> tk_id ` set kept)) xs"
    by (simp add: db' auth_simps xs_def)
  have limit: "length (tokens_of person db') \<le> maxTokensPerPerson" for person
  proof (cases "person = personID")
    case True
    have "length kept \<le> maxTokensPerPerson - 1" using kept by simp
    from prune_limit [OF rows(2) this, of tk_person personID newID] show ?thesis
      using True by (simp add: tokens_of_def tokens maxTokensPerPerson_def)
  next
    case False
    then have "tokens_of person db' = tokens_of person db"
      using t(1) by (simp add: tokens_of_def tokens xs_def) (rule filter_cong, auto)
    then show ?thesis using inv by (simp add: auth_inv_def tokens_inv_def)
  qed
  have people: "au_people db' = au_people db" "au_sessions db' = au_sessions db" by (simp_all add: db' auth_simps)
  have "tokens_inv db'"
    using rows limit people by (auto simp: tokens_inv_def tokens distinct_map_filterI token_live_def)
  moreover have "grants_inv db'"
    unfolding db' using inv fresh ids t(4)
    by (intro delete_tokens_grants) (auto simp: auth_inv_def grants_inv_def distinct_map inj_on_def)
  moreover have "people_inv db'" "sessions_inv db'"
    using inv by (simp_all add: auth_inv_def inv_congs(1) [OF people(1)] inv_congs(2) [OF people])
  ultimately show ?thesis by (simp add: auth_inv_def)
qed

lemma RevokeToken_inv: "auth_inv db \<Longrightarrow> RevokeToken personID tokenID db = Inr (r, db') \<Longrightarrow> auth_inv db'"
  by (auto simp: RevokeToken_def deleteTokenRow_def bind_result_Inr delete_tokens_inv split: if_splits)

lemma use_token_inv:
  assumes "auth_inv db" and f: "\<And>t. tk_hash (f t) = tk_hash t \<and> tk_id (f t) = tk_id t \<and> tk_person (f t) = tk_person t \<and>
      tk_generation (f t) = tk_generation t"
  shows "auth_inv (db\<lparr>au_tokens := update_where P f (au_tokens db)\<rparr>)" (is "auth_inv ?db")
proof -
  have "length (tokens_of personID ?db) = length (tokens_of personID db)" for personID
    using f by (auto simp: tokens_of_def update_where_def filter_map comp_def intro!: arg_cong [of _ _ length] filter_cong)
  moreover have "tk_id ` set (update_where P f (au_tokens db)) = tk_id ` set (au_tokens db)"
    using f by (metis list.set_map map_update_where)
  ultimately show ?thesis using assms
    by (simp add: auth_inv_def people_inv_def sessions_inv_def tokens_inv_def grants_inv_def session_live_def
        token_live_def sessions_of_def map_update_where_on ball_update_where)
qed

lemma Authenticate_inv: "auth_inv db \<Longrightarrow> Authenticate hash now plain repo db = Inr (r, db') \<Longrightarrow> auth_inv db'"
  by (auto simp: Authenticate_def useToken_def use_token_inv split: if_splits option.splits)

section \<open>Every reachable state\<close>

lemma set_repositories_inv: "auth_inv db \<Longrightarrow> auth_inv (set_repositories repos db)"
  by (simp add: auth_inv_def people_inv_def sessions_inv_def tokens_inv_def grants_inv_def session_live_def
      token_live_def sessions_of_def tokens_of_def set_repositories_def)

lemma auth_commit_inv:
  "auth_inv db \<Longrightarrow> (\<And>a db'. res = Inr (a, db') \<Longrightarrow> auth_inv db') \<Longrightarrow> auth_inv (auth_commit res db)"
  by (auto simp: auth_commit_def split: sum.splits)

lemmas auth_op_invs = create_inv Disable_inv Enable_inv SetAdmin_inv ResetPassword_inv ChangePassword_inv
  RevokeAll_inv CreateSession_inv SessionIdentity_inv RevokeSession_inv CreateToken_inv RevokeToken_inv
  Authenticate_inv

lemma auth_exec_inv:
  assumes inv: "auth_inv db"
  shows "auth_inv (auth_exec hash verify op db)"
  by (cases op)
    (simp_all add: DeleteSession_def deleteSession_def filter_sessions_inv PruneExpiredSessions_def inv
      deleteExpiredSessions_def PruneExpiredTokens_def deleteExpiredTokens_def delete_tokens_inv set_repositories_inv,
     (rule auth_commit_inv [OF inv], blast intro: auth_op_invs inv)+)

interpretation auth: invariant_system any_op "auth_exec hash verify" auth_inv for hash verify
  by unfold_locales (rule auth_exec_inv)

end
