(* ===== verification/Auth_Properties.thy ===== *)
theory Auth_Properties
  imports Auth_System
begin

text \<open>
  What the account service guarantees in every reachable state: the invariant of its tables, an
  enabled admin that cannot be lost, revocations that nothing undoes, and tokens that open exactly
  the repositories they were created for.
\<close>

section \<open>An enabled admin remains\<close>

definition has_admin :: "auth_db \<Rightarrow> bool" where
  "has_admin db \<longleftrightarrow> (\<exists>p\<in>set (au_people db). enabled_admin p)"

lemma singleton_list:
  assumes "distinct xs" and "set xs = {x}"
  shows "xs = [x]"
proof (cases xs)
  case (Cons y ys)
  then have "y = x" "set ys \<subseteq> {x}" "x \<notin> set ys" using assms by auto
  then have "ys = []" by (cases ys) auto
  then show ?thesis using Cons \<open>y = x\<close> by simp
qed (use assms in simp)

lemma other_admin:
  assumes "people_inv db" and "has_admin db" and "\<not> isOnlyEnabledAdmin personID db"
  shows "\<exists>p\<in>set (au_people db). enabled_admin p \<and> pe_ID p \<noteq> personID"
proof (rule ccontr)
  let ?ids = "map pe_ID (filter enabled_admin (au_people db))"
  assume "\<not> ?thesis"
  then have "set ?ids = {personID}" using assms(2) by (auto simp: has_admin_def)
  moreover have "distinct ?ids"
    using assms(1) by (auto simp: people_inv_def distinct_map intro: inj_on_subset)
  ultimately have "?ids = [personID]" by (intro singleton_list)
  then show False using assms(3) by (simp add: isOnlyEnabledAdmin_def lockEnabledAdmins_def)
qed

lemma has_admin_update:
  "has_admin db \<Longrightarrow> au_people db' = update_where P f (au_people db) \<Longrightarrow>
    (\<And>p. P p \<Longrightarrow> enabled_admin p \<Longrightarrow> enabled_admin (f p)) \<Longrightarrow> has_admin db'"
  by (auto simp: has_admin_def bex_update_where)

lemma has_admin_other:
  "p \<in> set (au_people db) \<Longrightarrow> enabled_admin p \<Longrightarrow> pe_ID p \<noteq> personID \<Longrightarrow>
    au_people db' = update_where (\<lambda>p. pe_ID p = personID) f (au_people db) \<Longrightarrow> has_admin db'"
  by (auto simp: has_admin_def bex_update_where)

lemma has_admin_same: "au_people db' = au_people db \<Longrightarrow> has_admin db' = has_admin db"
  by (simp add: has_admin_def)

section \<open>What an operation does to people\<close>

text \<open>The five operations that revoke credentials, and whether one of them succeeded.\<close>

fun revokes :: "(string \<Rightarrow> string \<Rightarrow> verdict) \<Rightarrow> string \<Rightarrow> auth_op \<Rightarrow> auth_db \<Rightarrow> bool" where
  "revokes verify personID (DoDisable now q actorID) db \<longleftrightarrow> q = personID \<and> is_ok (Disable now q actorID db)"
| "revokes verify personID (DoEnable now password hashed q actorID) db \<longleftrightarrow>
     q = personID \<and> is_ok (Enable now password hashed q actorID db)"
| "revokes verify personID (DoResetPassword now hashed q newPassword actorID) db \<longleftrightarrow>
     q = personID \<and> is_ok (ResetPassword now hashed q newPassword actorID db)"
| "revokes verify personID (DoChangePassword hashed q current newPassword before) db \<longleftrightarrow>
     q = personID \<and> is_ok (ChangePassword verify hashed q current newPassword before db)"
| "revokes verify personID (DoRevokeAll q actorID) db \<longleftrightarrow> q = personID \<and> is_ok (RevokeAll q actorID db)"
| "revokes verify personID _ db \<longleftrightarrow> False"

text \<open>A change of one person that raises the generation, or leaves everything but the role alone.\<close>

definition raises :: "(Person \<Rightarrow> Person) \<Rightarrow> bool" where
  "raises f \<longleftrightarrow> (\<forall>p. pe_ID (f p) = pe_ID p \<and> pe_Username (f p) = pe_Username p \<and> pe_IsAdmin (f p) = pe_IsAdmin p \<and>
     pe_Generation (f p) = pe_Generation p + 1)"

datatype people_change =
  NoChange | Added Person | RoleSet string bool | Raised string "Person \<Rightarrow> Person" | Dropped string "Person \<Rightarrow> Person"

text \<open>
  \<open>Raised\<close> keeps an enabled person enabled; \<open>Dropped\<close> may disable one, when another admin is enabled.
\<close>

fun changes :: "people_change \<Rightarrow> auth_db \<Rightarrow> auth_db \<Rightarrow> bool" where
  "changes NoChange db db' \<longleftrightarrow> au_people db' = au_people db"
| "changes (Added p) db db' \<longleftrightarrow> au_people db' = au_people db @ [p]"
| "changes (RoleSet personID isAdmin) db db' \<longleftrightarrow>
     au_people db' = update_where (\<lambda>p. pe_ID p = personID) (\<lambda>p. p\<lparr>pe_IsAdmin := isAdmin\<rparr>) (au_people db) \<and>
     (isAdmin \<or> \<not> isOnlyEnabledAdmin personID db)"
| "changes (Raised personID f) db db' \<longleftrightarrow>
     au_people db' = update_where (\<lambda>p. pe_ID p = personID) f (au_people db) \<and> raises f \<and>
     (\<forall>p. pe_DisabledAt p = None \<longrightarrow> pe_DisabledAt (f p) = None)"
| "changes (Dropped personID f) db db' \<longleftrightarrow>
     au_people db' = update_where (\<lambda>p. pe_ID p = personID) f (au_people db) \<and> raises f \<and>
     \<not> isOnlyEnabledAdmin personID db"

lemma update_where_same_person:
  assumes "people_inv db" and "p \<in> set (au_people db)" and "pe_ID p = personID" and "Q p"
  shows "update_where (\<lambda>q. pe_ID q = personID \<and> Q q) f (au_people db) = update_where (\<lambda>q. pe_ID q = personID) f (au_people db)"
proof -
  have "Q q" if "q \<in> set (au_people db)" "pe_ID q = personID" for q
    using assms that by (auto simp: people_inv_def distinct_map dest: inj_onD)
  then show ?thesis by (auto simp: update_where_def)
qed

lemma Disable_change:
  assumes "Disable now personID actorID db = Inr (r, db')"
  shows "db' = db \<and> (\<exists>p\<in>set (au_people db). pe_ID p = personID \<and> Disabled p) \<or> (\<exists>f. changes (Dropped personID f) db db')"
proof -
  obtain p where p: "selectPersonByID personID db = Inr p"
    using assms by (auto simp: Disable_def Let_def bind_result_Inr)
  show ?thesis
  proof (cases "Disabled p")
    case True
    then show ?thesis using assms p selectPersonByID_Inr [OF p] by (auto simp: Disable_def)
  next
    case False
    then show ?thesis using assms p
      by (intro disjI2) (auto simp: Disable_def setDisabled_def bind_result_Inr auth_simps raises_def split: if_splits)
  qed
qed

lemma Enable_change:
  assumes inv: "people_inv db" and "Enable now password hashed personID actorID db = Inr (r, db')"
  shows "\<exists>f. changes (Raised personID f) db db'"
proof -
  let ?P = "\<lambda>q. pe_ID q = personID \<and> pe_DisabledAt q \<noteq> None"
  obtain h where some: "list_ex ?P (au_people db)" and db': "au_people db' = update_where ?P (\<lambda>q. q\<lparr>pe_DisabledAt := None,
      pe_PasswordHash := h, pe_Generation := pe_Generation q + 1, pe_BootstrapExpiresAt := Some (now + hours 24)\<rparr>)
      (au_people db)"
    using assms(2) by (auto simp: Enable_def bind_result_Inr auth_simps split: if_splits)
  obtain p where "p \<in> set (au_people db)" "?P p" using some by (auto simp: list_ex_iff)
  with update_where_same_person [OF inv, of p personID "\<lambda>q. pe_DisabledAt q \<noteq> None"] show ?thesis
    by (auto simp: db' raises_def)
qed

lemma ChangePassword_change:
  assumes inv: "people_inv db" and "ChangePassword verify hashed personID current newPassword before db = Inr (r, db')"
  shows "\<exists>f. changes (Raised personID f) db db'"
proof -
  obtain h g where some: "list_ex (\<lambda>q. pe_ID q = personID \<and> pe_Generation q = g \<and> pe_DisabledAt q = None) (au_people db)"
    and db': "au_people db' = update_where (\<lambda>q. pe_ID q = personID \<and> pe_Generation q = g \<and> pe_DisabledAt q = None)
      (\<lambda>q. q\<lparr>pe_PasswordHash := h, pe_Generation := pe_Generation q + 1, pe_BootstrapExpiresAt := None\<rparr>) (au_people db)"
    using assms(2) by (auto simp: ChangePassword_def bind_result_Inr auth_simps Let_def split: if_splits)
  obtain p where p: "p \<in> set (au_people db)" "pe_ID p = personID \<and> pe_Generation p = g \<and> pe_DisabledAt p = None"
    using some by (auto simp: list_ex_iff)
  with update_where_same_person [OF inv, of p personID "\<lambda>q. pe_Generation q = g \<and> pe_DisabledAt q = None"]
  show ?thesis
    by (auto simp: db' raises_def)
qed

lemma update_where_twice:
  "(\<And>x. P (f x) = P x) \<Longrightarrow> update_where P g (update_where P f xs) = update_where P (g \<circ> f) xs"
  by (auto simp: update_where_def)

lemma ResetPassword_change:
  assumes "ResetPassword now hashed personID newPassword actorID db = Inr (r, db')"
  shows "\<exists>f. changes (Raised personID f) db db'"
proof -
  obtain h where "au_people db' = update_where (\<lambda>q. pe_ID q = personID) ((\<lambda>q. q\<lparr>pe_BootstrapExpiresAt := Some (now + hours 24)\<rparr>) \<circ>
      (\<lambda>q. q\<lparr>pe_PasswordHash := h, pe_Generation := pe_Generation q + 1, pe_BootstrapExpiresAt := None\<rparr>)) (au_people db)"
    using assms by (auto simp: ResetPassword_def setPasswordHash_def bind_result_Inr auth_simps update_where_twice
        split: if_splits)
  then show ?thesis by (auto simp: raises_def)
qed

lemma RevokeAll_change:
  "RevokeAll personID actorID db = Inr (r, db') \<Longrightarrow> \<exists>f. changes (Raised personID f) db db'"
  by (auto simp: RevokeAll_def auth_simps raises_def split: option.splits)

lemma SetAdmin_change:
  "SetAdmin personID isAdmin actorID db = Inr (r, db') \<Longrightarrow>
    changes NoChange db db' \<or> changes (RoleSet personID isAdmin) db db'"
  by (auto simp: SetAdmin_def setAdminRow_def bind_result_Inr auth_simps split: if_splits)

lemma create_change:
  "create clock now newID hashed username password isAdmin actorID bootstrap db = Inr (r, db') \<Longrightarrow>
    changes (Added r) db db'"
  by (auto simp: create_def insertPerson_def bind_result_Inr Let_def auth_simps split: sum.splits if_splits)

lemma CreateSession_change: "CreateSession hash clock now plain newID person ttl ip userAgent db = Inr (r, db') \<Longrightarrow>
    changes NoChange db db'"
  by (auto elim: CreateSession_Inr)

lemma CreateToken_change: "CreateToken hash clock now plain newID personID name scope ttl repos before db = Inr (r, db') \<Longrightarrow>
    changes NoChange db db'"
  by (auto simp: auth_simps elim!: CreateToken_Inr)

lemma other_changes:
  "SessionIdentity hash now token db = Inr (r, db') \<Longrightarrow> changes NoChange db db'"
  "RevokeSession sessionID actorID db = Inr (q, db') \<Longrightarrow> changes NoChange db db'"
  "RevokeToken personID tokenID db = Inr (t, db') \<Longrightarrow> changes NoChange db db'"
  "Authenticate hash now plain repo db = Inr (u, db') \<Longrightarrow> changes NoChange db db'"
  by (auto simp: SessionIdentity_def touchSession_def RevokeSession_def deleteSessionByID_def RevokeToken_def
      deleteTokenRow_def Authenticate_def useToken_def bind_result_Inr auth_simps
      split: sum.splits option.splits if_splits)

lemma commit_change:
  "(\<And>r db'. res = Inr (r, db') \<Longrightarrow> \<exists>c. changes c db db') \<Longrightarrow> \<exists>c. changes c db (auth_commit res db)"
  by (cases res) (auto simp: auth_commit_def intro: exI [of _ NoChange])

lemmas op_changes = create_change Enable_change ResetPassword_change ChangePassword_change RevokeAll_change
  SetAdmin_change CreateSession_change CreateToken_change other_changes

lemma exec_change:
  assumes "auth_inv db"
  shows "\<exists>c. changes c db (auth_exec hash verify op db)"
proof (cases op)
  case (DoDisable now personID actorID)
  have "\<exists>c. changes c db db'" if "Disable now personID actorID db = Inr (r, db')" for r db'
    using Disable_change [OF that] by (metis changes.simps(1))
  then show ?thesis unfolding DoDisable auth_exec.simps by (rule commit_change)
next
  case (DoEnable now password hashed personID actorID)
  show ?thesis unfolding DoEnable auth_exec.simps
    using assms by (intro commit_change) (meson auth_inv_def Enable_change)
next
  case (DoChangePassword hashed personID current newPassword before)
  show ?thesis unfolding DoChangePassword auth_exec.simps
    using assms by (intro commit_change) (meson auth_inv_def ChangePassword_change)
next
  case (DoSetAdmin personID isAdmin actorID)
  show ?thesis unfolding DoSetAdmin auth_exec.simps by (intro commit_change) (meson SetAdmin_change)
qed (simp_all only: auth_exec.simps, ((rule commit_change, blast dest: op_changes) |
  (auto intro: exI [of _ NoChange] simp: DeleteSession_def deleteSession_def PruneExpiredSessions_def
    deleteExpiredSessions_def PruneExpiredTokens_def deleteExpiredTokens_def auth_simps set_repositories_def))+)

lemma commit_ok: "is_ok res \<Longrightarrow> \<exists>r. res = Inr (r, auth_commit res db)"
  by (cases res) (auto simp: auth_commit_def)

text \<open>A successful revocation raised the generation, or the person was disabled already.\<close>

lemma revokes_change:
  assumes "people_inv db" and "revokes verify personID op db"
  shows "(\<exists>f. changes (Raised personID f) db (auth_exec hash verify op db)) \<or>
    (\<exists>f. changes (Dropped personID f) db (auth_exec hash verify op db)) \<or>
    auth_exec hash verify op db = db \<and> (\<exists>p\<in>set (au_people db). pe_ID p = personID \<and> Disabled p)"
proof (cases op)
  case (DoDisable now q actorID)
  with assms(2) have "is_ok (Disable now q actorID db)" "q = personID" by auto
  with commit_ok [of _ db] DoDisable obtain r where "Disable now q actorID db = Inr (r, auth_exec hash verify op db)" by fastforce
  from Disable_change [OF this] show ?thesis using \<open>q = personID\<close> by blast
next
  case (DoEnable now password hashed q actorID)
  with assms(2) have "is_ok (Enable now password hashed q actorID db)" "q = personID" by auto
  with commit_ok [of _ db] DoEnable obtain r where "Enable now password hashed q actorID db = Inr (r, auth_exec hash verify op db)" by fastforce
  from Enable_change [OF assms(1) this] show ?thesis using \<open>q = personID\<close> by blast
next
  case (DoResetPassword now hashed q newPassword actorID)
  with assms(2) have "is_ok (ResetPassword now hashed q newPassword actorID db)" "q = personID" by auto
  with commit_ok [of _ db] DoResetPassword obtain r where "ResetPassword now hashed q newPassword actorID db = Inr (r, auth_exec hash verify op db)" by fastforce
  from ResetPassword_change [OF this] show ?thesis using \<open>q = personID\<close> by blast
next
  case (DoChangePassword hashed q current newPassword before)
  with assms(2) have "is_ok (ChangePassword verify hashed q current newPassword before db)" "q = personID" by auto
  with commit_ok [of _ db] DoChangePassword obtain r where "ChangePassword verify hashed q current newPassword before db = Inr (r, auth_exec hash verify op db)" by fastforce
  from ChangePassword_change [OF assms(1) this] show ?thesis using \<open>q = personID\<close> by blast
next
  case (DoRevokeAll q actorID)
  with assms(2) have "is_ok (RevokeAll q actorID db)" "q = personID" by auto
  with commit_ok [of _ db] DoRevokeAll obtain r where "RevokeAll q actorID db = Inr (r, auth_exec hash verify op db)" by fastforce
  from RevokeAll_change [OF this] show ?thesis using \<open>q = personID\<close> by blast
qed (use assms(2) in simp_all)

section \<open>Generations only grow\<close>

definition later_person :: "Person \<Rightarrow> Person \<Rightarrow> bool" where
  "later_person p p' \<longleftrightarrow> pe_ID p' = pe_ID p \<and> pe_Username p' = pe_Username p \<and> pe_Generation p \<le> pe_Generation p' \<and>
     (pe_Generation p' = pe_Generation p \<longrightarrow> Disabled p \<longrightarrow> Disabled p')"

definition generation_le :: "auth_db \<Rightarrow> auth_db \<Rightarrow> bool" where
  "generation_le db db' \<longleftrightarrow> (\<forall>p\<in>set (au_people db). \<exists>p'\<in>set (au_people db'). later_person p p')"

lemma generation_le_refl: "generation_le db db"
  by (auto simp: generation_le_def later_person_def)

lemma generation_le_trans: "generation_le s t \<Longrightarrow> generation_le t u \<Longrightarrow> generation_le s u"
  unfolding generation_le_def later_person_def by (metis order_antisym order_trans)

lemma changes_le: "changes c db db' \<Longrightarrow> generation_le db db'"
proof (cases c)
  case (RoleSet personID isAdmin)
  assume "changes c db db'"
  then show ?thesis using RoleSet
    by (auto simp: generation_le_def later_person_def bex_update_where Disabled_def)
qed (auto simp: generation_le_def later_person_def bex_update_where raises_def; force)+

lemma changes_admin: "changes c db db' \<Longrightarrow> people_inv db \<Longrightarrow> has_admin db \<Longrightarrow> has_admin db'"
proof (cases c)
  case (RoleSet personID isAdmin)
  assume c: "changes c db db'" and inv: "people_inv db" "has_admin db"
  show ?thesis
  proof (cases isAdmin)
    case True
    then show ?thesis using c RoleSet inv(2) has_admin_update by (fastforce simp: enabled_admin_def)
  next
    case False
    then show ?thesis using c RoleSet other_admin [OF inv] by (auto intro: has_admin_other)
  qed
next
  case (Dropped personID f)
  assume "changes c db db'" and inv: "people_inv db" "has_admin db"
  then show ?thesis using Dropped other_admin [OF inv] by (auto intro: has_admin_other)
next
  case (Raised personID f)
  assume "changes c db db'" and inv: "people_inv db" "has_admin db"
  then show ?thesis using Raised by (auto simp: enabled_admin_def raises_def intro: has_admin_update)
qed (auto simp: has_admin_def)

interpretation auth_order: ordered_system any_op "auth_exec hash verify" auth_inv generation_le for hash verify
  by unfold_locales (use generation_le_refl generation_le_trans exec_change changes_le in blast)+

interpretation auth_admin: invariant_system any_op "auth_exec hash verify" "\<lambda>db. auth_inv db \<and> has_admin db"
  for hash verify
  by unfold_locales (metis auth_exec_inv auth_inv_def changes_admin exec_change)

section \<open>Revoked credentials stay revoked\<close>

text \<open>Every credential of an earlier generation, and of this one if the person is disabled, is void.\<close>

definition stale :: "string \<Rightarrow> int \<Rightarrow> auth_db \<Rightarrow> bool" where
  "stale personID g db \<longleftrightarrow>
     (\<exists>p\<in>set (au_people db). pe_ID p = personID \<and> (g < pe_Generation p \<or> g = pe_Generation p \<and> Disabled p))"

lemma stale_le: "stale personID g db \<Longrightarrow> generation_le db db' \<Longrightarrow> stale personID g db'"
  unfolding stale_def generation_le_def later_person_def by (metis order_le_less order_less_le_trans)

lemma changed_stale:
  assumes "au_people db' = update_where (\<lambda>p. pe_ID p = personID) f (au_people db)" and "raises f"
    and "p \<in> set (au_people db)" and "pe_ID p = personID" and "g \<le> pe_Generation p"
  shows "stale personID g db'"
  using assms by (auto simp: stale_def bex_update_where raises_def intro!: bexI [of _ p])

lemma revokes_stale:
  assumes "people_inv db" and "revokes verify personID op db"
    and "p \<in> set (au_people db)" and "pe_ID p = personID" and "g \<le> pe_Generation p"
  shows "stale personID g (auth_exec hash verify op db)"
  using revokes_change [OF assms(1,2), of hash]
proof (elim disjE exE conjE bexE)
  fix q assume "auth_exec hash verify op db = db" "q \<in> set (au_people db)" "pe_ID q = personID" "Disabled q"
  moreover from this have "q = p" using assms by (auto simp: people_inv_def distinct_map dest: inj_onD)
  ultimately show ?thesis using assms(5) by (auto simp: stale_def intro!: bexI [of _ p])
qed (auto intro: changed_stale [OF _ _ assms(3-5)])

lemma person_unique: "people_inv db \<Longrightarrow> p \<in> set (au_people db) \<Longrightarrow> q \<in> set (au_people db) \<Longrightarrow> pe_ID p = pe_ID q \<Longrightarrow> p = q"
  by (auto simp: people_inv_def distinct_map dest: inj_onD)

lemma stale_person:
  assumes "people_inv db" and "stale personID g db" and "p \<in> set (au_people db)" and "pe_ID p = personID"
    and "pe_DisabledAt p = None"
  shows "g < pe_Generation p"
proof -
  obtain q where "q \<in> set (au_people db)" "pe_ID q = personID" "g < pe_Generation q \<or> g = pe_Generation q \<and> Disabled q"
    using assms(2) by (auto simp: stale_def)
  moreover from this have "q = p" using assms person_unique by metis
  ultimately show ?thesis using assms(5) by (auto simp: Disabled_def)
qed

lemma stale_login:
  assumes "people_inv db" and "stale (pe_ID person) (pe_Generation person) db"
  shows "CreateSession hash clock now plain newID person ttl ip userAgent db = Inl InvalidCredentials"
proof -
  have "find (\<lambda>p. pe_ID p = pe_ID person \<and> pe_Generation p = pe_Generation person \<and> pe_DisabledAt p = None \<and>
              (case pe_BootstrapExpiresAt p of None \<Rightarrow> True | Some t \<Rightarrow> now < t)) (au_people db) = None"
    using stale_person [OF assms] by (force simp: find_None_iff)
  then show ?thesis by (simp add: CreateSession_def insertSession_def)
qed

lemma stale_credentials:
  assumes "auth_inv db" and "stale personID g db"
  shows "s \<in> set (au_sessions db) \<Longrightarrow> ss_person s = personID \<Longrightarrow> g < ss_generation s"
    and "t \<in> set (au_tokens db) \<Longrightarrow> tk_person t = personID \<Longrightarrow> g < tk_generation t"
proof -
  have inv: "people_inv db" "\<forall>s\<in>set (au_sessions db). session_live db s" "\<forall>t\<in>set (au_tokens db). token_live db t"
    using assms(1) by (simp_all add: auth_inv_def sessions_inv_def tokens_inv_def)
  show "s \<in> set (au_sessions db) \<Longrightarrow> ss_person s = personID \<Longrightarrow> g < ss_generation s"
    using inv stale_person [OF inv(1) assms(2)] unfolding session_live_def by metis
  show "t \<in> set (au_tokens db) \<Longrightarrow> tk_person t = personID \<Longrightarrow> g < tk_generation t"
    using inv stale_person [OF inv(1) assms(2)] unfolding token_live_def by metis
qed

section \<open>A token opens what it was created for\<close>

lemma find_unique: "distinct (map f xs) \<Longrightarrow> x \<in> set xs \<Longrightarrow> f x = k \<Longrightarrow> find (\<lambda>y. f y = k) xs = Some x"
  by (induction xs) auto

lemma useToken_new:
  assumes inv: "auth_inv db" and t: "t \<in> set (au_tokens db)" and p: "p \<in> set (au_people db)" "pe_ID p = tk_person t"
    and live: "now < tk_expires t"
  shows "if tk_all t \<or> (\<exists>r\<in>set (au_repos db). (tk_id t, ac_id r) \<in> set (au_grants db) \<and> ac_name r = to_lower name)
     then \<exists>db'. useToken now (tk_hash t) name db = Inr ((p, tk_scope t), db')
     else useToken now (tk_hash t) name db = Inl InvalidToken"
proof -
  have hash: "find (\<lambda>u. tk_hash u = tk_hash t) (au_tokens db) = Some t"
    using inv t by (auto simp: auth_inv_def tokens_inv_def intro: find_unique)
  have same: "q = p" if "q \<in> set (au_people db)" "pe_ID q = tk_person t" for q
    using person_unique [of db q p] inv that p by (simp add: auth_inv_def)
  have "token_live db t" using inv t by (simp add: auth_inv_def tokens_inv_def)
  then have ok: "tk_generation t = pe_Generation p" "pe_DisabledAt p = None" "pe_BootstrapExpiresAt p = None"
    unfolding token_live_def using same by metis+
  let ?A = "token_active now name db t"
  have active: "?A q \<longleftrightarrow> q = p \<and> (tk_all t \<or> (\<exists>r\<in>set (au_repos db). (tk_id t, ac_id r) \<in> set (au_grants db) \<and> ac_name r = to_lower name))"
    if q: "q \<in> set (au_people db)" for q
  proof (cases "q = p")
    case True
    then show ?thesis using p ok live by (simp add: token_active_def list_ex_iff)
  next
    case False
    then show ?thesis using same [OF q] by (auto simp: token_active_def)
  qed
  show ?thesis
  proof (cases "find ?A (au_people db)")
    case None
    then have "\<not> ?A p" using p(1) by (auto simp: find_None_iff)
    then show ?thesis using None hash active [OF p(1)] by (simp add: useToken_def)
  next
    case (Some q)
    then have "q \<in> set (au_people db) \<and> ?A q" by (rule find_SomeD)
    then show ?thesis using Some hash active by (auto simp: useToken_def)
  qed
qed

section \<open>Sample state\<close>

definition sample_token_hash :: "string \<Rightarrow> string" where
  "sample_token_hash s = CHR ''#'' # s"

definition sample_verify :: "string \<Rightarrow> string \<Rightarrow> verdict" where
  "sample_verify h password = (if h = CHR ''#'' # password then HashMatches else HashMismatch)"

abbreviation auth_sample :: "auth_op \<Rightarrow> auth_db \<Rightarrow> auth_db" where
  "auth_sample \<equiv> auth_exec sample_token_hash sample_verify"

definition ada :: Person where
  "ada = \<lparr>pe_ID = ''p1'', pe_Username = ''ada'', pe_PasswordHash = ''#0123456789ab'', pe_IsAdmin = True,
     pe_DisabledAt = None, pe_CreatedAt = 1, pe_Generation = 1, pe_BootstrapExpiresAt = None\<rparr>"

definition bob :: Person where
  "bob = \<lparr>pe_ID = ''p2'', pe_Username = ''bob'', pe_PasswordHash = ''#abcdefghijkl'', pe_IsAdmin = False,
     pe_DisabledAt = None, pe_CreatedAt = 2, pe_Generation = 1, pe_BootstrapExpiresAt = None\<rparr>"

definition staffed :: auth_db where
  "staffed = \<lparr>au_people = [ada, bob], au_sessions = [], au_tokens = [], au_grants = [],
     au_repos = [\<lparr>ac_id = ''r1'', ac_name = ''app'', ac_everyone = False, ac_readers = [''p2'']\<rparr>],
     au_audit = [('''', ''person.added'', ''ada''), (''p1'', ''person.added'', ''bob'')]\<rparr>"

definition signed_in :: auth_db where
  "signed_in = staffed\<lparr>au_sessions := [\<lparr>ss_hash = ''#cookie'', ss_id = ''s1'', ss_person = ''p2'', ss_created = 3,
     ss_expires = 100, ss_generation = 1, ss_seen = 3, ss_ip = '''', ss_agent = ''curl''\<rparr>]\<rparr>"

definition staffing :: "auth_op list" where
  "staffing =
     [DoAddPerson 0 1 ''p1'' (Some ''#0123456789ab'') ''ada'' ''0123456789ab'' True '''' False,
      DoAddPerson 0 2 ''p2'' (Some ''#abcdefghijkl'') ''Bob'' ''abcdefghijkl'' False ''p1'' False,
      DoRepositories [\<lparr>ac_id = ''r1'', ac_name = ''app'', ac_everyone = False, ac_readers = [''p2'']\<rparr>]]"

lemma ValidatePassword_ascii:
  assumes "list_all (\<lambda>c. code c < 128) s" and "12 \<le> length s" and "length s \<le> 72"
  shows "ValidatePassword s = ok ()"
proof -
  have "valid_utf8 s" using assms(1)
    by (auto simp: valid_utf8_def runes_widths_ascii list_all_iff rune_error_def)
  then show ?thesis using assms by (simp add: ValidatePassword_def rune_count_ascii)
qed

lemma all_allowed_any [simp]: "all_allowed any_op step ops db"
  by (induction ops arbitrary: db) (simp_all add: any_op_def)

lemma sample_names:
  "ValidateUsername ''ada'' = ok ()" "ValidateUsername ''Bob'' = ok ()" "to_lower ''ada'' = ''ada''" "to_lower ''Bob'' = ''bob''"
  by code_simp+

lemma sample_passwords:
  "ValidatePassword ''0123456789ab'' = ok ()" "ValidatePassword ''abcdefghijkl'' = ok ()"
  by (rule ValidatePassword_ascii; simp)+

lemma staffing_run: "run_ops auth_sample staffing empty_auth = staffed"
  by (simp add: staffing_def auth_commit_def create_def validatedHash_def hashPassword_def insertPerson_def sample_names
      sample_passwords empty_auth_def recordAdmin_def set_repositories_def Let_def staffed_def ada_def bob_def)

lemma sign_in_run: "auth_sample (DoCreateSession 0 3 ''cookie'' ''s1'' bob 100 '''' ''curl'') staffed = signed_in"
  by (simp add: auth_commit_def CreateSession_def insertSession_def pruneSessions_def staffed_def signed_in_def ada_def bob_def
      truncateUserAgent_def maxUserAgentBytes_def sample_token_hash_def)

lemma staffed_reaches: "reaches any_op auth_sample empty_auth staffed"
  unfolding staffing_run [symmetric] by (rule reaches_run_ops) simp

lemma signed_in_reaches: "reaches any_op auth_sample empty_auth signed_in"
  unfolding sign_in_run [symmetric] by (rule reaches_step [OF staffed_reaches]) (simp add: any_op_def)

lemmas reachable_auth_inv = auth.inv_reaches [OF _ empty_auth_inv]

section \<open>Properties\<close>



text \<open>
  C21: whatever is called afterwards, in whatever order, an instance that has an enabled admin keeps
  one: the last enabled admin can neither be disabled nor lose the role.
\<close>

theorem enabled_admin_remains:
  assumes "reaches any_op (auth_exec hash verify) empty_auth db" and "p \<in> set (au_people db)"
    and "pe_IsAdmin p" and "\<not> Disabled p" and "reaches any_op (auth_exec hash verify) db db'"
  shows "\<exists>p'\<in>set (au_people db'). pe_IsAdmin p' \<and> \<not> Disabled p'"
proof -
  have "auth_inv db \<and> has_admin db"
    using assms reachable_auth_inv by (auto simp: has_admin_def enabled_admin_def Disabled_def)
  from auth_admin.inv_reaches [OF assms(5) this] show ?thesis
    by (auto simp: has_admin_def enabled_admin_def Disabled_def)
qed

theorem enabled_admin_remains_witness:
  "Disable 5 ''p1'' '''' staffed = Inl LastAdmin \<and>
   (\<exists>p\<in>set (au_people (auth_sample (DoDisable 5 ''p1'' '''') staffed)). pe_IsAdmin p \<and> \<not> Disabled p)"
proof
  show "Disable 5 ''p1'' '''' staffed = Inl LastAdmin"
    by (simp add: Disable_def staffed_def isOnlyEnabledAdmin_def lockEnabledAdmins_def enabled_admin_def ada_def bob_def
        selectPersonByID_def Disabled_def)
  show "\<exists>p\<in>set (au_people (auth_sample (DoDisable 5 ''p1'' '''') staffed)). pe_IsAdmin p \<and> \<not> Disabled p"
    by (rule enabled_admin_remains [OF staffed_reaches, of ada, OF _ _ _ reaches_one])
      (simp_all add: staffed_def ada_def Disabled_def any_op_def)
qed

text \<open>
  C22: once a call that revokes a person's credentials has succeeded (disabling, enabling, a password
  reset or change, revoking everything), no login verified before it can ever start a session, and
  every session and token of that person seen later was created after it.
\<close>

theorem revocation_is_final:
  assumes "reaches any_op (auth_exec hash verify) empty_auth db" and "revokes verify personID op db"
    and "p \<in> set (au_people db)" and "pe_ID p = personID"
    and "pe_ID login = personID" and "pe_Generation login \<le> pe_Generation p"
    and "reaches any_op (auth_exec hash verify) (auth_exec hash verify op db) db'"
  shows "CreateSession hash clock now plain newID login ttl ip userAgent db' = Inl InvalidCredentials \<and>
    (\<forall>s\<in>set (au_sessions db'). ss_person s = personID \<longrightarrow> pe_Generation p < ss_generation s) \<and>
    (\<forall>t\<in>set (au_tokens db'). tk_person t = personID \<longrightarrow> pe_Generation p < tk_generation t)"
proof -
  let ?db1 = "auth_exec hash verify op db"
  have inv: "auth_inv db" by (rule reachable_auth_inv [OF assms(1)])
  then have inv1: "auth_inv ?db1" by (rule auth_exec_inv)
  then have inv': "auth_inv db'" by (rule auth.inv_reaches [OF assms(7)])
  have people: "people_inv db" "people_inv db'" using inv inv' by (simp_all add: auth_inv_def)
  have le: "generation_le ?db1 db'" by (rule auth_order.le_reaches [OF assms(7) inv1])
  have stale: "stale personID g db'" if "g \<le> pe_Generation p" for g
    using revokes_stale [OF people(1) assms(2-4) that] le stale_le by blast
  have "CreateSession hash clock now plain newID login ttl ip userAgent db' = Inl InvalidCredentials"
    using stale_login [OF people(2)] stale [OF assms(6)] assms(5) by simp
  then show ?thesis using stale_credentials [OF inv' stale] by simp
qed

theorem revocation_is_final_witness:
  "CreateSession sample_token_hash 0 9 ''cookie'' ''s2'' bob 100 '''' ''curl''
     (auth_sample (DoRevokeAll ''p2'' ''p1'') signed_in) = Inl InvalidCredentials"
proof -
  have "revokes sample_verify ''p2'' (DoRevokeAll ''p2'' ''p1'') signed_in"
    by (simp add: RevokeAll_def signed_in_def staffed_def ada_def bob_def)
  moreover have "bob \<in> set (au_people signed_in)" "pe_ID bob = ''p2''"
    by (simp_all add: signed_in_def staffed_def bob_def)
  ultimately show ?thesis
    using revocation_is_final [OF signed_in_reaches _ _ _ _ _ reaches_refl] by blast
qed

text \<open>
  C38: until it expires, a new token opens exactly the repositories it was created for (every one, if
  none was named), with the scope it was given; every named one was readable by its owner. For any
  other repository it is refused.
\<close>

theorem CreateToken_opens:
  assumes "reaches any_op (auth_exec hash verify) empty_auth db" and "plain \<noteq> []"
    and "CreateToken hash clock now plain newID personID name scope ttl repos before db = Inr (r, db')"
    and "now' < clock + token_duration ttl"
  shows "(if repos = [] \<or> (\<exists>r\<in>set (au_repos db). ac_id r \<in> set repos \<and> ac_name r = to_lower repoName)
     then \<exists>p db''. Authenticate hash now' plain repoName db' = Inr ((p, scope), db'') \<and> pe_ID p = personID
     else Authenticate hash now' plain repoName db' = Inl InvalidToken) \<and>
    (\<forall>id\<in>set repos. can_read personID id db)"
proof -
  have inv: "auth_inv db" by (rule reachable_auth_inv [OF assms(1)])
  have inv': "auth_inv db'" by (rule CreateToken_inv [OF inv assms(3)])
  obtain t p ids and kept :: "token_row list" where p: "p \<in> set (au_people db)" "pe_ID p = personID" "pe_DisabledAt p = None"
      "pe_BootstrapExpiresAt p = None"
    and t: "tk_person t = personID" "tk_generation t = pe_Generation p" "tk_hash t = hash plain" "tk_id t = newID"
      "tk_scope t = scope" "tk_all t = (repos = [])" "tk_expires t = clock + token_duration ttl"
    and fresh: "newID \<notin> tk_id ` set (au_tokens db)"
    and ids: "set ids = set repos" "\<forall>r\<in>set ids. can_read personID r db"
    and db': "db' = delete_tokens (\<lambda>x. tk_person x = personID \<and> tk_id x \<noteq> newID \<and> tk_id x \<notin> tk_id ` set kept)
       (db\<lparr>au_tokens := au_tokens db @ [t], au_grants := au_grants db @ map (Pair newID) ids\<rparr>)"
    by (rule CreateToken_Inr [OF assms(3)], rule that) assumption+
  have tables: "au_people db' = au_people db" "au_repos db' = au_repos db" "t \<in> set (au_tokens db')"
    using t(4) by (auto simp: db' auth_simps)
  have "(newID, x) \<notin> set (au_grants db)" for x
    using inv fresh by (force simp: auth_inv_def grants_inv_def)
  then have grants: "(newID, x) \<in> set (au_grants db') \<longleftrightarrow> x \<in> set repos" for x
    using ids(1) by (auto simp: db' delete_tokens_def Let_def)
  have cond: "tk_all t \<or> (\<exists>r\<in>set (au_repos db'). (tk_id t, ac_id r) \<in> set (au_grants db') \<and> ac_name r = to_lower repoName) \<longleftrightarrow>
      repos = [] \<or> (\<exists>r\<in>set (au_repos db). ac_id r \<in> set repos \<and> ac_name r = to_lower repoName)"
    using t(4,6) tables(2) grants by simp
  have "now' < tk_expires t" "p \<in> set (au_people db')" "pe_ID p = tk_person t"
    using assms(4) t(1,7) p(1,2) tables(1) by simp_all
  from useToken_new [OF inv' tables(3) this(2,3,1), of repoName] p(2) assms(2) ids show ?thesis
    unfolding cond t(3,5) Authenticate_def by (auto split: if_splits)
qed

definition bob_token :: "(string \<times> AccessToken) auth_tx" where
  "bob_token = CreateToken sample_token_hash 0 4 ''secret'' ''t1'' ''p2'' ''ci'' ScopeRead (Some 50) [''r1''] signed_in signed_in"

lemma bob_token_ok: "\<exists>r db'. bob_token = Inr (r, db')"
proof -
  have "trim_space ''ci'' = ''ci''" "rune_count ''ci'' \<le> 100" by code_simp+
  then show ?thesis
    by (simp add: bob_token_def CreateToken_def token_name_ok_def selectPersonByID_def signed_in_def staffed_def ada_def
        bob_def Disabled_def token_duration_def hours_def insertToken_def sample_token_hash_def can_read_def Let_def)
qed

theorem CreateToken_opens_witness:
  "\<exists>r db' p db''. bob_token = Inr (r, db') \<and>
     Authenticate sample_token_hash 5 ''secret'' ''app'' db' = Inr ((p, ScopeRead), db'') \<and> pe_ID p = ''p2''"
proof -
  obtain r db' where ok: "bob_token = Inr (r, db')" using bob_token_ok by blast
  have "\<exists>p db''. Authenticate sample_token_hash 5 ''secret'' ''app'' db' = Inr ((p, ScopeRead), db'') \<and> pe_ID p = ''p2''"
    using CreateToken_opens [OF signed_in_reaches _ ok [unfolded bob_token_def], of 5 "''app''"]
    by (simp add: token_duration_def signed_in_def staffed_def to_lower_def to_lower_char_def is_upper_def)
  then show ?thesis using ok by blast
qed

end
