(* ===== verification/Push.thy ===== *)
theory Push
  imports Rules Auth
begin

text \<open>
  Package \<open>internal/push\<close>: reading the ref updates of a push (\<open>ParseUpdates\<close>) and deciding
  whether to accept them (\<open>ValidatePush\<close>), with the hash predicates of \<open>git/objects.go\<close> and the
  check of \<open>git/transaction.go\<close> that the refs have not moved.

  What the git program answers is an argument: the refs it lists, and \<open>ObjectType\<close>, \<open>IsAncestor\<close>,
  \<open>ResolveCommit\<close> and \<open>RefOID\<close>, whose failures are \<^const>\<open>Inl\<close>. A reason given to the pusher is a
  value instead of its English text.
\<close>

section \<open>Object hashes\<close>

definition IsHash :: "string \<Rightarrow> bool" where
  "IsHash s \<longleftrightarrow> (length s = 40 \<or> length s = 64) \<and> list_all is_hex_lower s"

definition IsZeroHash :: "string \<Rightarrow> bool" where
  "IsZeroHash s \<longleftrightarrow> IsHash s \<and> trim (\<lambda>c. c = CHR ''0'') s = []"

datatype ObjectKind = TypeBlob | TypeTree | TypeCommit | TypeTag | TypeUnknown string

section \<open>Updates\<close>

record Update =
  up_Old :: string
  up_New :: string
  up_Ref :: string
  up_Kind :: Kind
  up_Name :: string

definition no_kind :: Kind where
  "no_kind = KindUnknown []"

definition IsCreate :: "Update \<Rightarrow> bool" where
  "IsCreate u = IsZeroHash (up_Old u)"

definition IsDelete :: "Update \<Rightarrow> bool" where
  "IsDelete u = IsZeroHash (up_New u)"

datatype push_reason =
  OnlyBranchesAndTags | BadName "ref_error go_error" | HashName | NameTaken Kind string
| DeleteRefused refusal | PushNotAllowed "Rule option" string | NotACommit ObjectKind
| RewritesHistory "Rule option" | TagNotCommit | MovesTag "Rule option"
| PersonDisabled string | PersonCannotRead string

datatype push_error =
  TooManyUpdates | MalformedUpdate string | ReadFailure | GitError | RefMoved string | InvalidRefChange
| PushRejected "(string \<times> push_reason) list"

definition maxUpdates :: nat where
  "maxUpdates = 1000"

text \<open>
  \<open>bufio.Scanner\<close> with a buffer of 64 KiB and the default split function: lines end with a newline,
  or at the end of the input when that leaves a byte; a line that does not fit the buffer stops the
  scan with an error, and one trailing carriage return is dropped.
\<close>

definition maxLine :: nat where
  "maxLine = 64 * 1024"

definition scan_lines :: "string \<Rightarrow> string list" where
  "scan_lines s = (let ls = split_on (CHR 0x0A) s in if last ls = [] then butlast ls else ls)"

definition drop_cr :: "string \<Rightarrow> string" where
  "drop_cr s = (if s \<noteq> [] \<and> last s = CHR 0x0D then butlast s else s)"

text \<open>\<open>strings.SplitN(line, " ", 3)\<close>, when it has three fields.\<close>

definition split3 :: "string \<Rightarrow> (string \<times> string \<times> string) option" where
  "split3 line =
     (case split_on (CHR '' '') line of
        a # b # c # rest \<Rightarrow> Some (a, b, join_with '' '' (c # rest))
      | _ \<Rightarrow> None)"

definition parse_update :: "string \<Rightarrow> (push_error, Update) result" where
  "parse_update line =
     (case split3 line of
        None \<Rightarrow> Inl (MalformedUpdate line)
      | Some (old, new, ref) \<Rightarrow>
          if \<not> IsHash old \<or> \<not> IsHash new \<or> ref = [] then Inl (MalformedUpdate line)
          else (case SplitFullName ref of
            None \<Rightarrow> ok \<lparr>up_Old = old, up_New = new, up_Ref = ref, up_Kind = no_kind, up_Name = []\<rparr>
          | Some (kind, name) \<Rightarrow> ok \<lparr>up_Old = old, up_New = new, up_Ref = ref, up_Kind = kind, up_Name = name\<rparr>))"

fun parse_lines :: "Update list \<Rightarrow> string list \<Rightarrow> (push_error, Update list) result" where
  "parse_lines updates [] = ok updates"
| "parse_lines updates (raw # rest) =
     (if maxLine \<le> length raw then Inl ReadFailure
      else let line = drop_cr raw in
        if line = [] then parse_lines updates rest
        else if length updates = maxUpdates then Inl TooManyUpdates
        else bind_result (parse_update line) (\<lambda>u. parse_lines (updates @ [u]) rest))"

definition ParseUpdates :: "string \<Rightarrow> (push_error, Update list) result" where
  "ParseUpdates input = parse_lines [] (scan_lines input)"

section \<open>Validation\<close>

record pushContext =
  pc_repo :: Repo
  pc_person :: Person
  pc_rules :: "Rule list"

definition decide :: "pushContext \<Rightarrow> Update \<Rightarrow> Decision" where
  "decide pc u = Evaluate (pc_rules pc) (up_Kind u) (up_Name u) (pe_ID (pc_person pc)) (pe_IsAdmin (pc_person pc))
     (rp_DefaultPushPolicy (pc_repo pc)) (rp_DefaultPushPeople (pc_repo pc))"

definition who :: "pushContext \<Rightarrow> Who" where
  "who pc = \<lparr>who_ID = pe_ID (pc_person pc), who_Username = pe_Username (pc_person pc),
     who_IsAdmin = pe_IsAdmin (pc_person pc)\<rparr>"

type_synonym ref_key = "Kind \<times> string"

text \<open>What the git program answers about objects; \<open>ResolveCommit\<close> finds no commit with \<^const>\<open>None\<close>.\<close>

record git_objects =
  go_ObjectType :: "string \<Rightarrow> (push_error, ObjectKind) result"
  go_IsAncestor :: "string \<Rightarrow> string \<Rightarrow> (push_error, bool) result"
  go_ResolveCommit :: "string \<Rightarrow> (push_error, string option) result"

text \<open>The refs there will be once every update has been applied, in order.\<close>

definition mark_present :: "Update \<Rightarrow> ref_key list \<Rightarrow> ref_key list" where
  "mark_present u present =
     (if up_Kind u = no_kind then present
      else if IsDelete u then filter (\<lambda>k. k \<noteq> (up_Kind u, up_Name u)) present
      else (up_Kind u, up_Name u) # filter (\<lambda>k. k \<noteq> (up_Kind u, up_Name u)) present)"

definition present_after :: "ref_key list \<Rightarrow> Update list \<Rightarrow> ref_key list" where
  "present_after existing updates = fold mark_present updates existing"

definition check_create :: "ref_key list \<Rightarrow> Update \<Rightarrow> push_reason option" where
  "check_create present u =
     (case ValidateName (up_Name u) of
        Inl e \<Rightarrow> Some (BadName e)
      | Inr _ \<Rightarrow>
          if LooksLikeCommitHash (up_Name u) then Some HashName
          else if (Other (up_Kind u), up_Name u) \<in> set present then Some (NameTaken (Other (up_Kind u)) (up_Name u))
          else None)"

definition check_branch :: "git_objects \<Rightarrow> Decision \<Rightarrow> Update \<Rightarrow> (push_error, push_reason option) result" where
  "check_branch g d u =
     bind_result (go_ObjectType g (up_New u)) (\<lambda>typ.
       if typ \<noteq> TypeCommit then ok (Some (NotACommit typ))
       else if IsCreate u then ok None
       else bind_result (go_IsAncestor g (up_Old u) (up_New u)) (\<lambda>ff.
         ok (if \<not> ff \<and> \<not> d_AllowForce d then Some (RewritesHistory (d_MatchedRule d)) else None)))"

definition check_tag :: "git_objects \<Rightarrow> Decision \<Rightarrow> Update \<Rightarrow> (push_error, push_reason option) result" where
  "check_tag g d u =
     bind_result (go_ResolveCommit g (up_New u)) (\<lambda>c.
       ok (if c = None then Some TagNotCommit
           else if \<not> IsCreate u \<and> \<not> d_AllowForce d then Some (MovesTag (d_MatchedRule d))
           else None))"

definition check_update ::
  "git_objects \<Rightarrow> pushContext \<Rightarrow> ref_key list \<Rightarrow> Update \<Rightarrow> (push_error, push_reason option) result" where
  "check_update g pc present u =
     (if up_Kind u = no_kind then ok (Some OnlyBranchesAndTags)
      else case (if IsCreate u \<and> \<not> IsDelete u then check_create present u else None) of
        Some reason \<Rightarrow> ok (Some reason)
      | None \<Rightarrow>
          if IsDelete u then ok (map_option DeleteRefused
            (snd (CheckDelete (pc_repo pc) (pc_rules pc) (up_Kind u) (up_Name u) (who pc))))
          else let d = decide pc u in
            if \<not> d_CanPush d then ok (Some (PushNotAllowed (d_MatchedRule d) (pe_Username (pc_person pc))))
            else (case up_Kind u of
              KindBranch \<Rightarrow> check_branch g d u
            | KindTag \<Rightarrow> check_tag g d u
            | KindUnknown _ \<Rightarrow> ok None))"

fun collect_refusals ::
  "git_objects \<Rightarrow> pushContext \<Rightarrow> ref_key list \<Rightarrow> (string \<times> push_reason) list \<Rightarrow> Update list \<Rightarrow>
     (push_error, (string \<times> push_reason) list) result" where
  "collect_refusals g pc present rejections [] = ok rejections"
| "collect_refusals g pc present rejections (u # rest) =
     bind_result (check_update g pc present u) (\<lambda>reason.
       collect_refusals g pc present
         (rejections @ (case reason of None \<Rightarrow> [] | Some r \<Rightarrow> [(up_Ref u, r)])) rest)"

text \<open>
  \<open>readable\<close> is the answer of \<open>CanRead\<close>, \<open>existing\<close> the refs listed by git, \<^const>\<open>Inl\<close> when either
  could not be had.
\<close>

definition ValidatePush ::
  "git_objects \<Rightarrow> pushContext \<Rightarrow> (push_error, bool) result \<Rightarrow> (push_error, ref_key list) result \<Rightarrow> Update list \<Rightarrow>
     (push_error, unit) result" where
  "ValidatePush g pc readable existing updates =
     (if Disabled (pc_person pc) then Inl (PushRejected [([], PersonDisabled (pe_Username (pc_person pc)))])
      else bind_result readable (\<lambda>can_read.
        if \<not> can_read then Inl (PushRejected [([], PersonCannotRead (pe_Username (pc_person pc)))])
        else bind_result existing (\<lambda>refs.
          bind_result (collect_refusals g pc (present_after refs updates) [] updates) (\<lambda>rejections.
            if rejections = [] then ok () else Inl (PushRejected rejections)))))"

definition CanRead :: "Repo \<Rightarrow> string list \<Rightarrow> string \<Rightarrow> bool \<Rightarrow> bool" where
  "CanRead r readers personID isAdmin \<longleftrightarrow>
     isAdmin \<or> rp_Visibility r = VisibilityEveryone \<or> personID \<noteq> [] \<and> personID \<in> set readers"

section \<open>Refs that moved\<close>

text \<open>\<open>RefOID\<close> answers \<^const>\<open>None\<close> for a ref that does not exist.\<close>

fun CheckRefChanges ::
  "(Kind \<Rightarrow> string \<Rightarrow> (push_error, string option) result) \<Rightarrow> (string \<times> string \<times> string) list \<Rightarrow> (push_error, unit) result" where
  "CheckRefChanges RefOID [] = ok ()"
| "CheckRefChanges RefOID ((ref, old, new) # rest) =
     (case SplitFullName ref of
        None \<Rightarrow> Inl InvalidRefChange
      | Some (kind, name) \<Rightarrow>
          if ValidateName name \<noteq> ok () \<or> \<not> IsHash old \<or> \<not> IsHash new then Inl InvalidRefChange
          else bind_result (RefOID kind name) (\<lambda>current.
            if current = None \<and> IsZeroHash old then CheckRefChanges RefOID rest
            else if current \<noteq> Some old then Inl (RefMoved ref)
            else CheckRefChanges RefOID rest))"

end
