(* ===== verification/Push_Record.thy ===== *)
theory Push_Record
  imports Push Ci_Service
begin

text \<open>
  The durable half of a push: \<open>internal/push\<close> (\<open>prepareRecords\<close>, \<open>ApplyPush\<close>, \<open>recoverPush\<close>,
  \<open>recordPush\<close>) and the journal of \<open>internal/repo/operations.go\<close>. An intent is committed first,
  then one Git transaction changes the refs and leaves a receipt, then one database transaction
  records the push, brings the ref index up to date, creates its runs and completes the intent.

  The Git repositories are a state of their own, of any type \<open>'g\<close>, observed through \<open>git_env\<close>.
  What the Git transaction did is an argument, \<open>attempt\<close>: the state it left, whether it reported a
  failure, and whether this process died before it could go on. \<open>db_ok\<close> says whether the last
  database transaction of a call commits; if it does not, nothing of it remains.
\<close>

section \<open>Tables\<close>

record updateRecord =
  ur_Update :: Update
  ur_Commits :: nat
  ur_Capped :: bool
  ur_Decision :: Decision
  ur_Commit :: string
  ur_Pipeline :: string
  ur_Problem :: string
  ur_Force :: bool

record pushIntent =
  in_Repository :: "Repo option"
  in_PersonID :: string
  in_RemoteAddr :: string
  in_Records :: "updateRecord list"

text \<open>The JSON payload of an operation, decoded.\<close>

datatype payload = PushPayload pushIntent | RepositoryPayload string string string

record Operation =
  op_ID :: string
  op_RepoID :: string
  op_Kind :: string
  op_Name :: string
  op_ActorID :: string
  op_Payload :: payload
  op_CreatedAt :: timestamp
  op_Completed :: "timestamp option"
  op_Error :: string

record push_row =
  pu_id :: string
  pu_repo :: string
  pu_person :: string
  pu_ip :: string

record push_update_row =
  pp_push :: string
  pp_kind :: Kind
  pp_name :: string
  pp_old :: string
  pp_new :: string
  pp_create :: bool
  pp_delete :: bool
  pp_force :: bool
  pp_commits :: nat
  pp_capped :: bool

record refusal_row =
  rs_repo :: string
  rs_person :: string
  rs_ip :: string
  rs_refs :: "(string \<times> push_reason) list"

record push_db =
  pd_ci :: ci_db
  pd_people :: "Person list"
  pd_repos :: "Repo list"
  pd_rules :: "(string \<times> Rule) list"
  pd_readers :: "(string \<times> string) list"
  pd_ops :: "Operation list"
  pd_pushes :: "push_row list"
  pd_updates :: "push_update_row list"
  pd_refusals :: "refusal_row list"
  pd_audit :: "(string \<times> string) list"

datatype journal_error =
  PushError push_error | CiError ci_error | NoSuchOperation | NoSuchRepository | NoSuchPerson | DuplicatePush
| Diverged string | InvalidIntent | ReceiptMismatch | PendingOperation | MaintenanceMode | DatabaseFailure
| ApplyFailed | Died | ReasonMissing | ReasonTooLong | OperationNotFailed | OperationApplied | ActiveExecutions

record GitRef =
  gr_Kind :: Kind
  gr_Name :: string
  gr_Commit :: string

text \<open>What the git program answers about a repository in a given state.\<close>

record 'g git_env =
  ge_Refs :: "'g \<Rightarrow> (journal_error, GitRef list) result"
  ge_RefOID :: "'g \<Rightarrow> Kind \<Rightarrow> string \<Rightarrow> (push_error, string option) result"
  ge_Receipt :: "'g \<Rightarrow> string \<Rightarrow> string option"
  ge_HashObject :: "payload \<Rightarrow> string"

record 'g attempt =
  at_State :: 'g
  at_Failed :: bool
  at_Killed :: bool

section \<open>The operation journal\<close>

definition op_pending :: "Operation \<Rightarrow> bool" where
  "op_pending op \<longleftrightarrow> op_Completed op = None"

text \<open>Other services see which repositories have an unfinished operation.\<close>

definition set_ops :: "Operation list \<Rightarrow> push_db \<Rightarrow> push_db" where
  "set_ops ops db = db\<lparr>pd_ops := ops, pd_ci := (pd_ci db)\<lparr>db_pending := map op_RepoID (filter op_pending ops)\<rparr>\<rparr>"

definition CompleteOperationTx :: "timestamp \<Rightarrow> string \<Rightarrow> push_db \<Rightarrow> push_db" where
  "CompleteOperationTx now opID db =
     set_ops (update_where (\<lambda>op. op_ID op = opID) (\<lambda>op. op\<lparr>op_Completed := Some now, op_Error := []\<rparr>) (pd_ops db)) db"

definition RejectOperation :: "timestamp \<Rightarrow> string \<Rightarrow> string \<Rightarrow> push_db \<Rightarrow> push_db" where
  "RejectOperation now opID reason db =
     set_ops (update_where (\<lambda>op. op_ID op = opID \<and> op_pending op)
       (\<lambda>op. op\<lparr>op_Completed := Some now, op_Error := reason\<rparr>) (pd_ops db)) db"

text \<open>\<open>WithMutation\<close> refuses a change while another operation of the repository is unfinished.\<close>

definition WithMutation :: "string \<Rightarrow> push_db \<Rightarrow> (journal_error, unit) result" where
  "WithMutation repoID db =
     (if db_maintenance (pd_ci db) then Inl MaintenanceMode
      else if list_ex (\<lambda>op. op_RepoID op = repoID \<and> op_pending op) (pd_ops db) then Inl PendingOperation
      else ok ())"

text \<open>A repository is not deleted while anything of it runs, may still run, or owns a target.\<close>

definition active_executions :: "string \<Rightarrow> ci_db \<Rightarrow> bool" where
  "active_executions repoID db \<longleftrightarrow>
     list_ex (\<lambda>r. r_repo r = repoID \<and> r_status r = StatusRunning) (db_runs db) \<or>
     list_ex (\<lambda>s. s_container s \<noteq> None \<and> s_removed s = None \<and>
       list_ex (\<lambda>r. r_id r = s_run s \<and> r_repo r = repoID) (db_runs db)) (db_steps db) \<or>
     list_ex (\<lambda>t. dt_repo t = repoID \<and> dt_owner t \<noteq> None) (db_targets db)"

definition BeginOperation ::
  "timestamp \<Rightarrow> string \<Rightarrow> string \<Rightarrow> string \<Rightarrow> string \<Rightarrow> string \<Rightarrow> payload \<Rightarrow> push_db \<Rightarrow>
     (journal_error, Operation \<times> push_db) result" where
  "BeginOperation now newID repoID kind name actorID p db =
     (if kind = ''delete'' \<and> active_executions repoID (pd_ci db) then Inl ActiveExecutions
      else if newID \<in> op_ID ` set (pd_ops db) \<or> list_ex (\<lambda>op. op_RepoID op = repoID \<and> op_pending op) (pd_ops db) \<or>
         kind = ''create'' \<and> list_ex (\<lambda>op. op_Kind op = ''create'' \<and> op_Name op = name \<and> op_pending op) (pd_ops db)
      then Inl PendingOperation
      else let op = \<lparr>op_ID = newID, op_RepoID = repoID, op_Kind = kind, op_Name = name, op_ActorID = actorID,
                     op_Payload = p, op_CreatedAt = now, op_Completed = None, op_Error = []\<rparr>
           in ok (op, set_ops (pd_ops db @ [op]) db))"

text \<open>Recovery notes a failure on an operation that is still pending.\<close>

definition note_failure :: "string \<Rightarrow> string \<Rightarrow> push_db \<Rightarrow> push_db" where
  "note_failure opID text db =
     set_ops (update_where (\<lambda>op. op_ID op = opID \<and> op_pending op) (\<lambda>op. op\<lparr>op_Error := text\<rparr>) (pd_ops db)) db"

definition PendingOperations :: "push_db \<Rightarrow> Operation list" where
  "PendingOperations db =
     sort_key op_CreatedAt (sort_key op_ID (filter op_pending (pd_ops db)))"

section \<open>Preparing the records of a push\<close>

text \<open>What is read of commits: counts of new commits, whether one is readable, and files.\<close>

record git_log =
  gl_CountNewCommits :: "string \<Rightarrow> Kind \<Rightarrow> string \<Rightarrow> (push_error, nat \<times> bool) result"
  gl_CountCommits :: "string \<Rightarrow> string list \<Rightarrow> (push_error, nat \<times> bool) result"
  gl_Commit :: "string \<Rightarrow> (push_error, unit) result"
  gl_FileAt :: "string \<Rightarrow> file_at"

definition count_commits :: "git_log \<Rightarrow> Update \<Rightarrow> (push_error, nat \<times> bool) result" where
  "count_commits l u =
     (if IsDelete u then ok (0, False)
      else if IsCreate u then gl_CountNewCommits l (up_New u) (up_Kind u) (up_Name u)
      else gl_CountCommits l (up_New u) [up_Old u])"

definition resolve_update ::
  "git_objects \<Rightarrow> git_log \<Rightarrow> updateRecord \<Rightarrow> (push_error, updateRecord) result" where
  "resolve_update g l rec =
     (let u = ur_Update rec in
      bind_result (go_ResolveCommit g (up_New u)) (\<lambda>commit.
        case commit of None \<Rightarrow> Inl GitError
        | Some c \<Rightarrow>
            bind_result (gl_Commit l c) (\<lambda>_.
            bind_result (if up_Kind u = KindBranch \<and> \<not> IsCreate u
                         then bind_result (go_IsAncestor g (up_Old u) (up_New u)) (\<lambda>ff. ok (\<not> ff)) else ok False)
              (\<lambda>force.
                let rec = rec\<lparr>ur_Commit := c, ur_Force := force\<rparr> in
                if d_RunOnPush (ur_Decision rec)
                then (case LoadPipeline (gl_FileAt l) c of
                        None \<Rightarrow> Inl GitError
                      | Some (content, problem) \<Rightarrow> ok (rec\<lparr>ur_Pipeline := content, ur_Problem := problem\<rparr>))
                else ok rec))))"

fun prepareRecords ::
  "git_objects \<Rightarrow> git_log \<Rightarrow> pushContext \<Rightarrow> Update list \<Rightarrow> (push_error, updateRecord list) result" where
  "prepareRecords g l pc [] = ok []"
| "prepareRecords g l pc (u # rest) =
     (if up_Kind u = no_kind then prepareRecords g l pc rest
      else bind_result (count_commits l u) (\<lambda>(n, capped).
        let rec = \<lparr>ur_Update = u, ur_Commits = n, ur_Capped = capped, ur_Decision = decide pc u, ur_Commit = [],
                   ur_Pipeline = [], ur_Problem = [], ur_Force = False\<rparr> in
        bind_result (if IsDelete u then ok rec else resolve_update g l rec) (\<lambda>rec.
          bind_result (prepareRecords g l pc rest) (\<lambda>recs. ok (rec # recs)))))"

section \<open>Recording a push\<close>

text \<open>\<open>SyncRefsTx\<close>: the ref index becomes what git lists.\<close>

definition actual_ref :: "GitRef list \<Rightarrow> Kind \<Rightarrow> string \<Rightarrow> GitRef option" where
  "actual_ref actual kind name = find (\<lambda>r. gr_Kind r = kind \<and> gr_Name r = name) actual"

definition syncRefsRows :: "string \<Rightarrow> GitRef list \<Rightarrow> ref_row list \<Rightarrow> ref_row list" where
  "syncRefsRows repoID actual rows =
     (let kept = filter (\<lambda>r. rf_repo r \<noteq> repoID \<or> actual_ref actual (rf_kind r) (rf_name r) \<noteq> None) rows;
          updated = map (\<lambda>r. if rf_repo r \<noteq> repoID then r
            else (case actual_ref actual (rf_kind r) (rf_name r) of None \<Rightarrow> r | Some a \<Rightarrow> r\<lparr>rf_commit := gr_Commit a\<rparr>)) kept;
          fresh = filter (\<lambda>a. \<not> list_ex (\<lambda>r. rf_repo r = repoID \<and> rf_kind r = gr_Kind a \<and> rf_name r = gr_Name a) rows) actual
      in updated @ map (\<lambda>a. \<lparr>rf_repo = repoID, rf_kind = gr_Kind a, rf_name = gr_Name a, rf_commit = gr_Commit a\<rparr>) fresh)"

definition SyncRefsTx ::
  "'g git_env \<Rightarrow> 'g \<Rightarrow> string \<Rightarrow> push_db \<Rightarrow> (journal_error, GitRef list \<times> push_db) result" where
  "SyncRefsTx env g repoID db =
     bind_result (ge_Refs env g) (\<lambda>actual.
       ok (actual, db\<lparr>pd_ci := (pd_ci db)\<lparr>db_refs := syncRefsRows repoID actual (db_refs (pd_ci db))\<rparr>\<rparr>))"

definition insertPush :: "string \<Rightarrow> string \<Rightarrow> string \<Rightarrow> string \<Rightarrow> push_db \<Rightarrow> (journal_error, push_db) result" where
  "insertPush pushID repoID personID sourceIP db =
     (if pushID \<in> pu_id ` set (pd_pushes db) then Inl DuplicatePush
      else ok (db\<lparr>pd_pushes := pd_pushes db @
        [\<lparr>pu_id = pushID, pu_repo = repoID, pu_person = personID, pu_ip = sourceIP\<rparr>]\<rparr>))"

definition insertPushUpdate :: "string \<Rightarrow> updateRecord \<Rightarrow> push_db \<Rightarrow> push_db" where
  "insertPushUpdate pushID rec db =
     (let u = ur_Update rec in
      db\<lparr>pd_updates := pd_updates db @
        [\<lparr>pp_push = pushID, pp_kind = up_Kind u, pp_name = up_Name u, pp_old = up_Old u, pp_new = up_New u,
          pp_create = IsCreate u, pp_delete = IsDelete u, pp_force = ur_Force rec, pp_commits = ur_Commits rec,
          pp_capped = ur_Capped rec\<rparr>]\<rparr>)"

definition insertRefusal :: "string \<Rightarrow> string \<Rightarrow> string \<Rightarrow> (string \<times> push_reason) list \<Rightarrow> push_db \<Rightarrow> push_db" where
  "insertRefusal repoID personID sourceIP refusals db =
     db\<lparr>pd_refusals := pd_refusals db @ [\<lparr>rs_repo = repoID, rs_person = personID, rs_ip = sourceIP, rs_refs = refusals\<rparr>]\<rparr>"

definition deleted_reason :: "Kind \<Rightarrow> string \<Rightarrow> string" where
  "deleted_reason kind name = ''The '' @ kind_string kind @ '' '' @ name @ '' was deleted.''"

text \<open>What a record asks for, once the refs are known: cancelling, nothing, or a run.\<close>

definition record_run ::
  "(string \<Rightarrow> (parse_error, Config) result) \<Rightarrow> (parse_error \<Rightarrow> string) \<Rightarrow> timestamp \<Rightarrow> string \<Rightarrow> (nat \<Rightarrow> string) \<Rightarrow>
     string \<Rightarrow> string \<Rightarrow> string \<Rightarrow> GitRef list \<Rightarrow> updateRecord \<Rightarrow> ci_db \<Rightarrow>
     (journal_error, Created option \<times> ci_db) result" where
  "record_run parse et now runID stepIDs repoID personID pushID current rec db =
     (let u = ur_Update rec; here = actual_ref current (up_Kind u) (up_Name u) in
      if IsDelete u then
        (if here \<noteq> None then ok (None, db)
         else map_error CiError (bind_result
           (CancelQueuedTx now repoID (up_Kind u) (up_Name u) (deleted_reason (up_Kind u) (up_Name u)) db)
           (\<lambda>(_, db). ok (None, db))))
      else if \<not> d_RunOnPush (ur_Decision rec) then ok (None, db)
      else if (case here of None \<Rightarrow> [] | Some r \<Rightarrow> gr_Commit r) \<noteq> ur_Commit rec then Inl (Diverged (up_Ref u))
      else map_error CiError (bind_result
        (CreateTx parse et now runID stepIDs
          \<lparr>p_RepoID = repoID, p_Commit = ur_Commit rec, p_RefKind = up_Kind u, p_RefName = up_Name u,
           p_Trigger = TriggerPush, p_PersonID = personID, p_PushID = pushID, p_Pipeline = ur_Pipeline rec,
           p_PipelineProblem = ur_Problem rec, p_Decision = ur_Decision rec\<rparr> db)
        (\<lambda>(created, db). ok (Some created, db))))"

fun record_runs ::
  "(string \<Rightarrow> (parse_error, Config) result) \<Rightarrow> (parse_error \<Rightarrow> string) \<Rightarrow> timestamp \<Rightarrow> (nat \<Rightarrow> string \<times> (nat \<Rightarrow> string)) \<Rightarrow>
     string \<Rightarrow> string \<Rightarrow> string \<Rightarrow> GitRef list \<Rightarrow> nat \<Rightarrow> updateRecord list \<Rightarrow> ci_db \<Rightarrow>
     (journal_error, Created list \<times> ci_db) result" where
  "record_runs parse et now ids repoID personID pushID current i [] db = ok ([], db)"
| "record_runs parse et now ids repoID personID pushID current i (rec # rest) db =
     bind_result (record_run parse et now (fst (ids i)) (snd (ids i)) repoID personID pushID current rec db) (\<lambda>(created, db).
       bind_result (record_runs parse et now ids repoID personID pushID current (Suc i) rest db) (\<lambda>(more, db).
         ok ((case created of None \<Rightarrow> more | Some c \<Rightarrow> c # more), db)))"

definition recordPush ::
  "(string \<Rightarrow> (parse_error, Config) result) \<Rightarrow> (parse_error \<Rightarrow> string) \<Rightarrow> timestamp \<Rightarrow> (nat \<Rightarrow> string \<times> (nat \<Rightarrow> string)) \<Rightarrow>
     'g git_env \<Rightarrow> 'g \<Rightarrow> Repo \<Rightarrow> Person \<Rightarrow> string \<Rightarrow> updateRecord list \<Rightarrow> string \<Rightarrow> push_db \<Rightarrow>
     (journal_error, Created list \<times> push_db) result" where
  "recordPush parse et now ids env g r person remoteAddr records operationID db =
     (case find (\<lambda>op. op_ID op = operationID) (pd_ops db) of
        None \<Rightarrow> Inl NoSuchOperation
      | Some op \<Rightarrow>
          if \<not> op_pending op then ok ([], db)
          else bind_result (SyncRefsTx env g (rp_ID r) db) (\<lambda>(refs, db).
            bind_result (insertPush operationID (rp_ID r) (pe_ID person) remoteAddr db) (\<lambda>db.
              let db = fold (insertPushUpdate operationID) records db in
              bind_result (record_runs parse et now ids (rp_ID r) (pe_ID person) operationID refs 0 records (pd_ci db))
                (\<lambda>(created, ci). ok (created, CompleteOperationTx now operationID (db\<lparr>pd_ci := ci\<rparr>))))))"

section \<open>Applying and recovering\<close>

definition changes_of :: "updateRecord list \<Rightarrow> (string \<times> string \<times> string) list" where
  "changes_of records = map (\<lambda>rec. let u = ur_Update rec in (up_Ref u, up_Old u, up_New u)) records"

definition OperationApplied_in ::
  "'g git_env \<Rightarrow> 'g \<Rightarrow> string \<Rightarrow> payload \<Rightarrow> (journal_error, bool) result" where
  "OperationApplied_in env g opID p =
     (case ge_Receipt env g opID of
        None \<Rightarrow> ok False
      | Some h \<Rightarrow> if h \<noteq> ge_HashObject env p then Inl ReceiptMismatch else ok True)"

definition moved_text :: "string \<Rightarrow> string" where
  "moved_text ref = ref @ '': the ref changed; fetch its current state before retrying''"

text \<open>
  The part of \<open>recoverPush\<close> that concerns Git: \<^const>\<open>Inl\<close> an error, \<open>Inr (Some text)\<close> an operation to
  reject, \<open>Inr None\<close> one that Git has applied. The second component is the state of Git afterwards.
\<close>

definition apply_in_git ::
  "'g git_env \<Rightarrow> 'g attempt \<Rightarrow> Operation \<Rightarrow> pushIntent \<Rightarrow> 'g \<Rightarrow> (journal_error, string option) result \<times> 'g" where
  "apply_in_git env attempt op intent g =
     (case OperationApplied_in env g (op_ID op) (op_Payload op) of
        Inl e \<Rightarrow> (Inl e, g)
      | Inr True \<Rightarrow> (ok None, g)
      | Inr False \<Rightarrow>
          (case CheckRefChanges (ge_RefOID env g) (changes_of (in_Records intent)) of
             Inl (RefMoved ref) \<Rightarrow> (ok (Some (moved_text ref)), g)
           | Inl e \<Rightarrow> (Inl (PushError e), g)
           | Inr _ \<Rightarrow>
               let g' = at_State attempt in
               if at_Killed attempt then (Inl Died, g')
               else if \<not> at_Failed attempt then (ok None, g')
               else (case OperationApplied_in env g' (op_ID op) (op_Payload op) of
                  Inl e \<Rightarrow> (Inl e, g')
                | Inr True \<Rightarrow> (ok None, g')
                | Inr False \<Rightarrow>
                    (case CheckRefChanges (ge_RefOID env g') (changes_of (in_Records intent)) of
                       Inl (RefMoved ref) \<Rightarrow> (ok (Some (moved_text ref)), g')
                     | _ \<Rightarrow> (Inl ApplyFailed, g')))))"

text \<open>The database transaction that ends a call: it commits, or leaves everything as it was.\<close>

definition finish_tx :: "bool \<Rightarrow> push_db \<Rightarrow> (journal_error, 'a \<times> push_db) result \<Rightarrow> (journal_error, 'a) result \<times> push_db" where
  "finish_tx db_ok db res =
     (case res of
        Inl e \<Rightarrow> (Inl e, db)
      | Inr (a, db') \<Rightarrow> if db_ok then (ok a, db') else (Inl DatabaseFailure, db))"

definition recoverPush ::
  "(string \<Rightarrow> (parse_error, Config) result) \<Rightarrow> (parse_error \<Rightarrow> string) \<Rightarrow> timestamp \<Rightarrow> (nat \<Rightarrow> string \<times> (nat \<Rightarrow> string)) \<Rightarrow>
     'g git_env \<Rightarrow> 'g attempt \<Rightarrow> bool \<Rightarrow> Operation \<Rightarrow> push_db \<Rightarrow> 'g \<Rightarrow>
     (journal_error, bool) result \<times> push_db \<times> 'g" where
  "recoverPush parse et now ids env attempt db_ok op db g =
     (case op_Payload op of
        RepositoryPayload _ _ _ \<Rightarrow> (Inl InvalidIntent, db, g)
      | PushPayload intent \<Rightarrow>
          (case in_Repository intent of
             None \<Rightarrow> (Inl InvalidIntent, db, g)
           | Some r \<Rightarrow>
               if rp_ID r \<noteq> op_RepoID op then (Inl InvalidIntent, db, g)
               else (case apply_in_git env attempt op intent g of
                  (Inl e, g') \<Rightarrow> (Inl e, db, g')
                | (Inr (Some text), g') \<Rightarrow>
                    (case finish_tx db_ok db (ok (False, RejectOperation now (op_ID op) text db)) of
                       (res, db') \<Rightarrow> (res, db', g'))
                | (Inr None, g') \<Rightarrow>
                    (case find (\<lambda>p. pe_ID p = in_PersonID intent) (pd_people db) of
                       None \<Rightarrow> (Inl NoSuchPerson, db, g')
                     | Some person \<Rightarrow>
                         (case finish_tx db_ok db (bind_result
                             (recordPush parse et now ids env g' r person (in_RemoteAddr intent) (in_Records intent) (op_ID op) db)
                             (\<lambda>(_, db). ok (True, db))) of
                            (res, db') \<Rightarrow> (res, db', g'))))))"

definition load :: "string \<Rightarrow> string \<Rightarrow> push_db \<Rightarrow> (journal_error, pushContext) result" where
  "load repoID personID db =
     (case find (\<lambda>r. rp_ID r = repoID) (pd_repos db) of
        None \<Rightarrow> Inl NoSuchRepository
      | Some r \<Rightarrow> (case find (\<lambda>p. pe_ID p = personID) (pd_people db) of
          None \<Rightarrow> Inl NoSuchPerson
        | Some p \<Rightarrow> ok \<lparr>pc_repo = r, pc_person = p, pc_rules = map snd (filter (\<lambda>x. fst x = repoID) (pd_rules db))\<rparr>))"

definition readers_of :: "string \<Rightarrow> push_db \<Rightarrow> string list" where
  "readers_of repoID db = map snd (filter (\<lambda>x. fst x = repoID) (pd_readers db))"

text \<open>
  \<open>ValidatePush\<close> of the hook: a refusal is recorded, if the database lets it (\<open>refusal_ok\<close>).
\<close>

definition validate_hook ::
  "git_objects \<Rightarrow> 'g git_env \<Rightarrow> bool \<Rightarrow> string \<Rightarrow> string \<Rightarrow> string \<Rightarrow> Update list \<Rightarrow> push_db \<Rightarrow> 'g \<Rightarrow>
     (journal_error, unit) result \<times> push_db" where
  "validate_hook objects env refusal_ok repoID personID remoteAddr updates db g =
     (case load repoID personID db of
        Inl e \<Rightarrow> (Inl e, db)
      | Inr pc \<Rightarrow>
          (case ValidatePush objects pc
                  (ok (CanRead (pc_repo pc) (readers_of repoID db) personID (pe_IsAdmin (pc_person pc))))
                  (map_error (\<lambda>_. GitError) (bind_result (ge_Refs env g) (\<lambda>refs. ok (map (\<lambda>r. (gr_Kind r, gr_Name r)) refs)))) updates of
             Inl (PushRejected refusals) \<Rightarrow>
               (Inl (PushError (PushRejected refusals)),
                if refusal_ok then insertRefusal repoID personID remoteAddr refusals db else db)
           | Inl e \<Rightarrow> (Inl (PushError e), db)
           | Inr _ \<Rightarrow> (ok (), db)))"

definition ApplyPush ::
  "(string \<Rightarrow> (parse_error, Config) result) \<Rightarrow> (parse_error \<Rightarrow> string) \<Rightarrow> timestamp \<Rightarrow> (nat \<Rightarrow> string \<times> (nat \<Rightarrow> string)) \<Rightarrow>
     git_objects \<Rightarrow> git_log \<Rightarrow> 'g git_env \<Rightarrow> 'g attempt \<Rightarrow> bool \<Rightarrow> bool \<Rightarrow> string \<Rightarrow>
     string \<Rightarrow> string \<Rightarrow> string \<Rightarrow> Update list \<Rightarrow> push_db \<Rightarrow> 'g \<Rightarrow> (journal_error, unit) result \<times> push_db \<times> 'g" where
  "ApplyPush parse et now ids objects log env attempt refusal_ok db_ok newID repoID personID remoteAddr updates db g =
     (if updates = [] then (ok (), db, g)
      else case WithMutation repoID db of
        Inl e \<Rightarrow> (Inl e, db, g)
      | Inr _ \<Rightarrow>
          (case validate_hook objects env refusal_ok repoID personID remoteAddr updates db g of
             (Inl e, db') \<Rightarrow> (Inl e, db', g)
           | (Inr _, _) \<Rightarrow>
               (case bind_result (map_error PushError (CheckRefChanges (ge_RefOID env g) (map (\<lambda>u. (up_Ref u, up_Old u, up_New u)) updates))) (\<lambda>_.
                     bind_result (load repoID personID db) (\<lambda>pc.
                     bind_result (map_error PushError (prepareRecords objects log pc updates)) (\<lambda>records.
                     BeginOperation now newID (rp_ID (pc_repo pc)) ''push'' [] (pe_ID (pc_person pc))
                       (PushPayload \<lparr>in_Repository = Some (pc_repo pc), in_PersonID = pe_ID (pc_person pc),
                          in_RemoteAddr = remoteAddr, in_Records = records\<rparr>) db))) of
                  Inl e \<Rightarrow> (Inl e, db, g)
                | Inr (op, db1) \<Rightarrow>
                    (case recoverPush parse et now ids env attempt db_ok op db1 g of
                       (Inl e, db2, g') \<Rightarrow> (Inl e, db2, g')
                     | (Inr applied, db2, g') \<Rightarrow> (if applied then ok () else Inl (PushError (RefMoved [])), db2, g')))))"

text \<open>
  \<open>AbandonOperation\<close>; \<open>opened\<close> is \<^const>\<open>False\<close> if the repository's directory does not exist, and
  \<open>locked\<close> is \<^const>\<open>True\<close> while another process holds its lock.
\<close>

definition abandoned_text :: "string \<Rightarrow> string \<Rightarrow> string" where
  "abandoned_text actorID reason =
     ''abandoned by '' @ (if actorID = [] then ''the command line'' else actorID) @ '': '' @ reason"

definition AbandonOperation ::
  "timestamp \<Rightarrow> 'g git_env \<Rightarrow> bool \<Rightarrow> bool \<Rightarrow> string \<Rightarrow> string \<Rightarrow> string \<Rightarrow> (string \<Rightarrow> 'g) \<Rightarrow> push_db \<Rightarrow>
     (journal_error, Operation \<times> push_db) result" where
  "AbandonOperation now env opened locked opID actorID reason gits db =
     (let reason = trim_space reason in
      if reason = [] then Inl ReasonMissing
      else if 1000 < length reason then Inl ReasonTooLong
      else case find (\<lambda>op. op_ID op = opID \<and> op_pending op) (pd_ops db) of
        None \<Rightarrow> Inl NoSuchOperation
      | Some op \<Rightarrow>
          if locked then Inl PendingOperation
          else if op_Error op = [] then Inl OperationNotFailed
          else bind_result (if opened then OperationApplied_in env (gits (op_RepoID op)) opID (op_Payload op) else ok False)
            (\<lambda>applied.
              if applied then Inl OperationApplied
              else let text = abandoned_text actorID reason;
                       repoName = (case find (\<lambda>r. rp_ID r = op_RepoID op) (pd_repos db) of
                                     None \<Rightarrow> op_RepoID op | Some r \<Rightarrow> rp_Name r)
                   in ok (op\<lparr>op_Error := text\<rparr>,
                     (set_ops (update_where (\<lambda>o'. op_ID o' = opID) (\<lambda>o'. o'\<lparr>op_Completed := Some now, op_Error := text\<rparr>)
                        (pd_ops db)) db)
                     \<lparr>pd_audit := pd_audit db @ [(actorID, op_Kind op @ '' '' @ repoName @ '': '' @ reason)]\<rparr>)))"

end
