(* ===== verification/Push_System.thy ===== *)
theory Push_System
  imports Push_Record Ci_System
begin

text \<open>
  Pushes as a transition system over the database and the Git repositories, one per repository
  identifier: pushes, recoveries by another process, failures noted on an operation, operations an
  operator abandons, other operations of the journal and everything the run service does. A call
  may die between its transactions. What the Git transaction may do is the hypothesis
  \<open>git_transaction\<close>, the documented behaviour of \<open>git update-ref --stdin\<close>: all of a transaction's
  updates happen, the receipt included, or none does.
\<close>

section \<open>Operations\<close>

datatype 'g push_op =
  DoPush timestamp "nat \<Rightarrow> string \<times> (nat \<Rightarrow> string)" git_objects git_log "'g attempt" bool bool string string string string
    "Update list"
| DoRecover timestamp "nat \<Rightarrow> string \<times> (nat \<Rightarrow> string)" "'g attempt" bool string
| DoNoteFailure string string
| DoAbandon timestamp bool bool string string string
| DoBeginOther timestamp string string string string string payload
| DoCompleteOther timestamp string
| DoRunService ci_op

type_synonym 'g push_state = "push_db \<times> (string \<Rightarrow> 'g)"

definition recover_one ::
  "(string \<Rightarrow> (parse_error, Config) result) \<Rightarrow> (parse_error \<Rightarrow> string) \<Rightarrow> timestamp \<Rightarrow> (nat \<Rightarrow> string \<times> (nat \<Rightarrow> string)) \<Rightarrow>
     'g git_env \<Rightarrow> 'g attempt \<Rightarrow> bool \<Rightarrow> string \<Rightarrow> 'g push_state \<Rightarrow> 'g push_state" where
  "recover_one parse et now ids env a db_ok opID s =
     (case s of (db, gits) \<Rightarrow>
        (case find (\<lambda>op. op_ID op = opID \<and> op_pending op \<and> op_Kind op = ''push'') (pd_ops db) of
           None \<Rightarrow> s
         | Some op \<Rightarrow>
             (case recoverPush parse et now ids env a db_ok op db (gits (op_RepoID op)) of
                (_, db', g') \<Rightarrow> (db', gits(op_RepoID op := g')))))"

fun push_exec ::
  "(string \<Rightarrow> (parse_error, Config) result) \<Rightarrow> (parse_error \<Rightarrow> string) \<Rightarrow> (string \<Rightarrow> string) \<Rightarrow> 'g git_env \<Rightarrow>
     'g push_op \<Rightarrow> 'g push_state \<Rightarrow> 'g push_state" where
  "push_exec parse et hash env (DoPush now ids objects log a refusal_ok db_ok newID repoID personID remote updates) (db, gits) =
     (case ApplyPush parse et now ids objects log env a refusal_ok db_ok newID repoID personID remote updates db (gits repoID) of
        (_, db', g') \<Rightarrow> (db', gits(repoID := g')))"
| "push_exec parse et hash env (DoRecover now ids a db_ok opID) (db, gits) =
     recover_one parse et now ids env a db_ok opID (db, gits)"
| "push_exec parse et hash env (DoNoteFailure opID text) (db, gits) = (note_failure opID text db, gits)"
| "push_exec parse et hash env (DoAbandon now opened locked opID actorID reason) (db, gits) =
     (case AbandonOperation now env opened locked opID actorID reason gits db of
        Inl _ \<Rightarrow> (db, gits) | Inr (_, db') \<Rightarrow> (db', gits))"
| "push_exec parse et hash env (DoBeginOther now newID repoID kind name actorID p) (db, gits) =
     (case BeginOperation now newID repoID kind name actorID p db of
        Inl _ \<Rightarrow> (db, gits) | Inr (_, db') \<Rightarrow> (db', gits))"
| "push_exec parse et hash env (DoCompleteOther now opID) (db, gits) = (CompleteOperationTx now opID db, gits)"
| "push_exec parse et hash env (DoRunService op) (db, gits) =
     (db\<lparr>pd_ci := (ci_exec parse et hash op (pd_ci db))\<lparr>db_pending := db_pending (pd_ci db)\<rparr>\<rparr>, gits)"

text \<open>
  All or nothing: other receipts stay; this operation's receipt is there afterwards, or the
  transaction changed nothing and did not succeed.
\<close>

definition git_transaction :: "'g git_env \<Rightarrow> string \<Rightarrow> 'g \<Rightarrow> 'g attempt \<Rightarrow> bool" where
  "git_transaction env opID g a \<longleftrightarrow>
     (\<forall>i. i \<noteq> opID \<longrightarrow> ge_Receipt env (at_State a) i = ge_Receipt env g i) \<and>
     (ge_Receipt env (at_State a) opID \<noteq> None \<or> at_State a = g \<and> (at_Failed a \<or> at_Killed a))"

text \<open>
  Beside that: only pushes begin operations of kind \<open>push\<close>, the operations completed by others are
  not pushes, and a repository that does not exist holds no receipt.
\<close>

fun push_allowed :: "'g git_env \<Rightarrow> 'g push_op \<Rightarrow> 'g push_state \<Rightarrow> bool" where
  "push_allowed env (DoPush now ids objects log a refusal_ok db_ok newID repoID personID remote updates) (db, gits) =
     git_transaction env newID (gits repoID) a"
| "push_allowed env (DoRecover now ids a db_ok opID) (db, gits) =
     (\<forall>op\<in>set (pd_ops db). op_ID op = opID \<longrightarrow> git_transaction env opID (gits (op_RepoID op)) a)"
| "push_allowed env (DoAbandon now opened locked opID actorID reason) (db, gits) =
     (\<forall>op\<in>set (pd_ops db). op_ID op = opID \<and> \<not> opened \<longrightarrow> ge_Receipt env (gits (op_RepoID op)) opID = None)"
| "push_allowed env (DoBeginOther now newID repoID kind name actorID p) s = (kind \<noteq> ''push'')"
| "push_allowed env (DoCompleteOther now opID) (db, gits) =
     (\<forall>op\<in>set (pd_ops db). op_ID op = opID \<longrightarrow> op_Kind op \<noteq> ''push'')"
| "push_allowed env _ s = True"

section \<open>The invariant\<close>

definition recorded_push :: "push_db \<Rightarrow> string \<Rightarrow> bool" where
  "recorded_push db opID \<longleftrightarrow> opID \<in> pu_id ` set (pd_pushes db)"

definition applied_push :: "'g git_env \<Rightarrow> (string \<Rightarrow> 'g) \<Rightarrow> Operation \<Rightarrow> bool" where
  "applied_push env gits op \<longleftrightarrow> ge_Receipt env (gits (op_RepoID op)) (op_ID op) \<noteq> None"

text \<open>
  A push operation is recorded exactly when it completed without an error, only if Git has its
  receipt; and if Git has its receipt it is recorded or still to be recovered.
\<close>

definition op_consistent :: "'g git_env \<Rightarrow> push_db \<Rightarrow> (string \<Rightarrow> 'g) \<Rightarrow> Operation \<Rightarrow> bool" where
  "op_consistent env db gits op \<longleftrightarrow>
     op_Kind op = ''push'' \<longrightarrow>
       (recorded_push db (op_ID op) \<longleftrightarrow> \<not> op_pending op \<and> op_Error op = []) \<and>
       (recorded_push db (op_ID op) \<longrightarrow> applied_push env gits op) \<and>
       (applied_push env gits op \<longrightarrow> op_pending op \<or> recorded_push db (op_ID op))"

definition ops_inv :: "push_db \<Rightarrow> bool" where
  "ops_inv db \<longleftrightarrow> distinct (map op_ID (pd_ops db)) \<and> distinct (map op_RepoID (filter op_pending (pd_ops db)))"

definition pushes_inv :: "push_db \<Rightarrow> bool" where
  "pushes_inv db \<longleftrightarrow> distinct (map pu_id (pd_pushes db)) \<and>
     (\<forall>x\<in>set (pd_updates db). recorded_push db (pp_push x)) \<and>
     (\<forall>x\<in>set (pd_pushes db). \<exists>op\<in>set (pd_ops db). op_ID op = pu_id x \<and> op_RepoID op = pu_repo x \<and> op_Kind op = ''push'')"

definition receipts_known :: "'g git_env \<Rightarrow> push_db \<Rightarrow> (string \<Rightarrow> 'g) \<Rightarrow> bool" where
  "receipts_known env db gits \<longleftrightarrow>
     (\<forall>repoID i. ge_Receipt env (gits repoID) i \<noteq> None \<longrightarrow>
        (\<exists>op\<in>set (pd_ops db). op_ID op = i \<and> op_RepoID op = repoID \<and> op_Kind op = ''push''))"

definition push_inv :: "'g git_env \<Rightarrow> 'g push_state \<Rightarrow> bool" where
  "push_inv env s \<longleftrightarrow>
     (case s of (db, gits) \<Rightarrow>
        ops_inv db \<and> pushes_inv db \<and> receipts_known env db gits \<and>
        (\<forall>op\<in>set (pd_ops db). op_consistent env db gits op))"

lemma set_ops_tables [simp]:
  "pd_ops (set_ops ops db) = ops" "pd_pushes (set_ops ops db) = pd_pushes db" "pd_updates (set_ops ops db) = pd_updates db"
  "pd_people (set_ops ops db) = pd_people db" "pd_repos (set_ops ops db) = pd_repos db"
  by (simp_all add: set_ops_def)

lemma recorded_push_cong: "pd_pushes db' = pd_pushes db \<Longrightarrow> recorded_push db' i = recorded_push db i"
  by (simp add: recorded_push_def)

section \<open>What recording does\<close>

lemma insertPushUpdate_tables:
  "pd_pushes (insertPushUpdate i rec db) = pd_pushes db" "pd_ops (insertPushUpdate i rec db) = pd_ops db"
  "pd_ci (insertPushUpdate i rec db) = pd_ci db"
  by (simp_all add: insertPushUpdate_def Let_def)

lemma insert_updates_tables:
  "pd_pushes (fold (insertPushUpdate i) recs db) = pd_pushes db" "pd_ops (fold (insertPushUpdate i) recs db) = pd_ops db"
  by (induction recs arbitrary: db) (simp_all add: insertPushUpdate_tables)

lemma insert_updates_rows:
  "\<exists>us. pd_updates (fold (insertPushUpdate i) recs db) = pd_updates db @ us \<and> (\<forall>x\<in>set us. pp_push x = i) \<and> length us = length recs"
proof (induction recs arbitrary: db)
  case (Cons rec recs)
  obtain row where row: "pd_updates (insertPushUpdate i rec db) = pd_updates db @ [row]" "pp_push row = i"
    by (simp add: insertPushUpdate_def Let_def)
  from Cons [of "insertPushUpdate i rec db"] obtain us where
    "pd_updates (fold (insertPushUpdate i) recs (insertPushUpdate i rec db)) = pd_updates db @ row # us"
    "\<forall>x\<in>set us. pp_push x = i" "length us = length recs" by (auto simp: row)
  then show ?case using row(2) by (intro exI [of _ "row # us"]) simp
qed simp

text \<open>A push is recorded with its operation's identifier, once, and its operation completes.\<close>

lemma recordPush_Inr:
  assumes "recordPush parse et now ids env g r person remote recs opID db = Inr (created, db')"
    and "find (\<lambda>op. op_ID op = opID) (pd_ops db) = Some op" and "op_pending op"
  obtains us where "opID \<notin> pu_id ` set (pd_pushes db)"
    "pd_pushes db' = pd_pushes db @ [\<lparr>pu_id = opID, pu_repo = rp_ID r, pu_person = pe_ID person, pu_ip = remote\<rparr>]"
    "pd_updates db' = pd_updates db @ us" "\<forall>x\<in>set us. pp_push x = opID" "length us = length recs"
    "pd_ops db' = update_where (\<lambda>op. op_ID op = opID) (\<lambda>op. op\<lparr>op_Completed := Some now, op_Error := []\<rparr>) (pd_ops db)"
proof -
  obtain refs db1 db2 ci where sync: "SyncRefsTx env g (rp_ID r) db = Inr (refs, db1)"
    and ins: "insertPush opID (rp_ID r) (pe_ID person) remote db1 = Inr db2"
    and db': "db' = CompleteOperationTx now opID ((fold (insertPushUpdate opID) recs db2)\<lparr>pd_ci := ci\<rparr>)"
    using assms by (auto simp: recordPush_def Let_def bind_result_Inr)
  have db1: "pd_pushes db1 = pd_pushes db" "pd_updates db1 = pd_updates db" "pd_ops db1 = pd_ops db"
    using sync by (auto simp: SyncRefsTx_def bind_result_Inr)
  have db2: "opID \<notin> pu_id ` set (pd_pushes db)" "pd_updates db2 = pd_updates db" "pd_ops db2 = pd_ops db"
    "pd_pushes db2 = pd_pushes db @ [\<lparr>pu_id = opID, pu_repo = rp_ID r, pu_person = pe_ID person, pu_ip = remote\<rparr>]"
    using ins db1 by (auto simp: insertPush_def split: if_splits)
  obtain us where "pd_updates (fold (insertPushUpdate opID) recs db2) = pd_updates db2 @ us"
    "\<forall>x\<in>set us. pp_push x = opID" "length us = length recs"
    using insert_updates_rows by blast
  then show thesis
    by (intro that [of us]) (simp_all add: db' CompleteOperationTx_def insert_updates_tables db2)
qed

text \<open>What a call of \<open>recoverPush\<close> leaves behind for a pending push operation.\<close>

datatype recovery = Unfinished | Rejected | Recorded

definition recovered ::
  "'g git_env \<Rightarrow> Operation \<Rightarrow> push_db \<Rightarrow> 'g \<Rightarrow> push_db \<Rightarrow> 'g \<Rightarrow> recovery \<Rightarrow> bool" where
  "recovered env op db g db' g' out \<longleftrightarrow>
     (case out of
        Unfinished \<Rightarrow> db' = db
      | Rejected \<Rightarrow> (\<exists>now text. db' = RejectOperation now (op_ID op) text db \<and> text \<noteq> []) \<and>
          ge_Receipt env g' (op_ID op) = None \<and> g' = g
      | Recorded \<Rightarrow> ge_Receipt env g' (op_ID op) \<noteq> None \<and> op_ID op \<notin> pu_id ` set (pd_pushes db) \<and>
          (\<exists>now row us. pd_pushes db' = pd_pushes db @ [row] \<and> pu_id row = op_ID op \<and> pu_repo row = op_RepoID op \<and>
             pd_updates db' = pd_updates db @ us \<and> (\<forall>x\<in>set us. pp_push x = op_ID op) \<and>
             pd_ops db' = update_where (\<lambda>o'. op_ID o' = op_ID op)
               (\<lambda>o'. o'\<lparr>op_Completed := Some now, op_Error := []\<rparr>) (pd_ops db)))"

definition other_receipts :: "'g git_env \<Rightarrow> string \<Rightarrow> 'g \<Rightarrow> 'g \<Rightarrow> bool" where
  "other_receipts env opID g g' \<longleftrightarrow> (\<forall>i. i \<noteq> opID \<longrightarrow> ge_Receipt env g' i = ge_Receipt env g i) \<and>
     (ge_Receipt env g opID \<noteq> None \<longrightarrow> ge_Receipt env g' opID \<noteq> None)"

lemma moved_text_nonempty: "moved_text ref \<noteq> []"
  by (simp add: moved_text_def)

lemma apply_in_git_cases:
  assumes "apply_in_git env a op intent g = (res, g')" and "git_transaction env (op_ID op) g a"
  shows "other_receipts env (op_ID op) g g'"
    and "res = Inr (Some text) \<Longrightarrow> ge_Receipt env g' (op_ID op) = None \<and> text \<noteq> [] \<and> g' = g"
    and "res = Inr None \<Longrightarrow> ge_Receipt env g' (op_ID op) \<noteq> None"
proof -
  let ?r = "\<lambda>h. ge_Receipt env h (op_ID op)"
  have *: "other_receipts env (op_ID op) g g' \<and>
    (\<forall>text. res = Inr (Some text) \<longrightarrow> ?r g' = None \<and> text \<noteq> [] \<and> g' = g) \<and> (res = Inr None \<longrightarrow> ?r g' \<noteq> None)"
  proof (cases "OperationApplied_in env g (op_ID op) (op_Payload op)")
    case (Inl e)
    then show ?thesis using assms(1) by (auto simp: apply_in_git_def other_receipts_def)
  next
    case (Inr applied)
    have r: "applied \<longleftrightarrow> ?r g \<noteq> None" using Inr by (auto simp: OperationApplied_in_def split: option.splits if_splits)
    show ?thesis
    proof (cases applied)
      case True
      then show ?thesis using assms(1) Inr r by (auto simp: apply_in_git_def other_receipts_def)
    next
      case False
      let ?c = "CheckRefChanges (ge_RefOID env g) (changes_of (in_Records intent))"
      show ?thesis
      proof (cases ?c)
        case (Inl e)
        then show ?thesis using assms(1) Inr False r
          by (cases e) (auto simp: apply_in_git_def other_receipts_def moved_text_nonempty)
      next
        case (Inr u)
        define h where "h = at_State a"
        have others: "other_receipts env (op_ID op) g h"
          using assms(2) False r by (simp add: git_transaction_def other_receipts_def h_def)
        have t: "?r h \<noteq> None \<or> h = g \<and> (at_Failed a \<or> at_Killed a)"
          using assms(2) by (simp add: git_transaction_def h_def)
        have run: "apply_in_git env a op intent g =
           (if at_Killed a then (Inl Died, h) else if \<not> at_Failed a then (ok None, h)
            else (case OperationApplied_in env h (op_ID op) (op_Payload op) of
               Inl e \<Rightarrow> (Inl e, h) | Inr True \<Rightarrow> (ok None, h)
             | Inr False \<Rightarrow> (case CheckRefChanges (ge_RefOID env h) (changes_of (in_Records intent)) of
                 Inl (RefMoved ref) \<Rightarrow> (ok (Some (moved_text ref)), h) | _ \<Rightarrow> (Inl ApplyFailed, h))))"
          unfolding apply_in_git_def h_def Let_def
          using \<open>OperationApplied_in env g (op_ID op) (op_Payload op) = Inr applied\<close> False Inr by simp
        show ?thesis
        proof (cases "at_Killed a \<or> \<not> at_Failed a")
          case True
          then show ?thesis using run assms(1) others t by (auto split: if_splits)
        next
          case retry: False
          show ?thesis
          proof (cases "OperationApplied_in env h (op_ID op) (op_Payload op)")
            case (Inl e)
            then show ?thesis using run retry assms(1) others by simp
          next
            case (Inr b)
            have rb: "b \<longleftrightarrow> ?r h \<noteq> None" using Inr by (auto simp: OperationApplied_in_def split: option.splits if_splits)
            then show ?thesis using run retry assms(1) others Inr t
              by (cases b; cases "CheckRefChanges (ge_RefOID env h) (changes_of (in_Records intent))")
                (auto simp: moved_text_nonempty split: push_error.splits)
          qed
        qed
      qed
    qed
  qed
  show "other_receipts env (op_ID op) g g'" using * by blast
  show "res = Inr (Some text) \<Longrightarrow> ?r g' = None \<and> text \<noteq> [] \<and> g' = g" using * by blast
  show "res = Inr None \<Longrightarrow> ?r g' \<noteq> None" using * by blast
qed

lemma recoverPush_cases:
  assumes rec: "recoverPush parse et now ids env a db_ok op db g = (res, db', g')"
    and t: "git_transaction env (op_ID op) g a"
    and find: "find (\<lambda>o'. op_ID o' = op_ID op) (pd_ops db) = Some op" and pending: "op_pending op"
  shows "other_receipts env (op_ID op) g g' \<and> (\<exists>out. recovered env op db g db' g' out)"
proof -
  have refl: "other_receipts env (op_ID op) g g" by (simp add: other_receipts_def)
  show ?thesis
  proof (cases "\<exists>intent r. op_Payload op = PushPayload intent \<and> in_Repository intent = Some r \<and> rp_ID r = op_RepoID op")
    case False
    then have "db' = db \<and> g' = g" using rec
      by (auto simp: recoverPush_def split: payload.splits option.splits if_splits)
    then show ?thesis using refl by (auto simp: recovered_def intro!: exI [of _ Unfinished])
  next
    case True
    then obtain intent r where i: "op_Payload op = PushPayload intent" "in_Repository intent = Some r" "rp_ID r = op_RepoID op"
      by blast
    obtain ares h where ap: "apply_in_git env a op intent g = (ares, h)" by fastforce
    note git = apply_in_git_cases [OF ap t]
    have unfinished: ?thesis if "db' = db" "g' = h"
      using that git(1) by (auto simp: recovered_def intro!: exI [of _ Unfinished])
    show ?thesis
    proof (cases ares)
      case (Inl e)
      then show ?thesis using rec i ap by (intro unfinished) (auto simp: recoverPush_def)
    next
      case (Inr outcome)
      show ?thesis
      proof (cases outcome)
        case (Some why)
        then have "db' = RejectOperation now (op_ID op) why db \<or> db' = db" and "g' = h"
          using rec i ap Inr by (auto simp: recoverPush_def finish_tx_def split: if_splits)
        moreover have "recovered env op db g db' g' Rejected" if "db' = RejectOperation now (op_ID op) why db"
          using that git(2) [of why] Inr Some \<open>g' = h\<close> unfolding recovered_def by auto
        ultimately show ?thesis using git(1) unfinished by blast
      next
        case None
        then have receipt: "ge_Receipt env h (op_ID op) \<noteq> None" using git(3) Inr by simp
        show ?thesis
        proof (cases "find (\<lambda>p. pe_ID p = in_PersonID intent) (pd_people db)")
          case None
          then show ?thesis using rec i ap Inr \<open>outcome = None\<close> by (intro unfinished) (auto simp: recoverPush_def)
        next
          case (Some person)
          define tx where "tx = recordPush parse et now ids env h r person (in_RemoteAddr intent) (in_Records intent) (op_ID op) db"
          have g': "g' = h" and cases: "(\<exists>c. tx = Inr (c, db')) \<or> db' = db"
            using rec i ap Inr \<open>outcome = None\<close> Some
            by (auto simp: recoverPush_def finish_tx_def tx_def [symmetric] bind_result_Inr split: sum.splits prod.splits if_splits
                elim!: bind_result.elims)
          show ?thesis
          proof (cases "db' = db")
            case True
            then show ?thesis using g' by (rule unfinished)
          next
            case False
            then obtain c where "tx = Inr (c, db')" using cases by blast
            from recordPush_Inr [OF this [unfolded tx_def] find pending] obtain us where
              us: "op_ID op \<notin> pu_id ` set (pd_pushes db)" "pd_pushes db' = pd_pushes db @
                [\<lparr>pu_id = op_ID op, pu_repo = rp_ID r, pu_person = pe_ID person, pu_ip = in_RemoteAddr intent\<rparr>]"
                "pd_updates db' = pd_updates db @ us" "\<forall>x\<in>set us. pp_push x = op_ID op"
                "pd_ops db' = update_where (\<lambda>o'. op_ID o' = op_ID op)
                   (\<lambda>o'. o'\<lparr>op_Completed := Some now, op_Error := []\<rparr>) (pd_ops db)" by metis
            have "recovered env op db g db' g' Recorded"
              unfolding recovered_def recovery.case
              using us receipt i(3) g' by (intro conjI exI [of _ now] exI [of _ us] exI [of _
                "\<lparr>pu_id = op_ID op, pu_repo = rp_ID r, pu_person = pe_ID person, pu_ip = in_RemoteAddr intent\<rparr>"]) simp_all
            then show ?thesis using git(1) g' by blast
          qed
        qed
      qed
    qed
  qed
qed

section \<open>Preservation\<close>

lemma op_row_unique: "ops_inv db \<Longrightarrow> a \<in> set (pd_ops db) \<Longrightarrow> b \<in> set (pd_ops db) \<Longrightarrow> op_ID a = op_ID b \<Longrightarrow> a = b"
  by (auto simp: ops_inv_def distinct_map dest: inj_onD)

text \<open>Updates of the journal that only complete operations or change their error.\<close>

definition closes :: "Operation \<Rightarrow> Operation \<Rightarrow> bool" where
  "closes op op' \<longleftrightarrow> op_ID op' = op_ID op \<and> op_RepoID op' = op_RepoID op \<and> op_Kind op' = op_Kind op \<and>
     (op_pending op' \<longrightarrow> op_pending op)"

lemma filter_update_le:
  assumes "\<And>x. x \<in> set xs \<Longrightarrow> P x \<Longrightarrow> closes x (f x)"
  shows "distinct (map op_RepoID (filter op_pending xs)) \<Longrightarrow> distinct (map op_RepoID (filter op_pending (update_where P f xs)))"
  using assms
proof (induction xs)
  case (Cons x xs)
  have "set (map op_RepoID (filter op_pending (update_where P f xs))) \<subseteq> set (map op_RepoID (filter op_pending xs))"
    using Cons.prems(2) by (fastforce simp: update_where_def closes_def)
  then show ?case using Cons by (auto simp: update_where_def closes_def split: if_splits)
qed simp

lemma closing_ops_inv:
  assumes "ops_inv db" and "pd_ops db' = update_where P f (pd_ops db)" and "\<And>x. x \<in> set (pd_ops db) \<Longrightarrow> P x \<Longrightarrow> closes x (f x)"
  shows "ops_inv db'"
  using assms filter_update_le [of "pd_ops db" P f]
  by (simp add: ops_inv_def) (metis closes_def map_update_where_on)

lemma closing_has_op:
  assumes "pd_ops db' = update_where P f (pd_ops db)" and "\<And>x. x \<in> set (pd_ops db) \<Longrightarrow> P x \<Longrightarrow> closes x (f x)"
    and "\<exists>op\<in>set (pd_ops db). op_ID op = i \<and> op_RepoID op = repoID \<and> op_Kind op = k"
  shows "\<exists>op\<in>set (pd_ops db'). op_ID op = i \<and> op_RepoID op = repoID \<and> op_Kind op = k"
  using assms by (auto simp: bex_update_where closes_def)

text \<open>Changes of the journal that leave pushes and Git alone.\<close>

lemma journal_change_inv:
  assumes inv: "push_inv env (db, gits)"
    and ops: "pd_ops db' = update_where P f (pd_ops db)" and f: "\<And>x. x \<in> set (pd_ops db) \<Longrightarrow> P x \<Longrightarrow> closes x (f x)"
    and pushes: "pd_pushes db' = pd_pushes db" "pd_updates db' = pd_updates db"
    and ok: "\<And>x. x \<in> set (pd_ops db) \<Longrightarrow> P x \<Longrightarrow> op_consistent env db gits x \<Longrightarrow> op_consistent env db gits (f x)"
  shows "push_inv env (db', gits)"
proof -
  have parts: "ops_inv db" "pushes_inv db" "receipts_known env db gits" "\<forall>op\<in>set (pd_ops db). op_consistent env db gits op"
    using inv by (simp_all add: push_inv_def)
  have "op_consistent env db' gits op = op_consistent env db gits op" for op
    using recorded_push_cong [OF pushes(1)] by (simp add: op_consistent_def)
  then have "\<forall>op\<in>set (pd_ops db'). op_consistent env db' gits op"
    using parts(4) ok by (simp add: ops ball_update_where)
  moreover have "ops_inv db'" by (rule closing_ops_inv [OF parts(1) ops f])
  moreover have "pushes_inv db'"
    using parts(2) closing_has_op [OF ops f] recorded_push_cong [OF pushes(1)] by (simp add: pushes_inv_def pushes)
  moreover have "receipts_known env db' gits"
    using parts(3) closing_has_op [OF ops f] unfolding receipts_known_def by blast
  ultimately show ?thesis by (simp add: push_inv_def)
qed

lemma note_failure_inv:
  assumes "push_inv env (db, gits)"
  shows "push_inv env (note_failure opID t db, gits)"
proof -
  have "pd_ops (note_failure opID t db) =
      update_where (\<lambda>op. op_ID op = opID \<and> op_pending op) (\<lambda>op. op\<lparr>op_Error := t\<rparr>) (pd_ops db)"
    by (simp add: note_failure_def)
  from journal_change_inv [OF assms this] show ?thesis
    by (simp add: note_failure_def closes_def op_consistent_def applied_push_def op_pending_def)
qed

lemma abandoned_text_nonempty: "abandoned_text actorID reason \<noteq> []"
  by (simp add: abandoned_text_def)

lemma AbandonOperation_Inr:
  assumes "AbandonOperation now env opened locked opID actorID reason gits db = Inr (r, db')"
  obtains op t where "find (\<lambda>op. op_ID op = opID \<and> op_pending op) (pd_ops db) = Some op"
    "(if opened then OperationApplied_in env (gits (op_RepoID op)) opID (op_Payload op) else ok False) = ok False" "t \<noteq> []"
    "pd_ops db' = update_where (\<lambda>o'. op_ID o' = opID) (\<lambda>o'. o'\<lparr>op_Completed := Some now, op_Error := t\<rparr>) (pd_ops db)"
    "pd_pushes db' = pd_pushes db" "pd_updates db' = pd_updates db"
proof (cases "find (\<lambda>op. op_ID op = opID \<and> op_pending op) (pd_ops db)")
  case None
  then show ?thesis using assms by (simp add: AbandonOperation_def Let_def split: if_splits)
next
  case (Some op)
  define applied where "applied = (if opened then OperationApplied_in env (gits (op_RepoID op)) opID (op_Payload op) else ok False)"
  define t where "t = abandoned_text actorID (trim_space reason)"
  have conds: "(trim_space reason = []) = False" "(1000 < length (trim_space reason)) = False" "locked = False"
    "(op_Error op = []) = False"
    using assms Some by (cases "trim_space reason = []"; cases "1000 < length (trim_space reason)"; cases locked;
        cases "op_Error op = []"; simp add: AbandonOperation_def Let_def)+
  have res: "bind_result applied (\<lambda>applied.
              if applied then Inl OperationApplied
              else let repoName = (case find (\<lambda>r. rp_ID r = op_RepoID op) (pd_repos db) of
                                     None \<Rightarrow> op_RepoID op | Some r \<Rightarrow> rp_Name r)
                   in ok (op\<lparr>op_Error := t\<rparr>,
                     (set_ops (update_where (\<lambda>o'. op_ID o' = opID) (\<lambda>o'. o'\<lparr>op_Completed := Some now, op_Error := t\<rparr>)
                        (pd_ops db)) db)
                     \<lparr>pd_audit := pd_audit db @ [(actorID, op_Kind op @ '' '' @ repoName @ '': '' @ trim_space reason)]\<rparr>)) = Inr (r, db')"
    using assms conds by (simp only: AbandonOperation_def Let_def Some option.case if_False simp_thms applied_def t_def)
  then obtain b where b: "applied = ok b" "\<not> b" by (auto simp: bind_result_Inr Let_def split: if_splits)
  then show ?thesis
    using res abandoned_text_nonempty by (intro that [OF Some, of t]) (auto simp: applied_def t_def)
qed

lemma abandon_inv:
  assumes inv: "push_inv env (db, gits)"
    and c: "AbandonOperation now env opened locked opID actorID reason gits db = Inr (r, db')"
    and allowed: "\<forall>op\<in>set (pd_ops db). op_ID op = opID \<and> \<not> opened \<longrightarrow> ge_Receipt env (gits (op_RepoID op)) opID = None"
  shows "push_inv env (db', gits)"
proof -
  obtain op t where op: "find (\<lambda>op. op_ID op = opID \<and> op_pending op) (pd_ops db) = Some op"
    and applied: "(if opened then OperationApplied_in env (gits (op_RepoID op)) opID (op_Payload op) else ok False) = ok False"
    and t: "t \<noteq> []"
    and ops: "pd_ops db' = update_where (\<lambda>o'. op_ID o' = opID) (\<lambda>o'. o'\<lparr>op_Completed := Some now, op_Error := t\<rparr>) (pd_ops db)"
    and pushes: "pd_pushes db' = pd_pushes db" "pd_updates db' = pd_updates db"
    by (rule AbandonOperation_Inr [OF c])
  have mem: "op \<in> set (pd_ops db)" "op_ID op = opID" "op_pending op" using find_SomeD [OF op] by auto
  have none: "ge_Receipt env (gits (op_RepoID op)) opID = None"
    using applied allowed mem by (auto simp: OperationApplied_in_def split: if_splits option.splits)
  show ?thesis
  proof (rule journal_change_inv [OF inv ops _ pushes])
    fix x assume x: "x \<in> set (pd_ops db)" "op_ID x = opID" "op_consistent env db gits x"
    have "x = op" using op_row_unique [of db x op] inv x mem by (simp add: push_inv_def)
    then show "op_consistent env db gits (x\<lparr>op_Completed := Some now, op_Error := t\<rparr>)"
      using x(3) none mem t by (auto simp: op_consistent_def applied_push_def op_pending_def)
  qed (simp_all add: closes_def op_pending_def)
qed

lemma complete_other_inv:
  assumes "push_inv env (db, gits)" and "\<forall>op\<in>set (pd_ops db). op_ID op = opID \<longrightarrow> op_Kind op \<noteq> ''push''"
  shows "push_inv env (CompleteOperationTx now opID db, gits)"
proof -
  have "pd_pushes (CompleteOperationTx now opID db) = pd_pushes db" "pd_updates (CompleteOperationTx now opID db) = pd_updates db"
    "pd_ops (CompleteOperationTx now opID db) =
      update_where (\<lambda>op. op_ID op = opID) (\<lambda>op. op\<lparr>op_Completed := Some now, op_Error := []\<rparr>) (pd_ops db)"
    by (simp_all add: CompleteOperationTx_def)
  from journal_change_inv [OF assms(1) this(3) _ this(1,2)] assms(2) show ?thesis
    by (simp add: closes_def op_consistent_def op_pending_def)
qed

lemma BeginOperation_Inr:
  assumes b: "BeginOperation now newID repoID kind name actorID p db = Inr (op, db')"
  shows "newID \<notin> op_ID ` set (pd_ops db)" and "\<forall>op\<in>set (pd_ops db). op_RepoID op = repoID \<longrightarrow> \<not> op_pending op"
    and "\<not> (kind = ''create'' \<and> (\<exists>op\<in>set (pd_ops db). op_Kind op = ''create'' \<and> op_Name op = name \<and> op_pending op))"
    and "op_ID op = newID" "op_RepoID op = repoID" "op_Kind op = kind" "op_pending op" "op_Payload op = p"
      "op_Name op = name" "op_ActorID op = actorID"
    and "db' = set_ops (pd_ops db @ [op]) db"
proof -
  have c1: "(kind = ''delete'' \<and> active_executions repoID (pd_ci db)) = False"
    using b by (cases "kind = ''delete'' \<and> active_executions repoID (pd_ci db)") (simp_all add: BeginOperation_def)
  let ?taken = "newID \<in> op_ID ` set (pd_ops db) \<or> list_ex (\<lambda>op. op_RepoID op = repoID \<and> op_pending op) (pd_ops db) \<or>
       kind = ''create'' \<and> list_ex (\<lambda>op. op_Kind op = ''create'' \<and> op_Name op = name \<and> op_pending op) (pd_ops db)"
  have nt: "\<not> ?taken"
  proof
    assume taken: ?taken
    have "BeginOperation now newID repoID kind name actorID p db = Inl PendingOperation"
      unfolding BeginOperation_def c1 if_False if_P [OF taken] ..
    then show False using b by simp
  qed
  then show "newID \<notin> op_ID ` set (pd_ops db)" by blast
  show "\<forall>op\<in>set (pd_ops db). op_RepoID op = repoID \<longrightarrow> \<not> op_pending op" using nt unfolding list_ex_iff by blast
  show "\<not> (kind = ''create'' \<and> (\<exists>op\<in>set (pd_ops db). op_Kind op = ''create'' \<and> op_Name op = name \<and> op_pending op))"
    using nt unfolding list_ex_iff by blast
  have "op = \<lparr>op_ID = newID, op_RepoID = repoID, op_Kind = kind, op_Name = name, op_ActorID = actorID,
                   op_Payload = p, op_CreatedAt = now, op_Completed = None, op_Error = []\<rparr>"
    "db' = set_ops (pd_ops db @ [op]) db"
    using b unfolding BeginOperation_def c1 if_False if_not_P [OF nt] Let_def by auto
  then show "op_ID op = newID" "op_RepoID op = repoID" "op_Kind op = kind" "op_pending op" "op_Payload op = p"
    "op_Name op = name" "op_ActorID op = actorID" "db' = set_ops (pd_ops db @ [op]) db"
    by (simp_all add: op_pending_def)
qed

lemma begin_ops_inv:
  assumes "ops_inv db" and "BeginOperation now newID repoID kind name actorID p db = Inr (op, db')"
  shows "ops_inv db'"
  using assms(1) BeginOperation_Inr(1,2,4,5,7,11) [OF assms(2)] by (auto simp: ops_inv_def)

lemma begin_inv:
  assumes inv: "push_inv env (db, gits)" and b: "BeginOperation now newID repoID kind name actorID p db = Inr (op, db')"
  shows "push_inv env (db', gits)"
    and "op \<in> set (pd_ops db')" "op_ID op = newID" "op_RepoID op = repoID" "op_Kind op = kind" "op_pending op"
      "op_Payload op = p" "pd_pushes db' = pd_pushes db" "pd_people db' = pd_people db"
proof -
  note fresh = BeginOperation_Inr(1) [OF b] and free = BeginOperation_Inr(2) [OF b]
    and op = BeginOperation_Inr(4-8) [OF b] and db' = BeginOperation_Inr(11) [OF b]
  have parts: "ops_inv db" "pushes_inv db" "receipts_known env db gits" "\<forall>op\<in>set (pd_ops db). op_consistent env db gits op"
    using inv by (simp_all add: push_inv_def)
  have same: "recorded_push db' i = recorded_push db i" for i by (rule recorded_push_cong) (simp add: db')
  have "\<not> recorded_push db newID" using parts(2) fresh by (force simp: pushes_inv_def recorded_push_def)
  moreover have "\<not> applied_push env gits op"
  proof
    assume "applied_push env gits op"
    then have "ge_Receipt env (gits repoID) newID \<noteq> None" unfolding applied_push_def op(1,2) .
    then obtain x where "x \<in> set (pd_ops db)" "op_ID x = newID" using parts(3) unfolding receipts_known_def by blast
    then show False using fresh by blast
  qed
  ultimately have "op_consistent env db' gits op" using op by (simp add: op_consistent_def same)
  moreover have "ops_inv db'" by (rule begin_ops_inv [OF parts(1) b])
  moreover have "pushes_inv db'" using parts(2) by (auto simp: pushes_inv_def db' same [unfolded db'])
  moreover have "receipts_known env db' gits" using parts(3) by (auto simp: receipts_known_def db')
  ultimately show "push_inv env (db', gits)"
    using parts(4) by (auto simp: push_inv_def db' op_consistent_def same [unfolded db'])
  show "op \<in> set (pd_ops db')" "op_ID op = newID" "op_RepoID op = repoID" "op_Kind op = kind" "op_pending op"
    "op_Payload op = p" "pd_pushes db' = pd_pushes db" "pd_people db' = pd_people db"
    using op by (simp_all add: db')
qed

text \<open>Receipts in one repository change, except for those of one operation they may only appear.\<close>

lemma receipts_elsewhere:
  assumes "other_receipts env opID (gits repoID) g'" and "op_ID op \<noteq> opID \<or> op_RepoID op \<noteq> repoID"
  shows "applied_push env (gits(repoID := g')) op = applied_push env gits op"
  using assms by (auto simp: applied_push_def other_receipts_def)

lemma receipts_known_update:
  assumes "receipts_known env db gits" and "other_receipts env opID (gits repoID) g'"
    and "\<exists>op\<in>set (pd_ops db). op_ID op = opID \<and> op_RepoID op = repoID \<and> op_Kind op = ''push''"
  shows "receipts_known env db (gits(repoID := g'))"
  unfolding receipts_known_def
proof (intro allI impI)
  fix rid i assume "ge_Receipt env ((gits(repoID := g')) rid) i \<noteq> None"
  then show "\<exists>op\<in>set (pd_ops db). op_ID op = i \<and> op_RepoID op = rid \<and> op_Kind op = ''push''"
    using assms by (cases "rid = repoID \<and> i = opID") (auto simp: receipts_known_def other_receipts_def split: if_splits)
qed

lemma RejectOperation_tables:
  "pd_ops (RejectOperation now opID t db) = update_where (\<lambda>op. op_ID op = opID \<and> op_pending op)
     (\<lambda>op. op\<lparr>op_Completed := Some now, op_Error := t\<rparr>) (pd_ops db)"
  "pd_pushes (RejectOperation now opID t db) = pd_pushes db" "pd_updates (RejectOperation now opID t db) = pd_updates db"
  by (simp_all add: RejectOperation_def)

lemma git_change_inv:
  assumes inv: "push_inv env (db, gits)" and op: "op \<in> set (pd_ops db)" "op_pending op" "op_Kind op = ''push''"
    and r: "other_receipts env (op_ID op) (gits (op_RepoID op)) g'"
  shows "push_inv env (db, gits(op_RepoID op := g'))"
proof -
  have parts: "ops_inv db" "pushes_inv db" "receipts_known env db gits" "\<forall>op\<in>set (pd_ops db). op_consistent env db gits op"
    using inv by (simp_all add: push_inv_def)
  have "op_consistent env db (gits(op_RepoID op := g')) x" if x: "x \<in> set (pd_ops db)" for x
  proof (cases "x = op")
    case True
    then show ?thesis using parts(4) op by (auto simp: op_consistent_def)
  next
    case False
    then have "op_ID x \<noteq> op_ID op" using op_row_unique [OF parts(1) x op(1)] by blast
    then have "applied_push env (gits(op_RepoID op := g')) x = applied_push env gits x"
      by (intro receipts_elsewhere [where gits = gits, OF r]) simp
    moreover have "op_consistent env db gits x" using parts(4) x by blast
    ultimately show ?thesis by (auto simp: op_consistent_def)
  qed
  moreover have "receipts_known env db (gits(op_RepoID op := g'))"
    by (rule receipts_known_update [OF parts(3) r]) (use op in blast)
  ultimately show ?thesis using parts by (simp add: push_inv_def)
qed

lemma recorded_inv:
  assumes inv: "push_inv env (db, gits)" and op: "op \<in> set (pd_ops db)" "op_pending op" "op_Kind op = ''push''"
    and receipt: "ge_Receipt env (gits (op_RepoID op)) (op_ID op) \<noteq> None" and new: "op_ID op \<notin> pu_id ` set (pd_pushes db)"
    and pushes: "pd_pushes db' = pd_pushes db @ [row]" "pu_id row = op_ID op" "pu_repo row = op_RepoID op"
    and updates: "pd_updates db' = pd_updates db @ us" "\<forall>x\<in>set us. pp_push x = op_ID op"
    and ops: "pd_ops db' = update_where (\<lambda>o'. op_ID o' = op_ID op) (\<lambda>o'. o'\<lparr>op_Completed := Some now, op_Error := []\<rparr>) (pd_ops db)"
  shows "push_inv env (db', gits)"
proof -
  have parts: "ops_inv db" "pushes_inv db" "receipts_known env db gits" "\<forall>op\<in>set (pd_ops db). op_consistent env db gits op"
    using inv by (simp_all add: push_inv_def)
  have closes: "closes x (x\<lparr>op_Completed := Some now, op_Error := []\<rparr>)" for x
    by (simp add: closes_def op_pending_def)
  have rec: "recorded_push db' i \<longleftrightarrow> i = op_ID op \<or> recorded_push db i" for i
    by (auto simp: recorded_push_def pushes)
  have keep: "\<exists>x\<in>set (pd_ops db'). op_ID x = i \<and> op_RepoID x = repoID \<and> op_Kind x = k"
    if "\<exists>x\<in>set (pd_ops db). op_ID x = i \<and> op_RepoID x = repoID \<and> op_Kind x = k" for i repoID k
    by (rule closing_has_op [OF ops closes that])
  have here: "\<exists>x\<in>set (pd_ops db'). op_ID x = op_ID op \<and> op_RepoID x = op_RepoID op \<and> op_Kind x = ''push''"
    by (rule keep) (use op in blast)
  have "op_consistent env db' gits (if op_ID x = op_ID op then x\<lparr>op_Completed := Some now, op_Error := []\<rparr> else x)"
    if x: "x \<in> set (pd_ops db)" for x
  proof (cases "op_ID x = op_ID op")
    case True
    then have "x = op" using op_row_unique [OF parts(1) x op(1)] by blast
    then show ?thesis using receipt by (simp add: op_consistent_def rec applied_push_def op_pending_def)
  next
    case False
    moreover have "op_consistent env db gits x" using parts(4) x by blast
    ultimately show ?thesis using False by (auto simp: op_consistent_def rec)
  qed
  moreover have "ops_inv db'" by (rule closing_ops_inv [OF parts(1) ops closes])
  moreover have "pushes_inv db'"
    using parts(2) new pushes updates rec keep here by (auto simp: pushes_inv_def)
  moreover have "receipts_known env db' gits" using parts(3) keep unfolding receipts_known_def by blast
  ultimately show ?thesis by (simp add: push_inv_def ops ball_update_where)
qed

lemma recovered_inv:
  assumes inv: "push_inv env (db, gits)" and op: "op \<in> set (pd_ops db)" "op_pending op" "op_Kind op = ''push''"
    and r: "other_receipts env (op_ID op) (gits (op_RepoID op)) g'"
    and out: "recovered env op db (gits (op_RepoID op)) db' g' out"
  shows "push_inv env (db', gits(op_RepoID op := g'))"
proof -
  let ?gits = "gits(op_RepoID op := g')"
  have inv1: "push_inv env (db, ?gits)" by (rule git_change_inv [OF inv op r])
  show ?thesis
  proof (cases out)
    case Unfinished
    then show ?thesis using out inv1 by (simp add: recovered_def)
  next
    case Rejected
    then obtain now t where db': "db' = RejectOperation now (op_ID op) t db" "t \<noteq> []"
      and none: "ge_Receipt env g' (op_ID op) = None" using out by (auto simp: recovered_def)
    have ops: "pd_ops db' = update_where (\<lambda>x. op_ID x = op_ID op \<and> op_pending x)
        (\<lambda>x. x\<lparr>op_Completed := Some now, op_Error := t\<rparr>) (pd_ops db)"
      and pushes: "pd_pushes db' = pd_pushes db" "pd_updates db' = pd_updates db"
      by (simp_all add: db' RejectOperation_tables)
    show ?thesis
    proof (rule journal_change_inv [OF inv1 ops _ pushes])
      fix x assume x: "x \<in> set (pd_ops db)" "op_ID x = op_ID op \<and> op_pending x" "op_consistent env db ?gits x"
      have "x = op" using op_row_unique [of db x op] inv x op by (simp add: push_inv_def)
      then show "op_consistent env db ?gits (x\<lparr>op_Completed := Some now, op_Error := t\<rparr>)"
        using x none db'(2) by (auto simp: op_consistent_def applied_push_def op_pending_def)
    qed (simp_all add: closes_def op_pending_def)
  next
    case Recorded
    then obtain now row us where "ge_Receipt env g' (op_ID op) \<noteq> None" "op_ID op \<notin> pu_id ` set (pd_pushes db)"
      "pd_pushes db' = pd_pushes db @ [row]" "pu_id row = op_ID op" "pu_repo row = op_RepoID op"
      "pd_updates db' = pd_updates db @ us" "\<forall>x\<in>set us. pp_push x = op_ID op"
      "pd_ops db' = update_where (\<lambda>o'. op_ID o' = op_ID op)
               (\<lambda>o'. o'\<lparr>op_Completed := Some now, op_Error := []\<rparr>) (pd_ops db)"
      using out unfolding recovered_def by auto
    then show ?thesis by (intro recorded_inv [OF inv1 op]) simp_all
  qed
qed

lemma find_op: "ops_inv db \<Longrightarrow> op \<in> set (pd_ops db) \<Longrightarrow> find (\<lambda>x. op_ID x = op_ID op) (pd_ops db) = Some op"
proof -
  assume inv: "ops_inv db" and op: "op \<in> set (pd_ops db)"
  show ?thesis
  proof (cases "find (\<lambda>x. op_ID x = op_ID op) (pd_ops db)")
    case None
    then show ?thesis using op by (auto simp: find_None_iff)
  next
    case (Some x)
    then show ?thesis using find_SomeD [OF Some] op_row_unique [OF inv _ op] by auto
  qed
qed

lemma recover_inv:
  assumes inv: "push_inv env (db, gits)" and op: "op \<in> set (pd_ops db)" "op_pending op" "op_Kind op = ''push''"
    and rec: "recoverPush parse et now ids env a db_ok op db (gits (op_RepoID op)) = (res, db', g')"
    and t: "git_transaction env (op_ID op) (gits (op_RepoID op)) a"
  shows "push_inv env (db', gits(op_RepoID op := g'))"
proof -
  have "find (\<lambda>x. op_ID x = op_ID op) (pd_ops db) = Some op" using find_op inv op(1) by (auto simp: push_inv_def)
  from recoverPush_cases [OF rec t this op(2)] recovered_inv [OF inv op] show ?thesis by blast
qed

lemma validate_hook_tables:
  assumes "validate_hook objects env refusal_ok repoID personID remote updates db g = (res, db')"
  shows "pd_ops db' = pd_ops db \<and> pd_pushes db' = pd_pushes db \<and> pd_updates db' = pd_updates db"
  using assms
  by (auto simp: validate_hook_def insertRefusal_def split: sum.splits push_error.splits if_splits)

lemma push_inv_tables:
  assumes "push_inv env (db, gits)" and "pd_ops db' = pd_ops db" and "pd_pushes db' = pd_pushes db" and "pd_updates db' = pd_updates db"
  shows "push_inv env (db', gits)"
proof -
  have same: "recorded_push db' = recorded_push db" using recorded_push_cong [OF assms(3)] by blast
  have "op_consistent env db' gits = op_consistent env db gits" by (simp add: fun_eq_iff op_consistent_def same)
  then show ?thesis using assms by (simp add: push_inv_def ops_inv_def pushes_inv_def receipts_known_def same)
qed

lemma apply_inv:
  assumes inv: "push_inv env (db, gits)"
    and ap: "ApplyPush parse et now ids objects log env a refusal_ok db_ok newID repoID personID remote updates db (gits repoID) = (res, db', g')"
    and t: "git_transaction env newID (gits repoID) a"
  shows "push_inv env (db', gits(repoID := g'))"
proof -
  have same: "gits(repoID := gits repoID) = gits" by simp
  have keep: ?thesis if "pd_ops db' = pd_ops db \<and> pd_pushes db' = pd_pushes db \<and> pd_updates db' = pd_updates db" "g' = gits repoID"
    using push_inv_tables [OF inv] that same by simp
  show ?thesis
  proof (cases "updates = [] \<or> (\<exists>e. WithMutation repoID db = Inl e)")
    case True
    then have "db' = db \<and> g' = gits repoID"
      using ap unfolding ApplyPush_def by (cases "updates = []"; cases "WithMutation repoID db") simp_all
    then show ?thesis by (intro keep) simp_all
  next
    case False
    then obtain u where go: "updates \<noteq> []" "WithMutation repoID db = Inr u" by (cases "WithMutation repoID db") auto
    obtain vres vdb where v: "validate_hook objects env refusal_ok repoID personID remote updates db (gits repoID) = (vres, vdb)"
      by fastforce
    show ?thesis
    proof (cases vres)
      case (Inl e)
      then show ?thesis using ap go v validate_hook_tables [OF v] by (intro keep) (auto simp: ApplyPush_def)
    next
      case (Inr w)
      define started where "started = bind_result (map_error PushError (CheckRefChanges (ge_RefOID env (gits repoID))
          (map (\<lambda>u. (up_Ref u, up_Old u, up_New u)) updates))) (\<lambda>_.
                     bind_result (load repoID personID db) (\<lambda>pc.
                     bind_result (map_error PushError (prepareRecords objects log pc updates)) (\<lambda>records.
                     BeginOperation now newID (rp_ID (pc_repo pc)) ''push'' [] (pe_ID (pc_person pc))
                       (PushPayload \<lparr>in_Repository = Some (pc_repo pc), in_PersonID = pe_ID (pc_person pc),
                          in_RemoteAddr = remote, in_Records = records\<rparr>) db)))"
      have run: "ApplyPush parse et now ids objects log env a refusal_ok db_ok newID repoID personID remote updates db (gits repoID) =
         (case started of Inl e \<Rightarrow> (Inl e, db, gits repoID)
          | Inr (op, db1) \<Rightarrow> (case recoverPush parse et now ids env a db_ok op db1 (gits repoID) of
               (Inl e, db2, g') \<Rightarrow> (Inl e, db2, g')
             | (Inr applied, db2, g') \<Rightarrow> (if applied then ok () else Inl (PushError (RefMoved [])), db2, g')))"
        using go v Inr by (simp add: ApplyPush_def started_def)
      show ?thesis
      proof (cases started)
        case (Inl e)
        then show ?thesis using ap run by (intro keep) auto
      next
        case (Inr opdb)
        obtain op db1 where opdb: "opdb = (op, db1)" by (cases opdb)
        obtain pc records where pc: "load repoID personID db = Inr pc" and b: "BeginOperation now newID (rp_ID (pc_repo pc)) ''push'' []
            (pe_ID (pc_person pc)) (PushPayload \<lparr>in_Repository = Some (pc_repo pc), in_PersonID = pe_ID (pc_person pc),
               in_RemoteAddr = remote, in_Records = records\<rparr>) db = Inr (op, db1)"
          using Inr by (auto simp: started_def opdb bind_result_Inr)
        have repo: "rp_ID (pc_repo pc) = repoID"
          using pc by (auto simp: load_def split: option.splits dest!: find_SomeD)
        note new = begin_inv [OF inv b]
        obtain rres db2 g2 where rec: "recoverPush parse et now ids env a db_ok op db1 (gits repoID) = (rres, db2, g2)"
          by (cases "recoverPush parse et now ids env a db_ok op db1 (gits repoID)")
        then have "db' = db2" "g' = g2" using ap run Inr opdb by (auto split: sum.splits)
        then show ?thesis
          using recover_inv [OF new(1) new(2) new(6) new(5), of parse et now ids a db_ok rres db2 g2] rec t new(3,4) repo by simp
      qed
    qed
  qed
qed

lemma push_exec_inv:
  assumes inv: "push_inv env s" and allowed: "push_allowed env op s"
  shows "push_inv env (push_exec parse et hash env op s)"
proof -
  obtain db gits where s: "s = (db, gits)" by (cases s)
  show ?thesis
  proof (cases op)
    case (DoPush now ids objects log a refusal_ok db_ok newID repoID personID remote updates)
    obtain res db' g' where ap: "ApplyPush parse et now ids objects log env a refusal_ok db_ok newID repoID personID remote updates db (gits repoID) = (res, db', g')"
      by (cases "ApplyPush parse et now ids objects log env a refusal_ok db_ok newID repoID personID remote updates db (gits repoID)")
    then show ?thesis using apply_inv [OF inv [unfolded s] ap] allowed by (simp add: s DoPush)
  next
    case (DoRecover now ids a db_ok opID)
    show ?thesis
    proof (cases "find (\<lambda>op. op_ID op = opID \<and> op_pending op \<and> op_Kind op = ''push'') (pd_ops db)")
      case None
      then show ?thesis using inv by (simp add: s DoRecover recover_one_def)
    next
      case (Some x)
      then have x: "x \<in> set (pd_ops db)" "op_ID x = opID" "op_pending x" "op_Kind x = ''push''" using find_SomeD [OF Some] by auto
      obtain res db' g' where rec: "recoverPush parse et now ids env a db_ok x db (gits (op_RepoID x)) = (res, db', g')"
        by (cases "recoverPush parse et now ids env a db_ok x db (gits (op_RepoID x))")
      have "git_transaction env (op_ID x) (gits (op_RepoID x)) a" using allowed x by (simp add: s DoRecover)
      from recover_inv [OF inv [unfolded s] x(1,3,4) rec this] show ?thesis
        using Some rec by (simp add: s DoRecover recover_one_def)
    qed
  next
    case (DoNoteFailure opID t)
    then show ?thesis using note_failure_inv inv by (simp add: s)
  next
    case (DoAbandon now opened locked opID actorID reason)
    then show ?thesis using abandon_inv [of env db gits] inv allowed by (auto simp: s split: sum.splits)
  next
    case (DoBeginOther now newID repoID kind name actorID p)
    then show ?thesis using begin_inv(1) [of env db gits] inv by (auto simp: s split: sum.splits)
  next
    case (DoCompleteOther now opID)
    then show ?thesis using complete_other_inv inv allowed by (simp add: s)
  next
    case (DoRunService cop)
    then show ?thesis using push_inv_tables [of env db gits] inv by (simp add: s)
  qed
qed

interpretation push: invariant_system "push_allowed env" "push_exec parse et hash env" "push_inv env"
  for env :: "'g git_env" and parse et hash
  by unfold_locales (rule push_exec_inv)

end
