(* ===== verification/Push_Facts.thy ===== *)
theory Push_Facts
  imports Push
begin

text \<open>
  What reading and validating a push guarantee: the updates are read back exactly as git sends
  them, and an accepted push keeps the names of branches and tags apart, keeps the default branch,
  and rewrites history only where the rules allow it.
\<close>

section \<open>Reading updates\<close>

definition format_update :: "Update \<Rightarrow> string" where
  "format_update u = up_Old u @ '' '' @ up_New u @ '' '' @ up_Ref u"

definition kind_matches :: "Update \<Rightarrow> bool" where
  "kind_matches u \<longleftrightarrow>
     (case SplitFullName (up_Ref u) of
        None \<Rightarrow> up_Kind u = no_kind \<and> up_Name u = []
      | Some (kind, name) \<Rightarrow> up_Kind u = kind \<and> up_Name u = name)"

definition sendable :: "Update \<Rightarrow> bool" where
  "sendable u \<longleftrightarrow> IsHash (up_Old u) \<and> IsHash (up_New u) \<and> up_Ref u \<noteq> [] \<and> CHR 0x0A \<notin> set (up_Ref u) \<and>
     last (up_Ref u) \<noteq> CHR 0x0D \<and> length (format_update u) < maxLine \<and> kind_matches u"

lemma hex_not: "is_hex_lower c \<Longrightarrow> c \<noteq> CHR '' '' \<and> c \<noteq> CHR 0x0A"
  by (auto simp: is_hex_lower_def is_digit_def)

lemma IsHash_chars: "IsHash s \<Longrightarrow> CHR '' '' \<notin> set s \<and> CHR 0x0A \<notin> set s \<and> s \<noteq> []"
proof -
  assume h: "IsHash s"
  then have "\<forall>c\<in>set s. is_hex_lower c" by (simp add: IsHash_def list_all_iff)
  moreover have "s \<noteq> []" using h by (auto simp: IsHash_def)
  ultimately show ?thesis using hex_not by blast
qed

lemma split3_format:
  assumes "IsHash old" and "IsHash new"
  shows "split3 (old @ '' '' @ new @ '' '' @ ref) = Some (old, new, ref)"
proof -
  have "split_on (CHR '' '') (old @ '' '' @ new @ '' '' @ ref) = old # new # split_on (CHR '' '') ref"
    using IsHash_chars [OF assms(1)] IsHash_chars [OF assms(2)] by (simp add: split_on_append_sep)
  moreover obtain c rest where "split_on (CHR '' '') ref = c # rest" by (cases "split_on (CHR '' '') ref") auto
  moreover have "join_with '' '' (split_on (CHR '' '') ref) = ref" by (rule join_split)
  ultimately show ?thesis by (simp add: split3_def)
qed

lemma parse_format: "sendable u \<Longrightarrow> parse_update (format_update u) = ok u"
  using split3_format [of "up_Old u" "up_New u" "up_Ref u"]
  by (auto simp: parse_update_def format_update_def sendable_def kind_matches_def split: option.splits)

lemma drop_cr_format: "sendable u \<Longrightarrow> drop_cr (format_update u) = format_update u"
  by (simp add: drop_cr_def format_update_def sendable_def)

lemma parse_lines_format:
  assumes "\<forall>u\<in>set us. sendable u" and "length acc + length us \<le> maxUpdates"
  shows "parse_lines acc (map format_update us) = ok (acc @ us)"
  using assms
proof (induction us arbitrary: acc)
  case (Cons u us)
  then have s: "sendable u" by simp
  then have "format_update u \<noteq> []" "\<not> maxLine \<le> length (format_update u)"
    by (auto simp: format_update_def sendable_def)
  then show ?case using Cons s by (simp add: drop_cr_format parse_format)
qed simp

lemma scan_lines_concat:
  assumes "\<forall>l\<in>set ls. CHR 0x0A \<notin> set l"
  shows "scan_lines (concat (map (\<lambda>l. l @ [CHR 0x0A]) ls)) = ls"
proof -
  have "split_on (CHR 0x0A) (concat (map (\<lambda>l. l @ [CHR 0x0A]) ls)) = ls @ [[]]"
    using assms by (induction ls) (simp_all add: split_on_append_sep)
  then show ?thesis by (simp add: scan_lines_def)
qed

lemma format_no_newline: "sendable u \<Longrightarrow> CHR 0x0A \<notin> set (format_update u)"
  using IsHash_chars [of "up_Old u"] IsHash_chars [of "up_New u"] by (simp add: format_update_def sendable_def)

lemma kind_matches_valid: "kind_matches u \<Longrightarrow> up_Kind u \<noteq> no_kind \<Longrightarrow> valid_kind (up_Kind u)"
  by (auto simp: kind_matches_def valid_kind_def SplitFullName_def split: option.splits if_splits)

lemma parse_update_kind: "parse_update line = ok u \<Longrightarrow> kind_matches u"
  by (auto simp: parse_update_def kind_matches_def split: option.splits prod.splits if_splits)

lemma parse_lines_kind:
  "parse_lines acc ls = ok us \<Longrightarrow> \<forall>u\<in>set acc. kind_matches u \<Longrightarrow> \<forall>u\<in>set us. kind_matches u"
proof (induction acc ls rule: parse_lines.induct)
  case (2 acc raw rest)
  show ?case
  proof (cases "drop_cr raw = []")
    case True
    then show ?thesis using 2 by (auto simp: Let_def split: if_splits)
  next
    case False
    then obtain u where u: "parse_update (drop_cr raw) = ok u" "parse_lines (acc @ [u]) rest = ok us"
        "\<not> maxLine \<le> length raw" "length acc \<noteq> maxUpdates"
      using "2.prems"(1) by (auto simp: Let_def bind_result_Inr split: if_splits)
    show ?thesis
      by (rule "2.IH"(2) [OF u(3) refl False u(4) u(2)]) (use "2.prems"(2) parse_update_kind [OF u(1)] in auto)
  qed
qed auto

section \<open>Validating a push\<close>

lemma collect_refusals_none:
  assumes "collect_refusals g pc present rej us = ok out"
  shows "length rej \<le> length out \<and> (length out = length rej \<longrightarrow> (\<forall>u\<in>set us. check_update g pc present u = ok None))"
  using assms
proof (induction us arbitrary: rej)
  case (Cons u us)
  then obtain reason where u: "check_update g pc present u = ok reason"
    and rest: "collect_refusals g pc present (rej @ (case reason of None \<Rightarrow> [] | Some r \<Rightarrow> [(up_Ref u, r)])) us = ok out"
    by (auto simp: bind_result_Inr)
  from Cons.IH [OF rest] u show ?case by (cases reason) auto
qed simp

lemma ValidatePush_checks:
  assumes "ValidatePush g pc readable (ok existing) updates = ok ()"
  shows "\<not> Disabled (pc_person pc) \<and> readable = ok True \<and>
    (\<forall>u\<in>set updates. check_update g pc (present_after existing updates) u = ok None)"
proof -
  obtain b where b: "\<not> Disabled (pc_person pc)" "readable = ok b" "b"
    and "collect_refusals g pc (present_after existing updates) [] updates = ok []"
    using assms by (auto simp: ValidatePush_def bind_result_Inr split: if_splits)
  from collect_refusals_none [OF this(4)] b show ?thesis by simp
qed

lemma check_update_None:
  assumes "check_update g pc present u = ok None"
  shows "up_Kind u \<noteq> no_kind" and "IsCreate u \<Longrightarrow> \<not> IsDelete u \<Longrightarrow> check_create present u = None"
    and "d_CanPush (decide pc u)"
    and "IsDelete u \<Longrightarrow> snd (CheckDelete (pc_repo pc) (pc_rules pc) (up_Kind u) (up_Name u) (who pc)) = None"
    and "\<not> IsDelete u \<Longrightarrow> up_Kind u = KindBranch \<Longrightarrow> check_branch g (decide pc u) u = ok None"
proof -
  show k: "up_Kind u \<noteq> no_kind" using assms by (auto simp: check_update_def)
  show c: "check_create present u = None" if "IsCreate u" "\<not> IsDelete u"
    using assms that k by (auto simp: check_update_def split: option.splits)
  show d: "snd (CheckDelete (pc_repo pc) (pc_rules pc) (up_Kind u) (up_Name u) (who pc)) = None" if "IsDelete u"
    using assms that k by (auto simp: check_update_def)
  have "(if IsCreate u \<and> \<not> IsDelete u then check_create present u else None) = None" using c by simp
  then have push: "d_CanPush (decide pc u) \<and> (up_Kind u = KindBranch \<longrightarrow> check_branch g (decide pc u) u = ok None)"
    if "\<not> IsDelete u"
    using assms that k by (auto simp: check_update_def Let_def split: if_splits)
  show "d_CanPush (decide pc u)"
  proof (cases "IsDelete u")
    case True
    then show ?thesis using d by (auto simp: CheckDelete_def decide_def who_def Let_def split: if_splits)
  qed (use push in simp)
  show "\<not> IsDelete u \<Longrightarrow> up_Kind u = KindBranch \<Longrightarrow> check_branch g (decide pc u) u = ok None" using push by simp
qed

lemma check_branch_None:
  assumes "check_branch g d u = ok None"
  shows "go_ObjectType g (up_New u) = ok TypeCommit"
    and "IsCreate u \<or> d_AllowForce d \<or> go_IsAncestor g (up_Old u) (up_New u) = ok True"
  using assms by (auto simp: check_branch_def bind_result_Inr split: if_splits)

text \<open>A ref present after the push was there before or is written by an update.\<close>

lemma present_after_cases:
  "k \<in> set (present_after existing us) \<Longrightarrow>
     k \<in> set existing \<or> (\<exists>u\<in>set us. (up_Kind u, up_Name u) = k \<and> \<not> IsDelete u)"
proof (induction us arbitrary: existing)
  case (Cons u us)
  have "k \<in> set (present_after (mark_present u existing) us)" using Cons.prems by (simp add: present_after_def)
  from Cons.IH [OF this] show ?case by (auto simp: mark_present_def split: if_splits)
qed (simp add: present_after_def)

lemma present_after_keeps:
  "k \<in> set existing \<Longrightarrow> (\<And>u. u \<in> set us \<Longrightarrow> (up_Kind u, up_Name u) = k \<Longrightarrow> \<not> IsDelete u) \<Longrightarrow>
     k \<in> set (present_after existing us)"
proof (induction us arbitrary: existing)
  case (Cons u us)
  have "k \<in> set (mark_present u existing)" using Cons.prems by (auto simp: mark_present_def)
  then show ?case using Cons.IH Cons.prems(2) by (simp add: present_after_def)
qed (simp add: present_after_def)

definition change_of :: "Update \<Rightarrow> string \<times> string \<times> string" where
  "change_of u = (up_Ref u, up_Old u, up_New u)"

lemma CheckRefChanges_each:
  assumes "CheckRefChanges RefOID (map change_of us) = ok ()" and "u \<in> set us"
  obtains kind name current where "SplitFullName (up_Ref u) = Some (kind, name)" "RefOID kind name = ok current"
    "current = Some (up_Old u) \<or> current = None \<and> IsCreate u"
  using assms
proof (induction us)
  case (Cons v us)
  then obtain kind name where s: "SplitFullName (up_Ref v) = Some (kind, name)"
    by (auto simp: change_of_def [of v] split: option.splits)
  with Cons.prems(2) obtain current where c: "RefOID kind name = ok current"
    by (auto simp: change_of_def [of v] bind_result_Inr split: if_splits)
  have here: "current = Some (up_Old v) \<or> current = None \<and> IsCreate v"
    and rest: "CheckRefChanges RefOID (map change_of us) = ok ()"
    using Cons.prems(2) s c by (auto simp: change_of_def [of v] IsCreate_def split: if_splits)
  from Cons.prems(3) show ?case
  proof (cases "u = v")
    case True
    then show ?thesis using Cons.prems(1) s c here by blast
  next
    case False
    then show ?thesis using Cons.IH [OF Cons.prems(1) rest] Cons.prems(3) by auto
  qed
qed simp

text \<open>An update of a ref that is not there creates it.\<close>

lemma unknown_created:
  assumes "CheckRefChanges RefOID (map change_of us) = ok ()" and "u \<in> set us" and "kind_matches u"
    and "\<forall>k n h. RefOID k n = ok (Some h) \<longrightarrow> (k, n) \<in> set existing"
    and "(up_Kind u, up_Name u) \<notin> set existing"
  shows "IsCreate u"
proof -
  obtain kind name current where s: "SplitFullName (up_Ref u) = Some (kind, name)" "RefOID kind name = ok current"
    "current = Some (up_Old u) \<or> current = None \<and> IsCreate u"
    by (rule CheckRefChanges_each [OF assms(1,2)])
  then have "up_Kind u = kind" "up_Name u = name" using assms(3) by (simp_all add: kind_matches_def)
  then show ?thesis using s assms(4,5) by blast
qed

definition no_shared_names :: "ref_key list \<Rightarrow> bool" where
  "no_shared_names refs \<longleftrightarrow> (\<forall>n. \<not> ((KindBranch, n) \<in> set refs \<and> (KindTag, n) \<in> set refs))"

lemma fresh_name_checked:
  assumes "\<forall>u\<in>set us. check_update g pc (present_after existing us) u = ok None"
    and "\<And>u. u \<in> set us \<Longrightarrow> (up_Kind u, up_Name u) \<notin> set existing \<Longrightarrow> IsCreate u"
    and "k \<in> set (present_after existing us)" and "k \<notin> set existing"
  shows "ValidateName (snd k) = ok ()" and "\<not> LooksLikeCommitHash (snd k)"
    and "(Other (fst k), snd k) \<notin> set (present_after existing us)"
proof -
  obtain u where u: "u \<in> set us" "(up_Kind u, up_Name u) = k" "\<not> IsDelete u"
    using present_after_cases [OF assms(3)] assms(4) by blast
  then have "check_create (present_after existing us) u = None"
    using assms check_update_None(2) by blast
  then show "ValidateName (snd k) = ok ()" "\<not> LooksLikeCommitHash (snd k)"
    "(Other (fst k), snd k) \<notin> set (present_after existing us)"
    using u(2) by (auto simp: check_create_def split: sum.splits if_splits)
qed

text \<open>
  C6: an accepted push comes from an enabled person who may read the repository and push to every
  ref it touches; afterwards no branch shares its name with a tag, every new name is a valid ref
  name that does not look like a commit hash, the default branch is still there, every branch it
  writes points at a commit, and it rewrites a branch's history only where the rules allow that.
  (\<open>existing\<close> are the refs git lists, and \<open>RefOID\<close> finds no others.)
\<close>

theorem ValidatePush_safe:
  assumes "ParseUpdates input = ok updates"
    and "ValidatePush g pc readable (ok existing) updates = ok ()"
    and "CheckRefChanges RefOID (map change_of updates) = ok ()"
    and "\<forall>k n h. RefOID k n = ok (Some h) \<longrightarrow> (k, n) \<in> set existing"
    and "no_shared_names existing"
  shows "\<not> Disabled (pc_person pc) \<and> readable = ok True \<and>
    (\<forall>u\<in>set updates. valid_kind (up_Kind u) \<and> d_CanPush (decide pc u)) \<and>
    no_shared_names (present_after existing updates) \<and>
    (\<forall>k\<in>set (present_after existing updates) - set existing.
       ValidateName (snd k) = ok () \<and> \<not> LooksLikeCommitHash (snd k)) \<and>
    ((KindBranch, rp_DefaultBranch (pc_repo pc)) \<in> set existing \<longrightarrow>
       (KindBranch, rp_DefaultBranch (pc_repo pc)) \<in> set (present_after existing updates)) \<and>
    (\<forall>u\<in>set updates. up_Kind u = KindBranch \<and> \<not> IsDelete u \<longrightarrow> go_ObjectType g (up_New u) = ok TypeCommit \<and>
       (IsCreate u \<or> d_AllowForce (decide pc u) \<or> go_IsAncestor g (up_Old u) (up_New u) = ok True))"
proof -
  let ?present = "present_after existing updates"
  have kinds: "\<forall>u\<in>set updates. kind_matches u"
    using parse_lines_kind [OF assms(1) [unfolded ParseUpdates_def]] by simp
  have checks: "\<not> Disabled (pc_person pc)" "readable = ok True"
    "\<forall>u\<in>set updates. check_update g pc ?present u = ok None"
    using ValidatePush_checks [OF assms(2)] by blast+
  have created: "IsCreate u" if "u \<in> set updates" "(up_Kind u, up_Name u) \<notin> set existing" for u
    using unknown_created [OF assms(3) that(1) _ assms(4) that(2)] kinds that(1) by blast
  note fresh = fresh_name_checked [OF checks(3) created]
  have shared: "no_shared_names ?present"
    unfolding no_shared_names_def
  proof (intro allI notI)
    fix n assume both: "(KindBranch, n) \<in> set ?present \<and> (KindTag, n) \<in> set ?present"
    then consider "(KindBranch, n) \<notin> set existing" | "(KindTag, n) \<notin> set existing"
      using assms(5) by (auto simp: no_shared_names_def)
    then show False
      using fresh(3) [of "(KindBranch, n)"] fresh(3) [of "(KindTag, n)"] both by cases (simp_all add: Other_def)
  qed
  have default: "(KindBranch, rp_DefaultBranch (pc_repo pc)) \<in> set ?present"
    if "(KindBranch, rp_DefaultBranch (pc_repo pc)) \<in> set existing"
  proof (rule present_after_keeps [OF that])
    fix u assume u: "u \<in> set updates" "(up_Kind u, up_Name u) = (KindBranch, rp_DefaultBranch (pc_repo pc))"
    then have "snd (CheckDelete (pc_repo pc) (pc_rules pc) (up_Kind u) (up_Name u) (who pc)) \<noteq> None"
      by (auto simp: CheckDelete_def Let_def)
    moreover have "check_update g pc ?present u = ok None" using checks(3) u(1) by blast
    ultimately show "\<not> IsDelete u" using check_update_None(4) by metis
  qed
  have "valid_kind (up_Kind u) \<and> d_CanPush (decide pc u)" if "u \<in> set updates" for u
  proof -
    have "check_update g pc ?present u = ok None" using checks(3) that by blast
    from check_update_None(1,3) [OF this] show ?thesis using kind_matches_valid kinds that by blast
  qed
  moreover have "go_ObjectType g (up_New u) = ok TypeCommit \<and>
       (IsCreate u \<or> d_AllowForce (decide pc u) \<or> go_IsAncestor g (up_Old u) (up_New u) = ok True)"
    if "u \<in> set updates" "up_Kind u = KindBranch" "\<not> IsDelete u" for u
  proof -
    have "check_update g pc ?present u = ok None" using checks(3) that by blast
    from check_branch_None [OF check_update_None(5) [OF this that(3,2)]] show ?thesis by blast
  qed
  ultimately show ?thesis using checks(1,2) shared fresh(1,2) default by blast
qed

definition sample_old :: string where
  "sample_old = replicate 40 (CHR ''a'')"

definition sample_new :: string where
  "sample_new = replicate 40 (CHR ''b'')"

definition sample_update :: Update where
  "sample_update = \<lparr>up_Old = sample_old, up_New = sample_new, up_Ref = ''refs/heads/main'', up_Kind = KindBranch,
     up_Name = ''main''\<rparr>"

definition push_context :: pushContext where
  "push_context = \<lparr>pc_repo = \<lparr>rp_ID = ''r'', rp_Name = ''repo'', rp_Description = [], rp_DefaultBranch = ''main'',
      rp_Visibility = VisibilityEveryone, rp_DefaultPushPolicy = PushEveryone,
      rp_DefaultPushPeople = [], rp_CreatedBy = None, rp_CreatedAt = 0\<rparr>,
     pc_person = \<lparr>pe_ID = ''p1'', pe_Username = ''ada'', pe_PasswordHash = [], pe_IsAdmin = False,
       pe_DisabledAt = None, pe_CreatedAt = 1, pe_Generation = 1, pe_BootstrapExpiresAt = None\<rparr>, pc_rules = []\<rparr>"

definition sample_objects :: git_objects where
  "sample_objects = \<lparr>go_ObjectType = (\<lambda>_. ok TypeCommit), go_IsAncestor = (\<lambda>_ _. ok True),
     go_ResolveCommit = (\<lambda>c. ok (Some c))\<rparr>"

lemma sample_hashes: "IsHash sample_old" "IsHash sample_new" "\<not> IsZeroHash sample_old" "\<not> IsZeroHash sample_new"
  by (simp_all add: IsHash_def IsZeroHash_def sample_old_def sample_new_def is_hex_lower_def trim_def trim_left_def
      trim_right_def numeral_eq_Suc)

lemma sample_sendable: "sendable sample_update"
proof -
  have "SplitFullName ''refs/heads/main'' = Some (KindBranch, ''main'')" by code_simp
  then show ?thesis using sample_hashes
    by (simp add: sendable_def sample_update_def kind_matches_def format_update_def maxLine_def sample_old_def sample_new_def)
qed

lemma ParseUpdates_format:
  assumes "\<forall>u\<in>set us. sendable u" and "length us \<le> maxUpdates"
  shows "ParseUpdates (concat (map (\<lambda>u. format_update u @ [CHR 0x0A]) us)) = ok us"
proof -
  have "concat (map (\<lambda>u. format_update u @ [CHR 0x0A]) us) =
      concat (map (\<lambda>l. l @ [CHR 0x0A]) (map format_update us))" by (simp add: comp_def)
  moreover have "\<forall>l\<in>set (map format_update us). CHR 0x0A \<notin> set l" using assms(1) format_no_newline by auto
  ultimately show ?thesis
    using scan_lines_concat [of "map format_update us"] parse_lines_format [of us "[]"] assms
    by (simp add: ParseUpdates_def)
qed

theorem ValidatePush_safe_witness:
  "(KindBranch, ''main'') \<in> set (present_after [(KindBranch, ''main''), (KindTag, ''v1'')] [sample_update]) \<and>
   no_shared_names (present_after [(KindBranch, ''main''), (KindTag, ''v1'')] [sample_update])"
proof -
  let ?existing = "[(KindBranch, ''main''), (KindTag, ''v1'')]"
  define RefOID :: "Kind \<Rightarrow> string \<Rightarrow> (push_error, string option) result"
    where "RefOID k n = ok (if (k, n) = (KindBranch, ''main'') then Some sample_old else None)"
    for k :: Kind and n :: string
  have parse: "ParseUpdates (format_update sample_update @ [CHR 0x0A]) = ok [sample_update]"
    using ParseUpdates_format [of "[sample_update]"] sample_sendable by (simp add: maxUpdates_def)
  have valid: "ValidatePush sample_objects push_context (ok True) (ok ?existing) [sample_update] = ok ()"
    using sample_hashes
    by (simp add: ValidatePush_def push_context_def Disabled_def check_update_def sample_update_def no_kind_def
        IsCreate_def IsDelete_def decide_def Evaluate_def selectRule_filter SelectPattern_def check_branch_def sample_objects_def)
  have moved: "CheckRefChanges RefOID (map change_of [sample_update]) = ok ()"
  proof -
    have "SplitFullName ''refs/heads/main'' = Some (KindBranch, ''main'')" "ValidateName ''main'' = ok ()" by code_simp+
    then show ?thesis using sample_hashes by (simp add: change_of_def sample_update_def RefOID_def)
  qed
  have "no_shared_names ?existing" by (simp add: no_shared_names_def)
  then show ?thesis
    using ValidatePush_safe [OF parse valid moved] by (simp add: RefOID_def push_context_def)
qed

text \<open>
  C39: \<open>ParseUpdates\<close> reads back exactly the updates git sends, up to 1,000 of them, spaces in ref
  names included.
\<close>

theorem ParseUpdates_roundtrip:
  assumes "\<forall>u\<in>set us. sendable u" and "length us \<le> 1000"
  shows "ParseUpdates (concat (map (\<lambda>u. format_update u @ [CHR 0x0A]) us)) = ok us"
  using ParseUpdates_format assms by (simp add: maxUpdates_def)

theorem ParseUpdates_roundtrip_witness:
  "ParseUpdates (format_update sample_update @ [CHR 0x0A]) = ok [sample_update]"
  using ParseUpdates_roundtrip [of "[sample_update]"] sample_sendable by simp

end
