(* ===== verification/Push_Properties.thy ===== *)
theory Push_Properties
  imports Push_System Push_Facts Ci_Sample
begin

text \<open>
  What pushes guarantee whatever fails in between: a push is recorded exactly once if Git applied it
  and never otherwise, and recovering an applied push does not touch the repository again.
\<close>

lemma length_filter_key:
  "distinct (map f xs) \<Longrightarrow> length (filter (\<lambda>x. f x = i) xs) = (if i \<in> f ` set xs then 1 else 0)"
  by (induction xs) auto

lemma push_inv_start:
  assumes "pd_ops db = []" and "pd_pushes db = []" and "pd_updates db = []"
    and "\<And>repoID i. ge_Receipt env (gits repoID) i = None"
  shows "push_inv env (db, gits)"
  using assms by (simp add: push_inv_def ops_inv_def pushes_inv_def receipts_known_def)

text \<open>
  C2: from an empty database and repositories without receipts, through any pushes, recoveries,
  crashes between transactions, noted failures, abandoned operations and runs: the operation of a push
  that completed without an error has exactly one push row and any other has none, and once an
  operation is completed, it is without an error exactly if Git has its receipt, so that the history
  of pushes is what Git applied.
\<close>

theorem push_recorded_once:
  assumes "reaches (push_allowed env) (push_exec parse et hash env) (db0, gits0) (db, gits)"
    and "pd_ops db0 = []" and "pd_pushes db0 = []" and "pd_updates db0 = []"
    and "\<forall>repoID i. ge_Receipt env (gits0 repoID) i = None"
    and "op \<in> set (pd_ops db)" and "op_Kind op = ''push''"
  shows "length (filter (\<lambda>x. pu_id x = op_ID op) (pd_pushes db)) =
      (if op_pending op \<or> op_Error op \<noteq> [] then 0 else 1) \<and>
    (\<not> op_pending op \<longrightarrow> op_Error op = [] \<longleftrightarrow> ge_Receipt env (gits (op_RepoID op)) (op_ID op) \<noteq> None)"
proof -
  have "push_inv env (db0, gits0)" using assms(2-5) by (intro push_inv_start) simp_all
  then have inv: "push_inv env (db, gits)" by (rule push.inv_reaches [OF assms(1)])
  then have "distinct (map pu_id (pd_pushes db))" by (simp add: push_inv_def pushes_inv_def)
  note once = length_filter_key [OF this, of "op_ID op"]
  have "op_consistent env db gits op" using inv assms(6) by (simp add: push_inv_def)
  then have c: "recorded_push db (op_ID op) \<longleftrightarrow> \<not> op_pending op \<and> op_Error op = []"
    "recorded_push db (op_ID op) \<longrightarrow> applied_push env gits op"
    "applied_push env gits op \<longrightarrow> op_pending op \<or> recorded_push db (op_ID op)"
    using assms(7) unfolding op_consistent_def by blast+
  then show ?thesis unfolding once recorded_push_def applied_push_def by auto
qed

text \<open>A repository whose only state is the receipts it holds, one branch and a file of its own.\<close>

definition sample_env :: "(string \<times> string) list git_env" where
  "sample_env = \<lparr>ge_Refs = (\<lambda>g. ok [\<lparr>gr_Kind = KindBranch, gr_Name = ''main'',
       gr_Commit = (if g = [] then sample_old else sample_new)\<rparr>]),
     ge_RefOID = (\<lambda>g k n. ok (if k = KindBranch \<and> n = ''main'' then Some (if g = [] then sample_old else sample_new)
        else None)),
     ge_Receipt = map_of, ge_HashObject = (\<lambda>_. ''h'')\<rparr>"

definition sample_git_log :: git_log where
  "sample_git_log = \<lparr>gl_CountNewCommits = (\<lambda>_ _ _. ok (1, False)), gl_CountCommits = (\<lambda>_ _. ok (1, False)),
     gl_Commit = (\<lambda>_. ok ()), gl_FileAt = (\<lambda>_. FileMissing)\<rparr>"

definition sample_push_db :: push_db where
  "sample_push_db = \<lparr>pd_ci = empty_db, pd_people = [pc_person push_context], pd_repos = [pc_repo push_context],
     pd_rules = [], pd_readers = [], pd_ops = [], pd_pushes = [], pd_updates = [], pd_refusals = [], pd_audit = []\<rparr>"

definition sample_do_push :: "(string \<times> string) list push_op" where
  "sample_do_push = DoPush 1 (\<lambda>_. (''run'', \<lambda>_. ''step'')) sample_objects sample_git_log
     \<lparr>at_State = [(''o1'', ''h'')], at_Failed = True, at_Killed = True\<rparr> True True ''o1'' ''r'' ''p1'' ''::1'' [sample_update]"

definition sample_do_recover :: "(string \<times> string) list push_op" where
  "sample_do_recover = DoRecover 2 (\<lambda>_. (''run'', \<lambda>_. ''step''))
     \<lparr>at_State = [(''o1'', ''h'')], at_Failed = False, at_Killed = False\<rparr> True ''o1''"

abbreviation sample_push_exec :: "(string \<times> string) list push_op \<Rightarrow> (string \<times> string) list push_state \<Rightarrow>
    (string \<times> string) list push_state" where
  "sample_push_exec \<equiv> push_exec sample_parse no_text sample_hash sample_env"

definition sample_pushed :: "(string \<times> string) list push_state" where
  "sample_pushed = sample_push_exec sample_do_push (sample_push_db, \<lambda>_. [])"

definition sample_intent_op :: Operation where
  "sample_intent_op = \<lparr>op_ID = ''o1'', op_RepoID = ''r'', op_Kind = ''push'', op_Name = [], op_ActorID = ''p1'',
     op_Payload = PushPayload \<lparr>in_Repository = Some (pc_repo push_context), in_PersonID = ''p1'', in_RemoteAddr = ''::1'',
       in_Records = [\<lparr>ur_Update = sample_update, ur_Commits = 1, ur_Capped = False,
         ur_Decision = decide push_context sample_update, ur_Commit = sample_new, ur_Pipeline = [], ur_Problem = [],
         ur_Force = False\<rparr>]\<rparr>,
     op_CreatedAt = 1, op_Completed = None, op_Error = []\<rparr>"

text \<open>The push dies right after the Git transaction: its intent is left, and no row of it.\<close>

lemma push_load: "load ''r'' ''p1'' sample_push_db = ok push_context"
  by (simp add: load_def sample_push_db_def push_context_def)

lemma push_hook:
  "validate_hook sample_objects sample_env True ''r'' ''p1'' ''::1'' [sample_update] sample_push_db [] = (ok (), sample_push_db)"
proof -
  have "CanRead (pc_repo push_context) (readers_of ''r'' sample_push_db) ''p1'' False"
    by (simp add: CanRead_def push_context_def)
  then show ?thesis
  using sample_hashes
  by (simp add: validate_hook_def push_load ValidatePush_def Disabled_def check_update_def sample_update_def
      no_kind_def IsCreate_def IsDelete_def decide_def Evaluate_def selectRule_filter SelectPattern_def check_branch_def
      sample_objects_def sample_env_def push_context_def)
qed

lemma push_moved: "g = [] \<Longrightarrow> CheckRefChanges (ge_RefOID sample_env g) [(''refs/heads/main'', sample_old, sample_new)] = ok ()"
proof -
  have "SplitFullName ''refs/heads/main'' = Some (KindBranch, ''main'')" "ValidateName ''main'' = ok ()" by code_simp+
  then show "g = [] \<Longrightarrow> CheckRefChanges (ge_RefOID sample_env g) [(''refs/heads/main'', sample_old, sample_new)] = ok ()"
    using sample_hashes by (simp add: sample_env_def)
qed

lemma push_decision: "d_RunOnPush (decide push_context sample_update) = False"
  by (simp add: decide_def Evaluate_def selectRule_filter SelectPattern_def push_context_def)

lemma push_records:
  "prepareRecords sample_objects sample_git_log push_context [sample_update] =
     ok [\<lparr>ur_Update = sample_update, ur_Commits = 1, ur_Capped = False,
         ur_Decision = decide push_context sample_update, ur_Commit = sample_new, ur_Pipeline = [], ur_Problem = [],
         ur_Force = False\<rparr>]"
  using sample_hashes push_decision
  by (simp add: count_commits_def resolve_update_def sample_objects_def sample_git_log_def sample_update_def IsDelete_def
      IsCreate_def no_kind_def Let_def)

lemma push_killed:
  "sample_pushed = (set_ops [sample_intent_op] sample_push_db, (\<lambda>_. [])(''r'' := [(''o1'', ''h'')]))"
proof -
  have w: "WithMutation ''r'' sample_push_db = ok ()" by (simp add: WithMutation_def sample_push_db_def empty_db_def)
  have b: "BeginOperation 1 ''o1'' ''r'' ''push'' [] ''p1'' p sample_push_db =
      ok (sample_intent_op\<lparr>op_Payload := p\<rparr>, set_ops [sample_intent_op\<lparr>op_Payload := p\<rparr>] sample_push_db)" for p
    by (simp add: BeginOperation_def sample_push_db_def sample_intent_op_def Let_def)
  have ids: "rp_ID (pc_repo push_context) = ''r''" "pe_ID (pc_person push_context) = ''p1''" by (simp_all add: push_context_def)
  have r: "recoverPush sample_parse no_text 1 (\<lambda>_. (''run'', \<lambda>_. ''step'')) sample_env
      \<lparr>at_State = [(''o1'', ''h'')], at_Failed = True, at_Killed = True\<rparr> True sample_intent_op db [] =
      (Inl Died, db, [(''o1'', ''h'')])" for db
  proof -
    obtain intent where intent: "op_Payload sample_intent_op = PushPayload intent"
      "in_Repository intent = Some (pc_repo push_context)" "changes_of (in_Records intent) = [change_of sample_update]"
      by (simp add: sample_intent_op_def changes_of_def change_of_def Let_def)
    have "change_of sample_update = (''refs/heads/main'', sample_old, sample_new)"
      by (simp add: change_of_def sample_update_def)
    then have moved: "CheckRefChanges (ge_RefOID sample_env []) [change_of sample_update] = ok ()"
      using push_moved [of "[]"] by metis
    have "op_ID sample_intent_op = ''o1''" "op_RepoID sample_intent_op = ''r''" by (simp_all add: sample_intent_op_def)
    moreover have "ge_Receipt sample_env [] i = None" for i by (simp add: sample_env_def)
    ultimately show ?thesis
      by (simp add: recoverPush_def intent ids apply_in_git_def OperationApplied_in_def moved Let_def)
  qed
  have moved: "CheckRefChanges (ge_RefOID sample_env []) [(up_Ref sample_update, up_Old sample_update, up_New sample_update)] =
      ok ()" using push_moved [of "[]"] unfolding sample_update_def by (simp del: CheckRefChanges.simps)
  have same: "sample_intent_op\<lparr>op_Payload := PushPayload \<lparr>in_Repository = Some (pc_repo push_context), in_PersonID = ''p1'',
      in_RemoteAddr = ''::1'', in_Records = [\<lparr>ur_Update = sample_update, ur_Commits = 1, ur_Capped = False,
         ur_Decision = decide push_context sample_update, ur_Commit = sample_new, ur_Pipeline = [], ur_Problem = [],
         ur_Force = False\<rparr>]\<rparr>\<rparr> = sample_intent_op" by (simp add: sample_intent_op_def)
  show ?thesis
    by (simp add: sample_pushed_def sample_do_push_def ApplyPush_def w push_hook push_load push_records b ids moved same [simplified] r
        del: CheckRefChanges.simps prepareRecords.simps)
qed

lemma push_finished:
  "pd_ops (fst (sample_push_exec sample_do_recover sample_pushed)) = [sample_intent_op\<lparr>op_Completed := Some 2\<rparr>]"
proof -
  have del: "IsDelete sample_update = False" using sample_hashes by (simp add: IsDelete_def sample_update_def)
  have op: "op_ID sample_intent_op = ''o1''" "op_RepoID sample_intent_op = ''r''" "op_Kind sample_intent_op = ''push''"
    "op_Completed sample_intent_op = None" "op_Error sample_intent_op = []" by (simp_all add: sample_intent_op_def)
  obtain intent where intent: "op_Payload sample_intent_op = PushPayload intent"
    "in_Repository intent = Some (pc_repo push_context)" "in_PersonID intent = ''p1''"
    "in_Records intent = [\<lparr>ur_Update = sample_update, ur_Commits = 1, ur_Capped = False,
         ur_Decision = decide push_context sample_update, ur_Commit = sample_new, ur_Pipeline = [], ur_Problem = [],
         ur_Force = False\<rparr>]"
    by (simp add: sample_intent_op_def)
  have ids: "rp_ID (pc_repo push_context) = ''r''" "pe_ID (pc_person push_context) = ''p1''"
    "pd_people sample_push_db = [pc_person push_context]" "pd_pushes sample_push_db = []"
    by (simp_all add: push_context_def sample_push_db_def)
  have applied: "apply_in_git sample_env a sample_intent_op intent [(''o1'', ''h'')] = (ok None, [(''o1'', ''h'')])" for a
    by (simp add: apply_in_git_def OperationApplied_in_def op sample_env_def)
  obtain refs where refs: "ge_Refs sample_env [(''o1'', ''h'')] = ok refs" by (simp add: sample_env_def)
  have upd: "pd_ops (insertPushUpdate i r db) = pd_ops db" "pd_ci (insertPushUpdate i r db) = pd_ci db"
    for i :: string and r :: updateRecord and db :: push_db
    by (simp_all add: insertPushUpdate_def Let_def)
  show ?thesis
    by (simp add: push_killed sample_do_recover_def recover_one_def op_pending_def recoverPush_def op intent ids applied
        recordPush_def SyncRefsTx_def refs insertPush_def record_run_def push_decision del finish_tx_def Let_def
        CompleteOperationTx_def update_where_def upd)
qed

definition sample_recovered :: "(string \<times> string) list push_state" where
  "sample_recovered = sample_push_exec sample_do_recover sample_pushed"

lemma sample_recovered_reaches:
  "reaches (push_allowed sample_env) sample_push_exec (sample_push_db, \<lambda>_. []) sample_recovered"
proof -
  have "push_allowed sample_env sample_do_push (sample_push_db, \<lambda>_. [])"
    by (simp add: sample_do_push_def git_transaction_def sample_env_def)
  then have "reaches (push_allowed sample_env) sample_push_exec (sample_push_db, \<lambda>_. []) sample_pushed"
    unfolding sample_pushed_def by (rule reaches_one)
  moreover have "push_allowed sample_env sample_do_recover sample_pushed"
    by (simp add: push_killed sample_do_recover_def git_transaction_def sample_env_def sample_intent_op_def)
  ultimately show ?thesis unfolding sample_recovered_def by (rule reaches_step)
qed

theorem push_recorded_once_witness:
  "length (filter (\<lambda>x. pu_id x = ''o1'') (pd_pushes (fst sample_recovered))) = 1 \<and>
   ge_Receipt sample_env (snd sample_recovered ''r'') ''o1'' \<noteq> None"
proof -
  obtain db gits where s: "sample_recovered = (db, gits)" by (cases sample_recovered)
  let ?op = "sample_intent_op\<lparr>op_Completed := Some 2\<rparr>"
  have "pd_ops db = [?op]" using push_finished s by (simp add: sample_recovered_def)
  then have op: "?op \<in> set (pd_ops db)" "op_Kind ?op = ''push''" by (simp_all add: sample_intent_op_def)
  have "pd_ops sample_push_db = []" "pd_pushes sample_push_db = []" "pd_updates sample_push_db = []"
    "\<forall>repoID i. ge_Receipt sample_env ((\<lambda>_. []) repoID) i = None"
    by (simp_all add: sample_push_db_def sample_env_def)
  from push_recorded_once [OF sample_recovered_reaches [unfolded s] this op] show ?thesis
    by (simp add: s sample_intent_op_def op_pending_def)
qed

text \<open>
  C24: once Git has the receipt of a push, recovering it changes no ref: whatever the Git transaction
  would do, it is not run again, and the push is not rejected either; the recovery records it, with
  one push row, or leaves the database as it was.
\<close>

theorem recoverPush_repeats_nothing:
  assumes "recoverPush parse et now ids env a db_ok op db g = (res, db', g')"
    and "ge_Receipt env g (op_ID op) \<noteq> None" and "find (\<lambda>x. op_ID x = op_ID op) (pd_ops db) = Some op" and "op_pending op"
  shows "g' = g \<and> recoverPush parse et now ids env a' db_ok op db g = (res, db', g') \<and> res \<noteq> ok False \<and>
    (if res = ok True
     then (\<exists>row. pd_pushes db' = pd_pushes db @ [row] \<and> pu_id row = op_ID op) \<and> op_ID op \<notin> pu_id ` set (pd_pushes db)
     else db' = db)"
proof -
  obtain h where h: "ge_Receipt env g (op_ID op) = Some h" using assms(2) by auto
  have git: "apply_in_git env b op intent g =
      ((if h = ge_HashObject env (op_Payload op) then ok None else Inl ReceiptMismatch), g)" for b intent
    by (simp add: apply_in_git_def OperationApplied_in_def h)
  have "recoverPush parse et now ids env a' db_ok op db g = recoverPush parse et now ids env a db_ok op db g"
    unfolding recoverPush_def git ..
  then have same: "recoverPush parse et now ids env a' db_ok op db g = (res, db', g')" using assms(1) by simp
  have result: "g' = g \<and> res \<noteq> ok False \<and>
    (if res = ok True
     then (\<exists>row. pd_pushes db' = pd_pushes db @ [row] \<and> pu_id row = op_ID op) \<and> op_ID op \<notin> pu_id ` set (pd_pushes db)
     else db' = db)"
  proof (cases "\<exists>intent r person. op_Payload op = PushPayload intent \<and> in_Repository intent = Some r \<and> rp_ID r = op_RepoID op \<and>
      h = ge_HashObject env (op_Payload op) \<and> find (\<lambda>p. pe_ID p = in_PersonID intent) (pd_people db) = Some person")
    case False
    have "recoverPush parse et now ids env a db_ok op db g \<in> range (\<lambda>e. (Inl e, db, g))"
    proof (cases "op_Payload op")
      case (PushPayload intent)
      show ?thesis
      proof (cases "in_Repository intent")
        case (Some r)
        then show ?thesis using False PushPayload
          by (cases "rp_ID r = op_RepoID op"; cases "h = ge_HashObject env (op_Payload op)";
              cases "find (\<lambda>p. pe_ID p = in_PersonID intent) (pd_people db)") (simp_all add: recoverPush_def git)
      qed (simp add: recoverPush_def PushPayload)
    qed (simp add: recoverPush_def)
    then show ?thesis using assms(1) by auto
  next
    case True
    then obtain intent r person where i: "op_Payload op = PushPayload intent" "in_Repository intent = Some r"
      "rp_ID r = op_RepoID op" "h = ge_HashObject env (op_Payload op)"
      "find (\<lambda>p. pe_ID p = in_PersonID intent) (pd_people db) = Some person" by blast
    define tx where "tx = recordPush parse et now ids env g r person (in_RemoteAddr intent) (in_Records intent) (op_ID op) db"
    have run: "finish_tx db_ok db (bind_result tx (\<lambda>(_, db). ok (True, db))) = (res, db')" "g' = g"
      using assms(1) i unfolding recoverPush_def git by (auto simp: tx_def split: prod.splits)
    show ?thesis
    proof (cases "\<exists>c db1. tx = Inr (c, db1) \<and> db_ok")
      case True
      then obtain c where tx: "tx = Inr (c, db')" and res: "res = ok True" using run by (auto simp: finish_tx_def)
      from recordPush_Inr [OF tx [unfolded tx_def] assms(3,4)]
      have "op_ID op \<notin> pu_id ` set (pd_pushes db) \<and> (\<exists>row. pd_pushes db' = pd_pushes db @ [row] \<and> pu_id row = op_ID op)"
        by (metis push_row.select_convs(1))
      then show ?thesis using res run(2) by simp
    next
      case False
      then have "db' = db \<and> (\<exists>e. res = Inl e)" using run(1) by (cases tx) (auto simp: finish_tx_def)
      then show ?thesis using run(2) by auto
    qed
  qed
  show ?thesis using result same by blast
qed

theorem recoverPush_repeats_nothing_witness:
  "fst (snd (recoverPush sample_parse no_text 2 (\<lambda>_. (''run'', \<lambda>_. ''step'')) sample_env
     \<lparr>at_State = [], at_Failed = False, at_Killed = False\<rparr> False sample_intent_op (set_ops [sample_intent_op] sample_push_db)
     [(''o1'', ''h'')])) = set_ops [sample_intent_op] sample_push_db"
proof -
  let ?run = "recoverPush sample_parse no_text 2 (\<lambda>_. (''run'', \<lambda>_. ''step'')) sample_env
     \<lparr>at_State = [], at_Failed = False, at_Killed = False\<rparr> False sample_intent_op (set_ops [sample_intent_op] sample_push_db)
     [(''o1'', ''h'')]"
  obtain res db' g' where run: "?run = (res, db', g')" by (cases ?run)
  have "res \<noteq> ok True" using run by (auto simp: recoverPush_def finish_tx_def split: payload.splits option.splits sum.splits if_splits prod.splits bool.splits)
  moreover have "ge_Receipt sample_env [(''o1'', ''h'')] (op_ID sample_intent_op) \<noteq> None"
    "find (\<lambda>x. op_ID x = op_ID sample_intent_op) (pd_ops (set_ops [sample_intent_op] sample_push_db)) = Some sample_intent_op"
    "op_pending sample_intent_op"
    by (simp_all add: sample_env_def sample_intent_op_def op_pending_def)
  from recoverPush_repeats_nothing [OF run this] calculation show ?thesis by (simp add: run)
qed

end
