(* ===== verification/Repos.thy ===== *)
theory Repos
  imports Push_Record
begin

text \<open>
  Package \<open>internal/repo\<close>, files \<open>service.go\<close> and \<open>store.go\<close>: repositories, who may read them, their
  rules and default push policy, on the tables of \<^theory_text>\<open>Push_Record\<close>.

  The two records the model keeps of a row of table \<open>repos\<close>, one for its settings and one for its
  run counter, are inserted and deleted together. A list of people is kept in the order the queries
  return it, sorted and without duplicates; strings are ordered by byte. Rows of \<open>events\<close> are kept as
  (repository, actor, action, detail).
\<close>

section \<open>State and errors\<close>

record secret_row =
  sc_repo :: string
  sc_key :: string
  sc_ciphertext :: string
  sc_nonce :: string
  sc_created_by :: "string option"

record repo_state =
  rs_db :: push_db
  rs_secrets :: "secret_row list"
  rs_events :: "(string \<times> string \<times> string \<times> string) list"

datatype service_error =
  Journal journal_error | NameInvalid "name_error go_error" | SettingInvalid "repo_error go_error"
| RuleInvalid "rule_error go_error" | TooManyRepositories | TooManyCreates | AlreadyExists | RepositoryNotFound
| ReaderNotFound | RuleNotFound | SecretNotFound | NoBranchNamed string | PeopleMissing | ForeignKeyFailure | CheckFailure
| StoreExists | StoreNotFound | StoreFailure | InvalidRepoID | InvalidHead | UnexpectedOperation string
| SecretsUnavailable | SecretKeyShape | SecretKeyPrefix string | SecretKeyDocker string | SecretEmpty | SecretNotText
| SecretTooLong | SecretBudget | SealFailure | OpenFailure string

type_synonym 'a rtx = "(service_error, 'a \<times> repo_state) result"

definition set_db :: "push_db \<Rightarrow> repo_state \<Rightarrow> repo_state" where
  "set_db db s = s\<lparr>rs_db := db\<rparr>"

definition record_event :: "string \<Rightarrow> string \<Rightarrow> string \<Rightarrow> string \<Rightarrow> repo_state \<Rightarrow> repo_state" where
  "record_event repoID actorID action detail s = s\<lparr>rs_events := rs_events s @ [(repoID, actorID, action, detail)]\<rparr>"

definition person_exists :: "string \<Rightarrow> push_db \<Rightarrow> bool" where
  "person_exists personID db \<longleftrightarrow> personID \<in> pe_ID ` set (pd_people db)"

definition repo_exists :: "string \<Rightarrow> push_db \<Rightarrow> bool" where
  "repo_exists repoID db \<longleftrightarrow> repoID \<in> rp_ID ` set (pd_repos db)"

text \<open>\<open>NULLIF($n, '')\<close> in a column that references \<open>people\<close>.\<close>

definition optional_person :: "string \<Rightarrow> push_db \<Rightarrow> bool" where
  "optional_person personID db \<longleftrightarrow> personID = [] \<or> person_exists personID db"

definition nullif_empty :: "string \<Rightarrow> string option" where
  "nullif_empty s = (if s = [] then None else Some s)"

section \<open>Statements\<close>

definition sorted_people :: "string list \<Rightarrow> string list" where
  "sorted_people people = sort (remdups people)"

definition insertRepo ::
  "timestamp \<Rightarrow> string \<Rightarrow> string \<Rightarrow> string \<Rightarrow> string \<Rightarrow> string \<Rightarrow> push_db \<Rightarrow> (service_error, push_db) result" where
  "insertRepo now newID name description defaultBranch personID db =
     (if name \<noteq> to_lower name then Inl CheckFailure
      else if repo_exists newID db \<or> name \<in> rp_Name ` set (pd_repos db) then Inl AlreadyExists
      else if \<not> optional_person personID db then Inl ForeignKeyFailure
      else ok (db\<lparr>pd_repos := pd_repos db @
             [\<lparr>rp_ID = newID, rp_Name = name, rp_Description = description, rp_DefaultBranch = defaultBranch,
               rp_Visibility = VisibilityEveryone, rp_DefaultPushPolicy = PushEveryone, rp_DefaultPushPeople = [],
               rp_CreatedBy = nullif_empty personID, rp_CreatedAt = now\<rparr>],
           pd_ci := (pd_ci db)\<lparr>db_repos := db_repos (pd_ci db) @ [\<lparr>rr_id = newID, rr_name = name, rr_counter = 0\<rparr>]\<rparr>\<rparr>))"

definition selectRepoByName :: "push_db \<Rightarrow> string \<Rightarrow> (service_error, Repo) result" where
  "selectRepoByName db name =
     (case find (\<lambda>r. rp_Name r = to_lower name) (pd_repos db) of None \<Rightarrow> Inl RepositoryNotFound | Some r \<Rightarrow> ok r)"

definition selectRepoByID :: "push_db \<Rightarrow> string \<Rightarrow> (service_error, Repo) result" where
  "selectRepoByID db repoID =
     (case find (\<lambda>r. rp_ID r = repoID) (pd_repos db) of None \<Rightarrow> Inl RepositoryNotFound | Some r \<Rightarrow> ok r)"

definition selectAllRepos :: "push_db \<Rightarrow> Repo list" where
  "selectAllRepos db = sort_key rp_Name (pd_repos db)"

definition selectRepos :: "push_db \<Rightarrow> Repo list" where
  "selectRepos db = take 1000 (sort_key rp_Name (pd_repos db))"

definition selectIsReader :: "push_db \<Rightarrow> string \<Rightarrow> string \<Rightarrow> bool" where
  "selectIsReader db repoID personID \<longleftrightarrow> (repoID, personID) \<in> set (pd_readers db)"

definition selectReadableRepos :: "push_db \<Rightarrow> string \<Rightarrow> Repo list" where
  "selectReadableRepos db personID =
     take 500 (sort_key rp_Name (filter (\<lambda>r. rp_Visibility r = VisibilityEveryone \<or> selectIsReader db (rp_ID r) personID)
       (pd_repos db)))"

text \<open>An \<open>UPDATE repos ... WHERE id = $1\<close> that must hit a row.\<close>

definition update_repo :: "string \<Rightarrow> (Repo \<Rightarrow> Repo) \<Rightarrow> push_db \<Rightarrow> (service_error, push_db) result" where
  "update_repo repoID f db =
     (if repo_exists repoID db then ok (db\<lparr>pd_repos := update_where (\<lambda>r. rp_ID r = repoID) f (pd_repos db)\<rparr>)
      else Inl RepositoryNotFound)"

definition updateVisibilityRow :: "string \<Rightarrow> Visibility \<Rightarrow> push_db \<Rightarrow> (service_error, push_db) result" where
  "updateVisibilityRow repoID v db = update_repo repoID (\<lambda>r. r\<lparr>rp_Visibility := v\<rparr>) db"

definition updateDescriptionRow :: "string \<Rightarrow> string \<Rightarrow> push_db \<Rightarrow> (service_error, push_db) result" where
  "updateDescriptionRow repoID description db = update_repo repoID (\<lambda>r. r\<lparr>rp_Description := description\<rparr>) db"

definition updateDefaultBranchRow :: "string \<Rightarrow> string \<Rightarrow> push_db \<Rightarrow> (service_error, string \<times> push_db) result" where
  "updateDefaultBranchRow repoID branch db =
     bind_result (selectRepoByID db repoID) (\<lambda>r.
       bind_result (update_repo repoID (\<lambda>r. r\<lparr>rp_DefaultBranch := branch\<rparr>) db) (\<lambda>db. ok (rp_DefaultBranch r, db)))"

definition updateDefaultPushRow ::
  "string \<Rightarrow> PushPolicy \<Rightarrow> string list \<Rightarrow> push_db \<Rightarrow> (service_error, push_db) result" where
  "updateDefaultPushRow repoID policy people db =
     bind_result (update_repo repoID
         (\<lambda>r. r\<lparr>rp_DefaultPushPolicy := policy, rp_DefaultPushPeople := sorted_people people\<rparr>) db) (\<lambda>db.
       if list_all (\<lambda>p. person_exists p db) people then ok db else Inl ForeignKeyFailure)"

text \<open>\<open>ON CONFLICT DO NOTHING\<close>; both columns are foreign keys.\<close>

definition insertReaderRow :: "string \<Rightarrow> string \<Rightarrow> push_db \<Rightarrow> (service_error, push_db) result" where
  "insertReaderRow repoID personID db =
     (if (repoID, personID) \<in> set (pd_readers db) then ok db
      else if repo_exists repoID db \<and> person_exists personID db
      then ok (db\<lparr>pd_readers := pd_readers db @ [(repoID, personID)]\<rparr>)
      else Inl ForeignKeyFailure)"

fun insert_readers :: "string \<Rightarrow> string list \<Rightarrow> push_db \<Rightarrow> (service_error, push_db) result" where
  "insert_readers repoID [] db = ok db"
| "insert_readers repoID (p # ps) db = bind_result (insertReaderRow repoID p db) (insert_readers repoID ps)"

definition deleteReaderRow :: "string \<Rightarrow> string \<Rightarrow> push_db \<Rightarrow> (service_error, push_db) result" where
  "deleteReaderRow repoID personID db =
     (if (repoID, personID) \<in> set (pd_readers db)
      then ok (db\<lparr>pd_readers := filter (\<lambda>x. x \<noteq> (repoID, personID)) (pd_readers db)\<rparr>)
      else Inl ReaderNotFound)"

definition selectReaderIDs :: "push_db \<Rightarrow> string \<Rightarrow> string list" where
  "selectReaderIDs db repoID = map snd (filter (\<lambda>x. fst x = repoID) (pd_readers db))"

definition same_rule :: "string \<Rightarrow> Kind \<Rightarrow> string \<Rightarrow> string \<times> Rule \<Rightarrow> bool" where
  "same_rule repoID kind pattern x \<longleftrightarrow> fst x = repoID \<and> rl_Kind (snd x) = kind \<and> rl_Pattern (snd x) = pattern"

definition selectRules :: "push_db \<Rightarrow> string \<Rightarrow> Rule list" where
  "selectRules db repoID =
     sort_key (\<lambda>r. kind_string (rl_Kind r)) (sort_key rl_Pattern (map snd (filter (\<lambda>x. fst x = repoID) (pd_rules db))))"

definition upsertRule :: "string \<Rightarrow> Rule \<Rightarrow> string \<Rightarrow> push_db \<Rightarrow> (service_error, push_db) result" where
  "upsertRule repoID r personID db =
     (let r = r\<lparr>rl_PushPeople := sorted_people (rl_PushPeople r)\<rparr>;
          same = same_rule repoID (rl_Kind r) (rl_Pattern r)
      in if \<not> list_all (\<lambda>p. person_exists p db) (rl_PushPeople r) then Inl ForeignKeyFailure
         else if list_ex same (pd_rules db)
         then ok (db\<lparr>pd_rules := update_where same (\<lambda>_. (repoID, r)) (pd_rules db)\<rparr>)
         else if repo_exists repoID db \<and> optional_person personID db
         then ok (db\<lparr>pd_rules := pd_rules db @ [(repoID, r)]\<rparr>)
         else Inl ForeignKeyFailure)"

definition deleteRuleRow :: "string \<Rightarrow> Kind \<Rightarrow> string \<Rightarrow> push_db \<Rightarrow> (service_error, push_db) result" where
  "deleteRuleRow repoID kind pattern db =
     (if list_ex (same_rule repoID kind pattern) (pd_rules db)
      then ok (db\<lparr>pd_rules := filter (\<lambda>x. \<not> same_rule repoID kind pattern x) (pd_rules db)\<rparr>)
      else Inl RuleNotFound)"

text \<open>
  \<open>DELETE FROM repos\<close> with its cascades. A run or step that owns a deployment target is referenced
  with \<open>ON DELETE RESTRICT\<close> and makes the statement fail.
\<close>

definition delete_runs_of :: "string \<Rightarrow> ci_db \<Rightarrow> ci_db" where
  "delete_runs_of repoID ci =
     (let runs = map r_id (filter (\<lambda>r. r_repo r = repoID) (db_runs ci));
          steps = map s_id (filter (\<lambda>s. s_run s \<in> set runs) (db_steps ci))
      in ci\<lparr>db_repos := filter (\<lambda>r. rr_id r \<noteq> repoID) (db_repos ci),
           db_refs := filter (\<lambda>r. rf_repo r \<noteq> repoID) (db_refs ci),
           db_runs := filter (\<lambda>r. r_repo r \<noteq> repoID) (db_runs ci),
           db_steps := filter (\<lambda>s. s_run s \<notin> set runs) (db_steps ci),
           db_targets := filter (\<lambda>t. dt_repo t \<noteq> repoID) (db_targets ci),
           db_deployments := filter (\<lambda>d. dp_repo d \<noteq> repoID) (db_deployments ci),
           db_logs := filter (\<lambda>l. l_repo l \<noteq> repoID \<and> l_step l \<notin> set steps) (db_logs ci),
           db_summary := filter (\<lambda>x. fst (fst x) \<notin> set runs) (db_summary ci)\<rparr>)"

definition deleteRepoRow :: "string \<Rightarrow> repo_state \<Rightarrow> string rtx" where
  "deleteRepoRow repoID s =
     (let db = rs_db s;
          runs = map r_id (filter (\<lambda>r. r_repo r = repoID) (db_runs (pd_ci db)));
          pushes = map pu_id (filter (\<lambda>x. pu_repo x = repoID) (pd_pushes db))
      in bind_result (selectRepoByID db repoID) (\<lambda>r.
        if list_ex (\<lambda>t. case dt_owner t of None \<Rightarrow> False | Some (run, _) \<Rightarrow> run \<in> set runs) (db_targets (pd_ci db))
        then Inl ForeignKeyFailure
        else ok (rp_Name r,
          s\<lparr>rs_db := db\<lparr>pd_ci := delete_runs_of repoID (pd_ci db),
              pd_repos := filter (\<lambda>r. rp_ID r \<noteq> repoID) (pd_repos db),
              pd_rules := filter (\<lambda>x. fst x \<noteq> repoID) (pd_rules db),
              pd_readers := filter (\<lambda>x. fst x \<noteq> repoID) (pd_readers db),
              pd_pushes := filter (\<lambda>x. pu_repo x \<noteq> repoID) (pd_pushes db),
              pd_updates := filter (\<lambda>x. pp_push x \<notin> set pushes) (pd_updates db),
              pd_refusals := filter (\<lambda>x. rs_repo x \<noteq> repoID) (pd_refusals db)\<rparr>,
            rs_secrets := filter (\<lambda>x. sc_repo x \<noteq> repoID) (rs_secrets s),
            rs_events := filter (\<lambda>x. fst x \<noteq> repoID) (rs_events s)\<rparr>)))"

section \<open>Reading\<close>

definition ListReadable :: "push_db \<Rightarrow> string \<Rightarrow> bool \<Rightarrow> Repo list" where
  "ListReadable db personID isAdmin = (if isAdmin then selectRepos db else selectReadableRepos db personID)"

definition CanReadID :: "push_db \<Rightarrow> string \<Rightarrow> string \<Rightarrow> bool \<Rightarrow> (service_error, bool) result" where
  "CanReadID db repoID personID isAdmin =
     bind_result (selectRepoByID db repoID) (\<lambda>r. ok (CanRead r (selectReaderIDs db repoID) personID isAdmin))"

section \<open>Access and rules\<close>

definition validatePeople :: "string list \<Rightarrow> push_db \<Rightarrow> (service_error, unit) result" where
  "validatePeople people db = (if list_all (\<lambda>p. person_exists p db) people then ok () else Inl PeopleMissing)"

definition visibility_text :: "Visibility \<Rightarrow> string" where
  "visibility_text v = (case v of VisibilityEveryone \<Rightarrow> ''everyone'' | VisibilityRestricted \<Rightarrow> ''restricted''
     | VisibilityUnknown s \<Rightarrow> s)"

definition policy_text :: "PushPolicy \<Rightarrow> string" where
  "policy_text p = (case p of PushEveryone \<Rightarrow> ''everyone'' | PushAdmins \<Rightarrow> ''admins'' | PushPeople \<Rightarrow> ''people''
     | PushUnknown s \<Rightarrow> s)"

definition SetDescription :: "string \<Rightarrow> string \<Rightarrow> string \<Rightarrow> repo_state \<Rightarrow> unit rtx" where
  "SetDescription repoID description actorID s =
     (let description = trim_space description in
      bind_result (map_error SettingInvalid (ValidateDescription description)) (\<lambda>_.
      bind_result (updateDescriptionRow repoID description (rs_db s)) (\<lambda>db.
        ok ((), record_event repoID actorID ''repo.description_changed'' [] (set_db db s)))))"

definition SetVisibility :: "string \<Rightarrow> Visibility \<Rightarrow> string \<Rightarrow> repo_state \<Rightarrow> unit rtx" where
  "SetVisibility repoID v actorID s =
     bind_result (map_error SettingInvalid (ValidateVisibility v)) (\<lambda>_.
     bind_result (updateVisibilityRow repoID v (rs_db s)) (\<lambda>db.
       ok ((), record_event repoID actorID ''repo.visibility_changed'' (visibility_text v) (set_db db s))))"

definition SetAccess ::
  "string \<Rightarrow> Visibility \<Rightarrow> PushPolicy \<Rightarrow> string list \<Rightarrow> string list \<Rightarrow> string \<Rightarrow> repo_state \<Rightarrow> unit rtx" where
  "SetAccess repoID v policy readers pushers actorID s =
     bind_result (map_error SettingInvalid (ValidateVisibility v)) (\<lambda>_.
     bind_result (map_error RuleInvalid (ValidateDefaultPush policy pushers)) (\<lambda>_.
     bind_result (validatePeople (readers @ pushers) (rs_db s)) (\<lambda>_.
     bind_result (updateVisibilityRow repoID v (rs_db s)) (\<lambda>db.
     bind_result (insert_readers repoID readers (db\<lparr>pd_readers := filter (\<lambda>x. fst x \<noteq> repoID) (pd_readers db)\<rparr>)) (\<lambda>db.
     bind_result (updateDefaultPushRow repoID policy pushers db) (\<lambda>db.
       ok ((), record_event repoID actorID ''repo.visibility_changed''
         (''access: '' @ visibility_text v @ ''; push: '' @ policy_text policy) (set_db db s))))))))"

definition AddReader :: "string \<Rightarrow> string \<Rightarrow> string \<Rightarrow> string \<Rightarrow> repo_state \<Rightarrow> unit rtx" where
  "AddReader repoID personID readerName actorID s =
     bind_result (insertReaderRow repoID personID (rs_db s)) (\<lambda>db.
       ok ((), record_event repoID actorID ''repo.reader_added'' readerName (set_db db s)))"

definition RemoveReader :: "string \<Rightarrow> string \<Rightarrow> string \<Rightarrow> string \<Rightarrow> repo_state \<Rightarrow> unit rtx" where
  "RemoveReader repoID personID readerName actorID s =
     bind_result (deleteReaderRow repoID personID (rs_db s)) (\<lambda>db.
       ok ((), record_event repoID actorID ''repo.reader_removed'' readerName (set_db db s)))"

definition SetDefaultPush :: "string \<Rightarrow> PushPolicy \<Rightarrow> string list \<Rightarrow> string \<Rightarrow> repo_state \<Rightarrow> unit rtx" where
  "SetDefaultPush repoID policy people actorID s =
     bind_result (map_error RuleInvalid (ValidateDefaultPush policy people)) (\<lambda>_.
     bind_result (validatePeople people (rs_db s)) (\<lambda>_.
     bind_result (updateDefaultPushRow repoID policy people (rs_db s)) (\<lambda>db.
       ok ((), record_event repoID actorID ''repo.default_push_changed'' (policy_text policy) (set_db db s)))))"

definition SaveRule :: "string \<Rightarrow> Rule \<Rightarrow> string \<Rightarrow> repo_state \<Rightarrow> unit rtx" where
  "SaveRule repoID r actorID s =
     bind_result (map_error RuleInvalid (ValidateRule r)) (\<lambda>_.
     bind_result (validatePeople (rl_PushPeople r) (rs_db s)) (\<lambda>_.
     bind_result (upsertRule repoID r actorID (rs_db s)) (\<lambda>db.
       ok ((), record_event repoID actorID ''rule.saved'' (kind_string (rl_Kind r) @ '' '' @ rl_Pattern r) (set_db db s)))))"

definition DeleteRule :: "string \<Rightarrow> Kind \<Rightarrow> string \<Rightarrow> string \<Rightarrow> repo_state \<Rightarrow> unit rtx" where
  "DeleteRule repoID kind pattern actorID s =
     bind_result (deleteRuleRow repoID kind pattern (rs_db s)) (\<lambda>db.
       ok ((), record_event repoID actorID ''rule.deleted'' (kind_string kind @ '' '' @ pattern) (set_db db s)))"

end
