(* ===== verification/Repo_Lifecycle.thy ===== *)
theory Repo_Lifecycle
  imports Repos
begin

text \<open>
  Creating and deleting repositories and changing their default branch: \<open>Create\<close>, \<open>Delete\<close> and
  \<open>SetDefaultBranch\<close> of \<open>internal/repo/service.go\<close>, \<open>applyRepositoryOperation\<close> and the recovery of
  \<open>internal/repo/operations.go\<close>, and the directories of \<open>internal/git/repository.go\<close>.

  The store is a map from repository identifiers to the branch \<open>HEAD\<close> names. A directory appears and
  disappears by one rename; what the file system and git do is an argument, \<open>store_attempt\<close>:
  whether the change happened, whether the files of a deleted repository could be removed, whether
  the process died before the database transaction, and whether that transaction commits.

  \<open>to_lower\<close> of a name is that of the ASCII range; \<open>strings.ToLower\<close> also maps the Kelvin sign to \<open>k\<close>,
  so a name written with it is accepted by the code and refused here.
\<close>

section \<open>The store\<close>

type_synonym store = "string \<rightharpoonup> string"

record store_attempt =
  sa_Changed :: bool
  sa_Removed :: bool
  sa_Killed :: bool
  sa_Commits :: bool

definition repo_id_char :: "char \<Rightarrow> bool" where
  "repo_id_char c \<longleftrightarrow> is_alnum c \<or> c = CHR ''-''"

definition repoIDPattern :: "string \<Rightarrow> bool" where
  "repoIDPattern s \<longleftrightarrow>
     (case s of [] \<Rightarrow> False | c # rest \<Rightarrow> is_alnum c \<and> length rest \<le> 63 \<and> list_all repo_id_char rest)"

definition store_Open :: "string \<Rightarrow> store \<Rightarrow> (service_error, string) result" where
  "store_Open repoID st =
     (if \<not> repoIDPattern repoID then Inl InvalidRepoID
      else case st repoID of None \<Rightarrow> Inl StoreNotFound | Some h \<Rightarrow> ok h)"

definition store_Create :: "store_attempt \<Rightarrow> string \<Rightarrow> string \<Rightarrow> store \<Rightarrow> (service_error, unit) result \<times> store" where
  "store_Create a repoID defaultBranch st =
     (if \<not> repoIDPattern repoID then (Inl InvalidRepoID, st)
      else if ValidateName defaultBranch \<noteq> ok () \<or> LooksLikeCommitHash defaultBranch then (Inl InvalidHead, st)
      else if st repoID \<noteq> None then (Inl StoreExists, st)
      else if \<not> sa_Changed a then (Inl StoreFailure, st)
      else (ok (), st(repoID \<mapsto> defaultBranch)))"

definition store_Delete :: "store_attempt \<Rightarrow> string \<Rightarrow> store \<Rightarrow> (service_error, unit) result \<times> store" where
  "store_Delete a repoID st =
     (if \<not> repoIDPattern repoID then (Inl InvalidRepoID, st)
      else if st repoID = None then (Inl StoreNotFound, st)
      else if \<not> sa_Changed a then (Inl StoreFailure, st)
      else ((if sa_Removed a then ok () else Inl StoreFailure), st(repoID := None)))"

definition SetHead :: "store_attempt \<Rightarrow> string \<Rightarrow> string \<Rightarrow> store \<Rightarrow> (service_error, unit) result \<times> store" where
  "SetHead a repoID branch st =
     (if ValidateName branch \<noteq> ok () then (Inl InvalidHead, st)
      else if \<not> sa_Changed a then (Inl StoreFailure, st)
      else (ok (), st(repoID \<mapsto> branch)))"

section \<open>Applying an operation\<close>

text \<open>
  The JSON payload read as a \<open>repositoryIntent\<close>: fields that are missing are empty.
\<close>

definition intent_of :: "payload \<Rightarrow> string \<times> string \<times> string" where
  "intent_of p = (case p of RepositoryPayload name description branch \<Rightarrow> (name, description, branch)
     | PushPayload _ \<Rightarrow> ([], [], []))"

definition finish_repo_tx ::
  "store_attempt \<Rightarrow> repo_state \<Rightarrow> store \<Rightarrow> (service_error, repo_state) result \<Rightarrow>
     (service_error, unit) result \<times> repo_state \<times> store" where
  "finish_repo_tx a s st res =
     (if sa_Killed a then (Inl (Journal Died), s, st)
      else case res of
        Inl e \<Rightarrow> (Inl e, s, st)
      | Inr s' \<Rightarrow> if sa_Commits a then (ok (), s', st) else (Inl (Journal DatabaseFailure), s, st))"

definition complete :: "timestamp \<Rightarrow> string \<Rightarrow> repo_state \<Rightarrow> repo_state" where
  "complete now opID s = set_db (CompleteOperationTx now opID (rs_db s)) s"

definition create_tx :: "timestamp \<Rightarrow> Operation \<Rightarrow> repo_state \<Rightarrow> (service_error, repo_state) result" where
  "create_tx now op s =
     (case intent_of (op_Payload op) of (name, description, branch) \<Rightarrow>
       bind_result (insertRepo now (op_RepoID op) name description branch (op_ActorID op) (rs_db s)) (\<lambda>db.
         ok (complete now (op_ID op) (record_event (op_RepoID op) (op_ActorID op) ''repo.created'' name (set_db db s)))))"

definition delete_tx :: "timestamp \<Rightarrow> Operation \<Rightarrow> repo_state \<Rightarrow> (service_error, repo_state) result" where
  "delete_tx now op s =
     (case intent_of (op_Payload op) of (name, description, branch) \<Rightarrow>
       bind_result (case deleteRepoRow (op_RepoID op) s of
           Inl RepositoryNotFound \<Rightarrow> ok s
         | Inl e \<Rightarrow> Inl e
         | Inr (_, s') \<Rightarrow> ok s') (\<lambda>s.
         ok (complete now (op_ID op) (record_event [] (op_ActorID op) ''repo.deleted'' name s))))"

definition head_tx :: "timestamp \<Rightarrow> Operation \<Rightarrow> repo_state \<Rightarrow> (service_error, repo_state) result" where
  "head_tx now op s =
     (case intent_of (op_Payload op) of (name, description, branch) \<Rightarrow>
       bind_result (updateDefaultBranchRow (op_RepoID op) branch (rs_db s)) (\<lambda>(_, db).
         ok (complete now (op_ID op)
           (record_event (op_RepoID op) (op_ActorID op) ''repo.default_branch_changed'' branch (set_db db s)))))"

definition applyRepositoryOperation ::
  "timestamp \<Rightarrow> store_attempt \<Rightarrow> Operation \<Rightarrow> repo_state \<Rightarrow> store \<Rightarrow>
     (service_error, unit) result \<times> repo_state \<times> store" where
  "applyRepositoryOperation now a op s st =
     (case intent_of (op_Payload op) of (name, description, branch) \<Rightarrow>
      if op_Kind op = ''create'' then
        (case store_Open (op_RepoID op) st of
           Inr _ \<Rightarrow> finish_repo_tx a s st (create_tx now op s)
         | Inl StoreNotFound \<Rightarrow>
             (case store_Create a (op_RepoID op) branch st of
                (Inl e, st') \<Rightarrow> (Inl e, s, st')
              | (Inr _, st') \<Rightarrow> finish_repo_tx a s st' (create_tx now op s))
         | Inl e \<Rightarrow> (Inl e, s, st))
      else if op_Kind op = ''delete'' then
        (case store_Delete a (op_RepoID op) st of
           (Inl StoreNotFound, st') \<Rightarrow> finish_repo_tx a s st' (delete_tx now op s)
         | (Inl e, st') \<Rightarrow> (Inl e, s, st')
         | (Inr _, st') \<Rightarrow> finish_repo_tx a s st' (delete_tx now op s))
      else if op_Kind op = ''head'' then
        (case store_Open (op_RepoID op) st of
           Inl e \<Rightarrow> (Inl e, s, st)
         | Inr _ \<Rightarrow>
             (case SetHead a (op_RepoID op) branch st of
                (Inl e, st') \<Rightarrow> (Inl e, s, st')
              | (Inr _, st') \<Rightarrow> finish_repo_tx a s st' (head_tx now op s)))
      else (Inl (UnexpectedOperation (op_Kind op)), s, st))"

section \<open>The service\<close>

definition maxRepositoriesPerPerson :: nat where
  "maxRepositoriesPerPerson = 100"

definition maxRepositoryCreatesHour :: nat where
  "maxRepositoryCreatesHour = 10"

definition creation_limit :: "timestamp \<Rightarrow> string \<Rightarrow> push_db \<Rightarrow> (service_error, unit) result" where
  "creation_limit now actorID db =
     (if actorID = [] then ok ()
      else let mine = filter (\<lambda>r. rp_CreatedBy r = Some actorID) (pd_repos db) in
        if maxRepositoriesPerPerson \<le> length mine then Inl TooManyRepositories
        else if maxRepositoryCreatesHour \<le> length (filter (\<lambda>r. now - hours 1 < rp_CreatedAt r) mine) then Inl TooManyCreates
        else ok ())"

text \<open>
  After the checks, an operation is begun, which is one transaction, and applied; \<open>begun\<close> is
  \<^const>\<open>False\<close> if the process dies in between.
\<close>

definition run_operation ::
  "timestamp \<Rightarrow> store_attempt \<Rightarrow> bool \<Rightarrow> string \<Rightarrow> string \<Rightarrow> string \<Rightarrow> string \<Rightarrow> string \<Rightarrow> payload \<Rightarrow> repo_state \<Rightarrow> store \<Rightarrow>
     (service_error, unit) result \<times> repo_state \<times> store" where
  "run_operation now a begun newOp repoID kind name actorID p s st =
     (case BeginOperation now newOp repoID kind name actorID p (rs_db s) of
        Inl e \<Rightarrow> (Inl (Journal e), s, st)
      | Inr (op, db) \<Rightarrow>
          if begun then applyRepositoryOperation now a op (set_db db s) st else (Inl (Journal Died), set_db db s, st))"

definition CreateRepository ::
  "timestamp \<Rightarrow> store_attempt \<Rightarrow> bool \<Rightarrow> string \<Rightarrow> string \<Rightarrow> string \<Rightarrow> string \<Rightarrow> string \<Rightarrow> string \<Rightarrow> repo_state \<Rightarrow> store \<Rightarrow>
     (service_error, Repo) result \<times> repo_state \<times> store" where
  "CreateRepository now a begun newID newOp name description defaultBranch actorID s st =
     (let name = to_lower name;
          description = trim_space description;
          defaultBranch = (if defaultBranch = [] then ''main'' else defaultBranch);
          checks = bind_result (map_error NameInvalid (ValidateRepository name)) (\<lambda>_.
            bind_result (creation_limit now actorID (rs_db s)) (\<lambda>_.
            bind_result (map_error SettingInvalid (ValidateDescription description)) (\<lambda>_.
            bind_result (map_error SettingInvalid (ValidateDefaultBranch defaultBranch)) (\<lambda>_.
            bind_result (map_error Journal (WithMutation newID (rs_db s))) (\<lambda>_.
            case selectRepoByName (rs_db s) name of
              Inr _ \<Rightarrow> Inl AlreadyExists
            | Inl e \<Rightarrow> if e = RepositoryNotFound then ok () else Inl e)))))
      in case checks of
           Inl e \<Rightarrow> (Inl e, s, st)
         | Inr _ \<Rightarrow>
             (case run_operation now a begun newOp newID ''create'' name actorID
                     (RepositoryPayload name description defaultBranch) s st of
                (Inl e, s', st') \<Rightarrow> (Inl e, s', st')
              | (Inr _, s', st') \<Rightarrow> (selectRepoByID (rs_db s') newID, s', st')))"

definition DeleteRepository ::
  "timestamp \<Rightarrow> store_attempt \<Rightarrow> bool \<Rightarrow> string \<Rightarrow> string \<Rightarrow> string \<Rightarrow> repo_state \<Rightarrow> store \<Rightarrow>
     (service_error, unit) result \<times> repo_state \<times> store" where
  "DeleteRepository now a begun newOp repoID actorID s st =
     (case bind_result (map_error Journal (WithMutation repoID (rs_db s))) (\<lambda>_. selectRepoByID (rs_db s) repoID) of
        Inl e \<Rightarrow> (Inl e, s, st)
      | Inr r \<Rightarrow> run_operation now a begun newOp repoID ''delete'' [] actorID (RepositoryPayload (rp_Name r) [] []) s st)"

text \<open>\<open>branches\<close> are the branches git lists, or its failure.\<close>

definition SetDefaultBranch ::
  "timestamp \<Rightarrow> store_attempt \<Rightarrow> bool \<Rightarrow> string \<Rightarrow> (service_error, string list) result \<Rightarrow> string \<Rightarrow> string \<Rightarrow> string \<Rightarrow>
     repo_state \<Rightarrow> store \<Rightarrow> (service_error, unit) result \<times> repo_state \<times> store" where
  "SetDefaultBranch now a begun newOp branches repoID branch actorID s st =
     (let checks = bind_result (map_error SettingInvalid (ValidateDefaultBranch branch)) (\<lambda>_.
            bind_result (map_error Journal (WithMutation repoID (rs_db s))) (\<lambda>_.
            bind_result (selectRepoByID (rs_db s) repoID) (\<lambda>current.
              if rp_DefaultBranch current = branch then ok False
              else bind_result (store_Open repoID st) (\<lambda>_.
                bind_result branches (\<lambda>names. if branch \<in> set names then ok True else Inl (NoBranchNamed branch))))))
      in case checks of
           Inl e \<Rightarrow> (Inl e, s, st)
         | Inr False \<Rightarrow> (ok (), s, st)
         | Inr True \<Rightarrow>
             run_operation now a begun newOp repoID ''head'' [] actorID (RepositoryPayload [] [] branch) s st)"

text \<open>
  One turn of the loop of \<open>RecoverOperations\<close> for an operation that is not a push, under the lock of
  its repository: an operation that finished meanwhile is left alone, and the text of a failure that
  is not a timeout is noted on the operation, unless the process died (or had timed out).
\<close>

definition recoverOperation ::
  "timestamp \<Rightarrow> store_attempt \<Rightarrow> bool \<Rightarrow> string \<Rightarrow> string \<Rightarrow> repo_state \<Rightarrow> store \<Rightarrow>
     (service_error, unit) result \<times> repo_state \<times> store" where
  "recoverOperation now a timed_out opID text s st =
     (case find (\<lambda>op. op_ID op = opID) (pd_ops (rs_db s)) of
        None \<Rightarrow> (Inl (Journal NoSuchOperation), s, st)
      | Some op \<Rightarrow>
          if \<not> op_pending op then (ok (), s, st)
          else (case applyRepositoryOperation now a op s st of
             (Inr _, s', st') \<Rightarrow> (ok (), s', st')
           | (Inl e, s', st') \<Rightarrow>
               if timed_out \<or> sa_Killed a then (Inl e, s', st')
               else (Inl e, set_db (note_failure opID text (rs_db s')) s', st')))"

text \<open>Directories nobody knows are moved out of the store.\<close>

definition known_repo :: "push_db \<Rightarrow> string \<Rightarrow> bool" where
  "known_repo db repoID \<longleftrightarrow>
     repo_exists repoID db \<or> list_ex (\<lambda>op. op_RepoID op = repoID \<and> op_pending op) (pd_ops db)"

definition QuarantineOrphans :: "push_db \<Rightarrow> store \<Rightarrow> store" where
  "QuarantineOrphans db st = (\<lambda>repoID. if known_repo db repoID then st repoID else None)"

end
