(* ===== verification/Repo_System.thy ===== *)
theory Repo_System
  imports Repo_Lifecycle Push_System
begin

text \<open>
  The repository service as a transition system over the database, the store and the Git
  repositories, composed with pushes, the run service and the operator who abandons operations. A
  call may die or fail between its transactions and the change of the store.
\<close>

section \<open>Operations\<close>

datatype 'g repo_op =
  DoCreateRepo timestamp store_attempt bool string string string string string string
| DoDeleteRepo timestamp store_attempt bool string string string
| DoSetBranch timestamp store_attempt bool string "(service_error, string list) result" string string string
| DoRecoverRepo timestamp store_attempt bool string string
| DoQuarantine
| DoSetDescription string string string
| DoSetVisibility string Visibility string
| DoSetAccess string Visibility PushPolicy "string list" "string list" string
| DoAddReader string string string string
| DoRemoveReader string string string string
| DoSetDefaultPush string PushPolicy "string list" string
| DoSaveRule string Rule string
| DoDeleteRule string Kind string string
| DoPushes "'g push_op"

type_synonym 'g repo_sys = "repo_state \<times> store \<times> (string \<Rightarrow> 'g)"

definition commit_repo :: "unit rtx \<Rightarrow> repo_state \<Rightarrow> repo_state" where
  "commit_repo res s = (case res of Inl _ \<Rightarrow> s | Inr (_, s') \<Rightarrow> s')"

fun repo_exec ::
  "(string \<Rightarrow> (parse_error, Config) result) \<Rightarrow> (parse_error \<Rightarrow> string) \<Rightarrow> (string \<Rightarrow> string) \<Rightarrow> 'g git_env \<Rightarrow>
     'g repo_op \<Rightarrow> 'g repo_sys \<Rightarrow> 'g repo_sys" where
  "repo_exec parse et hash env (DoCreateRepo now a begun newID newOp name description branch actorID) (s, st, gits) =
     (case CreateRepository now a begun newID newOp name description branch actorID s st of (_, s', st') \<Rightarrow> (s', st', gits))"
| "repo_exec parse et hash env (DoDeleteRepo now a begun newOp repoID actorID) (s, st, gits) =
     (case DeleteRepository now a begun newOp repoID actorID s st of (_, s', st') \<Rightarrow> (s', st', gits))"
| "repo_exec parse et hash env (DoSetBranch now a begun newOp branches repoID branch actorID) (s, st, gits) =
     (case SetDefaultBranch now a begun newOp branches repoID branch actorID s st of (_, s', st') \<Rightarrow> (s', st', gits))"
| "repo_exec parse et hash env (DoRecoverRepo now a timed_out opID text) (s, st, gits) =
     (case recoverOperation now a timed_out opID text s st of (_, s', st') \<Rightarrow> (s', st', gits))"
| "repo_exec parse et hash env DoQuarantine (s, st, gits) = (s, QuarantineOrphans (rs_db s) st, gits)"
| "repo_exec parse et hash env (DoSetDescription repoID description actorID) (s, st, gits) =
     (commit_repo (SetDescription repoID description actorID s) s, st, gits)"
| "repo_exec parse et hash env (DoSetVisibility repoID v actorID) (s, st, gits) =
     (commit_repo (SetVisibility repoID v actorID s) s, st, gits)"
| "repo_exec parse et hash env (DoSetAccess repoID v policy readers pushers actorID) (s, st, gits) =
     (commit_repo (SetAccess repoID v policy readers pushers actorID s) s, st, gits)"
| "repo_exec parse et hash env (DoAddReader repoID personID readerName actorID) (s, st, gits) =
     (commit_repo (AddReader repoID personID readerName actorID s) s, st, gits)"
| "repo_exec parse et hash env (DoRemoveReader repoID personID readerName actorID) (s, st, gits) =
     (commit_repo (RemoveReader repoID personID readerName actorID s) s, st, gits)"
| "repo_exec parse et hash env (DoSetDefaultPush repoID policy people actorID) (s, st, gits) =
     (commit_repo (SetDefaultPush repoID policy people actorID s) s, st, gits)"
| "repo_exec parse et hash env (DoSaveRule repoID r actorID) (s, st, gits) =
     (commit_repo (SaveRule repoID r actorID s) s, st, gits)"
| "repo_exec parse et hash env (DoDeleteRule repoID kind pattern actorID) (s, st, gits) =
     (commit_repo (DeleteRule repoID kind pattern actorID s) s, st, gits)"
| "repo_exec parse et hash env (DoPushes op) (s, st, gits) =
     (case push_exec parse et hash env op (rs_db s, gits) of (db, gits') \<Rightarrow> (set_db db s, st, gits'))"

text \<open>
  A fresh identifier names no repository, no directory and no operation so far, and has the form
  \<open>id.New\<close> gives it. Every operation that is begun and completed elsewhere is one of a push.
\<close>

fun repo_allowed :: "'g repo_op \<Rightarrow> 'g repo_sys \<Rightarrow> bool" where
  "repo_allowed (DoCreateRepo now a begun newID newOp name description branch actorID) (s, st, gits) =
     (repoIDPattern newID \<and> st newID = None \<and> \<not> repo_exists newID (rs_db s) \<and>
      newID \<notin> op_RepoID ` set (pd_ops (rs_db s)) \<and> optional_person actorID (rs_db s))"
| "repo_allowed (DoRecoverRepo now a timed_out opID text) (s, st, gits) =
     (text \<noteq> [] \<and> (\<forall>op\<in>set (pd_ops (rs_db s)). op_ID op = opID \<longrightarrow> op_Kind op \<noteq> ''push''))"
| "repo_allowed (DoPushes op) x = (case op of DoBeginOther _ _ _ _ _ _ _ \<Rightarrow> False | DoCompleteOther _ _ \<Rightarrow> False | _ \<Rightarrow> True)"
| "repo_allowed _ x = True"

section \<open>The invariant\<close>

definition pending_kind :: "string \<Rightarrow> string \<Rightarrow> Operation list \<Rightarrow> bool" where
  "pending_kind k repoID ops \<longleftrightarrow> (\<exists>op\<in>set ops. op_RepoID op = repoID \<and> op_Kind op = k \<and> op_pending op)"

definition abandoned :: "string \<Rightarrow> Operation list \<Rightarrow> bool" where
  "abandoned repoID ops \<longleftrightarrow>
     (\<exists>op\<in>set ops. op_RepoID op = repoID \<and> op_Kind op \<noteq> ''push'' \<and> \<not> op_pending op \<and> op_Error op \<noteq> [])"

definition row_ok :: "Operation list \<Rightarrow> store \<Rightarrow> Repo \<Rightarrow> bool" where
  "row_ok ops st r \<longleftrightarrow>
     repoIDPattern (rp_ID r) \<and> rp_Name r = to_lower (rp_Name r) \<and> ValidateDefaultBranch (rp_DefaultBranch r) = ok () \<and>
     (st (rp_ID r) = None \<longrightarrow> pending_kind ''delete'' (rp_ID r) ops \<or> abandoned (rp_ID r) ops) \<and>
     (\<forall>h. st (rp_ID r) = Some h \<longrightarrow> h = rp_DefaultBranch r \<or> pending_kind ''head'' (rp_ID r) ops \<or> abandoned (rp_ID r) ops)"

definition directory_ok :: "push_db \<Rightarrow> store \<Rightarrow> string \<Rightarrow> bool" where
  "directory_ok db st i \<longleftrightarrow>
     (st i \<noteq> None \<longrightarrow> repo_exists i db \<or> pending_kind ''create'' i (pd_ops db) \<or> abandoned i (pd_ops db))"

definition operation_ok :: "push_db \<Rightarrow> store \<Rightarrow> Operation \<Rightarrow> bool" where
  "operation_ok db st op \<longleftrightarrow>
     (op_pending op \<longrightarrow>
       (if op_Kind op = ''create'' then
          (\<exists>d b. op_Payload op = RepositoryPayload (op_Name op) d b \<and> ValidateDefaultBranch b = ok () \<and>
             op_Name op = to_lower (op_Name op) \<and> optional_person (op_ActorID op) db \<and> repoIDPattern (op_RepoID op) \<and>
             \<not> repo_exists (op_RepoID op) db \<and> op_Name op \<notin> rp_Name ` set (pd_repos db) \<and>
             (st (op_RepoID op) = None \<or> st (op_RepoID op) = Some b))
        else if op_Kind op = ''delete'' then repo_exists (op_RepoID op) db
        else if op_Kind op = ''head'' then
          repo_exists (op_RepoID op) db \<and> (\<exists>n d b. op_Payload op = RepositoryPayload n d b \<and> ValidateDefaultBranch b = ok ())
        else op_Kind op = ''push''))"

definition create_names :: "Operation list \<Rightarrow> string list" where
  "create_names ops = map op_Name (filter (\<lambda>op. op_Kind op = ''create'' \<and> op_pending op) ops)"

definition rule_key :: "string \<times> Rule \<Rightarrow> string \<times> Kind \<times> string" where
  "rule_key x = (fst x, rl_Kind (snd x), rl_Pattern (snd x))"

definition access_ok :: "push_db \<Rightarrow> bool" where
  "access_ok db \<longleftrightarrow>
     distinct (pd_readers db) \<and> (\<forall>x\<in>set (pd_readers db). repo_exists (fst x) db \<and> person_exists (snd x) db) \<and>
     distinct (map rule_key (pd_rules db)) \<and>
     (\<forall>x\<in>set (pd_rules db). repo_exists (fst x) db \<and> ValidateRule (snd x) = ok ())"

definition repo_inv :: "'g repo_sys \<Rightarrow> bool" where
  "repo_inv x \<longleftrightarrow>
     (case x of (s, st, gits) \<Rightarrow>
        let db = rs_db s in
        ops_inv db \<and> distinct (create_names (pd_ops db)) \<and>
        distinct (map rp_ID (pd_repos db)) \<and> distinct (map rp_Name (pd_repos db)) \<and>
        (\<forall>r\<in>set (pd_repos db). row_ok (pd_ops db) st r) \<and> (\<forall>i. directory_ok db st i) \<and>
        (\<forall>op\<in>set (pd_ops db). operation_ok db st op) \<and> access_ok db)"

definition store_inv :: "push_db \<Rightarrow> store \<Rightarrow> bool" where
  "store_inv db st \<longleftrightarrow>
        ops_inv db \<and> distinct (create_names (pd_ops db)) \<and>
        distinct (map rp_ID (pd_repos db)) \<and> distinct (map rp_Name (pd_repos db)) \<and>
        (\<forall>r\<in>set (pd_repos db). row_ok (pd_ops db) st r) \<and> (\<forall>i. directory_ok db st i) \<and>
        (\<forall>op\<in>set (pd_ops db). operation_ok db st op)"

lemma repo_inv_parts: "repo_inv (s, st, gits) \<longleftrightarrow> store_inv (rs_db s) st \<and> access_ok (rs_db s)"
  by (auto simp: repo_inv_def store_inv_def Let_def)

section \<open>Changes of the journal\<close>

definition op_step :: "Operation \<Rightarrow> Operation \<Rightarrow> bool" where
  "op_step x y \<longleftrightarrow> closes x y \<and> op_Name y = op_Name x \<and> op_Payload y = op_Payload x \<and> op_ActorID y = op_ActorID x \<and>
     (op_Kind x \<noteq> ''push'' \<longrightarrow> (if op_pending x then op_pending y \<or> op_Error y \<noteq> [] else y = x))"

definition journal_step :: "Operation list \<Rightarrow> Operation list \<Rightarrow> bool" where
  "journal_step ops ops' \<longleftrightarrow> (\<exists>P f new. ops' = update_where P f ops @ new \<and> (\<forall>x\<in>set ops. P x \<longrightarrow> op_step x (f x)) \<and>
     (\<forall>x\<in>set new. op_Kind x = ''push''))"

lemma op_step_refl: "op_step x x"
  by (simp add: op_step_def closes_def)

lemma journal_stepE:
  assumes "journal_step ops ops'"
  obtains f new where "ops' = map f ops @ new" "\<forall>x\<in>set ops. op_step x (f x)" "\<forall>x\<in>set new. op_Kind x = ''push''"
proof -
  from assms obtain P g new where *: "ops' = update_where P g ops @ new" "\<forall>x\<in>set ops. P x \<longrightarrow> op_step x (g x)"
    "\<forall>x\<in>set new. op_Kind x = ''push''" by (auto simp: journal_step_def)
  show ?thesis
    by (rule that [of "\<lambda>x. if P x then g x else x" new]) (use * op_step_refl in \<open>auto simp: update_where_def\<close>)
qed

lemma journal_step_pending:
  assumes "journal_step ops ops'" and "k \<noteq> ''push''"
  shows "pending_kind k i ops \<Longrightarrow> pending_kind k i ops' \<or> abandoned i ops'"
    and "abandoned i ops \<Longrightarrow> abandoned i ops'"
proof -
  obtain f new where f: "ops' = map f ops @ new" "\<forall>x\<in>set ops. op_step x (f x)" using journal_stepE [OF assms(1)] by metis
  show "pending_kind k i ops' \<or> abandoned i ops'" if p: "pending_kind k i ops"
  proof -
    obtain op where op: "op \<in> set ops" "op_RepoID op = i" "op_Kind op = k" "op_pending op"
      using p by (auto simp: pending_kind_def)
    then have "op_step op (f op)" "f op \<in> set ops'" using f by auto
    then show ?thesis using op assms(2)
      by (cases "op_pending (f op)") (auto simp: op_step_def closes_def pending_kind_def abandoned_def)
  qed
  show "abandoned i ops'" if ab: "abandoned i ops"
  proof -
    obtain op where op: "op \<in> set ops" "op_RepoID op = i" "op_Kind op \<noteq> ''push''" "\<not> op_pending op" "op_Error op \<noteq> []"
      using ab unfolding abandoned_def by blast
    then have "f op = op" using f(2) by (simp add: op_step_def)
    then have "op \<in> set ops'" using op(1) f(1) by (metis UnI1 image_eqI list.set_map set_append)
    then show ?thesis using op unfolding abandoned_def by blast
  qed
qed

lemma journal_step_op:
  assumes "journal_step ops ops'" and "y \<in> set ops'" and "op_pending y" and "op_Kind y \<noteq> ''push''"
  shows "\<exists>x\<in>set ops. op_pending x \<and> op_ID x = op_ID y \<and> op_RepoID x = op_RepoID y \<and> op_Kind x = op_Kind y \<and>
    op_Name x = op_Name y \<and> op_Payload x = op_Payload y \<and> op_ActorID x = op_ActorID y"
proof -
  obtain f new where f: "ops' = map f ops @ new" "\<forall>x\<in>set ops. op_step x (f x)" "\<forall>x\<in>set new. op_Kind x = ''push''"
    using journal_stepE [OF assms(1)] by metis
  then obtain x where "x \<in> set ops" "y = f x" using assms(2,4) by auto
  then show ?thesis using f(2) assms(3) by (auto simp: op_step_def closes_def intro!: bexI [of _ x])
qed

lemma journal_step_names:
  assumes "journal_step ops ops'" and "distinct (create_names ops)"
  shows "distinct (create_names ops')"
proof -
  obtain f new where f: "ops' = map f ops @ new" "\<forall>x\<in>set ops. op_step x (f x)" "\<forall>x\<in>set new. op_Kind x = ''push''"
    using journal_stepE [OF assms(1)] by metis
  have new: "filter (\<lambda>op. op_Kind op = ''create'' \<and> op_pending op) new = []"
    using f(3) by (auto simp: filter_empty_conv)
  have "distinct (create_names (map f xs)) \<and> set (create_names (map f xs)) \<subseteq> set (create_names xs)"
    if "\<forall>x\<in>set xs. op_step x (f x)" "distinct (create_names xs)" for xs
    using that
  proof (induction xs)
    case (Cons x xs)
    let ?c = "\<lambda>op. op_Kind op = ''create'' \<and> op_pending op"
    have cons: "create_names (op # ops) = (if ?c op then op_Name op # create_names ops else create_names ops)" for op ops
      by (simp add: create_names_def)
    have "?c (f x) \<Longrightarrow> ?c x" "op_Name (f x) = op_Name x" using Cons.prems(1) by (simp_all add: op_step_def closes_def)
    moreover have "distinct (create_names xs)" using Cons.prems(2) by (simp add: cons split: if_splits)
    then have "distinct (create_names (map f xs)) \<and> set (create_names (map f xs)) \<subseteq> set (create_names xs)"
      using Cons.IH Cons.prems(1) by simp
    ultimately show ?case using Cons.prems(2)
      by (cases "?c (f x)"; cases "?c x") (auto simp: cons)
  qed (simp add: create_names_def)
  then have "distinct (create_names (map f ops))" using f(2) assms(2) by blast
  then show ?thesis using new by (simp add: create_names_def f(1))
qed

lemma store_inv_journal:
  assumes inv: "store_inv db st" and step: "journal_step (pd_ops db) (pd_ops db')" and ops: "ops_inv db'"
    and same: "pd_repos db' = pd_repos db" "pd_people db' = pd_people db"
  shows "store_inv db' st"
proof -
  note keep = journal_step_pending [OF step]
  have "row_ok (pd_ops db') st r" if "row_ok (pd_ops db) st r" for r
    using that keep(1) [of "''delete''"] keep(1) [of "''head''"] keep(2) [of "''head''"] unfolding row_ok_def by auto
  moreover have "directory_ok db' st i" if "directory_ok db st i" for i
    using that keep(1) [of "''create''"] keep(2) [of "''head''"] by (auto simp: directory_ok_def repo_exists_def same)
  moreover have "operation_ok db' st y" if y: "y \<in> set (pd_ops db')" for y
  proof (cases "op_pending y \<and> op_Kind y \<noteq> ''push''")
    case False
    then show ?thesis by (auto simp: operation_ok_def)
  next
    case True
    then obtain x where x: "x \<in> set (pd_ops db)" "op_pending x" "op_RepoID x = op_RepoID y" "op_Kind x = op_Kind y"
      "op_Name x = op_Name y" "op_Payload x = op_Payload y" "op_ActorID x = op_ActorID y"
      using journal_step_op [OF step y] by blast
    then have "operation_ok db st x" using inv by (simp add: store_inv_def)
    with x(2) have "operation_ok db st x" "op_pending x" by blast+
    then show ?thesis
      unfolding operation_ok_def repo_exists_def optional_person_def person_exists_def same x(3-7) by (rule mp [THEN impI])
  qed
  ultimately show ?thesis
    using inv ops journal_step_names [OF step] by (simp add: store_inv_def same)
qed

end
