(* ===== verification/Repo_Pushes.thy ===== *)
theory Repo_Pushes
  imports Repo_System
begin

text \<open>
  What pushes, recoveries of pushes, abandoned operations and the run service do to the tables of the
  repository service: settings stay as they are, operations of pushes come and are closed, and other
  pending operations may only be abandoned.
\<close>

definition settings :: "push_db \<Rightarrow> Repo list \<times> Person list \<times> (string \<times> string) list \<times> (string \<times> Rule) list" where
  "settings db = (pd_repos db, pd_people db, pd_readers db, pd_rules db)"

definition journal_change :: "push_db \<Rightarrow> push_db \<Rightarrow> bool" where
  "journal_change db db' \<longleftrightarrow> settings db' = settings db \<and> journal_step (pd_ops db) (pd_ops db') \<and> ops_inv db'"

lemma journal_step_refl: "journal_step ops ops"
  unfolding journal_step_def
  by (rule exI [of _ "\<lambda>_. False"], rule exI [of _ id], rule exI [of _ "[]"]) (simp add: update_where_def)

lemma journal_step_update:
  "(\<And>x. x \<in> set ops \<Longrightarrow> P x \<Longrightarrow> op_step x (f x)) \<Longrightarrow> journal_step ops (update_where P f ops)"
  unfolding journal_step_def by (rule exI [of _ P], rule exI [of _ f], rule exI [of _ "[]"]) simp

lemma journal_step_append: "op_Kind op = ''push'' \<Longrightarrow> journal_step ops (ops @ [op])"
  unfolding journal_step_def
  by (rule exI [of _ "\<lambda>_. False"], rule exI [of _ id], rule exI [of _ "[op]"]) (simp add: update_where_def)

lemma op_step_trans: "op_step x y \<Longrightarrow> op_step y z \<Longrightarrow> op_step x z"
  by (cases "op_pending x"; cases "op_pending y") (auto simp: op_step_def closes_def)

lemma op_step_kind: "op_step x y \<Longrightarrow> op_Kind y = op_Kind x"
  by (simp add: op_step_def closes_def)

lemma journal_step_trans:
  assumes "journal_step a b" and "journal_step b c"
  shows "journal_step a c"
proof -
  obtain f n where f: "b = map f a @ n" "\<forall>x\<in>set a. op_step x (f x)" "\<forall>x\<in>set n. op_Kind x = ''push''"
    using journal_stepE [OF assms(1)] by metis
  obtain g m where g: "c = map g b @ m" "\<forall>x\<in>set b. op_step x (g x)" "\<forall>x\<in>set m. op_Kind x = ''push''"
    using journal_stepE [OF assms(2)] by metis
  have "c = update_where (\<lambda>_. True) (g \<circ> f) a @ (map g n @ m)" by (simp add: f g(1) update_where_def)
  moreover have "op_step x ((g \<circ> f) x)" if "x \<in> set a" for x
  proof -
    have "op_step x (f x)" "op_step (f x) (g (f x))" using that f(1,2) g(2) by simp_all
    then show ?thesis using op_step_trans by simp
  qed
  moreover have "\<forall>x\<in>set (map g n @ m). op_Kind x = ''push''" using f(1,3) g(2,3) op_step_kind by fastforce
  ultimately show ?thesis unfolding journal_step_def by blast
qed

lemma journal_change_refl: "ops_inv db \<Longrightarrow> journal_change db db"
  by (simp add: journal_change_def journal_step_refl)

lemma journal_change_trans: "journal_change a b \<Longrightarrow> journal_change b c \<Longrightarrow> journal_change a c"
  by (auto simp: journal_change_def intro: journal_step_trans)

text \<open>A call that leaves the journal alone, and one that closes or notes operations.\<close>

lemma same_journal: "ops_inv db \<Longrightarrow> settings db' = settings db \<Longrightarrow> pd_ops db' = pd_ops db \<Longrightarrow> journal_change db db'"
  by (simp add: journal_change_def journal_step_refl ops_inv_def)

lemma closing_change:
  assumes "ops_inv db" and "settings db' = settings db" and ops: "pd_ops db' = update_where P f (pd_ops db)"
    and f: "\<And>x. x \<in> set (pd_ops db) \<Longrightarrow> P x \<Longrightarrow> op_step x (f x)"
  shows "journal_change db db'"
  using assms closing_ops_inv [OF assms(1) ops] journal_step_update [of "pd_ops db" P f]
  by (simp add: journal_change_def op_step_def)

lemma store_inv_change:
  "store_inv db st \<Longrightarrow> journal_change db db' \<Longrightarrow> store_inv db' st"
  by (rule store_inv_journal) (auto simp: journal_change_def settings_def)

lemma access_ok_settings: "settings db' = settings db \<Longrightarrow> access_ok db' = access_ok db"
  by (simp add: access_ok_def settings_def repo_exists_def person_exists_def)

lemma set_ops_settings [simp]: "settings (set_ops ops db) = settings db"
  by (simp add: settings_def set_ops_def)

lemma CompleteOperationTx_ops:
  "pd_ops (CompleteOperationTx now opID db) =
     update_where (\<lambda>op. op_ID op = opID) (\<lambda>op. op\<lparr>op_Completed := Some now, op_Error := []\<rparr>) (pd_ops db)"
  "settings (CompleteOperationTx now opID db) = settings db"
  by (simp_all add: CompleteOperationTx_def)

lemma insert_updates_settings: "settings (fold (insertPushUpdate i) recs db) = settings db"
  by (induction recs arbitrary: db) (simp_all add: insertPushUpdate_def Let_def settings_def)

lemma recordPush_settings:
  assumes "recordPush parse et now ids env g r person remote recs opID db = Inr (c, db')"
  shows "settings db' = settings db"
proof -
  have ci: "settings (x\<lparr>pd_ci := ci\<rparr>) = settings x" for x ci by (simp add: settings_def)
  have sync: "settings y = settings x" if "SyncRefsTx env g i x = Inr (refs, y)" for i x y refs
    using that by (auto simp: SyncRefsTx_def bind_result_Inr ci)
  have push: "settings y = settings x" if "insertPush i j k l x = Inr y" for i j k l x y
    using that by (auto simp: insertPush_def settings_def split: if_splits)
  show ?thesis
  proof (cases "find (\<lambda>op. op_ID op = opID) (pd_ops db)")
    case None
    then show ?thesis using assms by (simp add: recordPush_def)
  next
    case (Some op)
    show ?thesis
    proof (cases "op_pending op")
      case False
      then show ?thesis using assms Some by (simp add: recordPush_def)
    next
      case True
      then obtain refs db1 db2 ci where "SyncRefsTx env g (rp_ID r) db = Inr (refs, db1)"
        "insertPush opID (rp_ID r) (pe_ID person) remote db1 = Inr db2"
        "db' = CompleteOperationTx now opID ((fold (insertPushUpdate opID) recs db2)\<lparr>pd_ci := ci\<rparr>)"
        using assms Some by (auto simp: recordPush_def Let_def bind_result_Inr)
      then show ?thesis using sync push by (simp add: CompleteOperationTx_ops ci insert_updates_settings)
    qed
  qed
qed

lemma recoverPush_outcomes:
  assumes "recoverPush parse et now ids env a db_ok op db g = (res, db', g')"
  shows "db' = db \<or> (\<exists>t. db' = RejectOperation now (op_ID op) t db) \<or>
    (\<exists>r person remote recs h c. recordPush parse et now ids env h r person remote recs (op_ID op) db = Inr (c, db'))"
proof (cases "\<exists>intent r. op_Payload op = PushPayload intent \<and> in_Repository intent = Some r \<and> rp_ID r = op_RepoID op")
  case False
  then have "db' = db" using assms by (auto simp: recoverPush_def split: payload.splits option.splits if_splits)
  then show ?thesis by simp
next
  case True
  then obtain intent r where i: "op_Payload op = PushPayload intent" "in_Repository intent = Some r" "rp_ID r = op_RepoID op"
    by blast
  obtain ares h where ap: "apply_in_git env a op intent g = (ares, h)" by fastforce
  show ?thesis
  proof (cases "ares = Inr None \<and> find (\<lambda>p. pe_ID p = in_PersonID intent) (pd_people db) \<noteq> None")
    case False
    then show ?thesis using assms i ap
      by (auto simp: recoverPush_def finish_tx_def split: sum.splits option.splits if_splits)
  next
    case True
    then obtain person where p: "find (\<lambda>p. pe_ID p = in_PersonID intent) (pd_people db) = Some person" by blast
    define tx where "tx = recordPush parse et now ids env h r person (in_RemoteAddr intent) (in_Records intent) (op_ID op) db"
    have "finish_tx db_ok db (bind_result tx (\<lambda>(_, db). ok (True, db))) = (res, db')"
      using assms i ap True p by (auto simp: recoverPush_def tx_def split: prod.splits)
    then have "db' = db \<or> (\<exists>c. tx = Inr (c, db'))"
      by (cases tx) (auto simp: finish_tx_def split: if_splits)
    then show ?thesis unfolding tx_def by blast
  qed
qed

lemma recoverPush_change:
  assumes inv: "ops_inv db" and op: "op \<in> set (pd_ops db)" "op_Kind op = ''push''" and pending: "op_pending op"
    and rec: "recoverPush parse et now ids env a db_ok op db g = (res, db', g')"
  shows "journal_change db db'"
proof -
  have kind: "op_Kind x = ''push''" if "x \<in> set (pd_ops db)" "op_ID x = op_ID op" for x
    using op_row_unique [OF inv that(1) op(1) that(2)] op(2) by simp
  have step: "op_step x (x\<lparr>op_Completed := Some now, op_Error := t\<rparr>)" if "x \<in> set (pd_ops db)" "op_ID x = op_ID op" for x t
    using kind [OF that] by (simp add: op_step_def closes_def op_pending_def)
  from recoverPush_outcomes [OF rec] show ?thesis
  proof (elim disjE exE)
    assume "db' = db"
    then show ?thesis using journal_change_refl [OF inv] by simp
  next
    fix t assume "db' = RejectOperation now (op_ID op) t db"
    then show ?thesis
      by (intro closing_change [OF inv, where P = "\<lambda>x. op_ID x = op_ID op \<and> op_pending x"
            and f = "\<lambda>x. x\<lparr>op_Completed := Some now, op_Error := t\<rparr>"]) (simp_all add: RejectOperation_def step)
  next
    fix r person remote recs h c
    assume tx: "recordPush parse et now ids env h r person remote recs (op_ID op) db = Inr (c, db')"
    have "find (\<lambda>x. op_ID x = op_ID op) (pd_ops db) = Some op" by (rule find_op [OF inv op(1)])
    from recordPush_Inr [OF tx this pending]
    have "pd_ops db' = update_where (\<lambda>x. op_ID x = op_ID op) (\<lambda>x. x\<lparr>op_Completed := Some now, op_Error := []\<rparr>) (pd_ops db)"
      by metis
    then show ?thesis by (rule closing_change [OF inv recordPush_settings [OF tx]]) (rule step)
  qed
qed

lemma begin_push_change:
  assumes "ops_inv db" and "BeginOperation now newID repoID ''push'' name actorID p db = Inr (op, db')"
  shows "journal_change db db'"
  using BeginOperation_Inr(6,11) [OF assms(2)] begin_ops_inv [OF assms]
  by (auto simp: journal_change_def journal_step_append)

lemma ApplyPush_change:
  assumes inv: "ops_inv db"
    and ap: "ApplyPush parse et now ids objects log env a refusal_ok db_ok newID repoID personID remote updates db g = (res, db', g')"
  shows "journal_change db db'"
proof -
  have keep: "journal_change db d" if "d = db \<or> (\<exists>refs. d = insertRefusal repoID personID remote refs db)" for d
    using that by (intro same_journal [OF inv]) (auto simp: insertRefusal_def settings_def)
  have hook: "d = db \<or> (\<exists>refs. d = insertRefusal repoID personID remote refs db)"
    if "validate_hook objects env refusal_ok repoID personID remote updates db g = (vres, d)" for vres d
    using that by (auto simp: validate_hook_def split: sum.splits push_error.splits if_splits)
  obtain vres vdb where v: "validate_hook objects env refusal_ok repoID personID remote updates db g = (vres, vdb)" by fastforce
  define started where "started = bind_result (map_error PushError (CheckRefChanges (ge_RefOID env g)
      (map (\<lambda>u. (up_Ref u, up_Old u, up_New u)) updates))) (\<lambda>_.
                 bind_result (load repoID personID db) (\<lambda>pc.
                 bind_result (map_error PushError (prepareRecords objects log pc updates)) (\<lambda>records.
                 BeginOperation now newID (rp_ID (pc_repo pc)) ''push'' [] (pe_ID (pc_person pc))
                   (PushPayload \<lparr>in_Repository = Some (pc_repo pc), in_PersonID = pe_ID (pc_person pc),
                      in_RemoteAddr = remote, in_Records = records\<rparr>) db)))"
  have run: "ApplyPush parse et now ids objects log env a refusal_ok db_ok newID repoID personID remote updates db g =
     (if updates = [] then (ok (), db, g) else case WithMutation repoID db of Inl e \<Rightarrow> (Inl e, db, g)
      | Inr _ \<Rightarrow> (case vres of Inl e \<Rightarrow> (Inl e, vdb, g) | Inr _ \<Rightarrow> (case started of Inl e \<Rightarrow> (Inl e, db, g)
      | Inr (op, db1) \<Rightarrow> (case recoverPush parse et now ids env a db_ok op db1 g of
           (Inl e, db2, g') \<Rightarrow> (Inl e, db2, g')
         | (Inr applied, db2, g') \<Rightarrow> (if applied then ok () else Inl (PushError (RefMoved [])), db2, g')))))"
    unfolding ApplyPush_def v prod.case started_def ..
  show ?thesis
  proof (cases "updates = [] \<or> (\<exists>e. WithMutation repoID db = Inl e) \<or> (\<exists>e. vres = Inl e) \<or> (\<exists>e. started = Inl e)")
    case True
    then have "db' = db \<or> db' = vdb" using ap unfolding run by (auto split: if_splits sum.splits prod.splits)
    then show ?thesis using hook [OF v] by (intro keep) auto
  next
    case False
    then obtain u w op db1 where go: "updates \<noteq> []" "WithMutation repoID db = Inr u" "vres = Inr w" "started = Inr (op, db1)"
      by (cases "WithMutation repoID db"; cases vres; cases started) auto
    from go(4) obtain i n p where b: "BeginOperation now newID i ''push'' [] n p db = Inr (op, db1)"
      by (auto simp: started_def bind_result_Inr)
    obtain rres db2 g2 where rec: "recoverPush parse et now ids env a db_ok op db1 g = (rres, db2, g2)"
      by (cases "recoverPush parse et now ids env a db_ok op db1 g")
    have "db' = db2" using ap rec go unfolding run by (cases rres) simp_all
    moreover have "op \<in> set (pd_ops db1)" using BeginOperation_Inr(11) [OF b] by simp
    ultimately show ?thesis
      using journal_change_trans [OF begin_push_change [OF inv b] recoverPush_change [OF begin_ops_inv [OF inv b] _ _ _ rec]]
        BeginOperation_Inr(6,7) [OF b] by simp
  qed
qed

lemma AbandonOperation_settings:
  assumes "AbandonOperation now env opened locked opID actorID reason gits db = Inr (r, db')"
  shows "settings db' = settings db"
proof (cases "find (\<lambda>op. op_ID op = opID \<and> op_pending op) (pd_ops db)")
  case None
  then show ?thesis using assms by (simp add: AbandonOperation_def Let_def split: if_splits)
next
  case (Some op)
  define applied where "applied = (if opened then OperationApplied_in env (gits (op_RepoID op)) opID (op_Payload op) else ok False)"
  have conds: "(trim_space reason = []) = False" "(1000 < length (trim_space reason)) = False" "locked = False"
    "(op_Error op = []) = False"
    using assms Some by (cases "trim_space reason = []"; cases "1000 < length (trim_space reason)"; cases locked;
        cases "op_Error op = []"; simp add: AbandonOperation_def Let_def)+
  have ex: "settings (x\<lparr>pd_audit := y\<rparr>) = settings x" for x y by (simp add: settings_def)
  show ?thesis
    using assms unfolding AbandonOperation_def Let_def Some option.case conds if_False applied_def [symmetric]
    by (cases applied) (auto simp: ex split: if_splits)
qed

lemma abandon_change:
  assumes inv: "ops_inv db" and c: "AbandonOperation now env opened locked opID actorID reason gits db = Inr (r, db')"
  shows "journal_change db db'"
proof -
  obtain op t where op: "find (\<lambda>op. op_ID op = opID \<and> op_pending op) (pd_ops db) = Some op" and t: "t \<noteq> []"
    and ops: "pd_ops db' = update_where (\<lambda>o'. op_ID o' = opID) (\<lambda>o'. o'\<lparr>op_Completed := Some now, op_Error := t\<rparr>) (pd_ops db)"
    by (rule AbandonOperation_Inr [OF c])
  have op': "op \<in> set (pd_ops db)" "op_ID op = opID" "op_pending op" using find_SomeD [OF op] by auto
  show ?thesis
  proof (rule closing_change [OF inv AbandonOperation_settings [OF c] ops])
    fix x assume x: "x \<in> set (pd_ops db)" "op_ID x = opID"
    then have "x = op" using op_row_unique [OF inv x(1) op'(1)] op'(2) by simp
    then have "op_pending x" using op'(3) by simp
    then show "op_step x (x\<lparr>op_Completed := Some now, op_Error := t\<rparr>)"
      using t by (simp add: op_step_def closes_def op_pending_def)
  qed
qed

lemma note_failure_change:
  assumes "ops_inv db"
  shows "journal_change db (note_failure opID t db)"
proof (rule closing_change [OF assms, where P = "\<lambda>op. op_ID op = opID \<and> op_pending op" and f = "\<lambda>op. op\<lparr>op_Error := t\<rparr>"])
  fix x assume "op_ID x = opID \<and> op_pending x"
  then show "op_step x (x\<lparr>op_Error := t\<rparr>)" by (simp add: op_step_def closes_def op_pending_def)
qed (simp_all add: note_failure_def)

lemma push_exec_change:
  assumes inv: "ops_inv db" and allowed: "repo_allowed (DoPushes op) x"
    and run: "push_exec parse et hash env op (db, gits) = (db', gits')"
  shows "journal_change db db'"
proof (cases op)
  case (DoPush now ids objects log a refusal_ok db_ok newID repoID personID remote updates)
  obtain res d g where ap: "ApplyPush parse et now ids objects log env a refusal_ok db_ok newID repoID personID remote updates db (gits repoID) = (res, d, g)"
    by (cases "ApplyPush parse et now ids objects log env a refusal_ok db_ok newID repoID personID remote updates db (gits repoID)")
  then show ?thesis using ApplyPush_change [OF inv ap] run by (simp add: DoPush)
next
  case (DoRecover now ids a db_ok opID)
  show ?thesis
  proof (cases "find (\<lambda>op. op_ID op = opID \<and> op_pending op \<and> op_Kind op = ''push'') (pd_ops db)")
    case None
    then show ?thesis using run journal_change_refl [OF inv] by (simp add: DoRecover recover_one_def)
  next
    case (Some y)
    then have y: "y \<in> set (pd_ops db)" "op_pending y" "op_Kind y = ''push''" using find_SomeD [OF Some] by auto
    obtain res d g where rec: "recoverPush parse et now ids env a db_ok y db (gits (op_RepoID y)) = (res, d, g)"
      by (cases "recoverPush parse et now ids env a db_ok y db (gits (op_RepoID y))")
    then show ?thesis using recoverPush_change [OF inv y(1,3,2) rec] run Some by (simp add: DoRecover recover_one_def)
  qed
next
  case (DoNoteFailure opID t)
  then show ?thesis using note_failure_change [OF inv] run by auto
next
  case (DoAbandon now opened locked opID actorID reason)
  then show ?thesis using abandon_change [OF inv] journal_change_refl [OF inv] run by (auto split: sum.splits)
next
  case (DoRunService cop)
  then show ?thesis using run by (intro same_journal [OF inv]) (auto simp: settings_def)
qed (use allowed in simp_all)

end
