(* ===== verification/Repo_Preserve.thy ===== *)
theory Repo_Preserve
  imports Repo_Pushes
begin

text \<open>Every operation of the repository service keeps the invariant of \<^theory_text>\<open>Repo_System\<close>.\<close>

lemma rs_db_simps [simp]: "rs_db (set_db db s) = db" "rs_db (record_event i a b c s) = rs_db s"
  by (simp_all add: set_db_def record_event_def)

lemma rs_db_complete [simp]: "rs_db (complete now opID s) = CompleteOperationTx now opID (rs_db s)"
  by (simp add: complete_def)

section \<open>Settings\<close>

definition rows_kept :: "push_db \<Rightarrow> push_db \<Rightarrow> bool" where
  "rows_kept db db' \<longleftrightarrow> pd_ops db' = pd_ops db \<and> pd_people db' = pd_people db \<and>
     (\<exists>g. pd_repos db' = map g (pd_repos db) \<and>
        (\<forall>r. rp_ID (g r) = rp_ID r \<and> rp_Name (g r) = rp_Name r \<and> rp_DefaultBranch (g r) = rp_DefaultBranch r))"

lemma rows_kept_same: "pd_ops db' = pd_ops db \<Longrightarrow> pd_people db' = pd_people db \<Longrightarrow> pd_repos db' = pd_repos db \<Longrightarrow> rows_kept db db'"
  by (auto simp: rows_kept_def intro!: exI [of _ id])

lemma rows_kept_trans: "rows_kept a b \<Longrightarrow> rows_kept b c \<Longrightarrow> rows_kept a c"
proof -
  assume ab: "rows_kept a b" and bc: "rows_kept b c"
  obtain g where g: "pd_repos b = map g (pd_repos a)"
    "\<forall>r. rp_ID (g r) = rp_ID r \<and> rp_Name (g r) = rp_Name r \<and> rp_DefaultBranch (g r) = rp_DefaultBranch r"
    using ab unfolding rows_kept_def by blast
  obtain h where h: "pd_repos c = map h (pd_repos b)"
    "\<forall>r. rp_ID (h r) = rp_ID r \<and> rp_Name (h r) = rp_Name r \<and> rp_DefaultBranch (h r) = rp_DefaultBranch r"
    using bc unfolding rows_kept_def by blast
  show ?thesis unfolding rows_kept_def
    using ab bc g h by (intro conjI exI [of _ "h \<circ> g"]) (simp_all add: rows_kept_def)
qed

lemma rows_kept_exists: "rows_kept db db' \<Longrightarrow> repo_exists i db' = repo_exists i db"
  by (auto simp: rows_kept_def repo_exists_def image_image)

lemma rows_kept_person: "rows_kept db db' \<Longrightarrow> person_exists i db' = person_exists i db"
  by (auto simp: rows_kept_def person_exists_def)

lemma store_inv_rows:
  assumes inv: "store_inv db st" and kept: "rows_kept db db'"
  shows "store_inv db' st"
proof -
  obtain g where g: "pd_ops db' = pd_ops db" "pd_people db' = pd_people db" "pd_repos db' = map g (pd_repos db)"
    "\<And>r. rp_ID (g r) = rp_ID r" "\<And>r. rp_Name (g r) = rp_Name r" "\<And>r. rp_DefaultBranch (g r) = rp_DefaultBranch r"
    using kept unfolding rows_kept_def by blast
  have names: "rp_Name ` set (pd_repos db') = rp_Name ` set (pd_repos db)" by (simp add: g image_image)
  have maps: "map rp_ID (pd_repos db') = map rp_ID (pd_repos db)" "map rp_Name (pd_repos db') = map rp_Name (pd_repos db)"
    by (simp_all add: g)
  have "row_ok (pd_ops db') st (g r) = row_ok (pd_ops db) st r" for r by (simp add: row_ok_def g)
  then have "\<forall>r\<in>set (pd_repos db'). row_ok (pd_ops db') st r" using inv by (simp add: store_inv_def g(3))
  moreover have "directory_ok db' st = directory_ok db st"
    using rows_kept_exists [OF kept] by (simp add: fun_eq_iff directory_ok_def g(1))
  moreover have "operation_ok db' st = operation_ok db st"
    unfolding operation_ok_def rows_kept_exists [OF kept] optional_person_def rows_kept_person [OF kept] names ..
  moreover have "ops_inv db' = ops_inv db" by (simp add: ops_inv_def g(1))
  ultimately show ?thesis using inv unfolding store_inv_def maps g(1) by auto
qed

definition keeps :: "push_db \<Rightarrow> push_db \<Rightarrow> bool" where
  "keeps db db' \<longleftrightarrow> rows_kept db db' \<and> (access_ok db \<longrightarrow> access_ok db')"

lemma keeps_trans: "keeps a b \<Longrightarrow> keeps b c \<Longrightarrow> keeps a c"
  by (auto simp: keeps_def intro: rows_kept_trans)

lemma keeps_refl: "keeps db db"
  by (simp add: keeps_def rows_kept_same)

lemma keeps_inv: "store_inv db st \<and> access_ok db \<Longrightarrow> keeps db db' \<Longrightarrow> store_inv db' st \<and> access_ok db'"
  using store_inv_rows by (auto simp: keeps_def)

lemma update_repo_keeps:
  assumes "update_repo repoID f db = Inr db'"
    and "\<And>r. rp_ID (f r) = rp_ID r" "\<And>r. rp_Name (f r) = rp_Name r" "\<And>r. rp_DefaultBranch (f r) = rp_DefaultBranch r"
  shows "keeps db db'"
proof -
  have db': "db' = db\<lparr>pd_repos := update_where (\<lambda>r. rp_ID r = repoID) f (pd_repos db)\<rparr>"
    using assms(1) by (simp add: update_repo_def split: if_splits)
  have rows: "rows_kept db db'"
    unfolding rows_kept_def db'
    by (intro conjI exI [of _ "\<lambda>r. if rp_ID r = repoID then f r else r"]) (simp_all add: update_where_def assms(2-4))
  then show ?thesis
    using rows_kept_exists [OF rows] rows_kept_person [OF rows] by (simp add: keeps_def access_ok_def) (simp add: db')
qed

lemma readers_keeps:
  assumes "access_ok db \<Longrightarrow> distinct readers \<and> (\<forall>x\<in>set readers. repo_exists (fst x) db \<and> person_exists (snd x) db)"
  shows "keeps db (db\<lparr>pd_readers := readers\<rparr>)"
proof -
  have rows: "rows_kept db (db\<lparr>pd_readers := readers\<rparr>)" by (rule rows_kept_same) simp_all
  show ?thesis
    unfolding keeps_def
  proof (intro conjI impI rows)
    assume ok: "access_ok db"
    then show "access_ok (db\<lparr>pd_readers := readers\<rparr>)"
      using assms [OF ok] by (simp add: access_ok_def repo_exists_def person_exists_def)
  qed
qed

lemma insertReaderRow_keeps:
  assumes "insertReaderRow repoID personID db = Inr db'"
  shows "keeps db db'"
proof (cases "(repoID, personID) \<in> set (pd_readers db)")
  case True
  then show ?thesis using assms keeps_refl by (simp add: insertReaderRow_def)
next
  case False
  then have "repo_exists repoID db" "person_exists personID db" and
    db': "db' = db\<lparr>pd_readers := pd_readers db @ [(repoID, personID)]\<rparr>"
    using assms by (simp_all add: insertReaderRow_def split: if_splits)
  then show ?thesis using False unfolding db' by (intro readers_keeps) (auto simp: access_ok_def)
qed

lemma insert_readers_keeps: "insert_readers repoID ps db = Inr db' \<Longrightarrow> keeps db db'"
proof (induction ps arbitrary: db)
  case Nil
  then show ?case by (simp add: keeps_refl)
next
  case (Cons p ps)
  then obtain db1 where "insertReaderRow repoID p db = Inr db1" "insert_readers repoID ps db1 = Inr db'"
    by (auto simp: bind_result_Inr)
  then show ?case using insertReaderRow_keeps Cons.IH keeps_trans by blast
qed

lemma filter_readers_keeps: "keeps db (db\<lparr>pd_readers := filter P (pd_readers db)\<rparr>)"
  by (rule readers_keeps) (auto simp: access_ok_def)

lemma updateDefaultPushRow_keeps: "updateDefaultPushRow repoID policy people db = Inr db' \<Longrightarrow> keeps db db'"
  unfolding updateDefaultPushRow_def
  by (auto simp: bind_result_Inr split: if_splits intro: update_repo_keeps)

lemma ValidateRule_sorted: "ValidateRule (r\<lparr>rl_PushPeople := sorted_people (rl_PushPeople r)\<rparr>) = ValidateRule r"
proof -
  have "sorted_people xs = [] \<longleftrightarrow> xs = []" for xs
    by (metis (no_types) remdups_eq_nil_iff set_empty set_remdups set_sort sorted_people_def)
  then have "validatePushPolicy p (sorted_people xs) = validatePushPolicy p xs" for p xs by (cases p) simp_all
  then show ?thesis
    by (cases "ValidatePattern (rl_Pattern r)") (simp_all add: ValidateRule_def map_message_def)
qed

lemma rule_key_same: "same_rule i k p x \<longleftrightarrow> rule_key x = (i, k, p)"
  by (auto simp: same_rule_def rule_key_def)

lemma upsertRule_keeps:
  assumes up: "upsertRule repoID r personID db = Inr db'" and ok: "ValidateRule r = ok ()"
  shows "keeps db db'"
proof -
  define r' where "r' = r\<lparr>rl_PushPeople := sorted_people (rl_PushPeople r)\<rparr>"
  let ?same = "same_rule repoID (rl_Kind r') (rl_Pattern r')"
  have ok': "ValidateRule r' = ok ()" using ok ValidateRule_sorted by (simp add: r'_def)
  have key: "rule_key (repoID, r') = (repoID, rl_Kind r', rl_Pattern r')" by (simp add: rule_key_def)
  have rows: "rows_kept db (db\<lparr>pd_rules := rules\<rparr>)" for rules by (rule rows_kept_same) simp_all
  show ?thesis
  proof (cases "list_ex ?same (pd_rules db)")
    case True
    then have db': "db' = db\<lparr>pd_rules := update_where ?same (\<lambda>_. (repoID, r')) (pd_rules db)\<rparr>"
      using up unfolding upsertRule_def r'_def Let_def by (simp split: if_splits)
    have "map rule_key (update_where ?same (\<lambda>_. (repoID, r')) (pd_rules db)) = map rule_key (pd_rules db)"
      by (rule map_update_where_on) (simp add: rule_key_same key)
    moreover have "repo_exists repoID db" if "access_ok db"
      using True that by (auto simp: list_ex_iff access_ok_def same_rule_def)
    ultimately show ?thesis using rows ok'
      by (auto simp: keeps_def db' access_ok_def repo_exists_def person_exists_def ball_update_where)
  next
    case False
    then have db': "db' = db\<lparr>pd_rules := pd_rules db @ [(repoID, r')]\<rparr>" and ex: "repo_exists repoID db"
      using up unfolding upsertRule_def r'_def Let_def by (auto split: if_splits)
    have "rule_key (repoID, r') \<notin> rule_key ` set (pd_rules db)"
      using False unfolding key list_ex_iff rule_key_same by (metis imageE)
    then show ?thesis using rows ok' ex
      by (auto simp: keeps_def db' access_ok_def repo_exists_def person_exists_def)
  qed
qed

lemma deleteRuleRow_keeps:
  assumes "deleteRuleRow repoID kind pattern db = Inr db'"
  shows "keeps db db'"
proof -
  have db': "db' = db\<lparr>pd_rules := filter (\<lambda>x. \<not> same_rule repoID kind pattern x) (pd_rules db)\<rparr>"
    using assms by (simp add: deleteRuleRow_def split: if_splits)
  have "distinct (map rule_key (filter P rules))" if "distinct (map rule_key rules)" for P and rules :: "(string \<times> Rule) list"
    using that by (rule distinct_map_filter)
  then show ?thesis
    unfolding keeps_def db' by (auto simp: rows_kept_same access_ok_def repo_exists_def person_exists_def)
qed

lemma settings_keep:
  "SetDescription repoID d actorID s = Inr (u, s') \<Longrightarrow> keeps (rs_db s) (rs_db s')"
  "SetVisibility repoID v actorID s = Inr (u, s') \<Longrightarrow> keeps (rs_db s) (rs_db s')"
  "AddReader repoID personID n actorID s = Inr (u, s') \<Longrightarrow> keeps (rs_db s) (rs_db s')"
  "SetDefaultPush repoID policy people actorID s = Inr (u, s') \<Longrightarrow> keeps (rs_db s) (rs_db s')"
  "SaveRule repoID r actorID s = Inr (u, s') \<Longrightarrow> keeps (rs_db s) (rs_db s')"
  "DeleteRule repoID kind pattern actorID s = Inr (u, s') \<Longrightarrow> keeps (rs_db s) (rs_db s')"
  by (auto simp: SetDescription_def SetVisibility_def AddReader_def SetDefaultPush_def SaveRule_def DeleteRule_def
      updateDescriptionRow_def updateVisibilityRow_def Let_def bind_result_Inr map_error_Inr
      intro: update_repo_keeps insertReaderRow_keeps updateDefaultPushRow_keeps upsertRule_keeps deleteRuleRow_keeps)

lemma RemoveReader_keeps: "RemoveReader repoID personID n actorID s = Inr (u, s') \<Longrightarrow> keeps (rs_db s) (rs_db s')"
  by (auto simp: RemoveReader_def deleteReaderRow_def bind_result_Inr filter_readers_keeps split: if_splits)

lemma SetAccess_keeps:
  assumes "SetAccess repoID v policy readers pushers actorID s = Inr (u, s')"
  shows "keeps (rs_db s) (rs_db s')"
proof -
  obtain db1 db2 db3 where steps: "updateVisibilityRow repoID v (rs_db s) = Inr db1"
    "insert_readers repoID readers (db1\<lparr>pd_readers := filter (\<lambda>x. fst x \<noteq> repoID) (pd_readers db1)\<rparr>) = Inr db2"
    "updateDefaultPushRow repoID policy pushers db2 = Inr db3" and s': "rs_db s' = db3"
    using assms by (auto simp: SetAccess_def bind_result_Inr map_error_Inr)
  have "keeps (rs_db s) db1" using steps(1) by (auto simp: updateVisibilityRow_def intro: update_repo_keeps)
  then show ?thesis unfolding s'
    using filter_readers_keeps insert_readers_keeps [OF steps(2)] updateDefaultPushRow_keeps [OF steps(3)] keeps_trans by blast
qed

end
