(* ===== verification/Repo_Operations.thy ===== *)
theory Repo_Operations
  imports Repo_Preserve
begin

text \<open>
  Creating, deleting and re-heading repositories keeps the invariant, wherever a call is cut off:
  after the operation is begun, after the store has changed, and after the final transaction.
\<close>

section \<open>Beginning and completing an operation\<close>

lemma pending_unique:
  assumes inv: "ops_inv db" and x: "x \<in> set (pd_ops db)" "op_pending x" and y: "y \<in> set (pd_ops db)" "op_pending y"
    and same: "op_RepoID x = op_RepoID y"
  shows "x = y"
proof -
  have "inj_on op_RepoID (set (filter op_pending (pd_ops db)))"
    using inv by (simp add: ops_inv_def distinct_map)
  then show ?thesis using x y same by (auto dest: inj_onD)
qed

lemma begin_store_inv:
  assumes inv: "store_inv db st" and b: "BeginOperation now newID repoID kind name actorID p db = Inr (op, db')"
    and ok: "operation_ok db st op"
  shows "store_inv db' st"
proof -
  note op = BeginOperation_Inr [OF b]
  have ops: "pd_ops db' = pd_ops db @ [op]" and same: "pd_repos db' = pd_repos db" "pd_people db' = pd_people db"
    by (simp_all add: op(11))
  have ex: "repo_exists i db' = repo_exists i db" "person_exists i db' = person_exists i db" for i
    by (simp_all add: repo_exists_def person_exists_def same)
  have mono: "pending_kind k i (pd_ops db) \<Longrightarrow> pending_kind k i (pd_ops db')" "abandoned i (pd_ops db) \<Longrightarrow> abandoned i (pd_ops db')" for k i
    by (auto simp: pending_kind_def abandoned_def ops)
  have "row_ok (pd_ops db') st r" if "row_ok (pd_ops db) st r" for r
    using that mono unfolding row_ok_def by blast
  moreover have "directory_ok db' st i" if "directory_ok db st i" for i
    using that mono unfolding directory_ok_def ex by blast
  moreover have "operation_ok db' st = operation_ok db st"
    unfolding operation_ok_def optional_person_def ex same ..
  moreover have "distinct (create_names (pd_ops db'))"
  proof -
    have "distinct (create_names (pd_ops db))" using inv by (simp add: store_inv_def)
    then show ?thesis using op(3,6,9) by (auto simp: create_names_def ops)
  qed
  ultimately show ?thesis
    using inv ok begin_ops_inv [OF _ b] by (auto simp: store_inv_def same ops)
qed

text \<open>
  The transaction that ends an operation: the row of its repository agrees with the store
  afterwards, and other rows are as before.
\<close>

lemma completed_inv:
  assumes inv: "store_inv db st" and op: "op \<in> set (pd_ops db)" "op_pending op"
    and ops: "pd_ops db' = update_where (\<lambda>x. op_ID x = op_ID op) (\<lambda>x. x\<lparr>op_Completed := Some now, op_Error := []\<rparr>) (pd_ops db)"
    and people: "pd_people db' = pd_people db"
    and ids: "distinct (map rp_ID (pd_repos db'))" "distinct (map rp_Name (pd_repos db'))"
    and others: "\<And>r. rp_ID r \<noteq> op_RepoID op \<Longrightarrow> r \<in> set (pd_repos db') \<longleftrightarrow> r \<in> set (pd_repos db)"
    and this_row: "\<And>r. r \<in> set (pd_repos db') \<Longrightarrow> rp_ID r = op_RepoID op \<Longrightarrow>
      repoIDPattern (rp_ID r) \<and> rp_Name r = to_lower (rp_Name r) \<and> ValidateDefaultBranch (rp_DefaultBranch r) = ok () \<and>
      st (rp_ID r) = Some (rp_DefaultBranch r)"
    and dir: "st (op_RepoID op) \<noteq> None \<Longrightarrow> repo_exists (op_RepoID op) db'"
    and names: "rp_Name ` set (pd_repos db') \<subseteq> rp_Name ` set (pd_repos db) \<union> (if op_Kind op = ''create'' then {op_Name op} else {})"
  shows "store_inv db' st"
proof -
  let ?done = "\<lambda>x. x\<lparr>op_Completed := Some now, op_Error := []\<rparr>"
  have parts: "ops_inv db" "distinct (create_names (pd_ops db))" "\<forall>r\<in>set (pd_repos db). row_ok (pd_ops db) st r"
    "\<forall>i. directory_ok db st i" "\<forall>y\<in>set (pd_ops db). operation_ok db st y"
    using inv by (simp_all add: store_inv_def)
  have same_op: "op_ID x = op_ID op \<longleftrightarrow> x = op" if "x \<in> set (pd_ops db)" for x
    using op_row_unique [OF parts(1) that op(1)] by blast
  have "pd_ops db' = map (\<lambda>x. if x = op then ?done op else x) (pd_ops db)"
    unfolding ops update_where_def by (rule map_cong [OF refl]) (simp add: same_op)
  then have set': "set (pd_ops db') = (\<lambda>x. if x = op then ?done op else x) ` set (pd_ops db)" by simp
  have mem: "y \<in> set (pd_ops db') \<longleftrightarrow> y = ?done op \<or> y \<in> set (pd_ops db) \<and> y \<noteq> op" for y
    unfolding set' image_iff using op(1) by (metis (full_types))
  then have members: "set (pd_ops db') = insert (?done op) (set (pd_ops db) - {op})" by blast
  have done_op: "\<not> op_pending (?done op)" "op_Error (?done op) = []" by (simp_all add: op_pending_def)
  have pk: "pending_kind k i (pd_ops db') = pending_kind k i (pd_ops db)" if "i \<noteq> op_RepoID op" for k i
    using that unfolding pending_kind_def members by auto
  have ab: "abandoned i (pd_ops db) \<Longrightarrow> abandoned i (pd_ops db')" for i
    using op(2) unfolding abandoned_def members by auto
  have "row_ok (pd_ops db') st r" if r: "r \<in> set (pd_repos db')" for r
  proof (cases "rp_ID r = op_RepoID op")
    case True
    then show ?thesis using this_row [OF r] by (simp add: row_ok_def)
  next
    case False
    then have "row_ok (pd_ops db) st r" using others [OF False] r parts(3) by blast
    then show ?thesis using ab unfolding row_ok_def pk [OF False] by blast
  qed
  moreover have exists: "repo_exists i db' = repo_exists i db" if "i \<noteq> op_RepoID op" for i
    using others that unfolding repo_exists_def by (metis (no_types, lifting) image_iff)
  have "directory_ok db' st i" for i
  proof (cases "i = op_RepoID op")
    case True
    then show ?thesis using dir by (simp add: directory_ok_def)
  next
    case False
    have "directory_ok db st i" using parts(4) by blast
    then show ?thesis using ab unfolding directory_ok_def pk [OF False] exists [OF False] by blast
  qed
  moreover have "operation_ok db' st y" if y: "y \<in> set (pd_ops db')" for y
  proof (cases "op_pending y")
    case False
    then show ?thesis by (simp add: operation_ok_def)
  next
    case True
    then have y': "y \<in> set (pd_ops db)" "y \<noteq> op" using y done_op by (auto simp: mem)
    then have other: "op_RepoID y \<noteq> op_RepoID op" using pending_unique [OF parts(1) y'(1) True op] by blast
    have "op_Name y \<noteq> op_Name op" if "op_Kind y = ''create''" "op_Kind op = ''create''"
    proof -
      have "inj_on op_Name (set (filter (\<lambda>x. op_Kind x = ''create'' \<and> op_pending x) (pd_ops db)))"
        using parts(2) by (simp add: create_names_def distinct_map)
      then show ?thesis using that y' op True by (auto dest: inj_onD)
    qed
    then have fresh: "op_Kind y = ''create'' \<Longrightarrow> op_Name y \<notin> rp_Name ` set (pd_repos db) \<Longrightarrow> op_Name y \<notin> rp_Name ` set (pd_repos db')"
      using names by (auto split: if_splits)
    have "operation_ok db st y" using parts(5) y'(1) by blast
    then show ?thesis using fresh
      unfolding operation_ok_def exists [OF other] optional_person_def person_exists_def people by metis
  qed
  moreover have "ops_inv db'"
    by (rule closing_ops_inv [OF parts(1) ops]) (simp add: closes_def op_pending_def)
  moreover have "distinct (create_names (pd_ops db'))"
  proof -
    have "create_names (update_where (\<lambda>x. op_ID x = op_ID op) ?done xs) =
        map op_Name (filter (\<lambda>x. op_ID x \<noteq> op_ID op) (filter (\<lambda>x. op_Kind x = ''create'' \<and> op_pending x) xs))" for xs
      by (induction xs) (simp_all add: create_names_def update_where_def op_pending_def)
    then show ?thesis using parts(2) unfolding ops by (simp only:) (rule distinct_map_filter, simp add: create_names_def)
  qed
  ultimately show ?thesis using ids by (simp add: store_inv_def)
qed

section \<open>The store changes while an operation is pending\<close>

lemma store_change_inv:
  assumes inv: "store_inv db st" and op: "op \<in> set (pd_ops db)" "op_pending op"
    and other: "\<And>i. i \<noteq> op_RepoID op \<Longrightarrow> st' i = st i"
    and row: "\<And>r. r \<in> set (pd_repos db) \<Longrightarrow> rp_ID r = op_RepoID op \<Longrightarrow> row_ok (pd_ops db) st' r"
    and dir: "directory_ok db st' (op_RepoID op)" and this_op: "operation_ok db st' op"
  shows "store_inv db st'"
proof -
  have parts: "ops_inv db" "\<forall>r\<in>set (pd_repos db). row_ok (pd_ops db) st r"
    "\<forall>i. directory_ok db st i" "\<forall>y\<in>set (pd_ops db). operation_ok db st y"
    using inv by (simp_all add: store_inv_def)
  have "row_ok (pd_ops db) st' r" if r: "r \<in> set (pd_repos db)" for r
  proof (cases "rp_ID r = op_RepoID op")
    case False
    have "row_ok (pd_ops db) st r" using parts(2) r by blast
    then show ?thesis unfolding row_ok_def other [OF False] .
  qed (rule row [OF r])
  moreover have "directory_ok db st' i" for i
  proof (cases "i = op_RepoID op")
    case False
    have "directory_ok db st i" using parts(3) by blast
    then show ?thesis unfolding directory_ok_def other [OF False] .
  qed (use dir in simp)
  moreover have "operation_ok db st' y" if y: "y \<in> set (pd_ops db)" for y
  proof (cases "op_RepoID y = op_RepoID op \<and> op_pending y")
    case True
    then have "y = op" using pending_unique [OF parts(1) y _ op] by blast
    then show ?thesis using this_op by simp
  next
    case False
    have "operation_ok db st y" using parts(4) y by blast
    then show ?thesis using False other [of "op_RepoID y"] unfolding operation_ok_def by metis
  qed
  ultimately show ?thesis using inv by (simp add: store_inv_def)
qed

section \<open>Applying an operation\<close>

lemma finish_repo_tx_cases:
  assumes "finish_repo_tx a s st res = (out, s', st')"
  shows "st' = st \<and> (s' = s \<or> res = Inr s')"
  using assms by (auto simp: finish_repo_tx_def split: if_splits sum.splits)

lemma pending_op_kind: "op \<in> set ops \<Longrightarrow> op_pending op \<Longrightarrow> pending_kind (op_Kind op) (op_RepoID op) ops"
  by (auto simp: pending_kind_def)

lemma access_ok_cong:
  "pd_readers db' = pd_readers db \<Longrightarrow> pd_rules db' = pd_rules db \<Longrightarrow> pd_people db' = pd_people db \<Longrightarrow>
    (\<And>i. repo_exists i db \<Longrightarrow> repo_exists i db') \<Longrightarrow> access_ok db \<Longrightarrow> access_ok db'"
  by (auto simp: access_ok_def person_exists_def)

lemma create_tx_inv:
  assumes inv: "store_inv (rs_db s) st" "access_ok (rs_db s)" and op: "op \<in> set (pd_ops (rs_db s))" "op_pending op"
    and kind: "op_Kind op = ''create''" and there: "st (op_RepoID op) \<noteq> None" and tx: "create_tx now op s = Inr s'"
  shows "store_inv (rs_db s') st \<and> access_ok (rs_db s')"
proof -
  let ?db = "rs_db s"
  have "operation_ok ?db st op" using inv(1) op(1) by (simp add: store_inv_def)
  then obtain d b where p: "op_Payload op = RepositoryPayload (op_Name op) d b" "ValidateDefaultBranch b = ok ()"
    "op_Name op = to_lower (op_Name op)" "repoIDPattern (op_RepoID op)" "\<not> repo_exists (op_RepoID op) ?db"
    "st (op_RepoID op) = Some b"
    using op(2) kind there by (auto simp: operation_ok_def)
  obtain db1 where ins: "insertRepo now (op_RepoID op) (op_Name op) d b (op_ActorID op) ?db = Inr db1"
    and s': "rs_db s' = CompleteOperationTx now (op_ID op) db1"
    using tx by (auto simp: create_tx_def p(1) intent_of_def bind_result_Inr)
  define row where "row = \<lparr>rp_ID = op_RepoID op, rp_Name = op_Name op, rp_Description = d, rp_DefaultBranch = b,
    rp_Visibility = VisibilityEveryone, rp_DefaultPushPolicy = PushEveryone, rp_DefaultPushPeople = [],
    rp_CreatedBy = nullif_empty (op_ActorID op), rp_CreatedAt = now\<rparr>"
  have fresh: "op_RepoID op \<notin> rp_ID ` set (pd_repos ?db)" "op_Name op \<notin> rp_Name ` set (pd_repos ?db)"
    and repos: "pd_repos db1 = pd_repos ?db @ [row]" and rest: "pd_ops db1 = pd_ops ?db" "pd_people db1 = pd_people ?db"
      "pd_readers db1 = pd_readers ?db" "pd_rules db1 = pd_rules ?db"
    using ins by (auto simp: insertRepo_def row_def repo_exists_def split: if_splits)
  have same: "pd_repos (rs_db s') = pd_repos ?db @ [row]" "pd_people (rs_db s') = pd_people ?db"
    "pd_readers (rs_db s') = pd_readers ?db" "pd_rules (rs_db s') = pd_rules ?db"
    using CompleteOperationTx_ops(2) [of now "op_ID op" db1] by (simp_all add: s' settings_def repos rest)
  have row: "rp_ID row = op_RepoID op" "rp_Name row = op_Name op" "rp_DefaultBranch row = b" by (simp_all add: row_def)
  have "store_inv (rs_db s') st"
  proof (rule completed_inv [OF inv(1) op])
    show "pd_ops (rs_db s') = update_where (\<lambda>x. op_ID x = op_ID op) (\<lambda>x. x\<lparr>op_Completed := Some now, op_Error := []\<rparr>) (pd_ops ?db)"
      by (simp add: s' CompleteOperationTx_ops rest)
    show "distinct (map rp_ID (pd_repos (rs_db s')))" "distinct (map rp_Name (pd_repos (rs_db s')))"
      using inv(1) fresh by (simp_all add: same store_inv_def row)
    show "r \<in> set (pd_repos (rs_db s')) \<longleftrightarrow> r \<in> set (pd_repos ?db)" if "rp_ID r \<noteq> op_RepoID op" for r
      using that row by (auto simp: same)
    show "repoIDPattern (rp_ID r) \<and> rp_Name r = to_lower (rp_Name r) \<and> ValidateDefaultBranch (rp_DefaultBranch r) = ok () \<and>
      st (rp_ID r) = Some (rp_DefaultBranch r)" if "r \<in> set (pd_repos (rs_db s'))" "rp_ID r = op_RepoID op" for r
    proof -
      have "r \<notin> set (pd_repos ?db)" using fresh(1) that(2) by (metis imageI)
      then have "r = row" using that(1) by (simp add: same)
      then show ?thesis using p row by simp
    qed
    show "rp_Name ` set (pd_repos (rs_db s')) \<subseteq> rp_Name ` set (pd_repos ?db) \<union> (if op_Kind op = ''create'' then {op_Name op} else {})"
      using kind row by (auto simp: same)
  qed (simp_all add: same repo_exists_def row)
  moreover have "access_ok (rs_db s')"
    using same by (intro access_ok_cong [OF _ _ _ _ inv(2)]) (auto simp: repo_exists_def)
  ultimately show ?thesis ..
qed

lemma deleteRepoRow_Inr:
  assumes "deleteRepoRow repoID s = Inr (n, s')"
  shows "pd_repos (rs_db s') = filter (\<lambda>r. rp_ID r \<noteq> repoID) (pd_repos (rs_db s))" "pd_ops (rs_db s') = pd_ops (rs_db s)"
    "pd_people (rs_db s') = pd_people (rs_db s)" "pd_readers (rs_db s') = filter (\<lambda>x. fst x \<noteq> repoID) (pd_readers (rs_db s))"
    "pd_rules (rs_db s') = filter (\<lambda>x. fst x \<noteq> repoID) (pd_rules (rs_db s))"
  using assms by (auto simp: deleteRepoRow_def Let_def bind_result_Inr split: if_splits)

lemma delete_tx_inv:
  assumes inv: "store_inv (rs_db s) st" "access_ok (rs_db s)" and op: "op \<in> set (pd_ops (rs_db s))" "op_pending op"
    and kind: "op_Kind op = ''delete''" and gone: "st (op_RepoID op) = None" and tx: "delete_tx now op s = Inr s'"
  shows "store_inv (rs_db s') st \<and> access_ok (rs_db s')"
proof -
  let ?db = "rs_db s"
  have "operation_ok ?db st op" using inv(1) op(1) by (simp add: store_inv_def)
  then have "repo_exists (op_RepoID op) ?db" using op(2) kind by (simp add: operation_ok_def)
  then have "selectRepoByID ?db (op_RepoID op) \<noteq> Inl RepositoryNotFound"
    by (auto simp: selectRepoByID_def repo_exists_def find_None_iff split: option.splits)
  then have "deleteRepoRow (op_RepoID op) s \<noteq> Inl RepositoryNotFound"
    by (cases "selectRepoByID ?db (op_RepoID op)") (auto simp: deleteRepoRow_def Let_def split: if_splits)
  then obtain n s1 where del: "deleteRepoRow (op_RepoID op) s = Inr (n, s1)"
    and s': "rs_db s' = CompleteOperationTx now (op_ID op) (rs_db s1)"
    using tx by (cases "deleteRepoRow (op_RepoID op) s")
      (auto simp: delete_tx_def bind_result_Inr split: prod.splits service_error.splits)
  note d = deleteRepoRow_Inr [OF del]
  have same: "pd_repos (rs_db s') = filter (\<lambda>r. rp_ID r \<noteq> op_RepoID op) (pd_repos ?db)" "pd_people (rs_db s') = pd_people ?db"
    "pd_readers (rs_db s') = filter (\<lambda>x. fst x \<noteq> op_RepoID op) (pd_readers ?db)"
    "pd_rules (rs_db s') = filter (\<lambda>x. fst x \<noteq> op_RepoID op) (pd_rules ?db)"
    using CompleteOperationTx_ops(2) [of now "op_ID op" "rs_db s1"] by (simp_all add: s' settings_def d)
  have "store_inv (rs_db s') st"
  proof (rule completed_inv [OF inv(1) op])
    show "pd_ops (rs_db s') = update_where (\<lambda>x. op_ID x = op_ID op) (\<lambda>x. x\<lparr>op_Completed := Some now, op_Error := []\<rparr>) (pd_ops ?db)"
      by (simp add: s' CompleteOperationTx_ops d)
    show "distinct (map rp_ID (pd_repos (rs_db s')))" "distinct (map rp_Name (pd_repos (rs_db s')))"
      using inv(1) unfolding same store_inv_def by (auto intro: distinct_map_filter)
  qed (use gone in \<open>auto simp: same\<close>)
  moreover have "access_ok (rs_db s')"
  proof -
    have "distinct (map rule_key (filter P rules))" if "distinct (map rule_key rules)" for P and rules :: "(string \<times> Rule) list"
      using that by (rule distinct_map_filter)
    then show ?thesis using inv(2) unfolding access_ok_def same repo_exists_def person_exists_def by auto
  qed
  ultimately show ?thesis ..
qed

lemma head_tx_inv:
  assumes inv: "store_inv (rs_db s) st" "access_ok (rs_db s)" and op: "op \<in> set (pd_ops (rs_db s))" "op_pending op"
    and kind: "op_Kind op = ''head''" and p: "op_Payload op = RepositoryPayload n d b"
    and head: "st (op_RepoID op) = Some b" and tx: "head_tx now op s = Inr s'"
  shows "store_inv (rs_db s') st \<and> access_ok (rs_db s')"
proof -
  let ?db = "rs_db s"
  have "operation_ok ?db st op" using inv(1) op(1) by (simp add: store_inv_def)
  then have ex: "repo_exists (op_RepoID op) ?db" and b: "ValidateDefaultBranch b = ok ()"
    using op(2) kind p by (auto simp: operation_ok_def)
  obtain db1 where up: "update_repo (op_RepoID op) (\<lambda>r. r\<lparr>rp_DefaultBranch := b\<rparr>) ?db = Inr db1"
    and s': "rs_db s' = CompleteOperationTx now (op_ID op) db1"
    using tx by (auto simp: head_tx_def p intent_of_def updateDefaultBranchRow_def bind_result_Inr)
  let ?f = "\<lambda>r. r\<lparr>rp_DefaultBranch := b\<rparr>"
  have db1: "db1 = ?db\<lparr>pd_repos := update_where (\<lambda>r. rp_ID r = op_RepoID op) ?f (pd_repos ?db)\<rparr>"
    using up by (simp add: update_repo_def split: if_splits)
  have same: "pd_repos (rs_db s') = update_where (\<lambda>r. rp_ID r = op_RepoID op) ?f (pd_repos ?db)" "pd_people (rs_db s') = pd_people ?db"
    "pd_readers (rs_db s') = pd_readers ?db" "pd_rules (rs_db s') = pd_rules ?db"
    using CompleteOperationTx_ops(2) [of now "op_ID op" db1] by (simp_all add: s' settings_def db1)
  have maps: "map rp_ID (pd_repos (rs_db s')) = map rp_ID (pd_repos ?db)" "map rp_Name (pd_repos (rs_db s')) = map rp_Name (pd_repos ?db)"
    by (simp_all add: same update_where_def)
  have sets: "rp_ID ` set (pd_repos (rs_db s')) = rp_ID ` set (pd_repos ?db)" "rp_Name ` set (pd_repos (rs_db s')) = rp_Name ` set (pd_repos ?db)"
    using maps by (metis list.set_map)+
  have "store_inv (rs_db s') st"
  proof (rule completed_inv [OF inv(1) op])
    show "pd_ops (rs_db s') = update_where (\<lambda>x. op_ID x = op_ID op) (\<lambda>x. x\<lparr>op_Completed := Some now, op_Error := []\<rparr>) (pd_ops ?db)"
      by (simp add: s' CompleteOperationTx_ops db1)
    show "distinct (map rp_ID (pd_repos (rs_db s')))" "distinct (map rp_Name (pd_repos (rs_db s')))"
      using inv(1) unfolding maps store_inv_def by blast+
    show "r \<in> set (pd_repos (rs_db s')) \<longleftrightarrow> r \<in> set (pd_repos ?db)" if "rp_ID r \<noteq> op_RepoID op" for r
      using that unfolding same update_where_def by (auto simp: image_iff)
    show "repoIDPattern (rp_ID r) \<and> rp_Name r = to_lower (rp_Name r) \<and> ValidateDefaultBranch (rp_DefaultBranch r) = ok () \<and>
      st (rp_ID r) = Some (rp_DefaultBranch r)" if r: "r \<in> set (pd_repos (rs_db s'))" "rp_ID r = op_RepoID op" for r
    proof -
      obtain q where q: "q \<in> set (pd_repos ?db)" "rp_ID q = op_RepoID op" "r = ?f q"
        using r unfolding same update_where_def by (auto split: if_splits)
      then have "row_ok (pd_ops ?db) st q" using inv(1) by (simp add: store_inv_def)
      then show ?thesis using q(2,3) b head by (simp add: row_ok_def)
    qed
  qed (use ex sets in \<open>simp_all add: repo_exists_def same(2)\<close>)
  moreover have "access_ok (rs_db s')"
    using same sets by (intro access_ok_cong [OF _ _ _ _ inv(2)]) (simp_all add: repo_exists_def)
  ultimately show ?thesis ..
qed

end
