(* ===== verification/Repo_Properties.thy ===== *)
theory Repo_Properties
  imports Repo_Operations Push_Properties
begin

text \<open>
  What the repository service guarantees in every reachable state: the rows of the database and the
  directories of the store agree up to operations that are pending or were abandoned, and recovery
  finishes what is pending.
\<close>

section \<open>Preservation by every operation\<close>

lemma ValidateDefaultBranch_ok: "ValidateDefaultBranch b = ok () \<longleftrightarrow> ValidateName b = ok () \<and> \<not> LooksLikeCommitHash b"
  by (auto simp: ValidateDefaultBranch_def split: sum.splits if_splits)

lemma apply_inv_repo:
  assumes inv: "store_inv (rs_db s) st" "access_ok (rs_db s)" and op: "op \<in> set (pd_ops (rs_db s))" "op_pending op"
    and ap: "applyRepositoryOperation now a op s st = (res, s', st')"
  shows "store_inv (rs_db s') st' \<and> access_ok (rs_db s')"
proof -
  let ?db = "rs_db s" and ?i = "op_RepoID op"
  have ok: "operation_ok ?db st op" using inv(1) op(1) by (simp add: store_inv_def)
  have id_pending: "pending_kind (op_Kind op) ?i (pd_ops ?db)" using pending_op_kind [OF op] .
  note change = store_change_inv [OF inv(1) op]
  consider (create) "op_Kind op = ''create''" | (delete) "op_Kind op = ''delete''" | (head) "op_Kind op = ''head''"
    | (other) "op_Kind op \<noteq> ''create'' \<and> op_Kind op \<noteq> ''delete'' \<and> op_Kind op \<noteq> ''head''" by blast
  then show ?thesis
  proof cases
    case create
    then obtain d b where p: "op_Payload op = RepositoryPayload (op_Name op) d b" and pat: "repoIDPattern ?i"
      and none: "\<not> repo_exists ?i ?db" and where_st: "st ?i = None \<or> st ?i = Some b"
      using ok op(2) by (auto simp: operation_ok_def)
    have tx: ?thesis if "store_inv ?db h" "h ?i \<noteq> None" "finish_repo_tx a s h (create_tx now op s) = (res, s', st')" for h
      using finish_repo_tx_cases [OF that(3)] create_tx_inv [OF that(1) inv(2) op create that(2)] that(1) inv(2) by auto
    show ?thesis
    proof (cases "st ?i")
      case (Some h)
      then show ?thesis using ap tx [OF inv(1)] by (simp add: applyRepositoryOperation_def create store_Open_def pat p intent_of_def)
    next
      case None
      obtain r st1 where cr: "store_Create a ?i b st = (r, st1)" by fastforce
      have st1: "st1 = st \<or> st1 = st(?i \<mapsto> b)" using cr by (auto simp: store_Create_def split: if_splits)
      have created: "store_inv ?db (st(?i \<mapsto> b))"
      proof (rule change)
        show "row_ok (pd_ops ?db) (st(?i \<mapsto> b)) r" if "r \<in> set (pd_repos ?db)" "rp_ID r = ?i" for r
          using none that unfolding repo_exists_def by (metis imageI)
        show "directory_ok ?db (st(?i \<mapsto> b)) ?i" using id_pending create by (simp add: directory_ok_def)
        show "operation_ok ?db (st(?i \<mapsto> b)) op" using ok create p by (auto simp: operation_ok_def)
      qed simp
      show ?thesis
      proof (cases r)
        case (Inl e)
        then have "s' = s" "st' = st1" using ap None cr
          by (simp_all add: applyRepositoryOperation_def create store_Open_def pat p intent_of_def)
        then show ?thesis using st1 inv created by auto
      next
        case (Inr u)
        then have "st1 = st(?i \<mapsto> b)" using cr by (auto simp: store_Create_def split: if_splits)
        then show ?thesis using ap None cr Inr tx [OF created]
          by (simp add: applyRepositoryOperation_def create store_Open_def pat p intent_of_def)
      qed
    qed
  next
    case delete
    obtain n d b where p: "intent_of (op_Payload op) = (n, d, b)" by (cases "intent_of (op_Payload op)")
    have tx: ?thesis if "store_inv ?db h" "h ?i = None" "finish_repo_tx a s h (delete_tx now op s) = (res, s', st')" for h
      using finish_repo_tx_cases [OF that(3)] delete_tx_inv [OF that(1) inv(2) op delete that(2)] that(1) inv(2) by auto
    have deleted: "store_inv ?db (st(?i := None))"
    proof (rule change)
      show "row_ok (pd_ops ?db) (st(?i := None)) r" if r: "r \<in> set (pd_repos ?db)" "rp_ID r = ?i" for r
      proof -
        have "row_ok (pd_ops ?db) st r" using inv(1) r(1) by (simp add: store_inv_def)
        then show ?thesis using id_pending delete r(2) by (simp add: row_ok_def)
      qed
      show "directory_ok ?db (st(?i := None)) ?i" by (simp add: directory_ok_def)
      show "operation_ok ?db (st(?i := None)) op" using ok delete by (simp add: operation_ok_def)
    qed simp
    obtain r st1 where del: "store_Delete a ?i st = (r, st1)" by fastforce
    have st1: "st1 = st \<or> st1 = st(?i := None)" "r = Inl StoreNotFound \<or> r = ok () \<Longrightarrow> st1 = st(?i := None)"
      using del by (auto simp: store_Delete_def split: if_splits)
    show ?thesis
    proof (cases "r = Inl StoreNotFound \<or> r = ok ()")
      case True
      then show ?thesis using ap del tx [of st1] deleted st1(2)
        by (auto simp: applyRepositoryOperation_def delete p)
    next
      case False
      then have "s' = s \<and> st' = st1"
        using ap del by (cases r) (auto simp: applyRepositoryOperation_def delete p split: service_error.splits)
      then show ?thesis using st1(1) inv deleted by auto
    qed
  next
    case head
    then obtain n d b where p: "op_Payload op = RepositoryPayload n d b" using ok op(2) by (auto simp: operation_ok_def)
    have tx: ?thesis if "store_inv ?db h" "h ?i = Some b" "finish_repo_tx a s h (head_tx now op s) = (res, s', st')" for h
      using finish_repo_tx_cases [OF that(3)] head_tx_inv [OF that(1) inv(2) op head p that(2)] that(1) inv(2) by auto
    obtain r st1 where set: "SetHead a ?i b st = (r, st1)" by fastforce
    show ?thesis
    proof (cases "store_Open ?i st")
      case (Inl e)
      then show ?thesis using ap inv by (simp add: applyRepositoryOperation_def head p intent_of_def)
    next
      case (Inr h)
      have "op_Kind op \<noteq> ''push''" using head by simp
      have moved: "store_inv ?db (st(?i \<mapsto> b))"
      proof (rule change)
        show "row_ok (pd_ops ?db) (st(?i \<mapsto> b)) r" if r: "r \<in> set (pd_repos ?db)" "rp_ID r = ?i" for r
        proof -
          have "row_ok (pd_ops ?db) st r" using inv(1) r(1) by (simp add: store_inv_def)
          then show ?thesis using id_pending head r(2) by (simp add: row_ok_def)
        qed
        show "directory_ok ?db (st(?i \<mapsto> b)) ?i" using ok op(2) head by (simp add: directory_ok_def operation_ok_def)
        show "operation_ok ?db (st(?i \<mapsto> b)) op" using ok head by (simp add: operation_ok_def)
      qed simp
      show ?thesis
      proof (cases r)
        case (Inl e)
        then have "s' = s" "st' = st1" using ap Inr set
          by (simp_all add: applyRepositoryOperation_def head p intent_of_def)
        moreover have "st1 = st" using set Inl by (auto simp: SetHead_def split: if_splits)
        ultimately show ?thesis using inv by simp
      next
        case moved_head: (Inr u)
        then have "st1 = st(?i \<mapsto> b)" using set by (auto simp: SetHead_def split: if_splits)
        then show ?thesis using ap Inr set moved_head tx [OF moved]
          by (simp add: applyRepositoryOperation_def head p intent_of_def)
      qed
    qed
  next
    case other
    then have "s' = s" "st' = st" using ap by (auto simp: applyRepositoryOperation_def split: prod.splits)
    then show ?thesis using inv by simp
  qed
qed

lemma run_operation_inv:
  assumes inv: "store_inv (rs_db s) st" "access_ok (rs_db s)"
    and run: "run_operation now a begun newOp repoID kind name actorID p s st = (res, s', st')"
    and ok: "\<And>op. op_RepoID op = repoID \<Longrightarrow> op_Kind op = kind \<Longrightarrow> op_Payload op = p \<Longrightarrow> op_Name op = name \<Longrightarrow>
      op_ActorID op = actorID \<Longrightarrow> operation_ok (rs_db s) st op"
  shows "store_inv (rs_db s') st' \<and> access_ok (rs_db s')"
proof (cases "BeginOperation now newOp repoID kind name actorID p (rs_db s)")
  case (Inl e)
  then show ?thesis using run inv by (simp add: run_operation_def)
next
  case (Inr x)
  obtain op db where x: "x = (op, db)" by (cases x)
  note b = Inr [unfolded x]
  note begun = BeginOperation_Inr [OF b]
  have inv1: "store_inv db st" by (rule begin_store_inv [OF inv(1) b]) (rule ok [OF begun(5,6,8,9,10)])
  have access1: "access_ok db" using inv(2) by (intro access_ok_cong [of db "rs_db s"]) (simp_all add: begun(11) repo_exists_def set_ops_def)
  have op: "op \<in> set (pd_ops db)" "op_pending op" using begun(7,11) by simp_all
  show ?thesis
  proof (cases begun)
    case True
    then have "applyRepositoryOperation now a op (set_db db s) st = (res, s', st')" using run b by (simp add: run_operation_def)
    from apply_inv_repo [OF _ _ _ op(2) this] show ?thesis using inv1 access1 op(1) by simp
  next
    case False
    then show ?thesis using run b inv1 access1 by (auto simp: run_operation_def)
  qed
qed

lemma CreateRepository_inv:
  assumes inv: "store_inv (rs_db s) st" "access_ok (rs_db s)"
    and run: "CreateRepository now a begun newID newOp name description branch actorID s st = (res, s', st')"
    and fresh: "repoIDPattern newID" "st newID = None" "\<not> repo_exists newID (rs_db s)" "optional_person actorID (rs_db s)"
  shows "store_inv (rs_db s') st' \<and> access_ok (rs_db s')"
proof -
  define n where "n = to_lower name"
  define d where "d = trim_space description"
  define b where "b = (if branch = [] then ''main'' else branch)"
  define checks where "checks = bind_result (map_error NameInvalid (ValidateRepository n)) (\<lambda>_.
            bind_result (creation_limit now actorID (rs_db s)) (\<lambda>_.
            bind_result (map_error SettingInvalid (ValidateDescription d)) (\<lambda>_.
            bind_result (map_error SettingInvalid (ValidateDefaultBranch b)) (\<lambda>_.
            bind_result (map_error Journal (WithMutation newID (rs_db s))) (\<lambda>_.
            case selectRepoByName (rs_db s) n of
              Inr _ \<Rightarrow> Inl AlreadyExists
            | Inl e \<Rightarrow> if e = RepositoryNotFound then ok () else Inl e)))))"
  have run': "(case checks of Inl e \<Rightarrow> (Inl e, s, st)
      | Inr _ \<Rightarrow> (case run_operation now a begun newOp newID ''create'' n actorID (RepositoryPayload n d b) s st of
          (Inl e, s', st') \<Rightarrow> (Inl e, s', st') | (Inr _, s', st') \<Rightarrow> (selectRepoByID (rs_db s') newID, s', st'))) = (res, s', st')"
    using run unfolding CreateRepository_def Let_def n_def d_def b_def checks_def .
  show ?thesis
  proof (cases checks)
    case (Inl e)
    then show ?thesis using run' inv by simp
  next
    case (Inr u)
    then have ok: "ValidateDefaultBranch b = ok ()" "selectRepoByName (rs_db s) n = Inl RepositoryNotFound"
      unfolding checks_def by (auto simp: bind_result_Inr split: sum.splits if_splits)
    have "n \<notin> rp_Name ` set (pd_repos (rs_db s))"
      using ok(2) by (auto simp: selectRepoByName_def n_def find_None_iff split: option.splits)
    then have "operation_ok (rs_db s) st op" if "op_RepoID op = newID" "op_Kind op = ''create''"
      "op_Payload op = RepositoryPayload n d b" "op_Name op = n" "op_ActorID op = actorID" for op
      using that fresh ok(1) by (simp add: operation_ok_def n_def)
    moreover obtain r s1 st1 where "run_operation now a begun newOp newID ''create'' n actorID (RepositoryPayload n d b) s st = (r, s1, st1)"
      by (cases "run_operation now a begun newOp newID ''create'' n actorID (RepositoryPayload n d b) s st")
    ultimately show ?thesis using run_operation_inv [OF inv] run' Inr by (cases r) auto
  qed
qed

lemma selectRepoByID_exists: "selectRepoByID db i = Inr r \<Longrightarrow> repo_exists i db \<and> rp_ID r = i"
  by (auto simp: selectRepoByID_def repo_exists_def split: option.splits dest!: find_SomeD)

lemma DeleteRepository_inv:
  assumes inv: "store_inv (rs_db s) st" "access_ok (rs_db s)"
    and run: "DeleteRepository now a begun newOp repoID actorID s st = (res, s', st')"
  shows "store_inv (rs_db s') st' \<and> access_ok (rs_db s')"
proof (cases "bind_result (map_error Journal (WithMutation repoID (rs_db s))) (\<lambda>_. selectRepoByID (rs_db s) repoID)")
  case (Inl e)
  then show ?thesis using run inv by (simp add: DeleteRepository_def)
next
  case (Inr r)
  then have "repo_exists repoID (rs_db s)" using selectRepoByID_exists by (auto simp: bind_result_Inr)
  then have ok: "operation_ok (rs_db s) st op" if "op_RepoID op = repoID" "op_Kind op = ''delete''" for op
    using that by (simp add: operation_ok_def)
  have "run_operation now a begun newOp repoID ''delete'' [] actorID (RepositoryPayload (rp_Name r) [] []) s st = (res, s', st')"
    using run Inr by (simp add: DeleteRepository_def)
  then show ?thesis by (rule run_operation_inv [OF inv]) (rule ok)
qed

lemma SetDefaultBranch_inv:
  assumes inv: "store_inv (rs_db s) st" "access_ok (rs_db s)"
    and run: "SetDefaultBranch now a begun newOp branches repoID branch actorID s st = (res, s', st')"
  shows "store_inv (rs_db s') st' \<and> access_ok (rs_db s')"
proof -
  define checks where "checks = bind_result (map_error SettingInvalid (ValidateDefaultBranch branch)) (\<lambda>_.
            bind_result (map_error Journal (WithMutation repoID (rs_db s))) (\<lambda>_.
            bind_result (selectRepoByID (rs_db s) repoID) (\<lambda>current.
              if rp_DefaultBranch current = branch then ok False
              else bind_result (store_Open repoID st) (\<lambda>_.
                bind_result branches (\<lambda>names. if branch \<in> set names then ok True else Inl (NoBranchNamed branch))))))"
  have run': "(case checks of Inl e \<Rightarrow> (Inl e, s, st) | Inr False \<Rightarrow> (ok (), s, st)
     | Inr True \<Rightarrow> run_operation now a begun newOp repoID ''head'' [] actorID (RepositoryPayload [] [] branch) s st) = (res, s', st')"
    using run unfolding SetDefaultBranch_def Let_def checks_def .
  show ?thesis
  proof (cases "checks = Inr True")
    case True
    then have "ValidateDefaultBranch branch = ok ()" "repo_exists repoID (rs_db s)"
      unfolding checks_def by (auto simp: bind_result_Inr dest: selectRepoByID_exists)
    then have ok: "operation_ok (rs_db s) st op" if "op_RepoID op = repoID" "op_Kind op = ''head''"
      "op_Payload op = RepositoryPayload [] [] branch" for op
      using that by (simp add: operation_ok_def)
    have "run_operation now a begun newOp repoID ''head'' [] actorID (RepositoryPayload [] [] branch) s st = (res, s', st')"
      using run' True by simp
    then show ?thesis by (rule run_operation_inv [OF inv]) (rule ok)
  next
    case False
    then show ?thesis using run' inv by (cases checks) (auto split: bool.splits)
  qed
qed

lemma recoverOperation_inv:
  assumes inv: "store_inv (rs_db s) st" "access_ok (rs_db s)"
    and run: "recoverOperation now a timed_out opID text s st = (res, s', st')"
  shows "store_inv (rs_db s') st' \<and> access_ok (rs_db s')"
proof (cases "find (\<lambda>op. op_ID op = opID) (pd_ops (rs_db s))")
  case None
  then show ?thesis using run inv by (simp add: recoverOperation_def)
next
  case (Some op)
  have op: "op \<in> set (pd_ops (rs_db s))" using find_SomeD [OF Some] by simp
  show ?thesis
  proof (cases "op_pending op")
    case False
    then show ?thesis using run inv Some by (simp add: recoverOperation_def)
  next
    case True
    obtain r s1 st1 where ap: "applyRepositoryOperation now a op s st = (r, s1, st1)" by (cases "applyRepositoryOperation now a op s st")
    have inv1: "store_inv (rs_db s1) st1 \<and> access_ok (rs_db s1)" by (rule apply_inv_repo [OF inv op True ap])
    have ch: "journal_change (rs_db s1) (note_failure opID text (rs_db s1))"
      using inv1 note_failure_change by (simp add: store_inv_def)
    then have "store_inv (note_failure opID text (rs_db s1)) st1 \<and> access_ok (note_failure opID text (rs_db s1))"
      using store_inv_change [OF _ ch] access_ok_settings [of "note_failure opID text (rs_db s1)" "rs_db s1"] inv1 ch
      unfolding journal_change_def by blast
    moreover have "st' = st1 \<and> (s' = s1 \<or> s' = set_db (note_failure opID text (rs_db s1)) s1)"
      using run Some True ap by (cases r) (auto simp: recoverOperation_def split: if_splits)
    ultimately show ?thesis using inv1 by auto
  qed
qed

lemma QuarantineOrphans_inv:
  assumes inv: "store_inv db st"
  shows "store_inv db (QuarantineOrphans db st)"
proof -
  let ?st = "QuarantineOrphans db st"
  have same: "?st i = st i" if "repo_exists i db \<or> (\<exists>op\<in>set (pd_ops db). op_RepoID op = i \<and> op_pending op)" for i
    using that by (auto simp: QuarantineOrphans_def known_repo_def list_ex_iff)
  have rows: "row_ok (pd_ops db) ?st r" if r: "r \<in> set (pd_repos db)" for r
  proof -
    have "?st (rp_ID r) = st (rp_ID r)" using r by (intro same) (simp add: repo_exists_def)
    moreover have "row_ok (pd_ops db) st r" using inv r by (simp add: store_inv_def)
    ultimately show ?thesis by (simp add: row_ok_def)
  qed
  have dirs: "directory_ok db ?st i" for i
  proof -
    have "directory_ok db st i" using inv by (simp add: store_inv_def)
    then show ?thesis by (auto simp: directory_ok_def QuarantineOrphans_def)
  qed
  have ops: "operation_ok db ?st op" if op: "op \<in> set (pd_ops db)" for op
  proof (cases "op_pending op")
    case True
    then have "?st (op_RepoID op) = st (op_RepoID op)" using op by (intro same) blast
    moreover have "operation_ok db st op" using inv op by (simp add: store_inv_def)
    ultimately show ?thesis unfolding operation_ok_def by simp
  qed (simp add: operation_ok_def)
  show ?thesis using inv rows dirs ops by (simp add: store_inv_def)
qed

lemma commit_keeps:
  "store_inv (rs_db s) st \<and> access_ok (rs_db s) \<Longrightarrow> (\<And>u s'. res = Inr (u, s') \<Longrightarrow> keeps (rs_db s) (rs_db s')) \<Longrightarrow>
    store_inv (rs_db (commit_repo res s)) st \<and> access_ok (rs_db (commit_repo res s))"
  by (cases res) (auto simp: commit_repo_def dest!: keeps_inv [rotated])

lemma repo_exec_inv:
  assumes inv: "repo_inv x" and allowed: "repo_allowed op x"
  shows "repo_inv (repo_exec parse et hash env op x)"
proof -
  obtain s st gits where x: "x = (s, st, gits)" by (cases x)
  have i: "store_inv (rs_db s) st" "access_ok (rs_db s)" using inv by (simp_all add: x repo_inv_parts)
  show ?thesis
  proof (cases op)
    case (DoCreateRepo now a begun newID newOp name description branch actorID)
    obtain r s' st' where "CreateRepository now a begun newID newOp name description branch actorID s st = (r, s', st')"
      by (cases "CreateRepository now a begun newID newOp name description branch actorID s st")
    then show ?thesis using CreateRepository_inv [OF i] allowed by (simp add: DoCreateRepo x repo_inv_parts)
  next
    case (DoDeleteRepo now a begun newOp repoID actorID)
    obtain r s' st' where "DeleteRepository now a begun newOp repoID actorID s st = (r, s', st')"
      by (cases "DeleteRepository now a begun newOp repoID actorID s st")
    then show ?thesis using DeleteRepository_inv [OF i] by (simp add: DoDeleteRepo x repo_inv_parts)
  next
    case (DoSetBranch now a begun newOp branches repoID branch actorID)
    obtain r s' st' where "SetDefaultBranch now a begun newOp branches repoID branch actorID s st = (r, s', st')"
      by (cases "SetDefaultBranch now a begun newOp branches repoID branch actorID s st")
    then show ?thesis using SetDefaultBranch_inv [OF i] by (simp add: DoSetBranch x repo_inv_parts)
  next
    case (DoRecoverRepo now a timed_out opID t)
    obtain r s' st' where "recoverOperation now a timed_out opID t s st = (r, s', st')"
      by (cases "recoverOperation now a timed_out opID t s st")
    then show ?thesis using recoverOperation_inv [OF i] by (simp add: DoRecoverRepo x repo_inv_parts)
  next
    case DoQuarantine
    then show ?thesis using QuarantineOrphans_inv i by (simp add: x repo_inv_parts)
  next
    case (DoPushes pop)
    obtain db' gits' where run: "push_exec parse et hash env pop (rs_db s, gits) = (db', gits')" by fastforce
    have ch: "journal_change (rs_db s) db'"
      using push_exec_change [OF _ _ run] allowed i(1) by (simp add: DoPushes x store_inv_def)
    have "store_inv db' st" by (rule store_inv_change [OF i(1) ch])
    moreover have "access_ok db'"
      using access_ok_settings [of db' "rs_db s"] ch i(2) by (simp add: journal_change_def)
    ultimately show ?thesis using run by (simp add: DoPushes x repo_inv_parts)
  qed (simp_all add: x repo_inv_parts,
      (rule commit_keeps [OF conjI [OF i]], erule settings_keep RemoveReader_keeps SetAccess_keeps)+)
qed

interpretation repos: invariant_system repo_allowed "repo_exec parse et hash env" repo_inv
  for parse et hash and env :: "'g git_env"
  by unfold_locales (rule repo_exec_inv)

section \<open>Properties\<close>

definition no_repositories :: "repo_state \<Rightarrow> store \<Rightarrow> bool" where
  "no_repositories s st \<longleftrightarrow> pd_repos (rs_db s) = [] \<and> pd_ops (rs_db s) = [] \<and> pd_readers (rs_db s) = [] \<and>
     pd_rules (rs_db s) = [] \<and> st = (\<lambda>_. None)"

lemma no_repositories_inv: "no_repositories s st \<Longrightarrow> repo_inv (s, st, gits)"
  by (simp add: no_repositories_def repo_inv_def ops_inv_def create_names_def directory_ok_def access_ok_def)

text \<open>
  C3: from an instance without repositories, through creations, deletions, changes of the default
  branch, recoveries, pushes, runs, abandoned operations and settings, with a crash or failure after
  any step: a repository of which no operation is pending and none was abandoned has a row in the
  database exactly if it has a directory in the store, the directory's \<open>HEAD\<close> is the default branch of
  the row, and quarantining unknown directories leaves it alone.
\<close>

theorem storage_agrees:
  assumes "reaches repo_allowed (repo_exec parse et hash env) (s0, st0, gits0) (s, st, gits)"
    and "no_repositories s0 st0"
    and "\<not> list_ex (\<lambda>op. op_RepoID op = i \<and> (op_pending op \<or> op_Kind op \<noteq> ''push'' \<and> op_Error op \<noteq> [])) (pd_ops (rs_db s))"
  shows "(repo_exists i (rs_db s) \<longleftrightarrow> st i \<noteq> None) \<and>
    (\<forall>r. r \<in> set (pd_repos (rs_db s)) \<and> rp_ID r = i \<longrightarrow> st i = Some (rp_DefaultBranch r)) \<and>
    QuarantineOrphans (rs_db s) st i = st i"
proof -
  have inv: "store_inv (rs_db s) st"
    using repos.inv_reaches [OF assms(1) no_repositories_inv [OF assms(2)]] by (simp add: repo_inv_parts)
  have quiet: "\<not> pending_kind k i (pd_ops (rs_db s))" "\<not> abandoned i (pd_ops (rs_db s))" for k
    using assms(3) unfolding pending_kind_def abandoned_def list_ex_iff by blast+
  have head: "st i = Some (rp_DefaultBranch r)" if r: "r \<in> set (pd_repos (rs_db s))" "rp_ID r = i" for r
  proof -
    have "row_ok (pd_ops (rs_db s)) st r" using inv r(1) by (simp add: store_inv_def)
    then show ?thesis using quiet r(2) by (cases "st i") (auto simp: row_ok_def)
  qed
  have "directory_ok (rs_db s) st i" using inv by (simp add: store_inv_def)
  then have "st i \<noteq> None \<Longrightarrow> repo_exists i (rs_db s)" using quiet by (simp add: directory_ok_def)
  moreover have "repo_exists i (rs_db s) \<Longrightarrow> st i \<noteq> None" using head by (auto simp: repo_exists_def)
  ultimately show ?thesis using head by (cases "st i") (auto simp: QuarantineOrphans_def known_repo_def)
qed

lemma repo_exists_row:
  assumes "repo_exists i db"
  obtains r where "selectRepoByID db i = ok r" "r \<in> set (pd_repos db)" "rp_ID r = i"
proof (cases "find (\<lambda>r. rp_ID r = i) (pd_repos db)")
  case None
  then show ?thesis using assms by (auto simp: repo_exists_def find_None_iff)
next
  case (Some r)
  show ?thesis by (rule that [of r]) (use Some find_SomeD [OF Some] in \<open>simp_all add: selectRepoByID_def\<close>)
qed

lemma creates_ok:
  assumes "operation_ok db st op" and "op_pending op" and "op_Kind op = ''create''"
  obtains d b where "op_Payload op = RepositoryPayload (op_Name op) d b" "ValidateDefaultBranch b = ok ()"
    "op_Name op = to_lower (op_Name op)" "optional_person (op_ActorID op) db" "repoIDPattern (op_RepoID op)"
    "\<not> repo_exists (op_RepoID op) db" "op_Name op \<notin> rp_Name ` set (pd_repos db)"
  using assms by (auto simp: operation_ok_def)


definition sample_repo_start :: "(string \<times> string) list repo_sys" where
  "sample_repo_start = (\<lparr>rs_db = sample_push_db\<lparr>pd_repos := []\<rparr>, rs_secrets = [], rs_events = []\<rparr>, \<lambda>_. None, \<lambda>_. [])"

definition sample_create :: "bool \<Rightarrow> (string \<times> string) list repo_op" where
  "sample_create killed = DoCreateRepo 5 \<lparr>sa_Changed = True, sa_Removed = True, sa_Killed = killed, sa_Commits = True\<rparr> True
     ''r1'' ''o1'' ''App'' [] [] ''p1''"

abbreviation sample_repo_exec :: "(string \<times> string) list repo_op \<Rightarrow> (string \<times> string) list repo_sys \<Rightarrow>
    (string \<times> string) list repo_sys" where
  "sample_repo_exec \<equiv> repo_exec sample_parse no_text sample_hash sample_env"

definition repo_view ::
  "'g repo_sys \<Rightarrow> (string \<times> string \<times> string) list \<times> Operation list \<times> string option \<times> bool" where
  "repo_view x = (case x of (s, st, gits) \<Rightarrow>
     (map (\<lambda>r. (rp_ID r, rp_Name r, rp_DefaultBranch r)) (pd_repos (rs_db s)), pd_ops (rs_db s), st ''r1'',
      list_all (\<lambda>t. dt_owner t = None) (db_targets (pd_ci (rs_db s)))))"

definition sample_create_op :: Operation where
  "sample_create_op = \<lparr>op_ID = ''o1'', op_RepoID = ''r1'', op_Kind = ''create'', op_Name = ''app'', op_ActorID = ''p1'',
     op_Payload = RepositoryPayload ''app'' [] ''main'', op_CreatedAt = 5, op_Completed = None, op_Error = []\<rparr>"

lemma sample_created:
  "repo_view (sample_repo_exec (sample_create False) sample_repo_start) =
     ([(''r1'', ''app'', ''main'')], [sample_create_op\<lparr>op_Completed := Some 5\<rparr>], Some ''main'', True)"
  by code_simp

lemma sample_cut_off:
  "repo_view (sample_repo_exec (sample_create True) sample_repo_start) = ([], [sample_create_op], Some ''main'', True)"
  by code_simp

lemma sample_create_reaches:
  "reaches repo_allowed sample_repo_exec sample_repo_start (sample_repo_exec (sample_create killed) sample_repo_start)"
proof (rule reaches_step [OF reaches_refl])
  have "repoIDPattern ''r1''" "optional_person ''p1'' (sample_push_db\<lparr>pd_repos := []\<rparr>)" by code_simp+
  moreover have "pd_ops sample_push_db = []" by code_simp
  ultimately show "repo_allowed (sample_create killed) sample_repo_start"
    by (simp add: sample_create_def sample_repo_start_def repo_exists_def)
qed

lemma sample_repo_start_parts:
  "sample_repo_start = (s, st, gits) \<Longrightarrow> no_repositories s st"
  by (auto simp: sample_repo_start_def no_repositories_def sample_push_db_def)

lemma storage_agrees_witness:
  "case sample_repo_exec (sample_create False) sample_repo_start of (s, st, gits) \<Rightarrow>
     repo_exists ''r1'' (rs_db s) \<and> st ''r1'' = Some ''main'' \<and> QuarantineOrphans (rs_db s) st ''r1'' = Some ''main''"
proof -
  obtain s0 st0 gits0 where start: "sample_repo_start = (s0, st0, gits0)" by (cases sample_repo_start)
  obtain s st gits where created: "sample_repo_exec (sample_create False) sample_repo_start = (s, st, gits)"
    by (cases "sample_repo_exec (sample_create False) sample_repo_start")
  have reach: "reaches repo_allowed sample_repo_exec (s0, st0, gits0) (s, st, gits)"
    unfolding start [symmetric] created [symmetric] by (rule sample_create_reaches)
  note view = sample_created [unfolded created repo_view_def, simplified]
  have "(repo_exists ''r1'' (rs_db s) \<longleftrightarrow> st ''r1'' \<noteq> None) \<and>
    (\<forall>r. r \<in> set (pd_repos (rs_db s)) \<and> rp_ID r = ''r1'' \<longrightarrow> st ''r1'' = Some (rp_DefaultBranch r)) \<and>
    QuarantineOrphans (rs_db s) st ''r1'' = st ''r1''"
    by (rule storage_agrees [OF reach sample_repo_start_parts [OF start]])
      (use view in \<open>simp add: op_pending_def sample_create_op_def\<close>)
  then show ?thesis using view by (simp add: created)
qed


end
