(* ===== verification/Go_Text.thy ===== *)
theory Go_Text
  imports Git_Refs Utf8_Facts
begin

text \<open>
  More of Go's packages \<open>strings\<close> and \<open>strconv\<close>, for the readers of git's output: \<open>Cut\<close>, \<open>Fields\<close>,
  \<open>LastIndex\<close>, \<open>ToValidUTF8\<close>, \<open>ParseInt\<close> and \<open>FormatInt\<close>, and how reading undoes writing.
\<close>

section \<open>Functions\<close>

text \<open>\<open>strings.Cut\<close> and \<open>bytes.Cut\<close>: the text before and after the first separator.\<close>

definition cut :: "string \<Rightarrow> string \<Rightarrow> string \<times> string \<times> bool" where
  "cut s sep = (case index_of s sep of None \<Rightarrow> (s, [], False)
     | Some k \<Rightarrow> (take k s, drop (k + length sep) s, True))"

text \<open>\<open>strings.LastIndex\<close>: the greatest offset at which \<open>sub\<close> occurs.\<close>

fun last_index_of :: "string \<Rightarrow> string \<Rightarrow> nat option" where
  "last_index_of [] sub = (if sub = [] then Some 0 else None)"
| "last_index_of (c # s) sub =
     (case last_index_of s sub of Some k \<Rightarrow> Some (Suc k)
      | None \<Rightarrow> if prefix sub (c # s) then Some 0 else None)"

text \<open>\<open>strings.Fields\<close>: the runs of runes that are not white space.\<close>

function fields_from :: "string \<Rightarrow> string \<Rightarrow> string list" where
  "fields_from cur s =
     (if s = [] then (if cur = [] then [] else [cur])
      else if leading_space s \<noteq> 0
      then (if cur = [] then [] else [cur]) @ fields_from [] (drop (leading_space s) s)
      else fields_from (cur @ take (snd (decode_rune s)) s) (drop (snd (decode_rune s)) s))"
  by pat_completeness auto
termination
proof (relation "measure (length \<circ> snd)", goal_cases)
  case (3 cur s)
  then show ?case using decode_rune_width [of s] by (cases s) (auto simp del: decode_rune.simps)
qed auto

declare fields_from.simps [simp del]

definition Fields :: "string \<Rightarrow> string list" where
  "Fields s = fields_from [] s"

text \<open>\<open>strings.ToValidUTF8\<close>: each run of invalid bytes becomes one replacement.\<close>

function to_valid_from :: "bool \<Rightarrow> string \<Rightarrow> string \<Rightarrow> string" where
  "to_valid_from bad repl s =
     (if s = [] then []
      else if decode_rune s = (rune_error, 1)
      then (if bad then [] else repl) @ to_valid_from True repl (drop 1 s)
      else take (snd (decode_rune s)) s @ to_valid_from False repl (drop (snd (decode_rune s)) s))"
  by pat_completeness auto
termination
proof (relation "measure (length \<circ> snd \<circ> snd)", goal_cases)
  case (3 bad repl s)
  then show ?case using decode_rune_width [of s] by (cases s) (auto simp del: decode_rune.simps)
qed auto

declare to_valid_from.simps [simp del]

definition replacement :: string where
  "replacement = [CHR 0xEF, CHR 0xBF, CHR 0xBD]"

definition ToValidUTF8 :: "string \<Rightarrow> string" where
  "ToValidUTF8 s = to_valid_from False replacement s"

text \<open>\<open>strconv.ParseInt(s, 10, 64)\<close> and \<open>strconv.Atoi\<close> on a 64-bit machine: \<^const>\<open>None\<close> is an error.\<close>

definition parse_int :: "string \<Rightarrow> int option" where
  "parse_int s =
     (let neg = prefix ''-'' s; body = (if neg \<or> prefix ''+'' s then tl s else s);
          n = (if neg then - int (digits_val body) else int (digits_val body))
      in if body = [] \<or> \<not> list_all is_digit body then None
         else if n < - (2 ^ 63) \<or> 2 ^ 63 \<le> n then None else Some n)"

text \<open>\<open>fmt.Sprintf("%x", b)\<close> of a byte slice.\<close>

definition hex_char :: "nat \<Rightarrow> char" where
  "hex_char n = (if n < 10 then char_of (48 + n) else char_of (87 + n))"

fun hex :: "string \<Rightarrow> string" where
  "hex [] = []"
| "hex (c # s) = hex_char (code c div 16) # hex_char (code c mod 16) # hex s"

section \<open>Facts\<close>

lemma index_of_append:
  assumes "\<forall>j < length u. \<not> prefix sub (drop j (u @ sub @ v))"
  shows "index_of (u @ sub @ v) sub = Some (length u)"
  using assms
proof (induction u)
  case Nil
  have "prefix sub (sub @ v)" by simp
  then show ?case by (cases "sub @ v") auto
next
  case (Cons c u)
  have "\<not> prefix sub (c # u @ sub @ v)" using Cons.prems by (metis append_Cons drop0 length_greater_0_conv list.distinct(1))
  moreover have "\<forall>j < length u. \<not> prefix sub (drop j (u @ sub @ v))" using Cons.prems by fastforce
  ultimately show ?case using Cons.IH by simp
qed

lemma cut_char: "c \<notin> set u \<Longrightarrow> cut (u @ c # v) [c] = (u, v, True)"
proof -
  assume c: "c \<notin> set u"
  have "\<not> prefix [c] (drop j (u @ [c] @ v))" if "j < length u" for j
    using that c by (cases "drop j u") (auto simp: drop_eq_Nil2 dest: in_set_dropD [of c j u] , metis in_set_dropD list.set_intros(1))
  then show ?thesis using index_of_append [of u "[c]" v] by (simp add: cut_def)
qed

lemma cut_absent: "c \<notin> set s \<Longrightarrow> cut s [c] = (s, [], False)"
  using contains_char [of s c] by (simp add: contains_def cut_def del: contains_char)

lemma last_index_of_None: "last_index_of s sub = None \<longleftrightarrow> \<not> contains s sub"
proof (induction s)
  case (Cons c s)
  then show ?case by (auto simp: contains_def split: option.splits if_splits)
qed (simp add: contains_def)

lemma last_index_of_append:
  assumes "sub \<noteq> []" and "\<not> contains (tl sub @ v) sub"
  shows "last_index_of (u @ sub @ v) sub = Some (length u)"
proof (induction u)
  case Nil
  obtain c w where sub: "sub = c # w" using assms(1) by (cases sub) auto
  then show ?case using assms(2) last_index_of_None [of "w @ v" sub] by simp
qed simp


section \<open>Words of plain text\<close>

text \<open>A byte below 128 that is not white space.\<close>

definition plain :: "char \<Rightarrow> bool" where
  "plain c \<longleftrightarrow> code c < 128 \<and> code c \<noteq> 32 \<and> \<not> (9 \<le> code c \<and> code c \<le> 13)"

definition word_ok :: "string \<Rightarrow> bool" where
  "word_ok s \<longleftrightarrow> s \<noteq> [] \<and> list_all plain s"

lemma leading_space_plain: "plain c \<Longrightarrow> leading_space (c # s) = 0"
  by (auto simp: plain_def leading_space_def space_encodings_def code_inject)

lemma leading_space_blank: "leading_space (CHR '' '' # s) = 1"
  by (simp add: leading_space_def space_encodings_def)

lemma leading_space_Nil [simp]: "leading_space [] = 0"
  by (simp add: leading_space_def space_encodings_def)

lemma fields_from_plain: "list_all plain w \<Longrightarrow> fields_from cur (w @ s) = fields_from (cur @ w) s"
proof (induction w arbitrary: cur)
  case (Cons c w)
  then have "leading_space (c # w @ s) = 0" "snd (decode_rune (c # w @ s)) = 1"
    by (simp_all add: leading_space_plain plain_def)
  then show ?case using Cons by (simp add: fields_from.simps [of cur "c # w @ s"])
qed simp

lemma fields_from_end: "cur \<noteq> [] \<Longrightarrow> fields_from cur [] = [cur]"
  by (simp add: fields_from.simps)

lemma fields_from_blank: "cur \<noteq> [] \<Longrightarrow> fields_from cur (CHR '' '' # s) = cur # fields_from [] s"
  by (simp add: fields_from.simps [of cur] leading_space_blank)

lemma Fields_word: "word_ok w \<Longrightarrow> Fields w = [w]"
  using fields_from_plain [of w "[]" "[]"] by (simp add: word_ok_def Fields_def fields_from_end)

lemma Fields_words: "word_ok w \<Longrightarrow> Fields (w @ CHR '' '' # s) = w # Fields s"
  using fields_from_plain [of w "[]" "CHR '' '' # s"] by (simp add: word_ok_def Fields_def fields_from_blank)

section \<open>Valid text\<close>

lemma to_valid_from_ok:
  assumes "valid_utf8 s"
  shows "to_valid_from bad repl s = s"
  using assms
proof (induction bad repl s rule: to_valid_from.induct)
  case (1 bad repl s)
  show ?case
  proof (cases "s = []")
    case False
    have w: "runes_widths s = decode_rune s # runes_widths (drop (snd (decode_rune s)) s)"
      using False by (simp add: runes_widths.simps [of s])
    have "decode_rune s \<noteq> (rune_error, 1)" "valid_utf8 (drop (snd (decode_rune s)) s)"
      using 1(3) by (auto simp: valid_utf8_def w split: prod.splits)
    then show ?thesis using 1(2) False by (simp add: to_valid_from.simps [of bad repl s])
  qed (simp add: to_valid_from.simps)
qed

lemma ToValidUTF8_ok [simp]: "valid_utf8 s \<Longrightarrow> ToValidUTF8 s = s"
  by (simp add: ToValidUTF8_def to_valid_from_ok)

lemma valid_utf8_ascii: "list_all (\<lambda>c. code c < 128) s \<Longrightarrow> valid_utf8 s"
  by (auto simp: valid_utf8_def runes_widths_ascii list_all_iff rune_error_def)

section \<open>Numbers\<close>

lemma digits_val_append: "digits_val (s @ t) = digits_val s * 10 ^ length t + digits_val t"
  by (induction s) (simp_all add: algebra_simps power_add)

lemma format_nat_digits: "format_nat n \<noteq> [] \<and> list_all is_digit (format_nat n) \<and> digits_val (format_nat n) = n"
proof (induction n rule: format_nat.induct)
  case (1 n)
  show ?case
  proof (cases "n < 10")
    case True
    then show ?thesis by (simp add: format_nat.simps [of n] is_digit_def)
  next
    case False
    then have "format_nat n = format_nat (n div 10) @ [char_of (48 + n mod 10)]" by (simp add: format_nat.simps [of n])
    moreover have "n mod 10 < 10" by simp
    ultimately show ?thesis using 1 [OF False] by (simp add: digits_val_append is_digit_def)
  qed
qed

lemma digit_plain: "is_digit c \<Longrightarrow> plain c"
  by (simp add: is_digit_def plain_def)

lemma format_int_word: "word_ok (format_int n)"
proof -
  have "list_all plain (format_nat k)" "format_nat k \<noteq> []" for k
    using format_nat_digits [of k] by (auto simp: list_all_iff digit_plain)
  moreover have "plain (CHR ''-'')" by (simp add: plain_def)
  ultimately show ?thesis by (simp add: word_ok_def format_int_def)
qed

lemma parse_int_digits:
  assumes "s \<noteq> []" and "list_all is_digit s"
  shows "parse_int s = (if digits_val s < 2 ^ 63 then Some (int (digits_val s)) else None)"
proof -
  obtain c w where c: "s = c # w" "is_digit c" using assms by (cases s) auto
  then have "c \<noteq> CHR ''-''" "c \<noteq> CHR ''+''" by (auto simp: is_digit_def)
  then have "parse_int s = (if int (digits_val s) < 2 ^ 63 then Some (int (digits_val s)) else None)"
    using assms c(1) by (simp add: parse_int_def Let_def del: digits_val.simps)
  then show ?thesis unfolding of_nat_less_numeral_power_cancel_iff .
qed

lemma parse_int_negative:
  assumes "s \<noteq> []" and "list_all is_digit s" and "int (digits_val s) \<le> 2 ^ 63"
  shows "parse_int (CHR ''-'' # s) = Some (- int (digits_val s))"
  using assms by (simp add: parse_int_def Let_def del: digits_val.simps)

lemma parse_format_int:
  assumes "- (2 ^ 63) \<le> n" and "n < 2 ^ 63"
  shows "parse_int (format_int n) = Some n"
proof (cases "n < 0")
  case True
  let ?d = "format_nat (nat (- n))"
  have d: "?d \<noteq> []" "list_all is_digit ?d" "digits_val ?d = nat (- n)"
    using format_nat_digits [of "nat (- n)"] by blast+
  have "int (digits_val ?d) \<le> 2 ^ 63" using assms(1) True unfolding d(3) by linarith
  then have "parse_int (CHR ''-'' # ?d) = Some (- int (nat (- n)))" using parse_int_negative [OF d(1,2)] unfolding d(3) by blast
  then show ?thesis using True by (simp add: format_int_def)
next
  case False
  let ?d = "format_nat (nat n)"
  have d: "?d \<noteq> []" "list_all is_digit ?d" "digits_val ?d = nat n"
    using format_nat_digits [of "nat n"] by blast+
  have "int (nat n) < 2 ^ 63" using assms(2) False by linarith
  then have "nat n < 2 ^ 63" unfolding of_nat_less_numeral_power_cancel_iff .
  then have "parse_int ?d = Some (int (nat n))" unfolding parse_int_digits [OF d(1,2)] d(3) by (rule if_P)
  then show ?thesis using False by (simp add: format_int_def)
qed

section \<open>Hexadecimal\<close>

lemma length_hex [simp]: "length (hex s) = 2 * length s"
  by (induction s) simp_all

lemma hex_char_inject: "m < 16 \<Longrightarrow> n < 16 \<Longrightarrow> hex_char m = hex_char n \<longleftrightarrow> m = n"
proof
  assume mn: "m < 16" "n < 16" "hex_char m = hex_char n"
  have code: "code (hex_char k) = (if k < 10 then 48 + k else 87 + k)" if "k < 16" for k
    using that by (simp add: hex_char_def)
  have "code (hex_char m) = code (hex_char n)" using mn(3) by (rule arg_cong)
  then show "m = n" unfolding code [OF mn(1)] code [OF mn(2)] by (auto split: if_splits)
qed simp

lemma hex_char_lower: "n < 16 \<Longrightarrow> is_hex_lower (hex_char n)"
  by (simp add: hex_char_def is_hex_lower_def is_digit_def)

lemma code_div_16 [simp]: "code c div 16 < 16"
  using code_less_256 [of c] by (intro div_less_iff_less_mult [THEN iffD2]) simp_all

lemma hex_lower: "list_all is_hex_lower (hex s)"
proof (induction s)
  case (Cons c s)
  then show ?case by (simp add: hex_char_lower)
qed simp

lemma hex_inject: "hex s = hex t \<longleftrightarrow> s = t"
proof (induction s arbitrary: t)
  case (Cons c s)
  show ?case
  proof (cases t)
    case t: (Cons d u)
    have "code c div 16 = code d div 16 \<and> code c mod 16 = code d mod 16 \<longleftrightarrow> c = d"
      by (metis code_inject div_mult_mod_eq)
    then show ?thesis using Cons by (auto simp: t hex_char_inject)
  qed simp
next
  case Nil
  show ?case by (cases t) simp_all
qed

end
