(* ===== verification/Git_Objects.thy ===== *)
theory Git_Objects
  imports Go_Text Push
begin

text \<open>
  Git objects as \<open>internal/git/objects.go\<close> and the reader of \<open>internal/git/repository.go\<close> parse them:
  the header lines of \<open>git cat-file\<close>, signatures, commits and trees. The text of an error is a value
  that names it. \<open>time.Time\<close> is the second and the zone it is shown in.
\<close>

section \<open>Data\<close>

datatype object_error =
  NotFound | TooLarge int | InvalidObjectName | UnexpectedHeader string | UnexpectedSize string | ReadObjectFailure
| MalformedSignature string | MalformedDate string | MalformedTimestamp string | MalformedZone string
| AuthorError object_error | CommitterError object_error | MissingTree | MissingModeSeparator | TruncatedEntry
| UnknownMode string | TreeError object_error | ReadHeaderFailure | ChangedSize string | MissingNewline string
| TypeAssertion

record Signature =
  sg_Name :: string
  sg_Email :: string
  sg_Seconds :: int
  sg_Zone :: string
  sg_Offset :: int

record Commit =
  cm_Hash :: string
  cm_Tree :: string
  cm_Parents :: "string list"
  cm_Author :: Signature
  cm_Committer :: Signature
  cm_Message :: string
  cm_Subject :: string
  cm_Body :: string

datatype EntryKind = EntryFile | EntryDir | EntrySymlink | EntrySubmodule

record TreeEntry =
  te_Name :: string
  te_Mode :: string
  te_Kind :: EntryKind
  te_Hash :: string
  te_Executable :: bool

record objectInfo =
  oi_hash :: string
  oi_typ :: ObjectKind
  oi_size :: int

section \<open>Requests and headers\<close>

definition validObjectName :: "string \<Rightarrow> (object_error, unit) result" where
  "validObjectName name =
     (if name = [] \<or> 4096 < length name \<or> list_ex (\<lambda>c. c = CHR 0x0A \<or> c = CHR 0x00) name
      then Inl InvalidObjectName else ok ())"

definition object_type :: "string \<Rightarrow> ObjectKind" where
  "object_type s =
     (if s = ''blob'' then TypeBlob else if s = ''tree'' then TypeTree else if s = ''commit'' then TypeCommit
      else if s = ''tag'' then TypeTag else TypeUnknown s)"

definition type_text :: "ObjectKind \<Rightarrow> string" where
  "type_text k = (case k of TypeBlob \<Rightarrow> ''blob'' | TypeTree \<Rightarrow> ''tree'' | TypeCommit \<Rightarrow> ''commit'' | TypeTag \<Rightarrow> ''tag''
     | TypeUnknown s \<Rightarrow> s)"

text \<open>The line git answers, without its newline.\<close>

definition readHeader :: "string \<Rightarrow> (object_error, objectInfo) result" where
  "readHeader line =
     (if suffix '' missing'' line \<or> suffix '' ambiguous'' line then Inl NotFound
      else case Fields line of
        [h, typ, len] \<Rightarrow>
          (case parse_int len of
             None \<Rightarrow> Inl (UnexpectedSize line)
           | Some n \<Rightarrow> ok \<lparr>oi_hash = h, oi_typ = object_type typ, oi_size = n\<rparr>)
      | _ \<Rightarrow> Inl (UnexpectedHeader line))"

text \<open>
  What the process of a reader answers to a request line is an argument. A header ends at the first
  newline; the content follows it and ends with one of its own. git prints no negative size.
\<close>

definition read_line :: "string \<Rightarrow> (object_error, string \<times> string) result" where
  "read_line out =
     (case cut out [CHR 0x0A] of (line, rest, found) \<Rightarrow> if found then ok (line, rest) else Inl ReadHeaderFailure)"

definition reader_info :: "(string \<Rightarrow> string) \<Rightarrow> string \<Rightarrow> (object_error, objectInfo) result" where
  "reader_info answer name =
     bind_result (validObjectName name) (\<lambda>_.
       bind_result (read_line (answer (''info '' @ name @ [CHR 0x0A]))) (\<lambda>(line, rest). readHeader line))"

definition reader_contents ::
  "(string \<Rightarrow> string) \<Rightarrow> string \<Rightarrow> int \<Rightarrow> (object_error, objectInfo \<times> string) result" where
  "reader_contents answer name max_size =
     bind_result (reader_info answer name) (\<lambda>info.
       if max_size < oi_size info then Inl (TooLarge (oi_size info))
       else bind_result (read_line (answer (''contents '' @ oi_hash info @ [CHR 0x0A]))) (\<lambda>(line, rest).
         bind_result (readHeader line) (\<lambda>header.
           if oi_size header \<noteq> oi_size info then Inl (ChangedSize (oi_hash info))
           else if length rest < nat (oi_size header) + 1 then Inl ReadObjectFailure
           else if rest ! nat (oi_size header) \<noteq> CHR 0x0A then Inl (MissingNewline (oi_hash info))
           else ok (info, take (nat (oi_size header)) rest))))"

section \<open>Signatures\<close>

definition parseTZOffset :: "string \<Rightarrow> (object_error, int) result" where
  "parseTZOffset tz =
     (if length tz \<noteq> 5 \<or> (hd tz \<noteq> CHR ''+'' \<and> hd tz \<noteq> CHR ''-'') then Inl (MalformedZone tz)
      else case (parse_int (take 2 (drop 1 tz)), parse_int (take 2 (drop 3 tz))) of
        (Some hh, Some mm) \<Rightarrow>
          (let offset = hh * 3600 + mm * 60
           in ok (if hd tz = CHR ''-'' then - offset else offset))
      | _ \<Rightarrow> Inl (MalformedZone tz))"

definition parseSignature :: "string \<Rightarrow> (object_error, Signature) result" where
  "parseSignature s =
     (case (last_index_of s '' <'', last_index_of s ''> '') of
        (Some open_at, Some close_at) \<Rightarrow>
          if close_at < open_at then Inl (MalformedSignature s)
          else (case Fields (drop (close_at + 2) s) of
             [secs, tz] \<Rightarrow>
               (case parse_int secs of
                  None \<Rightarrow> Inl (MalformedTimestamp secs)
                | Some n \<Rightarrow>
                    bind_result (parseTZOffset tz) (\<lambda>offset.
                      ok \<lparr>sg_Name = ToValidUTF8 (take open_at s),
                          sg_Email = ToValidUTF8 (take (close_at - (open_at + 2)) (drop (open_at + 2) s)),
                          sg_Seconds = n, sg_Zone = tz, sg_Offset = offset\<rparr>))
           | _ \<Rightarrow> Inl (MalformedDate (drop (close_at + 2) s)))
      | _ \<Rightarrow> Inl (MalformedSignature s))"

text \<open>The slice bounds never cross: no occurrence of the two separators starts within the other.\<close>

lemma last_index_of_prefix: "last_index_of s sub = Some k \<Longrightarrow> k \<le> length s \<and> prefix sub (drop k s)"
  by (induction s arbitrary: k) (auto split: option.splits if_splits)

lemma signature_slice:
  assumes "last_index_of s '' <'' = Some i" and "last_index_of s ''> '' = Some j" and "\<not> j < i"
  shows "i + 2 \<le> j"
proof -
  obtain u where u: "drop i s = CHR '' '' # CHR ''<'' # u"
    using last_index_of_prefix [OF assms(1)] by (auto simp: prefix_def)
  obtain v where v: "drop j s = CHR ''>'' # v" using last_index_of_prefix [OF assms(2)] by (auto simp: prefix_def)
  have "j \<noteq> i" using u v by auto
  moreover have "drop (Suc i) s = CHR ''<'' # u" using u by (metis drop_Suc list.sel(3) tl_drop)
  then have "j \<noteq> Suc i" using v by auto
  ultimately show ?thesis using assms(3) by linarith
qed

section \<open>Commits\<close>

definition empty_signature :: Signature where
  "empty_signature = \<lparr>sg_Name = [], sg_Email = [], sg_Seconds = 0, sg_Zone = [], sg_Offset = 0\<rparr>"

definition new_commit :: "string \<Rightarrow> Commit" where
  "new_commit hash = \<lparr>cm_Hash = hash, cm_Tree = [], cm_Parents = [], cm_Author = empty_signature,
     cm_Committer = empty_signature, cm_Message = [], cm_Subject = [], cm_Body = []\<rparr>"

text \<open>One header: its continuation lines are skipped by the loop.\<close>

definition parse_header :: "string \<Rightarrow> Commit \<Rightarrow> (object_error, Commit) result" where
  "parse_header line c =
     (case cut line '' '' of (key, value, _) \<Rightarrow>
        if key = ''tree'' then ok (c\<lparr>cm_Tree := value\<rparr>)
        else if key = ''parent'' then ok (c\<lparr>cm_Parents := cm_Parents c @ [value]\<rparr>)
        else if key = ''author'' then
          bind_result (map_error AuthorError (parseSignature value)) (\<lambda>sig. ok (c\<lparr>cm_Author := sig\<rparr>))
        else if key = ''committer'' then
          bind_result (map_error CommitterError (parseSignature value)) (\<lambda>sig. ok (c\<lparr>cm_Committer := sig\<rparr>))
        else ok c)"

function parse_headers :: "string list \<Rightarrow> Commit \<Rightarrow> (object_error, Commit) result" where
  "parse_headers [] c = ok c"
| "parse_headers (line # rest) c =
     bind_result (parse_header line c) (\<lambda>c. parse_headers (dropWhile (prefix '' '') rest) c)"
  by pat_completeness auto
termination
  by (relation "measure (length \<circ> fst)") (simp_all add: less_Suc_eq_le length_dropWhile_le)

abbreviation newline :: char where
  "newline \<equiv> CHR 0x0A"

definition parseCommit :: "string \<Rightarrow> string \<Rightarrow> (object_error, Commit) result" where
  "parseCommit hash data =
     (case cut data [newline, newline] of (header, message, _) \<Rightarrow>
       bind_result (parse_headers (split_on newline header) (new_commit hash)) (\<lambda>c.
         if \<not> IsHash (cm_Tree c) then Inl MissingTree
         else let text = ToValidUTF8 message in
           (case cut (trim_right (\<lambda>x. x = newline) text) [newline] of (subject, body, _) \<Rightarrow>
             ok (c\<lparr>cm_Message := text, cm_Subject := trim_space subject, cm_Body := trim (\<lambda>x. x = newline) body\<rparr>))))"

section \<open>Trees\<close>

definition kindForMode :: "string \<Rightarrow> (object_error, EntryKind \<times> bool) result" where
  "kindForMode mode =
     (if mode = ''40000'' \<or> mode = ''040000'' then ok (EntryDir, False)
      else if mode = ''100644'' \<or> mode = ''100664'' then ok (EntryFile, False)
      else if mode = ''100755'' then ok (EntryFile, True)
      else if mode = ''120000'' then ok (EntrySymlink, False)
      else if mode = ''160000'' then ok (EntrySubmodule, False)
      else Inl (UnknownMode mode))"

function parseTree :: "string \<Rightarrow> nat \<Rightarrow> (object_error, TreeEntry list) result" where
  "parseTree data hashLen =
     (if data = [] then ok []
      else case index_of data '' '' of
        None \<Rightarrow> Inl MissingModeSeparator
      | Some space \<Rightarrow>
          (case index_of (drop (space + 1) data) [CHR 0x00] of
             None \<Rightarrow> Inl TruncatedEntry
           | Some nul \<Rightarrow>
               if length (drop (space + 1) data) < nul + 1 + hashLen then Inl TruncatedEntry
               else bind_result (kindForMode (take space data)) (\<lambda>(kind, exec).
                 bind_result (parseTree (drop (nul + 1 + hashLen) (drop (space + 1) data)) hashLen) (\<lambda>entries.
                   ok (\<lparr>te_Name = take nul (drop (space + 1) data), te_Mode = take space data, te_Kind = kind,
                        te_Hash = hex (take hashLen (drop (nul + 1) (drop (space + 1) data))),
                        te_Executable = exec\<rparr> # entries)))))"
  by pat_completeness auto
termination
  by (relation "measure (length \<circ> fst)") auto

declare parseTree.simps [simp del]

end
