(* ===== verification/Git_Cache.thy ===== *)
theory Git_Cache
  imports Git_Objects Transitions
begin

text \<open>
  The object cache of \<open>internal/git/repository.go\<close> and the reads of \<open>internal/git/commits.go\<close> that go
  through it. The list of \<open>container/list\<close> is a list of entries, front first; an element of
  the map \<open>items\<close> is found in it by its key. \<open>oc_panicked\<close> is set where the code would dereference the
  back of an empty list. Costs are at most an eighth of a limit of 64 MiB, so no sum overflows.
\<close>

section \<open>The cache\<close>

record 'v cacheEntry =
  ce_key :: string
  ce_value :: 'v
  ce_cost :: int

record 'v objectCache =
  oc_maxCost :: int
  oc_cost :: int
  oc_order :: "'v cacheEntry list"
  oc_items :: "string \<rightharpoonup> 'v cacheEntry"
  oc_panicked :: bool

definition newObjectCache :: "int \<Rightarrow> 'v objectCache" where
  "newObjectCache maxCost =
     \<lparr>oc_maxCost = maxCost, oc_cost = 0, oc_order = [], oc_items = (\<lambda>_. None), oc_panicked = False\<rparr>"

definition MoveToFront :: "'v cacheEntry \<Rightarrow> 'v cacheEntry list \<Rightarrow> 'v cacheEntry list" where
  "MoveToFront e order = e # filter (\<lambda>x. ce_key x \<noteq> ce_key e) order"

definition cache_get :: "string \<Rightarrow> 'v objectCache \<Rightarrow> 'v option \<times> 'v objectCache" where
  "cache_get key c =
     (case oc_items c key of
        None \<Rightarrow> (None, c)
      | Some e \<Rightarrow> (Some (ce_value e), c\<lparr>oc_order := MoveToFront e (oc_order c)\<rparr>))"

function evict :: "'v objectCache \<Rightarrow> 'v objectCache" where
  "evict c =
     (if oc_cost c \<le> oc_maxCost c then c
      else if oc_order c = [] then c\<lparr>oc_panicked := True\<rparr>
      else let e = last (oc_order c)
           in evict (c\<lparr>oc_order := butlast (oc_order c), oc_items := (oc_items c)(ce_key e := None),
                oc_cost := oc_cost c - ce_cost e\<rparr>))"
  by pat_completeness auto
termination
  by (relation "measure (length \<circ> oc_order)") auto

declare evict.simps [simp del]

definition cache_add :: "string \<Rightarrow> 'v \<Rightarrow> int \<Rightarrow> 'v objectCache \<Rightarrow> 'v objectCache" where
  "cache_add key v cost c =
     (if oc_maxCost c div 8 < cost then c
      else case oc_items c key of
        Some e \<Rightarrow> c\<lparr>oc_order := MoveToFront e (oc_order c)\<rparr>
      | None \<Rightarrow>
          let e = \<lparr>ce_key = key, ce_value = v, ce_cost = cost\<rparr>
          in evict (c\<lparr>oc_order := e # oc_order c, oc_items := (oc_items c)(key \<mapsto> e), oc_cost := oc_cost c + cost\<rparr>))"

section \<open>Reading through the cache\<close>

datatype cached = CachedCommit Commit | CachedTree "TreeEntry list" | CachedBlob string

type_synonym contents_fun = "string \<Rightarrow> int \<Rightarrow> (object_error, objectInfo \<times> string) result"

type_synonym 'a read = "(object_error, 'a) result \<times> cached objectCache"

definition maxCommitBytes :: int where
  "maxCommitBytes = 2 ^ 20"

definition maxTreeBytes :: int where
  "maxTreeBytes = 16 * 2 ^ 20"

definition maxCachedBlob :: nat where
  "maxCachedBlob = 256 * 2 ^ 10"

definition Repo_Commit :: "contents_fun \<Rightarrow> string \<Rightarrow> cached objectCache \<Rightarrow> Commit read" where
  "Repo_Commit contents hash c =
     (if \<not> IsHash hash then (Inl NotFound, c)
      else case cache_get (''commit:'' @ hash) c of
        (Some v, c) \<Rightarrow> ((case v of CachedCommit x \<Rightarrow> ok x | _ \<Rightarrow> Inl TypeAssertion), c)
      | (None, c) \<Rightarrow>
          (case contents hash maxCommitBytes of
             Inl e \<Rightarrow> (Inl e, c)
           | Inr (info, data) \<Rightarrow>
               if oi_typ info \<noteq> TypeCommit then (Inl NotFound, c)
               else (case parseCommit hash data of
                  Inl e \<Rightarrow> (Inl e, c)
                | Inr x \<Rightarrow> (ok x, cache_add (''commit:'' @ hash) (CachedCommit x) (int (length data)) c))))"

definition Repo_Tree :: "contents_fun \<Rightarrow> string \<Rightarrow> cached objectCache \<Rightarrow> TreeEntry list read" where
  "Repo_Tree contents hash c =
     (if \<not> IsHash hash then (Inl NotFound, c)
      else case cache_get (''tree:'' @ hash) c of
        (Some v, c) \<Rightarrow> ((case v of CachedTree x \<Rightarrow> ok x | _ \<Rightarrow> Inl TypeAssertion), c)
      | (None, c) \<Rightarrow>
          (case contents hash maxTreeBytes of
             Inl e \<Rightarrow> (Inl e, c)
           | Inr (info, data) \<Rightarrow>
               if oi_typ info \<noteq> TypeTree then (Inl NotFound, c)
               else (case parseTree data (length hash div 2) of
                  Inl e \<Rightarrow> (Inl (TreeError e), c)
                | Inr x \<Rightarrow> (ok x, cache_add (''tree:'' @ hash) (CachedTree x) (int (length data)) c))))"

definition Repo_Blob :: "contents_fun \<Rightarrow> string \<Rightarrow> int \<Rightarrow> cached objectCache \<Rightarrow> string read" where
  "Repo_Blob contents hash max_size c =
     (if \<not> IsHash hash then (Inl NotFound, c)
      else case cache_get (''blob:'' @ hash) c of
        (Some v, c) \<Rightarrow>
          ((case v of
              CachedBlob data \<Rightarrow>
                if max_size < int (length data) then Inl (TooLarge (int (length data))) else ok data
            | _ \<Rightarrow> Inl TypeAssertion), c)
      | (None, c) \<Rightarrow>
          (case contents hash max_size of
             Inl e \<Rightarrow> (Inl e, c)
           | Inr (info, data) \<Rightarrow>
               if oi_typ info \<noteq> TypeBlob then (Inl NotFound, c)
               else (ok data,
                 if length data \<le> maxCachedBlob
                 then cache_add (''blob:'' @ hash) (CachedBlob data) (int (length data)) c else c)))"

fun entry_loop :: "contents_fun \<Rightarrow> string list \<Rightarrow> TreeEntry \<Rightarrow> cached objectCache \<Rightarrow> TreeEntry read" where
  "entry_loop contents [] current c = (ok current, c)"
| "entry_loop contents (part # parts) current c =
     (if part = [] \<or> part = ''.'' \<or> part = ''..'' then (Inl NotFound, c)
      else if te_Kind current \<noteq> EntryDir then (Inl NotFound, c)
      else case Repo_Tree contents (te_Hash current) c of
        (Inl e, c) \<Rightarrow> (Inl e, c)
      | (Inr entries, c) \<Rightarrow>
          (case find (\<lambda>e. te_Name e = part) entries of
             None \<Rightarrow> (Inl NotFound, c)
           | Some e \<Rightarrow> entry_loop contents parts e c))"

definition root_entry :: "Commit \<Rightarrow> TreeEntry" where
  "root_entry commit =
     \<lparr>te_Name = [], te_Mode = ''40000'', te_Kind = EntryDir, te_Hash = cm_Tree commit, te_Executable = False\<rparr>"

definition Repo_Entry :: "contents_fun \<Rightarrow> string \<Rightarrow> string \<Rightarrow> cached objectCache \<Rightarrow> TreeEntry read" where
  "Repo_Entry contents commitHash path c =
     (case Repo_Commit contents commitHash c of
        (Inl e, c) \<Rightarrow> (Inl e, c)
      | (Inr commit, c) \<Rightarrow>
          (let path = trim (\<lambda>x. x = CHR ''/'') path
           in if path = [] then (ok (root_entry commit), c)
              else entry_loop contents (split_on (CHR ''/'') path) (root_entry commit) c))"

definition FileAt :: "contents_fun \<Rightarrow> string \<Rightarrow> string \<Rightarrow> int \<Rightarrow> cached objectCache \<Rightarrow> string read" where
  "FileAt contents commitHash path max_size c =
     (case Repo_Entry contents commitHash path c of
        (Inl e, c) \<Rightarrow> (Inl e, c)
      | (Inr entry, c) \<Rightarrow>
          if te_Kind entry \<noteq> EntryFile then (Inl NotFound, c) else Repo_Blob contents (te_Hash entry) max_size c)"

end
