(* ===== verification/Git_Object_Facts.thy ===== *)
theory Git_Object_Facts
  imports Git_Objects
begin

text \<open>
  How git writes trees and commits, and that the parsers of \<^theory_text>\<open>Git_Objects\<close> read exactly that back:
  a tree is parsed if and only if it is the encoding of the entries that come out, and a header of
  a commit cannot be forged by the continuation lines of another.
\<close>

section \<open>Trees\<close>

definition hex_val :: "char \<Rightarrow> nat" where
  "hex_val c = (if code c < 58 then code c - 48 else code c - 87)"

fun unhex :: "string \<Rightarrow> string" where
  "unhex (a # b # s) = char_of (16 * hex_val a + hex_val b) # unhex s"
| "unhex s = []"

lemma hex_val_char: "n < 16 \<Longrightarrow> hex_val (hex_char n) = n"
  by (simp add: hex_val_def hex_char_def)

lemma hex_char_val: "is_hex_lower c \<Longrightarrow> hex_char (hex_val c) = c \<and> hex_val c < 16"
  by (auto simp: hex_val_def hex_char_def is_hex_lower_def is_digit_def)

lemma unhex_hex [simp]: "unhex (hex s) = s"
proof (induction s)
  case (Cons c s)
  have "16 * (code c div 16) + code c mod 16 = code c" by simp
  then show ?case using Cons by (simp add: hex_val_char del: mult_div_mod_eq)
qed simp

lemma hex_unhex: "list_all is_hex_lower s \<Longrightarrow> length s = 2 * n \<Longrightarrow> hex (unhex s) = s \<and> length (unhex s) = n"
proof (induction s arbitrary: n rule: unhex.induct)
  case (1 a b s)
  then obtain m where m: "n = Suc m" by (cases n) auto
  have "16 * hex_val a + hex_val b < 256" using 1(2) hex_char_val [of a] hex_char_val [of b] by simp
  then show ?case using 1(1) [of m] 1(2,3) hex_char_val [of a] hex_char_val [of b] m by simp
qed auto

definition encode_entry :: "TreeEntry \<Rightarrow> string" where
  "encode_entry e = te_Mode e @ CHR '' '' # te_Name e @ CHR 0x00 # unhex (te_Hash e)"

definition encode_tree :: "TreeEntry list \<Rightarrow> string" where
  "encode_tree entries = concat (map encode_entry entries)"

definition entry_wf :: "nat \<Rightarrow> TreeEntry \<Rightarrow> bool" where
  "entry_wf hashLen e \<longleftrightarrow>
     kindForMode (te_Mode e) = ok (te_Kind e, te_Executable e) \<and> CHR 0x00 \<notin> set (te_Name e) \<and>
     length (te_Hash e) = 2 * hashLen \<and> list_all is_hex_lower (te_Hash e)"

lemma index_of_char: "c \<notin> set u \<Longrightarrow> index_of (u @ c # v) [c] = Some (length u)"
  by (induction u) auto

lemma index_of_charD:
  assumes "index_of s [c] = Some k"
  shows "s = take k s @ c # drop (Suc k) s \<and> c \<notin> set (take k s)"
  using assms
proof (induction s arbitrary: k)
  case (Cons d s)
  then show ?case by (cases "d = c") (auto split: if_splits)
qed simp

lemma mode_no_space: "kindForMode m = ok x \<Longrightarrow> CHR '' '' \<notin> set m"
  by (auto simp: kindForMode_def split: if_splits)

lemma parseTree_encode:
  "list_all (entry_wf n) entries \<Longrightarrow> parseTree (encode_tree entries) n = ok entries"
proof (induction entries)
  case (Cons e entries)
  have wf: "kindForMode (te_Mode e) = ok (te_Kind e, te_Executable e)" "CHR 0x00 \<notin> set (te_Name e)"
    and raw: "length (unhex (te_Hash e)) = n" "hex (unhex (te_Hash e)) = te_Hash e"
    using Cons.prems hex_unhex [of "te_Hash e" n] by (auto simp: entry_wf_def)
  have data: "encode_tree (e # entries) =
      te_Mode e @ CHR '' '' # te_Name e @ CHR 0x00 # unhex (te_Hash e) @ encode_tree entries"
    by (simp add: encode_tree_def encode_entry_def)
  have "parseTree (encode_tree entries) n = ok entries" using Cons by simp
  then show ?case
    using index_of_char [OF mode_no_space [OF wf(1)]] index_of_char [OF wf(2)] wf(1) raw
    unfolding data by (subst parseTree.simps) simp
qed (simp add: encode_tree_def parseTree.simps)

lemma take_drop_split: "drop m xs = take n (drop m xs) @ drop (m + n) xs"
  by (metis add.commute append_take_drop_id drop_drop)

lemma parseTree_decode:
  "parseTree data n = ok entries \<Longrightarrow> data = encode_tree entries \<and> list_all (entry_wf n) entries"
proof (induction data n arbitrary: entries rule: parseTree.induct)
  case (1 data n)
  show ?case
  proof (cases "data = []")
    case True
    then show ?thesis using 1(2) by (simp add: parseTree.simps encode_tree_def)
  next
    case False
    then obtain sp where sp: "index_of data '' '' = Some sp"
      using 1(2) by (subst (asm) parseTree.simps) (auto split: option.splits)
    let ?d = "drop (sp + 1) data"
    obtain nul where nul: "index_of ?d [CHR 0x00] = Some nul" "nul + 1 + n \<le> length ?d"
      using 1(2) False sp by (subst (asm) parseTree.simps) (auto split: option.splits if_splits)
    obtain kind exec where mode: "kindForMode (take sp data) = ok (kind, exec)"
      using 1(2) False sp nul by (subst (asm) parseTree.simps) (auto simp: bind_result_Inr split: option.splits if_splits)
    let ?rest = "drop (nul + 1 + n) ?d" and ?raw = "take n (drop (nul + 1) ?d)"
    let ?e = "\<lparr>te_Name = take nul ?d, te_Mode = take sp data, te_Kind = kind, te_Hash = hex ?raw, te_Executable = exec\<rparr>"
    obtain es where es: "parseTree ?rest n = ok es" "entries = ?e # es"
      using 1(2) False sp nul mode by (subst (asm) parseTree.simps) (auto simp: bind_result_Inr split: if_splits)
    have IH: "?rest = encode_tree es \<and> list_all (entry_wf n) es"
      using 1(1) [OF False sp nul(1) _ es(1)] nul(2) by simp
    have d: "?d = take nul ?d @ CHR 0x00 # drop (Suc nul) ?d" "CHR 0x00 \<notin> set (take nul ?d)"
      using index_of_charD [OF nul(1)] by blast+
    have "drop (nul + 1) ?d = ?raw @ ?rest" by (rule take_drop_split)
    then have "data = encode_entry ?e @ ?rest"
      using index_of_charD [OF sp] d(1) by (simp add: encode_entry_def)
    moreover have "entry_wf n ?e" using mode d(2) nul(2) by (simp add: entry_wf_def hex_lower)
    ultimately show ?thesis using IH es(2) by (simp add: encode_tree_def)
  qed
qed

text \<open>
  C27: a tree object is parsed exactly if it is the encoding of entries with a known mode, a name
  without NUL and a hash of the expected length, and then parsing yields those entries: no two lists
  of entries have the same encoding, nothing is skipped and nothing is made up.
\<close>

theorem parseTree_exact:
  "parseTree data n = ok entries \<longleftrightarrow> data = encode_tree entries \<and> list_all (entry_wf n) entries"
  using parseTree_encode parseTree_decode by blast

section \<open>Signatures\<close>

lemma contains_append_absent:
  assumes "contains (u @ v) (w @ [c])" and "c \<notin> set v"
  shows "contains u (w @ [c])"
proof -
  obtain a b where "u @ v = a @ (w @ [c]) @ b" using assms(1) by (auto simp: contains_iff)
  then have uv: "u @ v = (a @ w @ [c]) @ b" by simp
  have "length (a @ w @ [c]) \<le> length u"
  proof (rule ccontr)
    let ?k = "length (a @ w)"
    assume "\<not> length (a @ w @ [c]) \<le> length u"
    then have long: "length u \<le> ?k" by simp
    have "?k < length (u @ v)" "(u @ v) ! ?k = c" unfolding uv by (simp_all add: nth_append)
    then have "v ! (?k - length u) = c" "?k - length u < length v" using long by (simp_all add: nth_append)
    then have "c \<in> set v" using nth_mem by blast
    then show False using assms(2) by simp
  qed
  then have "take (length (a @ w @ [c])) u = take (length (a @ w @ [c])) (u @ v)" by simp
  also have "\<dots> = a @ w @ [c]" unfolding uv by simp
  finally have "u = a @ (w @ [c]) @ drop (length (a @ w @ [c])) u" by (metis append_assoc append_take_drop_id)
  then show ?thesis unfolding contains_iff by blast
qed

lemma contains_chars: "contains s sub \<Longrightarrow> set sub \<subseteq> set s"
  by (auto simp: contains_iff)

lemma contains_Cons_skip: "contains (c # s) (d # w) \<Longrightarrow> c \<noteq> d \<Longrightarrow> contains s (d # w)"
  by (auto simp: contains_def split: option.splits)

definition format_signature :: "Signature \<Rightarrow> string" where
  "format_signature sg = sg_Name sg @ '' <'' @ sg_Email sg @ ''> '' @ format_int (sg_Seconds sg) @ '' '' @ sg_Zone sg"

definition signature_wf :: "Signature \<Rightarrow> bool" where
  "signature_wf sg \<longleftrightarrow>
     valid_utf8 (sg_Name sg) \<and> valid_utf8 (sg_Email sg) \<and> \<not> contains (sg_Email sg) '' <'' \<and>
     newline \<notin> set (sg_Name sg) \<and> newline \<notin> set (sg_Email sg) \<and>
     - (2 ^ 63) \<le> sg_Seconds sg \<and> sg_Seconds sg < 2 ^ 63 \<and> parseTZOffset (sg_Zone sg) = ok (sg_Offset sg)"

text \<open>A zone and a number are made of digits and signs.\<close>

definition date_char :: "char \<Rightarrow> bool" where
  "date_char c \<longleftrightarrow> is_digit c \<or> c = CHR ''+'' \<or> c = CHR ''-''"

lemma parse_int_chars: "parse_int s = Some n \<Longrightarrow> list_all date_char s"
proof -
  assume "parse_int s = Some n"
  then have "list_all is_digit (if prefix ''-'' s \<or> prefix ''+'' s then tl s else s)"
    by (auto simp: parse_int_def Let_def split: if_splits)
  then show ?thesis by (cases s) (auto simp: date_char_def list_all_iff split: if_splits)
qed

lemma zone_chars: "parseTZOffset tz = ok n \<Longrightarrow> list_all date_char tz \<and> tz \<noteq> []"
proof -
  assume tz: "parseTZOffset tz = ok n"
  then have hd: "length tz = 5" "date_char (hd tz)"
    by (auto simp: parseTZOffset_def date_char_def split: if_splits)
  obtain hh mm where "parse_int (take 2 (drop 1 tz)) = Some hh" "parse_int (take 2 (drop 3 tz)) = Some mm"
    using tz by (auto simp: parseTZOffset_def split: if_splits option.splits)
  then have rest: "list_all date_char (take 2 (drop 1 tz))" "list_all date_char (take 2 (drop 3 tz))"
    using parse_int_chars by blast+
  obtain a b c d e where "tz = [a, b, c, d, e]" using hd(1) by (auto simp: numeral_eq_Suc length_Suc_conv)
  then show ?thesis using hd rest by simp
qed

lemma format_int_chars: "list_all date_char (format_int n)"
proof -
  have "list_all date_char (format_nat k)" for k
    using format_nat_digits [of k] by (auto simp: list_all_iff date_char_def)
  then show ?thesis by (simp add: format_int_def date_char_def)
qed

lemma date_char_plain: "date_char c \<Longrightarrow> plain c \<and> c \<noteq> CHR ''<'' \<and> c \<noteq> CHR ''>'' \<and> c \<noteq> newline"
  by (auto simp: date_char_def plain_def is_digit_def)

lemma date_words:
  assumes "parseTZOffset tz = ok k"
  shows "word_ok tz" "CHR ''<'' \<notin> set (format_int n @ '' '' @ tz)" "CHR ''>'' \<notin> set (format_int n @ '' '' @ tz)"
    "newline \<notin> set (format_int n @ '' '' @ tz)"
  using zone_chars [OF assms] format_int_chars [of n] date_char_plain by (auto simp: word_ok_def list_all_iff)

lemma parseSignature_format:
  assumes "signature_wf sg"
  shows "parseSignature (format_signature sg) = ok sg"
proof -
  let ?date = "format_int (sg_Seconds sg) @ '' '' @ sg_Zone sg"
  have zone: "parseTZOffset (sg_Zone sg) = ok (sg_Offset sg)" using assms by (simp add: signature_wf_def)
  note date = date_words(1) [OF zone] date_words(2-4) [OF zone, of "sg_Seconds sg"]
  have "\<not> contains (CHR ''<'' # sg_Email sg @ CHR ''>'' # CHR '' '' # ?date) ('' '' @ ''<'')"
  proof
    assume "contains (CHR ''<'' # sg_Email sg @ CHR ''>'' # CHR '' '' # ?date) ('' '' @ ''<'')"
    then have "contains (sg_Email sg @ CHR ''>'' # CHR '' '' # ?date) ('' '' @ ''<'')"
      using contains_Cons_skip by fastforce
    then have "contains (sg_Email sg) ('' '' @ ''<'')"
      by (rule contains_append_absent) (use date(2) in auto)
    then show False using assms by (simp add: signature_wf_def)
  qed
  then have opens: "last_index_of (sg_Name sg @ '' <'' @ sg_Email sg @ ''> '' @ ?date) '' <'' = Some (length (sg_Name sg))"
    by (intro last_index_of_append) simp_all
  have "\<not> contains (CHR '' '' # ?date) (CHR ''>'' # '' '')"
  proof
    assume "contains (CHR '' '' # ?date) (CHR ''>'' # '' '')"
    then have "CHR ''>'' \<in> set (CHR '' '' # ?date)" using contains_chars by fastforce
    then show False using date(3) by auto
  qed
  then have closes: "last_index_of ((sg_Name sg @ '' <'' @ sg_Email sg) @ ''> '' @ ?date) ''> '' =
      Some (length (sg_Name sg @ '' <'' @ sg_Email sg))"
    by (intro last_index_of_append) simp_all
  have words: "Fields ?date = [format_int (sg_Seconds sg), sg_Zone sg]"
    using Fields_words [OF format_int_word [of "sg_Seconds sg"]] Fields_word [OF date(1)] by simp
  have secs: "parse_int (format_int (sg_Seconds sg)) = Some (sg_Seconds sg)"
    using assms by (intro parse_format_int) (simp_all add: signature_wf_def)
  define s i j where "s = format_signature sg" and "i = length (sg_Name sg)"
    and "j = length (sg_Name sg @ '' <'' @ sg_Email sg)"
  note defs = s_def i_def j_def format_signature_def
  have found: "last_index_of s '' <'' = Some i" "last_index_of s ''> '' = Some j"
    using opens closes by (simp_all add: defs)
  have slices: "take i s = sg_Name sg" "take (j - (i + 2)) (drop (i + 2) s) = sg_Email sg"
    "drop (j + 2) s = ?date" "\<not> j < i" by (simp_all add: defs numeral_eq_Suc)
  have "parseSignature s = ok sg"
    unfolding parseSignature_def found prod.case option.case if_not_P [OF slices(4)] slices(1-3) words list.case secs zone
    using assms by (simp add: signature_wf_def)
  then show ?thesis by (simp add: s_def)
qed

section \<open>Commits\<close>

text \<open>
  A commit as git writes it: the tree, the parents, the author and the committer, then headers
  Gitman does not read, each with its continuation lines (a signature or a merged tag), then the
  message, of which the subject is the first line.
\<close>

definition commit_lines :: "Commit \<Rightarrow> string list" where
  "commit_lines c =
     (''tree '' @ cm_Tree c) # map (\<lambda>p. ''parent '' @ p) (cm_Parents c) @
     [''author '' @ format_signature (cm_Author c), ''committer '' @ format_signature (cm_Committer c)]"

definition extra_lines :: "(string \<times> string list) list \<Rightarrow> string list" where
  "extra_lines extras = concat (map (\<lambda>(line, conts). line # map (Cons (CHR '' '')) conts) extras)"

definition format_commit :: "Commit \<Rightarrow> (string \<times> string list) list \<Rightarrow> string" where
  "format_commit c extras =
     join_with [newline] (commit_lines c @ extra_lines extras) @ [newline, newline] @ cm_Message c"

definition extra_ok :: "string \<times> string list \<Rightarrow> bool" where
  "extra_ok x \<longleftrightarrow>
     (case x of (line, conts) \<Rightarrow>
        line \<noteq> [] \<and> hd line \<noteq> CHR '' '' \<and> newline \<notin> set line \<and> list_all (\<lambda>l. newline \<notin> set l) conts \<and>
        fst (cut line '' '') \<notin> set [''tree'', ''parent'', ''author'', ''committer''])"

definition commit_wf :: "Commit \<Rightarrow> bool" where
  "commit_wf c \<longleftrightarrow>
     IsHash (cm_Tree c) \<and> list_all IsHash (cm_Parents c) \<and> signature_wf (cm_Author c) \<and> signature_wf (cm_Committer c) \<and>
     newline \<notin> set (cm_Subject c) \<and> trim_space (cm_Subject c) = cm_Subject c \<and> cm_Subject c \<noteq> [] \<and>
     (cm_Body c \<noteq> [] \<longrightarrow> hd (cm_Body c) \<noteq> newline \<and> last (cm_Body c) \<noteq> newline) \<and>
     cm_Message c = cm_Subject c @ (if cm_Body c = [] then [newline] else newline # newline # cm_Body c @ [newline]) \<and>
     valid_utf8 (cm_Message c)"

definition line_ok :: "string \<Rightarrow> bool" where
  "line_ok l \<longleftrightarrow> l \<noteq> [] \<and> newline \<notin> set l"

text \<open>The blank line that ends the headers is the first one.\<close>

lemma no_blank_line_one:
  assumes "line_ok p" and "j < length p"
  shows "\<not> prefix (newline # w) (drop j (p @ v))"
proof -
  have "p ! j \<noteq> newline" using assms nth_mem by (metis line_ok_def)
  moreover have "drop j (p @ v) = p ! j # drop (Suc j) (p @ v)"
    using assms(2) Cons_nth_drop_Suc [OF assms(2)] by (simp add: nth_append)
  ultimately show ?thesis by simp
qed

lemma join_more: "ls \<noteq> [] \<Longrightarrow> join_with sep (p # ls) = p @ sep @ join_with sep ls"
  by (cases ls) simp_all

lemma join_lines_head:
  assumes "list_all line_ok ls" and "ls \<noteq> []"
  shows "join_with [newline] ls \<noteq> [] \<and> hd (join_with [newline] ls) \<noteq> newline"
proof -
  obtain p qs where ls: "ls = p # qs" "line_ok p" using assms by (cases ls) auto
  then obtain c w where "p = c # w" "c \<noteq> newline" by (cases p) (auto simp: line_ok_def)
  then show ?thesis using ls(1) by (cases qs) simp_all
qed

lemma no_blank_line:
  assumes "list_all line_ok ls" and "ls \<noteq> []"
  shows "\<forall>j < length (join_with [newline] ls).
    \<not> prefix [newline, newline] (drop j (join_with [newline] ls @ [newline, newline] @ v))"
  using assms
proof (induction ls)
  case (Cons p ls)
  show ?case
  proof (cases "ls = []")
    case True
    then show ?thesis using Cons.prems(1) no_blank_line_one [of p] by simp
  next
    case False
    let ?t = "join_with [newline] ls"
    have join: "join_with [newline] (p # ls) = p @ newline # ?t" using False by (simp add: join_more)
    have IH: "\<forall>j < length ?t. \<not> prefix [newline, newline] (drop j (?t @ [newline, newline] @ v))"
      using Cons False by simp
    have t: "?t \<noteq> []" "hd ?t \<noteq> newline" using join_lines_head [of ls] Cons.prems(1) False by simp_all
    show ?thesis unfolding join
    proof (intro allI impI)
      fix j assume j: "j < length (p @ newline # ?t)"
      then have "j < length p \<or> j = length p \<or> (\<exists>k. j = length p + 1 + k \<and> k < length ?t)"
        by (cases "j \<le> length p") (auto intro!: exI [of _ "j - length p - 1"])
      then consider "j < length p" | "j = length p" | k where "j = length p + 1 + k" "k < length ?t" by blast
      then show "\<not> prefix [newline, newline] (drop j ((p @ newline # ?t) @ [newline, newline] @ v))"
      proof cases
        case 1
        then show ?thesis using no_blank_line_one [of p j] Cons.prems(1) by simp
      next
        case 2
        then show ?thesis using t by (cases ?t) auto
      next
        case 3
        then show ?thesis using IH by simp
      qed
    qed
  qed
qed simp

lemma split_join: "list_all (\<lambda>l. c \<notin> set l) ls \<Longrightarrow> ls \<noteq> [] \<Longrightarrow> split_on c (join_with [c] ls) = ls"
proof (induction ls)
  case (Cons p ls)
  then show ?case
    using split_on_append_sep [of c p "join_with [c] ls"] by (cases "ls = []") (simp_all add: split_on_no_sep join_more)
qed simp

lemma parse_header_simps:
  "parse_header (''tree '' @ v) c = ok (c\<lparr>cm_Tree := v\<rparr>)"
  "parse_header (''parent '' @ v) c = ok (c\<lparr>cm_Parents := cm_Parents c @ [v]\<rparr>)"
  "parse_header (''author '' @ v) c =
     bind_result (map_error AuthorError (parseSignature v)) (\<lambda>sig. ok (c\<lparr>cm_Author := sig\<rparr>))"
  "parse_header (''committer '' @ v) c =
     bind_result (map_error CommitterError (parseSignature v)) (\<lambda>sig. ok (c\<lparr>cm_Committer := sig\<rparr>))"
  using cut_char [of "CHR '' ''" "''tree''" v] cut_char [of "CHR '' ''" "''parent''" v]
    cut_char [of "CHR '' ''" "''author''" v] cut_char [of "CHR '' ''" "''committer''" v]
  by (simp_all add: parse_header_def)

lemma parse_parents:
  "parse_headers (map (\<lambda>p. ''parent '' @ p) ps @ ls) c =
     parse_headers ls (c\<lparr>cm_Parents := cm_Parents c @ ps\<rparr>)" if "\<not> prefix '' '' (hd (ls @ [''x'']))"
proof (induction ps arbitrary: c)
  case (Cons p ps)
  have "dropWhile (prefix '' '') (map (\<lambda>p. ''parent '' @ p) ps @ ls) = map (\<lambda>p. ''parent '' @ p) ps @ ls"
    using that by (cases ps; cases ls) simp_all
  then show ?case using Cons [of "c\<lparr>cm_Parents := cm_Parents c @ [p]\<rparr>"] by (simp add: parse_header_simps(2) [simplified])
qed simp

lemma extra_lines_Cons: "extra_lines ((line, conts) # extras) = line # map (Cons (CHR '' '')) conts @ extra_lines extras"
  by (simp add: extra_lines_def)

lemma parse_extras: "list_all extra_ok extras \<Longrightarrow> parse_headers (extra_lines extras) c = ok c"
proof (induction extras)
  case (Cons x extras)
  obtain line conts where x: "x = (line, conts)" by (cases x)
  have "dropWhile (prefix '' '') (extra_lines extras) = extra_lines extras"
  proof (cases extras)
    case (Cons y ys)
    obtain l ms where y: "y = (l, ms)" by (cases y)
    then have "l \<noteq> []" "hd l \<noteq> CHR '' ''" using Cons Cons.prems by (simp_all add: extra_ok_def)
    then show ?thesis unfolding Cons y extra_lines_Cons by (cases l) simp_all
  qed (simp add: extra_lines_def)
  then have "dropWhile (prefix '' '') (map (Cons (CHR '' '')) conts @ extra_lines extras) = extra_lines extras"
    by (induction conts) simp_all
  moreover obtain k v b where k: "cut line '' '' = (k, v, b)" by (cases "cut line '' ''")
  have "extra_ok (line, conts)" using Cons.prems by (simp add: x)
  then have "k \<notin> set [''tree'', ''parent'', ''author'', ''committer'']" unfolding extra_ok_def by (simp add: k)
  then have "parse_header line c = ok c" by (simp add: parse_header_def k)
  ultimately show ?case using Cons by (simp add: x extra_lines_Cons)
qed (simp add: extra_lines_def)

lemma hash_line: "IsHash h \<Longrightarrow> newline \<notin> set h"
  unfolding IsHash_def list_all_iff using date_char_plain by (auto simp: is_hex_lower_def is_digit_def)

lemma signature_line:
  assumes "signature_wf sg"
  shows "newline \<notin> set (format_signature sg)"
proof -
  have zone: "parseTZOffset (sg_Zone sg) = ok (sg_Offset sg)" using assms by (simp add: signature_wf_def)
  show ?thesis using assms date_words(4) [OF zone, of "sg_Seconds sg"] by (simp add: format_signature_def signature_wf_def)
qed

lemma extra_line_ok: "list_all extra_ok extras \<Longrightarrow> list_all line_ok (extra_lines extras)"
proof (induction extras)
  case (Cons x extras)
  obtain line conts where x: "x = (line, conts)" by (cases x)
  have "extra_ok (line, conts)" using Cons.prems by (simp add: x)
  then have "line_ok line" "list_all (\<lambda>l. newline \<notin> set l) conts" unfolding extra_ok_def line_ok_def by simp_all
  moreover from this(2) have "list_all line_ok (map (Cons (CHR '' '')) conts)" by (induction conts) (simp_all add: line_ok_def)
  ultimately show ?case using Cons by (simp add: x extra_lines_Cons)
qed (simp add: extra_lines_def)

lemma commit_lines_ok:
  assumes "commit_wf c"
  shows "list_all line_ok (commit_lines c)"
proof -
  have wf: "IsHash (cm_Tree c)" "list_all IsHash (cm_Parents c)" "signature_wf (cm_Author c)" "signature_wf (cm_Committer c)"
    using assms unfolding commit_wf_def by blast+
  have "list_all line_ok (map (\<lambda>p. ''parent '' @ p) ps)" if "list_all IsHash ps" for ps
    using that by (induction ps) (simp_all add: line_ok_def hash_line)
  then show ?thesis
    using wf by (simp add: commit_lines_def line_ok_def hash_line signature_line)
qed

lemma parse_commit_lines:
  assumes wf: "commit_wf c" and extras: "list_all extra_ok extras"
  shows "parse_headers (commit_lines c @ extra_lines extras) (new_commit (cm_Hash c)) =
    ok ((new_commit (cm_Hash c))\<lparr>cm_Tree := cm_Tree c, cm_Parents := cm_Parents c, cm_Author := cm_Author c,
      cm_Committer := cm_Committer c\<rparr>)"
proof -
  let ?rest = "[''author '' @ format_signature (cm_Author c), ''committer '' @ format_signature (cm_Committer c)] @ extra_lines extras"
  have sigs: "parseSignature (format_signature (cm_Author c)) = ok (cm_Author c)"
    "parseSignature (format_signature (cm_Committer c)) = ok (cm_Committer c)"
    using wf unfolding commit_wf_def by (blast intro: parseSignature_format)+
  have drop: "dropWhile (prefix '' '') (map (\<lambda>p. ''parent '' @ p) ps @ ?rest) = map (\<lambda>p. ''parent '' @ p) ps @ ?rest" for ps
    by (cases ps) simp_all
  have extra: "dropWhile (prefix '' '') (extra_lines extras) = extra_lines extras"
    using extras by (cases extras) (auto simp: extra_lines_def extra_ok_def neq_Nil_conv)
  have "parse_headers (commit_lines c @ extra_lines extras) (new_commit (cm_Hash c)) =
      parse_headers (map (\<lambda>p. ''parent '' @ p) (cm_Parents c) @ ?rest) ((new_commit (cm_Hash c))\<lparr>cm_Tree := cm_Tree c\<rparr>)"
    using drop [of "cm_Parents c"] by (simp add: commit_lines_def parse_header_simps(1) [simplified])
  also have "\<dots> = parse_headers ?rest ((new_commit (cm_Hash c))\<lparr>cm_Tree := cm_Tree c, cm_Parents := cm_Parents c\<rparr>)"
    by (subst parse_parents) (simp_all add: new_commit_def)
  also have "\<dots> = ok ((new_commit (cm_Hash c))\<lparr>cm_Tree := cm_Tree c, cm_Parents := cm_Parents c,
      cm_Author := cm_Author c, cm_Committer := cm_Committer c\<rparr>)"
    using sigs extra parse_extras [OF extras] by (simp add: parse_header_simps(3,4) [simplified])
  finally show ?thesis .
qed

lemma trim_newlines:
  assumes "s \<noteq> []" and "last s \<noteq> newline"
  shows "trim_right (\<lambda>x. x = newline) (s @ [newline]) = s" "trim_right (\<lambda>x. x = newline) s = s"
  using assms by (cases s rule: rev_cases; simp add: trim_right_def)+

lemma message_parts:
  assumes "commit_wf c"
  shows "(case cut (trim_right (\<lambda>x. x = newline) (cm_Message c)) [newline] of (subject, body, _) \<Rightarrow>
      (trim_space subject, trim (\<lambda>x. x = newline) body)) = (cm_Subject c, cm_Body c)"
proof -
  have s: "newline \<notin> set (cm_Subject c)" "cm_Subject c \<noteq> []" "trim_space (cm_Subject c) = cm_Subject c"
    using assms by (simp_all add: commit_wf_def)
  then have last: "last (cm_Subject c) \<noteq> newline" by (metis last_in_set)
  show ?thesis
  proof (cases "cm_Body c = []")
    case True
    then have "trim_right (\<lambda>x. x = newline) (cm_Message c) = cm_Subject c"
      using assms trim_newlines(1) [OF s(2) last] by (simp add: commit_wf_def)
    then show ?thesis using s True by (simp add: cut_absent trim_def trim_left_def trim_right_def)
  next
    case False
    have ends: "hd (cm_Body c) \<noteq> newline" "last (cm_Body c) \<noteq> newline" using assms False by (simp_all add: commit_wf_def)
    have "trim_right (\<lambda>x. x = newline) (cm_Message c) = cm_Subject c @ newline # newline # cm_Body c"
      using assms False ends trim_newlines(1) [of "cm_Subject c @ newline # newline # cm_Body c"] by (simp add: commit_wf_def)
    moreover have "trim (\<lambda>x. x = newline) (newline # cm_Body c) = cm_Body c"
      using False ends trim_newlines(2) [of "cm_Body c"] by (cases "cm_Body c") (simp_all add: trim_def trim_left_def)
    ultimately show ?thesis using s by (simp add: cut_char)
  qed
qed

text \<open>
  C26: \<open>parseCommit\<close> reads back the commit git wrote, whatever other headers it carries: the tree, the
  parents in order, author, committer, message, subject and body. In particular no continuation line
  of a signature or of a merged tag, whatever it says, is taken for a header.
\<close>

theorem parseCommit_reads_back:
  assumes "commit_wf c" and "list_all extra_ok extras"
  shows "parseCommit (cm_Hash c) (format_commit c extras) = ok c"
proof -
  let ?ls = "commit_lines c @ extra_lines extras"
  have lines: "list_all line_ok ?ls" "?ls \<noteq> []"
    using commit_lines_ok [OF assms(1)] extra_line_ok [OF assms(2)] by (simp_all add: commit_lines_def)
  have "index_of (join_with [newline] ?ls @ [newline, newline] @ cm_Message c) [newline, newline] =
      Some (length (join_with [newline] ?ls))"
    by (rule index_of_append [OF no_blank_line [OF lines]])
  then have cut: "cut (format_commit c extras) [newline, newline] = (join_with [newline] ?ls, cm_Message c, True)"
    by (simp add: cut_def format_commit_def)
  have split: "split_on newline (join_with [newline] ?ls) = ?ls"
    by (rule split_join) (use lines in \<open>auto simp: list_all_iff line_ok_def\<close>)
  have hash: "IsHash (cm_Tree c)" "valid_utf8 (cm_Message c)" using assms(1) unfolding commit_wf_def by blast+
  obtain subject body b where m: "cut (trim_right (\<lambda>x. x = newline) (cm_Message c)) [newline] = (subject, body, b)"
    by (cases "cut (trim_right (\<lambda>x. x = newline) (cm_Message c)) [newline]")
  have parts: "trim_space subject = cm_Subject c" "trim (\<lambda>x. x = newline) body = cm_Body c"
    using message_parts [OF assms(1)] by (simp_all add: m)
  show ?thesis
    unfolding parseCommit_def cut prod.case split parse_commit_lines [OF assms] bind_result.simps Let_def ToValidUTF8_ok [OF hash(2)] m parts
    using hash(1) by (simp add: new_commit_def)
qed

definition sample_commit :: Commit where
  "sample_commit =
     \<lparr>cm_Hash = replicate 40 (CHR ''a''), cm_Tree = replicate 40 (CHR ''b''), cm_Parents = [replicate 40 (CHR ''c'')],
      cm_Author = \<lparr>sg_Name = ''Ada'', sg_Email = ''ada@x'', sg_Seconds = 1695500000, sg_Zone = ''+0330'', sg_Offset = 12600\<rparr>,
      cm_Committer = \<lparr>sg_Name = ''Bob <b'', sg_Email = [], sg_Seconds = -5, sg_Zone = ''-0100'', sg_Offset = -3600\<rparr>,
      cm_Message = ''Fix it'' @ [newline, newline] @ ''Why'' @ [newline], cm_Subject = ''Fix it'', cm_Body = ''Why''\<rparr>"

definition sample_extras :: "(string \<times> string list) list" where
  "sample_extras = [(''gpgsig -----BEGIN'', [''tree forged'', ''parent forged'', ''-----END''])]"

lemma sample_zones:
  "parseTZOffset ''+0330'' = ok 12600" "parseTZOffset ''-0100'' = ok (-3600)"
  by (simp_all add: parseTZOffset_def parse_int_def Let_def is_digit_def numeral_eq_Suc)

lemma sample_signatures: "signature_wf (cm_Author sample_commit)" "signature_wf (cm_Committer sample_commit)"
  by (simp_all add: signature_wf_def sample_commit_def sample_zones valid_utf8_ascii contains_def)

lemma sample_wf: "commit_wf sample_commit"
proof -
  have "list_all is_hex_lower (replicate n (CHR ''b''))" "list_all is_hex_lower (replicate n (CHR ''c''))" for n
    by (simp_all add: list_all_iff is_hex_lower_def)
  moreover have "trim_space ''Fix it'' = ''Fix it''" by code_simp
  ultimately show ?thesis unfolding commit_wf_def using sample_signatures
    by (simp add: sample_commit_def valid_utf8_ascii IsHash_def)
qed

lemma parseCommit_reads_back_witness:
  "parseCommit (replicate 40 (CHR ''a'')) (format_commit sample_commit sample_extras) = ok sample_commit"
proof -
  have "list_all extra_ok sample_extras" by code_simp
  from parseCommit_reads_back [OF sample_wf this] show ?thesis by (simp add: sample_commit_def)
qed

end
