(* ===== verification/Git_Cache_Properties.thy ===== *)
theory Git_Cache_Properties
  imports Git_Cache Git_Object_Facts
begin

text \<open>
  The object cache is a least-recently-used cache within its budget, and reading through it gives
  what the object database holds, whatever was read before and in whatever order.
\<close>

section \<open>The reference cache\<close>

text \<open>
  A list of entries, most recently used first, cut to the longest prefix within the budget after
  each insertion.
\<close>

fun fit :: "int \<Rightarrow> 'v cacheEntry list \<Rightarrow> 'v cacheEntry list" where
  "fit budget [] = []"
| "fit budget (e # es) = (if ce_cost e \<le> budget then e # fit (budget - ce_cost e) es else [])"

definition entry_of :: "string \<Rightarrow> 'v cacheEntry list \<Rightarrow> 'v cacheEntry option" where
  "entry_of key es = find (\<lambda>e. ce_key e = key) es"

definition total_cost :: "'v cacheEntry list \<Rightarrow> int" where
  "total_cost es = sum_list (map ce_cost es)"

datatype 'v cache_op = GetOp string | AddOp string 'v int

fun lru_exec :: "int \<Rightarrow> 'v cache_op \<Rightarrow> 'v cacheEntry list \<Rightarrow> 'v cacheEntry list" where
  "lru_exec budget (GetOp key) es = (case entry_of key es of None \<Rightarrow> es | Some e \<Rightarrow> MoveToFront e es)"
| "lru_exec budget (AddOp key v cost) es =
     (if budget div 8 < cost then es
      else case entry_of key es of
        Some e \<Rightarrow> MoveToFront e es
      | None \<Rightarrow> fit budget (\<lparr>ce_key = key, ce_value = v, ce_cost = cost\<rparr> # es))"

definition costs_ok :: "'v cacheEntry list \<Rightarrow> bool" where
  "costs_ok es \<longleftrightarrow> list_all (\<lambda>e. 0 \<le> ce_cost e) es"

lemma total_cost_simps [simp]: "total_cost [] = 0" "total_cost (e # es) = ce_cost e + total_cost es" "total_cost (es @ fs) = total_cost es + total_cost fs"
  by (simp_all add: total_cost_def)

lemma total_cost_nonneg: "costs_ok es \<Longrightarrow> 0 \<le> total_cost es"
  by (induction es) (simp_all add: costs_ok_def)

lemma fit_within: "0 \<le> b \<Longrightarrow> total_cost (fit b es) \<le> b"
proof (induction es arbitrary: b)
  case (Cons e es)
  show ?case
  proof (cases "ce_cost e \<le> b")
    case True
    then have "total_cost (fit (b - ce_cost e) es) \<le> b - ce_cost e" by (intro Cons.IH) simp
    then show ?thesis using True by simp
  qed (use Cons.prems in simp)
qed simp

lemma fit_prefix: "prefix (fit b es) es"
  by (induction es arbitrary: b) simp_all

lemma fit_longest: "prefix p es \<Longrightarrow> costs_ok es \<Longrightarrow> total_cost p \<le> b \<Longrightarrow> prefix p (fit b es)"
proof (induction es arbitrary: p b)
  case (Cons e es)
  show ?case
  proof (cases p)
    case p: (Cons x q)
    then have q: "x = e" "prefix q es" using Cons.prems(1) by simp_all
    have "costs_ok q" using Cons.prems(2) q(2) by (auto simp: costs_ok_def list_all_iff dest: set_mono_prefix)
    then have "ce_cost e \<le> b" using Cons.prems(3) total_cost_nonneg [of q] by (simp add: p q(1))
    then show ?thesis using Cons.IH [of q "b - ce_cost e"] Cons.prems by (simp add: p q costs_ok_def)
  qed simp
qed simp

lemma fit_all: "costs_ok es \<Longrightarrow> total_cost es \<le> b \<Longrightarrow> fit b es = es"
  using fit_longest [of es es b] fit_prefix [of b es] prefix_order.antisym by blast

lemma fit_last:
  assumes "costs_ok (es @ [e])" and "b < total_cost (es @ [e])"
  shows "fit b (es @ [e]) = fit b es"
  using assms
proof (induction es arbitrary: b)
  case (Cons x es)
  then show ?case using Cons.IH [of "b - ce_cost x"] by (simp add: costs_ok_def)
qed simp

section \<open>The cache refines it\<close>

definition keyed :: "'v objectCache \<Rightarrow> bool" where
  "keyed c \<longleftrightarrow>
     \<not> oc_panicked c \<and> distinct (map ce_key (oc_order c)) \<and> (\<forall>k. oc_items c k = entry_of k (oc_order c)) \<and>
     costs_ok (oc_order c) \<and> oc_cost c = total_cost (oc_order c) \<and> 0 \<le> oc_maxCost c"

definition cache_inv :: "'v objectCache \<Rightarrow> bool" where
  "cache_inv c \<longleftrightarrow> keyed c \<and> oc_cost c \<le> oc_maxCost c"

lemma entry_of_Some: "entry_of k es = Some e \<Longrightarrow> e \<in> set es \<and> ce_key e = k"
  by (auto simp: entry_of_def find_Some_iff)

lemma entry_of_unique: "distinct (map ce_key es) \<Longrightarrow> e \<in> set es \<Longrightarrow> entry_of (ce_key e) es = Some e"
  by (induction es) (auto simp: entry_of_def)

lemma entry_of_None: "entry_of k es = None \<longleftrightarrow> k \<notin> ce_key ` set es"
  by (auto simp: entry_of_def find_None_iff)

lemma entry_of_snoc:
  assumes "distinct (map ce_key (es @ [e]))"
  shows "(if k = ce_key e then None else entry_of k (es @ [e])) = entry_of k es"
proof (cases "k = ce_key e")
  case True
  then have "k \<notin> ce_key ` set es" using assms by auto
  then show ?thesis using True by (simp flip: entry_of_None)
next
  case False
  then show ?thesis by (induction es) (simp_all add: entry_of_def)
qed

lemma evict_fit:
  assumes "keyed c"
  shows "keyed (evict c) \<and> oc_order (evict c) = fit (oc_maxCost c) (oc_order c) \<and> oc_maxCost (evict c) = oc_maxCost c \<and>
    oc_cost (evict c) \<le> oc_maxCost c"
  using assms
proof (induction c rule: evict.induct)
  case (1 c)
  show ?case
  proof (cases "oc_cost c \<le> oc_maxCost c")
    case True
    then have "evict c = c" by (simp add: evict.simps)
    then show ?thesis using 1(2) True by (simp add: keyed_def fit_all)
  next
    case False
    then have "oc_order c \<noteq> []" using 1(2) by (auto simp: keyed_def)
    then obtain es e where order: "oc_order c = es @ [e]" by (metis append_butlast_last_id)
    let ?c = "c\<lparr>oc_order := es, oc_items := (oc_items c)(ce_key e := None), oc_cost := oc_cost c - ce_cost e\<rparr>"
    have step: "evict c = evict ?c" using False order by (simp add: evict.simps [of c])
    have k: "distinct (map ce_key (es @ [e]))" "costs_ok (es @ [e])" "oc_cost c = total_cost (es @ [e])"
      "\<And>k. oc_items c k = entry_of k (es @ [e])" "\<not> oc_panicked c" "0 \<le> oc_maxCost c"
      using 1(2) by (simp_all add: keyed_def order)
    have "((oc_items c)(ce_key e := None)) k = entry_of k es" for k
      unfolding fun_upd_apply k(4) by (rule entry_of_snoc [OF k(1)])
    then have "keyed ?c" using k by (simp add: keyed_def costs_ok_def)
    moreover have "fit (oc_maxCost c) (es @ [e]) = fit (oc_maxCost c) es" using k(2,3) False by (intro fit_last) simp_all
    ultimately show ?thesis using 1(1) [OF False] order step by simp
  qed
qed

lemma MoveToFront_set: "distinct (map ce_key es) \<Longrightarrow> e \<in> set es \<Longrightarrow> set (MoveToFront e es) = set es"
  by (auto simp: MoveToFront_def distinct_map inj_on_def)

lemma MoveToFront_inv:
  assumes "distinct (map ce_key es)" and "e \<in> set es" and "costs_ok es"
  shows "distinct (map ce_key (MoveToFront e es))" "costs_ok (MoveToFront e es)" "total_cost (MoveToFront e es) = total_cost es"
    "entry_of k (MoveToFront e es) = entry_of k es"
proof -
  obtain us vs where es: "es = us @ e # vs" using split_list [OF assms(2)] by blast
  have "ce_key e \<notin> ce_key ` set us" "ce_key e \<notin> ce_key ` set vs" using assms(1) unfolding es by auto
  then have "filter (\<lambda>x. ce_key x \<noteq> ce_key e) us = us" "filter (\<lambda>x. ce_key x \<noteq> ce_key e) vs = vs"
    by (auto simp: filter_id_conv intro: rev_image_eqI)
  then have front: "MoveToFront e es = e # us @ vs" by (simp add: MoveToFront_def es)
  show d: "distinct (map ce_key (MoveToFront e es))" unfolding front using assms(1) by (auto simp: es)
  show "costs_ok (MoveToFront e es)" unfolding front using assms(3) by (simp add: costs_ok_def es)
  show "total_cost (MoveToFront e es) = total_cost es" unfolding front by (simp add: es)
  show "entry_of k (MoveToFront e es) = entry_of k es"
  proof (cases "entry_of k es")
    case None
    then have "k \<notin> ce_key ` set es" by (simp add: entry_of_None)
    then have "k \<notin> ce_key ` set (MoveToFront e es)"
      unfolding MoveToFront_set [OF assms(1,2)] .
    then have "entry_of k (MoveToFront e es) = None" by (simp add: entry_of_None)
    then show ?thesis by (simp add: None)
  next
    case (Some x)
    then have "x \<in> set (MoveToFront e es)" "ce_key x = k" using MoveToFront_set [OF assms(1,2)] entry_of_Some by blast+
    then show ?thesis using Some entry_of_unique [OF d, of x] by simp
  qed
qed

definition cache_exec :: "'v cache_op \<Rightarrow> 'v objectCache \<Rightarrow> 'v objectCache" where
  "cache_exec op c = (case op of GetOp key \<Rightarrow> snd (cache_get key c) | AddOp key v cost \<Rightarrow> cache_add key v cost c)"

fun cost_allowed :: "'v cache_op \<Rightarrow> 'v objectCache \<Rightarrow> bool" where
  "cost_allowed (GetOp key) c = True"
| "cost_allowed (AddOp key v cost) c = (0 \<le> cost)"

lemma keyed_move:
  assumes "keyed c" and "oc_items c key = Some e"
  shows "keyed (c\<lparr>oc_order := MoveToFront e (oc_order c)\<rparr>)"
proof -
  have e: "e \<in> set (oc_order c)" using assms entry_of_Some by (metis keyed_def)
  then show ?thesis using assms MoveToFront_inv [of "oc_order c" e] by (simp add: keyed_def)
qed

lemma cache_add_new:
  assumes "keyed c" and "oc_items c key = None" and "0 \<le> cost"
  shows "keyed (c\<lparr>oc_order := \<lparr>ce_key = key, ce_value = v, ce_cost = cost\<rparr> # oc_order c,
    oc_items := (oc_items c)(key \<mapsto> \<lparr>ce_key = key, ce_value = v, ce_cost = cost\<rparr>), oc_cost := oc_cost c + cost\<rparr>)"
proof -
  have "entry_of key (oc_order c) = None" using assms(1,2) by (metis keyed_def)
  then have "key \<notin> ce_key ` set (oc_order c)" by (simp add: entry_of_None)
  then show ?thesis using assms by (simp add: keyed_def costs_ok_def entry_of_def)
qed

lemma cache_exec_lru:
  assumes "cache_inv c" and "cost_allowed op c"
  shows "cache_inv (cache_exec op c) \<and> oc_maxCost (cache_exec op c) = oc_maxCost c \<and>
    oc_order (cache_exec op c) = lru_exec (oc_maxCost c) op (oc_order c)"
proof (cases op)
  case (GetOp key)
  have items: "oc_items c key = entry_of key (oc_order c)" using assms(1) by (simp add: cache_inv_def keyed_def)
  show ?thesis
    using assms keyed_move [of c key] items
    by (cases "entry_of key (oc_order c)") (simp_all add: GetOp cache_exec_def cache_get_def cache_inv_def)
next
  case (AddOp key v cost)
  have items: "oc_items c key = entry_of key (oc_order c)" using assms(1) by (simp add: cache_inv_def keyed_def)
  show ?thesis
  proof (cases "oc_maxCost c div 8 < cost \<or> entry_of key (oc_order c) \<noteq> None")
    case True
    then show ?thesis
      using assms keyed_move [of c key] items
      by (cases "entry_of key (oc_order c)") (auto simp: AddOp cache_exec_def cache_add_def cache_inv_def)
  next
    case False
    then have none: "oc_items c key = None" using items by simp
    show ?thesis
      using evict_fit [OF cache_add_new [of c key cost v]] assms none False items
      by (simp add: AddOp cache_exec_def cache_add_def cache_inv_def Let_def)
  qed
qed

interpretation object_cache: invariant_system cost_allowed cache_exec cache_inv
  by unfold_locales (simp add: cache_exec_lru)

lemma newObjectCache_inv: "0 \<le> maxCost \<Longrightarrow> cache_inv (newObjectCache maxCost)"
  by (simp add: newObjectCache_def cache_inv_def keyed_def costs_ok_def entry_of_def)

lemma cache_runs_lru:
  assumes "cache_inv c" and "\<forall>op\<in>set ops. cost_allowed op c"
  shows "cache_inv (run_ops cache_exec ops c) \<and> oc_maxCost (run_ops cache_exec ops c) = oc_maxCost c \<and>
    oc_order (run_ops cache_exec ops c) = run_ops (lru_exec (oc_maxCost c)) ops (oc_order c)"
  using assms
proof (induction ops arbitrary: c)
  case (Cons op ops)
  have "cost_allowed x (cache_exec op c)" if "cost_allowed x c" for x using that by (cases x) simp_all
  then show ?case using Cons.IH [of "cache_exec op c"] Cons.prems cache_exec_lru [of c op] by simp
qed simp

text \<open>
  C28: after any sequence of lookups and insertions the object cache holds exactly what the reference
  holds that keeps the most recently used entries up to its budget, in that order: it never
  panics, its cost is that of its entries and within the limit, and a lookup finds what is held.
\<close>

theorem cache_is_lru:
  assumes "0 \<le> maxCost" and "\<forall>op\<in>set ops. cost_allowed op (newObjectCache maxCost)"
  shows "let c = run_ops cache_exec ops (newObjectCache maxCost); es = run_ops (lru_exec maxCost) ops []
    in oc_order c = es \<and> \<not> oc_panicked c \<and> oc_cost c = total_cost es \<and> total_cost es \<le> maxCost \<and>
       (\<forall>key. fst (cache_get key c) = map_option ce_value (entry_of key es))"
proof -
  let ?c = "run_ops cache_exec ops (newObjectCache maxCost)"
  have run: "cache_inv ?c" "oc_maxCost ?c = maxCost" "oc_order ?c = run_ops (lru_exec maxCost) ops []"
    using cache_runs_lru [OF newObjectCache_inv [OF assms(1)] assms(2)] by (simp_all add: newObjectCache_def)
  moreover have "fst (cache_get key ?c) = map_option ce_value (oc_items ?c key)" for key
    by (simp add: cache_get_def split: option.splits)
  ultimately show ?thesis by (simp add: Let_def cache_inv_def keyed_def)
qed

lemma cache_is_lru_witness:
  "let ops = [AddOp ''a'' (1 :: nat) 8, AddOp ''b'' 2 10, GetOp ''a'', AddOp ''c'' 3 9, AddOp ''d'' 4 11]
   in oc_order (run_ops cache_exec (ops @ map (\<lambda>i. AddOp [CHR ''x'', char_of i] 5 9) [1 ..< 8 :: nat]) (newObjectCache 88)) =
      run_ops (lru_exec 88) (ops @ map (\<lambda>i. AddOp [CHR ''x'', char_of i] 5 9) [1 ..< 8 :: nat]) [] \<and>
      length (run_ops (lru_exec 88) (ops @ map (\<lambda>i. AddOp [CHR ''x'', char_of i] 5 9) [1 ..< 8 :: nat]) []) = 9"
proof -
  let ?ops = "[AddOp ''a'' (1 :: nat) 8, AddOp ''b'' 2 10, GetOp ''a'', AddOp ''c'' 3 9, AddOp ''d'' 4 11] @
    map (\<lambda>i. AddOp [CHR ''x'', char_of i] 5 9) [1 ..< 8 :: nat]"
  have "\<forall>op\<in>set ?ops. cost_allowed op (newObjectCache 88)" by auto
  moreover have "length (run_ops (lru_exec 88) ?ops []) = 9" by code_simp
  ultimately show ?thesis using cache_is_lru [of 88 ?ops] by (simp only: Let_def)
qed

end
