(* ===== verification/Git_Reads.thy ===== *)
theory Git_Reads
  imports Git_Cache_Properties
begin

text \<open>
  Reads of a repository against its object database: what \<open>git cat-file\<close> documents of its answers is a
  function of the database, the reader's protocol recovers an object from them, and a read through
  the cache gives the same as a read of the database, or fails because the process failed.
\<close>

section \<open>The object database\<close>

type_synonym object_db = "string \<rightharpoonup> ObjectKind \<times> string"

definition db_info :: "object_db \<Rightarrow> string \<Rightarrow> (object_error, objectInfo) result" where
  "db_info db hash = (case db hash of None \<Rightarrow> Inl NotFound
     | Some (ty, data) \<Rightarrow> ok \<lparr>oi_hash = hash, oi_typ = ty, oi_size = int (length data)\<rparr>)"

definition db_contents :: "object_db \<Rightarrow> contents_fun" where
  "db_contents db hash max_size =
     (case db hash of
        None \<Rightarrow> Inl NotFound
      | Some (ty, data) \<Rightarrow>
          if max_size < int (length data) then Inl (TooLarge (int (length data)))
          else ok (\<lparr>oi_hash = hash, oi_typ = ty, oi_size = int (length data)\<rparr>, data))"

text \<open>
  What \<open>git cat-file --batch-command\<close> documents for a full hash: a header, and for \<open>contents\<close> the
  bytes of the object and a newline.
\<close>

definition header_line :: "string \<Rightarrow> ObjectKind \<Rightarrow> nat \<Rightarrow> string" where
  "header_line hash ty n = hash @ '' '' @ type_text ty @ '' '' @ format_int (int n) @ [newline]"

definition cat_file :: "object_db \<Rightarrow> string \<Rightarrow> string" where
  "cat_file db request =
     (let hash = takeWhile (\<lambda>c. c \<noteq> newline) (tl (dropWhile (\<lambda>c. c \<noteq> CHR '' '') request)) in
      case db hash of
        None \<Rightarrow> hash @ '' missing'' @ [newline]
      | Some (ty, data) \<Rightarrow>
          if prefix ''info '' request then header_line hash ty (length data)
          else header_line hash ty (length data) @ data @ [newline])"

definition database_ok :: "object_db \<Rightarrow> bool" where
  "database_ok db \<longleftrightarrow>
     (\<forall>hash ty data. db hash = Some (ty, data) \<longrightarrow>
        ty \<in> {TypeBlob, TypeTree, TypeCommit, TypeTag} \<and> int (length data) < 2 ^ 63)"

lemma hash_plain: "IsHash h \<Longrightarrow> word_ok h \<and> newline \<notin> set h \<and> CHR '' '' \<notin> set h"
  by (auto simp: IsHash_def word_ok_def list_all_iff is_hex_lower_def is_digit_def plain_def)

lemma type_words:
  assumes "ty \<in> {TypeBlob, TypeTree, TypeCommit, TypeTag}"
  shows "word_ok (type_text ty)" "object_type (type_text ty) = ty" "newline \<notin> set (type_text ty)"
  using assms by (auto simp: word_ok_def plain_def type_text_def object_type_def)

lemma request_hash:
  assumes "IsHash h"
  shows "takeWhile (\<lambda>c. c \<noteq> newline) (tl (dropWhile (\<lambda>c. c \<noteq> CHR '' '') (''info '' @ h @ [newline]))) = h"
    "takeWhile (\<lambda>c. c \<noteq> newline) (tl (dropWhile (\<lambda>c. c \<noteq> CHR '' '') (''contents '' @ h @ [newline]))) = h"
  using hash_plain [OF assms] by (auto simp: takeWhile_append takeWhile_eq_all_conv)

lemma number_end: "last (format_int n) \<noteq> CHR ''g'' \<and> last (format_int n) \<noteq> CHR ''s'' \<and> format_int n \<noteq> []"
proof -
  have "format_int n \<noteq> []" using format_int_word [of n] by (simp add: word_ok_def)
  then have "date_char (last (format_int n))" using format_int_chars [of n] by (simp add: list_all_iff)
  then show ?thesis using \<open>format_int n \<noteq> []\<close> by (auto simp: date_char_def is_digit_def)
qed

lemma suffix_last: "suffix s l \<Longrightarrow> s \<noteq> [] \<Longrightarrow> last l = last s"
  by (auto simp: suffix_def)

lemma readHeader_line:
  assumes "IsHash h" and "ty \<in> {TypeBlob, TypeTree, TypeCommit, TypeTag}" and "int n < 2 ^ 63"
  shows "readHeader (h @ '' '' @ type_text ty @ '' '' @ format_int (int n)) =
    ok \<lparr>oi_hash = h, oi_typ = ty, oi_size = int n\<rparr>"
proof -
  let ?line = "h @ '' '' @ type_text ty @ '' '' @ format_int (int n)"
  have "last ?line \<noteq> CHR ''g'' \<and> last ?line \<noteq> CHR ''s''" using number_end [of "int n"] by simp
  then have none: "\<not> suffix '' missing'' ?line" "\<not> suffix '' ambiguous'' ?line"
    using suffix_last [of "'' missing''" ?line] suffix_last [of "'' ambiguous''" ?line] by auto
  have "Fields ?line = [h, type_text ty, format_int (int n)]"
    using Fields_words [of h] Fields_words [OF type_words(1) [OF assms(2)]] hash_plain [OF assms(1)]
      Fields_word [OF format_int_word [of "int n"]] by simp
  moreover have "parse_int (format_int (int n)) = Some (int n)" using assms(3) by (intro parse_format_int) simp_all
  ultimately show ?thesis using none type_words(2) [OF assms(2)] by (simp add: readHeader_def)
qed

lemma read_line_header:
  assumes "IsHash h" and "ty \<in> {TypeBlob, TypeTree, TypeCommit, TypeTag}"
  shows "read_line (header_line h ty n @ rest) = ok (h @ '' '' @ type_text ty @ '' '' @ format_int (int n), rest)"
proof -
  have "newline \<notin> set (format_int (int n))"
    using format_int_chars [of "int n"] date_char_plain by (auto simp: list_all_iff)
  then have "newline \<notin> set (h @ '' '' @ type_text ty @ '' '' @ format_int (int n))"
    using hash_plain [OF assms(1)] type_words(3) [OF assms(2)] by simp
  from cut_char [OF this] show ?thesis by (simp add: read_line_def header_line_def)
qed

lemma valid_hash_name: "IsHash h \<Longrightarrow> validObjectName h = ok ()"
  by (auto simp: validObjectName_def IsHash_def list_all_iff list_ex_iff is_hex_lower_def is_digit_def)

lemma missing_header:
  assumes "IsHash h"
  shows "bind_result (read_line (h @ '' missing'' @ [newline])) (\<lambda>(line, rest). readHeader line) = Inl NotFound"
proof -
  have "newline \<notin> set (h @ '' missing'')" using hash_plain [OF assms] by simp
  from cut_char [OF this, of "[]"] show ?thesis by (simp add: read_line_def readHeader_def suffix_def)
qed

text \<open>
  C29: on the answers git documents, a reader returns for every full hash what the object database
  holds: the object's type, size and exact bytes, whatever bytes they are; that the object is
  missing; or, without reading it, that it is larger than asked for.
\<close>

theorem reader_contents_exact:
  assumes "database_ok db" and "IsHash hash"
  shows "reader_contents (cat_file db) hash max_size = db_contents db hash max_size"
proof (cases "db hash")
  case None
  then have "cat_file db (''info '' @ hash @ [newline]) = hash @ '' missing'' @ [newline]"
    by (simp add: cat_file_def request_hash [OF assms(2), simplified] Let_def)
  then show ?thesis
    using missing_header [OF assms(2)] valid_hash_name [OF assms(2)] None
    by (simp add: reader_contents_def reader_info_def db_contents_def)
next
  case (Some x)
  obtain ty data where x: "x = (ty, data)" by (cases x)
  have ty: "ty \<in> {TypeBlob, TypeTree, TypeCommit, TypeTag}" "int (length data) < 2 ^ 63"
    using assms(1) Some x unfolding database_ok_def by blast+
  let ?info = "\<lparr>oi_hash = hash, oi_typ = ty, oi_size = int (length data)\<rparr>"
  note line = read_line_header [OF assms(2) ty(1), of "length data"] readHeader_line [OF assms(2) ty]
  have answers: "cat_file db (''info '' @ hash @ [newline]) = header_line hash ty (length data) @ []"
    "cat_file db (''contents '' @ hash @ [newline]) = header_line hash ty (length data) @ data @ [newline]"
    by (simp_all add: cat_file_def request_hash [OF assms(2), simplified] Let_def Some x)
  have info: "reader_info (cat_file db) hash = ok ?info"
    unfolding reader_info_def valid_hash_name [OF assms(2)] answers line(1) bind_result.simps prod.case line(2) ..
  show ?thesis
    unfolding reader_contents_def info bind_result.simps objectInfo.select_convs answers line(1) prod.case line(2)
    by (simp add: db_contents_def Some x)
qed

lemma reader_contents_exact_witness:
  "reader_contents (cat_file [replicate 40 (CHR ''a'') \<mapsto> (TypeBlob, ''x missing'' @ [newline])]) (replicate 40 (CHR ''a'')) 100 =
     ok (\<lparr>oi_hash = replicate 40 (CHR ''a''), oi_typ = TypeBlob, oi_size = 10\<rparr>, ''x missing'' @ [newline])"
proof -
  let ?h = "replicate 40 (CHR ''a'')" and ?db = "[replicate 40 (CHR ''a'') \<mapsto> (TypeBlob, ''x missing'' @ [newline])]"
  have "database_ok ?db" by (simp add: database_ok_def)
  moreover have "IsHash ?h" unfolding IsHash_def by (simp add: list_all_iff is_hex_lower_def)
  ultimately have "reader_contents (cat_file ?db) ?h 100 = db_contents ?db ?h 100" by (rule reader_contents_exact)
  then show ?thesis by (simp add: db_contents_def)
qed

section \<open>Reads of the database\<close>

definition read_commit :: "object_db \<Rightarrow> string \<Rightarrow> (object_error, Commit) result" where
  "read_commit db hash =
     (if \<not> IsHash hash then Inl NotFound
      else bind_result (db_contents db hash maxCommitBytes) (\<lambda>(info, data).
        if oi_typ info \<noteq> TypeCommit then Inl NotFound else parseCommit hash data))"

definition read_tree :: "object_db \<Rightarrow> string \<Rightarrow> (object_error, TreeEntry list) result" where
  "read_tree db hash =
     (if \<not> IsHash hash then Inl NotFound
      else bind_result (db_contents db hash maxTreeBytes) (\<lambda>(info, data).
        if oi_typ info \<noteq> TypeTree then Inl NotFound else map_error TreeError (parseTree data (length hash div 2))))"

definition read_blob :: "object_db \<Rightarrow> string \<Rightarrow> int \<Rightarrow> (object_error, string) result" where
  "read_blob db hash max_size =
     (if \<not> IsHash hash then Inl NotFound
      else bind_result (db_contents db hash max_size) (\<lambda>(info, data).
        if oi_typ info \<noteq> TypeBlob then Inl NotFound else ok data))"

text \<open>The entry a path of components names, seen from a directory.\<close>

fun walk :: "object_db \<Rightarrow> string list \<Rightarrow> TreeEntry \<Rightarrow> (object_error, TreeEntry) result" where
  "walk db [] e = ok e"
| "walk db (part # parts) e =
     (if part = [] \<or> part = ''.'' \<or> part = ''..'' \<or> te_Kind e \<noteq> EntryDir then Inl NotFound
      else bind_result (read_tree db (te_Hash e)) (\<lambda>entries.
        case find (\<lambda>x. te_Name x = part) entries of None \<Rightarrow> Inl NotFound | Some x \<Rightarrow> walk db parts x))"

definition components :: "string \<Rightarrow> string list" where
  "components path = (let p = trim (\<lambda>x. x = CHR ''/'') path in if p = [] then [] else split_on (CHR ''/'') p)"

definition read_entry :: "object_db \<Rightarrow> string \<Rightarrow> string \<Rightarrow> (object_error, TreeEntry) result" where
  "read_entry db commitHash path =
     bind_result (read_commit db commitHash) (\<lambda>commit. walk db (components path) (root_entry commit))"

definition read_file :: "object_db \<Rightarrow> string \<Rightarrow> string \<Rightarrow> int \<Rightarrow> (object_error, string) result" where
  "read_file db commitHash path max_size =
     bind_result (read_entry db commitHash path) (\<lambda>e.
       if te_Kind e \<noteq> EntryFile then Inl NotFound else read_blob db (te_Hash e) max_size)"

section \<open>Reads through the cache\<close>

text \<open>Every answer is that of the database, or the process failed.\<close>

definition faithful :: "object_db \<Rightarrow> contents_fun \<Rightarrow> bool" where
  "faithful db contents \<longleftrightarrow> (\<forall>h m. contents h m = db_contents db h m \<or> contents h m = Inl ReadObjectFailure)"

definition true_or_failed :: "(object_error, 'a) result \<Rightarrow> (object_error, 'a) result \<Rightarrow> bool" where
  "true_or_failed spec r \<longleftrightarrow> r = spec \<or> r = Inl ReadObjectFailure"

definition entry_true :: "object_db \<Rightarrow> cached cacheEntry \<Rightarrow> bool" where
  "entry_true db e \<longleftrightarrow>
     (case ce_value e of
        CachedCommit x \<Rightarrow> (\<exists>h. ce_key e = ''commit:'' @ h \<and> read_commit db h = ok x)
      | CachedTree x \<Rightarrow> (\<exists>h. ce_key e = ''tree:'' @ h \<and> read_tree db h = ok x)
      | CachedBlob data \<Rightarrow> (\<exists>h. ce_key e = ''blob:'' @ h \<and> db h = Some (TypeBlob, data)))"

definition reads_inv :: "object_db \<Rightarrow> cached objectCache \<Rightarrow> bool" where
  "reads_inv db c \<longleftrightarrow> cache_inv c \<and> list_all (entry_true db) (oc_order c)"

datatype read_op =
  ReadCommit contents_fun string | ReadTree contents_fun string | ReadBlob contents_fun string int
| ReadEntry contents_fun string string | ReadFile contents_fun string string int

fun read_exec :: "read_op \<Rightarrow> cached objectCache \<Rightarrow> cached objectCache" where
  "read_exec (ReadCommit contents h) c = snd (Repo_Commit contents h c)"
| "read_exec (ReadTree contents h) c = snd (Repo_Tree contents h c)"
| "read_exec (ReadBlob contents h m) c = snd (Repo_Blob contents h m c)"
| "read_exec (ReadEntry contents h path) c = snd (Repo_Entry contents h path c)"
| "read_exec (ReadFile contents h path m) c = snd (FileAt contents h path m c)"

fun read_allowed :: "object_db \<Rightarrow> read_op \<Rightarrow> cached objectCache \<Rightarrow> bool" where
  "read_allowed db (ReadCommit contents h) c = faithful db contents"
| "read_allowed db (ReadTree contents h) c = faithful db contents"
| "read_allowed db (ReadBlob contents h m) c = faithful db contents"
| "read_allowed db (ReadEntry contents h path) c = faithful db contents"
| "read_allowed db (ReadFile contents h path m) c = faithful db contents"

lemma lru_exec_set: "distinct (map ce_key es) \<Longrightarrow> set (lru_exec b op es) \<subseteq>
    set es \<union> (case op of GetOp _ \<Rightarrow> {} | AddOp k v n \<Rightarrow> {\<lparr>ce_key = k, ce_value = v, ce_cost = n\<rparr>})"
proof -
  assume d: "distinct (map ce_key es)"
  have move: "set (MoveToFront e es) \<subseteq> set es" if "entry_of k es = Some e" for k e
    using MoveToFront_set [OF d] entry_of_Some [OF that] by blast
  have fit: "set (fit b' xs) \<subseteq> set xs" for b' and xs :: "'a cacheEntry list" using fit_prefix set_mono_prefix by blast
  show ?thesis
  proof (cases op)
    case (GetOp k)
    then show ?thesis using move [of k] by (cases "entry_of k es") simp_all
  next
    case (AddOp k v n)
    then show ?thesis
      using move [of k] fit [of b "\<lparr>ce_key = k, ce_value = v, ce_cost = n\<rparr> # es"]
      by (cases "entry_of k es"; cases "b div 8 < n") (auto simp del: fit.simps)
  qed
qed

lemma reads_inv_get:
  assumes "reads_inv db c" and "cache_get key c = (r, c')"
  shows "reads_inv db c' \<and> (case r of None \<Rightarrow> c' = c | Some v \<Rightarrow> \<exists>e. entry_true db e \<and> ce_key e = key \<and> ce_value e = v)"
proof -
  have inv: "cache_inv c" "list_all (entry_true db) (oc_order c)" using assms(1) by (simp_all add: reads_inv_def)
  have d: "distinct (map ce_key (oc_order c))" and items: "oc_items c key = entry_of key (oc_order c)"
    using inv(1) by (simp_all add: cache_inv_def keyed_def)
  have c': "c' = cache_exec (GetOp key) c" using assms(2) by (simp add: cache_exec_def)
  have "cache_inv c'" "set (oc_order c') \<subseteq> set (oc_order c)"
    using cache_exec_lru [OF inv(1), of "GetOp key"] lru_exec_set [OF d, of "oc_maxCost c" "GetOp key"] c' by simp_all
  then have "reads_inv db c'" using inv(2) by (auto simp: reads_inv_def list_all_iff)
  moreover have "case r of None \<Rightarrow> c' = c | Some v \<Rightarrow> \<exists>e. entry_true db e \<and> ce_key e = key \<and> ce_value e = v"
  proof (cases "entry_of key (oc_order c)")
    case (Some e)
    then have "entry_true db e" "ce_key e = key" using entry_of_Some inv(2) by (auto simp: list_all_iff)
    then show ?thesis using assms(2) items Some by (auto simp: cache_get_def)
  qed (use assms(2) items in \<open>auto simp: cache_get_def\<close>)
  ultimately show ?thesis ..
qed

lemma reads_inv_add:
  assumes "reads_inv db c" and "entry_true db \<lparr>ce_key = key, ce_value = v, ce_cost = int n\<rparr>"
  shows "reads_inv db (cache_add key v (int n) c)"
proof -
  have inv: "cache_inv c" "list_all (entry_true db) (oc_order c)" using assms(1) by (simp_all add: reads_inv_def)
  have d: "distinct (map ce_key (oc_order c))" using inv(1) by (simp add: cache_inv_def keyed_def)
  have "cache_inv (cache_add key v (int n) c)" "set (oc_order (cache_add key v (int n) c)) \<subseteq>
      set (oc_order c) \<union> {\<lparr>ce_key = key, ce_value = v, ce_cost = int n\<rparr>}"
    using cache_exec_lru [OF inv(1), of "AddOp key v (int n)"] lru_exec_set [OF d, of "oc_maxCost c" "AddOp key v (int n)"]
    by (simp_all add: cache_exec_def)
  then show ?thesis using inv(2) assms(2) by (auto simp: reads_inv_def list_all_iff)
qed

lemma faithfulD: "faithful db contents \<Longrightarrow> contents h m = db_contents db h m \<or> contents h m = Inl ReadObjectFailure"
  by (simp add: faithful_def)

lemma entry_true_key:
  assumes "entry_true db e"
  shows "ce_key e = ''commit:'' @ h \<Longrightarrow> \<exists>x. ce_value e = CachedCommit x \<and> read_commit db h = ok x"
    and "ce_key e = ''tree:'' @ h \<Longrightarrow> \<exists>x. ce_value e = CachedTree x \<and> read_tree db h = ok x"
    and "ce_key e = ''blob:'' @ h \<Longrightarrow> \<exists>x. ce_value e = CachedBlob x \<and> db h = Some (TypeBlob, x)"
  using assms by (auto simp: entry_true_def split: cached.splits)

lemma true_or_failed_bind: "true_or_failed spec (Inl e) \<Longrightarrow> true_or_failed (bind_result spec f) (Inl e)"
  by (cases spec) (simp_all add: true_or_failed_def)

lemma Repo_Commit_true:
  assumes "reads_inv db c" and "faithful db contents" and "Repo_Commit contents h c = (r, c')"
  shows "true_or_failed (read_commit db h) r \<and> reads_inv db c'"
proof (cases "IsHash h")
  case True
  obtain v c1 where get: "cache_get (''commit:'' @ h) c = (v, c1)" by (cases "cache_get (''commit:'' @ h) c")
  note got = reads_inv_get [OF assms(1) get]
  show ?thesis
  proof (cases v)
    case (Some w)
    then obtain e where e: "entry_true db e" "ce_key e = ''commit:'' @ h" "ce_value e = w" "reads_inv db c1"
      using got by auto
    obtain x where "w = CachedCommit x" "read_commit db h = ok x" using entry_true_key(1) [OF e(1,2)] e(3) by auto
    then show ?thesis using assms(3) True get Some e(4) by (auto simp: Repo_Commit_def true_or_failed_def)
  next
    case None
    have c1: "reads_inv db c1" using got ..
    show ?thesis
    proof (cases "contents h maxCommitBytes")
      case (Inl e)
      then show ?thesis
        using faithfulD [OF assms(2), of h maxCommitBytes] assms(3) True get None c1
          true_or_failed_bind [of "db_contents db h maxCommitBytes" e]
        by (auto simp: Repo_Commit_def true_or_failed_def read_commit_def)
    next
      case (Inr x)
      obtain info data where x: "x = (info, data)" by (cases x)
      have db: "db_contents db h maxCommitBytes = ok (info, data)"
        using faithfulD [OF assms(2), of h maxCommitBytes] Inr x by simp
      have read: "read_commit db h = (if oi_typ info \<noteq> TypeCommit then Inl NotFound else parseCommit h data)"
        using True db by (simp add: read_commit_def)
      have "reads_inv db (cache_add (''commit:'' @ h) (CachedCommit y) (int (length data)) c1)"
        if "oi_typ info = TypeCommit" "parseCommit h data = ok y" for y
        using that read by (intro reads_inv_add [OF c1]) (simp add: entry_true_def)
      then show ?thesis using assms(3) True get None c1 Inr x read
        by (auto simp: Repo_Commit_def true_or_failed_def split: sum.splits if_splits)
    qed
  qed
qed (use assms in \<open>simp add: Repo_Commit_def read_commit_def true_or_failed_def\<close>)

lemma Repo_Tree_true:
  assumes "reads_inv db c" and "faithful db contents" and "Repo_Tree contents h c = (r, c')"
  shows "true_or_failed (read_tree db h) r \<and> reads_inv db c'"
proof (cases "IsHash h")
  case True
  obtain v c1 where get: "cache_get (''tree:'' @ h) c = (v, c1)" by (cases "cache_get (''tree:'' @ h) c")
  note got = reads_inv_get [OF assms(1) get]
  show ?thesis
  proof (cases v)
    case (Some w)
    then obtain e where e: "entry_true db e" "ce_key e = ''tree:'' @ h" "ce_value e = w" "reads_inv db c1"
      using got by auto
    obtain x where "w = CachedTree x" "read_tree db h = ok x" using entry_true_key(2) [OF e(1,2)] e(3) by auto
    then show ?thesis using assms(3) True get Some e(4) by (auto simp: Repo_Tree_def true_or_failed_def)
  next
    case None
    have c1: "reads_inv db c1" using got ..
    show ?thesis
    proof (cases "contents h maxTreeBytes")
      case (Inl e)
      then show ?thesis
        using faithfulD [OF assms(2), of h maxTreeBytes] assms(3) True get None c1
          true_or_failed_bind [of "db_contents db h maxTreeBytes" e]
        by (auto simp: Repo_Tree_def true_or_failed_def read_tree_def)
    next
      case (Inr x)
      obtain info data where x: "x = (info, data)" by (cases x)
      have db: "db_contents db h maxTreeBytes = ok (info, data)"
        using faithfulD [OF assms(2), of h maxTreeBytes] Inr x by simp
      have read: "read_tree db h = (if oi_typ info \<noteq> TypeTree then Inl NotFound
          else map_error TreeError (parseTree data (length h div 2)))"
        using True db by (simp add: read_tree_def)
      have "reads_inv db (cache_add (''tree:'' @ h) (CachedTree y) (int (length data)) c1)"
        if "oi_typ info = TypeTree" "parseTree data (length h div 2) = ok y" for y
        using that read by (intro reads_inv_add [OF c1]) (simp add: entry_true_def)
      then show ?thesis using assms(3) True get None c1 Inr x read
        by (auto simp: Repo_Tree_def true_or_failed_def split: sum.splits if_splits)
    qed
  qed
qed (use assms in \<open>simp add: Repo_Tree_def read_tree_def true_or_failed_def\<close>)

lemma Repo_Blob_true:
  assumes "reads_inv db c" and "faithful db contents" and "Repo_Blob contents h m c = (r, c')"
  shows "true_or_failed (read_blob db h m) r \<and> reads_inv db c'"
proof (cases "IsHash h")
  case True
  obtain v c1 where get: "cache_get (''blob:'' @ h) c = (v, c1)" by (cases "cache_get (''blob:'' @ h) c")
  note got = reads_inv_get [OF assms(1) get]
  show ?thesis
  proof (cases v)
    case (Some w)
    then obtain e where e: "entry_true db e" "ce_key e = ''blob:'' @ h" "ce_value e = w" "reads_inv db c1"
      using got by auto
    obtain x where "w = CachedBlob x" "db h = Some (TypeBlob, x)" using entry_true_key(3) [OF e(1,2)] e(3) by auto
    then show ?thesis using assms(3) True get Some e(4) by (auto simp: Repo_Blob_def true_or_failed_def read_blob_def db_contents_def)
  next
    case None
    have c1: "reads_inv db c1" using got ..
    show ?thesis
    proof (cases "contents h m")
      case (Inl e)
      then show ?thesis
        using faithfulD [OF assms(2), of h m] assms(3) True get None c1
          true_or_failed_bind [of "db_contents db h m" e]
        by (auto simp: Repo_Blob_def true_or_failed_def read_blob_def)
    next
      case (Inr x)
      obtain info data where x: "x = (info, data)" by (cases x)
      have db: "db_contents db h m = ok (info, data)" using faithfulD [OF assms(2), of h m] Inr x by simp
      then have "db h = Some (oi_typ info, data)" by (auto simp: db_contents_def split: option.splits if_splits)
      then have "reads_inv db (cache_add (''blob:'' @ h) (CachedBlob data) (int (length data)) c1)"
        if "oi_typ info = TypeBlob" using that by (intro reads_inv_add [OF c1]) (simp add: entry_true_def)
      then show ?thesis using assms(3) True get None c1 Inr x db
        by (auto simp: Repo_Blob_def true_or_failed_def read_blob_def split: if_splits)
    qed
  qed
qed (use assms in \<open>simp add: Repo_Blob_def read_blob_def true_or_failed_def\<close>)

lemma entry_loop_true:
  assumes "reads_inv db c" and "faithful db contents" and "entry_loop contents parts e c = (r, c')"
  shows "true_or_failed (walk db parts e) r \<and> reads_inv db c'"
  using assms(1,3)
proof (induction parts arbitrary: e c)
  case Nil
  then show ?case by (simp add: true_or_failed_def)
next
  case (Cons part parts)
  let ?bad = "part = [] \<or> part = ''.'' \<or> part = ''..'' \<or> te_Kind e \<noteq> EntryDir"
  show ?case
  proof (cases ?bad)
    case True
    then show ?thesis using Cons.prems by (auto simp: true_or_failed_def split: if_splits)
  next
    case False
    obtain t c1 where t: "Repo_Tree contents (te_Hash e) c = (t, c1)" by (cases "Repo_Tree contents (te_Hash e) c")
    have tree: "true_or_failed (read_tree db (te_Hash e)) t" "reads_inv db c1"
      using Repo_Tree_true [OF Cons.prems(1) assms(2) t] by blast+
    show ?thesis
    proof (cases t)
      case (Inl x)
      then have "r = Inl x \<and> c' = c1" using Cons.prems(2) False t by auto
      then show ?thesis using true_or_failed_bind [OF tree(1) [unfolded Inl]] tree(2) False by simp
    next
      case (Inr entries)
      then have read: "read_tree db (te_Hash e) = ok entries" using tree(1) by (auto simp: true_or_failed_def)
      show ?thesis
      proof (cases "find (\<lambda>x. te_Name x = part) entries")
        case None
        then show ?thesis using Cons.prems(2) False t tree(2) Inr read by (auto simp: true_or_failed_def)
      next
        case (Some x)
        then have "entry_loop contents parts x c1 = (r, c')" using Cons.prems(2) False t Inr by auto
        then show ?thesis using Cons.IH [OF tree(2)] False Some read by simp
      qed
    qed
  qed
qed

lemma Repo_Entry_true:
  assumes "reads_inv db c" and "faithful db contents" and "Repo_Entry contents h path c = (r, c')"
  shows "true_or_failed (read_entry db h path) r \<and> reads_inv db c'"
proof -
  obtain x c1 where x: "Repo_Commit contents h c = (x, c1)" by (cases "Repo_Commit contents h c")
  have commit: "true_or_failed (read_commit db h) x" "reads_inv db c1"
    using Repo_Commit_true [OF assms(1,2) x] by blast+
  show ?thesis
  proof (cases x)
    case (Inl e)
    then have "r = Inl e \<and> c' = c1" using assms(3) x by (simp add: Repo_Entry_def)
    then show ?thesis using true_or_failed_bind [OF commit(1) [unfolded Inl]] commit(2) by (simp add: read_entry_def)
  next
    case (Inr commit')
    then have read: "read_commit db h = ok commit'" using commit(1) by (auto simp: true_or_failed_def)
    have "entry_loop contents (components path) (root_entry commit') c1 = (r, c')"
      using assms(3) x Inr by (simp add: Repo_Entry_def components_def Let_def split: if_splits)
    then show ?thesis using entry_loop_true [OF commit(2) assms(2)] read by (simp add: read_entry_def)
  qed
qed

lemma FileAt_true:
  assumes "reads_inv db c" and "faithful db contents" and "FileAt contents h path m c = (r, c')"
  shows "true_or_failed (read_file db h path m) r \<and> reads_inv db c'"
proof -
  obtain x c1 where x: "Repo_Entry contents h path c = (x, c1)" by (cases "Repo_Entry contents h path c")
  have entry: "true_or_failed (read_entry db h path) x" "reads_inv db c1"
    using Repo_Entry_true [OF assms(1,2) x] by blast+
  show ?thesis
  proof (cases x)
    case (Inl e)
    then have "r = Inl e \<and> c' = c1" using assms(3) x by (simp add: FileAt_def)
    then show ?thesis using true_or_failed_bind [OF entry(1) [unfolded Inl]] entry(2) by (simp add: read_file_def)
  next
    case (Inr e)
    then have read: "read_entry db h path = ok e" using entry(1) by (auto simp: true_or_failed_def)
    show ?thesis
    proof (cases "te_Kind e = EntryFile")
      case True
      then have "Repo_Blob contents (te_Hash e) m c1 = (r, c')" using assms(3) x Inr by (simp add: FileAt_def)
      then show ?thesis using Repo_Blob_true [OF entry(2) assms(2)] read True by (simp add: read_file_def)
    next
      case False
      then show ?thesis using assms(3) x Inr entry(2) read by (simp add: FileAt_def read_file_def true_or_failed_def)
    qed
  qed
qed

lemma read_exec_inv:
  assumes "reads_inv db c" and "read_allowed db op c"
  shows "reads_inv db (read_exec op c)"
proof (cases op)
  case (ReadCommit contents h)
  then show ?thesis using assms Repo_Commit_true [of db c contents h] by (cases "Repo_Commit contents h c") simp
next
  case (ReadTree contents h)
  then show ?thesis using assms Repo_Tree_true [of db c contents h] by (cases "Repo_Tree contents h c") simp
next
  case (ReadBlob contents h m)
  then show ?thesis using assms Repo_Blob_true [of db c contents h m] by (cases "Repo_Blob contents h m c") simp
next
  case (ReadEntry contents h path)
  then show ?thesis using assms Repo_Entry_true [of db c contents h path] by (cases "Repo_Entry contents h path c") simp
next
  case (ReadFile contents h path m)
  then show ?thesis using assms FileAt_true [of db c contents h path m] by (cases "FileAt contents h path m c") simp
qed

interpretation cached_reads: invariant_system "read_allowed db" read_exec "reads_inv db" for db
  by unfold_locales (rule read_exec_inv)

text \<open>
  C14: whatever was read before, in whatever order and whichever reads failed, a commit, a tree, a blob,
  the entry at a path or the file at a path read through the cache is exactly what the object database
  holds, limits on its size included, or the process that reads objects failed.
\<close>

theorem cached_reads_are_fresh:
  assumes "reaches (read_allowed db) read_exec (newObjectCache maxCost) c" and "0 \<le> maxCost"
    and "faithful db contents"
  shows "true_or_failed (read_commit db h) (fst (Repo_Commit contents h c)) \<and>
    true_or_failed (read_tree db h) (fst (Repo_Tree contents h c)) \<and>
    true_or_failed (read_blob db h m) (fst (Repo_Blob contents h m c)) \<and>
    true_or_failed (read_entry db h path) (fst (Repo_Entry contents h path c)) \<and>
    true_or_failed (read_file db h path m) (fst (FileAt contents h path m c))"
proof -
  have "reads_inv db (newObjectCache maxCost)"
    using newObjectCache_inv [OF assms(2)] by (simp add: reads_inv_def newObjectCache_def)
  then have inv: "reads_inv db c" using assms(1) by (rule cached_reads.inv_reaches [rotated])
  have "true_or_failed (read_commit db h) (fst (Repo_Commit contents h c))"
    using Repo_Commit_true [OF inv assms(3), of h] by (cases "Repo_Commit contents h c") simp
  moreover have "true_or_failed (read_tree db h) (fst (Repo_Tree contents h c))"
    using Repo_Tree_true [OF inv assms(3), of h] by (cases "Repo_Tree contents h c") simp
  moreover have "true_or_failed (read_blob db h m) (fst (Repo_Blob contents h m c))"
    using Repo_Blob_true [OF inv assms(3), of h m] by (cases "Repo_Blob contents h m c") simp
  moreover have "true_or_failed (read_entry db h path) (fst (Repo_Entry contents h path c))"
    using Repo_Entry_true [OF inv assms(3), of h path] by (cases "Repo_Entry contents h path c") simp
  moreover have "true_or_failed (read_file db h path m) (fst (FileAt contents h path m c))"
    using FileAt_true [OF inv assms(3), of h path m] by (cases "FileAt contents h path m c") simp
  ultimately show ?thesis by blast
qed

definition sample_db :: object_db where
  "sample_db = [replicate 40 (CHR ''a'') \<mapsto> (TypeBlob, ''hello'')]"

definition failing :: contents_fun where
  "failing h m = Inl ReadObjectFailure"

lemma cached_reads_are_fresh_witness:
  "true_or_failed (ok ''hello'') (fst (Repo_Blob failing (replicate 40 (CHR ''a'')) 10
     (read_exec (ReadBlob (db_contents sample_db) (replicate 40 (CHR ''a'')) 10) (newObjectCache 800))))"
proof -
  let ?h = "replicate 40 (CHR ''a'')"
  let ?c = "read_exec (ReadBlob (db_contents sample_db) ?h 10) (newObjectCache 800)"
  have "IsHash ?h" unfolding IsHash_def by (simp add: list_all_iff is_hex_lower_def)
  then have blob: "read_blob sample_db ?h 10 = ok ''hello''" by (simp add: read_blob_def db_contents_def sample_db_def)
  have f: "faithful sample_db (db_contents sample_db)" "faithful sample_db failing" by (simp_all add: faithful_def failing_def)
  have r: "reaches (read_allowed sample_db) read_exec (newObjectCache 800) ?c" by (intro reaches_one) (simp add: f(1))
  have "true_or_failed (read_blob sample_db ?h 10) (fst (Repo_Blob failing ?h 10 ?c))"
    by (rule cached_reads_are_fresh [OF r _ f(2), THEN conjunct2, THEN conjunct2, THEN conjunct1]) simp
  then show ?thesis unfolding blob .
qed

end
