(* ===== verification/Git_Pool.thy ===== *)
theory Git_Pool
  imports Transitions
begin

text \<open>
  The pool of object readers of \<open>internal/git/repository.go\<close>, as the interleaving of its requests. A step
  is one critical section under the lock of the pool, or one operation on the lock of a reader. A
  reader is a number; the channel \<open>changed\<close> is the number of times it was closed and made anew, so a
  request that waits on it is blocked as long as that number is the one it saw. The order in which
  Go visits a map, the clock and the success of starting a process are arguments of a step.
\<close>

section \<open>State\<close>

record pool_reader =
  rd_locked :: bool
  rd_broken :: bool
  rd_closed :: bool
  rd_lastUsed :: timestamp

text \<open>
  Where a request is: it does not use the pool, waits in \<open>acquire\<close>, holds the reader of a path, has
  unlocked a broken reader and will \<open>forget\<close> it, closes readers in turn, or has to signal a change.
\<close>

datatype request =
  Idle | Waiting string nat | Holding string nat | Discarding string nat | Closing "nat list" bool | Signalling

record readerPool =
  po_max :: nat
  po_closed :: bool
  po_readers :: "(string \<times> nat) list"
  po_reader :: "nat \<Rightarrow> pool_reader"
  po_next :: nat
  po_changed :: nat
  po_request :: "nat \<Rightarrow> request"

definition newReaderPool :: "nat \<Rightarrow> readerPool" where
  "newReaderPool m =
     \<lparr>po_max = m, po_closed = False, po_readers = [],
      po_reader = (\<lambda>_. \<lparr>rd_locked = False, rd_broken = False, rd_closed = False, rd_lastUsed = 0\<rparr>),
      po_next = 0, po_changed = 0, po_request = (\<lambda>_. Idle)\<rparr>"

section \<open>Steps\<close>

definition set_request :: "nat \<Rightarrow> request \<Rightarrow> readerPool \<Rightarrow> readerPool" where
  "set_request t q s = s\<lparr>po_request := (po_request s)(t := q)\<rparr>"

definition change_reader :: "nat \<Rightarrow> (pool_reader \<Rightarrow> pool_reader) \<Rightarrow> readerPool \<Rightarrow> readerPool" where
  "change_reader r f s = s\<lparr>po_reader := (po_reader s)(r := f (po_reader s r))\<rparr>"

definition close_reader :: "nat \<Rightarrow> readerPool \<Rightarrow> readerPool" where
  "close_reader r = change_reader r (\<lambda>x. x\<lparr>rd_broken := True, rd_closed := True\<rparr>)"

definition unregister :: "string \<Rightarrow> readerPool \<Rightarrow> readerPool" where
  "unregister path s = s\<lparr>po_readers := filter (\<lambda>x. fst x \<noteq> path) (po_readers s)\<rparr>"

definition signalLocked :: "readerPool \<Rightarrow> readerPool" where
  "signalLocked s = s\<lparr>po_changed := po_changed s + 1\<rparr>"

text \<open>The reader of a path if nobody uses it: what \<open>TryLock\<close> would lock.\<close>

definition idle_reader :: "readerPool \<Rightarrow> string \<Rightarrow> nat option" where
  "idle_reader s path = (case map_of (po_readers s) path of None \<Rightarrow> None
     | Some r \<Rightarrow> if rd_locked (po_reader s r) then None else Some r)"

definition drop_idle :: "string \<Rightarrow> readerPool \<Rightarrow> readerPool" where
  "drop_idle path s = (case idle_reader s path of None \<Rightarrow> s | Some r \<Rightarrow> unregister path (close_reader r s))"

definition evict_idle :: "string list \<Rightarrow> readerPool \<Rightarrow> readerPool" where
  "evict_idle order s =
     (if po_max s \<le> length (po_readers s)
      then (case find (\<lambda>q. idle_reader s q \<noteq> None) order of None \<Rightarrow> s | Some q \<Rightarrow> drop_idle q s) else s)"

definition start_reader :: "nat \<Rightarrow> string \<Rightarrow> string list \<Rightarrow> timestamp \<Rightarrow> bool \<Rightarrow> readerPool \<Rightarrow> readerPool" where
  "start_reader t path order now started s =
     (let s = evict_idle order s in
      if length (po_readers s) < po_max s then
        if started then
          set_request t (Holding path (po_next s))
            (s\<lparr>po_readers := (path, po_next s) # po_readers s,
               po_reader := (po_reader s)(po_next s :=
                 \<lparr>rd_locked = True, rd_broken = False, rd_closed = False, rd_lastUsed = now\<rparr>),
               po_next := po_next s + 1\<rparr>)
        else set_request t Idle s
      else set_request t (Waiting path (po_changed s)) s)"

text \<open>One turn of the loop of \<open>acquire\<close>.\<close>

definition acquire :: "nat \<Rightarrow> string \<Rightarrow> string list \<Rightarrow> timestamp \<Rightarrow> bool \<Rightarrow> readerPool \<Rightarrow> readerPool" where
  "acquire t path order now started s =
     (if po_closed s then set_request t Idle s
      else case map_of (po_readers s) path of
        None \<Rightarrow> start_reader t path order now started s
      | Some r \<Rightarrow>
          if rd_locked (po_reader s r) then set_request t (Waiting path (po_changed s)) s
          else if \<not> rd_broken (po_reader s r)
          then set_request t (Holding path r) (change_reader r (\<lambda>x. x\<lparr>rd_locked := True\<rparr>) s)
          else start_reader t path order now started (unregister path (close_reader r s)))"

definition release :: "nat \<Rightarrow> string \<Rightarrow> nat \<Rightarrow> readerPool \<Rightarrow> readerPool" where
  "release t path r s =
     set_request t (if rd_broken (po_reader s r) then Discarding path r else Signalling)
       (change_reader r (\<lambda>x. x\<lparr>rd_locked := False\<rparr>) s)"

definition forget :: "nat \<Rightarrow> string \<Rightarrow> nat \<Rightarrow> readerPool \<Rightarrow> readerPool" where
  "forget t path r s =
     set_request t (Closing [r] True)
       (if map_of (po_readers s) path = Some r then signalLocked (unregister path s) else s)"

definition close_next :: "nat \<Rightarrow> nat list \<Rightarrow> bool \<Rightarrow> readerPool \<Rightarrow> readerPool" where
  "close_next t rs signal s =
     (case rs of [] \<Rightarrow> set_request t (if signal then Signalling else Idle) s
      | r # rs \<Rightarrow> set_request t (Closing rs signal) (close_reader r s))"

definition signal :: "nat \<Rightarrow> readerPool \<Rightarrow> readerPool" where
  "signal t s = set_request t Idle (signalLocked s)"

definition reap_one :: "timestamp \<Rightarrow> string \<Rightarrow> readerPool \<Rightarrow> readerPool" where
  "reap_one cutoff path s =
     (case idle_reader s path of None \<Rightarrow> s
      | Some r \<Rightarrow> if rd_broken (po_reader s r) \<or> rd_lastUsed (po_reader s r) < cutoff then drop_idle path s else s)"

definition closeIdleLocked :: "timestamp \<Rightarrow> string list \<Rightarrow> readerPool \<Rightarrow> readerPool" where
  "closeIdleLocked cutoff order s = fold (reap_one cutoff) order s"

definition pool_close :: "nat \<Rightarrow> readerPool \<Rightarrow> readerPool" where
  "pool_close t s =
     (if po_closed s then s
      else set_request t (Closing (map snd (po_readers s)) False) (signalLocked (s\<lparr>po_closed := True, po_readers := []\<rparr>)))"

text \<open>What a request does with its reader: \<open>do\<close> notes the time, and whether the pipe broke.\<close>

definition use_reader :: "nat \<Rightarrow> timestamp \<Rightarrow> bool \<Rightarrow> readerPool \<Rightarrow> readerPool" where
  "use_reader r now breaks = change_reader r (\<lambda>x. x\<lparr>rd_lastUsed := now, rd_broken := rd_broken x \<or> breaks\<rparr>)"

section \<open>The transition system\<close>

datatype pool_op =
  Acquire nat string "string list" timestamp bool | Cancel nat | Use nat timestamp bool | Release nat
| Forget nat | CloseNext nat | Signal nat | Reap timestamp "string list" | ClosePool nat

fun pool_exec :: "pool_op \<Rightarrow> readerPool \<Rightarrow> readerPool" where
  "pool_exec (Acquire t path order now started) s = acquire t path order now started s"
| "pool_exec (Cancel t) s = set_request t Idle s"
| "pool_exec (Use t now breaks) s = (case po_request s t of Holding path r \<Rightarrow> use_reader r now breaks s | _ \<Rightarrow> s)"
| "pool_exec (Release t) s = (case po_request s t of Holding path r \<Rightarrow> release t path r s | _ \<Rightarrow> s)"
| "pool_exec (Forget t) s = (case po_request s t of Discarding path r \<Rightarrow> forget t path r s | _ \<Rightarrow> s)"
| "pool_exec (CloseNext t) s = (case po_request s t of Closing rs b \<Rightarrow> close_next t rs b s | _ \<Rightarrow> s)"
| "pool_exec (Signal t) s = (case po_request s t of Signalling \<Rightarrow> signal t s | _ \<Rightarrow> s)"
| "pool_exec (Reap cutoff order) s = closeIdleLocked cutoff order s"
| "pool_exec (ClosePool t) s = pool_close t s"

definition blocked :: "readerPool \<Rightarrow> nat \<Rightarrow> bool" where
  "blocked s t \<longleftrightarrow> (case po_request s t of Waiting _ e \<Rightarrow> e = po_changed s | _ \<Rightarrow> False)"

text \<open>
  Go visits every entry of the map; a request waits for its reader's lock before it closes it; and a
  blocked request does not go on.
\<close>

fun pool_allowed :: "pool_op \<Rightarrow> readerPool \<Rightarrow> bool" where
  "pool_allowed (Acquire t path order now started) s =
     (fst ` set (po_readers s) \<subseteq> set order \<and> \<not> blocked s t \<and>
      (case po_request s t of Idle \<Rightarrow> True | Waiting path' _ \<Rightarrow> path' = path | _ \<Rightarrow> False))"
| "pool_allowed (Cancel t) s = (case po_request s t of Waiting _ _ \<Rightarrow> True | _ \<Rightarrow> False)"
| "pool_allowed (CloseNext t) s =
     (case po_request s t of Closing (r # rs) _ \<Rightarrow> \<not> rd_locked (po_reader s r) | _ \<Rightarrow> True)"
| "pool_allowed (ClosePool t) s = (po_request s t = Idle)"
| "pool_allowed _ s = True"

end
