(* ===== verification/Git_Pool_Properties.thy ===== *)
theory Git_Pool_Properties
  imports Git_Pool
begin

text \<open>
  The pool of object readers under every interleaving of its requests: its limit, that a reader serves
  one request, that no process is leaked, and that nobody waits for nothing.
\<close>

section \<open>The invariant\<close>

definition registry_ok :: "readerPool \<Rightarrow> bool" where
  "registry_ok s \<longleftrightarrow>
     distinct (map fst (po_readers s)) \<and> distinct (map snd (po_readers s)) \<and> length (po_readers s) \<le> po_max s \<and>
     0 < po_max s \<and> (po_closed s \<longrightarrow> po_readers s = []) \<and>
     (\<forall>p r. (p, r) \<in> set (po_readers s) \<longrightarrow> r < po_next s \<and> \<not> rd_closed (po_reader s r))"

definition holders_ok :: "readerPool \<Rightarrow> bool" where
  "holders_ok s \<longleftrightarrow>
     (\<forall>t p r. po_request s t = Holding p r \<longrightarrow> r < po_next s \<and> rd_locked (po_reader s r) \<and>
        \<not> rd_closed (po_reader s r) \<and> (\<not> po_closed s \<longrightarrow> (p, r) \<in> set (po_readers s))) \<and>
     (\<forall>r < po_next s. rd_locked (po_reader s r) \<longrightarrow> (\<exists>t p. po_request s t = Holding p r)) \<and>
     (\<forall>t u p q r. po_request s t = Holding p r \<and> po_request s u = Holding q r \<longrightarrow> t = u)"

definition cleanup_ok :: "readerPool \<Rightarrow> bool" where
  "cleanup_ok s \<longleftrightarrow>
     (\<forall>r < po_next s. \<not> rd_closed (po_reader s r) \<longrightarrow>
        r \<in> snd ` set (po_readers s) \<or> (\<exists>t rs b. po_request s t = Closing rs b \<and> r \<in> set rs)) \<and>
     (\<forall>t rs b r. po_request s t = Closing rs b \<and> r \<in> set rs \<longrightarrow> r < po_next s \<and> r \<notin> snd ` set (po_readers s)) \<and>
     (\<forall>t p r. po_request s t = Discarding p r \<longrightarrow> r < po_next s \<and> rd_broken (po_reader s r) \<and>
        \<not> rd_locked (po_reader s r) \<and> (\<forall>q. (q, r) \<in> set (po_readers s) \<longrightarrow> q = p))"

text \<open>A request that will signal a change before it is done with the pool.\<close>

definition obliged :: "request \<Rightarrow> bool" where
  "obliged q \<longleftrightarrow> (case q of Holding _ _ \<Rightarrow> True | Discarding _ _ \<Rightarrow> True | Closing _ b \<Rightarrow> b | Signalling \<Rightarrow> True | _ \<Rightarrow> False)"

definition wakeup_ok :: "readerPool \<Rightarrow> bool" where
  "wakeup_ok s \<longleftrightarrow>
     (\<forall>t p e. po_request s t = Waiting p e \<longrightarrow> e \<le> po_changed s) \<and>
     ((\<exists>t. blocked s t) \<longrightarrow> (\<exists>u. obliged (po_request s u)))"

definition pool_inv :: "readerPool \<Rightarrow> bool" where
  "pool_inv s \<longleftrightarrow> registry_ok s \<and> holders_ok s \<and> cleanup_ok s \<and> wakeup_ok s"

lemma obliged_simps [simp]:
  "obliged (Holding p r)" "obliged (Discarding p r)" "obliged (Closing rs b) = b" "obliged Signalling"
  "\<not> obliged Idle" "\<not> obliged (Waiting p e)"
  by (simp_all add: obliged_def)

lemmas pool_updates = set_request_def change_reader_def close_reader_def unregister_def signalLocked_def

lemma change_reader_simps [simp]:
  "po_request (change_reader r f s) = po_request s" "po_readers (change_reader r f s) = po_readers s"
  "po_next (change_reader r f s) = po_next s" "po_changed (change_reader r f s) = po_changed s"
  "po_closed (change_reader r f s) = po_closed s" "po_max (change_reader r f s) = po_max s"
  by (simp_all add: change_reader_def)

lemma set_request_simps [simp]:
  "po_reader (set_request t q s) = po_reader s" "po_readers (set_request t q s) = po_readers s"
  "po_next (set_request t q s) = po_next s" "po_changed (set_request t q s) = po_changed s"
  "po_closed (set_request t q s) = po_closed s" "po_max (set_request t q s) = po_max s"
  by (simp_all add: set_request_def)

lemma new_pool_inv: "0 < m \<Longrightarrow> pool_inv (newReaderPool m)"
  by (simp add: pool_inv_def newReaderPool_def registry_ok_def holders_ok_def cleanup_ok_def wakeup_ok_def blocked_def)

lemma map_of_reader: "registry_ok s \<Longrightarrow> map_of (po_readers s) p = Some r \<longleftrightarrow> (p, r) \<in> set (po_readers s)"
  by (simp add: registry_ok_def)

lemma registered_once:
  assumes "registry_ok s" and "(p, r) \<in> set (po_readers s)" and "(q, r') \<in> set (po_readers s)"
  shows "q = p \<longleftrightarrow> r' = r"
proof -
  have "inj_on fst (set (po_readers s))" "inj_on snd (set (po_readers s))"
    using assms(1) by (simp_all add: registry_ok_def distinct_map)
  then show ?thesis using assms(2,3) inj_onD [of fst _ "(p, r)" "(q, r')"] inj_onD [of snd _ "(p, r)" "(q, r')"] by auto
qed

section \<open>Dropping an idle reader\<close>

lemma drop_inv:
  assumes inv: "pool_inv s" and reg: "(p, r) \<in> set (po_readers s)" and idle: "\<not> rd_locked (po_reader s r)"
  shows "pool_inv (unregister p (close_reader r s))"
proof -
  let ?s = "unregister p (close_reader r s)"
  have parts: "registry_ok s" "holders_ok s" "cleanup_ok s" "wakeup_ok s" using inv by (simp_all add: pool_inv_def)
  have r: "r < po_next s" using parts(1) reg by (auto simp: registry_ok_def)
  have free: "po_request s t \<noteq> Holding q r" for t q using parts(2) idle by (auto simp: holders_ok_def)
  have same: "po_request ?s = po_request s" "po_next ?s = po_next s" "po_changed ?s = po_changed s" "po_closed ?s = po_closed s"
    "po_max ?s = po_max s" "rd_locked (po_reader ?s x) = rd_locked (po_reader s x)"
    "rd_closed (po_reader ?s x) \<longleftrightarrow> x = r \<or> rd_closed (po_reader s x)"
    "rd_broken (po_reader ?s x) \<longleftrightarrow> x = r \<or> rd_broken (po_reader s x)" for x
    by (simp_all add: pool_updates)
  have readers: "(q, x) \<in> set (po_readers ?s) \<longleftrightarrow> (q, x) \<in> set (po_readers s) \<and> x \<noteq> r" for q x
    using registered_once [OF parts(1) reg, of q x] by (auto simp: pool_updates)
  then have numbers: "x \<in> snd ` set (po_readers ?s) \<longleftrightarrow> x \<in> snd ` set (po_readers s) \<and> x \<noteq> r" for x
    by (force simp: image_iff)
  have "registry_ok ?s"
    using parts(1) readers unfolding registry_ok_def same
    by (auto simp: unregister_def pool_updates distinct_map_filter intro: order_trans [OF length_filter_le])
  moreover have "holders_ok ?s"
    using parts(2) free unfolding holders_ok_def same readers by blast
  moreover have "cleanup_ok ?s"
    using parts(3) unfolding cleanup_ok_def same readers numbers by blast
  moreover have "wakeup_ok ?s"
    using parts(4) unfolding wakeup_ok_def blocked_def same .
  ultimately show ?thesis by (simp add: pool_inv_def)
qed

lemma idle_reader_Some: "idle_reader s p = Some r \<Longrightarrow> (p, r) \<in> set (po_readers s) \<and> \<not> rd_locked (po_reader s r)"
  by (auto simp: idle_reader_def map_of_SomeD split: option.splits if_splits)

lemma drop_idle_inv: "pool_inv s \<Longrightarrow> pool_inv (drop_idle p s)"
  using idle_reader_Some [of s p] by (auto simp: drop_idle_def intro: drop_inv split: option.split)

lemma drop_idle_same:
  "po_request (drop_idle p s) = po_request s" "po_changed (drop_idle p s) = po_changed s"
  "po_closed (drop_idle p s) = po_closed s" "po_max (drop_idle p s) = po_max s"
  "set (po_readers (drop_idle p s)) \<subseteq> set (po_readers s)"
  by (auto simp: drop_idle_def pool_updates split: option.split)

lemma evict_idle_inv: "pool_inv s \<Longrightarrow> pool_inv (evict_idle order s)"
  by (auto simp: evict_idle_def drop_idle_inv split: option.split)

lemma evict_idle_same:
  "po_request (evict_idle order s) = po_request s" "po_changed (evict_idle order s) = po_changed s"
  "po_closed (evict_idle order s) = po_closed s" "po_max (evict_idle order s) = po_max s"
  "set (po_readers (evict_idle order s)) \<subseteq> set (po_readers s)"
  using drop_idle_same by (auto simp: evict_idle_def split: option.splits if_splits)

lemma evict_idle_full:
  assumes inv: "pool_inv s" and order: "fst ` set (po_readers s) \<subseteq> set order"
    and full: "\<not> length (po_readers (evict_idle order s)) < po_max s"
  shows "\<exists>u. obliged (po_request s u)"
proof -
  have reg: "registry_ok s" using inv by (simp add: pool_inv_def)
  have "find (\<lambda>q. idle_reader s q \<noteq> None) order = None"
  proof (rule ccontr)
    assume "find (\<lambda>q. idle_reader s q \<noteq> None) order \<noteq> None"
    then obtain q where q: "find (\<lambda>q. idle_reader s q \<noteq> None) order = Some q" by blast
    then obtain r where r: "idle_reader s q = Some r" by (auto simp: find_Some_iff)
    then have "(q, r) \<in> set (po_readers s)" using idle_reader_Some by blast
    then have less: "length (filter (\<lambda>x. fst x \<noteq> q) (po_readers s)) < length (po_readers s)"
      by (intro length_filter_less) auto
    have "po_readers (evict_idle order s) =
        (if po_max s \<le> length (po_readers s) then filter (\<lambda>x. fst x \<noteq> q) (po_readers s) else po_readers s)"
      using q r by (simp add: evict_idle_def drop_idle_def pool_updates)
    then show False using full less reg by (simp add: registry_ok_def split: if_splits)
  qed
  then have none: "idle_reader s q = None" if "q \<in> set order" for q using that by (auto simp: find_None_iff)
  have "po_readers s \<noteq> []" using full reg \<open>find _ order = None\<close> by (auto simp: registry_ok_def evict_idle_def)
  then obtain p r where pr: "(p, r) \<in> set (po_readers s)" by (cases "po_readers s") auto
  then have "map_of (po_readers s) p = Some r" using map_of_reader [OF reg] by blast
  moreover have "idle_reader s p = None" using pr order by (intro none) force
  ultimately have "rd_locked (po_reader s r)" by (simp add: idle_reader_def split: if_splits)
  moreover have "r < po_next s" using reg pr by (auto simp: registry_ok_def)
  ultimately obtain t q where "po_request s t = Holding q r" using inv by (auto simp: pool_inv_def holders_ok_def)
  then show ?thesis by (metis obliged_simps(1))
qed

section \<open>Requests\<close>

definition quiet :: "request \<Rightarrow> bool" where
  "quiet q \<longleftrightarrow> (case q of Idle \<Rightarrow> True | Waiting _ _ \<Rightarrow> True | _ \<Rightarrow> False)"

lemma quiet_simps [simp]:
  "quiet Idle" "quiet (Waiting p e)" "\<not> quiet (Holding p r)" "\<not> quiet (Discarding p r)" "\<not> quiet (Closing rs b)"
  "\<not> quiet Signalling"
  by (simp_all add: quiet_def)

lemma quiet_not_obliged: "quiet q \<Longrightarrow> \<not> obliged q"
  by (cases q) simp_all

lemma request_inv:
  assumes inv: "pool_inv s" and t: "quiet (po_request s t)" and q: "quiet q"
    and wait: "\<And>p e. q = Waiting p e \<Longrightarrow> e = po_changed s \<and> (\<exists>u. obliged (po_request s u))"
  shows "pool_inv (set_request t q s)"
proof -
  let ?s = "set_request t q s"
  have same: "po_next ?s = po_next s" "po_changed ?s = po_changed s" "po_closed ?s = po_closed s" "po_max ?s = po_max s"
    "po_readers ?s = po_readers s" "po_reader ?s = po_reader s" by (simp_all add: pool_updates)
  have keep: "po_request ?s u = x \<longleftrightarrow> po_request s u = x" if "\<not> quiet x" for u x
    using that t q by (auto simp: set_request_def)
  have hold: "po_request ?s u = Holding p r \<longleftrightarrow> po_request s u = Holding p r"
    and discard: "po_request ?s u = Discarding p r \<longleftrightarrow> po_request s u = Discarding p r"
    and closing: "po_request ?s u = Closing rs b \<longleftrightarrow> po_request s u = Closing rs b" for u p r rs b
    by (simp_all add: keep)
  have obliged: "obliged (po_request ?s u) \<longleftrightarrow> obliged (po_request s u)" for u
    using quiet_not_obliged t q by (simp add: set_request_def)
  have "wakeup_ok ?s"
  proof -
    have "e \<le> po_changed s" if "po_request ?s u = Waiting p e" for u p e
      using that wait inv by (cases "u = t") (auto simp: set_request_def pool_inv_def wakeup_ok_def)
    moreover have "\<exists>v. obliged (po_request s v)" if b: "blocked ?s u" for u
    proof (cases "u = t")
      case True
      have "case q of Waiting _ e \<Rightarrow> e = po_changed s | _ \<Rightarrow> False"
        using b True by (cases q) (simp_all add: blocked_def set_request_def)
      then obtain p e where "q = Waiting p e" by (cases q) auto
      then show ?thesis using wait by blast
    next
      case False
      then have "blocked s u" using b by (cases "po_request s u") (simp_all add: blocked_def set_request_def)
      then show ?thesis using inv by (auto simp: pool_inv_def wakeup_ok_def)
    qed
    ultimately show ?thesis unfolding wakeup_ok_def same obliged by blast
  qed
  moreover have "registry_ok s" "holders_ok s" "cleanup_ok s" using inv by (simp_all add: pool_inv_def)
  then have "registry_ok ?s" "holders_ok ?s" "cleanup_ok ?s"
    unfolding registry_ok_def holders_ok_def cleanup_ok_def same hold discard closing .
  ultimately show ?thesis by (simp add: pool_inv_def)
qed

lemma Idle_inv: "pool_inv s \<Longrightarrow> quiet (po_request s t) \<Longrightarrow> pool_inv (set_request t Idle s)"
  by (rule request_inv) simp_all

lemma Waiting_inv:
  "pool_inv s \<Longrightarrow> quiet (po_request s t) \<Longrightarrow> obliged (po_request s u) \<Longrightarrow> pool_inv (set_request t (Waiting p (po_changed s)) s)"
  by (rule request_inv) auto

lemma lock_inv:
  assumes inv: "pool_inv s" and t: "quiet (po_request s t)" and reg: "(p, r) \<in> set (po_readers s)"
    and idle: "\<not> rd_locked (po_reader s r)" "\<not> rd_broken (po_reader s r)"
  shows "pool_inv (set_request t (Holding p r) (change_reader r (\<lambda>x. x\<lparr>rd_locked := True\<rparr>) s))"
proof -
  let ?s = "set_request t (Holding p r) (change_reader r (\<lambda>x. x\<lparr>rd_locked := True\<rparr>) s)"
  have parts: "registry_ok s" "holders_ok s" "cleanup_ok s" "wakeup_ok s" using inv by (simp_all add: pool_inv_def)
  have r: "r < po_next s" "\<not> rd_closed (po_reader s r)" using parts(1) reg by (auto simp: registry_ok_def)
  have free: "po_request s u \<noteq> Holding q r" for u q using parts(2) idle by (auto simp: holders_ok_def)
  have same: "po_next ?s = po_next s" "po_changed ?s = po_changed s" "po_closed ?s = po_closed s"
    "po_max ?s = po_max s" "po_readers ?s = po_readers s" "rd_closed (po_reader ?s x) = rd_closed (po_reader s x)"
    "rd_broken (po_reader ?s x) = rd_broken (po_reader s x)"
    "rd_locked (po_reader ?s x) \<longleftrightarrow> x = r \<or> rd_locked (po_reader s x)" for x by (simp_all add: pool_updates)
  have hold: "po_request ?s u = Holding q x \<longleftrightarrow> (if u = t then q = p \<and> x = r else po_request s u = Holding q x)"
    and discard: "po_request ?s u = Discarding q x \<longleftrightarrow> po_request s u = Discarding q x"
    and closing: "po_request ?s u = Closing rs b \<longleftrightarrow> po_request s u = Closing rs b" for u q x rs b
    using t by (auto simp: set_request_def)
  have "holders_ok ?s"
  proof -
    have "\<exists>u q. po_request ?s u = Holding q x" if x: "x < po_next s" "x = r \<or> rd_locked (po_reader s x)" for x
    proof (cases "x = r")
      case False
      then obtain u q where "po_request s u = Holding q x" using x parts(2) by (auto simp: holders_ok_def)
      then show ?thesis using t by (intro exI [of _ u] exI [of _ q]) (auto simp: set_request_def)
    qed (auto simp: set_request_def)
    then show ?thesis using parts(2) reg r free unfolding holders_ok_def same hold by (auto split: if_splits)
  qed
  moreover have "wakeup_ok ?s"
    using parts(4) unfolding wakeup_ok_def same by (auto simp: set_request_def change_reader_def intro: exI [of _ t])
  moreover have "registry_ok ?s" using parts(1) unfolding registry_ok_def same .
  moreover have "cleanup_ok ?s" using parts(3) idle(2) unfolding cleanup_ok_def same discard closing by blast
  ultimately show ?thesis by (simp add: pool_inv_def)
qed

lemma new_reader_inv:
  assumes inv: "pool_inv s" and t: "quiet (po_request s t)" and room: "length (po_readers s) < po_max s"
    and p: "p \<notin> fst ` set (po_readers s)" and opened: "\<not> po_closed s"
  shows "pool_inv (set_request t (Holding p (po_next s))
    (s\<lparr>po_readers := (p, po_next s) # po_readers s,
       po_reader := (po_reader s)(po_next s := \<lparr>rd_locked = True, rd_broken = False, rd_closed = False, rd_lastUsed = now\<rparr>),
       po_next := po_next s + 1\<rparr>))" (is "pool_inv ?s")
proof -
  let ?r = "po_next s"
  have parts: "registry_ok s" "holders_ok s" "cleanup_ok s" "wakeup_ok s" using inv by (simp_all add: pool_inv_def)
  have same: "po_next ?s = Suc ?r" "po_changed ?s = po_changed s" "po_closed ?s = po_closed s" "po_max ?s = po_max s"
    "po_readers ?s = (p, ?r) # po_readers s"
    "rd_closed (po_reader ?s x) \<longleftrightarrow> x \<noteq> ?r \<and> rd_closed (po_reader s x)"
    "rd_broken (po_reader ?s x) \<longleftrightarrow> x \<noteq> ?r \<and> rd_broken (po_reader s x)"
    "rd_locked (po_reader ?s x) \<longleftrightarrow> x = ?r \<or> rd_locked (po_reader s x)" for x by (simp_all add: pool_updates)
  have hold: "po_request ?s u = Holding q x \<longleftrightarrow> (if u = t then q = p \<and> x = ?r else po_request s u = Holding q x)"
    and discard: "po_request ?s u = Discarding q x \<longleftrightarrow> po_request s u = Discarding q x"
    and closing: "po_request ?s u = Closing rs b \<longleftrightarrow> po_request s u = Closing rs b" for u q x rs b
    using t by (auto simp: set_request_def)
  have fresh: "(q, x) \<in> set (po_readers s) \<Longrightarrow> x < ?r" for q x using parts(1) by (auto simp: registry_ok_def)
  then have fresh': "?r \<notin> snd ` set (po_readers s)" by force
  have "registry_ok ?s"
    using parts(1) room p opened fresh' fresh unfolding registry_ok_def same by (auto simp: less_Suc_eq)
  moreover have "holders_ok ?s"
  proof -
    have "\<exists>u q. po_request ?s u = Holding q x" if x: "x < Suc ?r" "x = ?r \<or> rd_locked (po_reader s x)" for x
    proof (cases "x = ?r")
      case False
      then obtain u q where "po_request s u = Holding q x" using x parts(2) by (auto simp: holders_ok_def less_Suc_eq)
      then show ?thesis using t by (intro exI [of _ u] exI [of _ q]) (auto simp: set_request_def)
    qed (auto simp: set_request_def)
    moreover have "po_request s u = Holding q x \<Longrightarrow> x < ?r" for u q x using parts(2) by (auto simp: holders_ok_def)
    ultimately show ?thesis using parts(2) unfolding holders_ok_def same hold
      by (auto split: if_splits simp: less_Suc_eq)
  qed
  moreover have "cleanup_ok ?s"
  proof -
    have "?r \<notin> set rs" if "po_request s u = Closing rs b" for u rs b
      using that parts(3) unfolding cleanup_ok_def by (metis less_irrefl)
    moreover have "po_request s u \<noteq> Discarding q ?r" for u q
      using parts(3) unfolding cleanup_ok_def by (metis less_irrefl)
    ultimately show ?thesis
      using parts(3) fresh unfolding cleanup_ok_def same discard closing by (auto simp: less_Suc_eq)
  qed
  moreover have "wakeup_ok ?s"
    using parts(4) unfolding wakeup_ok_def same by (auto simp: set_request_def intro: exI [of _ t])
  ultimately show ?thesis by (simp add: pool_inv_def)
qed

section \<open>The steps\<close>

lemma start_reader_inv:
  assumes inv: "pool_inv s" and t: "quiet (po_request s t)" and opened: "\<not> po_closed s"
    and p: "p \<notin> fst ` set (po_readers s)" and order: "fst ` set (po_readers s) \<subseteq> set order"
  shows "pool_inv (start_reader t p order now started s)"
proof -
  let ?e = "evict_idle order s"
  have e: "pool_inv ?e" "po_request ?e = po_request s" "po_closed ?e = po_closed s" "p \<notin> fst ` set (po_readers ?e)"
    using evict_idle_inv [OF inv] evict_idle_same [of order s] p by auto
  consider "length (po_readers ?e) < po_max ?e" started | "length (po_readers ?e) < po_max ?e" "\<not> started"
    | u where "\<not> length (po_readers ?e) < po_max ?e" "obliged (po_request s u)"
    using evict_idle_full [OF inv order] evict_idle_same(4) [of order s] by auto
  then show ?thesis
  proof cases
    case 1
    then show ?thesis using new_reader_inv [OF e(1)] e t opened by (simp add: start_reader_def Let_def)
  next
    case 2
    then show ?thesis using Idle_inv [OF e(1)] e t by (simp add: start_reader_def Let_def)
  next
    case 3
    then show ?thesis using Waiting_inv [OF e(1)] e t by (simp add: start_reader_def Let_def)
  qed
qed

lemma acquire_inv:
  assumes inv: "pool_inv s" and t: "quiet (po_request s t)" and order: "fst ` set (po_readers s) \<subseteq> set order"
  shows "pool_inv (acquire t p order now started s)"
proof (cases "po_closed s")
  case True
  then show ?thesis using Idle_inv [OF inv t] by (simp add: acquire_def)
next
  case False
  have reg: "registry_ok s" using inv by (simp add: pool_inv_def)
  show ?thesis
  proof (cases "map_of (po_readers s) p")
    case None
    then have "p \<notin> fst ` set (po_readers s)" by (simp add: map_of_eq_None_iff)
    then show ?thesis using start_reader_inv [OF inv t False _ order] False None by (simp add: acquire_def)
  next
    case (Some r)
    then have pr: "(p, r) \<in> set (po_readers s)" using map_of_reader [OF reg] by blast
    then have r: "r < po_next s" using reg by (auto simp: registry_ok_def)
    consider "rd_locked (po_reader s r)" | "\<not> rd_locked (po_reader s r)" "\<not> rd_broken (po_reader s r)"
      | "\<not> rd_locked (po_reader s r)" "rd_broken (po_reader s r)" by blast
    then show ?thesis
    proof cases
      case 1
      then obtain u q where "po_request s u = Holding q r" using inv r by (auto simp: pool_inv_def holders_ok_def)
      then have "obliged (po_request s u)" by simp
      then show ?thesis using Waiting_inv [OF inv t] False Some 1 by (simp add: acquire_def)
    next
      case 2
      then show ?thesis using lock_inv [OF inv t pr 2] False Some 2 by (simp add: acquire_def)
    next
      case 3
      let ?s = "unregister p (close_reader r s)"
      have "pool_inv ?s" by (rule drop_inv [OF inv pr 3(1)])
      moreover have "p \<notin> fst ` set (po_readers ?s)" "fst ` set (po_readers ?s) \<subseteq> set order"
        "po_request ?s = po_request s" "\<not> po_closed ?s"
        using order False by (auto simp: pool_updates)
      ultimately show ?thesis using start_reader_inv [of ?s t p order now started] t False Some 3 by (simp add: acquire_def)
    qed
  qed
qed

lemma release_inv:
  assumes inv: "pool_inv s" and t: "po_request s t = Holding p r"
  shows "pool_inv (release t p r s)"
proof -
  let ?s = "release t p r s"
  have parts: "registry_ok s" "holders_ok s" "cleanup_ok s" "wakeup_ok s" using inv by (simp_all add: pool_inv_def)
  have same: "po_next ?s = po_next s" "po_changed ?s = po_changed s" "po_closed ?s = po_closed s"
    "po_max ?s = po_max s" "po_readers ?s = po_readers s" "rd_closed (po_reader ?s x) = rd_closed (po_reader s x)"
    "rd_broken (po_reader ?s x) = rd_broken (po_reader s x)"
    "rd_locked (po_reader ?s x) \<longleftrightarrow> x \<noteq> r \<and> rd_locked (po_reader s x)" for x by (simp_all add: release_def pool_updates)
  have hold: "po_request ?s u = Holding q x \<longleftrightarrow> u \<noteq> t \<and> po_request s u = Holding q x"
    and discard: "po_request ?s u = Discarding q x \<longleftrightarrow>
      (if u = t then rd_broken (po_reader s r) \<and> q = p \<and> x = r else po_request s u = Discarding q x)"
    and closing: "po_request ?s u = Closing rs b \<longleftrightarrow> po_request s u = Closing rs b" for u q x rs b
    using t by (auto simp: release_def set_request_def)
  have only: "u = t" if "po_request s u = Holding q r" for u q
    using parts(2) t that unfolding holders_ok_def by blast
  have "(q, r) \<in> set (po_readers s) \<Longrightarrow> q = p" for q
    using parts(1,2) t registered_once [OF parts(1), of p r q r] by (cases "po_closed s") (auto simp: registry_ok_def holders_ok_def)
  moreover have "r < po_next s" using parts(2) t by (auto simp: holders_ok_def)
  ultimately have "cleanup_ok ?s"
    using parts(3) unfolding cleanup_ok_def same discard closing by auto
  moreover have "holders_ok ?s"
  proof -
    have *: "x = r" if "po_request s t = Holding q x" for q x using that t by simp
    have "x \<noteq> r" if "u \<noteq> t" "po_request s u = Holding q x" for u q x using that only by blast
    then show ?thesis using parts(2) * unfolding holders_ok_def same hold by auto metis
  qed
  moreover have "wakeup_ok ?s"
  proof -
    have "obliged (po_request ?s t)" by (simp add: release_def set_request_def)
    moreover have "e \<le> po_changed s" if "po_request ?s u = Waiting q e" for u q e
      using that parts(4) by (cases "u = t") (auto simp: release_def set_request_def wakeup_ok_def split: if_splits)
    ultimately show ?thesis unfolding wakeup_ok_def same by blast
  qed
  ultimately show ?thesis using parts(1) unfolding pool_inv_def registry_ok_def same by blast
qed

lemma forget_inv:
  assumes inv: "pool_inv s" and t: "po_request s t = Discarding p r"
  shows "pool_inv (forget t p r s)"
proof -
  let ?s = "forget t p r s"
  have parts: "registry_ok s" "holders_ok s" "cleanup_ok s" "wakeup_ok s" using inv by (simp_all add: pool_inv_def)
  have same: "po_next ?s = po_next s" "po_closed ?s = po_closed s" "po_max ?s = po_max s" "po_reader ?s = po_reader s"
    by (simp_all add: forget_def pool_updates)
  have own: "q = p" if "(q, r) \<in> set (po_readers s)" for q
    using that parts(3) t unfolding cleanup_ok_def by blast
  have readers: "(q, x) \<in> set (po_readers ?s) \<longleftrightarrow> (q, x) \<in> set (po_readers s) \<and> x \<noteq> r" for q x
  proof (cases "map_of (po_readers s) p = Some r")
    case True
    then show ?thesis using registered_once [OF parts(1), of p r q x] map_of_reader [OF parts(1)]
      by (auto simp: forget_def pool_updates)
  next
    case False
    then show ?thesis using own map_of_reader [OF parts(1)] by (auto simp: forget_def pool_updates)
  qed
  then have numbers: "x \<in> snd ` set (po_readers ?s) \<longleftrightarrow> x \<in> snd ` set (po_readers s) \<and> x \<noteq> r" for x
    by (force simp: image_iff)
  have hold: "po_request ?s u = Holding q x \<longleftrightarrow> po_request s u = Holding q x"
    and discard: "po_request ?s u = Discarding q x \<longleftrightarrow> u \<noteq> t \<and> po_request s u = Discarding q x"
    and closing: "po_request ?s u = Closing rs b \<longleftrightarrow> (if u = t then rs = [r] \<and> b else po_request s u = Closing rs b)"
    for u q x rs b
    using t by (auto simp: forget_def set_request_def signalLocked_def unregister_def)
  have r: "r < po_next s" using parts(3) t by (auto simp: cleanup_ok_def)
  have "registry_ok ?s"
    using parts(1) readers unfolding registry_ok_def same
    by (auto simp: forget_def signalLocked_def unregister_def distinct_map_filter intro: order_trans [OF length_filter_le])
  moreover have "holders_ok ?s"
  proof -
    have "po_request s u \<noteq> Holding q r" for u q
      using parts(2,3) t unfolding holders_ok_def cleanup_ok_def by blast
    then show ?thesis using parts(2) unfolding holders_ok_def same hold readers by metis
  qed
  moreover have "cleanup_ok ?s"
  proof -
    have "(\<exists>u rs b. po_request ?s u = Closing rs b \<and> x \<in> set rs)" if "po_request s u = Closing rs b" "x \<in> set rs" for u rs b x
      using that closing [of u rs b] t by (cases "u = t") auto
    moreover have "\<exists>u rs b. po_request ?s u = Closing rs b \<and> r \<in> set rs" by (intro exI [of _ t] exI [of _ "[r]"] exI [of _ True]) (simp add: closing)
    ultimately have "r' \<in> snd ` set (po_readers ?s) \<or> (\<exists>u rs b. po_request ?s u = Closing rs b \<and> r' \<in> set rs)"
      if "r' < po_next s" "\<not> rd_closed (po_reader s r')" for r'
      using that parts(3) unfolding cleanup_ok_def numbers by metis
    moreover have "x < po_next s \<and> x \<notin> snd ` set (po_readers ?s)" if "po_request ?s u = Closing rs b" "x \<in> set rs" for u rs b x
      using that parts(3) r unfolding closing numbers cleanup_ok_def by (auto split: if_splits)
    ultimately show ?thesis using parts(3) unfolding cleanup_ok_def same readers discard by metis
  qed
  moreover have "wakeup_ok ?s"
  proof -
    have "obliged (po_request ?s t)" by (simp add: forget_def set_request_def)
    moreover have "e \<le> po_changed ?s" if "po_request ?s u = Waiting q e" for u q e
      using that parts(4) by (cases "u = t") (auto simp: forget_def set_request_def wakeup_ok_def signalLocked_def unregister_def split: if_splits intro: le_SucI)
    ultimately show ?thesis unfolding wakeup_ok_def by blast
  qed
  ultimately show ?thesis by (simp add: pool_inv_def)
qed

lemma close_next_inv:
  assumes inv: "pool_inv s" and t: "po_request s t = Closing rs b"
    and free: "rs \<noteq> [] \<longrightarrow> \<not> rd_locked (po_reader s (hd rs))"
  shows "pool_inv (close_next t rs b s)"
proof -
  let ?s = "close_next t rs b s"
  have parts: "registry_ok s" "holders_ok s" "cleanup_ok s" "wakeup_ok s" using inv by (simp_all add: pool_inv_def)
  have same: "po_next ?s = po_next s" "po_changed ?s = po_changed s" "po_closed ?s = po_closed s"
    "po_max ?s = po_max s" "po_readers ?s = po_readers s" "rd_locked (po_reader ?s x) = rd_locked (po_reader s x)"
    "rd_closed (po_reader ?s x) \<longleftrightarrow> (rs \<noteq> [] \<and> x = hd rs) \<or> rd_closed (po_reader s x)"
    "rd_broken (po_reader ?s x) \<longleftrightarrow> (rs \<noteq> [] \<and> x = hd rs) \<or> rd_broken (po_reader s x)" for x
    by (cases rs; simp add: close_next_def close_reader_def change_reader_def)+
  have hold: "po_request ?s u = Holding q x \<longleftrightarrow> po_request s u = Holding q x"
    and discard: "po_request ?s u = Discarding q x \<longleftrightarrow> po_request s u = Discarding q x"
    and closing: "po_request ?s u = Closing ys c \<longleftrightarrow>
      (if u = t then rs \<noteq> [] \<and> ys = tl rs \<and> c = b else po_request s u = Closing ys c)" for u q x ys c
    using t by (cases rs; auto simp: close_next_def set_request_def close_reader_def)+
  have gone: "hd rs < po_next s \<and> hd rs \<notin> snd ` set (po_readers s)" if "rs \<noteq> []"
    using parts(3) t that unfolding cleanup_ok_def by (metis hd_in_set)
  have "registry_ok ?s"
    using parts(1) gone unfolding registry_ok_def same by (force simp: image_iff)
  moreover have "holders_ok ?s" using parts(2) free unfolding holders_ok_def same hold by metis
  moreover have "cleanup_ok ?s"
  proof -
    have "\<exists>v zs d. po_request ?s v = Closing zs d \<and> x \<in> set zs"
      if "po_request s u = Closing ys c" "x \<in> set ys" "\<not> (rs \<noteq> [] \<and> x = hd rs)" for u ys c x
    proof (cases "u = t")
      case True
      then have "x \<in> set (tl rs)" "rs \<noteq> []" using that t by (cases rs; auto)+
      then show ?thesis by (intro exI [of _ t] exI [of _ "tl rs"] exI [of _ b]) (simp add: closing)
    next
      case False
      then show ?thesis using that by (intro exI [of _ u] exI [of _ ys] exI [of _ c]) (simp add: closing)
    qed
    then have "r \<in> snd ` set (po_readers s) \<or> (\<exists>v zs d. po_request ?s v = Closing zs d \<and> r \<in> set zs)"
      if "r < po_next s" "\<not> ((rs \<noteq> [] \<and> r = hd rs) \<or> rd_closed (po_reader s r))" for r
      using that parts(3) unfolding cleanup_ok_def by metis
    moreover have "x < po_next s \<and> x \<notin> snd ` set (po_readers s)" if "po_request ?s u = Closing ys c" "x \<in> set ys" for u ys c x
    proof (cases "u = t")
      case True
      then have "rs \<noteq> []" "ys = tl rs" using that(1) by (simp_all add: closing)
      then have "x \<in> set rs" using that(2) by (simp add: list.set_sel(2))
      then show ?thesis using parts(3) t unfolding cleanup_ok_def by blast
    next
      case False
      then have "po_request s u = Closing ys c" using that(1) by (simp add: closing)
      then show ?thesis using that(2) parts(3) unfolding cleanup_ok_def by blast
    qed
    ultimately show ?thesis using parts(3) unfolding cleanup_ok_def same discard by blast
  qed
  moreover have "wakeup_ok ?s"
  proof -
    have wait: "po_request ?s u = Waiting p e \<Longrightarrow> po_request s u = Waiting p e" for u p e
      by (cases rs) (auto simp: close_next_def set_request_def close_reader_def split: if_splits)
    then have "blocked ?s u \<Longrightarrow> blocked s u" for u
      unfolding blocked_def same by (cases "po_request ?s u") auto
    moreover have "obliged (po_request s u) \<Longrightarrow> obliged (po_request ?s u)" for u
      using t by (cases rs) (auto simp: close_next_def set_request_def close_reader_def)
    ultimately show ?thesis using parts(4) wait unfolding wakeup_ok_def same by blast
  qed
  ultimately show ?thesis by (simp add: pool_inv_def)
qed

text \<open>A signal wakes everybody who waits.\<close>

lemma signalled_wakeup:
  assumes "wakeup_ok s" and "po_changed s' = Suc (po_changed s)"
    and "\<And>u p e. po_request s' u = Waiting p e \<Longrightarrow> po_request s u = Waiting p e"
  shows "wakeup_ok s' \<and> \<not> blocked s' u"
proof -
  have "e \<le> po_changed s" if "po_request s' u = Waiting p e" for u p e
    using assms(1) assms(3) [OF that] by (auto simp: wakeup_ok_def)
  then have less: "e < po_changed s'" if "po_request s' u = Waiting p e" for u p e
    using that by (simp add: assms(2) le_imp_less_Suc)
  then have "\<not> blocked s' u" for u by (cases "po_request s' u") (auto simp: blocked_def)
  then show ?thesis using less unfolding wakeup_ok_def by (auto intro: less_imp_le)
qed

lemma signal_inv:
  assumes inv: "pool_inv s" and t: "po_request s t = Signalling"
  shows "pool_inv (signal t s)"
proof -
  let ?s = "signal t s"
  have parts: "registry_ok s" "holders_ok s" "cleanup_ok s" "wakeup_ok s" using inv by (simp_all add: pool_inv_def)
  have same: "po_next ?s = po_next s" "po_closed ?s = po_closed s" "po_max ?s = po_max s" "po_readers ?s = po_readers s"
    "po_reader ?s = po_reader s" by (simp_all add: signal_def signalLocked_def)
  have requests: "po_request ?s u = (if u = t then Idle else po_request s u)" for u
    by (simp add: signal_def set_request_def signalLocked_def)
  have hold: "po_request ?s u = Holding q x \<longleftrightarrow> po_request s u = Holding q x"
    and discard: "po_request ?s u = Discarding q x \<longleftrightarrow> po_request s u = Discarding q x"
    and closing: "po_request ?s u = Closing ys c \<longleftrightarrow> po_request s u = Closing ys c" for u q x ys c
    using t by (auto simp: requests)
  have "registry_ok ?s" using parts(1) unfolding registry_ok_def same .
  moreover have "holders_ok ?s" using parts(2) unfolding holders_ok_def same hold .
  moreover have "cleanup_ok ?s" using parts(3) unfolding cleanup_ok_def same discard closing .
  moreover have "wakeup_ok ?s"
  proof (rule signalled_wakeup [OF parts(4), THEN conjunct1])
    show "po_changed ?s = Suc (po_changed s)" by (simp add: signal_def signalLocked_def)
    show "po_request s u = Waiting p e" if "po_request ?s u = Waiting p e" for u p e
      using that by (simp add: requests split: if_splits)
  qed
  ultimately show ?thesis by (simp add: pool_inv_def)
qed

lemma pool_close_inv:
  assumes inv: "pool_inv s" and t: "po_request s t = Idle"
  shows "pool_inv (pool_close t s)"
proof (cases "po_closed s")
  case True
  then show ?thesis using inv by (simp add: pool_close_def)
next
  case False
  let ?s = "pool_close t s" and ?rs = "map snd (po_readers s)"
  have parts: "registry_ok s" "holders_ok s" "cleanup_ok s" "wakeup_ok s" using inv by (simp_all add: pool_inv_def)
  have same: "po_next ?s = po_next s" "po_closed ?s" "po_max ?s = po_max s" "po_readers ?s = []" "po_reader ?s = po_reader s"
    using False by (simp_all add: pool_close_def signalLocked_def)
  have requests: "po_request ?s u = (if u = t then Closing ?rs False else po_request s u)" for u
    using False by (simp add: pool_close_def set_request_def signalLocked_def)
  have hold: "po_request ?s u = Holding q x \<longleftrightarrow> po_request s u = Holding q x"
    and discard: "po_request ?s u = Discarding q x \<longleftrightarrow> po_request s u = Discarding q x"
    and closing: "po_request ?s u = Closing ys c \<longleftrightarrow> (if u = t then ys = ?rs \<and> \<not> c else po_request s u = Closing ys c)"
    for u q x ys c
    using t by (auto simp: requests)
  have "registry_ok ?s" using parts(1) unfolding registry_ok_def same by simp
  moreover have "holders_ok ?s" using parts(2) False same(2) unfolding holders_ok_def same hold by blast
  moreover have "cleanup_ok ?s"
  proof -
    have "\<exists>v zs d. po_request ?s v = Closing zs d \<and> r \<in> set zs" if r: "r < po_next s" "\<not> rd_closed (po_reader s r)" for r
    proof (cases "r \<in> snd ` set (po_readers s)")
      case True
      then show ?thesis by (intro exI [of _ t] exI [of _ ?rs] exI [of _ False]) (simp add: closing)
    next
      case False
      then obtain u ys c where "po_request s u = Closing ys c" "r \<in> set ys" using r parts(3) unfolding cleanup_ok_def by blast
      then show ?thesis using t by (intro exI [of _ u] exI [of _ ys] exI [of _ c]) (auto simp: closing)
    qed
    moreover have "r < po_next s" if "r \<in> set ?rs" for r using that parts(1) by (auto simp: registry_ok_def)
    ultimately show ?thesis
      using parts(3) unfolding cleanup_ok_def same discard closing by (auto split: if_splits)
  qed
  moreover have "wakeup_ok ?s"
  proof (rule signalled_wakeup [OF parts(4), THEN conjunct1])
    show "po_changed ?s = Suc (po_changed s)" using False by (simp add: pool_close_def signalLocked_def)
    show "po_request s u = Waiting p e" if "po_request ?s u = Waiting p e" for u p e
      using that by (simp add: requests split: if_splits)
  qed
  ultimately show ?thesis by (simp add: pool_inv_def)
qed

lemma use_reader_inv:
  assumes inv: "pool_inv s"
  shows "pool_inv (use_reader r now breaks s)"
proof -
  let ?s = "use_reader r now breaks s"
  have parts: "registry_ok s" "holders_ok s" "cleanup_ok s" "wakeup_ok s" using inv by (simp_all add: pool_inv_def)
  have same: "po_next ?s = po_next s" "po_changed ?s = po_changed s" "po_closed ?s = po_closed s"
    "po_max ?s = po_max s" "po_readers ?s = po_readers s" "po_request ?s = po_request s"
    "rd_locked (po_reader ?s x) = rd_locked (po_reader s x)" "rd_closed (po_reader ?s x) = rd_closed (po_reader s x)"
    "rd_broken (po_reader s x) \<Longrightarrow> rd_broken (po_reader ?s x)" for x
    by (auto simp: use_reader_def change_reader_def)
  have "registry_ok ?s" using parts(1) unfolding registry_ok_def same(1-8) .
  moreover have "holders_ok ?s" using parts(2) unfolding holders_ok_def same(1-8) .
  moreover have "cleanup_ok ?s" using parts(3) same(9) unfolding cleanup_ok_def same(1-8) by blast
  moreover have "wakeup_ok ?s" using parts(4) unfolding wakeup_ok_def blocked_def same(1-8) .
  ultimately show ?thesis by (simp add: pool_inv_def)
qed

lemma closeIdleLocked_inv: "pool_inv s \<Longrightarrow> pool_inv (closeIdleLocked cutoff order s)"
  unfolding closeIdleLocked_def
  by (induction order arbitrary: s) (auto simp: reap_one_def drop_idle_inv split: option.split)

lemma pool_exec_inv:
  assumes "pool_inv s" and "pool_allowed op s"
  shows "pool_inv (pool_exec op s)"
proof (cases op)
  case (Acquire t path order now started)
  then have "quiet (po_request s t)" using assms(2) by (cases "po_request s t") simp_all
  then show ?thesis using acquire_inv [OF assms(1)] Acquire assms(2) by simp
next
  case (Cancel t)
  then have "quiet (po_request s t)" using assms(2) by (cases "po_request s t") simp_all
  then show ?thesis using Idle_inv [OF assms(1)] Cancel by simp
next
  case (Use t now breaks)
  then show ?thesis using assms(1) use_reader_inv by (cases "po_request s t") simp_all
next
  case (Release t)
  then show ?thesis using assms(1) release_inv by (cases "po_request s t") simp_all
next
  case (Forget t)
  then show ?thesis using assms(1) forget_inv by (cases "po_request s t") simp_all
next
  case (CloseNext t)
  show ?thesis
  proof (cases "po_request s t")
    case (Closing rs b)
    then have "rs \<noteq> [] \<longrightarrow> \<not> rd_locked (po_reader s (hd rs))" using assms(2) CloseNext by (cases rs) simp_all
    then show ?thesis using close_next_inv [OF assms(1) Closing] CloseNext Closing by simp
  qed (use assms(1) CloseNext in simp_all)
next
  case (Signal t)
  then show ?thesis using assms(1) signal_inv by (cases "po_request s t") simp_all
next
  case (Reap cutoff order)
  then show ?thesis using assms(1) closeIdleLocked_inv by simp
next
  case (ClosePool t)
  then show ?thesis using assms pool_close_inv by simp
qed

interpretation reader_pool: invariant_system pool_allowed pool_exec pool_inv
  by unfold_locales (rule pool_exec_inv)

section \<open>Properties\<close>

lemma reachable_pool: "reaches pool_allowed pool_exec (newReaderPool m) s \<Longrightarrow> 0 < m \<Longrightarrow> pool_inv s"
  using reader_pool.inv_reaches new_pool_inv by blast

lemma acquire_changed: "po_max (acquire t p order now started s) = po_max s"
  using evict_idle_same(4) by (auto simp: acquire_def start_reader_def Let_def pool_updates split: option.split)

lemma pool_exec_max: "po_max (pool_exec op s) = po_max s"
proof -
  have "po_max (closeIdleLocked cutoff order s) = po_max s" for cutoff order
    unfolding closeIdleLocked_def
    by (induction order arbitrary: s) (auto simp: reap_one_def drop_idle_same split: option.split)
  then show ?thesis
    by (cases op) (auto simp: acquire_changed use_reader_def release_def forget_def close_next_def signal_def pool_close_def
        close_reader_def signalLocked_def unregister_def split: request.split list.split)
qed

lemma reachable_max: "reaches pool_allowed pool_exec (newReaderPool m) s \<Longrightarrow> po_max s = m"
proof (induction "newReaderPool m" s rule: reaches.induct)
  case reaches_refl
  then show ?case by (simp add: newReaderPool_def)
qed (simp add: pool_exec_max)

text \<open>
  C12: under every interleaving of requests, cancellations, broken pipes, the reaper and the closing of
  the pool: the pool never lists more readers than its limit; a reader serves one request at a time
  and is not closed under it; and every process that was started is listed, or a request is about to
  close it, so that none is leaked.
\<close>

theorem readers_exclusive:
  assumes "reaches pool_allowed pool_exec (newReaderPool m) s" and "0 < m"
  shows "length (po_readers s) \<le> m \<and>
    (\<forall>t u p q r. po_request s t = Holding p r \<and> po_request s u = Holding q r \<longrightarrow> t = u) \<and>
    (\<forall>t p r. po_request s t = Holding p r \<longrightarrow> \<not> rd_closed (po_reader s r)) \<and>
    (\<forall>r < po_next s. rd_closed (po_reader s r) \<or> r \<in> snd ` set (po_readers s) \<or>
      (\<exists>t rs b. po_request s t = Closing rs b \<and> r \<in> set rs))"
proof -
  have inv: "pool_inv s" by (rule reachable_pool [OF assms])
  then have "registry_ok s" "holders_ok s" "cleanup_ok s" by (simp_all add: pool_inv_def)
  then show ?thesis
    using reachable_max [OF assms(1)] unfolding registry_ok_def holders_ok_def cleanup_ok_def by blast
qed

text \<open>
  C13: no wakeup is lost. A request waits only while another one will signal: it holds a reader, or is
  about to discard or close one, or to signal; a signal lets every waiting request go on; and when no
  other request is under way, \<open>acquire\<close> does not wait at all.
\<close>

theorem no_lost_wakeup:
  assumes "reaches pool_allowed pool_exec (newReaderPool m) s" and "0 < m"
  shows "(blocked s t \<longrightarrow> (\<exists>u. u \<noteq> t \<and> obliged (po_request s u))) \<and>
    (po_request s u = Signalling \<longrightarrow> \<not> blocked (pool_exec (Signal u) s) t) \<and>
    (pool_allowed (Acquire t p order now started) s \<and> (\<forall>u. \<not> obliged (po_request s u)) \<longrightarrow>
      \<not> blocked (pool_exec (Acquire t p order now started) s) t)"
proof (intro conjI impI)
  have inv: "pool_inv s" by (rule reachable_pool [OF assms])
  have other: "\<exists>u. u \<noteq> t \<and> obliged (po_request s' u)" if s': "pool_inv s'" "blocked s' t" for s'
  proof -
    have "wakeup_ok s'" using s'(1) by (simp add: pool_inv_def)
    then obtain u where u: "obliged (po_request s' u)" using s'(2) unfolding wakeup_ok_def by blast
    moreover have "\<not> obliged (po_request s' t)" using s'(2) by (cases "po_request s' t") (auto simp: blocked_def)
    ultimately show ?thesis by metis
  qed
  show "\<exists>u. u \<noteq> t \<and> obliged (po_request s u)" if "blocked s t" by (rule other [OF inv that])
  show "\<not> blocked (pool_exec (Signal u) s) t" if sig: "po_request s u = Signalling"
  proof -
    have w: "wakeup_ok s" using inv by (simp add: pool_inv_def)
    have "\<not> blocked (signal u s) t"
      by (rule signalled_wakeup [OF w, THEN conjunct2]) (auto simp: signal_def set_request_def signalLocked_def split: if_splits)
    then show ?thesis using sig by simp
  qed
  show "\<not> blocked (pool_exec (Acquire t p order now started) s) t"
    if idle: "pool_allowed (Acquire t p order now started) s \<and> (\<forall>u. \<not> obliged (po_request s u))"
  proof
    let ?s = "acquire t p order now started s"
    assume "blocked (pool_exec (Acquire t p order now started) s) t"
    then obtain u where u: "u \<noteq> t" "obliged (po_request ?s u)"
      using other [OF pool_exec_inv [OF inv conjunct1 [OF idle]]] by auto
    have "po_request ?s u = po_request s u"
      using u(1) evict_idle_same(1) by (auto simp: acquire_def start_reader_def Let_def set_request_def close_reader_def
          unregister_def split: option.split)
    then show False using u(2) idle by simp
  qed
qed

text \<open>Two requests share a pool of one reader; the first breaks it.\<close>

definition sample_pool_ops :: "pool_op list" where
  "sample_pool_ops =
     [Acquire 0 ''a'' [] 5 True, Acquire 1 ''a'' [''a''] 6 True, Use 0 7 True, Release 0, Forget 0]"

lemma sample_pool_allowed: "all_allowed pool_allowed pool_exec sample_pool_ops (newReaderPool 1)"
  by code_simp

lemma readers_exclusive_witness:
  "length (po_readers (run_ops pool_exec sample_pool_ops (newReaderPool 1))) \<le> 1"
  using readers_exclusive [OF reaches_run_ops [OF sample_pool_allowed]] by simp

lemma no_lost_wakeup_witness:
  "\<not> blocked (pool_exec (Signal 0) (pool_exec (CloseNext 0) (pool_exec (CloseNext 0)
      (run_ops pool_exec sample_pool_ops (newReaderPool 1))))) 1"
proof -
  let ?ops = "sample_pool_ops @ [CloseNext 0, CloseNext 0]"
  have ok: "all_allowed pool_allowed pool_exec ?ops (newReaderPool 1)" by code_simp
  have run: "run_ops pool_exec ?ops (newReaderPool 1) =
      pool_exec (CloseNext 0) (pool_exec (CloseNext 0) (run_ops pool_exec sample_pool_ops (newReaderPool 1)))"
    by (simp add: sample_pool_ops_def)
  have "po_request (run_ops pool_exec ?ops (newReaderPool 1)) 0 = Signalling" by code_simp
  then show ?thesis using no_lost_wakeup [OF reaches_run_ops [OF ok], of 1 0] unfolding run by simp
qed

text \<open>
  A discarded reader leaves the list before its process is stopped, so for a moment there can be one
  process more than the limit.
\<close>

lemma reader_limit_exceeded:
  "\<exists>s. reaches pool_allowed pool_exec (newReaderPool 1) s \<and> \<not> rd_closed (po_reader s 0) \<and> \<not> rd_closed (po_reader s 1) \<and>
     po_next s = 2"
proof (intro exI conjI)
  let ?ops = "sample_pool_ops @ [Acquire 2 ''b'' [] 8 True]"
  have "all_allowed pool_allowed pool_exec ?ops (newReaderPool 1)" by code_simp
  then show "reaches pool_allowed pool_exec (newReaderPool 1) (run_ops pool_exec ?ops (newReaderPool 1))" by (rule reaches_run_ops)
  show "\<not> rd_closed (po_reader (run_ops pool_exec ?ops (newReaderPool 1)) 0)" by code_simp
  show "\<not> rd_closed (po_reader (run_ops pool_exec ?ops (newReaderPool 1)) 1)" by code_simp
  show "po_next (run_ops pool_exec ?ops (newReaderPool 1)) = 2" by code_simp
qed

end
