(* ===== verification/Git_Diff.thy ===== *)
theory Git_Diff
  imports Git_Objects
begin

text \<open>
  The differences between two commits, \<open>git/diff.go\<close>: the readers of the three outputs of
  \<open>git diff-tree\<close> (the list of changed files, the counts of lines, the patch) and \<open>Repo.Diff\<close>, which
  puts them together within limits. What git prints is an argument; the buffered reader, its
  buffer and the ways a read ends are modelled.
\<close>

section \<open>Data\<close>

record DiffLimits =
  dm_MaxFiles :: int
  dm_MaxLines :: int
  dm_MaxLineBytes :: int

definition DefaultDiffLimits :: DiffLimits where
  "DefaultDiffLimits = \<lparr>dm_MaxFiles = 300, dm_MaxLines = 20000, dm_MaxLineBytes = 2000\<rparr>"

datatype FileStatus =
  StatusAdded | StatusModified | StatusDeleted | StatusRenamed | StatusCopied | StatusTypeChanged

datatype LineKind = LineContext | LineAdded | LineDeleted | LineNoNewline

record DiffLine =
  dl_Kind :: LineKind
  dl_OldNumber :: int
  dl_NewNumber :: int
  dl_Text :: string
  dl_Truncated :: bool

record Hunk =
  hk_Header :: string
  hk_Lines :: "DiffLine list"

record DiffFile =
  df_Status :: FileStatus
  df_OldPath :: string
  df_NewPath :: string
  df_OldMode :: string
  df_NewMode :: string
  df_Similarity :: int
  df_Additions :: int
  df_Deletions :: int
  df_Binary :: bool
  df_Hunks :: "Hunk list"
  df_PatchTruncated :: bool

definition DiffFile_Path :: "DiffFile \<Rightarrow> string" where
  "DiffFile_Path f = (if df_Status f = StatusDeleted then df_OldPath f else df_NewPath f)"

record Diff_result =
  dr_Files :: "DiffFile list"
  dr_MoreFiles :: int

text \<open>The errors of \<open>Diff\<close>; \<open>GitFailed\<close> is a run of git that failed, with what it wrote to stderr.\<close>

datatype diff_error =
  DiffNotFound | RawEntry string | TruncatedRaw | NumstatEntry string | MalformedHunk string | ReadPatch
| GitFailed string

section \<open>Text\<close>

definition nul :: char where
  "nul = CHR 0x00"

text \<open>\<open>bytes.TrimSuffix\<close>, \<open>strings.SplitN\<close>, and the number \<open>strconv.Atoi\<close> returns beside its error.\<close>

definition trim_suffix :: "string \<Rightarrow> string \<Rightarrow> string" where
  "trim_suffix s p = (if suffix p s then take (length s - length p) s else s)"

fun split_n :: "nat \<Rightarrow> string \<Rightarrow> string \<Rightarrow> string list" where
  "split_n 0 sep s = []"
| "split_n (Suc 0) sep s = [s]"
| "split_n (Suc (Suc n)) sep s =
     (case cut s sep of (a, b, found) \<Rightarrow> if found then a # split_n (Suc n) sep b else [s])"

definition atoi_value :: "string \<Rightarrow> int" where
  "atoi_value s =
     (let neg = prefix ''-'' s; body = (if neg \<or> prefix ''+'' s then tl s else s) in
      case parse_int s of
        Some n \<Rightarrow> n
      | None \<Rightarrow> if body = [] \<or> \<not> list_all is_digit body then 0
                else if neg then - (2 ^ 63) else 2 ^ 63 - 1)"

text \<open>\<open>x++\<close> of a Go \<open>int\<close>.\<close>

definition increment :: "int \<Rightarrow> int" where
  "increment n = (if n = 2 ^ 63 - 1 then - (2 ^ 63) else n + 1)"

section \<open>The list of changed files\<close>

text \<open>\<open>parseRawDiff\<close>: the fields from the one at index \<open>i\<close> on; \<open>n\<close> is \<open>total\<close>.\<close>

definition status_paths :: "string \<Rightarrow> nat" where
  "status_paths status = (if hd status = CHR ''R'' \<or> hd status = CHR ''C'' then 2 else 1)"

definition new_diff_file :: "string \<Rightarrow> string \<Rightarrow> DiffFile" where
  "new_diff_file old_mode new_mode =
     \<lparr>df_Status = StatusModified, df_OldPath = [], df_NewPath = [], df_OldMode = old_mode, df_NewMode = new_mode,
      df_Similarity = 0, df_Additions = 0, df_Deletions = 0, df_Binary = False, df_Hunks = [],
      df_PatchTruncated = False\<rparr>"

definition raw_file :: "string list \<Rightarrow> string list \<Rightarrow> DiffFile" where
  "raw_file parts paths =
     (let status = parts ! 4; c = hd status; f = new_diff_file (parts ! 0) (parts ! 1); p = paths ! 0;
          g = (if c = CHR ''A'' then f\<lparr>df_Status := StatusAdded, df_NewPath := p\<rparr>
               else if c = CHR ''D'' then f\<lparr>df_Status := StatusDeleted, df_OldPath := p\<rparr>
               else if c = CHR ''M'' then f\<lparr>df_Status := StatusModified, df_OldPath := p, df_NewPath := p\<rparr>
               else if c = CHR ''T'' then f\<lparr>df_Status := StatusTypeChanged, df_OldPath := p, df_NewPath := p\<rparr>
               else if c = CHR ''R'' \<or> c = CHR ''C''
               then f\<lparr>df_Status := (if c = CHR ''C'' then StatusCopied else StatusRenamed),
                      df_OldPath := p, df_NewPath := paths ! 1, df_Similarity := atoi_value (tl status)\<rparr>
               else f\<lparr>df_Status := StatusModified, df_OldPath := p, df_NewPath := p\<rparr>)
      in g\<lparr>df_OldPath := ToValidUTF8 (df_OldPath g), df_NewPath := ToValidUTF8 (df_NewPath g)\<rparr>)"

function parse_raw :: "int \<Rightarrow> DiffFile list \<Rightarrow> int \<Rightarrow> string list \<Rightarrow> (diff_error, DiffFile list \<times> int) result" where
  "parse_raw max_files files n [] = ok (files, n)"
| "parse_raw max_files files n (meta # rest) =
     (if meta = [] then parse_raw max_files files n rest
      else if \<not> prefix '':'' meta then Inl (RawEntry meta)
      else let parts = Fields (tl meta) in
        if length parts \<noteq> 5 then Inl (RawEntry meta)
        else let paths = status_paths (parts ! 4) in
          if length rest < paths then Inl TruncatedRaw
          else parse_raw max_files
            (if int (length files) < max_files then files @ [raw_file parts rest] else files)
            (n + 1) (drop paths rest))"
  by pat_completeness auto
termination by (relation "measure (\<lambda>(m, fs, n, xs). length xs)") auto

definition parseRawDiff :: "string \<Rightarrow> int \<Rightarrow> (diff_error, DiffFile list \<times> int) result" where
  "parseRawDiff data max_files = parse_raw max_files [] 0 (split_on nul (trim_suffix data [nul]))"

section \<open>The counts of lines\<close>

text \<open>\<open>applyNumstat\<close>: the files before index \<open>idx\<close> are done.\<close>

definition count_lines :: "string \<Rightarrow> string \<Rightarrow> DiffFile \<Rightarrow> DiffFile" where
  "count_lines additions deletions f =
     (if additions = ''-'' \<and> deletions = ''-'' then f\<lparr>df_Binary := True\<rparr>
      else f\<lparr>df_Additions := atoi_value additions, df_Deletions := atoi_value deletions\<rparr>)"

function numstat_loop :: "DiffFile list \<Rightarrow> DiffFile list \<Rightarrow> string list \<Rightarrow> (diff_error, DiffFile list) result" where
  "numstat_loop before after [] = ok (before @ after)"
| "numstat_loop before [] (entry # rest) = ok before"
| "numstat_loop before (f # after) (entry # rest) =
     (if entry = [] then numstat_loop before (f # after) rest
      else let parts = split_n 3 [CHR 0x09] entry in
        if length parts \<noteq> 3 then Inl (NumstatEntry entry)
        else numstat_loop (before @ [count_lines (parts ! 0) (parts ! 1) f]) after
               (if parts ! 2 = [] then drop 2 rest else rest))"
  by pat_completeness auto
termination by (relation "measure (\<lambda>(b, a, xs). length xs)") auto

definition applyNumstat :: "DiffFile list \<Rightarrow> string \<Rightarrow> (diff_error, DiffFile list) result" where
  "applyNumstat files data = numstat_loop [] files (split_on nul (trim_suffix data [nul]))"

section \<open>Lines of a buffered reader\<close>

text \<open>
  \<open>bufio.Reader.ReadSlice('\n')\<close> with \<open>b\<close> bytes of buffer, on the bytes still to be read: up to the newline, or
  a full buffer, or what is left when reading ends, with an end of file or an error. The buffer of
  \<open>bufio.NewReaderSize\<close> has at least 16 bytes.
\<close>

definition readBufferSize :: nat where
  "readBufferSize = 65536"

datatype slice_end = SliceLine | SliceFull | SliceEOF | SliceError

definition ReadSlice :: "nat \<Rightarrow> bool \<Rightarrow> string \<Rightarrow> string \<times> slice_end \<times> string" where
  "ReadSlice b broken s =
     (let w = take b s in
      if newline \<in> set w
      then let u = takeWhile (\<lambda>c. c \<noteq> newline) s in (u @ [newline], SliceLine, drop (length u + 1) s)
      else if b \<le> length s then (w, SliceFull, drop b s)
      else (s, if broken then SliceError else SliceEOF, []))"

datatype line_result = LineRead string bool | LineEOF | LineError

definition line_buffer :: "int \<Rightarrow> string \<Rightarrow> bool \<Rightarrow> string \<Rightarrow> string \<times> bool" where
  "line_buffer max_bytes buf truncated chunk =
     (if int (length buf) < max_bytes
      then let room = nat (max_bytes - int (length buf)) in
        if room < length chunk then (buf @ take room chunk, True) else (buf @ chunk, truncated)
      else (buf, truncated \<or> chunk \<noteq> []))"

definition finish_line :: "string \<Rightarrow> bool \<Rightarrow> line_result" where
  "finish_line buf truncated = LineRead (ToValidUTF8 (trim_suffix buf [newline])) truncated"

function read_line_loop :: "nat \<Rightarrow> bool \<Rightarrow> int \<Rightarrow> string \<Rightarrow> bool \<Rightarrow> string \<Rightarrow> line_result \<times> string" where
  "read_line_loop b broken max_bytes buf truncated s =
     (case ReadSlice (max 16 b) broken s of (chunk, how, rest) \<Rightarrow>
        case line_buffer max_bytes buf truncated chunk of (buf', truncated') \<Rightarrow>
          case how of
            SliceLine \<Rightarrow> (finish_line buf' truncated', rest)
          | SliceFull \<Rightarrow> read_line_loop b broken max_bytes buf' truncated' rest
          | SliceEOF \<Rightarrow> (if buf' \<noteq> [] then finish_line buf' truncated' else LineEOF, rest)
          | SliceError \<Rightarrow> (LineError, rest))"
  by pat_completeness auto
termination
proof (relation "measure (\<lambda>(b, broken, m, buf, t, s). length s)", goal_cases)
  case (2 b broken max_bytes buf truncated s)
  then show ?case by (auto simp: ReadSlice_def Let_def split: if_splits prod.splits)
qed auto

declare read_line_loop.simps [simp del]

definition readLine :: "nat \<Rightarrow> bool \<Rightarrow> int \<Rightarrow> string \<Rightarrow> line_result \<times> string" where
  "readLine b broken max_bytes s = read_line_loop b broken max_bytes [] False s"

lemma ReadSlice_shorter:
  "ReadSlice (max 16 b) broken s = (chunk, how, rest) \<Longrightarrow>
   (how = SliceLine \<or> how = SliceFull \<longrightarrow> length rest < length s) \<and> (how = SliceEOF \<longrightarrow> chunk = s \<and> rest = [])"
  by (auto simp: ReadSlice_def Let_def split: if_splits)
    (metis in_set_takeD length_pos_if_in_set diff_less zero_less_Suc)

lemma line_buffer_Nil: "line_buffer m [] t [] = ([], t)"
  by (simp add: line_buffer_def)

lemma read_line_loop_shorter:
  "read_line_loop b broken m buf t s = (LineRead line u, rest) \<Longrightarrow>
   length rest \<le> length s \<and> (buf = [] \<longrightarrow> length rest < length s)"
proof (induction b broken m buf t s rule: read_line_loop.induct)
  case (1 b broken m buf t s)
  obtain chunk how r where sl: "ReadSlice (max 16 b) broken s = (chunk, how, r)" by (rule prod_cases3)
  obtain buf' t' where lb: "line_buffer m buf t chunk = (buf', t')" by (rule prod.exhaust)
  note shorter = ReadSlice_shorter [OF sl]
  show ?case
  proof (cases how)
    case SliceLine
    then show ?thesis using 1(2) shorter by (simp add: read_line_loop.simps [of b broken m buf t s] sl lb finish_line_def)
  next
    case SliceFull
    then have "read_line_loop b broken m buf' t' r = (LineRead line u, rest)"
      using 1(2) by (simp add: read_line_loop.simps [of b broken m buf t s] sl lb)
    then show ?thesis using 1(1) [OF sl [symmetric] refl lb [symmetric] SliceFull] shorter SliceFull by force
  next
    case SliceEOF
    then have "(if buf' \<noteq> [] then finish_line buf' t' else LineEOF, r) = (LineRead line u, rest)"
      using 1(2) by (simp add: read_line_loop.simps [of b broken m buf t s] sl lb)
    then have "buf' \<noteq> []" "rest = []" using shorter SliceEOF by (auto split: if_splits)
    moreover have "s \<noteq> []" if "buf = []"
    proof
      assume "s = []"
      then show False using lb \<open>buf' \<noteq> []\<close> shorter SliceEOF that by (simp add: line_buffer_Nil)
    qed
    ultimately show ?thesis by simp
  next
    case SliceError
    then show ?thesis using 1(2) by (simp add: read_line_loop.simps [of b broken m buf t s] sl lb)
  qed
qed

text \<open>A line read takes at least one byte.\<close>

lemma readLine_shorter: "readLine b broken max_bytes s = (LineRead line t, rest) \<Longrightarrow> length rest < length s"
  unfolding readLine_def using read_line_loop_shorter by blast

section \<open>The patch\<close>

text \<open>\<open>parseHunkHeader\<close>\<close>

definition hunk_start :: "string \<Rightarrow> int option" where
  "hunk_start s = (case cut (tl s) '','' of (start, _, _) \<Rightarrow> parse_int start)"

definition parseHunkHeader :: "string \<Rightarrow> (int \<times> int) option" where
  "parseHunkHeader line =
     (let fs = Fields line in
      if length fs < 3 \<or> \<not> prefix ''-'' (fs ! 1) \<or> \<not> prefix ''+'' (fs ! 2) then None
      else case (hunk_start (fs ! 1), hunk_start (fs ! 2)) of
        (Some old, Some new) \<Rightarrow> Some (old, new)
      | _ \<Rightarrow> None)"

text \<open>The variables of \<open>parsePatch\<close>; \<open>pp_hunk\<close> is the hunk not yet stored with its file.\<close>

record patch_state =
  pp_files :: "DiffFile list"
  pp_fileIdx :: int
  pp_linesLeft :: int
  pp_hunk :: "Hunk option"
  pp_oldLine :: int
  pp_newLine :: int

datatype patch_end = PatchDone | PatchStopped | PatchFailed diff_error

definition finishHunk :: "patch_state \<Rightarrow> patch_state" where
  "finishHunk st =
     (let i = nat (pp_fileIdx st) in
      case pp_hunk st of
        Some h \<Rightarrow> if 0 \<le> pp_fileIdx st
          then st\<lparr>pp_files := (pp_files st)[i := (pp_files st ! i)\<lparr>df_Hunks := df_Hunks (pp_files st ! i) @ [h]\<rparr>],
                  pp_hunk := None\<rparr>
          else st\<lparr>pp_hunk := None\<rparr>
      | None \<Rightarrow> st)"

definition mark_truncated :: "DiffFile \<Rightarrow> DiffFile" where
  "mark_truncated f =
     (if \<not> df_Binary f \<and> (0 < df_Additions f \<or> 0 < df_Deletions f) then f\<lparr>df_PatchTruncated := True\<rparr> else f)"

definition truncateRest :: "patch_state \<Rightarrow> patch_state" where
  "truncateRest st =
     (let i = nat (pp_fileIdx st) in
      st\<lparr>pp_files := take i (pp_files st) @ map mark_truncated (drop i (pp_files st))\<rparr>)"

definition line_kind :: "char \<Rightarrow> LineKind option" where
  "line_kind c =
     (if c = CHR '' '' then Some LineContext else if c = CHR ''+'' then Some LineAdded
      else if c = CHR ''-'' then Some LineDeleted else if c = CHR 0x5C then Some LineNoNewline else None)"

definition patch_body_line :: "string \<Rightarrow> bool \<Rightarrow> Hunk \<Rightarrow> patch_state \<Rightarrow> patch_state" where
  "patch_body_line line truncated h st =
     (case line_kind (hd line) of
        None \<Rightarrow> st
      | Some k \<Rightarrow>
          let old = k = LineContext \<or> k = LineDeleted; new = k = LineContext \<or> k = LineAdded;
              dl = \<lparr>dl_Kind = k, dl_OldNumber = (if old then pp_oldLine st else 0),
                    dl_NewNumber = (if new then pp_newLine st else 0), dl_Text = tl line, dl_Truncated = truncated\<rparr>
          in st\<lparr>pp_hunk := Some (h\<lparr>hk_Lines := hk_Lines h @ [dl]\<rparr>), pp_linesLeft := pp_linesLeft st - 1,
                pp_oldLine := (if old then increment (pp_oldLine st) else pp_oldLine st),
                pp_newLine := (if new then increment (pp_newLine st) else pp_newLine st)\<rparr>)"

text \<open>The body of the loop for one line: the end it brings about, if any, and the variables.\<close>

definition patch_line :: "string \<Rightarrow> bool \<Rightarrow> patch_state \<Rightarrow> patch_end option \<times> patch_state" where
  "patch_line line truncated st =
     (if prefix ''diff --git '' line
      then let st' = finishHunk st; st'' = st'\<lparr>pp_fileIdx := pp_fileIdx st' + 1\<rparr> in
        (if int (length (pp_files st'')) \<le> pp_fileIdx st'' then Some PatchStopped else None, st'')
      else if pp_fileIdx st < 0 then (None, st)
      else if prefix ''@@ '' line
      then let st' = finishHunk st in
        if pp_linesLeft st' \<le> 0 then (Some PatchStopped, truncateRest st')
        else (case parseHunkHeader line of
            None \<Rightarrow> (Some (PatchFailed (MalformedHunk line)), st')
          | Some (old, new) \<Rightarrow>
              (None, st'\<lparr>pp_oldLine := old, pp_newLine := new, pp_hunk := Some \<lparr>hk_Header = line, hk_Lines = []\<rparr>\<rparr>))
      else case pp_hunk st of
        None \<Rightarrow> (None, st)
      | Some h \<Rightarrow>
          if line = [] then (None, st)
          else if pp_linesLeft st \<le> 0 then (Some PatchStopped, truncateRest (finishHunk st))
          else (None, patch_body_line line truncated h st))"

function patch_loop :: "nat \<Rightarrow> bool \<Rightarrow> int \<Rightarrow> string \<Rightarrow> patch_state \<Rightarrow> patch_end \<times> DiffFile list" where
  "patch_loop b broken max_bytes s st =
     (case readLine b broken max_bytes s of
        (LineEOF, _) \<Rightarrow> (PatchDone, pp_files (finishHunk st))
      | (LineError, _) \<Rightarrow> (PatchFailed ReadPatch, pp_files st)
      | (LineRead line truncated, rest) \<Rightarrow>
          (case patch_line line truncated st of
             (Some e, st') \<Rightarrow> (e, pp_files st')
           | (None, st') \<Rightarrow> patch_loop b broken max_bytes rest st'))"
  by pat_completeness auto
termination by (relation "measure (\<lambda>(b, broken, m, s, st). length s)") (auto dest: readLine_shorter [OF sym])

declare patch_loop.simps [simp del]

definition parsePatch :: "nat \<Rightarrow> bool \<Rightarrow> string \<Rightarrow> DiffFile list \<Rightarrow> DiffLimits \<Rightarrow> patch_end \<times> DiffFile list" where
  "parsePatch b broken s files limits =
     patch_loop b broken (dm_MaxLineBytes limits) s
       \<lparr>pp_files = files, pp_fileIdx = -1, pp_linesLeft = dm_MaxLines limits, pp_hunk = None,
        pp_oldLine = 0, pp_newLine = 0\<rparr>"

section \<open>The diff of two commits\<close>

definition emptyTree :: "string \<Rightarrow> string" where
  "emptyTree like =
     (if length like = 64 then ''6ef19b41225c5369f1c104d45d8d85efa9b057b53b14b4b9b939dd74decc5321''
      else ''4b825dc642cb6eb9a060e54bf8d69288fbee4904'')"

definition errNotFoundIfMissing :: "diff_error \<Rightarrow> diff_error" where
  "errNotFoundIfMissing e =
     (case e of
        GitFailed msg \<Rightarrow>
          if contains msg ''bad object'' \<or> contains msg ''unknown revision'' \<or> contains msg ''bad revision''
          then DiffNotFound else e
      | _ \<Rightarrow> e)"

text \<open>
  What the three runs of \<open>git diff-tree\<close> yield: the outputs of \<open>--raw\<close> and \<open>--numstat\<close> or the failure of the
  run, and for the patch the bytes, whether reading them breaks off with an error, and the
  errors that \<open>stream\<close> finds in its context and when it waits for the process.
\<close>

record git_stream =
  gs_bytes :: string
  gs_broken :: bool
  gs_ctx :: "diff_error option"
  gs_wait :: "diff_error option"

record diff_tree =
  dt_raw :: "string \<Rightarrow> string \<Rightarrow> (diff_error, string) result"
  dt_numstat :: "string \<Rightarrow> string \<Rightarrow> (diff_error, string) result"
  dt_patch :: "string \<Rightarrow> string \<Rightarrow> git_stream"

definition stream_error :: "git_stream \<Rightarrow> patch_end \<Rightarrow> diff_error option" where
  "stream_error g e =
     (case e of
        PatchStopped \<Rightarrow> None
      | _ \<Rightarrow> (case gs_ctx g of
                Some err \<Rightarrow> Some err
              | None \<Rightarrow> (case e of PatchFailed err \<Rightarrow> Some err | _ \<Rightarrow> gs_wait g)))"

definition Diff :: "diff_tree \<Rightarrow> nat \<Rightarrow> string \<Rightarrow> string \<Rightarrow> DiffLimits \<Rightarrow> (diff_error, Diff_result) result" where
  "Diff git b from to limits =
     (if \<not> IsHash to then Inl DiffNotFound
      else let from' = (if from = [] then emptyTree to else from) in
        if \<not> IsHash from' then Inl DiffNotFound
        else case dt_raw git from' to of
          Inl e \<Rightarrow> Inl (errNotFoundIfMissing e)
        | Inr raw \<Rightarrow>
            (case parseRawDiff raw (dm_MaxFiles limits) of
               Inl e \<Rightarrow> Inl e
             | Inr (files, n) \<Rightarrow>
                 let more_files = n - int (length files) in
                 if files = [] then ok \<lparr>dr_Files = files, dr_MoreFiles = more_files\<rparr>
                 else case dt_numstat git from' to of
                   Inl e \<Rightarrow> Inl (errNotFoundIfMissing e)
                 | Inr numstat \<Rightarrow>
                     (case applyNumstat files numstat of
                        Inl e \<Rightarrow> Inl e
                      | Inr counted \<Rightarrow>
                          let g = dt_patch git from' to in
                          (case parsePatch b (gs_broken g) (gs_bytes g) counted limits of
                             (e, patched) \<Rightarrow>
                               (case stream_error g e of
                                  Some err \<Rightarrow> Inl (errNotFoundIfMissing err)
                                | None \<Rightarrow> ok \<lparr>dr_Files = patched, dr_MoreFiles = more_files\<rparr>)))))"

end
