(* ===== verification/Git_Diff_Facts.thy ===== *)
theory Git_Diff_Facts
  imports Git_Diff
begin

text \<open>
  What the readers of \<open>Git_Diff\<close> do with the text git prints: a line is read as if there were no buffer,
  a patch as a list of lines, a section of a patch fills its file until the limit of lines is
  reached, and the list of changes and the counts are read back.
\<close>

section \<open>Reading a line\<close>

text \<open>
  The line at the front of a text, of which at most \<open>n\<close> bytes are kept. The flag counts the newline, so
  it is also set for a line of exactly \<open>n\<close> bytes, of which nothing is lost.
\<close>

definition line_at :: "bool \<Rightarrow> nat \<Rightarrow> string \<Rightarrow> line_result \<times> string" where
  "line_at broken n s =
     (let u = takeWhile (\<lambda>c. c \<noteq> newline) s in
      if newline \<in> set s then (LineRead (ToValidUTF8 (take n u)) (n < length u + 1), drop (length u + 1) s)
      else if broken then (LineError, [])
      else if s = [] then (LineEOF, [])
      else (LineRead (ToValidUTF8 (take n s)) (n < length s), []))"

lemma line_buffer_take:
  "line_buffer (int n) (take n p) (n < length p) chunk = (take n (p @ chunk), n < length (p @ chunk))"
proof (cases "length p < n")
  case True
  then have "nat (int n - int (length p)) = n - length p" by simp
  then show ?thesis using True by (auto simp: line_buffer_def Let_def)
qed (cases chunk, auto simp: line_buffer_def)

lemma trim_newline:
  assumes "newline \<notin> set u"
  shows "trim_suffix (take n u) [newline] = take n u" "trim_suffix (take n (u @ [newline])) [newline] = take n u"
proof -
  have no: "\<not> suffix [newline] (take n u)" using assms by (metis in_set_takeD last_in_set last_snoc snoc_eq_iff_butlast suffix_def)
  then show "trim_suffix (take n u) [newline] = take n u" by (simp add: trim_suffix_def)
  show "trim_suffix (take n (u @ [newline])) [newline] = take n u"
  proof (cases "length u < n")
    case True
    then show ?thesis by (simp add: trim_suffix_def suffix_def)
  qed (use no in \<open>simp add: trim_suffix_def\<close>)
qed

lemma takeWhile_append_absent: "c \<notin> set p \<Longrightarrow> takeWhile (\<lambda>d. d \<noteq> c) (p @ s) = p @ takeWhile (\<lambda>d. d \<noteq> c) s"
  by (induction p) auto

lemma newline_free_takeWhile: "newline \<notin> set (takeWhile (\<lambda>c. c \<noteq> newline) s)"
  by (auto dest: set_takeWhileD)

lemma read_line_loop_at:
  assumes "newline \<notin> set p" and "1 \<le> n" and "p \<noteq> [] \<or> buf = []" 
    and "buf = take n p" and "t \<longleftrightarrow> n < length p" and "m = int n"
  shows "read_line_loop b broken m buf t s = line_at broken n (p @ s)"
  using assms
proof (induction b broken m buf t s arbitrary: p rule: read_line_loop.induct)
  case (1 b broken m buf t s)
  obtain chunk how r where sl: "ReadSlice (max 16 b) broken s = (chunk, how, r)" by (rule prod_cases3)
  have lb: "line_buffer m buf t chunk = (take n (p @ chunk), n < length (p @ chunk))"
    using 1(5-7) line_buffer_take [of n p chunk] by simp
  note step = read_line_loop.simps [of b broken m buf t s]
  show ?case
  proof (cases how)
    case SliceLine
    let ?u = "takeWhile (\<lambda>c. c \<noteq> newline) s"
    from SliceLine sl have nl: "newline \<in> set s" and c: "chunk = ?u @ [newline]" "r = drop (length ?u + 1) s"
      by (auto simp: ReadSlice_def Let_def split: if_splits dest: in_set_takeD)
    have free: "newline \<notin> set (p @ ?u)" using 1(2) newline_free_takeWhile by simp
    have trim: "trim_suffix (take n (p @ chunk)) [newline] = take n (p @ ?u)"
      using trim_newline(2) [OF free, of n] by (simp add: c)
    have "read_line_loop b broken m buf t s = (LineRead (ToValidUTF8 (take n (p @ ?u))) (n < length (p @ chunk)), r)"
      unfolding step sl by (simp only: lb SliceLine prod.case slice_end.case finish_line_def trim)
    then show ?thesis using nl 1(2) by (simp add: line_at_def Let_def takeWhile_append_absent c)
  next
    case SliceFull
    then have c: "newline \<notin> set chunk" "s = chunk @ r" "chunk \<noteq> []"
      using sl by (auto simp: ReadSlice_def Let_def split: if_splits)
    have "read_line_loop b broken m buf t s = read_line_loop b broken m (take n (p @ chunk)) (n < length (p @ chunk)) r"
      unfolding step sl by (simp only: lb SliceFull prod.case slice_end.case)
    moreover have "read_line_loop b broken m (take n (p @ chunk)) (n < length (p @ chunk)) r = line_at broken n ((p @ chunk) @ r)"
      using 1(2,3,7) c by (intro 1(1) [OF sl [symmetric] refl lb [symmetric] SliceFull]) simp_all
    ultimately show ?thesis unfolding c(2) by simp
  next
    case SliceEOF
    then have c: "chunk = s" "r = []" "newline \<notin> set s" "\<not> broken"
      using sl by (auto simp: ReadSlice_def Let_def split: if_splits dest: in_set_takeD) 
    have "trim_suffix (take n (p @ s)) [newline] = take n (p @ s)" using 1(2) c(3) by (intro trim_newline(1)) simp
    moreover have "read_line_loop b broken m buf t s =
        (if take n (p @ chunk) \<noteq> [] then finish_line (take n (p @ chunk)) (n < length (p @ chunk)) else LineEOF, r)"
      unfolding step sl by (simp only: lb SliceEOF prod.case slice_end.case)
    ultimately show ?thesis using 1(2,3) c by (auto simp: finish_line_def line_at_def Let_def)
  next
    case SliceError
    then have "r = []" "newline \<notin> set s" broken
      using sl by (auto simp: ReadSlice_def Let_def split: if_splits)
    moreover have "read_line_loop b broken m buf t s = (LineError, r)"
      unfolding step sl by (simp only: lb SliceError prod.case slice_end.case)
    ultimately show ?thesis using 1(2) by (simp add: line_at_def Let_def)
  qed
qed

lemma readLine_exact: "1 \<le> n \<Longrightarrow> readLine b broken (int n) s = line_at broken n s"
  unfolding readLine_def using read_line_loop_at [of "[]" n "[]" False "int n" b broken s] by simp

section \<open>Lines of ASCII\<close>

definition ascii :: "string \<Rightarrow> bool" where
  "ascii s = list_all (\<lambda>c. code c < 128) s"

lemma ToValidUTF8_Nil [simp]: "ToValidUTF8 [] = []"
  by (simp add: ToValidUTF8_def to_valid_from.simps)

lemma ToValidUTF8_Cons: "code c < 128 \<Longrightarrow> ToValidUTF8 (c # s) = c # ToValidUTF8 s"
  by (simp add: ToValidUTF8_def to_valid_from.simps [of False replacement "c # s"] rune_error_def)

lemma ToValidUTF8_append: "ascii u \<Longrightarrow> ToValidUTF8 (u @ s) = u @ ToValidUTF8 s"
  by (induction u) (simp_all add: ascii_def ToValidUTF8_Cons)

lemma ToValidUTF8_first:
  assumes "prefix [c] (ToValidUTF8 s)" and "code c < 128"
  shows "\<exists>r. s = c # r"
proof (cases s)
  case (Cons d r)
  show ?thesis
  proof (cases "decode_rune s = (rune_error, 1)")
    case True
    then have "prefix replacement (ToValidUTF8 s)"
      using Cons by (simp add: ToValidUTF8_def to_valid_from.simps [of False replacement "d # r"] del: decode_rune.simps)
    then show ?thesis using assms by (auto simp: replacement_def prefix_def)
  next
    case False
    moreover have "1 \<le> snd (decode_rune s)" using decode_rune_width [of s] Cons by simp
    then obtain k where "snd (decode_rune s) = Suc k" by (cases "snd (decode_rune s)") auto
    ultimately have "ToValidUTF8 s = d # take k r @ to_valid_from False replacement (drop k r)"
      using Cons by (simp add: ToValidUTF8_def to_valid_from.simps [of False replacement "d # r"] del: decode_rune.simps)
    then show ?thesis using assms(1) Cons by simp
  qed
qed (use assms in simp)

lemma ToValidUTF8_prefix: "prefix p (ToValidUTF8 s) \<Longrightarrow> ascii p \<Longrightarrow> prefix p s"
proof (induction p arbitrary: s)
  case (Cons c p)
  then have c: "code c < 128" by (simp add: ascii_def)
  have "prefix [c] (ToValidUTF8 s)" using Cons.prems(1) by (auto simp: prefix_def)
  then obtain r where r: "s = c # r" using ToValidUTF8_first c by blast
  have "prefix p (ToValidUTF8 r)" "ascii p" using Cons.prems c by (simp_all add: r ToValidUTF8_Cons ascii_def)
  then show ?case unfolding r using Cons.IH [of r] by simp
qed simp

text \<open>A line as \<open>readLine\<close> gives it.\<close>

definition clip :: "nat \<Rightarrow> string \<Rightarrow> string \<times> bool" where
  "clip n l = (ToValidUTF8 (take n l), n < length l + 1)"

definition unlines :: "string list \<Rightarrow> string" where
  "unlines ls = concat (map (\<lambda>l. l @ [newline]) ls)"

lemma unlines_Cons: "unlines (l # ls) = l @ newline # unlines ls"
  by (simp add: unlines_def)

lemma line_at_unlines:
  assumes "newline \<notin> set l"
  shows "line_at broken n (l @ newline # s) = (case clip n l of (x, t) \<Rightarrow> LineRead x t, s)"
proof -
  have "takeWhile (\<lambda>c. c \<noteq> newline) (l @ newline # s) = l" using assms by (simp add: takeWhile_append_absent)
  then show ?thesis by (simp add: line_at_def Let_def clip_def)
qed

lemma clip_prefix: "\<not> prefix p l \<Longrightarrow> ascii p \<Longrightarrow> \<not> prefix p (fst (clip n l))"
proof
  assume *: "\<not> prefix p l" "ascii p" "prefix p (fst (clip n l))"
  then have "prefix p (take n l)" by (auto simp: clip_def intro: ToValidUTF8_prefix)
  then show False using *(1) take_is_prefix prefix_order.trans by blast
qed

lemma clip_append:
  "ascii u \<Longrightarrow> length u \<le> n \<Longrightarrow> clip n (u @ v) = (u @ ToValidUTF8 (take (n - length u) v), n < length u + length v + 1)"
  by (simp add: clip_def ToValidUTF8_append)

section \<open>A patch as a list of lines\<close>

fun run_lines :: "(string \<times> bool) list \<Rightarrow> patch_state \<Rightarrow> patch_end \<times> DiffFile list" where
  "run_lines [] st = (PatchDone, pp_files (finishHunk st))"
| "run_lines ((line, truncated) # ls) st =
     (case patch_line line truncated st of
        (Some e, st') \<Rightarrow> (e, pp_files st')
      | (None, st') \<Rightarrow> run_lines ls st')"

lemma patch_loop_lines:
  assumes "1 \<le> n" and "list_all (\<lambda>l. newline \<notin> set l) ls"
  shows "patch_loop b False (int n) (unlines ls) st = run_lines (map (clip n) ls) st"
  using assms(2)
proof (induction ls arbitrary: st)
  case Nil
  show ?case using assms(1)
    by (simp add: patch_loop.simps readLine_exact line_at_def unlines_def)
next
  case (Cons l ls)
  obtain x t where x: "clip n l = (x, t)" by (rule prod.exhaust)
  have "readLine b False (int n) (unlines (l # ls)) = (LineRead x t, unlines ls)"
    using Cons.prems assms(1) by (simp add: readLine_exact unlines_Cons line_at_unlines x)
  then show ?case using Cons
    by (simp add: patch_loop.simps [of b False "int n" "unlines (l # ls)"] x split: prod.splits option.splits)
qed

text \<open>A line at which a hunk ends.\<close>

definition boundary :: "string \<Rightarrow> bool" where
  "boundary l \<longleftrightarrow> prefix ''diff --git '' l \<or> prefix ''@@ '' l"

lemma finishHunk_idem [simp]: "finishHunk (finishHunk st) = finishHunk st"
  by (simp add: finishHunk_def Let_def split: option.splits)

lemma finishHunk_keeps [simp]:
  "pp_fileIdx (finishHunk st) = pp_fileIdx st" "pp_linesLeft (finishHunk st) = pp_linesLeft st"
  "pp_hunk (finishHunk st) = None" "length (pp_files (finishHunk st)) = length (pp_files st)"
  by (simp_all add: finishHunk_def Let_def split: option.splits)

lemma patch_line_boundary:
  "boundary l \<Longrightarrow> 0 \<le> pp_fileIdx st \<Longrightarrow> patch_line l t (finishHunk st) = patch_line l t st"
  by (auto simp: patch_line_def boundary_def Let_def)

lemma run_lines_boundary:
  "ls = [] \<or> boundary (fst (hd ls)) \<Longrightarrow> 0 \<le> pp_fileIdx st \<Longrightarrow> run_lines ls (finishHunk st) = run_lines ls st"
  by (cases ls) (auto simp: patch_line_boundary)

end
