(* ===== verification/Git_Patch.thy ===== *)
theory Git_Patch
  imports Git_Diff_Facts
begin

text \<open>
  The patch that \<open>git diff-tree -p\<close> documents, as data, and what \<open>parsePatch\<close> makes of it: each section
  fills the file at its place, with every line numbered, until the limit of lines is reached.
\<close>

section \<open>A patch and its text\<close>

text \<open>A hunk: the start and, if given, the count of lines on each side, the text after the ranges, the lines.\<close>

record patch_hunk =
  ph_old :: nat
  ph_oldCount :: "nat option"
  ph_new :: nat
  ph_newCount :: "nat option"
  ph_context :: string
  ph_lines :: "(LineKind \<times> string) list"

definition range_text :: "nat \<Rightarrow> nat option \<Rightarrow> string" where
  "range_text n k = format_nat n @ (case k of None \<Rightarrow> [] | Some m \<Rightarrow> CHR '','' # format_nat m)"

definition hunk_ranges :: "patch_hunk \<Rightarrow> string" where
  "hunk_ranges h = ''@@ -'' @ range_text (ph_old h) (ph_oldCount h) @ '' +'' @
                   range_text (ph_new h) (ph_newCount h) @ '' @@''"

fun kind_char :: "LineKind \<Rightarrow> char" where
  "kind_char LineContext = CHR '' ''"
| "kind_char LineAdded = CHR ''+''"
| "kind_char LineDeleted = CHR ''-''"
| "kind_char LineNoNewline = CHR 0x5C"

definition body_text :: "(LineKind \<times> string) list \<Rightarrow> string list" where
  "body_text ls = map (\<lambda>(k, t). kind_char k # t) ls"

definition hunk_text :: "patch_hunk \<Rightarrow> string list" where
  "hunk_text h = (hunk_ranges h @ ph_context h) # body_text (ph_lines h)"

text \<open>The section of a file: the names in its first line, further lines, and hunks.\<close>

record patch_section =
  ps_names :: string
  ps_extended :: "string list"
  ps_hunks :: "patch_hunk list"

definition section_text :: "patch_section \<Rightarrow> string list" where
  "section_text s = (''diff --git '' @ ps_names s) # ps_extended s @ concat (map hunk_text (ps_hunks s))"

definition patch_text :: "patch_section list \<Rightarrow> string" where
  "patch_text ss = unlines (concat (map section_text ss))"

definition old_side :: "LineKind \<Rightarrow> bool" where
  "old_side k \<longleftrightarrow> k = LineContext \<or> k = LineDeleted"

definition new_side :: "LineKind \<Rightarrow> bool" where
  "new_side k \<longleftrightarrow> k = LineContext \<or> k = LineAdded"

text \<open>What holds of the text: lines are lines, ranges fit in a line of \<open>n\<close> bytes, numbers in an \<open>int\<close>.\<close>

definition hunk_ok :: "nat \<Rightarrow> patch_hunk \<Rightarrow> bool" where
  "hunk_ok n h \<longleftrightarrow> length (hunk_ranges h) \<le> n \<and> newline \<notin> set (ph_context h) \<and>
     (\<forall>(k, t) \<in> set (ph_lines h). newline \<notin> set t) \<and> ph_lines h \<noteq> [] \<and>
     ph_old h + length (ph_lines h) < 2 ^ 63 \<and> ph_new h + length (ph_lines h) < 2 ^ 63"

definition section_ok :: "nat \<Rightarrow> patch_section \<Rightarrow> bool" where
  "section_ok n s \<longleftrightarrow> newline \<notin> set (ps_names s) \<and>
     list_all (\<lambda>l. newline \<notin> set l \<and> \<not> boundary l) (ps_extended s) \<and> list_all (hunk_ok n) (ps_hunks s)"

section \<open>What is shown of it\<close>

text \<open>Lines with their numbers, given the next number on each side.\<close>

fun number_lines :: "nat \<Rightarrow> nat \<Rightarrow> nat \<Rightarrow> (LineKind \<times> string) list \<Rightarrow> DiffLine list" where
  "number_lines n old new [] = []"
| "number_lines n old new ((k, t) # ls) =
     \<lparr>dl_Kind = k, dl_OldNumber = (if old_side k then int old else 0),
      dl_NewNumber = (if new_side k then int new else 0),
      dl_Text = ToValidUTF8 (take (n - 1) t), dl_Truncated = n < length t + 2\<rparr>
     # number_lines n (if old_side k then old + 1 else old) (if new_side k then new + 1 else new) ls"

definition show_hunk :: "nat \<Rightarrow> patch_hunk \<Rightarrow> Hunk" where
  "show_hunk n h =
     \<lparr>hk_Header = hunk_ranges h @ ToValidUTF8 (take (n - length (hunk_ranges h)) (ph_context h)),
      hk_Lines = number_lines n (ph_old h) (ph_new h) (ph_lines h)\<rparr>"

text \<open>The first \<open>k\<close> lines of some hunks, without the hunks of which there are none.\<close>

fun take_hunks :: "nat \<Rightarrow> patch_hunk list \<Rightarrow> patch_hunk list" where
  "take_hunks k [] = []"
| "take_hunks k (h # hs) =
     (if k = 0 then [] else h\<lparr>ph_lines := take k (ph_lines h)\<rparr> # take_hunks (k - length (ph_lines h)) hs)"

definition hunk_lines :: "patch_hunk list \<Rightarrow> nat" where
  "hunk_lines hs = sum_list (map (length \<circ> ph_lines) hs)"

definition show_file :: "nat \<Rightarrow> DiffFile \<Rightarrow> patch_hunk list \<Rightarrow> DiffFile" where
  "show_file n f hs = f\<lparr>df_Hunks := map (show_hunk n) hs\<rparr>"

text \<open>
  Files and the sections for them with \<open>k\<close> lines left: the file at which the lines run out shows what is
  left, and from there on a file with changed lines is marked as truncated.
\<close>

fun show_files :: "nat \<Rightarrow> nat \<Rightarrow> DiffFile list \<Rightarrow> patch_section list \<Rightarrow> DiffFile list" where
  "show_files n k [] ss = []"
| "show_files n k fs [] = fs"
| "show_files n k (f # fs) (s # ss) =
     (if hunk_lines (ps_hunks s) \<le> k
      then show_file n f (ps_hunks s) # show_files n (k - hunk_lines (ps_hunks s)) fs ss
      else mark_truncated (show_file n f (take_hunks k (ps_hunks s))) # map mark_truncated fs)"

section \<open>Reading a hunk\<close>

lemma format_nat_word: "word_ok (format_nat n)"
  using format_nat_digits [of n] by (auto simp: word_ok_def list_all_iff digit_plain)

lemma plain_comma [simp]: "plain (CHR '','')" "plain (CHR ''-'')" "plain (CHR ''+'')" "plain (CHR ''@'')"
  by (simp_all add: plain_def)

lemma range_plain: "list_all plain (range_text n k)"
  using format_nat_word by (cases k) (auto simp: range_text_def word_ok_def)

lemma plain_ascii: "list_all plain s \<Longrightarrow> ascii s"
  by (auto simp: ascii_def list_all_iff plain_def)

lemma ascii_append [simp]: "ascii (u @ v) \<longleftrightarrow> ascii u \<and> ascii v"
  by (auto simp: ascii_def)

lemma ascii_Cons [simp]: "ascii (c # v) \<longleftrightarrow> code c < 128 \<and> ascii v" and ascii_Nil [simp]: "ascii []"
  by (auto simp: ascii_def)

lemma ranges_ascii: "ascii (hunk_ranges h)"
  using plain_ascii [OF range_plain] by (simp add: hunk_ranges_def)

lemma format_nat_no_comma: "CHR '','' \<notin> set (format_nat n)"
  using format_nat_digits [of n] by (auto simp: list_all_iff is_digit_def)

lemma hunk_start_range:
  assumes "n < 2 ^ 63"
  shows "hunk_start (c # range_text n k) = Some (int n)"
proof -
  have "parse_int (format_nat n) = Some (int n)"
    using format_nat_digits [of n] assms by (simp add: parse_int_digits)
  moreover have "cut (range_text n k) '','' = (format_nat n, case k of None \<Rightarrow> [] | Some m \<Rightarrow> format_nat m, k \<noteq> None)"
    using format_nat_no_comma [of n] by (cases k) (simp_all add: range_text_def cut_char cut_absent)
  ultimately show ?thesis by (simp add: hunk_start_def)
qed

lemma parseHunkHeader_ranges:
  assumes "ph_old h < 2 ^ 63" and "ph_new h < 2 ^ 63"
  shows "parseHunkHeader (hunk_ranges h @ s) = Some (int (ph_old h), int (ph_new h))"
proof -
  let ?o = "CHR ''-'' # range_text (ph_old h) (ph_oldCount h)" and ?n = "CHR ''+'' # range_text (ph_new h) (ph_newCount h)"
  have words: "word_ok ''@@''" "word_ok ?o" "word_ok ?n" using range_plain by (simp_all add: word_ok_def)
  have "hunk_ranges h @ s = ''@@'' @ CHR '' '' # (?o @ CHR '' '' # (?n @ CHR '' '' # (''@@'' @ s)))"
    by (simp add: hunk_ranges_def)
  then have "Fields (hunk_ranges h @ s) = [''@@'', ?o, ?n] @ Fields (''@@'' @ s)"
    using Fields_words [OF words(1)] Fields_words [OF words(2)] Fields_words [OF words(3)] by simp
  then show ?thesis using assms by (simp add: parseHunkHeader_def Let_def hunk_start_range)
qed

section \<open>The state inside a section\<close>

definition at_file ::
  "DiffFile list \<Rightarrow> DiffFile \<Rightarrow> DiffFile list \<Rightarrow> nat \<Rightarrow> Hunk option \<Rightarrow> nat \<Rightarrow> nat \<Rightarrow> patch_state" where
  "at_file before f after k hk old new =
     \<lparr>pp_files = before @ f # after, pp_fileIdx = int (length before), pp_linesLeft = int k, pp_hunk = hk,
      pp_oldLine = int old, pp_newLine = int new\<rparr>"

definition store :: "DiffFile \<Rightarrow> Hunk option \<Rightarrow> DiffFile" where
  "store f hk = (case hk of None \<Rightarrow> f | Some h \<Rightarrow> f\<lparr>df_Hunks := df_Hunks f @ [h]\<rparr>)"

lemma store_simps [simp]: "store f None = f" "store f (Some h) = f\<lparr>df_Hunks := df_Hunks f @ [h]\<rparr>"
  by (simp_all add: store_def)

lemma finishHunk_at [simp]:
  "finishHunk (at_file before f after k hk old new) = at_file before (store f hk) after k None old new"
  by (cases hk) (simp_all add: finishHunk_def at_file_def store_def)

lemma truncateRest_at [simp]:
  "truncateRest (at_file before f after k hk old new) =
   at_file before (mark_truncated f) (map mark_truncated after) k hk old new"
  by (simp add: truncateRest_def at_file_def)

lemma at_file_fields [simp]:
  "pp_files (at_file before f after k hk old new) = before @ f # after"
  "pp_fileIdx (at_file before f after k hk old new) = int (length before)"
  "pp_linesLeft (at_file before f after k hk old new) = int k"
  "pp_hunk (at_file before f after k hk old new) = hk"
  by (simp_all add: at_file_def)

lemma kind_char_ascii: "code (kind_char k) < 128"
  by (cases k) simp_all

lemma line_kind_char [simp]: "line_kind (kind_char k) = Some k"
  by (cases k) (simp_all add: line_kind_def)

lemma kind_char_no_boundary: "\<not> prefix ''diff --git '' (kind_char k # t)" "\<not> prefix ''@@ '' (kind_char k # t)"
  by (cases k; simp)+

lemma clip_body: "1 \<le> n \<Longrightarrow> clip n (kind_char k # t) = (kind_char k # ToValidUTF8 (take (n - 1) t), n < length t + 2)"
  by (cases n) (simp_all add: clip_def ToValidUTF8_Cons kind_char_ascii)

lemma increment_nat: "m + 1 < 2 ^ 63 \<Longrightarrow> increment (int m) = int (m + 1)"
  by (simp add: increment_def)

lemma body_line:
  assumes "1 \<le> n" and "old + 1 < 2 ^ 63" and "new + 1 < 2 ^ 63" and "clip n (kind_char c # t) = (x, u)"
  shows "patch_line x u (at_file before f after (Suc k) (Some h) old new) =
    (None, at_file before f after k (Some (h\<lparr>hk_Lines := hk_Lines h @ number_lines n old new [(c, t)]\<rparr>))
       (if old_side c then old + 1 else old) (if new_side c then new + 1 else new))"
proof -
  have x: "x = kind_char c # ToValidUTF8 (take (n - 1) t)" "u = (n < length t + 2)"
    using assms(1,4) clip_body [of n c t] by simp_all
  show ?thesis unfolding x using assms(2,3) increment_nat [of old] increment_nat [of new]
    by (cases c) (simp_all add: patch_line_def patch_body_line_def at_file_def old_side_def new_side_def line_kind_def)
qed

lemma body_stop:
  assumes "1 \<le> n" and "clip n (kind_char c # t) = (x, u)"
  shows "patch_line x u (at_file before f after 0 (Some h) old new) =
    (Some PatchStopped, at_file before (mark_truncated (store f (Some h))) (map mark_truncated after) 0 None old new)"
proof -
  have x: "x = kind_char c # ToValidUTF8 (take (n - 1) t)" using assms(1,2) clip_body [of n c t] by simp
  show ?thesis unfolding x by (cases c) (simp_all add: patch_line_def del: store_simps)
qed

lemma run_body:
  assumes "1 \<le> n" and "length ls \<le> k" and "old + length ls < 2 ^ 63" and "new + length ls < 2 ^ 63"
  shows "\<exists>old' new'. run_lines (map (clip n) (body_text ls) @ more_lines) (at_file before f after k (Some h) old new) =
    run_lines more_lines (at_file before f after (k - length ls)
      (Some (h\<lparr>hk_Lines := hk_Lines h @ number_lines n old new ls\<rparr>)) old' new')"
  using assms(2-)
proof (induction ls arbitrary: k old new h)
  case (Cons l ls)
  obtain c t where l: "l = (c, t)" by (rule prod.exhaust)
  obtain x u where x: "clip n (kind_char c # t) = (x, u)" by (rule prod.exhaust)
  obtain k' where k: "k = Suc k'" using Cons.prems(1) by (cases k) auto
  let ?o = "if old_side c then old + 1 else old" and ?w = "if new_side c then new + 1 else new"
  let ?h = "h\<lparr>hk_Lines := hk_Lines h @ number_lines n old new [(c, t)]\<rparr>"
  have "run_lines (map (clip n) (body_text (l # ls)) @ more_lines) (at_file before f after k (Some h) old new) =
        run_lines (map (clip n) (body_text ls) @ more_lines) (at_file before f after k' (Some ?h) ?o ?w)"
    using body_line [OF assms(1) _ _ x, of old new] Cons.prems by (simp add: body_text_def l k x del: number_lines.simps)
  moreover have "length ls \<le> k'" "?o + length ls < 2 ^ 63" "?w + length ls < 2 ^ 63" using Cons.prems k by auto
  then obtain o' w' where "run_lines (map (clip n) (body_text ls) @ more_lines) (at_file before f after k' (Some ?h) ?o ?w) =
    run_lines more_lines (at_file before f after (k' - length ls)
      (Some (?h\<lparr>hk_Lines := hk_Lines ?h @ number_lines n ?o ?w ls\<rparr>)) o' w')"
    using Cons.IH by blast
  ultimately show ?case by (auto simp: k l)
qed (auto simp: body_text_def)

section \<open>Reading the hunks of a file\<close>

definition at_boundary :: "(string \<times> bool) list \<Rightarrow> bool" where
  "at_boundary ls \<longleftrightarrow> ls = [] \<or> boundary (fst (hd ls))"

lemma hunk_okD:
  assumes "hunk_ok n h"
  shows "1 \<le> n" "length (hunk_ranges h) \<le> n" "ph_old h < 2 ^ 63" "ph_new h < 2 ^ 63"
    "ph_old h + length (ph_lines h) < 2 ^ 63" "ph_new h + length (ph_lines h) < 2 ^ 63" "ph_lines h \<noteq> []"
  using assms by (auto simp: hunk_ok_def hunk_ranges_def)

lemma clip_header:
  "length (hunk_ranges h) \<le> n \<Longrightarrow>
   fst (clip n (hunk_ranges h @ ph_context h)) = hk_Header (show_hunk n h)"
  by (simp add: clip_append ranges_ascii show_hunk_def)

lemma header_shape: "prefix ''@@ '' (hk_Header (show_hunk n h))" "\<not> prefix ''diff --git '' (hk_Header (show_hunk n h))"
  by (simp_all add: show_hunk_def hunk_ranges_def)

lemma header_line:
  assumes "hunk_ok n h" and "0 < k" and "clip n (hunk_ranges h @ ph_context h) = (x, u)"
  shows "patch_line x u (at_file before f after k None old new) =
    (None, at_file before f after k (Some \<lparr>hk_Header = hk_Header (show_hunk n h), hk_Lines = []\<rparr>) (ph_old h) (ph_new h))"
proof -
  note ok = hunk_okD [OF assms(1)]
  have x: "x = hk_Header (show_hunk n h)" using clip_header [OF ok(2)] assms(3) by simp
  have "parseHunkHeader x = Some (int (ph_old h), int (ph_new h))"
    using parseHunkHeader_ranges [OF ok(3,4)] by (simp add: x show_hunk_def)
  then show ?thesis using header_shape [of n h] assms(2) by (simp add: patch_line_def x Let_def) (simp add: at_file_def)
qed

lemma header_stop:
  assumes "hunk_ok n h" and "clip n (hunk_ranges h @ ph_context h) = (x, u)"
  shows "patch_line x u (at_file before f after 0 None old new) =
    (Some PatchStopped, at_file before (mark_truncated f) (map mark_truncated after) 0 None old new)"
proof -
  have x: "x = hk_Header (show_hunk n h)" using clip_header [OF hunk_okD(2) [OF assms(1)]] assms(2) by simp
  show ?thesis using header_shape [of n h] by (simp add: patch_line_def x Let_def)
qed

lemma run_hunk:
  assumes "hunk_ok n h" and "length (ph_lines h) \<le> k" and "at_boundary more_lines"
  shows "\<exists>old' new'. run_lines (map (clip n) (hunk_text h) @ more_lines) (at_file before f after k None old new) =
    run_lines more_lines (at_file before (store f (Some (show_hunk n h))) after (k - length (ph_lines h)) None old' new')"
proof -
  note ok = hunk_okD [OF assms(1)]
  obtain x u where x: "clip n (hunk_ranges h @ ph_context h) = (x, u)" by (rule prod.exhaust)
  let ?h = "\<lparr>hk_Header = hk_Header (show_hunk n h), hk_Lines = []\<rparr>"
  have k: "0 < k" using ok(7) assms(2) by (cases k) auto
  have "run_lines (map (clip n) (hunk_text h) @ more_lines) (at_file before f after k None old new) =
        run_lines (map (clip n) (body_text (ph_lines h)) @ more_lines) (at_file before f after k (Some ?h) (ph_old h) (ph_new h))"
    using header_line [OF assms(1) k x] by (simp add: hunk_text_def x)
  moreover obtain o' w' where "run_lines (map (clip n) (body_text (ph_lines h)) @ more_lines)
      (at_file before f after k (Some ?h) (ph_old h) (ph_new h)) =
    run_lines more_lines (at_file before f after (k - length (ph_lines h)) (Some (show_hunk n h)) o' w')"
    using run_body [OF ok(1) assms(2) ok(5,6), of more_lines before f after ?h] by (auto simp: show_hunk_def)
  moreover have "run_lines more_lines (at_file before f after (k - length (ph_lines h)) (Some (show_hunk n h)) o' w') =
    run_lines more_lines (at_file before (store f (Some (show_hunk n h))) after (k - length (ph_lines h)) None o' w')"
    using run_lines_boundary [of more_lines "at_file before f after (k - length (ph_lines h)) (Some (show_hunk n h)) o' w'"]
      assms(3) by (simp add: at_boundary_def)
  ultimately show ?thesis by metis
qed

lemma number_lines_take: "number_lines n old new (take k ls) = take k (number_lines n old new ls)"
proof (induction ls arbitrary: k old new)
  case (Cons l ls)
  then show ?case by (cases k; cases l) simp_all
qed simp

lemma run_hunk_stop:
  assumes "hunk_ok n h" and "k < length (ph_lines h)" and "0 < k"
  shows "run_lines (map (clip n) (hunk_text h) @ more_lines) (at_file before f after k None old new) =
    (PatchStopped, before @ mark_truncated (store f (Some (show_hunk n (h\<lparr>ph_lines := take k (ph_lines h)\<rparr>)))) # map mark_truncated after)"
proof -
  note ok = hunk_okD [OF assms(1)]
  obtain x u where x: "clip n (hunk_ranges h @ ph_context h) = (x, u)" by (rule prod.exhaust)
  let ?h = "\<lparr>hk_Header = hk_Header (show_hunk n h), hk_Lines = []\<rparr>"
  let ?s = "show_hunk n (h\<lparr>ph_lines := take k (ph_lines h)\<rparr>)"
  obtain c t rest where d: "drop k (ph_lines h) = (c, t) # rest"
    using assms(2) by (metis Cons_nth_drop_Suc surj_pair)
  obtain y v where y: "clip n (kind_char c # t) = (y, v)" by (rule prod.exhaust)
  have split: "map (clip n) (body_text (ph_lines h)) @ more_lines =
      map (clip n) (body_text (take k (ph_lines h))) @ (y, v) # map (clip n) (body_text rest) @ more_lines" (is "_ = _ @ ?tail")
    using arg_cong [OF d, of body_text] by (subst append_take_drop_id [of k, symmetric]) (simp add: body_text_def y del: append_take_drop_id)
  have "run_lines (map (clip n) (hunk_text h) @ more_lines) (at_file before f after k None old new) =
        run_lines (map (clip n) (body_text (ph_lines h)) @ more_lines) (at_file before f after k (Some ?h) (ph_old h) (ph_new h))"
    using header_line [OF assms(1,3) x] by (simp add: hunk_text_def x)
  moreover obtain o' w' where "run_lines (map (clip n) (body_text (take k (ph_lines h))) @ ?tail)
      (at_file before f after k (Some ?h) (ph_old h) (ph_new h)) = run_lines ?tail (at_file before f after 0 (Some ?s) o' w')"
    using run_body [OF ok(1), of "take k (ph_lines h)" k "ph_old h" "ph_new h" ?tail before f after ?h] ok(5,6) assms(2)
    by (auto simp: show_hunk_def hunk_ranges_def)
  ultimately show ?thesis using body_stop [OF ok(1) y, of before f after ?s o' w'] unfolding split by simp
qed

lemma show_hunk_full: "length (ph_lines h) \<le> k \<Longrightarrow> show_hunk n (h\<lparr>ph_lines := take k (ph_lines h)\<rparr>) = show_hunk n h"
  by (simp add: show_hunk_def hunk_ranges_def)

lemma boundary_hunks:
  assumes "list_all (hunk_ok n) hs" and "at_boundary more_lines"
  shows "at_boundary (map (clip n) (concat (map hunk_text hs)) @ more_lines)"
proof (cases hs)
  case (Cons h hs')
  then show ?thesis using assms clip_header [of h n] header_shape(1) [of n h]
    by (auto simp: at_boundary_def hunk_text_def boundary_def dest: hunk_okD(2))
qed (use assms in simp)

lemma run_hunks:
  assumes "list_all (hunk_ok n) hs" and "hunk_lines hs \<le> k" and "at_boundary more_lines"
  shows "\<exists>old' new'. run_lines (map (clip n) (concat (map hunk_text hs)) @ more_lines) (at_file before f after k None old new) =
    run_lines more_lines (at_file before (f\<lparr>df_Hunks := df_Hunks f @ map (show_hunk n) hs\<rparr>) after
      (k - hunk_lines hs) None old' new')"
  using assms(1,2)
proof (induction hs arbitrary: f k old new)
  case (Cons h hs)
  let ?more = "map (clip n) (concat (map hunk_text hs)) @ more_lines"
  let ?f = "store f (Some (show_hunk n h))" and ?k = "k - length (ph_lines h)"
  have bd: "at_boundary ?more" using Cons.prems assms(3) by (intro boundary_hunks) simp_all
  have h: "hunk_ok n h" "length (ph_lines h) \<le> k" and rest: "list_all (hunk_ok n) hs" "hunk_lines hs \<le> ?k"
    using Cons.prems by (auto simp: hunk_lines_def)
  obtain o1 w1 where "run_lines (map (clip n) (hunk_text h) @ ?more) (at_file before f after k None old new) =
      run_lines ?more (at_file before ?f after ?k None o1 w1)"
    using run_hunk [OF h bd, of before f after old new] by blast
  moreover obtain o2 w2 where "run_lines ?more (at_file before ?f after ?k None o1 w1) =
      run_lines more_lines (at_file before (?f\<lparr>df_Hunks := df_Hunks ?f @ map (show_hunk n) hs\<rparr>) after
        (?k - hunk_lines hs) None o2 w2)"
    using Cons.IH [of ?k ?f o1 w1] rest by blast
  ultimately show ?case by (auto simp: hunk_lines_def)
qed (auto simp: hunk_lines_def)

lemma run_hunks_stop:
  assumes "list_all (hunk_ok n) hs" and "k < hunk_lines hs" and "at_boundary more_lines"
  shows "run_lines (map (clip n) (concat (map hunk_text hs)) @ more_lines) (at_file before f after k None old new) =
    (PatchStopped, before @ mark_truncated (f\<lparr>df_Hunks := df_Hunks f @ map (show_hunk n) (take_hunks k hs)\<rparr>)
       # map mark_truncated after)"
  using assms(1,2)
proof (induction hs arbitrary: f k old new)
  case (Cons h hs)
  let ?more = "map (clip n) (concat (map hunk_text hs)) @ more_lines"
  let ?f = "store f (Some (show_hunk n h))" and ?k = "k - length (ph_lines h)"
  have h: "hunk_ok n h" using Cons.prems by simp
  show ?case
  proof (cases "k = 0")
    case True
    obtain x u where x: "clip n (hunk_ranges h @ ph_context h) = (x, u)" by (rule prod.exhaust)
    show ?thesis using header_stop [OF h x] by (simp add: hunk_text_def x True)
  next
    case k: False
    show ?thesis
    proof (cases "k < length (ph_lines h)")
      case True
      have "take_hunks (k - length (ph_lines h)) hs = []" using True by (cases hs) simp_all
      then show ?thesis using run_hunk_stop [OF h True, of ?more] k by simp
    next
      case False
      have bd: "at_boundary ?more" using Cons.prems assms(3) by (intro boundary_hunks) simp_all
      have len: "length (ph_lines h) \<le> k" using False by simp
      obtain o1 w1 where "run_lines (map (clip n) (hunk_text h) @ ?more) (at_file before f after k None old new) =
          run_lines ?more (at_file before ?f after ?k None o1 w1)"
        using run_hunk [OF h len bd, of before f after old new] by blast
      moreover have "?k < hunk_lines hs" using Cons.prems False by (auto simp: hunk_lines_def)
      ultimately show ?thesis using Cons.IH [of ?k ?f o1 w1] Cons.prems k False by (simp add: show_hunk_full)
    qed
  qed
qed (simp add: hunk_lines_def)

section \<open>Reading a patch\<close>

lemma boundary_ascii: "boundary l \<longleftrightarrow> prefix ''diff --git '' l \<or> prefix ''@@ '' l" "ascii ''diff --git ''" "ascii ''@@ ''"
  by (simp_all add: boundary_def)

lemma clip_not_boundary: "\<not> boundary l \<Longrightarrow> \<not> boundary (fst (clip n l))"
  using clip_prefix [of "''diff --git ''" l n] clip_prefix [of "''@@ ''" l n] boundary_ascii by auto

lemma run_extended:
  assumes "list_all (\<lambda>l. \<not> boundary l) ls"
  shows "run_lines (map (clip n) ls @ more_lines) (at_file before f after k None old new) =
         run_lines more_lines (at_file before f after k None old new)"
  using assms
proof (induction ls)
  case (Cons l ls)
  obtain x u where x: "clip n l = (x, u)" by (rule prod.exhaust)
  have "\<not> boundary x" using clip_not_boundary [of l n] Cons.prems x by simp
  then have "patch_line x u (at_file before f after k None old new) = (None, at_file before f after k None old new)"
    by (simp add: patch_line_def boundary_def)
  then show ?case using Cons by (simp add: x)
qed simp

lemma first_line:
  assumes "11 \<le> n" and "clip n (''diff --git '' @ names) = (x, u)"
  shows "prefix ''diff --git '' x"
proof -
  have "x = ''diff --git '' @ ToValidUTF8 (take (n - length ''diff --git '') names)"
    using clip_append [OF boundary_ascii(2), of n names] assms by simp
  then show ?thesis by simp
qed

text \<open>Between two sections: the files before the next one are done.\<close>

definition between :: "DiffFile list \<Rightarrow> DiffFile list \<Rightarrow> nat \<Rightarrow> nat \<Rightarrow> nat \<Rightarrow> patch_state" where
  "between before after k old new =
     \<lparr>pp_files = before @ after, pp_fileIdx = int (length before) - 1, pp_linesLeft = int k, pp_hunk = None,
      pp_oldLine = int old, pp_newLine = int new\<rparr>"

lemma at_file_between: "at_file before f after k None old new = between (before @ [f]) after k old new"
  by (simp add: at_file_def between_def)

lemma boundary_sections:
  assumes "11 \<le> n"
  shows "at_boundary (map (clip n) (concat (map section_text ss)))"
proof (cases ss)
  case (Cons s ss')
  obtain x u where "clip n (''diff --git '' @ ps_names s) = (x, u)" by (rule prod.exhaust)
  then show ?thesis using first_line [OF assms, of "ps_names s" x u] Cons by (simp add: at_boundary_def boundary_def section_text_def)
qed (simp add: at_boundary_def)

lemma section_start:
  assumes "11 \<le> n"
  shows "run_lines (map (clip n) (section_text s) @ more_lines) (between before (f # after) k old new) =
    run_lines (map (clip n) (ps_extended s @ concat (map hunk_text (ps_hunks s))) @ more_lines)
      (at_file before f after k None old new)"
    and "run_lines (map (clip n) (section_text s) @ more_lines) (between before [] k old new) = (PatchStopped, before)"
proof -
  obtain x u where x: "clip n (''diff --git '' @ ps_names s) = (x, u)" by (rule prod.exhaust)
  note first = first_line [OF assms x]
  have shape: "map (clip n) (section_text s) = (x, u) # map (clip n) (ps_extended s @ concat (map hunk_text (ps_hunks s)))"
    by (simp only: section_text_def list.map x)
  have "patch_line x u (between before (f # after) k old new) = (None, at_file before f after k None old new)"
    using first by (simp add: patch_line_def finishHunk_def between_def at_file_def)
  then show "run_lines (map (clip n) (section_text s) @ more_lines) (between before (f # after) k old new) =
    run_lines (map (clip n) (ps_extended s @ concat (map hunk_text (ps_hunks s))) @ more_lines)
      (at_file before f after k None old new)"
    unfolding shape by simp
  show "run_lines (map (clip n) (section_text s) @ more_lines) (between before [] k old new) = (PatchStopped, before)"
    unfolding shape using first by (simp add: patch_line_def finishHunk_def between_def)
qed

lemma run_sections:
  assumes "11 \<le> n" and "list_all (section_ok n) ss" and "list_all (\<lambda>f. df_Hunks f = []) after"
  shows "\<exists>e. (e = PatchDone \<or> e = PatchStopped) \<and>
    run_lines (map (clip n) (concat (map section_text ss))) (between before after k old new) =
    (e, before @ show_files n k after ss)"
  using assms(2,3)
proof (induction ss arbitrary: before after k old new)
  case Nil
  then show ?case by (cases after) (simp_all add: between_def finishHunk_def)
next
  case (Cons s ss)
  let ?more = "map (clip n) (concat (map section_text ss))"
  show ?case
  proof (cases after)
    case Nil
    then show ?thesis using section_start(2) [OF assms(1), of s ?more before k old new] by simp
  next
    case after: (Cons f after')
    have ok: "list_all (\<lambda>l. \<not> boundary l) (ps_extended s)" "list_all (hunk_ok n) (ps_hunks s)"
      using Cons.prems(1) by (auto simp: section_ok_def list_all_iff)
    have f: "df_Hunks f = []" using Cons.prems(2) after by simp
    have start: "run_lines (map (clip n) (concat (map section_text (s # ss)))) (between before after k old new) =
        run_lines (map (clip n) (concat (map hunk_text (ps_hunks s))) @ ?more) (at_file before f after' k None old new)"
      using section_start(1) [OF assms(1), of s ?more before f after' k old new] run_extended [OF ok(1), of n _ before f after' k old new] after
      by simp
    show ?thesis
    proof (cases "hunk_lines (ps_hunks s) \<le> k")
      case True
      let ?k = "k - hunk_lines (ps_hunks s)" and ?f = "show_file n f (ps_hunks s)"
      obtain o1 w1 where "run_lines (map (clip n) (concat (map hunk_text (ps_hunks s))) @ ?more) (at_file before f after' k None old new) =
          run_lines ?more (between (before @ [?f]) after' ?k o1 w1)"
        using run_hunks [OF ok(2) True boundary_sections [OF assms(1)], of ss before f after' old new]
        by (auto simp: at_file_between f show_file_def)
      then show ?thesis
        using start after True Cons.IH [of after' "before @ [?f]" ?k o1 w1] Cons.prems by auto
    next
      case False
      then show ?thesis
        using start after f run_hunks_stop [OF ok(2) _ boundary_sections [OF assms(1)], of k ss before f after' old new]
        by (simp add: show_file_def)
    qed
  qed
qed

lemma section_lines_ok: "section_ok n s \<Longrightarrow> list_all (\<lambda>l. newline \<notin> set l) (section_text s)"
proof -
  assume s: "section_ok n s"
  have digits: "newline \<notin> set (format_nat m)" for m using format_nat_digits [of m] by (auto simp: list_all_iff is_digit_def)
  then have "newline \<notin> set (hunk_ranges h)" for h by (auto simp: hunk_ranges_def range_text_def split: option.splits)
  moreover have "newline \<noteq> kind_char c" for c by (cases c) simp_all
  ultimately have "list_all (\<lambda>l. newline \<notin> set l) (hunk_text h)" if "hunk_ok n h" for h
    using that by (auto simp: hunk_text_def hunk_ok_def body_text_def list_all_iff)
  then show ?thesis using s by (auto simp: section_text_def section_ok_def list_all_iff)
qed

lemma parsePatch_shows:
  assumes "11 \<le> n" and "list_all (section_ok n) ss" and "list_all (\<lambda>f. df_Hunks f = []) files"
    and "dm_MaxLineBytes limits = int n" and "dm_MaxLines limits = int k"
  shows "\<exists>e. (e = PatchDone \<or> e = PatchStopped) \<and>
    parsePatch b False (patch_text ss) files limits = (e, show_files n k files ss)"
proof -
  have "list_all (\<lambda>l. newline \<notin> set l) (concat (map section_text ss))"
    using assms(2) section_lines_ok by (auto simp: list_all_iff)
  then have "patch_loop b False (int n) (patch_text ss) (between [] files k 0 0) =
      run_lines (map (clip n) (concat (map section_text ss))) (between [] files k 0 0)"
    unfolding patch_text_def using assms(1) by (intro patch_loop_lines) simp_all
  moreover have "parsePatch b False (patch_text ss) files limits =
      patch_loop b False (int n) (patch_text ss) (between [] files k 0 0)"
    by (simp add: parsePatch_def between_def assms(4,5))
  ultimately show ?thesis using run_sections [OF assms(1-3), of "[]" k 0 0] by simp
qed

end
