(* ===== verification/Git_Changes.thy ===== *)
theory Git_Changes
  imports Git_Patch
begin

text \<open>
  Changes between two commits as \<open>git diff-tree\<close> documents them in its raw list, its counts and its
  patch, and how \<open>parseRawDiff\<close> and \<open>applyNumstat\<close> read them back.
\<close>

section \<open>A change and its texts\<close>

text \<open>The file as it should be described, the names of its two blobs, and its sections of the patch. A change
  of type, say from a file to a symbolic link, is printed as a deletion and a creation: two sections.\<close>

record change =
  ch_file :: DiffFile
  ch_oldBlob :: string
  ch_newBlob :: string
  ch_sections :: "patch_section list"

definition terminated :: "string list \<Rightarrow> string" where
  "terminated fs = concat (map (\<lambda>f. f @ [nul]) fs)"

text \<open>\<open>%03d\<close>\<close>

definition pad3 :: "nat \<Rightarrow> string" where
  "pad3 n = replicate (3 - length (format_nat n)) (CHR ''0'') @ format_nat n"

definition two_paths :: "DiffFile \<Rightarrow> bool" where
  "two_paths f \<longleftrightarrow> df_Status f = StatusRenamed \<or> df_Status f = StatusCopied"

definition status_text :: "DiffFile \<Rightarrow> string" where
  "status_text f = (case df_Status f of
       StatusAdded \<Rightarrow> ''A'' | StatusModified \<Rightarrow> ''M'' | StatusDeleted \<Rightarrow> ''D'' | StatusTypeChanged \<Rightarrow> ''T''
     | StatusRenamed \<Rightarrow> CHR ''R'' # pad3 (nat (df_Similarity f))
     | StatusCopied \<Rightarrow> CHR ''C'' # pad3 (nat (df_Similarity f)))"

definition changed_paths :: "DiffFile \<Rightarrow> string list" where
  "changed_paths f = (if two_paths f then [df_OldPath f, df_NewPath f] else [DiffFile_Path f])"

definition raw_meta :: "change \<Rightarrow> string" where
  "raw_meta c = CHR '':'' # df_OldMode (ch_file c) @ CHR '' '' # df_NewMode (ch_file c) @ CHR '' '' #
     ch_oldBlob c @ CHR '' '' # ch_newBlob c @ CHR '' '' # status_text (ch_file c)"

definition raw_fields :: "change \<Rightarrow> string list" where
  "raw_fields c = raw_meta c # changed_paths (ch_file c)"

definition counts_text :: "DiffFile \<Rightarrow> string" where
  "counts_text f = (if df_Binary f then ''-'' else format_nat (nat (df_Additions f))) @ CHR 0x09 #
     (if df_Binary f then ''-'' else format_nat (nat (df_Deletions f))) @ [CHR 0x09]"

definition numstat_fields :: "change \<Rightarrow> string list" where
  "numstat_fields c = (let f = ch_file c in
     if two_paths f then [counts_text f, df_OldPath f, df_NewPath f] else [counts_text f @ DiffFile_Path f])"

text \<open>What git prints of the changes.\<close>

definition diff_tree_of :: "change list \<Rightarrow> diff_tree" where
  "diff_tree_of cs =
     \<lparr>dt_raw = (\<lambda>from to. ok (terminated (concat (map raw_fields cs)))),
      dt_numstat = (\<lambda>from to. ok (terminated (concat (map numstat_fields cs)))),
      dt_patch = (\<lambda>from to. \<lparr>gs_bytes = patch_text (concat (map ch_sections cs)), gs_broken = False, gs_ctx = None, gs_wait = None\<rparr>)\<rparr>"

definition raw_word :: "string \<Rightarrow> bool" where
  "raw_word w \<longleftrightarrow> word_ok w \<and> nul \<notin> set w"

definition path_ok :: "string \<Rightarrow> bool" where
  "path_ok p \<longleftrightarrow> p \<noteq> [] \<and> nul \<notin> set p \<and> valid_utf8 p"

definition file_ok :: "DiffFile \<Rightarrow> bool" where
  "file_ok f \<longleftrightarrow> raw_word (df_OldMode f) \<and> raw_word (df_NewMode f) \<and>
     (if df_Status f = StatusAdded then df_OldPath f = [] else path_ok (df_OldPath f)) \<and>
     (if df_Status f = StatusDeleted then df_NewPath f = [] else path_ok (df_NewPath f)) \<and>
     (df_Status f = StatusModified \<or> df_Status f = StatusTypeChanged \<longrightarrow> df_OldPath f = df_NewPath f) \<and>
     0 \<le> df_Similarity f \<and> df_Similarity f < 2 ^ 63 \<and> (two_paths f \<or> df_Similarity f = 0) \<and>
     0 \<le> df_Additions f \<and> df_Additions f < 2 ^ 63 \<and> 0 \<le> df_Deletions f \<and> df_Deletions f < 2 ^ 63 \<and>
     (df_Binary f \<longrightarrow> df_Additions f = 0 \<and> df_Deletions f = 0) \<and> df_Hunks f = [] \<and> \<not> df_PatchTruncated f"

definition change_ok :: "change \<Rightarrow> bool" where
  "change_ok c \<longleftrightarrow> file_ok (ch_file c) \<and> raw_word (ch_oldBlob c) \<and> raw_word (ch_newBlob c) \<and>
     length (ch_sections c) = (if df_Status (ch_file c) = StatusTypeChanged then 2 else 1)"

definition uncounted :: "DiffFile \<Rightarrow> DiffFile" where
  "uncounted f = f\<lparr>df_Additions := 0, df_Deletions := 0, df_Binary := False\<rparr>"

section \<open>Fields\<close>

lemma split_terminated:
  assumes "list_all (\<lambda>f. nul \<notin> set f) fs"
  shows "split_on nul (trim_suffix (terminated fs) [nul]) = (if fs = [] then [[]] else fs)"
proof (cases fs rule: rev_cases)
  case (snoc gs l)
  have "split_on nul (terminated gs @ l) = gs @ [l]" if "list_all (\<lambda>f. nul \<notin> set f) gs" for gs
    using that
  proof (induction gs)
    case Nil
    then show ?case using assms snoc by (simp add: terminated_def split_on_no_sep)
  next
    case (Cons g gs)
    then have "split_on nul (g @ nul # (terminated gs @ l)) = g # (gs @ [l])" by (simp add: split_on_append_sep)
    then show ?case by (simp add: terminated_def)
  qed
  moreover have "trim_suffix (terminated fs) [nul] = terminated gs @ l"
    by (simp add: snoc terminated_def trim_suffix_def suffix_def)
  ultimately show ?thesis using assms snoc by simp
qed (simp add: terminated_def trim_suffix_def)

lemma digits_val_padding [simp]: "digits_val (replicate k (CHR ''0'') @ s) = digits_val s"
  by (induction k) simp_all

lemma pad3_digits: "pad3 n \<noteq> []" "list_all is_digit (pad3 n)" "digits_val (pad3 n) = n"
  using format_nat_digits [of n] by (auto simp: pad3_def list_all_iff is_digit_def)

lemma atoi_digits: "s \<noteq> [] \<Longrightarrow> list_all is_digit s \<Longrightarrow> digits_val s < 2 ^ 63 \<Longrightarrow> atoi_value s = int (digits_val s)"
  by (simp add: atoi_value_def Let_def parse_int_digits)

lemma atoi_pad3: "0 \<le> n \<Longrightarrow> n < 2 ^ 63 \<Longrightarrow> atoi_value (pad3 (nat n)) = n"
  using atoi_digits [OF pad3_digits(1,2), of "nat n"] by (simp add: pad3_digits(3))

lemma atoi_format: "0 \<le> n \<Longrightarrow> n < 2 ^ 63 \<Longrightarrow> atoi_value (format_nat (nat n)) = n"
  using atoi_digits [of "format_nat (nat n)"] format_nat_digits [of "nat n"] by simp

lemma digits_no_nul: "list_all is_digit s \<Longrightarrow> nul \<notin> set s"
  by (auto simp: list_all_iff is_digit_def nul_def)

lemma status_word: "raw_word (status_text f)"
proof -
  have "list_all plain (pad3 n)" for n using pad3_digits(2) [of n] by (auto simp: list_all_iff digit_plain)
  moreover have "nul \<notin> set (pad3 n)" for n using digits_no_nul [OF pad3_digits(2)] .
  ultimately show ?thesis
    by (cases "df_Status f") (auto simp: status_text_def raw_word_def word_ok_def plain_def nul_def)
qed

lemma meta_fields:
  assumes "change_ok c"
  shows "Fields (tl (raw_meta c)) =
    [df_OldMode (ch_file c), df_NewMode (ch_file c), ch_oldBlob c, ch_newBlob c, status_text (ch_file c)]"
  using assms status_word [of "ch_file c"]
  by (simp add: raw_meta_def change_ok_def file_ok_def raw_word_def Fields_words Fields_word)

lemma fields_no_nul:
  assumes "change_ok c"
  shows "list_all (\<lambda>f. nul \<notin> set f) (raw_fields c)" "list_all (\<lambda>f. nul \<notin> set f) (numstat_fields c)"
proof -
  have sep: "nul \<noteq> CHR '' ''" "nul \<noteq> CHR '':''" "nul \<noteq> CHR 0x09" "nul \<noteq> CHR ''-''" by (simp_all add: nul_def)
  have paths: "nul \<notin> set (df_OldPath (ch_file c))" "nul \<notin> set (df_NewPath (ch_file c))"
    using assms by (auto simp: change_ok_def file_ok_def path_ok_def split: if_splits)
  show "list_all (\<lambda>f. nul \<notin> set f) (raw_fields c)"
    using assms status_word [of "ch_file c"] paths sep
    by (auto simp: raw_fields_def raw_meta_def changed_paths_def DiffFile_Path_def change_ok_def file_ok_def raw_word_def)
  have "nul \<notin> set (format_nat m)" for m using format_nat_digits [of m] digits_no_nul by blast
  then have "nul \<notin> set (counts_text (ch_file c))" using sep by (auto simp: counts_text_def)
  then show "list_all (\<lambda>f. nul \<notin> set f) (numstat_fields c)"
    using paths by (auto simp: numstat_fields_def Let_def DiffFile_Path_def)
qed

section \<open>Reading the list of files\<close>

lemma ToValidUTF8_path: "path_ok p \<or> p = [] \<Longrightarrow> ToValidUTF8 p = p"
  by (auto simp: path_ok_def)

lemma raw_file_reads_back:
  assumes "change_ok c"
  shows "raw_file (Fields (tl (raw_meta c))) (changed_paths (ch_file c) @ rest) = uncounted (ch_file c)"
proof -
  let ?f = "ch_file c"
  have f: "file_ok ?f" using assms by (simp add: change_ok_def)
  have valid: "ToValidUTF8 (df_OldPath ?f) = df_OldPath ?f" "ToValidUTF8 (df_NewPath ?f) = df_NewPath ?f"
    using f by (auto simp: file_ok_def intro!: ToValidUTF8_path split: if_splits)
  have sim: "atoi_value (pad3 (nat (df_Similarity ?f))) = df_Similarity ?f" using f by (intro atoi_pad3) (simp_all add: file_ok_def)
  have shape: "df_Hunks ?f = []" "\<not> df_PatchTruncated ?f" "two_paths ?f \<or> df_Similarity ?f = 0"
    using f by (simp_all add: file_ok_def)
  show ?thesis unfolding meta_fields [OF assms] using f valid sim shape
    by (cases "df_Status ?f")
      (simp_all add: raw_file_def Let_def status_text_def new_diff_file_def changed_paths_def two_paths_def uncounted_def
         file_ok_def DiffFile_Path_def split: if_splits)
qed

lemma parse_raw_reads_back:
  assumes "list_all change_ok cs"
  shows "parse_raw m files n (concat (map raw_fields cs)) =
    ok (files @ take (nat (m - int (length files))) (map (uncounted \<circ> ch_file) cs), n + int (length cs))"
  using assms
proof (induction cs arbitrary: files n)
  case (Cons c cs)
  then have c: "change_ok c" by simp
  let ?rest = "changed_paths (ch_file c) @ concat (map raw_fields cs)"
  have len: "status_paths (status_text (ch_file c)) = length (changed_paths (ch_file c))"
    by (cases "df_Status (ch_file c)") (simp_all add: status_paths_def status_text_def changed_paths_def two_paths_def)
  have meta: "raw_meta c \<noteq> []" "prefix '':'' (raw_meta c)" by (simp_all add: raw_meta_def)
  have parts: "length (Fields (tl (raw_meta c))) = 5" "Fields (tl (raw_meta c)) ! 4 = status_text (ch_file c)"
    by (simp_all add: meta_fields [OF c])
  have "parse_raw m files n (concat (map raw_fields (c # cs))) =
    parse_raw m (if int (length files) < m then files @ [uncounted (ch_file c)] else files) (n + 1) (concat (map raw_fields cs))"
    using meta parts by (simp add: raw_fields_def len raw_file_reads_back [OF c])
  moreover have "nat (m - int (length files)) = Suc (nat (m - int (length files + 1)))" if "int (length files) < m"
    using that by linarith
  ultimately show ?case using Cons by auto
qed simp

lemma fields_all_no_nul:
  assumes "list_all change_ok cs"
  shows "list_all (\<lambda>f. nul \<notin> set f) (concat (map raw_fields cs))" "list_all (\<lambda>f. nul \<notin> set f) (concat (map numstat_fields cs))"
  using assms fields_no_nul by (force simp: list_all_iff)+

lemma parseRawDiff_reads_back:
  assumes "list_all change_ok cs"
  shows "parseRawDiff (terminated (concat (map raw_fields cs))) m =
    ok (take (nat m) (map (uncounted \<circ> ch_file) cs), int (length cs))"
proof (cases "cs = []")
  case False
  then have "concat (map raw_fields cs) \<noteq> []" by (cases cs) (simp_all add: raw_fields_def)
  then have "split_on nul (trim_suffix (terminated (concat (map raw_fields cs))) [nul]) = concat (map raw_fields cs)"
    using split_terminated [OF fields_all_no_nul(1) [OF assms]] by (simp only: if_False)
  then show ?thesis using parse_raw_reads_back [OF assms, of m "[]" 0] by (simp add: parseRawDiff_def)
qed (simp add: parseRawDiff_def terminated_def trim_suffix_def)

section \<open>Reading the counts\<close>

lemma digits_no_tab: "CHR 0x09 \<notin> set (format_nat n)" "format_nat n \<noteq> ''-''"
  using format_nat_digits [of n] by (auto simp: list_all_iff is_digit_def)

lemma split_counts:
  "split_n 3 [CHR 0x09] (counts_text f @ p) =
   [if df_Binary f then ''-'' else format_nat (nat (df_Additions f)),
    if df_Binary f then ''-'' else format_nat (nat (df_Deletions f)), p]"
  using digits_no_tab(1) [THEN cut_char] cut_char [of "CHR 0x09" "''-''"]
  by (simp add: counts_text_def numeral_3_eq_3)

lemma count_lines_reads_back:
  assumes "file_ok f"
  shows "count_lines (if df_Binary f then ''-'' else format_nat (nat (df_Additions f)))
    (if df_Binary f then ''-'' else format_nat (nat (df_Deletions f))) (uncounted f) = f"
  using assms digits_no_tab(2) by (simp add: count_lines_def uncounted_def file_ok_def atoi_format)

lemma counts_nonempty: "counts_text f @ p \<noteq> []"
  by (simp add: counts_text_def)

lemma numstat_reads_back:
  assumes "list_all change_ok cs"
  shows "numstat_loop before (take j (map (uncounted \<circ> ch_file) cs)) (concat (map numstat_fields cs)) =
    ok (before @ take j (map ch_file cs))"
  using assms
proof (induction cs arbitrary: before j)
  case (Cons c cs)
  then have f: "file_ok (ch_file c)" by (simp add: change_ok_def)
  show ?case
  proof (cases j)
    case j: 0
    have "numstat_loop before [] fs = ok before" for fs by (cases fs) simp_all
    then show ?thesis using j by simp
  next
    case (Suc j')
    let ?f = "ch_file c" and ?more = "concat (map numstat_fields cs)"
    have path: "DiffFile_Path ?f \<noteq> []" if "\<not> two_paths ?f"
      using f by (auto simp: file_ok_def path_ok_def DiffFile_Path_def split: if_splits)
    have "numstat_loop before (uncounted ?f # after) (numstat_fields c @ ?more) = numstat_loop (before @ [?f]) after ?more" for after
      using path count_lines_reads_back [OF f] split_counts [of ?f "[]"] split_counts [of ?f "DiffFile_Path ?f"]
        counts_nonempty [of ?f "[]"] counts_nonempty [of ?f "DiffFile_Path ?f"]
      by (auto simp: numstat_fields_def Let_def)
    then show ?thesis using Cons Suc by simp
  qed
qed simp

lemma applyNumstat_reads_back:
  assumes "list_all change_ok cs"
  shows "applyNumstat (take j (map (uncounted \<circ> ch_file) cs)) (terminated (concat (map numstat_fields cs))) =
    ok (take j (map ch_file cs))"
proof (cases "cs = []")
  case False
  then have "concat (map numstat_fields cs) \<noteq> []" by (cases cs) (auto simp: numstat_fields_def Let_def)
  then have "split_on nul (trim_suffix (terminated (concat (map numstat_fields cs))) [nul]) = concat (map numstat_fields cs)"
    using split_terminated [OF fields_all_no_nul(2) [OF assms]] by (simp only: if_False)
  then show ?thesis using numstat_reads_back [OF assms, of "[]" j] by (simp add: applyNumstat_def)
qed (simp add: applyNumstat_def terminated_def trim_suffix_def)

end
