(* ===== verification/Git_Diff_Properties.thy ===== *)
theory Git_Diff_Properties
  imports Git_Changes
begin

text \<open>
  What \<open>Repo.Diff\<close> returns: on the texts git documents, the changes with their hunks up to the limits, and
  on any texts at all, no more than the limits.
\<close>

section \<open>Exactness\<close>

lemma Diff_shows:
  assumes "IsHash to" and "from = [] \<or> IsHash from" and "list_all change_ok cs"
    and "11 \<le> n" and "list_all (list_all (section_ok n) \<circ> ch_sections) cs"
    and "limits = \<lparr>dm_MaxFiles = int m, dm_MaxLines = int k, dm_MaxLineBytes = int n\<rparr>"
  shows "Diff (diff_tree_of cs) b from to limits =
    ok \<lparr>dr_Files = show_files n k (take m (map ch_file cs)) (concat (map ch_sections cs)),
        dr_MoreFiles = int (length cs - m)\<rparr>"
proof -
  let ?files = "take m (map (uncounted \<circ> ch_file) cs)" and ?counted = "take m (map ch_file cs)"
  have from': "IsHash (if from = [] then emptyTree to else from)"
    using assms(2) by (auto simp: emptyTree_def IsHash_def is_hex_lower_def is_digit_def)
  have raw: "parseRawDiff (terminated (concat (map raw_fields cs))) (int m) = ok (?files, int (length cs))"
    using parseRawDiff_reads_back [OF assms(3), of "int m"] by simp
  have left: "int (length cs) - int (length ?files) = int (length cs - m)" by simp
  have hunks: "list_all (\<lambda>f. df_Hunks f = []) ?counted"
    using assms(3) by (auto simp: list_all_iff change_ok_def file_ok_def dest!: in_set_takeD)
  have sections: "list_all (section_ok n) (concat (map ch_sections cs))" using assms(5) by (auto simp: list_all_iff)
  obtain e where e: "e = PatchDone \<or> e = PatchStopped"
    and patch: "parsePatch b False (patch_text (concat (map ch_sections cs))) ?counted limits =
      (e, show_files n k ?counted (concat (map ch_sections cs)))"
    using parsePatch_shows [OF assms(4) sections hunks, of limits k b] assms(6) by auto
  show ?thesis
  proof (cases "?files = []")
    case True
    then have "show_files n k ?counted ss = []" for ss by auto
    then show ?thesis using assms(1,6) from' raw left True by (simp add: Diff_def diff_tree_of_def Let_def)
  next
    case False
    then show ?thesis
      using assms(1,6) from' raw left e patch applyNumstat_reads_back [OF assms(3), of m]
      by (auto simp: Diff_def diff_tree_of_def Let_def stream_error_def)
  qed
qed

section \<open>Limits\<close>

definition file_lines :: "DiffFile \<Rightarrow> nat" where
  "file_lines f = sum_list (map (length \<circ> hk_Lines) (df_Hunks f))"

definition lines_short :: "nat \<Rightarrow> Hunk \<Rightarrow> bool" where
  "lines_short n h \<longleftrightarrow> list_all (\<lambda>l. length (dl_Text l) \<le> 3 * n) (hk_Lines h)"

definition file_short :: "nat \<Rightarrow> DiffFile \<Rightarrow> bool" where
  "file_short n f \<longleftrightarrow> list_all (lines_short n) (df_Hunks f)"

text \<open>
  The loop of \<open>parsePatch\<close>: an unfinished hunk belongs to a file of the list, so the index is in range; the
  lines kept and those left make at most the limit.
\<close>

definition pending_lines :: "patch_state \<Rightarrow> nat" where
  "pending_lines st = (case pp_hunk st of None \<Rightarrow> 0 | Some h \<Rightarrow> length (hk_Lines h))"

definition patch_inv :: "nat \<Rightarrow> nat \<Rightarrow> nat \<Rightarrow> patch_state \<Rightarrow> bool" where
  "patch_inv n m k st \<longleftrightarrow>
     length (pp_files st) = m \<and> list_all (file_short n) (pp_files st) \<and> -1 \<le> pp_fileIdx st \<and> pp_fileIdx st < int m \<and>
     (\<forall>h. pp_hunk st = Some h \<longrightarrow> lines_short n h \<and> 0 \<le> pp_fileIdx st) \<and>
     sum_list (map file_lines (pp_files st)) + pending_lines st + nat (pp_linesLeft st) \<le> k"

definition files_within :: "nat \<Rightarrow> nat \<Rightarrow> nat \<Rightarrow> DiffFile list \<Rightarrow> bool" where
  "files_within n m k fs \<longleftrightarrow> length fs = m \<and> list_all (file_short n) fs \<and> sum_list (map file_lines fs) \<le> k"

lemma patch_inv_files: "patch_inv n m k st \<Longrightarrow> files_within n m k (pp_files st)"
  by (simp add: patch_inv_def files_within_def)

lemma mark_truncated_keeps [simp]: "df_Hunks (mark_truncated f) = df_Hunks f" "file_lines (mark_truncated f) = file_lines f"
    "file_short n (mark_truncated f) = file_short n f"
  by (simp_all add: mark_truncated_def file_lines_def file_short_def)

lemma finishHunk_inv [inv_intros]:
  assumes "patch_inv n m k st"
  shows "patch_inv n m k (finishHunk st)"
proof (cases "pp_hunk st")
  case (Some h)
  let ?i = "nat (pp_fileIdx st)" and ?fs = "pp_files st"
  let ?g = "(?fs ! ?i)\<lparr>df_Hunks := df_Hunks (?fs ! ?i) @ [h]\<rparr>"
  have h: "lines_short n h" "0 \<le> pp_fileIdx st" and i: "?i < length ?fs" and short: "list_all (file_short n) ?fs"
    using assms Some by (auto simp: patch_inv_def)
  have st: "finishHunk st = st\<lparr>pp_files := ?fs[?i := ?g], pp_hunk := None\<rparr>"
    using Some h(2) by (simp add: finishHunk_def Let_def)
  have "file_short n (?fs ! ?i)" using short i by (simp add: list_all_length)
  then have g: "file_short n ?g" "file_lines ?g = file_lines (?fs ! ?i) + length (hk_Lines h)"
    using h(1) by (simp_all add: file_short_def file_lines_def)
  have "sum_list (map file_lines (?fs[?i := ?g])) = sum_list (map file_lines ?fs) + length (hk_Lines h)"
  proof -
    have "file_lines (?fs ! ?i) \<le> sum_list (map file_lines ?fs)" using i by (intro member_le_sum_list) simp_all
    then show ?thesis using i g(2) by (simp add: map_update sum_list_update)
  qed
  moreover have "list_all (file_short n) (?fs[?i := ?g])" using short g(1) i by (auto simp: list_all_length nth_list_update)
  ultimately show ?thesis using assms Some unfolding st by (simp add: patch_inv_def pending_lines_def)
next
  case None
  then show ?thesis using assms by (simp add: finishHunk_def)
qed

lemma truncateRest_inv [inv_intros]:
  assumes "patch_inv n m k st"
  shows "patch_inv n m k (truncateRest st)"
proof -
  let ?i = "nat (pp_fileIdx st)" and ?fs = "pp_files st"
  have "sum_list (map file_lines (take ?i ?fs @ map mark_truncated (drop ?i ?fs))) = sum_list (map file_lines (take ?i ?fs @ drop ?i ?fs))"
    by (simp only: map_append map_map comp_def mark_truncated_keeps)
  moreover have "list_all (file_short n) (take ?i ?fs @ map mark_truncated (drop ?i ?fs)) = list_all (file_short n) (take ?i ?fs @ drop ?i ?fs)"
    by (simp only: list_all_append list.pred_map comp_def mark_truncated_keeps)
  ultimately show ?thesis using assms by (simp add: patch_inv_def truncateRest_def Let_def pending_lines_def)
qed

lemma body_line_inv:
  assumes "patch_inv n m k st" and "pp_hunk st = Some h" and "0 < pp_linesLeft st" and "length line \<le> 3 * n"
  shows "patch_inv n m k (patch_body_line line t h st)"
  using assms by (auto simp: patch_inv_def patch_body_line_def Let_def lines_short_def pending_lines_def split: option.splits)

lemma patch_line_inv:
  assumes "patch_inv n m k st" and "length line \<le> 3 * n" and "patch_line line t st = (e, st')"
  shows "patch_inv n m k st' \<or> (e \<noteq> None \<and> files_within n m k (pp_files st'))"
proof (cases "prefix ''diff --git '' line")
  case True
  have "patch_inv n m k (finishHunk st)" using assms(1) by (rule finishHunk_inv)
  then show ?thesis using assms(3) True
    by (auto simp: patch_line_def Let_def patch_inv_def pending_lines_def files_within_def split: if_splits)
next
  case nodiff: False
  show ?thesis
  proof (cases "pp_fileIdx st < 0 \<or> (pp_hunk st = None \<and> \<not> prefix ''@@ '' line)")
    case True
    then have "st' = st" using assms(3) nodiff by (auto simp: patch_line_def split: option.splits if_splits)
    then show ?thesis using assms(1) by simp
  next
    case False
    show ?thesis
    proof (cases "prefix ''@@ '' line")
      case True
      have fin: "patch_inv n m k (finishHunk st)" using assms(1) by (rule finishHunk_inv)
      then have stop: "patch_inv n m k (truncateRest (finishHunk st))" by (rule truncateRest_inv)
      have "patch_inv n m k ((finishHunk st)\<lparr>pp_oldLine := old, pp_newLine := new,
          pp_hunk := Some \<lparr>hk_Header = line, hk_Lines = []\<rparr>\<rparr>)" for old new
        using fin False by (simp add: patch_inv_def pending_lines_def lines_short_def)
      then show ?thesis using assms(3) fin stop nodiff False True
        by (auto simp: patch_line_def Let_def split: if_splits option.splits)
    next
      case body: False
      then obtain h where h: "pp_hunk st = Some h" using False by auto
      have stop: "patch_inv n m k (truncateRest (finishHunk st))" using assms(1) by (intro inv_intros)
      then show ?thesis using assms nodiff False body h body_line_inv [OF assms(1) h _ assms(2), of t]
        by (auto simp: patch_line_def split: if_splits)
    qed
  qed
qed

lemma length_ToValidUTF8: "length (ToValidUTF8 s) \<le> 3 * length s"
proof -
  have "length (to_valid_from bad replacement s) \<le> 3 * length s" for bad
  proof (induction bad replacement s rule: to_valid_from.induct)
    case (1 bad s)
    show ?case
    proof (cases "s = []")
      case False
      then have w: "1 \<le> snd (decode_rune s)" "snd (decode_rune s) \<le> length s" using decode_rune_width [of s] by simp_all
      show ?thesis
      proof (cases "decode_rune s = (rune_error, 1)")
        case True
        let ?r = "to_valid_from True replacement (drop 1 s)"
        have "to_valid_from bad replacement s = (if bad then [] else replacement) @ ?r"
          using False True by (simp add: to_valid_from.simps [of bad replacement s])
        then have "length (to_valid_from bad replacement s) \<le> 3 + length ?r" by (simp add: replacement_def)
        moreover have "length s = Suc (length (drop 1 s))" using False by (cases s) simp_all
        ultimately show ?thesis using 1(1) [OF False True] by linarith
      next
        case valid: False
        then show ?thesis using 1(2) [OF False valid] False w by (simp add: to_valid_from.simps [of bad replacement s] algebra_simps)
      qed
    qed (simp add: to_valid_from.simps)
  qed
  then show ?thesis by (simp add: ToValidUTF8_def)
qed

lemma line_at_short: "line_at broken n s = (LineRead l t, rest) \<Longrightarrow> length l \<le> 3 * n"
proof -
  have "length (ToValidUTF8 (take n u)) \<le> 3 * n" for u using length_ToValidUTF8 [of "take n u"] by simp
  then show "line_at broken n s = (LineRead l t, rest) \<Longrightarrow> length l \<le> 3 * n"
    by (auto simp: line_at_def Let_def split: if_splits)
qed

lemma patch_loop_within:
  assumes "1 \<le> n" and "patch_inv n m k st" and "patch_loop b broken (int n) s st = (e, fs)"
  shows "files_within n m k fs"
  using assms(2,3)
proof (induction "length s" arbitrary: s st rule: less_induct)
  case less
  note loop = patch_loop.simps [of b broken "int n" s st]
  obtain r rest where r: "readLine b broken (int n) s = (r, rest)" by (rule prod.exhaust)
  show ?case
  proof (cases r)
    case LineEOF
    then show ?thesis using less.prems r patch_inv_files [OF finishHunk_inv] by (auto simp: loop)
  next
    case LineError
    then show ?thesis using less.prems r patch_inv_files by (auto simp: loop)
  next
    case line: (LineRead l t)
    have short: "length l \<le> 3 * n" using r line assms(1) line_at_short by (simp add: readLine_exact)
    have smaller: "length rest < length s" using r line readLine_shorter by simp
    obtain e1 st1 where st1: "patch_line l t st = (e1, st1)" by (rule prod.exhaust)
    have inv: "patch_inv n m k st1 \<or> (e1 \<noteq> None \<and> files_within n m k (pp_files st1))"
      using patch_line_inv [OF less.prems(1) short st1] .
    show ?thesis
    proof (cases e1)
      case None
      then show ?thesis using less.hyps [OF smaller] inv less.prems(2) r line st1 by (simp add: loop)
    next
      case (Some e2)
      then have "fs = pp_files st1" using less.prems(2) r line st1 by (simp add: loop)
      then show ?thesis using inv patch_inv_files by auto
    qed
  qed
qed

lemma raw_file_no_hunks: "df_Hunks (raw_file parts paths) = []"
  by (simp add: raw_file_def Let_def new_diff_file_def)

lemma parse_raw_within:
  assumes "parse_raw m files n xs = ok (fs, n')" and "int (length files) \<le> n" and "int (length files) \<le> m"
    and "list_all (\<lambda>f. df_Hunks f = []) files"
  shows "int (length fs) \<le> n' \<and> int (length fs) \<le> m \<and> list_all (\<lambda>f. df_Hunks f = []) fs"
  using assms
proof (induction m files n xs rule: parse_raw.induct)
  case (2 m files n meta rest)
  show ?case
  proof (cases "meta = []")
    case True
    then show ?thesis using 2(1,3-6) by simp
  next
    case False
    then show ?thesis using 2(2) [OF False _ refl _ refl] 2(3-6)
      by (auto simp: Let_def raw_file_no_hunks split: if_splits)
  qed
qed simp

lemma numstat_within:
  assumes "numstat_loop before after xs = ok fs" and "list_all (\<lambda>f. df_Hunks f = []) (before @ after)"
  shows "length fs = length before + length after \<and> list_all (\<lambda>f. df_Hunks f = []) fs"
  using assms
proof (induction before after xs rule: numstat_loop.induct)
  case (3 before f after entry rest)
  show ?case
  proof (cases "entry = []")
    case True
    then show ?thesis using 3(1,3,4) by simp
  next
    case False
    have "df_Hunks (count_lines a d f) = []" for a d using 3(4) by (simp add: count_lines_def)
    then show ?thesis using 3(2) [OF False refl] 3(3,4) False by (auto simp: Let_def split: if_splits)
  qed
qed auto

lemma Diff_within:
  assumes "Diff git b from to limits = ok d" and "1 \<le> n"
    and "limits = \<lparr>dm_MaxFiles = int m, dm_MaxLines = int k, dm_MaxLineBytes = int n\<rparr>"
  shows "length (dr_Files d) \<le> m \<and> 0 \<le> dr_MoreFiles d \<and> files_within n (length (dr_Files d)) k (dr_Files d)"
proof -
  let ?from = "if from = [] then emptyTree to else from"
  obtain raw where raw: "dt_raw git ?from to = ok raw"
    using assms(1) by (auto simp: Diff_def Let_def split: if_splits sum.splits)
  obtain files n' where files: "parseRawDiff raw (int m) = ok (files, n')"
    using assms(1,3) raw by (auto simp: Diff_def Let_def split: if_splits sum.splits prod.splits)
  have within: "int (length files) \<le> n'" "length files \<le> m" and empty: "list_all (\<lambda>f. df_Hunks f = []) files"
    using parse_raw_within [of "int m" "[]" 0 _ files n'] files by (simp_all add: parseRawDiff_def)
  show ?thesis
  proof (cases "files = []")
    case True
    then have "d = \<lparr>dr_Files = [], dr_MoreFiles = n'\<rparr>"
      using assms(1,3) raw files by (auto simp: Diff_def Let_def split: if_splits)
    then show ?thesis using within by (simp add: files_within_def)
  next
    case False
    obtain numstat where numstat: "dt_numstat git ?from to = ok numstat"
      using assms(1,3) raw files False by (auto simp: Diff_def Let_def split: if_splits sum.splits)
    obtain counted where counted: "applyNumstat files numstat = ok counted"
      using assms(1,3) raw files False numstat by (auto simp: Diff_def Let_def split: if_splits sum.splits)
    have c: "length counted = length files" "list_all (\<lambda>f. df_Hunks f = []) counted"
      using numstat_within [of "[]" files _ counted] counted empty by (simp_all add: applyNumstat_def)
    obtain e patched where patched: "parsePatch b (gs_broken (dt_patch git ?from to)) (gs_bytes (dt_patch git ?from to)) counted limits = (e, patched)"
      by (rule prod.exhaust)
    have "sum_list (map file_lines counted) = 0" using c(2) by (simp add: sum_list_eq_0_iff list_all_iff file_lines_def)
    then have "patch_inv n (length counted) k
        \<lparr>pp_files = counted, pp_fileIdx = -1, pp_linesLeft = int k, pp_hunk = None, pp_oldLine = 0, pp_newLine = 0\<rparr>"
      using c(2) by (simp add: patch_inv_def pending_lines_def list_all_iff file_short_def)
    then have "files_within n (length counted) k patched"
      using patch_loop_within [OF assms(2)] patched assms(3) unfolding parsePatch_def by simp
    moreover have "d = \<lparr>dr_Files = patched, dr_MoreFiles = n' - int (length files)\<rparr>"
      using assms(1,3) raw files False numstat counted patched
      by (auto simp: Diff_def Let_def split: if_splits option.splits)
    ultimately show ?thesis using within c(1) by (simp add: files_within_def)
  qed
qed

section \<open>Properties\<close>

text \<open>
  C16: On what git documents, the changes are described exactly: paths, modes, counts and hunks of each, with every
  line numbered, up to the limits of files and lines. A change of type is left out here, see below.
\<close>

theorem Diff_exact:
  assumes "IsHash to" and "from = [] \<or> IsHash from"
    and "list_all change_ok cs" and "list_all (\<lambda>c. df_Status (ch_file c) \<noteq> StatusTypeChanged) cs"
    and "list_all (list_all (section_ok n) \<circ> ch_sections) cs" and "11 \<le> n"
  shows "Diff (diff_tree_of cs) b from to \<lparr>dm_MaxFiles = int m, dm_MaxLines = int k, dm_MaxLineBytes = int n\<rparr> =
    ok \<lparr>dr_Files = show_files n k (take m (map ch_file cs)) (map (hd \<circ> ch_sections) cs),
        dr_MoreFiles = int (length cs - m)\<rparr>"
proof -
  have "ch_sections c = [hd (ch_sections c)]" if "c \<in> set cs" for c
    using assms(3,4) that by (cases "ch_sections c") (auto simp: list_all_iff change_ok_def)
  then have "map ch_sections cs = map (\<lambda>c. [hd (ch_sections c)]) cs" by simp
  then have "concat (map ch_sections cs) = map (hd \<circ> ch_sections) cs" by (simp only: concat_map_singleton comp_def)
  then show ?thesis using Diff_shows [OF assms(1-3,6,5) refl, of b m k] by simp
qed

definition sample_hash :: string where
  "sample_hash = replicate 40 (CHR ''a'')"

definition sample_file :: "string \<Rightarrow> FileStatus \<Rightarrow> DiffFile" where
  "sample_file path status =
     \<lparr>df_Status = status, df_OldPath = path, df_NewPath = path, df_OldMode = ''100644'', df_NewMode = ''100644'',
      df_Similarity = 0, df_Additions = 1, df_Deletions = 0, df_Binary = False, df_Hunks = [], df_PatchTruncated = False\<rparr>"

definition sample_section :: "string \<Rightarrow> patch_section" where
  "sample_section t =
     \<lparr>ps_names = ''a/f b/f'', ps_extended = [''--- a/f'', ''+++ b/f''],
      ps_hunks = [\<lparr>ph_old = 1, ph_oldCount = None, ph_new = 1, ph_newCount = Some 2, ph_context = [],
                   ph_lines = [(LineContext, ''a''), (LineAdded, t)]\<rparr>]\<rparr>"

definition sample_change :: change where
  "sample_change = \<lparr>ch_file = sample_file ''f'' StatusModified, ch_oldBlob = sample_hash, ch_newBlob = sample_hash,
     ch_sections = [sample_section ''b'']\<rparr>"

lemma sample_texts:
  "IsHash sample_hash" "raw_word sample_hash"
proof -
  show "IsHash sample_hash" unfolding IsHash_def sample_hash_def by (simp add: list_all_iff is_hex_lower_def)
  show "raw_word sample_hash" unfolding raw_word_def sample_hash_def by (simp add: list_all_iff word_ok_def plain_def nul_def)
qed

lemma format_small: "format_nat (Suc 0) = ''1''" "format_nat 2 = ''2''"
proof -
  have "char_of (49 :: nat) = CHR ''1''" "char_of (50 :: nat) = CHR ''2''" by (rule code_inject [THEN iffD2], simp)+
  then show "format_nat (Suc 0) = ''1''" "format_nat 2 = ''2''"
    by (simp_all add: format_nat.simps [of "Suc 0"] format_nat.simps [of 2])
qed

lemma sample_section_ok: "newline \<notin> set t \<Longrightarrow> section_ok 2000 (sample_section t)"
  by (simp add: sample_section_def section_ok_def hunk_ok_def boundary_def hunk_ranges_def range_text_def format_small)

lemma sample_file_ok:
  assumes "p \<noteq> []" and "ascii p" and "nul \<notin> set p" and "status = StatusModified \<or> status = StatusTypeChanged"
  shows "file_ok (sample_file p status)"
proof -
  have "path_ok p" using assms valid_utf8_ascii [of p] by (simp add: path_ok_def ascii_def)
  moreover have "raw_word ''100644''" by (simp add: raw_word_def word_ok_def plain_def nul_def)
  ultimately show ?thesis using assms(4) by (auto simp: sample_file_def file_ok_def two_paths_def)
qed

lemma sample_change_ok: "change_ok sample_change"
  using sample_file_ok [of "''f''" StatusModified] sample_texts(2)
  by (simp add: change_ok_def sample_change_def nul_def) (simp add: sample_file_def)

theorem Diff_exact_witness:
  "Diff (diff_tree_of [sample_change]) 65536 [] sample_hash \<lparr>dm_MaxFiles = int 3, dm_MaxLines = int 1, dm_MaxLineBytes = int 2000\<rparr> =
   ok \<lparr>dr_Files = [(sample_file ''f'' StatusModified)\<lparr>df_PatchTruncated := True, df_Hunks :=
         [\<lparr>hk_Header = ''@@ -1 +1,2 @@'',
           hk_Lines = [\<lparr>dl_Kind = LineContext, dl_OldNumber = 1, dl_NewNumber = 1, dl_Text = ''a'', dl_Truncated = False\<rparr>]\<rparr>]\<rparr>],
       dr_MoreFiles = 0\<rparr>"
proof -
  have "list_all (\<lambda>c. df_Status (ch_file c) \<noteq> StatusTypeChanged) [sample_change]"
    "list_all (list_all (section_ok 2000) \<circ> ch_sections) [sample_change]"
    using sample_section_ok [of "''b''"] by (simp_all add: sample_change_def sample_file_def)
  note exact = Diff_exact [OF sample_texts(1) _ _ this, of "[]" 65536 3 1]
  have "show_files 2000 1 (take 3 (map ch_file [sample_change])) (map (hd \<circ> ch_sections) [sample_change]) =
     [(sample_file ''f'' StatusModified)\<lparr>df_PatchTruncated := True, df_Hunks :=
         [\<lparr>hk_Header = ''@@ -1 +1,2 @@'',
           hk_Lines = [\<lparr>dl_Kind = LineContext, dl_OldNumber = 1, dl_NewNumber = 1, dl_Text = ''a'', dl_Truncated = False\<rparr>]\<rparr>]\<rparr>]"
    by (simp add: sample_change_def sample_section_def sample_file_def hunk_lines_def show_file_def show_hunk_def mark_truncated_def
        hunk_ranges_def range_text_def format_small old_side_def new_side_def ToValidUTF8_Cons)
  then show ?thesis using exact sample_change_ok by simp
qed

text \<open>
  C25: Whatever git prints, a diff that is returned keeps to the limits of files and of lines, and each line to the
  limit of bytes, except that a byte that is not UTF-8 may become three.
\<close>

theorem Diff_within_limits:
  assumes "Diff git b from to \<lparr>dm_MaxFiles = int m, dm_MaxLines = int k, dm_MaxLineBytes = int n\<rparr> = ok d" and "1 \<le> n"
  shows "length (dr_Files d) \<le> m \<and> 0 \<le> dr_MoreFiles d \<and> sum_list (map file_lines (dr_Files d)) \<le> k \<and>
    (\<forall>f \<in> set (dr_Files d). \<forall>h \<in> set (df_Hunks f). \<forall>l \<in> set (hk_Lines h). length (dl_Text l) \<le> 3 * n)"
  using Diff_within [OF assms refl]
  by (auto simp: files_within_def file_short_def lines_short_def list_all_iff)

theorem Diff_within_limits_witness:
  "\<exists>d. Diff (diff_tree_of [sample_change]) 65536 [] sample_hash \<lparr>dm_MaxFiles = int 3, dm_MaxLines = int 1, dm_MaxLineBytes = int 2000\<rparr> = ok d \<and>
    sum_list (map file_lines (dr_Files d)) \<le> 1"
proof -
  have sections: "list_all (list_all (section_ok 2000) \<circ> ch_sections) [sample_change]"
    using sample_section_ok [of "''b''"] by (simp add: sample_change_def)
  obtain d where "Diff (diff_tree_of [sample_change]) 65536 [] sample_hash \<lparr>dm_MaxFiles = int 3, dm_MaxLines = int 1, dm_MaxLineBytes = int 2000\<rparr> = ok d"
    using Diff_shows [OF sample_texts(1) _ _ _ sections refl, of "[]" 65536 3 1] sample_change_ok by simp
  then show ?thesis using Diff_within_limits [of "diff_tree_of [sample_change]" 65536 "[]" sample_hash 3 1 2000 d] by auto
qed

text \<open>
  C31: A change of type is one entry of the list and two sections of the patch, so every section after it is shown with
  the wrong file: the file of the change shows its deletion only, the next file its creation.
\<close>

theorem typechange_shifts_patch:
  assumes "IsHash to" and "from = [] \<or> IsHash from" and "11 \<le> n"
    and "change_ok c1" and "df_Status (ch_file c1) = StatusTypeChanged" and "ch_sections c1 = [deletion, creation]"
    and "change_ok c2" and "list_all (section_ok n) (deletion # creation # ch_sections c2)"
    and "hunk_lines (ps_hunks deletion) + hunk_lines (ps_hunks creation) \<le> k"
  shows "Diff (diff_tree_of [c1, c2]) b from to \<lparr>dm_MaxFiles = int 2, dm_MaxLines = int k, dm_MaxLineBytes = int n\<rparr> =
    ok \<lparr>dr_Files = [show_file n (ch_file c1) (ps_hunks deletion), show_file n (ch_file c2) (ps_hunks creation)],
        dr_MoreFiles = 0\<rparr>"
proof -
  have "show_files n k [ch_file c1, ch_file c2] (deletion # creation # ch_sections c2) =
     [show_file n (ch_file c1) (ps_hunks deletion), show_file n (ch_file c2) (ps_hunks creation)]"
    using assms(9) by simp
  then show ?thesis using Diff_shows [OF assms(1,2) _ assms(3) _ refl, of "[c1, c2]" b 2 k] assms(4-8) by simp
qed

definition sample_typechange :: change where
  "sample_typechange = \<lparr>ch_file = sample_file ''l'' StatusTypeChanged, ch_oldBlob = sample_hash, ch_newBlob = sample_hash,
     ch_sections = [sample_section ''x'', sample_section ''y'']\<rparr>"

theorem typechange_shifts_patch_witness:
  "Diff (diff_tree_of [sample_typechange, sample_change]) 65536 [] sample_hash
     \<lparr>dm_MaxFiles = int 2, dm_MaxLines = int 100, dm_MaxLineBytes = int 2000\<rparr> =
   ok \<lparr>dr_Files = [show_file 2000 (sample_file ''l'' StatusTypeChanged) (ps_hunks (sample_section ''x'')),
                   show_file 2000 (sample_file ''f'' StatusModified) (ps_hunks (sample_section ''y''))],
       dr_MoreFiles = 0\<rparr>"
proof -
  have c1: "change_ok sample_typechange"
    using sample_file_ok [of "''l''" StatusTypeChanged] sample_texts(2)
    by (simp add: change_ok_def sample_typechange_def nul_def) (simp add: sample_file_def)
  have "df_Status (ch_file sample_typechange) = StatusTypeChanged" "ch_sections sample_typechange = [sample_section ''x'', sample_section ''y'']"
    by (simp_all add: sample_typechange_def sample_file_def)
  moreover have "list_all (section_ok 2000) (sample_section ''x'' # sample_section ''y'' # ch_sections sample_change)"
    using sample_section_ok by (simp add: sample_change_def)
  moreover have "hunk_lines (ps_hunks (sample_section ''x'')) + hunk_lines (ps_hunks (sample_section ''y'')) \<le> 100"
    by (simp add: sample_section_def hunk_lines_def)
  ultimately have "Diff (diff_tree_of [sample_typechange, sample_change]) 65536 [] sample_hash
     \<lparr>dm_MaxFiles = int 2, dm_MaxLines = int 100, dm_MaxLineBytes = int 2000\<rparr> =
   ok \<lparr>dr_Files = [show_file 2000 (ch_file sample_typechange) (ps_hunks (sample_section ''x'')),
                   show_file 2000 (ch_file sample_change) (ps_hunks (sample_section ''y''))],
       dr_MoreFiles = 0\<rparr>"
    by (intro typechange_shifts_patch [OF sample_texts(1) _ _ c1 _ _ sample_change_ok]) simp_all
  then show ?thesis by (simp add: sample_typechange_def sample_change_def)
qed

end
