(* ===== verification/Spec2Isabelle.thy ===== *)
theory Spec2Isabelle
  imports Names Rules Redact Image_Refs Pipeline_Facts Scheduler Ci_Run_Properties Ci_Refinement Images Auth_Properties Push_Properties Repo_Properties Git_Reads Git_Pool_Properties Git_Diff_Properties
begin

text \<open>
  Gitman is a self-hosted Git service: it hosts bare repositories, decides who may read and push, records
  pushes, and runs the pipeline of a commit on workers, which may build images and deploy. This library
  models its core logic, the Go packages under \<open>src/internal\<close>, and proves what makes it correct.

  \<^bold>\<open>How the parts work together.\<close> A push arrives over HTTP and is read and checked by package \<open>push\<close>
  against the names and patterns of \<open>git/refs.go\<close> and the rules of \<open>repo/rules.go\<close>. An accepted push is
  written to the journal of pending operations (\<open>repo/operations.go\<close>), applied to Git in one transaction that
  leaves a receipt, and recorded in PostgreSQL; whatever is cut off is finished by recovery. Recording a push
  plans runs (\<open>ci/scheduler.go\<close>) from the pipeline file of the commit (\<open>ci/pipeline.go\<close>), which the run service
  (\<open>ci/service.go\<close>, \<open>ci/store.go\<close>) hands to workers, whose output passes through \<open>redact\<close>. A deploy step holds
  its target as a lock with a fencing generation. Creating, deleting and re-heading repositories goes through
  the same journal. Package \<open>auth\<close> keeps people, sessions and access tokens. Pages and pipelines read objects
  through the reader pool and the object cache of package \<open>git\<close>.

  \<^bold>\<open>Representation.\<close> A Go string is a list of bytes; a struct is a record, an enumeration a datatype, a
  table a list of rows, a transaction a function from tables to an error or new tables (an error leaves the
  tables as they were), a clock value an argument of type \<open>timestamp\<close>. The text of most errors is a
  constructor that names it. Numbers of Go type \<open>int\<close> and \<open>int64\<close> are \<open>int\<close> or \<open>nat\<close>, with the width written
  out where text is parsed (\<open>parse_int\<close>); elsewhere limits keep them far from the edge.

  \<^bold>\<open>Shared theories.\<close>
  \<^item> \<open>Gitman_Prelude\<close>, \<open>Utf8_Facts\<close>, \<open>Go_Text\<close>: what the source uses of Go's \<open>strings\<close>, \<open>strconv\<close> and \<open>utf8\<close>,
    and that reading a number, a word or a rune undoes writing it; \<open>update_where\<close>, the SQL update of rows.
  \<^item> \<open>Apperr\<close>: \<open>apperr/errors.go\<close>, and the results every component returns.
  \<^item> \<open>Transitions\<close>: sequences of operations; locales for invariants, for an order along which a system moves
    and for refinement, interpreted by each system below.
  \<^item> \<open>Precedence\<close>: the locale of a choice of the best candidate, interpreted for patterns, versions and images.

  \<^bold>\<open>Names, rules and text.\<close>
  \<^item> \<open>Names\<close> (\<open>names/names.go\<close>); \<open>Git_Refs\<close> (\<open>git/refs.go\<close>: names, wildcard matching proved equal to the
    language of the pattern, the most specific pattern, the version order as an order of keys); \<open>Rules\<close>
    (\<open>repo/rules.go\<close>, \<open>repo/repo.go\<close>: decisions do not depend on the order of rules).
  \<^item> \<open>Redact\<close> (\<open>redact/stream.go\<close>): the Aho-Corasick automaton is built correctly, masking replaces exactly the
    runs of bytes covered by a secret, and chunks of a stream are masked as the whole text would be.
  \<^item> \<open>Image_Refs\<close> (\<open>ci/image.go\<close>), \<open>Images\<close> (\<open>ci/images.go\<close>): canonical references, and pruning that never
    removes an image that is used, required or deployed.

  \<^bold>\<open>Pipelines and runs.\<close>
  \<^item> \<open>Pipeline\<close>, \<open>Pipeline_Facts\<close> (\<open>ci/pipeline.go\<close>): a file that is accepted is well formed.
  \<^item> \<open>Scheduler\<close> (\<open>ci/scheduler.go\<close>, \<open>ci/run.go\<close>): exactly when a run is queued.
  \<^item> \<open>Ci_Store\<close>, \<open>Ci_Service\<close>: the tables and every operation of \<open>ci/store.go\<close>, \<open>ci/service.go\<close>,
    \<open>ci/deploy_owner.go\<close> and \<open>ci/worker_release.go\<close> that changes them. \<open>Ci_Invariant\<close>, \<open>Ci_Preserve\<close>,
    \<open>Ci_Lifecycle\<close>, \<open>Ci_System\<close>: the invariant and its preservation, the service as a transition system.
    \<open>Ci_History\<close>, \<open>Ci_Ownership\<close>, \<open>Ci_Queue\<close>: what only moves one way. \<open>Ci_Sample\<close>: a run from push to
    deployment, written out. \<open>Ci_Properties\<close>, \<open>Ci_Run_Properties\<close>: the properties. \<open>Ci_Refinement\<close>: the
    service implements a fencing lock per deployment target.

  \<^bold>\<open>Accounts.\<close> \<open>Auth\<close>, \<open>Auth_Service\<close> (\<open>auth/person.go\<close>, \<open>auth/token.go\<close>, \<open>auth/store.go\<close>, \<open>auth/service.go\<close>),
  \<open>Auth_System\<close>, \<open>Auth_Properties\<close>: credentials belong to the current generation of an enabled person, an
  enabled admin remains, revocation is final.

  \<^bold>\<open>Pushes and repositories.\<close>
  \<^item> \<open>Push\<close>, \<open>Push_Facts\<close> (\<open>push/receive.go\<close>, \<open>git/transaction.go\<close>): reading and checking a push.
  \<^item> \<open>Push_Record\<close>, \<open>Push_System\<close>, \<open>Push_Properties\<close> (\<open>push/proc.go\<close>, \<open>push/store.go\<close>, \<open>repo/operations.go\<close>): the
    journal, the transaction of Git and of the database, recovery; a push is recorded exactly once.
  \<^item> \<open>Repos\<close>, \<open>Repo_Lifecycle\<close> (\<open>repo/service.go\<close>, \<open>repo/store.go\<close>, \<open>repo/operations.go\<close>, \<open>git/repository.go\<close>,
    \<open>git/mutation.go\<close>): settings and access, creation, deletion, default branch, recovery, quarantine.
    \<open>Repo_System\<close>, \<open>Repo_Pushes\<close>, \<open>Repo_Preserve\<close>, \<open>Repo_Operations\<close>, \<open>Repo_Properties\<close>: composed with pushes
    and runs, rows and directories agree up to pending or abandoned operations, and recovery finishes.

  \<^bold>\<open>Git objects.\<close>
  \<^item> \<open>Git_Objects\<close>, \<open>Git_Object_Facts\<close> (\<open>git/objects.go\<close>, the reader of \<open>git/repository.go\<close>): trees and commits
    are read back exactly.
  \<^item> \<open>Git_Cache\<close>, \<open>Git_Cache_Properties\<close>, \<open>Git_Reads\<close> (\<open>git/repository.go\<close>, \<open>git/commits.go\<close>): the cache is a
    least-recently-used cache within its budget, and reads through it agree with the object database.
  \<^item> \<open>Git_Pool\<close>, \<open>Git_Pool_Properties\<close> (\<open>git/repository.go\<close>): the interleaving of requests for readers.
  \<^item> \<open>Git_Diff\<close> (\<open>git/diff.go\<close>): the three readers of \<open>git diff-tree\<close> and \<open>Diff\<close>. \<open>Git_Diff_Facts\<close>: a line is read
    as without a buffer, a patch as its lines; \<open>Git_Patch\<close>, \<open>Git_Changes\<close>: the texts git documents and what is read
    from them; \<open>Git_Diff_Properties\<close>: a diff is exact up to its limits, and never exceeds them.

  \<^bold>\<open>Parameters and bounds.\<close> What is not under \<open>src\<close> is an argument: the YAML decoder (\<open>parse\<close>), the hash of
  a token and the verdict of bcrypt (\<open>hash\<close>, \<open>verify\<close>), random identifiers, the clock, git (\<open>git_env\<close>, whose
  transactions are assumed to be all or nothing, \<open>git_transaction\<close>; \<open>contents\<close> and \<open>answer\<close> for the object
  readers, \<open>diff_tree\<close> for diffs), the file system (\<open>store_attempt\<close>), and the order in which Go visits a map. Each such hypothesis
  has a witness with a concrete function. No definition takes fuel: recursion is structural or by a
  measure, the pruning of runs by the number of runs left. Letters are lowered in ASCII, and a name
  with other letters is refused by the check that follows, with the one exception \<open>Repo_Lifecycle\<close> names.
  Transactions are serial: the locks that order them (advisory locks, row locks, the mutation lock of a
  repository) are what makes them so, and an operation that could not lock is an argument of it.

  \<^bold>\<open>Not modelled.\<close> Web pages and the HTTP handlers of package \<open>web\<close>, the worker process, which drives Docker
  and the file system, the connections, locks and migrations of package \<open>postgres\<close>, the activity feed,
  configuration, the commands under \<open>cmd\<close>, random identifiers and hashing: input and output around the
  services, or parameters above. Of package \<open>git\<close>: logs, archives, the smart HTTP protocol and
  maintenance, which run git. Of package \<open>repo\<close>: read models, retention of commits, disk quotas, secrets.

  \<^bold>\<open>What modelling showed.\<close> An operation that creates, deletes or re-heads a repository leaves no receipt,
  so it can be abandoned after it has changed the store (\<open>repo/operations.go\<close>); hence the condition on
  abandoned operations in \<open>storage_agrees\<close>. A reader that is discarded leaves the pool before its process
  ends, so the limit on processes can be exceeded for a moment (\<open>reader_limit_exceeded\<close>). A change of type
  is one entry of a diff and two sections of its patch, so what follows is shown with the wrong files
  (\<open>typechange_shifts_patch\<close>); a line of exactly the limit of bytes counts as truncated. The limit on the
  reason of an abandonment counts bytes, its message characters.
\<close>

end
